(* ===== verification/Prelude.thy ===== *)
theory Prelude
  imports Main "HOL-Library.Word" "HOL-Library.List_Lexorder" "HOL-Library.Multiset"
begin

text \<open>
  Shared vocabulary of the development: the machine integers and byte strings of the XDR
  layer, errors as values with the small calculus the component proofs use
  (\<open>bindE\<close>, \<open>deref\<close>, \<open>dbgAssert\<close>, \<open>post\<close>), and the ordered containers of the C++ standard
  library (\<^verbatim>\<open>std::set\<close>, \<^verbatim>\<open>std::map\<close>, \<^verbatim>\<open>std::includes\<close>) as sorted lists, each with the
  laws the components rely on stated as a locale and discharged by an interpretation.
\<close>

section \<open>Machine types\<close>

type_synonym uint8 = "8 word"
type_synonym uint32 = "32 word"
type_synonym uint64 = "64 word"
type_synonym bytes = "8 word list"

text \<open>
  \<^verbatim>\<open>opaque\<close> data is a byte list, ordered lexicographically (\<^verbatim>\<open>std::vector::operator<\<close>).
  A \<^verbatim>\<open>NodeID\<close> is a \<^verbatim>\<open>PublicKey\<close>, a union with one arm (\<^verbatim>\<open>uint256 ed25519\<close>), so it is its key
  bytes; its XDR order is the lexicographic order of those bytes.
\<close>

type_synonym NodeID = bytes
type_synonym Value = bytes
type_synonym Hash = bytes

abbreviation UINT32_MAX :: uint32 where
  "UINT32_MAX \<equiv> 4294967295"

abbreviation UINT64_MAX :: uint64 where
  "UINT64_MAX \<equiv> 18446744073709551615"

named_theorems post_simps "how the postcondition operator distributes over the program combinators"
named_theorems container_simps "what the standard containers hold after an operation"

lemma unat_bound: "unat (x :: 'a::len word) < 2 ^ LENGTH('a)"
  by (rule unsigned_less)

lemma unat_ucast_widen:
  "LENGTH('a) \<le> LENGTH('b) \<Longrightarrow> unat (ucast (x :: 'a::len word) :: 'b::len word) = unat x"
proof -
  assume le: "LENGTH('a) \<le> LENGTH('b)"
  have "unat x < 2 ^ LENGTH('a)" by (rule unat_bound)
  also have "\<dots> \<le> (2::nat) ^ LENGTH('b)" using le by (rule power_increasing) simp
  finally show ?thesis
    by (simp add: unsigned_ucast_eq take_bit_nat_eq_self)
qed

lemma unat_of_nat_small: "n < 2 ^ LENGTH('a) \<Longrightarrow> unat (of_nat n :: 'a::len word) = n"
  by (simp add: unat_of_nat)

section \<open>Errors as values\<close>

text \<open>
  \<open>Dbg_Abort\<close> is a failed \<^verbatim>\<open>dbgAssert\<close> or a call of \<^verbatim>\<open>dbgAbort\<close>/\<^verbatim>\<open>abort\<close>, \<open>Null_Deref\<close> is
  a read through a null smart pointer or a reference to an object that is gone (undefined behaviour of the C++ code), \<open>Runtime_Error\<close> is a
  thrown \<^verbatim>\<open>std::runtime_error\<close>, \<open>Signed_Overflow\<close> is an overflow of signed arithmetic (undefined
  behaviour), and \<open>Out_Of_Fuel\<close> is the model's own marker for a recursion that was cut off; the
  components prove that it does not arise.
\<close>

datatype scp_error =
    Dbg_Abort
  | Null_Deref
  | Runtime_Error string
  | Signed_Overflow
  | Out_Of_Fuel

definition bindE :: "'e + 'a \<Rightarrow> ('a \<Rightarrow> 'e + 'b) \<Rightarrow> 'e + 'b" where
  "bindE m f = (case m of Inl e \<Rightarrow> Inl e | Inr x \<Rightarrow> f x)"

definition deref :: "'a option \<Rightarrow> scp_error + 'a" where
  "deref p = (case p of None \<Rightarrow> Inl Null_Deref | Some x \<Rightarrow> Inr x)"

text \<open>
  \<^verbatim>\<open>dbgAssert\<close> of \<^verbatim>\<open>util/GlobalChecks.h\<close>: with \<^verbatim>\<open>NDEBUG\<close> the condition is not evaluated at
  all, otherwise it is evaluated (which may itself read through a null pointer) and must hold.
\<close>

definition dbgAssert :: "bool \<Rightarrow> scp_error + bool \<Rightarrow> scp_error + unit" where
  "dbgAssert ndebug c =
     (if ndebug then Inr ()
      else bindE c (\<lambda>b. if b then Inr () else Inl Dbg_Abort))"

text \<open>
  \<^verbatim>\<open>assert\<close>: the assertions are checked here; the theorems show that they hold, so a build without them
  behaves the same.
\<close>

definition assertE :: "bool \<Rightarrow> scp_error + unit" where
  "assertE c = (if c then Inr () else Inl Dbg_Abort)"

fun foldE :: "('a \<Rightarrow> 's \<Rightarrow> 'e + 's) \<Rightarrow> 'a list \<Rightarrow> 's \<Rightarrow> 'e + 's" where
  "foldE f [] s = Inr s"
| "foldE f (x # xs) s = bindE (f x s) (foldE f xs)"

fun filterE :: "('a \<Rightarrow> 'e + bool) \<Rightarrow> 'a list \<Rightarrow> 'e + 'a list" where
  "filterE p [] = Inr []"
| "filterE p (x # xs) =
     bindE (p x) (\<lambda>b. bindE (filterE p xs) (\<lambda>ys. Inr (if b then x # ys else ys)))"

lemma bindE_simps [simp]:
  "bindE (Inl e) f = Inl e"
  "bindE (Inr x) f = f x"
  by (simp_all add: bindE_def)

lemma bindE_Inr_iff: "bindE m f = Inr y \<longleftrightarrow> (\<exists>x. m = Inr x \<and> f x = Inr y)"
  by (cases m) simp_all

lemma bindE_Inl_iff: "bindE m f = Inl e \<longleftrightarrow> m = Inl e \<or> (\<exists>x. m = Inr x \<and> f x = Inl e)"
  by (cases m) simp_all

lemma bindE_assoc: "bindE (bindE m f) g = bindE m (\<lambda>x. bindE (f x) g)"
  by (cases m) simp_all

lemma deref_simps [simp]: "deref None = Inl Null_Deref" "deref (Some x) = Inr x"
  by (simp_all add: deref_def)

lemma deref_Inr_iff [simp]: "deref p = Inr x \<longleftrightarrow> p = Some x"
  by (cases p) simp_all

lemma dbgAssert_simps [simp]:
  "dbgAssert True c = Inr ()"
  "dbgAssert nd (Inr True) = Inr ()"
  "dbgAssert False (Inr False) = Inl Dbg_Abort"
  "dbgAssert False (Inl e) = Inl e"
  by (simp_all add: dbgAssert_def)

lemma filterE_pure: "(\<And>x. x \<in> set xs \<Longrightarrow> p x = Inr (q x)) \<Longrightarrow> filterE p xs = Inr (filter q xs)"
  by (induction xs) simp_all

lemma filterE_filter: "filterE p xs = Inr ys \<Longrightarrow> ys = filter (\<lambda>x. p x = Inr True) xs"
proof (induction xs arbitrary: ys)
  case Nil
  then show ?case by simp
next
  case (Cons x xs)
  then show ?case
    by (auto simp: bindE_Inr_iff)
qed

lemma filterE_Inr_D: "filterE p xs = Inr ys \<Longrightarrow> x \<in> set xs \<Longrightarrow> \<exists>b. p x = Inr b"
  by (induction xs arbitrary: ys) (auto simp: bindE_Inr_iff)

text \<open>
  \<open>post m Q\<close>: if \<open>m\<close> returns, its result satisfies \<open>Q\<close>. Statements that something does
  return are made separately, with an equation \<open>m = Inr x\<close>.
\<close>

definition post :: "'e + 'a \<Rightarrow> ('a \<Rightarrow> bool) \<Rightarrow> bool" where
  "post m Q \<longleftrightarrow> (\<forall>x. m = Inr x \<longrightarrow> Q x)"

lemma post_basic [simp, post_simps]:
  "post (Inl e) Q"
  "post (Inr x) Q \<longleftrightarrow> Q x"
  by (simp_all add: post_def)

lemma post_bindE [post_simps]: "post (bindE m f) Q \<longleftrightarrow> post m (\<lambda>x. post (f x) Q)"
  by (cases m) simp_all

lemma post_deref [post_simps]: "post (deref p) Q \<longleftrightarrow> (\<forall>x. p = Some x \<longrightarrow> Q x)"
  by (cases p) simp_all

lemma post_dbgAssert [post_simps]:
  "post (dbgAssert nd c) Q \<longleftrightarrow> (nd \<or> c = Inr True \<longrightarrow> Q ())"
  by (cases nd; cases c) (auto simp: dbgAssert_def post_def)

lemma post_mono: "post m P \<Longrightarrow> (\<And>x. P x \<Longrightarrow> Q x) \<Longrightarrow> post m Q"
  by (simp add: post_def)

lemma postD: "post m Q \<Longrightarrow> m = Inr x \<Longrightarrow> Q x"
  by (simp add: post_def)

lemma post_True [simp]: "post m (\<lambda>_. True)"
  by (simp add: post_def)

section \<open>Ordered containers\<close>

subsection \<open>\<^verbatim>\<open>std::set\<close>\<close>

text \<open>A set is the list of its elements in ascending order, which is its iteration order.\<close>

fun set_insert :: "'a::linorder \<Rightarrow> 'a list \<Rightarrow> 'a list" where
  "set_insert x [] = [x]"
| "set_insert x (y # ys) =
     (if x < y then x # y # ys else if x = y then y # ys else y # set_insert x ys)"

definition set_of :: "'a::linorder list \<Rightarrow> 'a list" where
  "set_of xs = fold set_insert xs []"

abbreviation strict_sorted :: "'a::linorder list \<Rightarrow> bool" where
  "strict_sorted \<equiv> sorted_wrt (<)"

lemma set_set_insert [simp, container_simps]: "set (set_insert x xs) = insert x (set xs)"
  by (induction xs) auto

lemma strict_sorted_set_insert: "strict_sorted xs \<Longrightarrow> strict_sorted (set_insert x xs)"
  by (induction xs) auto

lemma set_insert_absorb: "strict_sorted xs \<Longrightarrow> x \<in> set xs \<Longrightarrow> set_insert x xs = xs"
  by (induction xs) auto

lemma strict_sorted_distinct: "strict_sorted xs \<Longrightarrow> distinct xs"
  by (induction xs) auto

lemma fold_set_insert:
  "strict_sorted ys \<Longrightarrow>
   strict_sorted (fold set_insert xs ys) \<and> set (fold set_insert xs ys) = set xs \<union> set ys"
  by (induction xs arbitrary: ys) (auto simp: strict_sorted_set_insert)

lemma set_set_of [simp, container_simps]: "set (set_of xs) = set xs"
  using fold_set_insert [of "[]" xs] by (simp add: set_of_def)

lemma strict_sorted_set_of: "strict_sorted (set_of xs)"
  using fold_set_insert [of "[]" xs] by (simp add: set_of_def)

text \<open>The contract of an ordered set, and the facts its users need.\<close>

locale ordered_set =
  fixes ins :: "'a::linorder \<Rightarrow> 's \<Rightarrow> 's"
    and els :: "'s \<Rightarrow> 'a list"
    and inv :: "'s \<Rightarrow> bool"
  assumes els_ins: "inv s \<Longrightarrow> set (els (ins x s)) = insert x (set (els s))"
    and inv_ins: "inv s \<Longrightarrow> inv (ins x s)"
    and inv_sorted: "inv s \<Longrightarrow> strict_sorted (els s)"
begin

lemma inv_fold: "inv s \<Longrightarrow> inv (fold ins xs s)"
  by (induction xs arbitrary: s) (simp_all add: inv_ins)

lemma els_fold: "inv s \<Longrightarrow> set (els (fold ins xs s)) = set xs \<union> set (els s)"
  by (induction xs arbitrary: s) (auto simp: els_ins inv_ins)

text \<open>Inserting is idempotent: the iteration order is determined by the elements.\<close>

lemma ins_present: "inv s \<Longrightarrow> x \<in> set (els s) \<Longrightarrow> els (ins x s) = els s"
  by (metis els_ins insert_absorb inv_ins inv_sorted strict_sorted_equal)

lemma size_ins: "inv s \<Longrightarrow> length (els (ins x s)) =
    (if x \<in> set (els s) then length (els s) else Suc (length (els s)))"
  by (metis card_insert_if distinct_card els_ins finite_set inv_ins inv_sorted
      strict_sorted_distinct)

end

interpretation sl: ordered_set set_insert "\<lambda>xs. xs" strict_sorted
  by unfold_locales (simp_all add: strict_sorted_set_insert)

subsection \<open>\<^verbatim>\<open>std::map\<close>\<close>

text \<open>A map is an association list with ascending keys; \<^verbatim>\<open>find\<close> is \<^term>\<open>map_of\<close>.\<close>

fun map_put :: "'k::linorder \<Rightarrow> 'v \<Rightarrow> ('k \<times> 'v) list \<Rightarrow> ('k \<times> 'v) list" where
  "map_put k v [] = [(k, v)]"
| "map_put k v ((k', v') # m) =
     (if k < k' then (k, v) # (k', v') # m
      else if k = k' then (k, v) # m
      else (k', v') # map_put k v m)"

abbreviation map_ok :: "('k::linorder \<times> 'v) list \<Rightarrow> bool" where
  "map_ok m \<equiv> strict_sorted (map fst m)"

lemma fst_map_put [simp]: "set (map fst (map_put k v m)) = insert k (set (map fst m))"
  by (induction k v m rule: map_put.induct) auto

lemma map_ok_put: "map_ok m \<Longrightarrow> map_ok (map_put k v m)"
proof (induction k v m rule: map_put.induct)
  case (2 k v k' v' m)
  have "set (map fst (map_put k v m)) = insert k (set (map fst m))"
    by (rule fst_map_put)
  with 2 show ?case by auto
qed simp

lemma map_of_put: "map_ok m \<Longrightarrow> map_of (map_put k v m) = (map_of m)(k \<mapsto> v)"
  by (induction k v m rule: map_put.induct) (auto simp: fun_eq_iff)

locale ordered_map =
  fixes put :: "'k::linorder \<Rightarrow> 'v \<Rightarrow> 'm \<Rightarrow> 'm"
    and find :: "'m \<Rightarrow> 'k \<Rightarrow> 'v option"
    and items :: "'m \<Rightarrow> ('k \<times> 'v) list"
    and inv :: "'m \<Rightarrow> bool"
  assumes find_put: "inv m \<Longrightarrow> find (put k v m) = (find m)(k \<mapsto> v)"
    and inv_put: "inv m \<Longrightarrow> inv (put k v m)"
    and items_find: "inv m \<Longrightarrow> (k, v) \<in> set (items m) \<longleftrightarrow> find m k = Some v"
begin

lemma items_put: "inv m \<Longrightarrow>
    set (items (put k v m)) = insert (k, v) {(k', v') \<in> set (items m). k' \<noteq> k}"
  by (auto simp: items_find find_put inv_put split: if_splits)

lemma find_put_other: "inv m \<Longrightarrow> k \<noteq> k' \<Longrightarrow> find (put k v m) k' = find m k'"
  by (simp add: find_put)

lemma find_put_same: "inv m \<Longrightarrow> find (put k v m) k = Some v"
  by (simp add: find_put)

end

interpretation om: ordered_map map_put map_of "\<lambda>m. m" map_ok
proof unfold_locales
  fix m :: "('k::linorder \<times> 'v) list" and k v
  assume "map_ok m"
  then have "distinct (map fst m)" by (rule strict_sorted_distinct)
  then show "(k, v) \<in> set m \<longleftrightarrow> map_of m k = Some v" by simp
qed (simp_all add: map_of_put map_ok_put)

subsection \<open>\<^verbatim>\<open>std::includes\<close>\<close>

text \<open>
  The merge walk of \<^verbatim>\<open>std::includes(v.begin(), v.end(), p.begin(), p.end())\<close> over two sorted
  ranges: is every element of \<open>p\<close>, with its multiplicity, in \<open>v\<close>?
\<close>

fun includes_range :: "'a::linorder list \<Rightarrow> 'a list \<Rightarrow> bool" where
  "includes_range v [] = True"
| "includes_range [] (y # p) = False"
| "includes_range (x # v) (y # p) =
     (if y < x then False else if x < y then includes_range v (y # p) else includes_range v p)"

lemma includes_range_iff_subset_mset:
  "sorted v \<Longrightarrow> sorted p \<Longrightarrow> includes_range v p \<longleftrightarrow> mset p \<subseteq># mset v"
proof (induction v p rule: includes_range.induct)
  case (3 x v y p)
  show ?case
  proof (cases "y < x")
    case True
    with "3.prems" have "y \<notin># mset (x # v)" by auto
    then have "\<not> mset (y # p) \<subseteq># mset (x # v)"
      by (metis mset_subset_eqD set_mset_mset list.set_intros(1))
    with True show ?thesis by simp
  next
    case not_less: False
    show ?thesis
    proof (cases "x < y")
      case True
      with "3.prems" have "x \<notin># mset (y # p)" by auto
      then have "mset (y # p) \<subseteq># mset (x # v) \<longleftrightarrow> mset (y # p) \<subseteq># mset v"
        by (metis diff_single_trivial mset.simps(2) subset_eq_diff_conv add_mset_add_single)
      with True not_less "3.IH"(1) "3.prems" show ?thesis by simp
    next
      case False
      with not_less have "x = y" by simp
      with "3.IH"(2) "3.prems" show ?thesis by simp
    qed
  qed
qed simp_all

end
