(* ===== verification/SCP_Types.thy ===== *)
theory SCP_Types
  imports Prelude
begin

text \<open>
  The data of the consensus protocol (\<^verbatim>\<open>src/xdr/Stellar-SCP.x\<close>): ballots, quorum sets, the four kinds
  of statement and envelopes. The union \<^verbatim>\<open>SCPStatement.pledges\<close> is split in two: the ballot protocol
  is only ever handed PREPARE, CONFIRM and EXTERNALIZE statements and the nomination protocol only
  NOMINATE statements (\<^verbatim>\<open>Slot::processEnvelope\<close> dispatches on the tag), so each gets a statement type
  with just those arms and the \<^verbatim>\<open>default: dbgAbort()\<close> arms of the code cannot be expressed.
\<close>

section \<open>Ballots\<close>

datatype SCPBallot = SCPBallot (counter: uint32) (bvalue: Value)

text \<open>The XDR order of the structure: lexicographic in (counter, value).\<close>

instantiation SCPBallot :: linorder
begin

definition less_eq_SCPBallot :: "SCPBallot \<Rightarrow> SCPBallot \<Rightarrow> bool" where
  "less_eq_SCPBallot a b \<longleftrightarrow>
     counter a < counter b \<or> counter a = counter b \<and> bvalue a \<le> bvalue b"

definition less_SCPBallot :: "SCPBallot \<Rightarrow> SCPBallot \<Rightarrow> bool" where
  "less_SCPBallot a b \<longleftrightarrow>
     counter a < counter b \<or> counter a = counter b \<and> bvalue a < bvalue b"

instance
  by standard (auto simp: less_eq_SCPBallot_def less_SCPBallot_def SCPBallot.expand)

end

text \<open>\<^verbatim>\<open>SCPBallot()\<close>: counter 0 and the empty value.\<close>

definition default_ballot :: SCPBallot where
  "default_ballot = SCPBallot 0 []"

section \<open>Quorum sets\<close>

datatype SCPQuorumSet =
  SCPQuorumSet (threshold: uint32) (validators: "NodeID list") (innerSets: "SCPQuorumSet list")

section \<open>Statements and envelopes\<close>

record SCPPrepare =
  p_quorumSetHash :: Hash
  p_ballot :: SCPBallot
  p_prepared :: "SCPBallot option"
  p_preparedPrime :: "SCPBallot option"
  p_nC :: uint32
  p_nH :: uint32

record SCPConfirm =
  c_ballot :: SCPBallot
  c_nPrepared :: uint32
  c_nCommit :: uint32
  c_nH :: uint32
  c_quorumSetHash :: Hash

record SCPExternalize =
  e_commit :: SCPBallot
  e_nH :: uint32
  e_commitQuorumSetHash :: Hash

record SCPNomination =
  n_quorumSetHash :: Hash
  n_votes :: "Value list"
  n_accepted :: "Value list"

datatype BallotPledges =
    Prepare SCPPrepare
  | Confirm SCPConfirm
  | Externalize SCPExternalize

datatype SCPPledges =
    Ballot BallotPledges
  | Nominate SCPNomination

record 'p SCPStatement =
  nodeID :: NodeID
  slotIndex :: uint64
  pledges :: 'p

record 'p SCPEnvelope =
  statement :: "'p SCPStatement"
  signature :: bytes

type_synonym BallotStatement = "BallotPledges SCPStatement"
type_synonym BallotEnvelope = "BallotPledges SCPEnvelope"
type_synonym NominationStatement = "SCPNomination SCPStatement"
type_synonym NominationEnvelope = "SCPNomination SCPEnvelope"

text \<open>The wire form of a statement or envelope of one of the two protocols.\<close>

definition wire_statement :: "('p \<Rightarrow> SCPPledges) \<Rightarrow> 'p SCPStatement \<Rightarrow> SCPPledges SCPStatement" where
  "wire_statement tag st =
     \<lparr>nodeID = nodeID st, slotIndex = slotIndex st, pledges = tag (pledges st)\<rparr>"

definition wire_envelope :: "('p \<Rightarrow> SCPPledges) \<Rightarrow> 'p SCPEnvelope \<Rightarrow> SCPPledges SCPEnvelope" where
  "wire_envelope tag e =
     \<lparr>statement = wire_statement tag (statement e), signature = signature e\<rparr>"

definition retag_envelope :: "'p \<Rightarrow> 'q SCPEnvelope \<Rightarrow> 'p SCPEnvelope" where
  "retag_envelope p e =
     \<lparr>statement = \<lparr>nodeID = nodeID (statement e), slotIndex = slotIndex (statement e), pledges = p\<rparr>,
      signature = signature e\<rparr>"

text \<open>Dispatching on the tag and going back to the wire loses nothing.\<close>

lemma wire_retag [simp]:
  "pledges (statement e) = tag p \<Longrightarrow> wire_envelope tag (retag_envelope p e) = e"
  by (simp add: wire_envelope_def wire_statement_def retag_envelope_def)

lemma retag_wire [simp]:
  "retag_envelope (pledges (statement e)) (wire_envelope tag e) = e"
  by (simp add: wire_envelope_def wire_statement_def retag_envelope_def)

end
