(* ===== verification/Util_Types.thy ===== *)
theory Util_Types
  imports Prelude
begin

text \<open>
  The 128-bit arithmetic helpers of \<^verbatim>\<open>src/util/types.cpp\<close>. \<^verbatim>\<open>uint128_t\<close> is \<^typ>\<open>128 word\<close>; its
  division throws on a zero divisor.
\<close>

definition bigDivide_u64 :: "uint64 \<Rightarrow> uint64 \<Rightarrow> uint64 \<Rightarrow> scp_error + (bool \<times> uint64)" where
  "bigDivide_u64 A B C =
     (let a = ucast A :: 128 word; b = ucast B :: 128 word; c = ucast C :: 128 word in
      if c = 0 then Inl (Runtime_Error ''Error: division or modulus by 0'')
      else let x = (a * b) div c in Inr (x \<le> ucast UINT64_MAX, ucast x))"

lemma unat_u64_widen [simp]: "unat (ucast (x :: uint64) :: 128 word) = unat x"
  by (rule unat_ucast_widen) simp

lemma uint64_mult_fits:
  "unat ((ucast (A :: uint64) :: 128 word) * ucast (B :: uint64)) = unat A * unat B"
proof -
  have "unat A < 2 ^ 64" "unat B < 2 ^ 64"
    using unat_bound [of A] unat_bound [of B] by simp_all
  then have "unat A * unat B < 2 ^ 64 * 2 ^ 64"
    by (intro mult_strict_mono) simp_all
  then show ?thesis
    by (simp add: unat_word_ariths)
qed

lemma ucast_u64_eq_0 [simp]: "(ucast (C :: uint64) :: 128 word) = 0 \<longleftrightarrow> C = 0"
proof -
  have "unat (ucast C :: 128 word) = 0 \<longleftrightarrow> unat C = 0" by simp
  then show ?thesis by (simp only: unat_eq_0)
qed

text \<open>
  What the helper computes: the quotient of the exact product, its low 64 bits, and whether it fits.
\<close>

lemma bigDivide_u64_eq:
  assumes "C \<noteq> 0"
  shows "bigDivide_u64 A B C =
    (let q = unat A * unat B div unat C in Inr (q < 2 ^ 64, of_nat q))"
proof -
  let ?x = "((ucast A :: 128 word) * ucast B) div ucast C"
  have x: "unat ?x = unat A * unat B div unat C"
    by (simp add: unat_div_distrib uint64_mult_fits)
  have "?x \<le> ucast UINT64_MAX \<longleftrightarrow> unat ?x \<le> unat UINT64_MAX"
    by (simp only: word_le_nat_alt unat_u64_widen)
  also have "\<dots> \<longleftrightarrow> unat A * unat B div unat C < 2 ^ 64"
    by (simp add: x) arith
  finally have fits: "?x \<le> ucast UINT64_MAX \<longleftrightarrow> unat A * unat B div unat C < 2 ^ 64" .
  have "(ucast ?x :: uint64) = of_nat (unat ?x)"
    by (simp only: of_nat_unat)
  then have "(ucast ?x :: uint64) = of_nat (unat A * unat B div unat C)"
    by (simp only: x)
  with fits assms show ?thesis
    by (simp add: bigDivide_u64_def Let_def)
qed

text \<open>
  Scaling by a fraction at most one never overflows and never grows the value: the case of the
  node weights, where the fraction is threshold over number of entries.
\<close>

lemma bigDivide_u64_fraction:
  assumes "C \<noteq> 0" and "B \<le> C"
  shows "\<exists>r. bigDivide_u64 A B C = Inr (True, r) \<and> unat r = unat A * unat B div unat C \<and> r \<le> A"
proof -
  have "unat A * unat B div unat C \<le> unat A * unat C div unat C"
    using assms(2) by (intro div_le_mono mult_le_mono2) (simp add: word_le_nat_alt)
  also have "\<dots> = unat A"
    using assms(1) by (simp add: unat_eq_0)
  finally have le: "unat A * unat B div unat C \<le> unat A" .
  then have lt: "unat A * unat B div unat C < 2 ^ 64"
    using unat_bound [of A] by simp
  then have "unat (of_nat (unat A * unat B div unat C) :: uint64) = unat A * unat B div unat C"
    by (simp add: unat_of_nat)
  with le lt assms(1) show ?thesis
    by (simp add: bigDivide_u64_eq Let_def word_le_nat_alt)
qed

end
