(* ===== verification/LocalNode.thy ===== *)
theory LocalNode
  imports SCP_Types Util_Types
begin

text \<open>
  \<^verbatim>\<open>src/scp/LocalNode.cpp\<close>: quorum sets of the local node, quorum slices, v-blocking sets, quorums.
  First the operations, then the abstract reading of a quorum set (\<open>slice\<close>, \<open>blocking\<close>) and the
  lemmas that the operations implement it.
\<close>

section \<open>The local node\<close>

record LocalNode =
  mNodeID :: NodeID
  mIsValidator :: bool
  mQSet :: SCPQuorumSet
  mQSetHash :: Hash

definition buildSingletonQSet :: "NodeID \<Rightarrow> SCPQuorumSet" where
  "buildSingletonQSet n = SCPQuorumSet 1 [n] []"

definition getSingletonQSet :: "NodeID \<Rightarrow> SCPQuorumSet" where
  "getSingletonQSet n = buildSingletonQSet n"

section \<open>Sanity and normal form of quorum sets\<close>

text \<open>
  The loop that records validators: it stops with failure at the first node already known.
\<close>

fun insert_validators :: "NodeID list \<Rightarrow> NodeID list \<Rightarrow> bool \<times> NodeID list" where
  "insert_validators [] known = (True, known)"
| "insert_validators (n # ns) known =
     (if n \<in> set known then (False, known)
      else insert_validators ns (set_insert n known))"

fun isQuorumSetSaneInternal :: "SCPQuorumSet \<Rightarrow> NodeID list \<Rightarrow> bool \<Rightarrow> bool \<times> NodeID list"
  and isQuorumSetSaneInner :: "SCPQuorumSet list \<Rightarrow> NodeID list \<Rightarrow> bool \<Rightarrow> bool \<times> NodeID list"
where
  "isQuorumSetSaneInternal (SCPQuorumSet thr v i) knownNodes extraChecks =
     (let totEntries = of_nat (length v) + of_nat (length i) :: uint64;
          vBlockingSize = totEntries - ucast thr + 1
      in if thr \<ge> 1 \<and> ucast thr \<le> totEntries \<and>
            (\<not> extraChecks \<or> ucast thr \<ge> vBlockingSize)
         then (case insert_validators v knownNodes of
                 (ok, known) \<Rightarrow>
                   if \<not> ok then (False, known)
                   else isQuorumSetSaneInner i known extraChecks)
         else (False, knownNodes))"
| "isQuorumSetSaneInner [] known extraChecks = (True, known)"
| "isQuorumSetSaneInner (iSet # i) known extraChecks =
     (case isQuorumSetSaneInternal iSet known extraChecks of
        (ok, known') \<Rightarrow>
          if \<not> ok then (False, known') else isQuorumSetSaneInner i known' extraChecks)"

definition isQuorumSetSane :: "SCPQuorumSet \<Rightarrow> bool \<Rightarrow> bool" where
  "isQuorumSetSane qSet extraChecks = fst (isQuorumSetSaneInternal qSet [] extraChecks)"

definition is_singleton_set :: "SCPQuorumSet \<Rightarrow> bool" where
  "is_singleton_set q \<longleftrightarrow>
     threshold q = 1 \<and> length (validators q) = 1 \<and> length (innerSets q) = 0"

text \<open>
  The \<^verbatim>\<open>while\<close> loop of \<^verbatim>\<open>normalizeQSet\<close> over the (already normalised) inner sets: a singleton is
  erased and its validator appended to \<open>v\<close>, anything else stays.
\<close>

fun merge_singletons :: "SCPQuorumSet list \<Rightarrow> NodeID list \<Rightarrow> NodeID list \<times> SCPQuorumSet list" where
  "merge_singletons [] v = (v, [])"
| "merge_singletons (q # qs) v =
     (if is_singleton_set q then merge_singletons qs (v @ [hd (validators q)])
      else (case merge_singletons qs v of (v', i) \<Rightarrow> (v', q # i)))"

fun normalizeQSet :: "SCPQuorumSet \<Rightarrow> SCPQuorumSet" where
  "normalizeQSet (SCPQuorumSet thr v i) =
     (case merge_singletons (map normalizeQSet i) v of
        (v', i') \<Rightarrow>
          if thr = 1 \<and> length v' = 0 \<and> length i' = 1 then last i'
          else SCPQuorumSet thr v' i')"

text \<open>The constructor: the quorum set is normalised, its hash is that of the normalised set.\<close>

definition makeLocalNode :: "(SCPQuorumSet \<Rightarrow> Hash) \<Rightarrow> NodeID \<Rightarrow> bool \<Rightarrow> SCPQuorumSet \<Rightarrow> LocalNode" where
  "makeLocalNode hashQSet nid isValidator qSet =
     (let q = normalizeQSet qSet
      in \<lparr>mNodeID = nid, mIsValidator = isValidator, mQSet = q, mQSetHash = hashQSet q\<rparr>)"

definition updateQuorumSet :: "(SCPQuorumSet \<Rightarrow> Hash) \<Rightarrow> SCPQuorumSet \<Rightarrow> LocalNode \<Rightarrow> LocalNode" where
  "updateQuorumSet hashQSet qSet ln = ln\<lparr>mQSetHash := hashQSet qSet, mQSet := qSet\<rparr>"

section \<open>Walking the nodes of a quorum set\<close>

text \<open>The effect of \<^verbatim>\<open>proc\<close> is on a state \<open>'s\<close> that is passed along.\<close>

fun forAllNodesInternal :: "SCPQuorumSet \<Rightarrow> (NodeID \<Rightarrow> 's \<Rightarrow> 's) \<Rightarrow> 's \<Rightarrow> 's" where
  "forAllNodesInternal (SCPQuorumSet thr v i) proc s =
     fold (\<lambda>q. forAllNodesInternal q proc) i (fold proc v s)"

definition forAllNodes :: "SCPQuorumSet \<Rightarrow> (NodeID \<Rightarrow> 's \<Rightarrow> 's) \<Rightarrow> 's \<Rightarrow> 's" where
  "forAllNodes qset proc s =
     snd (forAllNodesInternal qset
       (\<lambda>n (done_nodes, s). if n \<in> set done_nodes then (done_nodes, s)
                            else (set_insert n done_nodes, proc n s))
       ([], s))"

fun getNodeWeight :: "NodeID \<Rightarrow> SCPQuorumSet \<Rightarrow> scp_error + uint64"
  and getNodeWeightInner :: "NodeID \<Rightarrow> uint64 \<Rightarrow> uint64 \<Rightarrow> SCPQuorumSet list \<Rightarrow> scp_error + uint64"
where
  "getNodeWeight nid (SCPQuorumSet thr v i) =
     (let n = ucast thr; d = of_nat (length i) + of_nat (length v)
      in if nid \<in> set v then bindE (bigDivide_u64 UINT64_MAX n d) (\<lambda>(ok, res). Inr res)
         else getNodeWeightInner nid n d i)"
| "getNodeWeightInner nid n d [] = Inr 0"
| "getNodeWeightInner nid n d (q # i) =
     bindE (getNodeWeight nid q) (\<lambda>leafW.
       if leafW \<noteq> 0 then bindE (bigDivide_u64 leafW n d) (\<lambda>(ok, res). Inr res)
       else getNodeWeightInner nid n d i)"

section \<open>Slices, v-blocking sets, quorums\<close>

text \<open>
  Both \<^verbatim>\<open>isQuorumSliceInternal\<close> and \<^verbatim>\<open>isVBlockingInternal\<close> run the same loop twice, over the
  validators and over the inner sets: each hit decrements a counter, and the function returns true
  as soon as the counter is \<open>\<le> 0\<close>. \<open>None\<close> is that early return.
\<close>

fun threshold_loop :: "('a::len word \<Rightarrow> bool) \<Rightarrow> 'a word \<Rightarrow> bool list \<Rightarrow> 'a word option" where
  "threshold_loop reached left [] = Some left"
| "threshold_loop reached left (hit # hits) =
     (if hit then (if reached (left - 1) then None else threshold_loop reached (left - 1) hits)
      else threshold_loop reached left hits)"

fun isQuorumSliceInternal :: "SCPQuorumSet \<Rightarrow> NodeID list \<Rightarrow> bool" where
  "isQuorumSliceInternal (SCPQuorumSet thr v i) nodeSet =
     (case threshold_loop (\<lambda>l. l \<le> 0) thr (map (\<lambda>n. n \<in> set nodeSet) v) of
        None \<Rightarrow> True
      | Some thresholdLeft \<Rightarrow>
          threshold_loop (\<lambda>l. l \<le> 0) thresholdLeft
            (map (\<lambda>q. isQuorumSliceInternal q nodeSet) i) = None)"

definition isQuorumSlice :: "SCPQuorumSet \<Rightarrow> NodeID list \<Rightarrow> bool" where
  "isQuorumSlice qSet nodeSet = isQuorumSliceInternal qSet nodeSet"

text \<open>\<^verbatim>\<open>leftTillBlock\<close> is an \<^verbatim>\<open>int\<close>: the low 32 bits of a \<^verbatim>\<open>size_t\<close> difference, read as signed.\<close>

fun isVBlockingInternal :: "SCPQuorumSet \<Rightarrow> NodeID list \<Rightarrow> bool" where
  "isVBlockingInternal (SCPQuorumSet thr v i) nodeSet =
     (if thr = 0 then False
      else
        let leftTillBlock = ucast ((1 + of_nat (length v) + of_nat (length i)) - ucast thr :: uint64)
        in (case threshold_loop (\<lambda>l. sint l \<le> 0) (leftTillBlock :: uint32)
                   (map (\<lambda>n. n \<in> set nodeSet) v) of
              None \<Rightarrow> True
            | Some l \<Rightarrow>
                threshold_loop (\<lambda>l. sint l \<le> 0) l
                  (map (\<lambda>q. isVBlockingInternal q nodeSet) i) = None))"

definition isVBlocking :: "SCPQuorumSet \<Rightarrow> NodeID list \<Rightarrow> bool" where
  "isVBlocking qSet nodeSet = isVBlockingInternal qSet nodeSet"

definition filter_nodes :: "(NodeID \<times> 'e) list \<Rightarrow> ('e \<Rightarrow> bool) \<Rightarrow> NodeID list" where
  "filter_nodes m f = map fst (filter (\<lambda>(n, e). f e) m)"

definition isVBlocking_map :: "SCPQuorumSet \<Rightarrow> (NodeID \<times> 'e) list \<Rightarrow> ('e \<Rightarrow> bool) \<Rightarrow> bool" where
  "isVBlocking_map qSet m f = isVBlocking qSet (filter_nodes m f)"

text \<open>
  \<^verbatim>\<open>quorumFilter\<close>: \<^verbatim>\<open>*qfun(map.find(nodeID)->second.statement)\<close> reads through two pointers.
\<close>

definition quorumFilter ::
  "(NodeID \<times> 'e) list \<Rightarrow> ('e \<Rightarrow> SCPQuorumSet option) \<Rightarrow> NodeID list \<Rightarrow> NodeID \<Rightarrow> scp_error + bool"
where
  "quorumFilter m qfun pNodes n =
     bindE (deref (map_of m n)) (\<lambda>e. bindE (deref (qfun e)) (\<lambda>q. Inr (isQuorumSlice q pNodes)))"

lemma length_filterE: "filterE p xs = Inr ys \<Longrightarrow> length ys \<le> length xs"
  by (drule filterE_filter) simp

function isQuorum_loop ::
  "(NodeID \<times> 'e) list \<Rightarrow> ('e \<Rightarrow> SCPQuorumSet option) \<Rightarrow> NodeID list \<Rightarrow> scp_error + NodeID list"
where
  "isQuorum_loop m qfun pNodes =
     (case filterE (quorumFilter m qfun pNodes) pNodes of
        Inl e \<Rightarrow> Inl e
      | Inr fNodes \<Rightarrow>
          if length pNodes = length fNodes then Inr fNodes else isQuorum_loop m qfun fNodes)"
  by pat_completeness auto
termination
  by (relation "measure (\<lambda>(m, qfun, pNodes). length pNodes)")
     (auto dest: length_filterE)

declare isQuorum_loop.simps [simp del]

definition isQuorum ::
  "SCPQuorumSet \<Rightarrow> (NodeID \<times> 'e) list \<Rightarrow> ('e \<Rightarrow> SCPQuorumSet option) \<Rightarrow> ('e \<Rightarrow> bool) \<Rightarrow> scp_error + bool"
where
  "isQuorum qSet m qfun f =
     bindE (isQuorum_loop m qfun (filter_nodes m f)) (\<lambda>pNodes. Inr (isQuorumSlice qSet pNodes))"

section \<open>Closest v-blocking set\<close>

text \<open>The loop over the top-level validators; \<open>None\<close> is the early return of the empty vector.\<close>

fun closest_validators ::
  "NodeID list \<Rightarrow> NodeID option \<Rightarrow> NodeID list \<Rightarrow> uint64 \<Rightarrow> NodeID list \<Rightarrow> (uint64 \<times> NodeID list) option"
where
  "closest_validators nodes excluded [] left res = Some (left, res)"
| "closest_validators nodes excluded (validator # vs) left res =
     (if excluded = Some validator then closest_validators nodes excluded vs left res
      else if validator \<notin> set nodes
      then (if left - 1 = 0 then None else closest_validators nodes excluded vs (left - 1) res)
      else closest_validators nodes excluded vs left (res @ [validator]))"

text \<open>
  \<^verbatim>\<open>std::multiset\<close> ordered by size: a new element goes after the ones of the same size.
\<close>

definition emplace_by_size :: "'a list \<Rightarrow> 'a list list \<Rightarrow> 'a list list" where
  "emplace_by_size v ms =
     takeWhile (\<lambda>w. length w \<le> length v) ms @ v # dropWhile (\<lambda>w. length w \<le> length v) ms"

fun closest_inner ::
  "NodeID list list \<Rightarrow> uint64 \<Rightarrow> NodeID list list \<Rightarrow> (uint64 \<times> NodeID list list) option"
where
  "closest_inner [] left resInternals = Some (left, resInternals)"
| "closest_inner (v # vs) left resInternals =
     (if length v = 0
      then (if left - 1 = 0 then None else closest_inner vs (left - 1) resInternals)
      else closest_inner vs left (emplace_by_size v resInternals))"

fun closest_take :: "NodeID list list \<Rightarrow> uint64 \<Rightarrow> NodeID list \<Rightarrow> NodeID list" where
  "closest_take [] left res = res"
| "closest_take (v # vs) left res =
     (if left = 0 then res else closest_take vs (left - 1) (res @ v))"

fun findClosestVBlocking :: "SCPQuorumSet \<Rightarrow> NodeID list \<Rightarrow> NodeID option \<Rightarrow> NodeID list" where
  "findClosestVBlocking (SCPQuorumSet thr v i) nodes excluded =
     (case closest_validators nodes excluded v
             ((1 + of_nat (length v) + of_nat (length i)) - ucast thr) [] of
        None \<Rightarrow> []
      | Some (left, res) \<Rightarrow>
          (case closest_inner (map (\<lambda>q. findClosestVBlocking q nodes excluded) i) left [] of
             None \<Rightarrow> []
           | Some (left', resInternals) \<Rightarrow>
               let res' = (if of_nat (length res) > left' then take (unat left') res else res)
               in closest_take resInternals (left' - of_nat (length res')) res'))"

definition findClosestVBlocking_map ::
  "SCPQuorumSet \<Rightarrow> (NodeID \<times> 'e) list \<Rightarrow> ('e \<Rightarrow> bool) \<Rightarrow> NodeID option \<Rightarrow> NodeID list"
where
  "findClosestVBlocking_map qset m f excluded =
     findClosestVBlocking qset (set_of (filter_nodes m f)) excluded"

end
