(* ===== verification/Quorum_Logic.thy ===== *)
theory Quorum_Logic
  imports LocalNode
begin

text \<open>
  What the quorum operations of \<^theory_text>\<open>LocalNode\<close> mean. A quorum set is read as a monotone predicate on
  sets of nodes (\<open>has_slice\<close>) and its dual (\<open>blocked_by\<close>); the machine-integer loops compute exactly
  these on quorum sets of bounded size, and \<^verbatim>\<open>isQuorum\<close> computes the largest quorum inside the set of
  nodes it starts from.
\<close>

section \<open>Abstract slices and blocking sets\<close>

abbreviation count_if :: "('a \<Rightarrow> bool) \<Rightarrow> 'a list \<Rightarrow> nat" where
  "count_if P xs \<equiv> length (filter P xs)"

fun qset_nodes :: "SCPQuorumSet \<Rightarrow> NodeID list" where
  "qset_nodes (SCPQuorumSet thr v i) = v @ concat (map qset_nodes i)"

fun has_slice :: "SCPQuorumSet \<Rightarrow> NodeID set \<Rightarrow> bool" where
  "has_slice (SCPQuorumSet thr v i) S \<longleftrightarrow>
     1 \<le> unat thr \<and> unat thr \<le> count_if (\<lambda>n. n \<in> S) v + count_if (\<lambda>q. has_slice q S) i"

fun blocked_by :: "SCPQuorumSet \<Rightarrow> NodeID set \<Rightarrow> bool" where
  "blocked_by (SCPQuorumSet thr v i) S \<longleftrightarrow>
     1 \<le> unat thr \<and>
     length v + length i + 1 \<le> unat thr + (count_if (\<lambda>n. n \<in> S) v + count_if (\<lambda>q. blocked_by q S) i)"

text \<open>
  \<open>small_qset\<close> bounds the number of entries at each level by \<open>2 ^ 31\<close>; a quorum set arrives in an
  overlay message of at most 16 MB, so it is far smaller. \<open>thresholds_ok\<close> is the range check of
  \<^verbatim>\<open>isQuorumSetSane\<close>, \<open>majority_ok\<close> its extra check.
\<close>

fun small_qset :: "SCPQuorumSet \<Rightarrow> bool" where
  "small_qset (SCPQuorumSet thr v i) \<longleftrightarrow>
     length v + length i < 2 ^ 31 \<and> (\<forall>q \<in> set i. small_qset q)"

fun thresholds_ok :: "SCPQuorumSet \<Rightarrow> bool" where
  "thresholds_ok (SCPQuorumSet thr v i) \<longleftrightarrow>
     1 \<le> unat thr \<and> unat thr \<le> length v + length i \<and> (\<forall>q \<in> set i. thresholds_ok q)"

fun majority_ok :: "SCPQuorumSet \<Rightarrow> bool" where
  "majority_ok (SCPQuorumSet thr v i) \<longleftrightarrow>
     length v + length i < 2 * unat thr \<and> (\<forall>q \<in> set i. majority_ok q)"

section \<open>Counting lemmas\<close>

lemma count_mono: "(\<And>x. x \<in> set xs \<Longrightarrow> P x \<Longrightarrow> Q x) \<Longrightarrow> count_if P xs \<le> count_if Q xs"
  by (induction xs) auto

lemma count_cong: "(\<And>x. x \<in> set xs \<Longrightarrow> P x = Q x) \<Longrightarrow> count_if P xs = count_if Q xs"
  by (metis filter_cong)

lemma count_compl: "count_if (\<lambda>x. \<not> P x) xs + count_if P xs = length xs"
  by (induction xs) auto

lemma count_le: "count_if P xs \<le> length xs"
  by (rule length_filter_le)

text \<open>Two predicates that together hit more than every position meet.\<close>

lemma count_overlap:
  "length xs < count_if P xs + count_if Q xs \<Longrightarrow> \<exists>x \<in> set xs. P x \<and> Q x"
proof (rule ccontr)
  assume lt: "length xs < count_if P xs + count_if Q xs" and "\<not> (\<exists>x \<in> set xs. P x \<and> Q x)"
  then have "count_if Q xs \<le> count_if (\<lambda>x. \<not> P x) xs"
    by (intro count_mono) auto
  with lt count_compl [of P xs] show False by simp
qed

section \<open>Monotonicity, duality, locality\<close>

lemma has_slice_mono: "has_slice q S \<Longrightarrow> S \<subseteq> T \<Longrightarrow> has_slice q T"
proof (induction q S rule: has_slice.induct)
  case (1 thr v i S)
  have "count_if (\<lambda>n. n \<in> S) v \<le> count_if (\<lambda>n. n \<in> T) v"
    using "1.prems"(2) by (intro count_mono) auto
  moreover have "count_if (\<lambda>q. has_slice q S) i \<le> count_if (\<lambda>q. has_slice q T) i"
    using 1 by (intro count_mono) auto
  ultimately show ?case using "1.prems"(1) by auto
qed

lemma has_slice_local: "has_slice q S \<longleftrightarrow> has_slice q (S \<inter> set (qset_nodes q))"
proof (induction q S rule: has_slice.induct)
  case (1 thr v i S)
  let ?N = "set (qset_nodes (SCPQuorumSet thr v i))"
  have v: "count_if (\<lambda>n. n \<in> S) v = count_if (\<lambda>n. n \<in> S \<inter> ?N) v"
    by (intro count_cong) auto
  have "has_slice q S = has_slice q (S \<inter> ?N)" if "q \<in> set i" for q
  proof -
    from that have "S \<inter> set (qset_nodes q) \<subseteq> S \<inter> ?N" by auto
    moreover have "has_slice q S = has_slice q (S \<inter> set (qset_nodes q))"
      using 1 that by blast
    ultimately show ?thesis
      using has_slice_mono [of q "S \<inter> set (qset_nodes q)" "S \<inter> ?N"]
        has_slice_mono [of q "S \<inter> ?N" S] by blast
  qed
  then have "count_if (\<lambda>q. has_slice q S) i = count_if (\<lambda>q. has_slice q (S \<inter> ?N)) i"
    by (intro count_cong) auto
  with v show ?case by simp
qed

lemma blocking_iff_not_slice: "thresholds_ok q \<Longrightarrow> blocked_by q S \<longleftrightarrow> \<not> has_slice q (- S)"
proof (induction q S rule: blocked_by.induct)
  case (1 thr v i S)
  have v: "count_if (\<lambda>n. n \<in> S) v + count_if (\<lambda>n. n \<in> - S) v = length v"
    using count_compl [of "\<lambda>n. n \<in> - S" v] by simp
  have "count_if (\<lambda>q. blocked_by q S) i = count_if (\<lambda>q. \<not> has_slice q (- S)) i"
    using 1 by (intro count_cong) auto
  then have i: "count_if (\<lambda>q. blocked_by q S) i + count_if (\<lambda>q. has_slice q (- S)) i = length i"
    using count_compl [of "\<lambda>q. has_slice q (- S)" i] by simp
  from "1.prems" v i show ?case by auto
qed

lemma blocking_iff_meets:
  assumes "thresholds_ok q"
  shows "blocked_by q S \<longleftrightarrow> (\<forall>T. has_slice q T \<longrightarrow> T \<inter> S \<noteq> {})"
proof
  assume "blocked_by q S"
  then have not_slice: "\<not> has_slice q (- S)"
    using assms by (simp add: blocking_iff_not_slice)
  show "\<forall>T. has_slice q T \<longrightarrow> T \<inter> S \<noteq> {}"
  proof (intro allI impI notI)
    fix T assume T: "has_slice q T" and "T \<inter> S = {}"
    then have "T \<subseteq> - S" by blast
    with T have "has_slice q (- S)" by (rule has_slice_mono)
    with not_slice show False ..
  qed
next
  assume "\<forall>T. has_slice q T \<longrightarrow> T \<inter> S \<noteq> {}"
  then have "\<not> has_slice q (- S)" by blast
  then show "blocked_by q S"
    using assms by (simp add: blocking_iff_not_slice)
qed

lemma majority_slices_meet: "majority_ok q \<Longrightarrow> has_slice q S \<Longrightarrow> has_slice q T \<Longrightarrow> S \<inter> T \<noteq> {}"
proof (induction q S rule: has_slice.induct)
  case (1 thr v i S)
  have "length v + length i < 2 * unat thr" using "1.prems"(1) by simp
  then consider "length v < count_if (\<lambda>n. n \<in> S) v + count_if (\<lambda>n. n \<in> T) v"
    | "length i < count_if (\<lambda>q. has_slice q S) i + count_if (\<lambda>q. has_slice q T) i"
    using "1.prems"(2,3) by fastforce
  then show ?case
  proof cases
    case 1
    then show ?thesis using count_overlap by blast
  next
    case 2
    then obtain q where "q \<in> set i" "has_slice q S" "has_slice q T"
      using count_overlap by blast
    with "1.IH" "1.prems"(1) show ?thesis by simp
  qed
qed

section \<open>The machine loops compute the abstract predicates\<close>

lemma threshold_loop_append:
  "threshold_loop r left (xs @ ys) =
     (case threshold_loop r left xs of None \<Rightarrow> None | Some l \<Rightarrow> threshold_loop r l ys)"
  by (induction xs arbitrary: left) auto

lemma threshold_loop_unsigned:
  "left \<noteq> 0 \<Longrightarrow> threshold_loop (\<lambda>l. l = 0) left hits = None \<longleftrightarrow>
     unat left \<le> count_if (\<lambda>b. b) hits"
proof (induction hits arbitrary: left)
  case Nil
  then show ?case by (simp add: unat_eq_0)
next
  case (Cons hit hits)
  show ?case
  proof (cases "hit \<and> left \<noteq> 1")
    case True
    with Cons.prems have nz: "left - 1 \<noteq> 0" by simp
    have "unat (left - 1) = unat left - 1"
      using Cons.prems by (rule unat_minus_one)
    with True nz Cons.IH [OF nz] show ?thesis by auto
  next
    case False
    with Cons show ?thesis by auto
  qed
qed

lemma threshold_loop_zero:
  "count_if (\<lambda>b. b) hits < 2 ^ LENGTH('a) \<Longrightarrow>
     threshold_loop (\<lambda>l. l = (0 :: 'a::len word)) 0 hits \<noteq> None"
proof (induction hits)
  case Nil
  then show ?case by simp
next
  case (Cons hit hits)
  have max: "unat (- 1 :: 'a word) = 2 ^ LENGTH('a) - 1"
    by (simp add: unsigned_minus_1_eq_mask mask_eq_exp_minus_1)
  have "\<not> unat (- 1 :: 'a word) \<le> count_if (\<lambda>b. b) hits" if hit
    unfolding max using Cons.prems that by simp
  with Cons show ?case
    using threshold_loop_unsigned [of "- 1 :: 'a word" hits] by auto
qed

lemma threshold_loop_signed:
  fixes left :: uint32
  shows "left \<noteq> 0 \<Longrightarrow> unat left < 2 ^ 31 \<Longrightarrow>
    threshold_loop (\<lambda>l. sint l \<le> 0) left hits = threshold_loop (\<lambda>l. l = 0) left hits"
proof (induction hits arbitrary: left)
  case Nil
  then show ?case by simp
next
  case (Cons hit hits)
  have small: "unat (left - 1) < 2 ^ 31"
    using Cons.prems by (simp add: unat_minus_one)
  then have "uint (left - 1) < 2 ^ 31"
    by (metis int_eq_iff_numeral of_nat_less_iff of_nat_numeral of_nat_power uint_nat)
  then have "sint (left - 1) = uint (left - 1)"
    by (simp add: sint_uint signed_take_bit_int_eq_self_iff) (meson order_trans uint_ge_0 neg_le_0_iff_le zero_le_numeral)
  then have "sint (left - 1) \<le> 0 \<longleftrightarrow> left - 1 = 0"
    by (simp add: uint_0_iff antisym_conv)
  with Cons.IH [of "left - 1"] Cons.IH [of left] Cons.prems small show ?case by auto
qed

lemma isQuorumSliceInternal_loop:
  "isQuorumSliceInternal (SCPQuorumSet thr v i) N \<longleftrightarrow>
     threshold_loop (\<lambda>l. l = 0) thr
       (map (\<lambda>n. n \<in> set N) v @ map (\<lambda>q. isQuorumSliceInternal q N) i) = None"
  by (simp add: threshold_loop_append split: option.split)

lemma count_if_hits: "count_if (\<lambda>b. b) (map P v @ map Q i) = count_if P v + count_if Q i"
  by (simp add: filter_map comp_def)

text \<open>The slice test implements the abstract predicate, for any threshold.\<close>

lemma isQuorumSliceInternal_has_slice:
  "small_qset q \<Longrightarrow> isQuorumSliceInternal q N \<longleftrightarrow> has_slice q (set N)"
proof (induction q)
  case (SCPQuorumSet thr v i)
  let ?c = "count_if (\<lambda>n. n \<in> set N) v + count_if (\<lambda>q. has_slice q (set N)) i"
  have "count_if (\<lambda>q. isQuorumSliceInternal q N) i = count_if (\<lambda>q. has_slice q (set N)) i"
    using SCPQuorumSet by (intro count_cong) auto
  then have c: "count_if (\<lambda>b. b)
      (map (\<lambda>n. n \<in> set N) v @ map (\<lambda>q. isQuorumSliceInternal q N) i) = ?c"
    by (simp only: count_if_hits)
  have "?c \<le> length v + length i"
    by (intro add_mono count_le)
  then have "?c < 2 ^ LENGTH(32)"
    using SCPQuorumSet.prems by simp
  then show ?case
    unfolding isQuorumSliceInternal_loop
    using threshold_loop_zero [where 'a = 32] threshold_loop_unsigned [of thr] c
    by (cases "thr = 0") (auto simp: unat_eq_0 Suc_le_eq unat_gt_0)
qed

lemma isVBlockingInternal_loop:
  assumes "1 \<le> unat thr" "unat thr \<le> length v + length i" "length v + length i < 2 ^ 31"
  shows "isVBlockingInternal (SCPQuorumSet thr v i) N \<longleftrightarrow>
    length v + length i + 1 \<le> unat thr +
      count_if (\<lambda>b. b) (map (\<lambda>n. n \<in> set N) v @ map (\<lambda>q. isVBlockingInternal q N) i)"
proof -
  let ?left = "ucast ((1 + of_nat (length v) + of_nat (length i)) - ucast thr :: uint64) :: uint32"
  let ?n = "length v + length i"
  have "unat (ucast thr :: uint64) = unat thr"
    by (rule unat_ucast_widen) simp
  then have "(ucast thr :: uint64) = of_nat (unat thr)"
    by (metis of_nat_unat)
  then have "(1 + of_nat (length v) + of_nat (length i)) - (ucast thr :: uint64)
      = of_nat (?n + 1 - unat thr)"
    using assms(2) by (simp add: of_nat_diff)
  moreover have "?n + 1 - unat thr < 2 ^ 31"
    using assms by simp
  ultimately have left: "unat ?left = ?n + 1 - unat thr"
    by (simp add: unsigned_ucast_eq unat_of_nat take_bit_eq_mod)
  then have nz: "?left \<noteq> 0" and small: "unat ?left < 2 ^ 31"
    using assms by (auto simp: unat_eq_0 [symmetric] simp del: unat_eq_0)
  have "thr \<noteq> 0" using assms(1) by auto
  then have "isVBlockingInternal (SCPQuorumSet thr v i) N \<longleftrightarrow>
    threshold_loop (\<lambda>l. sint l \<le> 0) ?left
      (map (\<lambda>n. n \<in> set N) v @ map (\<lambda>q. isVBlockingInternal q N) i) = None"
    by (simp add: threshold_loop_append Let_def split: option.split)
  with left show ?thesis
    using threshold_loop_signed [OF nz small] threshold_loop_unsigned [OF nz] assms(2) by auto
qed

lemma isVBlockingInternal_blocked_by:
  "small_qset q \<Longrightarrow> thresholds_ok q \<Longrightarrow> isVBlockingInternal q N \<longleftrightarrow> blocked_by q (set N)"
proof (induction q)
  case (SCPQuorumSet thr v i)
  have "count_if (\<lambda>q. isVBlockingInternal q N) i = count_if (\<lambda>q. blocked_by q (set N)) i"
    using SCPQuorumSet by (intro count_cong) auto
  then have "count_if (\<lambda>b. b) (map (\<lambda>n. n \<in> set N) v @ map (\<lambda>q. isVBlockingInternal q N) i) =
      count_if (\<lambda>n. n \<in> set N) v + count_if (\<lambda>q. blocked_by q (set N)) i"
    by (simp only: count_if_hits)
  moreover have "isVBlockingInternal (SCPQuorumSet thr v i) N \<longleftrightarrow>
    length v + length i + 1 \<le> unat thr +
      count_if (\<lambda>b. b) (map (\<lambda>n. n \<in> set N) v @ map (\<lambda>q. isVBlockingInternal q N) i)"
    using SCPQuorumSet.prems by (intro isVBlockingInternal_loop) auto
  ultimately show ?case
    using SCPQuorumSet.prems(2) by simp
qed

lemmas slice_defs = isQuorumSlice_def isQuorumSliceInternal_has_slice
lemmas vblocking_defs = isVBlocking_def isVBlockingInternal_blocked_by

section \<open>Sanity\<close>

lemma insert_validators_result:
  "fst (insert_validators ns known) \<longleftrightarrow> distinct ns \<and> set ns \<inter> set known = {}"
  "fst (insert_validators ns known) \<Longrightarrow>
     set (snd (insert_validators ns known)) = set known \<union> set ns"
  by (induction ns arbitrary: known) auto

definition qset_ok :: "bool \<Rightarrow> SCPQuorumSet \<Rightarrow> bool" where
  "qset_ok extra q \<longleftrightarrow> thresholds_ok q \<and> (extra \<longrightarrow> majority_ok q)"

text \<open>The range check of one level, on words and on numbers.\<close>

lemma threshold_check:
  fixes thr :: uint32
  assumes "n < 2 ^ 31"
  shows "(thr \<ge> 1 \<and> (ucast thr :: uint64) \<le> of_nat n \<and>
          (\<not> extra \<or> (ucast thr :: uint64) \<ge> of_nat n - ucast thr + 1)) \<longleftrightarrow>
         1 \<le> unat thr \<and> unat thr \<le> n \<and> (extra \<longrightarrow> n < 2 * unat thr)"
proof -
  have ge1: "thr \<ge> 1 \<longleftrightarrow> 1 \<le> unat thr"
    by (simp add: word_le_nat_alt)
  have wide: "unat (ucast thr :: uint64) = unat thr"
    by (rule unat_ucast_widen) simp
  have n: "unat (of_nat n :: uint64) = n"
    using assms by (intro unat_of_nat_small) simp
  have le: "(ucast thr :: uint64) \<le> of_nat n \<longleftrightarrow> unat thr \<le> n"
    by (simp only: word_le_nat_alt wide n)
  have "unat (of_nat n - (ucast thr :: uint64) + 1) = n - unat thr + 1" if "unat thr \<le> n"
  proof -
    have "of_nat n - (ucast thr :: uint64) + 1 = of_nat (n - unat thr + 1)"
      using that by (metis of_nat_1 of_nat_add of_nat_diff of_nat_unat wide)
    then show ?thesis
      using assms by (simp only:) (intro unat_of_nat_small, simp)
  qed
  with ge1 le show ?thesis
    by (auto simp: word_le_nat_alt wide)
qed

text \<open>What a run of the sanity check that starts from \<open>known\<close> returns and leaves behind.\<close>

definition sane_run :: "bool \<Rightarrow> NodeID list \<Rightarrow> NodeID list \<Rightarrow> bool \<times> NodeID list \<Rightarrow> bool" where
  "sane_run ok ns known r \<longleftrightarrow>
     (fst r \<longleftrightarrow> ok \<and> distinct ns \<and> set ns \<inter> set known = {}) \<and>
     (fst r \<longrightarrow> set (snd r) = set known \<union> set ns)"

lemma sane_run_append:
  assumes "sane_run a xs known (ok, known')" and "sane_run b ys known' r"
  shows "sane_run (a \<and> b) (xs @ ys) known (if ok then r else (False, known'))"
proof (cases ok)
  case True
  with assms(1) have "a" "distinct xs" "set xs \<inter> set known = {}" "set known' = set known \<union> set xs"
    by (simp_all add: sane_run_def)
  with assms(2) True show ?thesis
    by (simp add: sane_run_def Int_Un_distrib Int_Un_distrib2 Un_assoc conj_ac Int_commute)
next
  case False
  with assms(1) have "\<not> (a \<and> distinct xs \<and> set xs \<inter> set known = {})"
    by (simp add: sane_run_def)
  with False show ?thesis
    by (simp add: sane_run_def Int_Un_distrib2) blast
qed

lemma if_not: "(if \<not> b then x else y) = (if b then y else x)"
  by simp

lemma sane_run_guard:
  "sane_run a xs known r \<Longrightarrow> sane_run (g \<and> a) xs known (if g then r else (False, known'))"
  by (cases g) (simp_all add: sane_run_def)

lemma sane_inner:
  "(\<And>q known. q \<in> set i \<Longrightarrow>
      sane_run (qset_ok extra q) (qset_nodes q) known (isQuorumSetSaneInternal q known extra)) \<Longrightarrow>
   sane_run (\<forall>q \<in> set i. qset_ok extra q) (concat (map qset_nodes i)) known
     (isQuorumSetSaneInner i known extra)"
proof (induction i arbitrary: known)
  case Nil
  then show ?case by (simp add: sane_run_def)
next
  case (Cons q i)
  obtain ok known' where run: "isQuorumSetSaneInternal q known extra = (ok, known')"
    by (cases "isQuorumSetSaneInternal q known extra") auto
  have "sane_run (qset_ok extra q) (qset_nodes q) known (ok, known')"
    using Cons.prems [of q known] run by simp
  moreover have "sane_run (\<forall>q \<in> set i. qset_ok extra q) (concat (map qset_nodes i)) known'
      (isQuorumSetSaneInner i known' extra)"
    using Cons by simp
  ultimately show ?case
    using run sane_run_append [of "qset_ok extra q" "qset_nodes q"] by (simp add: if_not)
qed

lemma sane_internal:
  "small_qset q \<Longrightarrow>
   sane_run (qset_ok extra q) (qset_nodes q) known (isQuorumSetSaneInternal q known extra)"
proof (induction q arbitrary: known)
  case (SCPQuorumSet thr v i)
  let ?n = "length v + length i"
  obtain ok known' where ins: "insert_validators v known = (ok, known')"
    by (cases "insert_validators v known") auto
  let ?ok_i = "\<forall>q \<in> set i. qset_ok extra q" and ?ns = "concat (map qset_nodes i)"
  let ?range = "1 \<le> unat thr \<and> unat thr \<le> ?n \<and> (extra \<longrightarrow> ?n < 2 * unat thr)"
  let ?r = "isQuorumSetSaneInner i known' extra"
  have inner: "sane_run ?ok_i ?ns known' ?r"
    using SCPQuorumSet by (intro sane_inner) auto
  have ok: "ok \<longleftrightarrow> distinct v \<and> set v \<inter> set known = {}"
    and known': "ok \<Longrightarrow> set known' = set known \<union> set v"
    using insert_validators_result [of v known] ins by simp_all
  have qok: "qset_ok extra (SCPQuorumSet thr v i) \<longleftrightarrow> ?range \<and> ?ok_i"
    by (auto simp: qset_ok_def)
  have "?n < 2 ^ 31" using SCPQuorumSet.prems by simp
  then have run: "isQuorumSetSaneInternal (SCPQuorumSet thr v i) known extra =
      (if ?range then if \<not> ok then (False, known') else ?r else (False, known))"
    unfolding isQuorumSetSaneInternal.simps Let_def of_nat_add [symmetric] ins prod.case
    by (subst threshold_check) (assumption, rule refl)
  have "sane_run True v known (ok, known')"
    using ok known' by (simp add: sane_run_def)
  then have "sane_run ?ok_i (v @ ?ns) known (if ok then ?r else (False, known'))"
    using sane_run_append [OF _ inner, of True] by simp
  then show ?case
    unfolding run qok qset_nodes.simps if_not by (rule sane_run_guard)
qed

text \<open>
  A quorum set is sane exactly when every threshold is in range, no node occurs twice and, with the
  extra checks, every level asks for a strict majority.
\<close>

lemma isQuorumSetSane_iff:
  "small_qset q \<Longrightarrow>
     isQuorumSetSane q extra \<longleftrightarrow>
     thresholds_ok q \<and> (extra \<longrightarrow> majority_ok q) \<and> distinct (qset_nodes q)"
  using sane_internal [of q extra "[]"]
  by (auto simp: isQuorumSetSane_def sane_run_def qset_ok_def)

section \<open>Normal form\<close>

lemma merge_singletons_eq:
  "merge_singletons qs v =
     (v @ map (\<lambda>q. hd (validators q)) (filter is_singleton_set qs),
      filter (\<lambda>q. \<not> is_singleton_set q) qs)"
  by (induction qs v rule: merge_singletons.induct) auto

lemma singleton_setD: "is_singleton_set q \<Longrightarrow> q = SCPQuorumSet 1 [hd (validators q)] []"
  by (cases q) (auto simp: is_singleton_set_def length_Suc_conv)

lemma has_slice_singleton: "is_singleton_set q \<Longrightarrow> has_slice q S \<longleftrightarrow> hd (validators q) \<in> S"
  by (subst singleton_setD, assumption) simp

lemma normalizeQSet_parts:
  "\<exists>v' i'. merge_singletons (map normalizeQSet i) v = (v', i') \<and>
     length v' + length i' = length v + length i \<and>
     set i' \<subseteq> normalizeQSet ` set i \<and>
     (\<forall>S. count_if (\<lambda>n. n \<in> S) v' + count_if (\<lambda>q. has_slice q S) i' =
        count_if (\<lambda>n. n \<in> S) v + count_if (\<lambda>q. has_slice (normalizeQSet q) S) i)"
proof -
  let ?qs = "map normalizeQSet i"
  let ?v' = "v @ map (\<lambda>q. hd (validators q)) (filter is_singleton_set ?qs)"
  let ?i' = "filter (\<lambda>q. \<not> is_singleton_set q) ?qs"
  have "count_if (\<lambda>n. n \<in> S) ?v' + count_if (\<lambda>q. has_slice q S) ?i' =
      count_if (\<lambda>n. n \<in> S) v + count_if (\<lambda>q. has_slice (normalizeQSet q) S) i" for S
    by (induction i) (auto simp: has_slice_singleton)
  moreover have "length ?v' + length ?i' = length v + length i"
    by (induction i) auto
  moreover have "set ?i' \<subseteq> normalizeQSet ` set i"
    by auto
  ultimately show ?thesis
    by (simp only: merge_singletons_eq) blast
qed

lemma has_slice_normalizeQSet: "has_slice (normalizeQSet q) S \<longleftrightarrow> has_slice q S"
proof (induction q)
  case (SCPQuorumSet thr v i)
  obtain v' i' where parts: "merge_singletons (map normalizeQSet i) v = (v', i')"
    and counts: "\<And>S. count_if (\<lambda>n. n \<in> S) v' + count_if (\<lambda>q. has_slice q S) i' =
        count_if (\<lambda>n. n \<in> S) v + count_if (\<lambda>q. has_slice (normalizeQSet q) S) i"
    using normalizeQSet_parts [of i v] by blast
  have "count_if (\<lambda>q. has_slice (normalizeQSet q) S) i = count_if (\<lambda>q. has_slice q S) i"
    using SCPQuorumSet by (intro count_cong) auto
  with counts [of S] have "has_slice (SCPQuorumSet thr v' i') S \<longleftrightarrow> has_slice (SCPQuorumSet thr v i) S"
    by simp
  moreover have "has_slice (last i') S \<longleftrightarrow> has_slice (SCPQuorumSet thr v' i') S"
    if "thr = 1" "length v' = 0" "length i' = 1"
    using that by (auto simp: length_Suc_conv split: if_splits)
  ultimately show ?case
    using parts
    by (cases "thr = 1 \<and> length v' = 0 \<and> length i' = 1") (auto simp del: has_slice.simps)
qed

lemma small_normalizeQSet: "small_qset q \<Longrightarrow> small_qset (normalizeQSet q)"
proof (induction q)
  case (SCPQuorumSet thr v i)
  obtain v' i' where parts: "merge_singletons (map normalizeQSet i) v = (v', i')"
    and len: "length v' + length i' = length v + length i"
    and sub: "set i' \<subseteq> normalizeQSet ` set i"
    using normalizeQSet_parts [of i v] by blast
  have "\<forall>q \<in> set i'. small_qset q"
    using SCPQuorumSet sub by auto
  with SCPQuorumSet.prems len parts show ?case
    by (auto simp: length_Suc_conv)
qed

section \<open>Quorums\<close>

text \<open>
  What federated voting relies on: slices are monotone. Everything about quorums (a set of nodes
  each of which has a slice inside the set) follows from that alone.
\<close>

locale slice_system =
  fixes sat :: "'q \<Rightarrow> 'n set \<Rightarrow> bool"
  assumes sat_mono: "sat q S \<Longrightarrow> S \<subseteq> T \<Longrightarrow> sat q T"
begin

definition closed :: "('n \<Rightarrow> 'q option) \<Rightarrow> 'n set \<Rightarrow> bool" where
  "closed qs U \<longleftrightarrow> (\<forall>n \<in> U. \<exists>q. qs n = Some q \<and> sat q U)"

definition satisfied :: "('n \<Rightarrow> 'q option) \<Rightarrow> 'n set \<Rightarrow> 'n set" where
  "satisfied qs W = {n \<in> W. \<exists>q. qs n = Some q \<and> sat q W}"

lemma closed_Union: "(\<And>U. U \<in> F \<Longrightarrow> closed qs U) \<Longrightarrow> closed qs (\<Union>F)"
  unfolding closed_def by (meson Union_iff Union_upper sat_mono)

lemma closed_sub_satisfied: "closed qs U \<Longrightarrow> U \<subseteq> W \<Longrightarrow> U \<subseteq> satisfied qs W"
  unfolding closed_def satisfied_def using sat_mono by blast

lemma fixpoint_closed: "satisfied qs W = W \<Longrightarrow> closed qs W"
  unfolding closed_def satisfied_def by blast

text \<open>
  The fixpoint reached by discarding unsatisfied nodes from \<open>W\<close> decides whether some quorum in
  \<open>W\<close> satisfies a given quorum set.
\<close>

lemma fixpoint_decides:
  assumes "satisfied qs V = V" and "V \<subseteq> W" and "\<And>U. closed qs U \<Longrightarrow> U \<subseteq> W \<Longrightarrow> U \<subseteq> V"
  shows "sat q V \<longleftrightarrow> (\<exists>U \<subseteq> W. closed qs U \<and> sat q U)"
  using assms fixpoint_closed sat_mono by meson

end

interpretation qset: slice_system has_slice
  by unfold_locales (rule has_slice_mono)

text \<open>The quorum set a node's latest message refers to.\<close>

definition qset_of :: "(NodeID \<times> 'e) list \<Rightarrow> ('e \<Rightarrow> SCPQuorumSet option) \<Rightarrow> NodeID \<Rightarrow> SCPQuorumSet option" where
  "qset_of m qfun n = Option.bind (map_of m n) qfun"

text \<open>
  \<open>quorum_sets_known\<close> is the situation \<^verbatim>\<open>Herder\<close> establishes before it hands an envelope to SCP: the quorum
  set each recorded statement refers to is available (and of bounded size).
\<close>

definition quorum_sets_known :: "(NodeID \<times> 'e) list \<Rightarrow> ('e \<Rightarrow> SCPQuorumSet option) \<Rightarrow> ('e \<Rightarrow> bool) \<Rightarrow> bool" where
  "quorum_sets_known m qfun f \<longleftrightarrow>
     (\<forall>(n, e) \<in> set m. f e \<longrightarrow> (\<exists>q. qfun e = Some q \<and> small_qset q))"

lemma quorumFilter_satisfied:
  assumes "qset_of m qfun n = Some q" and "small_qset q"
  shows "quorumFilter m qfun P n = Inr (has_slice q (set P))"
  using assms
  by (auto simp: quorumFilter_def qset_of_def slice_defs bind_eq_Some_conv)

lemma isQuorum_loop_result:
  assumes "\<And>n. n \<in> set P \<Longrightarrow> \<exists>q. qset_of m qfun n = Some q \<and> small_qset q"
  shows "\<exists>V. isQuorum_loop m qfun P = Inr V \<and> set V \<subseteq> set P \<and>
           qset.satisfied (qset_of m qfun) (set V) = set V \<and>
           (\<forall>U. qset.closed (qset_of m qfun) U \<longrightarrow> U \<subseteq> set P \<longrightarrow> U \<subseteq> set V)"
  using assms
proof (induction m qfun P rule: isQuorum_loop.induct)
  case (1 m qfun P)
  let ?sat = "\<lambda>n. has_slice (the (qset_of m qfun n)) (set P)"
  let ?F = "filter ?sat P"
  have flt: "filterE (quorumFilter m qfun P) P = Inr ?F"
    using "1.prems" by (intro filterE_pure) (metis option.sel quorumFilter_satisfied)
  have F: "set ?F = qset.satisfied (qset_of m qfun) (set P)"
    using "1.prems" unfolding qset.satisfied_def by force
  show ?case
  proof (cases "length P = length ?F")
    case True
    then have "?F = P"
      by (metis filter_id_conv length_filter_less less_irrefl)
    then show ?thesis
      using F flt by (intro exI [of _ P]) (simp add: isQuorum_loop.simps [of m qfun P])
  next
    case False
    have "\<And>n. n \<in> set ?F \<Longrightarrow> \<exists>q. qset_of m qfun n = Some q \<and> small_qset q"
      using "1.prems" by auto
    from "1.IH" [OF flt False this] obtain V where
      V: "isQuorum_loop m qfun ?F = Inr V" "set V \<subseteq> set ?F"
         "qset.satisfied (qset_of m qfun) (set V) = set V"
      and max: "\<And>U. qset.closed (qset_of m qfun) U \<Longrightarrow> U \<subseteq> set ?F \<Longrightarrow> U \<subseteq> set V"
      by blast
    have "U \<subseteq> set V" if "qset.closed (qset_of m qfun) U" "U \<subseteq> set P" for U
      using that max qset.closed_sub_satisfied unfolding F by blast
    moreover have "isQuorum_loop m qfun P = Inr V"
      using False flt V(1) by (simp add: isQuorum_loop.simps [of m qfun P])
    ultimately show ?thesis
      using V(2,3) by (intro exI [of _ V]) auto
  qed
qed

lemma filter_nodes_known:
  assumes "map_ok m" and "quorum_sets_known m qfun f" and "n \<in> set (filter_nodes m f)"
  shows "\<exists>q. qset_of m qfun n = Some q \<and> small_qset q"
proof -
  from assms(3) obtain e where "(n, e) \<in> set m" "f e"
    by (auto simp: filter_nodes_def)
  moreover have "map_of m n = Some e"
    using calculation(1) assms(1) by (simp add: om.items_find [symmetric])
  ultimately show ?thesis
    using assms(2) by (fastforce simp: quorum_sets_known_def qset_of_def)
qed

lemma isQuorum_result:
  assumes "map_ok m" and "quorum_sets_known m qfun f" and "small_qset qSet"
  shows "isQuorum qSet m qfun f =
    Inr (\<exists>U \<subseteq> set (filter_nodes m f). qset.closed (qset_of m qfun) U \<and> has_slice qSet U)"
proof -
  obtain V where V: "isQuorum_loop m qfun (filter_nodes m f) = Inr V"
    "set V \<subseteq> set (filter_nodes m f)" "qset.satisfied (qset_of m qfun) (set V) = set V"
    and max: "\<And>U. qset.closed (qset_of m qfun) U \<Longrightarrow> U \<subseteq> set (filter_nodes m f) \<Longrightarrow> U \<subseteq> set V"
    using isQuorum_loop_result [OF filter_nodes_known [OF assms(1,2)]] by blast
  from qset.fixpoint_decides [OF V(3,2) max] V(1) assms(3) show ?thesis
    by (simp add: isQuorum_def slice_defs)
qed

end
