(* ===== verification/Slot_State.thy ===== *)
theory Slot_State
  imports Quorum_Logic
begin

text \<open>
  The state of one consensus slot (\<^verbatim>\<open>src/scp/Slot.h\<close>, \<^verbatim>\<open>BallotProtocol.h\<close>, \<^verbatim>\<open>NominationProtocol.h\<close>), the
  application interface \<^verbatim>\<open>SCPDriver\<close>, and the slot's helpers that both protocols use: quorum sets of
  statements, envelopes, history, federated voting.
\<close>

section \<open>The driver\<close>

datatype ValidationLevel = kInvalidValue | kFullyValidatedValue | kMaybeValidValue

text \<open>
  The virtual methods of \<^verbatim>\<open>SCPDriver\<close> that return something are fields of a record of functions,
  arguments of the model; \<open>NDEBUG\<close> is the build flag that \<^verbatim>\<open>dbgAssert\<close> depends on. The methods that
  only notify are recorded as a log of \<open>driver_call\<close>s in the slot.
\<close>

record SCPDriver =
  NDEBUG :: bool
  signEnvelope :: "SCPPledges SCPStatement \<Rightarrow> bytes"
  verifyEnvelope :: "SCPPledges SCPEnvelope \<Rightarrow> bool"
  getQSet :: "Hash \<Rightarrow> SCPQuorumSet option"
  validateValue :: "uint64 \<Rightarrow> Value \<Rightarrow> ValidationLevel"
  extractValidValue :: "uint64 \<Rightarrow> Value \<Rightarrow> Value"
  computeHashNode :: "uint64 \<Rightarrow> Value \<Rightarrow> bool \<Rightarrow> uint32 \<Rightarrow> NodeID \<Rightarrow> uint64"
  computeValueHash :: "uint64 \<Rightarrow> Value \<Rightarrow> uint32 \<Rightarrow> Value \<Rightarrow> uint64"
  combineCandidates :: "uint64 \<Rightarrow> Value list \<Rightarrow> Value"

datatype timer_callback =
    BallotTimerExpired
  | NominateTimedOut Value Value

datatype timerIDs = NOMINATION_TIMER | BALLOT_PROTOCOL_TIMER

datatype driver_call =
    EmitEnvelope "SCPPledges SCPEnvelope"
  | SetupTimer timerIDs nat timer_callback
  | ValueExternalized Value
  | NominatingValue Value
  | UpdatedCandidateValue Value
  | StartedBallotProtocol SCPBallot
  | AcceptedBallotPrepared SCPBallot
  | ConfirmedBallotPrepared SCPBallot
  | AcceptedCommit SCPBallot
  | BallotDidHearFromQuorum SCPBallot

text \<open>\<^verbatim>\<open>SCPDriver::computeTimeout\<close>, in milliseconds.\<close>

definition MAX_TIMEOUT_SECONDS :: nat where
  "MAX_TIMEOUT_SECONDS = 30 * 60"

definition computeTimeout :: "uint32 \<Rightarrow> nat" where
  "computeTimeout roundNumber =
     (let timeoutInSeconds =
        (if unat roundNumber > MAX_TIMEOUT_SECONDS then MAX_TIMEOUT_SECONDS else unat roundNumber)
      in 1000 * timeoutInSeconds)"

section \<open>Protocol states\<close>

datatype SCPPhase = SCP_PHASE_PREPARE | SCP_PHASE_CONFIRM | SCP_PHASE_EXTERNALIZE

text \<open>
  \<open>mLastEnvelope\<close> and \<open>mLastEnvelopeEmit\<close> are shared pointers that the code compares by identity; a
  pointer is its allocation number with the envelope it points to.
\<close>

record BallotProtocol =
  mHeardFromQuorum :: bool
  mCurrentBallot :: "SCPBallot option"
  mPrepared :: "SCPBallot option"
  mPreparedPrime :: "SCPBallot option"
  mHighBallot :: "SCPBallot option"
  mCommit :: "SCPBallot option"
  mLatestEnvelopes :: "(NodeID \<times> BallotEnvelope) list"
  mPhase :: SCPPhase
  mCurrentMessageLevel :: int
  mLastEnvelope :: "(nat \<times> BallotEnvelope) option"
  mLastEnvelopeEmit :: "(nat \<times> BallotEnvelope) option"

record NominationProtocol =
  mRoundNumber :: uint32
  mVotes :: "Value list"
  mAccepted :: "Value list"
  mCandidates :: "Value list"
  mLatestNominations :: "(NodeID \<times> NominationEnvelope) list"
  mLastNomination :: "NominationEnvelope option"
  mRoundLeaders :: "NodeID list"
  mNominationStarted :: bool
  mLatestCompositeCandidate :: Value
  mPreviousValue :: Value

record Slot =
  mSlotIndex :: uint64
  mBallotProtocol :: BallotProtocol
  mNominationProtocol :: NominationProtocol
  mStatementsHistory :: "(SCPPledges SCPStatement \<times> bool) list"
  mFullyValidated :: bool
  mDriverCalls :: "driver_call list"
  mAllocations :: nat

definition initBallotProtocol :: BallotProtocol where
  "initBallotProtocol =
     \<lparr>mHeardFromQuorum = True, mCurrentBallot = None, mPrepared = None, mPreparedPrime = None,
      mHighBallot = None, mCommit = None, mLatestEnvelopes = [], mPhase = SCP_PHASE_PREPARE,
      mCurrentMessageLevel = 0, mLastEnvelope = None, mLastEnvelopeEmit = None\<rparr>"

definition initNominationProtocol :: NominationProtocol where
  "initNominationProtocol =
     \<lparr>mRoundNumber = 0, mVotes = [], mAccepted = [], mCandidates = [], mLatestNominations = [],
      mLastNomination = None, mRoundLeaders = [], mNominationStarted = False,
      mLatestCompositeCandidate = [], mPreviousValue = []\<rparr>"

definition initSlot :: "LocalNode \<Rightarrow> uint64 \<Rightarrow> Slot" where
  "initSlot L i =
     \<lparr>mSlotIndex = i, mBallotProtocol = initBallotProtocol,
      mNominationProtocol = initNominationProtocol, mStatementsHistory = [],
      mFullyValidated = mIsValidator L, mDriverCalls = [], mAllocations = 0\<rparr>"

section \<open>Helpers of the slot\<close>

definition driver_log :: "driver_call \<Rightarrow> Slot \<Rightarrow> Slot" where
  "driver_log c s = s\<lparr>mDriverCalls := mDriverCalls s @ [c]\<rparr>"

definition recordStatement :: "SCPPledges SCPStatement \<Rightarrow> Slot \<Rightarrow> Slot" where
  "recordStatement st s =
     s\<lparr>mStatementsHistory := mStatementsHistory s @ [(st, mFullyValidated s)]\<rparr>"

definition setFullyValidated :: "bool \<Rightarrow> Slot \<Rightarrow> Slot" where
  "setFullyValidated v s = s\<lparr>mFullyValidated := v\<rparr>"

definition getLatestCompositeCandidate :: "Slot \<Rightarrow> Value" where
  "getLatestCompositeCandidate s = mLatestCompositeCandidate (mNominationProtocol s)"

definition stopNomination :: "Slot \<Rightarrow> Slot" where
  "stopNomination s =
     s\<lparr>mNominationProtocol := (mNominationProtocol s)\<lparr>mNominationStarted := False\<rparr>\<rparr>"

definition createEnvelope ::
  "SCPDriver \<Rightarrow> LocalNode \<Rightarrow> ('p \<Rightarrow> SCPPledges) \<Rightarrow> 'p \<Rightarrow> Slot \<Rightarrow> 'p SCPEnvelope"
where
  "createEnvelope D L tag p s =
     (let mySt = \<lparr>nodeID = mNodeID L, slotIndex = mSlotIndex s, pledges = p\<rparr>
      in \<lparr>statement = mySt, signature = signEnvelope D (wire_statement tag mySt)\<rparr>)"

definition getCompanionQuorumSetHashFromStatement :: "SCPPledges SCPStatement \<Rightarrow> Hash" where
  "getCompanionQuorumSetHashFromStatement st =
     (case pledges st of
        Ballot (Prepare p) \<Rightarrow> p_quorumSetHash p
      | Ballot (Confirm c) \<Rightarrow> c_quorumSetHash c
      | Ballot (Externalize e) \<Rightarrow> e_commitQuorumSetHash e
      | Nominate n \<Rightarrow> n_quorumSetHash n)"

definition getQuorumSetFromStatement :: "SCPDriver \<Rightarrow> SCPPledges SCPStatement \<Rightarrow> SCPQuorumSet option" where
  "getQuorumSetFromStatement D st =
     (case pledges st of
        Ballot (Externalize e) \<Rightarrow> Some (getSingletonQSet (nodeID st))
      | Ballot (Prepare p) \<Rightarrow> getQSet D (p_quorumSetHash p)
      | Ballot (Confirm c) \<Rightarrow> getQSet D (c_quorumSetHash c)
      | Nominate n \<Rightarrow> getQSet D (n_quorumSetHash n))"

abbreviation env_qset :: "SCPDriver \<Rightarrow> ('p \<Rightarrow> SCPPledges) \<Rightarrow> 'p SCPEnvelope \<Rightarrow> SCPQuorumSet option" where
  "env_qset D tag \<equiv> \<lambda>e. getQuorumSetFromStatement D (wire_statement tag (statement e))"

definition federatedAccept ::
  "SCPDriver \<Rightarrow> LocalNode \<Rightarrow> ('p \<Rightarrow> SCPPledges) \<Rightarrow> ('p SCPStatement \<Rightarrow> bool) \<Rightarrow> ('p SCPStatement \<Rightarrow> bool) \<Rightarrow>
   (NodeID \<times> 'p SCPEnvelope) list \<Rightarrow> scp_error + bool"
where
  "federatedAccept D L tag voted accepted envs =
     (if isVBlocking_map (mQSet L) envs (\<lambda>e. accepted (statement e)) then Inr True
      else isQuorum (mQSet L) envs (env_qset D tag)
             (\<lambda>e. accepted (statement e) \<or> voted (statement e)))"

definition federatedRatify ::
  "SCPDriver \<Rightarrow> LocalNode \<Rightarrow> ('p \<Rightarrow> SCPPledges) \<Rightarrow> ('p SCPStatement \<Rightarrow> bool) \<Rightarrow>
   (NodeID \<times> 'p SCPEnvelope) list \<Rightarrow> scp_error + bool"
where
  "federatedRatify D L tag voted envs =
     isQuorum (mQSet L) envs (env_qset D tag) (\<lambda>e. voted (statement e))"

end
