(* ===== verification/Ballot_Statements.thy ===== *)
theory Ballot_Statements
  imports Slot_State
begin

text \<open>
  The static functions of \<^verbatim>\<open>src/scp/BallotProtocol.cpp\<close>: comparison of ballots, the order on statements,
  the predicates statements are tested with, and the interval search, each with its laws.
\<close>

section \<open>Comparing ballots\<close>

definition compareBallots :: "SCPBallot \<Rightarrow> SCPBallot \<Rightarrow> int" where
  "compareBallots b1 b2 =
     (if counter b1 < counter b2 then - 1
      else if counter b2 < counter b1 then 1
      else if bvalue b1 < bvalue b2 then - 1
      else if bvalue b2 < bvalue b1 then 1
      else 0)"

fun compareBallots_opt :: "SCPBallot option \<Rightarrow> SCPBallot option \<Rightarrow> int" where
  "compareBallots_opt (Some b1) (Some b2) = compareBallots b1 b2"
| "compareBallots_opt (Some b1) None = 1"
| "compareBallots_opt None (Some b2) = - 1"
| "compareBallots_opt None None = 0"

definition areBallotsCompatible :: "SCPBallot \<Rightarrow> SCPBallot \<Rightarrow> bool" where
  "areBallotsCompatible b1 b2 \<longleftrightarrow> bvalue b1 = bvalue b2"

definition areBallotsLessAndIncompatible :: "SCPBallot \<Rightarrow> SCPBallot \<Rightarrow> bool" where
  "areBallotsLessAndIncompatible b1 b2 \<longleftrightarrow>
     compareBallots b1 b2 \<le> 0 \<and> \<not> areBallotsCompatible b1 b2"

definition areBallotsLessAndCompatible :: "SCPBallot \<Rightarrow> SCPBallot \<Rightarrow> bool" where
  "areBallotsLessAndCompatible b1 b2 \<longleftrightarrow>
     compareBallots b1 b2 \<le> 0 \<and> areBallotsCompatible b1 b2"

text \<open>
  The comparison function is the sign of the XDR order, on ballots and on optional ballots (no
  ballot is below every ballot).
\<close>

lemma compareBallots_sign [simp]:
  "compareBallots a b < 0 \<longleftrightarrow> a < b"
  "compareBallots a b \<le> 0 \<longleftrightarrow> a \<le> b"
  "0 < compareBallots a b \<longleftrightarrow> b < a"
  "0 \<le> compareBallots a b \<longleftrightarrow> b \<le> a"
  "compareBallots a b = 0 \<longleftrightarrow> a = b"
  by (auto simp: compareBallots_def less_SCPBallot_def less_eq_SCPBallot_def SCPBallot.expand)

definition ballot_opt_le :: "SCPBallot option \<Rightarrow> SCPBallot option \<Rightarrow> bool" where
  "ballot_opt_le a b \<longleftrightarrow> (case a of None \<Rightarrow> True | Some x \<Rightarrow> (case b of None \<Rightarrow> False | Some y \<Rightarrow> x \<le> y))"

definition ballot_opt_less :: "SCPBallot option \<Rightarrow> SCPBallot option \<Rightarrow> bool" where
  "ballot_opt_less a b \<longleftrightarrow> (case b of None \<Rightarrow> False | Some y \<Rightarrow> (case a of None \<Rightarrow> True | Some x \<Rightarrow> x < y))"

lemma ballot_opt_le_refl [simp]: "ballot_opt_le a a"
  by (simp add: ballot_opt_le_def split: option.split)

lemma ballot_opt_le_trans: "ballot_opt_le a b \<Longrightarrow> ballot_opt_le b c \<Longrightarrow> ballot_opt_le a c"
  by (auto simp: ballot_opt_le_def split: option.splits)

lemma compareBallots_opt_sign [simp]:
  "compareBallots_opt a b < 0 \<longleftrightarrow> ballot_opt_less a b"
  "compareBallots_opt a b = 0 \<longleftrightarrow> a = b"
  by (cases a; cases b; simp add: ballot_opt_less_def)+

lemma ballot_opt_less_trans: "ballot_opt_less a b \<Longrightarrow> ballot_opt_less b c \<Longrightarrow> ballot_opt_less a c"
  by (auto simp: ballot_opt_less_def split: option.splits)

lemma ballot_opt_less_irrefl [simp]: "\<not> ballot_opt_less a a"
  by (simp add: ballot_opt_less_def split: option.split)

lemma less_compatible_iff [simp]:
  "areBallotsLessAndCompatible a b \<longleftrightarrow> bvalue a = bvalue b \<and> counter a \<le> counter b"
  by (auto simp: areBallotsLessAndCompatible_def areBallotsCompatible_def less_eq_SCPBallot_def)

lemma less_incompatible_iff:
  "areBallotsLessAndIncompatible a b \<longleftrightarrow> a < b \<and> bvalue a \<noteq> bvalue b"
  by (auto simp: areBallotsLessAndIncompatible_def areBallotsCompatible_def less_le)

section \<open>The order on statements\<close>

fun pledge_type :: "BallotPledges \<Rightarrow> nat" where
  "pledge_type (Prepare p) = 0"
| "pledge_type (Confirm c) = 1"
| "pledge_type (Externalize e) = 2"

fun isNewerPledges :: "BallotPledges \<Rightarrow> BallotPledges \<Rightarrow> bool" where
  "isNewerPledges (Externalize oldE) (Externalize e) = False"
| "isNewerPledges (Confirm oldC) (Confirm c) =
     (let compBallot = compareBallots (c_ballot oldC) (c_ballot c)
      in if compBallot < 0 then True
         else if compBallot = 0
         then (if c_nPrepared oldC = c_nPrepared c then c_nH oldC < c_nH c
               else c_nPrepared oldC < c_nPrepared c)
         else False)"
| "isNewerPledges (Prepare oldPrep) (Prepare prep) =
     (let compBallot = compareBallots (p_ballot oldPrep) (p_ballot prep)
      in if compBallot < 0 then True
         else if compBallot = 0
         then (let compBallot = compareBallots_opt (p_prepared oldPrep) (p_prepared prep)
               in if compBallot < 0 then True
                  else if compBallot = 0
                  then (let compBallot = compareBallots_opt (p_preparedPrime oldPrep) (p_preparedPrime prep)
                        in if compBallot < 0 then True
                           else if compBallot = 0 then p_nH oldPrep < p_nH prep
                           else False)
                  else False)
         else False)"
| "isNewerPledges old new = (pledge_type old < pledge_type new)"

definition isNewerStatement2 :: "BallotStatement \<Rightarrow> BallotStatement \<Rightarrow> bool" where
  "isNewerStatement2 oldst st = isNewerPledges (pledges oldst) (pledges st)"

definition isNewerStatement :: "NodeID \<Rightarrow> BallotStatement \<Rightarrow> (NodeID \<times> BallotEnvelope) list \<Rightarrow> bool" where
  "isNewerStatement n st latest =
     (case map_of latest n of
        None \<Rightarrow> True
      | Some oldp \<Rightarrow> isNewerStatement2 (statement oldp) st)"

text \<open>
  \<open>m'\<close> keeps every key of \<open>m\<close>, with the same entry or one whose statement is newer.
\<close>

definition newer_map ::
  "('st \<Rightarrow> 'st \<Rightarrow> bool) \<Rightarrow> ('e \<Rightarrow> 'st) \<Rightarrow> ('k \<times> 'e) list \<Rightarrow> ('k \<times> 'e) list \<Rightarrow> bool"
where
  "newer_map newer st m m' \<longleftrightarrow>
     (\<forall>k e. map_of m k = Some e \<longrightarrow>
        (\<exists>e'. map_of m' k = Some e' \<and> (e' = e \<or> newer (st e) (st e'))))"

lemma newer_map_refl [simp]: "newer_map newer st m m"
  by (simp add: newer_map_def)

lemma newer_map_put:
  "map_ok m \<Longrightarrow> (\<And>old. map_of m k = Some old \<Longrightarrow> newer (st old) (st e)) \<Longrightarrow>
   newer_map newer st m (map_put k e m)"
  by (simp add: newer_map_def om.find_put)

text \<open>
  The contract of a statement order that both protocols rely on: a message replaces the recorded one
  only if it is newer, so a node's recorded messages form a strictly ascending chain and a replayed
  message is never taken again.
\<close>

locale statement_order =
  fixes newer :: "'st \<Rightarrow> 'st \<Rightarrow> bool"
  assumes newer_irrefl: "\<not> newer a a"
    and newer_trans: "newer a b \<Longrightarrow> newer b c \<Longrightarrow> newer a c"
begin

lemma newer_asym: "newer a b \<Longrightarrow> \<not> newer b a"
  using newer_irrefl newer_trans by blast

lemma newer_map_trans:
  assumes "newer_map newer st m m'" and "newer_map newer st m' m''"
  shows "newer_map newer st m m''"
  unfolding newer_map_def
proof (intro allI impI)
  fix k e
  assume "map_of m k = Some e"
  then obtain e' where e': "map_of m' k = Some e'" "e' = e \<or> newer (st e) (st e')"
    using assms(1) unfolding newer_map_def by blast
  then obtain e'' where "map_of m'' k = Some e''" "e'' = e' \<or> newer (st e') (st e'')"
    using assms(2) unfolding newer_map_def by blast
  with e'(2) show "\<exists>e''. map_of m'' k = Some e'' \<and> (e'' = e \<or> newer (st e) (st e''))"
    using newer_trans by blast
qed

fun ascending :: "'st list \<Rightarrow> bool" where
  "ascending [] = True"
| "ascending [a] = True"
| "ascending (a # b # sts) = (newer a b \<and> ascending (b # sts))"

lemma ascending_newer: "ascending (a # sts) \<Longrightarrow> b \<in> set sts \<Longrightarrow> newer a b"
proof (induction sts arbitrary: a)
  case (Cons c sts)
  then show ?case using newer_trans by auto
qed simp

lemma ascending_distinct: "ascending sts \<Longrightarrow> distinct sts"
proof (induction sts)
  case (Cons a sts)
  then have "ascending sts" by (cases sts) auto
  with Cons show ?case
    using ascending_newer newer_irrefl by (metis distinct.simps(2))
qed simp

end

lemma isNewerPledges_irrefl: "\<not> isNewerPledges p p"
  by (cases p) (simp_all add: Let_def)

lemma isNewerPledges_trans: "isNewerPledges a b \<Longrightarrow> isNewerPledges b c \<Longrightarrow> isNewerPledges a c"
  by (cases a; cases b; cases c)
     (auto simp: Let_def split: if_splits dest: ballot_opt_less_trans)

interpretation ballot_order: statement_order isNewerPledges
  by unfold_locales (fact isNewerPledges_irrefl, fact isNewerPledges_trans)

section \<open>Predicates on statements\<close>

fun hasPreparedBallot :: "SCPBallot \<Rightarrow> BallotPledges \<Rightarrow> bool" where
  "hasPreparedBallot ballot (Prepare p) =
     ((case p_prepared p of None \<Rightarrow> False | Some x \<Rightarrow> areBallotsLessAndCompatible ballot x) \<or>
      (case p_preparedPrime p of None \<Rightarrow> False | Some x \<Rightarrow> areBallotsLessAndCompatible ballot x))"
| "hasPreparedBallot ballot (Confirm c) =
     areBallotsLessAndCompatible ballot (SCPBallot (c_nPrepared c) (bvalue (c_ballot c)))"
| "hasPreparedBallot ballot (Externalize e) = areBallotsCompatible ballot (e_commit e)"

text \<open>The lambda passed as \<open>voted\<close> in \<^verbatim>\<open>attemptPreparedAccept\<close>.\<close>

fun votesPrepare :: "SCPBallot \<Rightarrow> BallotPledges \<Rightarrow> bool" where
  "votesPrepare ballot (Prepare p) = areBallotsLessAndCompatible ballot (p_ballot p)"
| "votesPrepare ballot (Confirm c) = areBallotsCompatible ballot (c_ballot c)"
| "votesPrepare ballot (Externalize e) = areBallotsCompatible ballot (e_commit e)"

type_synonym Interval = "uint32 \<times> uint32"

fun commitPredicate :: "SCPBallot \<Rightarrow> Interval \<Rightarrow> BallotPledges \<Rightarrow> bool" where
  "commitPredicate ballot check (Prepare p) = False"
| "commitPredicate ballot check (Confirm c) =
     (areBallotsCompatible ballot (c_ballot c) \<and>
      c_nCommit c \<le> fst check \<and> snd check \<le> c_nH c)"
| "commitPredicate ballot check (Externalize e) =
     (areBallotsCompatible ballot (e_commit e) \<and> counter (e_commit e) \<le> fst check)"

text \<open>The lambda passed as \<open>voted\<close> in \<^verbatim>\<open>attemptAcceptCommit\<close>.\<close>

fun votesCommit :: "SCPBallot \<Rightarrow> Interval \<Rightarrow> BallotPledges \<Rightarrow> bool" where
  "votesCommit ballot cur (Prepare p) =
     (areBallotsCompatible ballot (p_ballot p) \<and> p_nC p \<noteq> 0 \<and>
      p_nC p \<le> fst cur \<and> snd cur \<le> p_nH p)"
| "votesCommit ballot cur (Confirm c) =
     (areBallotsCompatible ballot (c_ballot c) \<and> c_nCommit c \<le> fst cur)"
| "votesCommit ballot cur (Externalize e) =
     (areBallotsCompatible ballot (e_commit e) \<and> counter (e_commit e) \<le> fst cur)"

fun getWorkingBallot :: "BallotPledges \<Rightarrow> SCPBallot" where
  "getWorkingBallot (Prepare p) = p_ballot p"
| "getWorkingBallot (Confirm c) = SCPBallot (c_nCommit c) (bvalue (c_ballot c))"
| "getWorkingBallot (Externalize e) = e_commit e"

section \<open>Prepare candidates\<close>

fun hintBallots :: "BallotPledges \<Rightarrow> SCPBallot list" where
  "hintBallots (Prepare prep) =
     set_of ([p_ballot prep] @
       (case p_prepared prep of None \<Rightarrow> [] | Some x \<Rightarrow> [x]) @
       (case p_preparedPrime prep of None \<Rightarrow> [] | Some x \<Rightarrow> [x]))"
| "hintBallots (Confirm con) =
     set_of [SCPBallot (c_nPrepared con) (bvalue (c_ballot con)),
             SCPBallot UINT32_MAX (bvalue (c_ballot con))]"
| "hintBallots (Externalize ext) = set_of [SCPBallot UINT32_MAX (bvalue (e_commit ext))]"

text \<open>What one recorded statement contributes for one hint, in the order of the insertions.\<close>

fun candidatesFor :: "SCPBallot \<Rightarrow> BallotPledges \<Rightarrow> SCPBallot list" where
  "candidatesFor topVote (Prepare prep) =
     (if areBallotsLessAndCompatible (p_ballot prep) topVote then [p_ballot prep] else []) @
     (case p_prepared prep of None \<Rightarrow> []
      | Some x \<Rightarrow> if areBallotsLessAndCompatible x topVote then [x] else []) @
     (case p_preparedPrime prep of None \<Rightarrow> []
      | Some x \<Rightarrow> if areBallotsLessAndCompatible x topVote then [x] else [])"
| "candidatesFor topVote (Confirm con) =
     (if areBallotsCompatible topVote (c_ballot con)
      then [topVote] @ (if c_nPrepared con < counter topVote
                        then [SCPBallot (c_nPrepared con) (bvalue topVote)] else [])
      else [])"
| "candidatesFor topVote (Externalize ext) =
     (if areBallotsCompatible topVote (e_commit ext) then [topVote] else [])"

text \<open>The hints are taken from the highest down; the candidates are a set.\<close>

definition getPrepareCandidates :: "BallotPledges \<Rightarrow> (NodeID \<times> BallotEnvelope) list \<Rightarrow> SCPBallot list" where
  "getPrepareCandidates hint latest =
     set_of (concat (map (\<lambda>topVote.
       concat (map (\<lambda>(n, e). candidatesFor topVote (pledges (statement e))) latest))
       (rev (hintBallots hint))))"

lemma getPrepareCandidates_sorted: "strict_sorted (getPrepareCandidates hint latest)"
  by (simp add: getPrepareCandidates_def strict_sorted_set_of)

section \<open>Commit boundaries and the interval search\<close>

fun commitBoundaries :: "SCPBallot \<Rightarrow> BallotPledges \<Rightarrow> uint32 list" where
  "commitBoundaries ballot (Prepare p) =
     (if areBallotsCompatible ballot (p_ballot p) \<and> p_nC p \<noteq> 0 then [p_nC p, p_nH p] else [])"
| "commitBoundaries ballot (Confirm c) =
     (if areBallotsCompatible ballot (c_ballot c) then [c_nCommit c, c_nH c] else [])"
| "commitBoundaries ballot (Externalize e) =
     (if areBallotsCompatible ballot (e_commit e)
      then [counter (e_commit e), e_nH e, UINT32_MAX] else [])"

definition getCommitBoundariesFromStatements ::
  "SCPBallot \<Rightarrow> (NodeID \<times> BallotEnvelope) list \<Rightarrow> uint32 list"
where
  "getCommitBoundariesFromStatements ballot latest =
     set_of (concat (map (\<lambda>(n, e). commitBoundaries ballot (pledges (statement e))) latest))"

text \<open>
  \<^verbatim>\<open>findExtendedInterval\<close>: the argument is the list of boundaries from the top down. The predicate may
  itself fail (it runs federated voting).
\<close>

fun findExtendedInterval_loop ::
  "(Interval \<Rightarrow> scp_error + bool) \<Rightarrow> uint32 list \<Rightarrow> Interval \<Rightarrow> scp_error + Interval"
where
  "findExtendedInterval_loop pred [] candidate = Inr candidate"
| "findExtendedInterval_loop pred (b # bs) candidate =
     (if fst candidate = 0 then
        bindE (pred (b, b)) (\<lambda>ok. findExtendedInterval_loop pred bs (if ok then (b, b) else candidate))
      else if b > snd candidate then findExtendedInterval_loop pred bs candidate
      else bindE (pred (b, snd candidate)) (\<lambda>ok.
             if ok then findExtendedInterval_loop pred bs (b, snd candidate) else Inr candidate))"

definition findExtendedInterval ::
  "Interval \<Rightarrow> uint32 list \<Rightarrow> (Interval \<Rightarrow> scp_error + bool) \<Rightarrow> scp_error + Interval"
where
  "findExtendedInterval candidate boundaries pred =
     findExtendedInterval_loop pred (rev boundaries) candidate"

end
