(* ===== verification/BallotProtocol.thy ===== *)
theory BallotProtocol
  imports Ballot_Statements
begin

text \<open>
  The ballot protocol (\<^verbatim>\<open>src/scp/BallotProtocol.cpp\<close>) as operations on the slot. An operation takes the
  driver \<open>D\<close>, the local node \<open>L\<close> and the slot and returns an error or a result with the new slot.

  The code is recursive: an \<^verbatim>\<open>attempt*\<close> method that makes progress emits a statement, the slot processes
  that statement like a received one, and so calls \<^verbatim>\<open>advanceSlot\<close> again. The operations below take the
  call back into \<^verbatim>\<open>Slot::processEnvelope\<close> as an argument \<open>proc\<close>; \<open>ballot_processEnvelope\<close> at the end
  ties the knot.
\<close>

type_synonym self_process = "BallotEnvelope \<Rightarrow> bool \<Rightarrow> Slot \<Rightarrow> scp_error + (bool \<times> Slot)"

text \<open>
  \<^verbatim>\<open>SCP::EnvelopeState\<close> has two values; \<open>True\<close> is \<^verbatim>\<open>VALID\<close>.
\<close>

abbreviation upd_ballot :: "(BallotProtocol \<Rightarrow> BallotProtocol) \<Rightarrow> Slot \<Rightarrow> Slot" where
  "upd_ballot \<equiv> mBallotProtocol_update"

abbreviation ballot_b :: "Slot \<Rightarrow> SCPBallot option" where
  "ballot_b s \<equiv> mCurrentBallot (mBallotProtocol s)"
abbreviation ballot_p :: "Slot \<Rightarrow> SCPBallot option" where
  "ballot_p s \<equiv> mPrepared (mBallotProtocol s)"
abbreviation ballot_pp :: "Slot \<Rightarrow> SCPBallot option" where
  "ballot_pp s \<equiv> mPreparedPrime (mBallotProtocol s)"
abbreviation ballot_h :: "Slot \<Rightarrow> SCPBallot option" where
  "ballot_h s \<equiv> mHighBallot (mBallotProtocol s)"
abbreviation ballot_c :: "Slot \<Rightarrow> SCPBallot option" where
  "ballot_c s \<equiv> mCommit (mBallotProtocol s)"
abbreviation latest :: "Slot \<Rightarrow> (NodeID \<times> BallotEnvelope) list" where
  "latest s \<equiv> mLatestEnvelopes (mBallotProtocol s)"
abbreviation phase :: "Slot \<Rightarrow> SCPPhase" where
  "phase s \<equiv> mPhase (mBallotProtocol s)"
abbreviation level :: "Slot \<Rightarrow> int" where
  "level s \<equiv> mCurrentMessageLevel (mBallotProtocol s)"

section \<open>Recording, validating\<close>

definition recordEnvelope :: "BallotEnvelope \<Rightarrow> Slot \<Rightarrow> Slot" where
  "recordEnvelope env s =
     recordStatement (wire_statement Ballot (statement env))
       (upd_ballot (mLatestEnvelopes_update (map_put (nodeID (statement env)) env)) s)"

fun pledgesSane :: "bool \<Rightarrow> BallotPledges \<Rightarrow> bool" where
  "pledgesSane self (Prepare p) \<longleftrightarrow>
     (self \<or> counter (p_ballot p) > 0) \<and>
     (case (p_preparedPrime p, p_prepared p) of
        (Some pp, Some pr) \<Rightarrow> areBallotsLessAndIncompatible pp pr
      | _ \<Rightarrow> True) \<and>
     (p_nH p = 0 \<or> (case p_prepared p of None \<Rightarrow> False | Some pr \<Rightarrow> p_nH p \<le> counter pr)) \<and>
     (p_nC p = 0 \<or> p_nH p \<noteq> 0 \<and> counter (p_ballot p) \<ge> p_nH p \<and> p_nH p \<ge> p_nC p)"
| "pledgesSane self (Confirm c) \<longleftrightarrow>
     counter (c_ballot c) > 0 \<and> c_nH c \<le> counter (c_ballot c) \<and> c_nCommit c \<le> c_nH c"
| "pledgesSane self (Externalize e) \<longleftrightarrow>
     counter (e_commit e) > 0 \<and> e_nH e \<ge> counter (e_commit e)"

definition isStatementSane :: "SCPDriver \<Rightarrow> BallotStatement \<Rightarrow> bool \<Rightarrow> scp_error + bool" where
  "isStatementSane D st self =
     bindE (deref (getQuorumSetFromStatement D (wire_statement Ballot st))) (\<lambda>q.
       Inr (if \<not> isQuorumSetSane q False then False else pledgesSane self (pledges st)))"

fun statementValues :: "BallotPledges \<Rightarrow> Value list" where
  "statementValues (Prepare prep) =
     set_of ((if counter (p_ballot prep) \<noteq> 0 then [bvalue (p_ballot prep)] else []) @
             (case p_prepared prep of None \<Rightarrow> [] | Some x \<Rightarrow> [bvalue x]))"
| "statementValues (Confirm c) = set_of [bvalue (c_ballot c)]"
| "statementValues (Externalize e) = set_of [bvalue (e_commit e)]"

definition validateValues :: "SCPDriver \<Rightarrow> uint64 \<Rightarrow> BallotPledges \<Rightarrow> ValidationLevel" where
  "validateValues D slot st =
     fold (\<lambda>v res.
       let tr = validateValue D slot v
       in if tr \<noteq> kFullyValidatedValue
          then (if tr = kInvalidValue then kInvalidValue else kMaybeValidValue)
          else res) (statementValues st) kFullyValidatedValue"

section \<open>The current ballot\<close>

definition startBallotProtocolTimer :: "Slot \<Rightarrow> scp_error + Slot" where
  "startBallotProtocolTimer s =
     bindE (deref (ballot_b s)) (\<lambda>b.
       Inr (driver_log (SetupTimer BALLOT_PROTOCOL_TIMER (computeTimeout (counter b)) BallotTimerExpired) s))"

definition bumpToBallot :: "SCPDriver \<Rightarrow> SCPBallot \<Rightarrow> bool \<Rightarrow> Slot \<Rightarrow> scp_error + Slot" where
  "bumpToBallot D ballot check s =
     bindE (dbgAssert (NDEBUG D) (Inr (phase s \<noteq> SCP_PHASE_EXTERNALIZE))) (\<lambda>_.
     bindE (if check
            then dbgAssert (NDEBUG D)
                   (Inr (case ballot_b s of None \<Rightarrow> True | Some b \<Rightarrow> compareBallots ballot b \<ge> 0))
            else Inr ()) (\<lambda>_.
       let gotBumped = (ballot_b s \<noteq> Some ballot);
           s1 = upd_ballot (\<lambda>B. B\<lparr>mCurrentBallot := Some ballot, mHeardFromQuorum := False\<rparr>) s
       in if gotBumped then startBallotProtocolTimer s1 else Inr s1))"

definition checkInvariants :: "SCPDriver \<Rightarrow> Slot \<Rightarrow> scp_error + unit" where
  "checkInvariants D s =
     bindE (case ballot_b s of
              None \<Rightarrow> Inr ()
            | Some b \<Rightarrow> dbgAssert (NDEBUG D) (Inr (counter b \<noteq> 0))) (\<lambda>_.
     bindE (case (ballot_p s, ballot_pp s) of
              (Some p, Some pp) \<Rightarrow> dbgAssert (NDEBUG D) (Inr (areBallotsLessAndIncompatible pp p))
            | _ \<Rightarrow> Inr ()) (\<lambda>_.
     bindE (case ballot_c s of
              None \<Rightarrow> Inr ()
            | Some c \<Rightarrow>
                bindE (dbgAssert (NDEBUG D) (Inr (ballot_b s \<noteq> None))) (\<lambda>_.
                bindE (dbgAssert (NDEBUG D) (bindE (deref (ballot_h s)) (\<lambda>h.
                         Inr (areBallotsLessAndCompatible c h)))) (\<lambda>_.
                dbgAssert (NDEBUG D) (bindE (deref (ballot_h s)) (\<lambda>h. bindE (deref (ballot_b s)) (\<lambda>b.
                         Inr (areBallotsLessAndCompatible h b))))))) (\<lambda>_.
     case phase s of
       SCP_PHASE_PREPARE \<Rightarrow> Inr ()
     | SCP_PHASE_CONFIRM \<Rightarrow> dbgAssert (NDEBUG D) (Inr (ballot_c s \<noteq> None))
     | SCP_PHASE_EXTERNALIZE \<Rightarrow>
         bindE (dbgAssert (NDEBUG D) (Inr (ballot_c s \<noteq> None))) (\<lambda>_.
           dbgAssert (NDEBUG D) (Inr (ballot_h s \<noteq> None))))))"

definition updateCurrentValue :: "SCPDriver \<Rightarrow> SCPBallot \<Rightarrow> Slot \<Rightarrow> scp_error + (bool \<times> Slot)" where
  "updateCurrentValue D ballot s =
     (if phase s \<noteq> SCP_PHASE_PREPARE \<and> phase s \<noteq> SCP_PHASE_CONFIRM then Inr (False, s)
      else
        (case ballot_b s of
           None \<Rightarrow>
             bindE (bumpToBallot D ballot True s) (\<lambda>s1.
               bindE (checkInvariants D s1) (\<lambda>_. Inr (True, s1)))
         | Some b \<Rightarrow>
             bindE (dbgAssert (NDEBUG D) (Inr (compareBallots b ballot \<le> 0))) (\<lambda>_.
               if (case ballot_c s of None \<Rightarrow> False | Some c \<Rightarrow> \<not> areBallotsCompatible c ballot)
               then Inr (False, s)
               else
                 let comp = compareBallots b ballot
                 in if comp < 0
                    then bindE (bumpToBallot D ballot True s) (\<lambda>s1.
                           bindE (checkInvariants D s1) (\<lambda>_. Inr (True, s1)))
                    else if comp > 0 then Inr (False, s)
                    else bindE (checkInvariants D s) (\<lambda>_. Inr (False, s)))))"

definition updateCurrentIfNeeded :: "SCPDriver \<Rightarrow> Slot \<Rightarrow> scp_error + Slot" where
  "updateCurrentIfNeeded D s =
     (case ballot_b s of
        None \<Rightarrow> bindE (deref (ballot_h s)) (\<lambda>h. bumpToBallot D h True s)
      | Some b \<Rightarrow> bindE (deref (ballot_h s)) (\<lambda>h.
          if compareBallots b h < 0 then bumpToBallot D h True s else Inr s))"

section \<open>Emitting statements\<close>

definition createStatement :: "SCPDriver \<Rightarrow> LocalNode \<Rightarrow> SCPPhase \<Rightarrow> Slot \<Rightarrow> scp_error + BallotPledges" where
  "createStatement D L t s =
     bindE (checkInvariants D s) (\<lambda>_.
     case t of
       SCP_PHASE_PREPARE \<Rightarrow>
         Inr (Prepare
           \<lparr>p_quorumSetHash = mQSetHash L,
            p_ballot = (case ballot_b s of None \<Rightarrow> default_ballot | Some b \<Rightarrow> b),
            p_prepared = ballot_p s,
            p_preparedPrime = ballot_pp s,
            p_nC = (case ballot_c s of None \<Rightarrow> 0 | Some c \<Rightarrow> counter c),
            p_nH = (case ballot_h s of None \<Rightarrow> 0 | Some h \<Rightarrow> counter h)\<rparr>)
     | SCP_PHASE_CONFIRM \<Rightarrow>
         bindE (dbgAssert (NDEBUG D) (bindE (deref (ballot_c s)) (\<lambda>c. bindE (deref (ballot_h s)) (\<lambda>h.
                  Inr (areBallotsLessAndCompatible c h))))) (\<lambda>_.
         bindE (deref (ballot_b s)) (\<lambda>b.
         bindE (deref (ballot_p s)) (\<lambda>p.
         bindE (deref (ballot_c s)) (\<lambda>c.
         bindE (deref (ballot_h s)) (\<lambda>h.
           Inr (Confirm
             \<lparr>c_ballot = b, c_nPrepared = counter p, c_nCommit = counter c, c_nH = counter h,
              c_quorumSetHash = mQSetHash L\<rparr>))))))
     | SCP_PHASE_EXTERNALIZE \<Rightarrow>
         bindE (dbgAssert (NDEBUG D) (bindE (deref (ballot_c s)) (\<lambda>c. bindE (deref (ballot_h s)) (\<lambda>h.
                  Inr (areBallotsLessAndCompatible c h))))) (\<lambda>_.
         bindE (deref (ballot_c s)) (\<lambda>c.
         bindE (deref (ballot_h s)) (\<lambda>h.
           Inr (Externalize
             \<lparr>e_commit = c, e_nH = counter h, e_commitQuorumSetHash = mQSetHash L\<rparr>)))))"

definition sendLatestEnvelope :: "Slot \<Rightarrow> Slot" where
  "sendLatestEnvelope s =
     (case mLastEnvelope (mBallotProtocol s) of
        None \<Rightarrow> s
      | Some (ptr, env) \<Rightarrow>
          if level s = 0 \<and> mFullyValidated s then
            (if (case mLastEnvelopeEmit (mBallotProtocol s) of None \<Rightarrow> True | Some (ptr', _) \<Rightarrow> ptr \<noteq> ptr')
             then driver_log (EmitEnvelope (wire_envelope Ballot env))
                    (upd_ballot (mLastEnvelopeEmit_update (\<lambda>_. Some (ptr, env))) s)
             else s)
          else s)"

definition emitCurrentStateStatement ::
  "SCPDriver \<Rightarrow> LocalNode \<Rightarrow> self_process \<Rightarrow> Slot \<Rightarrow> scp_error + Slot"
where
  "emitCurrentStateStatement D L proc s =
     bindE (createStatement D L (phase s) s) (\<lambda>st.
       let envelope = createEnvelope D L Ballot st s;
           canEmit = (ballot_b s \<noteq> None)
       in if map_of (latest s) (mNodeID L) \<noteq> Some envelope
          then bindE (proc envelope True s) (\<lambda>(valid, s1).
                 if valid then
                   (if canEmit \<and>
                       (case mLastEnvelope (mBallotProtocol s1) of
                          None \<Rightarrow> True
                        | Some (_, e) \<Rightarrow> isNewerStatement2 (statement e) (statement envelope))
                    then Inr (sendLatestEnvelope
                           ((upd_ballot (mLastEnvelope_update (\<lambda>_. Some (mAllocations s1, envelope))) s1)
                              \<lparr>mAllocations := Suc (mAllocations s1)\<rparr>))
                    else Inr s1)
                 else Inl (Runtime_Error ''moved to a bad state (ballot protocol)''))
          else Inr s)"

section \<open>Bumping\<close>

definition bumpState_counter ::
  "SCPDriver \<Rightarrow> LocalNode \<Rightarrow> self_process \<Rightarrow> Value \<Rightarrow> uint32 \<Rightarrow> Slot \<Rightarrow> scp_error + (bool \<times> Slot)"
where
  "bumpState_counter D L proc value n s =
     (if phase s \<noteq> SCP_PHASE_PREPARE \<and> phase s \<noteq> SCP_PHASE_CONFIRM then Inr (False, s)
      else
        let newb = SCPBallot n (case ballot_h s of Some h \<Rightarrow> bvalue h | None \<Rightarrow> value)
        in bindE (updateCurrentValue D newb s) (\<lambda>(updated, s1).
             if updated
             then bindE (emitCurrentStateStatement D L proc (driver_log (StartedBallotProtocol newb) s1))
                    (\<lambda>s2. Inr (True, s2))
             else Inr (False, s1)))"

definition bumpState ::
  "SCPDriver \<Rightarrow> LocalNode \<Rightarrow> self_process \<Rightarrow> Value \<Rightarrow> bool \<Rightarrow> Slot \<Rightarrow> scp_error + (bool \<times> Slot)"
where
  "bumpState D L proc value force s =
     (if \<not> force \<and> ballot_b s \<noteq> None then Inr (False, s)
      else bumpState_counter D L proc value
             (case ballot_b s of Some b \<Rightarrow> counter b + 1 | None \<Rightarrow> 1) s)"

definition abandonBallot ::
  "SCPDriver \<Rightarrow> LocalNode \<Rightarrow> self_process \<Rightarrow> uint32 \<Rightarrow> Slot \<Rightarrow> scp_error + (bool \<times> Slot)"
where
  "abandonBallot D L proc n s =
     (let v0 = getLatestCompositeCandidate s;
          v = (if v0 = [] then (case ballot_b s of Some b \<Rightarrow> bvalue b | None \<Rightarrow> v0) else v0)
      in if v \<noteq> []
         then (if n = 0 then bumpState D L proc v True s else bumpState_counter D L proc v n s)
         else Inr (False, s))"

definition ballotProtocolTimerExpired ::
  "SCPDriver \<Rightarrow> LocalNode \<Rightarrow> self_process \<Rightarrow> Slot \<Rightarrow> scp_error + Slot"
where
  "ballotProtocolTimerExpired D L proc s =
     (if mHeardFromQuorum (mBallotProtocol s)
      then bindE (abandonBallot D L proc 0 s) (\<lambda>(_, s1). Inr s1)
      else startBallotProtocolTimer s)"

end
