(* ===== verification/Ballot_Steps.thy ===== *)
theory Ballot_Steps
  imports BallotProtocol
begin

text \<open>
  The protocol steps of \<^verbatim>\<open>src/scp/BallotProtocol.cpp\<close>: the \<^verbatim>\<open>attempt*\<close> methods that evaluate federated
  voting and the \<^verbatim>\<open>set*\<close> methods that update \<open>b\<close>, \<open>p\<close>, \<open>p'\<close>, \<open>h\<close>, \<open>c\<close> and the phase;
  \<^verbatim>\<open>advanceSlot\<close>, which runs them in order; \<^verbatim>\<open>processEnvelope\<close>; and the recursion through the slot.
\<close>

section \<open>Accepting a ballot as prepared (steps 1 and 5)\<close>

definition setPrepared :: "SCPBallot \<Rightarrow> Slot \<Rightarrow> bool \<times> Slot" where
  "setPrepared ballot s =
     (case ballot_p s of
        Some p \<Rightarrow>
          let comp = compareBallots p ballot
          in if comp < 0 then
               (True, upd_ballot (\<lambda>B. B\<lparr>mPreparedPrime :=
                  (if \<not> areBallotsCompatible p ballot then Some p else mPreparedPrime B),
                  mPrepared := Some ballot\<rparr>) s)
             else if comp > 0 then
               (if (case ballot_pp s of None \<Rightarrow> True | Some pp \<Rightarrow> compareBallots pp ballot < 0)
                then (True, upd_ballot (mPreparedPrime_update (\<lambda>_. Some ballot)) s)
                else (False, s))
             else (False, s)
      | None \<Rightarrow> (True, upd_ballot (mPrepared_update (\<lambda>_. Some ballot)) s))"

definition clearsCommit :: "Slot \<Rightarrow> bool" where
  "clearsCommit s =
     (case (ballot_c s, ballot_h s) of
        (Some c, Some h) \<Rightarrow>
          (case ballot_p s of None \<Rightarrow> False | Some p \<Rightarrow> areBallotsLessAndIncompatible h p) \<or>
          (case ballot_pp s of None \<Rightarrow> False | Some pp \<Rightarrow> areBallotsLessAndIncompatible h pp)
      | _ \<Rightarrow> False)"

definition setPreparedAccept ::
  "SCPDriver \<Rightarrow> LocalNode \<Rightarrow> self_process \<Rightarrow> SCPBallot \<Rightarrow> Slot \<Rightarrow> scp_error + (bool \<times> Slot)"
where
  "setPreparedAccept D L proc ballot s =
     (case setPrepared ballot s of
        (didWork, s1) \<Rightarrow>
          bindE (if clearsCommit s1
                 then bindE (dbgAssert (NDEBUG D) (Inr (phase s1 = SCP_PHASE_PREPARE)))
                        (\<lambda>_. Inr (True, upd_ballot (mCommit_update (\<lambda>_. None)) s1))
                 else Inr (didWork, s1)) (\<lambda>(didWork, s2).
            if didWork
            then bindE (emitCurrentStateStatement D L proc (driver_log (AcceptedBallotPrepared ballot) s2))
                   (\<lambda>s3. Inr (True, s3))
            else Inr (False, s2)))"

text \<open>The scan over the candidates, highest first; \<open>Some\<close> is the ballot that was accepted.\<close>

fun findPreparedAccept ::
  "SCPDriver \<Rightarrow> LocalNode \<Rightarrow> Slot \<Rightarrow> SCPBallot list \<Rightarrow> scp_error + SCPBallot option"
where
  "findPreparedAccept D L s [] = Inr None"
| "findPreparedAccept D L s (ballot # cands) =
     bindE (if phase s = SCP_PHASE_CONFIRM then
              bindE (deref (ballot_p s)) (\<lambda>p.
                if \<not> areBallotsLessAndCompatible p ballot then Inr True
                else bindE (dbgAssert (NDEBUG D)
                       (bindE (deref (ballot_c s)) (\<lambda>c. Inr (areBallotsCompatible c ballot))))
                       (\<lambda>_. Inr False))
            else Inr False) (\<lambda>skip.
     if skip then findPreparedAccept D L s cands
     else if (case ballot_pp s of None \<Rightarrow> False | Some pp \<Rightarrow> compareBallots ballot pp \<le> 0)
     then findPreparedAccept D L s cands
     else if (case ballot_p s of None \<Rightarrow> False | Some p \<Rightarrow> areBallotsLessAndCompatible ballot p)
     then findPreparedAccept D L s cands
     else bindE (federatedAccept D L Ballot (\<lambda>st. votesPrepare ballot (pledges st))
                   (\<lambda>st. hasPreparedBallot ballot (pledges st)) (latest s)) (\<lambda>accepted.
            if accepted then Inr (Some ballot) else findPreparedAccept D L s cands))"

definition attemptPreparedAccept ::
  "SCPDriver \<Rightarrow> LocalNode \<Rightarrow> self_process \<Rightarrow> BallotPledges \<Rightarrow> Slot \<Rightarrow> scp_error + (bool \<times> Slot)"
where
  "attemptPreparedAccept D L proc hint s =
     (if phase s \<noteq> SCP_PHASE_PREPARE \<and> phase s \<noteq> SCP_PHASE_CONFIRM then Inr (False, s)
      else bindE (findPreparedAccept D L s (rev (getPrepareCandidates hint (latest s)))) (\<lambda>found.
             case found of
               None \<Rightarrow> Inr (False, s)
             | Some ballot \<Rightarrow> setPreparedAccept D L proc ballot s))"

section \<open>Confirming a ballot as prepared (steps 2, 3 and 8)\<close>

abbreviation ratifiedPrepared :: "SCPDriver \<Rightarrow> LocalNode \<Rightarrow> Slot \<Rightarrow> SCPBallot \<Rightarrow> scp_error + bool" where
  "ratifiedPrepared D L s ballot \<equiv>
     federatedRatify D L Ballot (\<lambda>st. hasPreparedBallot ballot (pledges st)) (latest s)"

text \<open>The scan for \<open>newH\<close>: the candidates from \<open>newH\<close> down, or \<open>[]\<close> if none was found.\<close>

fun findNewH :: "SCPDriver \<Rightarrow> LocalNode \<Rightarrow> Slot \<Rightarrow> SCPBallot list \<Rightarrow> scp_error + SCPBallot list" where
  "findNewH D L s [] = Inr []"
| "findNewH D L s (ballot # cands) =
     (if (case ballot_h s of None \<Rightarrow> False | Some h \<Rightarrow> compareBallots h ballot \<ge> 0) then Inr []
      else bindE (ratifiedPrepared D L s ballot) (\<lambda>ratified.
             if ratified then Inr (ballot # cands) else findNewH D L s cands))"

text \<open>The scan for \<open>newC\<close>, which goes on from \<open>newH\<close>.\<close>

fun findNewC ::
  "SCPDriver \<Rightarrow> LocalNode \<Rightarrow> Slot \<Rightarrow> SCPBallot \<Rightarrow> SCPBallot list \<Rightarrow> SCPBallot \<Rightarrow> scp_error + SCPBallot"
where
  "findNewC D L s b [] newC = Inr newC"
| "findNewC D L s b (ballot # cands) newC =
     (if compareBallots ballot b < 0 then Inr newC
      else bindE (ratifiedPrepared D L s ballot) (\<lambda>ratified.
             if ratified then findNewC D L s b cands ballot else Inr newC))"

definition setPreparedConfirmed ::
  "SCPDriver \<Rightarrow> LocalNode \<Rightarrow> self_process \<Rightarrow> SCPBallot \<Rightarrow> SCPBallot \<Rightarrow> Slot \<Rightarrow> scp_error + (bool \<times> Slot)"
where
  "setPreparedConfirmed D L proc newC newH s =
     (let raisesH = (case ballot_h s of None \<Rightarrow> True | Some h \<Rightarrow> compareBallots newH h > 0);
          s1 = (if raisesH then upd_ballot (mHighBallot_update (\<lambda>_. Some newH)) s else s)
      in bindE (if counter newC \<noteq> 0
                then bindE (dbgAssert (NDEBUG D) (Inr (ballot_c s1 = None)))
                       (\<lambda>_. Inr (True, upd_ballot (mCommit_update (\<lambda>_. Some newC)) s1))
                else Inr (raisesH, s1)) (\<lambda>(didWork, s2).
           if didWork
           then bindE (updateCurrentIfNeeded D s2) (\<lambda>s3.
                bindE (emitCurrentStateStatement D L proc (driver_log (ConfirmedBallotPrepared newH) s3))
                  (\<lambda>s4. Inr (True, s4)))
           else Inr (False, s2)))"

definition attemptPreparedConfirmed ::
  "SCPDriver \<Rightarrow> LocalNode \<Rightarrow> self_process \<Rightarrow> BallotPledges \<Rightarrow> Slot \<Rightarrow> scp_error + (bool \<times> Slot)"
where
  "attemptPreparedConfirmed D L proc hint s =
     (if phase s \<noteq> SCP_PHASE_PREPARE then Inr (False, s)
      else if ballot_p s = None then Inr (False, s)
      else bindE (findNewH D L s (rev (getPrepareCandidates hint (latest s)))) (\<lambda>rest.
        case rest of
          [] \<Rightarrow> Inr (False, s)
        | newH # _ \<Rightarrow>
            bindE (if ballot_c s = None \<and>
                      (case ballot_p s of None \<Rightarrow> True
                       | Some p \<Rightarrow> \<not> areBallotsLessAndIncompatible newH p) \<and>
                      (case ballot_pp s of None \<Rightarrow> True
                       | Some pp \<Rightarrow> \<not> areBallotsLessAndIncompatible newH pp)
                   then findNewC D L s
                          (case ballot_b s of Some b \<Rightarrow> b | None \<Rightarrow> default_ballot) rest default_ballot
                   else Inr default_ballot) (\<lambda>newC.
              setPreparedConfirmed D L proc newC newH s)))"

section \<open>Accepting a commit (steps 4, 6 and 8)\<close>

definition setAcceptCommit ::
  "SCPDriver \<Rightarrow> LocalNode \<Rightarrow> self_process \<Rightarrow> SCPBallot \<Rightarrow> SCPBallot \<Rightarrow> Slot \<Rightarrow> scp_error + (bool \<times> Slot)"
where
  "setAcceptCommit D L proc c h s =
     (let changed = (case (ballot_h s, ballot_c s) of
                       (Some h', Some c') \<Rightarrow> compareBallots h' h \<noteq> 0 \<or> compareBallots c' c \<noteq> 0
                     | _ \<Rightarrow> True);
          s1 = (if changed
                then upd_ballot (\<lambda>B. B\<lparr>mCommit := Some c, mHighBallot := Some h\<rparr>) s else s)
      in bindE (if phase s1 = SCP_PHASE_PREPARE then
                  let s2 = upd_ballot (mPhase_update (\<lambda>_. SCP_PHASE_CONFIRM)) s1
                  in bindE (case ballot_b s2 of
                              None \<Rightarrow> Inr s2
                            | Some b \<Rightarrow> if \<not> areBallotsLessAndCompatible h b
                                        then bumpToBallot D h False s2 else Inr s2) (\<lambda>s3.
                     Inr (True, upd_ballot (mPreparedPrime_update (\<lambda>_. None)) s3))
                else Inr (changed, s1)) (\<lambda>(didWork, s4).
           if didWork
           then bindE (updateCurrentIfNeeded D s4) (\<lambda>s5.
                bindE (emitCurrentStateStatement D L proc (driver_log (AcceptedCommit h) s5))
                  (\<lambda>s6. Inr (True, s6)))
           else Inr (False, s4)))"

text \<open>The ballot a commit hint is about.\<close>

fun commitHint :: "BallotPledges \<Rightarrow> SCPBallot option" where
  "commitHint (Prepare prep) =
     (if p_nC prep \<noteq> 0 then Some (SCPBallot (p_nH prep) (bvalue (p_ballot prep))) else None)"
| "commitHint (Confirm con) = Some (SCPBallot (c_nH con) (bvalue (c_ballot con)))"
| "commitHint (Externalize ext) = Some (SCPBallot (e_nH ext) (bvalue (e_commit ext)))"

definition attemptAcceptCommit ::
  "SCPDriver \<Rightarrow> LocalNode \<Rightarrow> self_process \<Rightarrow> BallotPledges \<Rightarrow> Slot \<Rightarrow> scp_error + (bool \<times> Slot)"
where
  "attemptAcceptCommit D L proc hint s =
     (if phase s \<noteq> SCP_PHASE_PREPARE \<and> phase s \<noteq> SCP_PHASE_CONFIRM then Inr (False, s)
      else case commitHint hint of
        None \<Rightarrow> Inr (False, s)
      | Some ballot \<Rightarrow>
          bindE (if phase s = SCP_PHASE_CONFIRM
                 then bindE (deref (ballot_h s)) (\<lambda>h. Inr (areBallotsCompatible ballot h))
                 else Inr True) (\<lambda>compatible.
          if \<not> compatible then Inr (False, s)
          else
            let boundaries = getCommitBoundariesFromStatements ballot (latest s)
            in if boundaries = [] then Inr (False, s)
               else bindE (findExtendedInterval (0, 0) boundaries (\<lambda>cur.
                             federatedAccept D L Ballot (\<lambda>st. votesCommit ballot cur (pledges st))
                               (\<lambda>st. commitPredicate ballot cur (pledges st)) (latest s))) (\<lambda>candidate.
                 if fst candidate \<noteq> 0 then
                   bindE (if phase s \<noteq> SCP_PHASE_CONFIRM then Inr True
                          else bindE (deref (ballot_h s)) (\<lambda>h. Inr (snd candidate > counter h))) (\<lambda>go.
                     if go then setAcceptCommit D L proc (SCPBallot (fst candidate) (bvalue ballot))
                                  (SCPBallot (snd candidate) (bvalue ballot)) s
                     else Inr (False, s))
                 else Inr (False, s))))"

section \<open>Confirming a commit (steps 7 and 8)\<close>

definition setConfirmCommit ::
  "SCPDriver \<Rightarrow> LocalNode \<Rightarrow> self_process \<Rightarrow> SCPBallot \<Rightarrow> SCPBallot \<Rightarrow> Slot \<Rightarrow> scp_error + (bool \<times> Slot)"
where
  "setConfirmCommit D L proc c h s =
     bindE (updateCurrentIfNeeded D
              (upd_ballot (\<lambda>B. B\<lparr>mCommit := Some c, mHighBallot := Some h\<rparr>) s)) (\<lambda>s1.
     bindE (emitCurrentStateStatement D L proc
              (upd_ballot (mPhase_update (\<lambda>_. SCP_PHASE_EXTERNALIZE)) s1)) (\<lambda>s2.
       let s3 = stopNomination s2
       in bindE (deref (ballot_c s3)) (\<lambda>c'.
            Inr (True, driver_log (ValueExternalized (bvalue c')) s3))))"

definition attemptConfirmCommit ::
  "SCPDriver \<Rightarrow> LocalNode \<Rightarrow> self_process \<Rightarrow> BallotPledges \<Rightarrow> Slot \<Rightarrow> scp_error + (bool \<times> Slot)"
where
  "attemptConfirmCommit D L proc hint s =
     (if phase s \<noteq> SCP_PHASE_CONFIRM then Inr (False, s)
      else case (ballot_h s, ballot_c s) of
        (Some h, Some c) \<Rightarrow>
          (case hint of
             Prepare _ \<Rightarrow> Inr (False, s)
           | _ \<Rightarrow>
             (case commitHint hint of
                None \<Rightarrow> Inr (False, s)
              | Some ballot \<Rightarrow>
                  if \<not> areBallotsCompatible ballot c then Inr (False, s)
                  else bindE (findExtendedInterval (0, 0)
                                (getCommitBoundariesFromStatements ballot (latest s)) (\<lambda>cur.
                                  federatedRatify D L Ballot
                                    (\<lambda>st. commitPredicate ballot cur (pledges st)) (latest s))) (\<lambda>candidate.
                         if fst candidate \<noteq> 0
                         then setConfirmCommit D L proc (SCPBallot (fst candidate) (bvalue ballot))
                                (SCPBallot (snd candidate) (bvalue ballot)) s
                         else Inr (False, s))))
      | _ \<Rightarrow> Inr (False, s))"

section \<open>Catching up with a v-blocking set (step 9)\<close>

fun statementCounter :: "BallotPledges \<Rightarrow> uint32" where
  "statementCounter (Prepare p) = counter (p_ballot p)"
| "statementCounter (Confirm c) = counter (c_ballot c)"
| "statementCounter (Externalize e) = UINT32_MAX"

fun aheadOf :: "uint32 \<Rightarrow> BallotPledges \<Rightarrow> bool" where
  "aheadOf n (Prepare p) \<longleftrightarrow> n < counter (p_ballot p)"
| "aheadOf n (Confirm c) \<longleftrightarrow> n < counter (c_ballot c)"
| "aheadOf n (Externalize e) \<longleftrightarrow> n \<noteq> UINT32_MAX"

text \<open>The loop over the counters in ascending order; \<open>Some n\<close> is \<^verbatim>\<open>return abandonBallot(n)\<close>.\<close>

fun findBumpCounter :: "LocalNode \<Rightarrow> Slot \<Rightarrow> uint32 \<Rightarrow> uint32 list \<Rightarrow> uint32 option" where
  "findBumpCounter L s targetCounter [] = None"
| "findBumpCounter L s targetCounter (n # ns) =
     (if n < targetCounter then None
      else
        let vBlocking = isVBlocking_map (mQSet L) (latest s) (\<lambda>e. aheadOf n (pledges (statement e)))
        in if n = targetCounter
           then (if \<not> vBlocking then None else findBumpCounter L s targetCounter ns)
           else (if \<not> vBlocking then Some n else findBumpCounter L s targetCounter ns))"

definition allCounters :: "Slot \<Rightarrow> uint32 \<Rightarrow> uint32 list" where
  "allCounters s targetCounter =
     set_insert targetCounter
       (set_of (map (\<lambda>(n, e). statementCounter (pledges (statement e))) (latest s)))"

definition attemptBump ::
  "SCPDriver \<Rightarrow> LocalNode \<Rightarrow> self_process \<Rightarrow> Slot \<Rightarrow> scp_error + (bool \<times> Slot)"
where
  "attemptBump D L proc s =
     (if phase s = SCP_PHASE_PREPARE \<or> phase s = SCP_PHASE_CONFIRM then
        let targetCounter = (case ballot_b s of Some b \<Rightarrow> counter b | None \<Rightarrow> 0)
        in (case findBumpCounter L s targetCounter (allCounters s targetCounter) of
              None \<Rightarrow> Inr (False, s)
            | Some n \<Rightarrow> abandonBallot D L proc n s)
      else Inr (False, s))"

text \<open>The \<^verbatim>\<open>do ... while (didBump)\<close> loop, with fuel.\<close>

fun bumpLoop ::
  "nat \<Rightarrow> (Slot \<Rightarrow> scp_error + (bool \<times> Slot)) \<Rightarrow> bool \<Rightarrow> Slot \<Rightarrow> scp_error + (bool \<times> Slot)"
where
  "bumpLoop 0 attempt didWork s = Inl Out_Of_Fuel"
| "bumpLoop (Suc n) attempt didWork s =
     bindE (attempt s) (\<lambda>(didBump, s1).
       if didBump then bumpLoop n attempt True s1 else Inr (didWork, s1))"

section \<open>Advancing the slot\<close>

definition MAX_ADVANCE_SLOT_RECURSION :: int where
  "MAX_ADVANCE_SLOT_RECURSION = 50"

fun heardFilter :: "SCPBallot \<Rightarrow> BallotPledges \<Rightarrow> bool" where
  "heardFilter b (Prepare p) \<longleftrightarrow> counter b \<le> counter (p_ballot p)"
| "heardFilter b _ \<longleftrightarrow> True"

definition checkHeardFromQuorum :: "SCPDriver \<Rightarrow> LocalNode \<Rightarrow> Slot \<Rightarrow> scp_error + Slot" where
  "checkHeardFromQuorum D L s =
     (case ballot_b s of
        None \<Rightarrow> Inr s
      | Some b \<Rightarrow>
          if \<not> mHeardFromQuorum (mBallotProtocol s)
          then bindE (isQuorum (mQSet L) (latest s) (env_qset D Ballot)
                        (\<lambda>e. heardFilter b (pledges (statement e)))) (\<lambda>heard.
                 if heard
                 then Inr (driver_log (BallotDidHearFromQuorum b)
                             (upd_ballot (mHeardFromQuorum_update (\<lambda>_. True)) s))
                 else Inr s)
          else Inr s)"

definition advanceSlot ::
  "SCPDriver \<Rightarrow> LocalNode \<Rightarrow> self_process \<Rightarrow> nat \<Rightarrow> BallotStatement \<Rightarrow> Slot \<Rightarrow> scp_error + Slot"
where
  "advanceSlot D L proc bumps hint s =
     (let s0 = upd_ballot (mCurrentMessageLevel_update (\<lambda>l. l + 1)) s;
          h = pledges hint
      in if level s0 \<ge> MAX_ADVANCE_SLOT_RECURSION
         then Inl (Runtime_Error ''maximum number of transitions reached in advanceSlot'')
         else
           bindE (checkHeardFromQuorum D L s0) (\<lambda>s1.
           bindE (attemptPreparedAccept D L proc h s1) (\<lambda>(w1, s2).
           bindE (attemptPreparedConfirmed D L proc h s2) (\<lambda>(w2, s3).
           bindE (attemptAcceptCommit D L proc h s3) (\<lambda>(w3, s4).
           bindE (attemptConfirmCommit D L proc h s4) (\<lambda>(w4, s5).
           bindE (if level s5 = 1
                  then bumpLoop bumps (attemptBump D L proc) (w1 \<or> w2 \<or> w3 \<or> w4) s5
                  else Inr (w1 \<or> w2 \<or> w3 \<or> w4, s5)) (\<lambda>(didWork, s6).
             let s7 = upd_ballot (mCurrentMessageLevel_update (\<lambda>l. l - 1)) s6
             in Inr (if didWork then sendLatestEnvelope s7 else s7))))))))"

definition processEnvelope ::
  "SCPDriver \<Rightarrow> (BallotStatement \<Rightarrow> Slot \<Rightarrow> scp_error + Slot) \<Rightarrow>
   BallotEnvelope \<Rightarrow> bool \<Rightarrow> Slot \<Rightarrow> scp_error + (bool \<times> Slot)"
where
  "processEnvelope D advance envelope self s =
     bindE (dbgAssert (NDEBUG D) (Inr (slotIndex (statement envelope) = mSlotIndex s))) (\<lambda>_.
     bindE (isStatementSane D (statement envelope) self) (\<lambda>sane.
     if \<not> sane then Inr (False, s)
     else if \<not> isNewerStatement (nodeID (statement envelope)) (statement envelope) (latest s)
     then Inr (False, s)
     else
       let validationRes = validateValues D (mSlotIndex s) (pledges (statement envelope))
       in if validationRes \<noteq> kInvalidValue then
            (if phase s \<noteq> SCP_PHASE_EXTERNALIZE then
               let s1 = (if validationRes = kMaybeValidValue then setFullyValidated False s else s)
               in bindE (advance (statement envelope) (recordEnvelope envelope s1)) (\<lambda>s2. Inr (True, s2))
             else
               bindE (deref (ballot_c s)) (\<lambda>c.
                 if bvalue c = bvalue (getWorkingBallot (pledges (statement envelope)))
                 then Inr (True, recordEnvelope envelope s)
                 else Inr (False, s)))
          else Inr (False, s)))"

section \<open>The recursion through the slot\<close>

text \<open>
  \<open>fuel\<close> bounds the nesting of \<^verbatim>\<open>processEnvelope\<close>, \<open>bumps\<close> the iterations of one bump loop.
\<close>

fun ballot_processEnvelope ::
  "SCPDriver \<Rightarrow> LocalNode \<Rightarrow> nat \<Rightarrow> nat \<Rightarrow> BallotEnvelope \<Rightarrow> bool \<Rightarrow> Slot \<Rightarrow> scp_error + (bool \<times> Slot)"
where
  "ballot_processEnvelope D L bumps 0 envelope self s = Inl Out_Of_Fuel"
| "ballot_processEnvelope D L bumps (Suc fuel) envelope self s =
     processEnvelope D (advanceSlot D L (ballot_processEnvelope D L bumps fuel) bumps) envelope self s"

section \<open>Restoring and reporting state\<close>

definition setStateFromEnvelope :: "SCPDriver \<Rightarrow> BallotEnvelope \<Rightarrow> Slot \<Rightarrow> scp_error + Slot" where
  "setStateFromEnvelope D e s =
     (if ballot_b s \<noteq> None
      then Inl (Runtime_Error ''Cannot set state after starting ballot protocol'')
      else
        let s1 = recordEnvelope e s;
            ptr = mAllocations s1;
            s2 = (upd_ballot (\<lambda>B. B\<lparr>mLastEnvelope := Some (ptr, e), mLastEnvelopeEmit := Some (ptr, e)\<rparr>) s1)
                   \<lparr>mAllocations := Suc ptr\<rparr>
        in (case pledges (statement e) of
              Prepare prep \<Rightarrow>
                bindE (bumpToBallot D (p_ballot prep) True s2) (\<lambda>s3.
                  Inr (upd_ballot (\<lambda>B. B\<lparr>
                    mPrepared := (case p_prepared prep of Some x \<Rightarrow> Some x | None \<Rightarrow> mPrepared B),
                    mPreparedPrime := (case p_preparedPrime prep of Some x \<Rightarrow> Some x | None \<Rightarrow> mPreparedPrime B),
                    mHighBallot := (if p_nH prep \<noteq> 0
                      then Some (SCPBallot (p_nH prep) (bvalue (p_ballot prep))) else mHighBallot B),
                    mCommit := (if p_nC prep \<noteq> 0
                      then Some (SCPBallot (p_nC prep) (bvalue (p_ballot prep))) else mCommit B),
                    mPhase := SCP_PHASE_PREPARE\<rparr>) s3))
            | Confirm c \<Rightarrow>
                bindE (bumpToBallot D (c_ballot c) True s2) (\<lambda>s3.
                  Inr (upd_ballot (\<lambda>B. B\<lparr>
                    mPrepared := Some (SCPBallot (c_nPrepared c) (bvalue (c_ballot c))),
                    mHighBallot := Some (SCPBallot (c_nH c) (bvalue (c_ballot c))),
                    mCommit := Some (SCPBallot (c_nCommit c) (bvalue (c_ballot c))),
                    mPhase := SCP_PHASE_CONFIRM\<rparr>) s3))
            | Externalize ext \<Rightarrow>
                bindE (bumpToBallot D (SCPBallot UINT32_MAX (bvalue (e_commit ext))) True s2) (\<lambda>s3.
                  Inr (upd_ballot (\<lambda>B. B\<lparr>
                    mPrepared := Some (SCPBallot UINT32_MAX (bvalue (e_commit ext))),
                    mHighBallot := Some (SCPBallot (e_nH ext) (bvalue (e_commit ext))),
                    mCommit := Some (e_commit ext),
                    mPhase := SCP_PHASE_EXTERNALIZE\<rparr>) s3))))"

definition getCurrentState :: "LocalNode \<Rightarrow> Slot \<Rightarrow> BallotEnvelope list" where
  "getCurrentState L s =
     map snd (filter (\<lambda>(n, e). n \<noteq> mNodeID L \<or> mFullyValidated s) (latest s))"

definition getExternalizingState :: "LocalNode \<Rightarrow> Slot \<Rightarrow> scp_error + BallotEnvelope list" where
  "getExternalizingState L s =
     (if phase s = SCP_PHASE_EXTERNALIZE then
        bindE (filterE (\<lambda>(n, e).
            if n \<noteq> mNodeID L
            then bindE (deref (ballot_c s)) (\<lambda>c.
                   Inr (areBallotsCompatible (getWorkingBallot (pledges (statement e))) c))
            else Inr (mFullyValidated s)) (latest s)) (\<lambda>sel. Inr (map snd sel))
      else Inr [])"

end
