(* ===== verification/Ballot_Safety.thy ===== *)
theory Ballot_Safety
  imports Ballot_Steps "HOL-Library.Sublist"
begin

text \<open>
  What no run of the ballot protocol can undo. \<open>slot_inv\<close> is the invariant of a slot and
  \<open>progress\<close> relates the slot before an operation to the slot after it. Both are proved for every
  operation from the assumption that the recursive call into the slot keeps them (the locale
  \<open>ballot_recursion\<close>), and then for the whole recursion by induction on its depth.
\<close>

section \<open>Invariant and progress relation\<close>

fun phase_rank :: "SCPPhase \<Rightarrow> nat" where
  "phase_rank SCP_PHASE_PREPARE = 0"
| "phase_rank SCP_PHASE_CONFIRM = 1"
| "phase_rank SCP_PHASE_EXTERNALIZE = 2"

definition commit_value :: "Slot \<Rightarrow> Value option" where
  "commit_value s = map_option bvalue (ballot_c s)"

fun ext_values :: "driver_call list \<Rightarrow> Value list" where
  "ext_values [] = []"
| "ext_values (ValueExternalized v # cs) = v # ext_values cs"
| "ext_values (_ # cs) = ext_values cs"

lemma ext_values_append [simp]: "ext_values (xs @ ys) = ext_values xs @ ext_values ys"
  by (induction xs rule: ext_values.induct) auto

text \<open>\<open>p'\<close> is below \<open>p\<close> and has another value (the second assertion of \<^verbatim>\<open>checkInvariants\<close>).\<close>

definition prepared_ok :: "Slot \<Rightarrow> bool" where
  "prepared_ok s \<longleftrightarrow>
     (\<forall>pp. ballot_pp s = Some pp \<longrightarrow>
        (\<exists>p. ballot_p s = Some p \<and> areBallotsLessAndIncompatible pp p))"

text \<open>From the CONFIRM phase on there is a commit ballot, and \<open>h\<close> has its value.\<close>

definition commit_ok :: "Slot \<Rightarrow> bool" where
  "commit_ok s \<longleftrightarrow>
     (phase s \<noteq> SCP_PHASE_PREPARE \<longrightarrow>
        (\<exists>c h. ballot_c s = Some c \<and> ballot_h s = Some h \<and> bvalue h = bvalue c))"

definition slot_inv :: "Slot \<Rightarrow> bool" where
  "slot_inv s \<longleftrightarrow> map_ok (latest s) \<and> prepared_ok s \<and> commit_ok s"

definition envelopes_grow :: "Slot \<Rightarrow> Slot \<Rightarrow> bool" where
  "envelopes_grow s s' \<longleftrightarrow> newer_map isNewerPledges (\<lambda>e. pledges (statement e)) (latest s) (latest s')"

definition progress :: "Slot \<Rightarrow> Slot \<Rightarrow> bool" where
  "progress s s' \<longleftrightarrow>
     mSlotIndex s' = mSlotIndex s \<and>
     level s' = level s \<and>
     phase_rank (phase s) \<le> phase_rank (phase s') \<and>
     (phase s \<noteq> SCP_PHASE_PREPARE \<longrightarrow> commit_value s' = commit_value s) \<and>
     (phase s \<noteq> SCP_PHASE_PREPARE \<or> phase s' = SCP_PHASE_PREPARE \<longrightarrow>
        ballot_opt_le (ballot_b s) (ballot_b s')) \<and>
     ballot_opt_le (ballot_p s) (ballot_p s') \<and>
     prefix (mStatementsHistory s) (mStatementsHistory s') \<and>
     prefix (mDriverCalls s) (mDriverCalls s') \<and>
     ext_values (mDriverCalls s') = ext_values (mDriverCalls s) @
       (if phase s \<noteq> SCP_PHASE_EXTERNALIZE \<and> phase s' = SCP_PHASE_EXTERNALIZE
        then [the (commit_value s')] else []) \<and>
     envelopes_grow s s'"

lemma phase_rank_simps [simp]:
  "phase_rank a \<le> 0 \<longleftrightarrow> a = SCP_PHASE_PREPARE"
  "phase_rank a = 0 \<longleftrightarrow> a = SCP_PHASE_PREPARE"
  "2 \<le> phase_rank a \<longleftrightarrow> a = SCP_PHASE_EXTERNALIZE"
  by (cases a; simp)+

lemma phase_cases_not_ext:
  "(a \<noteq> SCP_PHASE_PREPARE \<and> a \<noteq> SCP_PHASE_CONFIRM) \<longleftrightarrow> a = SCP_PHASE_EXTERNALIZE"
  by (cases a) simp_all

lemma envelopes_grow_refl [simp]: "envelopes_grow s s"
  by (simp add: envelopes_grow_def)

lemma envelopes_grow_trans: "envelopes_grow s t \<Longrightarrow> envelopes_grow t u \<Longrightarrow> envelopes_grow s u"
  unfolding envelopes_grow_def by (rule ballot_order.newer_map_trans)

lemma progress_refl [simp]: "progress s s"
  by (simp add: progress_def)

lemma progress_trans: "progress s t \<Longrightarrow> progress t u \<Longrightarrow> progress s u"
proof -
  assume a: "progress s t" and b: "progress t u"
  have rank: "phase_rank (phase s) \<le> phase_rank (phase t)" "phase_rank (phase t) \<le> phase_rank (phase u)"
    using a b by (simp_all add: progress_def)
  have locked: "commit_value u = commit_value t" if "phase t = SCP_PHASE_EXTERNALIZE"
    using that b by (simp add: progress_def)
  have "ext_values (mDriverCalls u) = ext_values (mDriverCalls s) @
       (if phase s \<noteq> SCP_PHASE_EXTERNALIZE \<and> phase u = SCP_PHASE_EXTERNALIZE
        then [the (commit_value u)] else [])"
    using a b rank locked
    by (cases "phase s"; cases "phase t"; cases "phase u") (simp_all add: progress_def)
  moreover have "phase s \<noteq> SCP_PHASE_PREPARE \<Longrightarrow> commit_value u = commit_value s"
    using a b rank by (cases "phase t") (auto simp: progress_def)
  moreover have "phase s \<noteq> SCP_PHASE_PREPARE \<or> phase u = SCP_PHASE_PREPARE \<Longrightarrow>
      ballot_opt_le (ballot_b s) (ballot_b u)"
    using a b rank by (auto simp: progress_def intro: ballot_opt_le_trans)
  ultimately show ?thesis
    using a b rank
    by (auto simp: progress_def intro: ballot_opt_le_trans envelopes_grow_trans
        prefix_order.order_trans)
qed

text \<open>
  The ballot protocol may stop the nomination and changes nothing else of it.
\<close>

definition nom_same :: "Slot \<Rightarrow> Slot \<Rightarrow> bool" where
  "nom_same s s' \<longleftrightarrow>
     (mNominationProtocol s')\<lparr>mNominationStarted := False\<rparr> =
       (mNominationProtocol s)\<lparr>mNominationStarted := False\<rparr> \<and>
     (mNominationStarted (mNominationProtocol s') \<longrightarrow> mNominationStarted (mNominationProtocol s))"

lemma nom_same_trans: "nom_same s t \<Longrightarrow> nom_same t u \<Longrightarrow> nom_same s u"
  by (simp add: nom_same_def)

text \<open>
  An operation is safe at \<open>s\<close> if what it returns keeps the invariant and makes progress from \<open>s\<close>;
  \<open>keeps\<close> is the relation between the states.
\<close>

definition keeps :: "Slot \<Rightarrow> Slot \<Rightarrow> bool" where
  "keeps s s' \<longleftrightarrow> (slot_inv s \<longrightarrow> slot_inv s' \<and> progress s s' \<and> nom_same s s')"

lemma keeps_refl [simp]: "keeps s s"
  by (simp add: keeps_def nom_same_def)

lemma keeps_trans: "keeps s t \<Longrightarrow> keeps t u \<Longrightarrow> keeps s u"
  unfolding keeps_def using progress_trans nom_same_trans by blast

abbreviation safe1 :: "Slot \<Rightarrow> scp_error + Slot \<Rightarrow> bool" where
  "safe1 s m \<equiv> post m (keeps s)"

abbreviation safe2 :: "Slot \<Rightarrow> scp_error + ('r \<times> Slot) \<Rightarrow> bool" where
  "safe2 s m \<equiv> post m (\<lambda>(r, s'). keeps s s')"

lemma safe1_from: "keeps s t \<Longrightarrow> safe1 t m \<Longrightarrow> safe1 s m"
  by (erule post_mono) (rule keeps_trans)

lemma safe2_from: "keeps s t \<Longrightarrow> safe2 t m \<Longrightarrow> safe2 s m"
  by (erule post_mono) (auto intro: keeps_trans)

lemma safe_bind1: "safe1 s m \<Longrightarrow> (\<And>t. keeps s t \<Longrightarrow> post (f t) Q) \<Longrightarrow> post (bindE m f) Q"
  by (cases m) simp_all

lemma safe_bind2: "safe2 s m \<Longrightarrow> (\<And>r t. keeps s t \<Longrightarrow> post (f (r, t)) Q) \<Longrightarrow> post (bindE m f) Q"
  by (cases m) auto

section \<open>Elementary updates\<close>

lemmas slot_defs = nom_same_def slot_inv_def prepared_ok_def commit_ok_def progress_def commit_value_def
  envelopes_grow_def

lemma keeps_driver_log:
  assumes "ext_values [c] = []"
  shows "keeps s (driver_log c s)"
  using assms by (simp add: keeps_def slot_defs driver_log_def)

lemma keeps_setFullyValidated [simp]: "keeps s (setFullyValidated v s)"
  by (simp add: keeps_def slot_defs setFullyValidated_def)

lemma keeps_stopNomination [simp]: "keeps s (stopNomination s)"
  by (simp add: keeps_def slot_defs stopNomination_def)

lemma keeps_sendLatestEnvelope: "keeps s (sendLatestEnvelope s)"
  by (simp add: keeps_def slot_defs sendLatestEnvelope_def driver_log_def split: option.split prod.split)

lemma keeps_heard: "keeps s (upd_ballot (mHeardFromQuorum_update (\<lambda>_. True)) s)"
  by (simp add: keeps_def slot_defs)

text \<open>The pointer bookkeeping of \<open>mLastEnvelope\<close> touches nothing the invariant speaks of.\<close>

lemma keeps_lastEnvelope:
  "keeps s ((upd_ballot (mLastEnvelope_update (\<lambda>_. x)) s)\<lparr>mAllocations := k\<rparr>)"
  by (simp add: keeps_def slot_defs)

lemma keeps_recordEnvelope:
  assumes "isNewerStatement (nodeID (statement e)) (statement e) (latest s)"
  shows "keeps s (recordEnvelope e s)"
proof -
  have "envelopes_grow s (recordEnvelope e s)" if "map_ok (latest s)"
    using that assms
    by (auto simp: envelopes_grow_def recordEnvelope_def recordStatement_def isNewerStatement_def
        isNewerStatement2_def intro!: newer_map_put split: option.splits)
  then show ?thesis
    by (auto simp: keeps_def nom_same_def slot_inv_def prepared_ok_def commit_ok_def progress_def
        commit_value_def recordEnvelope_def recordStatement_def map_ok_put)
qed

section \<open>The current ballot\<close>

lemma safe_startTimer: "safe1 s (startBallotProtocolTimer s)"
  by (simp add: startBallotProtocolTimer_def post_simps keeps_driver_log)

text \<open>
  Moving \<open>b\<close> up is safe in any phase; moving it anywhere is safe where the caller leaves the
  PREPARE phase (\<open>setAcceptCommit\<close>).
\<close>

lemma bumpToBallot_result:
  "post (bumpToBallot D ballot check s) (\<lambda>s'.
     \<exists>calls. ext_values calls = [] \<and>
       s' = (upd_ballot (\<lambda>B. B\<lparr>mCurrentBallot := Some ballot, mHeardFromQuorum := False\<rparr>) s)
              \<lparr>mDriverCalls := mDriverCalls s @ calls\<rparr>)"
proof -
  let ?s1 = "upd_ballot (\<lambda>B. B\<lparr>mCurrentBallot := Some ballot, mHeardFromQuorum := False\<rparr>) s"
  have "\<exists>calls. ext_values calls = [] \<and> ?s1 = ?s1\<lparr>mDriverCalls := mDriverCalls s @ calls\<rparr>"
    by (intro exI [of _ "[]"]) simp
  moreover have "\<exists>calls. ext_values calls = [] \<and>
      driver_log (SetupTimer BALLOT_PROTOCOL_TIMER t BallotTimerExpired) ?s1 =
      ?s1\<lparr>mDriverCalls := mDriverCalls s @ calls\<rparr>" for t
    by (intro exI [of _ "[SetupTimer BALLOT_PROTOCOL_TIMER t BallotTimerExpired]"])
       (simp add: driver_log_def)
  ultimately show ?thesis
    by (simp add: bumpToBallot_def startBallotProtocolTimer_def post_simps Let_def)
qed

lemma safe_bumpToBallot:
  assumes "ballot_opt_le (ballot_b s) (Some ballot)"
  shows "safe1 s (bumpToBallot D ballot check s)"
proof -
  have "keeps s ((upd_ballot (\<lambda>B. B\<lparr>mCurrentBallot := Some ballot, mHeardFromQuorum := False\<rparr>) s)
      \<lparr>mDriverCalls := mDriverCalls s @ calls\<rparr>)" if "ext_values calls = []" for calls
    using that assms by (simp add: keeps_def slot_defs)
  then show ?thesis
    by (intro post_mono [OF bumpToBallot_result]) auto
qed

lemma safe_updateCurrentIfNeeded: "safe1 s (updateCurrentIfNeeded D s)"
  by (auto simp: updateCurrentIfNeeded_def post_simps ballot_opt_le_def
      intro!: safe_bumpToBallot split: option.split)

lemma safe_updateCurrentValue: "safe2 s (updateCurrentValue D ballot s)"
proof -
  have "safe2 s (bindE (bumpToBallot D ballot True s) (\<lambda>s1.
      bindE (checkInvariants D s1) (\<lambda>_. Inr (True, s1))))"
    if "ballot_opt_le (ballot_b s) (Some ballot)"
    by (rule safe_bind1 [OF safe_bumpToBallot [OF that]]) (auto simp: post_def bindE_Inr_iff)
  then show ?thesis
    by (auto simp: updateCurrentValue_def post_simps Let_def ballot_opt_le_def
        split: option.split)
qed

section \<open>Updates of the protocol variables\<close>

text \<open>A ballot that the scan of \<^verbatim>\<open>attemptPreparedAccept\<close> lets through.\<close>

definition may_prepare :: "SCPBallot \<Rightarrow> Slot \<Rightarrow> bool" where
  "may_prepare ballot s \<longleftrightarrow>
     (\<forall>p. ballot_p s = Some p \<longrightarrow> \<not> areBallotsLessAndCompatible ballot p)"

lemma findPreparedAccept_may_prepare:
  "post (findPreparedAccept D L s cands) (\<lambda>r. \<forall>b. r = Some b \<longrightarrow> b \<in> set cands \<and> may_prepare b s)"
proof (induction cands)
  case Nil
  then show ?case by simp
next
  case (Cons b cands)
  have IH: "post (findPreparedAccept D L s cands)
      (\<lambda>r. \<forall>b'. r = Some b' \<longrightarrow> b' \<in> set (b # cands) \<and> may_prepare b' s)"
    by (rule post_mono [OF Cons.IH]) auto
  have fed: "post (bindE F (\<lambda>accepted. if accepted then Inr (Some b) else findPreparedAccept D L s cands))
      (\<lambda>r. \<forall>b'. r = Some b' \<longrightarrow> b' \<in> set (b # cands) \<and> may_prepare b' s)"
    if "may_prepare b s" for F
    using that IH by (cases F) auto
  have "may_prepare b s" if "\<not> (case ballot_p s of None \<Rightarrow> False | Some p \<Rightarrow> areBallotsLessAndCompatible b p)"
    using that by (auto simp: may_prepare_def split: option.splits)
  with IH fed show ?case
    by (simp add: post_bindE [where f = "\<lambda>skip. if skip then _ else _ skip"] split del: if_split)
       (auto simp: post_def bindE_Inr_iff split: if_splits)
qed

lemma keeps_setPrepared:
  assumes "may_prepare ballot s"
  shows "keeps s (snd (setPrepared ballot s))"
proof (cases "ballot_p s")
  case None
  then show ?thesis
    by (auto simp: setPrepared_def keeps_def slot_defs ballot_opt_le_def)
next
  case (Some p)
  consider "p < ballot" | "ballot < p" "bvalue ballot \<noteq> bvalue p" | "p = ballot"
    using assms Some by (fastforce simp: may_prepare_def less_SCPBallot_def SCPBallot.expand)
  then show ?thesis
  proof cases
    case 1
    with Some show ?thesis
      by (auto simp: setPrepared_def keeps_def slot_defs ballot_opt_le_def less_incompatible_iff
          areBallotsCompatible_def)
  next
    case 2
    with Some show ?thesis
      by (auto simp: setPrepared_def keeps_def slot_defs ballot_opt_le_def less_incompatible_iff
          split: option.splits)
  next
    case 3
    with Some show ?thesis by (simp add: setPrepared_def)
  qed
qed

lemma keeps_clearCommit:
  "phase s = SCP_PHASE_PREPARE \<Longrightarrow> keeps s (upd_ballot (mCommit_update (\<lambda>_. None)) s)"
  by (simp add: keeps_def slot_defs)

lemma keeps_setHighCommit:
  assumes "phase s = SCP_PHASE_PREPARE"
  shows "keeps s (upd_ballot (mHighBallot_update (\<lambda>_. Some h)) s)"
    "keeps s (upd_ballot (mCommit_update (\<lambda>_. Some c)) s)"
    "keeps s (upd_ballot (mCommit_update (\<lambda>_. Some c)) (upd_ballot (mHighBallot_update (\<lambda>_. Some h)) s))"
  using assms by (simp_all add: keeps_def slot_defs)

text \<open>From the CONFIRM phase on the pair of commit and high ballot may only be replaced by one with
  the committed value.\<close>

lemma keeps_setCommitHigh:
  assumes "bvalue h = bvalue c"
    and "phase s \<noteq> SCP_PHASE_PREPARE \<Longrightarrow> commit_value s = Some (bvalue c)"
  shows "keeps s (upd_ballot (\<lambda>B. B\<lparr>mCommit := Some c, mHighBallot := Some h\<rparr>) s)"
  using assms by (auto simp: keeps_def slot_defs)

lemma createStatement_needs_commit:
  "phase s \<noteq> SCP_PHASE_PREPARE \<Longrightarrow> ballot_c s = None \<Longrightarrow>
   post (createStatement D L (phase s) s) (\<lambda>_. False)"
  by (cases "phase s") (auto simp: createStatement_def post_simps)

lemma keeps_level:
  assumes "keeps (upd_ballot (mCurrentMessageLevel_update (\<lambda>l. l + 1)) s) t"
  shows "keeps s (upd_ballot (mCurrentMessageLevel_update (\<lambda>l. l - 1)) t)"
  using assms by (simp add: keeps_def slot_defs)

text \<open>
  Externalizing: between the change of phase and the notification of the driver the slot has
  processed its own EXTERNALIZE statement.
\<close>

lemma progress_externalize:
  assumes "phase s = SCP_PHASE_CONFIRM"
    and "progress (upd_ballot (mPhase_update (\<lambda>_. SCP_PHASE_EXTERNALIZE)) s) t"
    and "ballot_c t = Some c"
  shows "progress s (driver_log (ValueExternalized (bvalue c)) (stopNomination t))"
  using assms
  by (simp add: progress_def commit_value_def envelopes_grow_def driver_log_def stopNomination_def)
     (metis option.sel)


lemma safe2_inv: "(slot_inv s \<Longrightarrow> safe2 s m) \<Longrightarrow> safe2 s m"
  by (auto simp: post_def keeps_def)

lemma updateCurrentIfNeeded_phase: "post (updateCurrentIfNeeded D s) (\<lambda>s'. phase s' = phase s)"
proof -
  have "post (bumpToBallot D h True s) (\<lambda>s'. phase s' = phase s)" for h
    by (rule post_mono [OF bumpToBallot_result]) auto
  then show ?thesis
    by (simp add: updateCurrentIfNeeded_def post_simps split: option.split)
qed

text \<open>Entering the CONFIRM phase as \<^verbatim>\<open>setAcceptCommit\<close> does it.\<close>

abbreviation enterConfirm :: "SCPDriver \<Rightarrow> SCPBallot \<Rightarrow> bool \<Rightarrow> Slot \<Rightarrow> scp_error + Slot" where
  "enterConfirm D h move s \<equiv>
     bindE (if move then bumpToBallot D h False (upd_ballot (mPhase_update (\<lambda>_. SCP_PHASE_CONFIRM)) s)
            else Inr (upd_ballot (mPhase_update (\<lambda>_. SCP_PHASE_CONFIRM)) s))
       (\<lambda>s3. Inr (upd_ballot (mPreparedPrime_update (\<lambda>_. None)) s3))"

abbreviation finishStep ::
  "SCPDriver \<Rightarrow> LocalNode \<Rightarrow> self_process \<Rightarrow> driver_call \<Rightarrow> Slot \<Rightarrow> scp_error + (bool \<times> Slot)"
where
  "finishStep D L proc call t \<equiv>
     bindE (updateCurrentIfNeeded D t) (\<lambda>u.
       bindE (emitCurrentStateStatement D L proc (driver_log call u)) (\<lambda>v. Inr (True, v)))"

lemma safe_enterConfirm:
  assumes "phase s = SCP_PHASE_PREPARE" "ballot_c s = Some c" "ballot_h s = Some h" "bvalue h = bvalue c"
  shows "safe1 s (enterConfirm D h move s)"
proof (cases move)
  case True
  let ?s2 = "upd_ballot (mPhase_update (\<lambda>_. SCP_PHASE_CONFIRM)) s"
  have "post (bumpToBallot D h False ?s2) (\<lambda>s3. keeps s (upd_ballot (mPreparedPrime_update (\<lambda>_. None)) s3))"
    using assms by (intro post_mono [OF bumpToBallot_result]) (auto simp: keeps_def slot_defs)
  with True show ?thesis by (simp add: post_bindE)
next
  case False
  with assms show ?thesis by (simp add: keeps_def slot_defs)
qed

text \<open>\<^verbatim>\<open>setAcceptCommit\<close> puts the pair \<open>c\<close>, \<open>h\<close> in place and then does one of three things.\<close>

lemma setAcceptCommit_shape:
  assumes val: "bvalue h = bvalue c"
    and locked: "phase s \<noteq> SCP_PHASE_PREPARE \<Longrightarrow> commit_value s = Some (bvalue c)"
  obtains t move where "keeps s t" "ballot_c t = Some c" "ballot_h t = Some h"
    "phase t = SCP_PHASE_PREPARE \<longrightarrow> setAcceptCommit D L proc c h s =
       bindE (enterConfirm D h move t) (finishStep D L proc (AcceptedCommit h))"
    "phase t \<noteq> SCP_PHASE_PREPARE \<longrightarrow> setAcceptCommit D L proc c h s = Inr (False, t) \<or>
       setAcceptCommit D L proc c h s = finishStep D L proc (AcceptedCommit h) t"
proof -
  let ?changed = "case (ballot_h s, ballot_c s) of
      (Some h', Some c') \<Rightarrow> compareBallots h' h \<noteq> 0 \<or> compareBallots c' c \<noteq> 0 | _ \<Rightarrow> True"
  define t where "t = (if ?changed
      then upd_ballot (\<lambda>B. B\<lparr>mCommit := Some c, mHighBallot := Some h\<rparr>) s else s)"
  define move where "move = (case ballot_b t of None \<Rightarrow> False | Some b \<Rightarrow> \<not> areBallotsLessAndCompatible h b)"
  have t: "keeps s t" "ballot_c t = Some c" "ballot_h t = Some h"
    using keeps_setCommitHigh [OF val locked]
    by (auto simp: t_def split: option.splits if_splits)
  have "setAcceptCommit D L proc c h s =
       bindE (enterConfirm D h move t) (finishStep D L proc (AcceptedCommit h))"
    if "phase t = SCP_PHASE_PREPARE"
    using that unfolding setAcceptCommit_def Let_def t_def [symmetric] move_def
    by (cases "ballot_b t") (simp_all add: bindE_assoc)
  moreover have "setAcceptCommit D L proc c h s = Inr (False, t) \<or>
       setAcceptCommit D L proc c h s = finishStep D L proc (AcceptedCommit h) t"
    if "phase t \<noteq> SCP_PHASE_PREPARE"
    using that unfolding setAcceptCommit_def Let_def t_def [symmetric] by simp
  ultimately show thesis using that [OF t] by blast
qed

section \<open>The protocol steps, given the recursive call\<close>

text \<open>
  What the steps rely on: processing the node's own statement keeps the invariant and makes
  progress. The recursion below provides it.
\<close>

locale ballot_recursion =
  fixes proc :: self_process
  assumes proc_keeps: "safe2 s (proc e self s)"
begin

lemma safe_emit: "safe1 s (emitCurrentStateStatement D L proc s)"
proof -
  have "safe1 s (bindE (proc env True s) (\<lambda>(valid, s1).
      if valid then
        (if canEmit \<and> P s1
         then Inr (sendLatestEnvelope
                ((upd_ballot (mLastEnvelope_update (\<lambda>_. Some (mAllocations s1, env))) s1)
                   \<lparr>mAllocations := Suc (mAllocations s1)\<rparr>))
         else Inr s1)
      else Inl E))" for env canEmit P E
    by (rule safe_bind2 [OF proc_keeps])
       (auto intro: keeps_trans [OF _ keeps_trans [OF keeps_lastEnvelope keeps_sendLatestEnvelope]])
  then show ?thesis
    by (simp add: emitCurrentStateStatement_def post_bindE Let_def)
qed

text \<open>Logging a notification and emitting the state is how every successful step ends.\<close>

lemma safe_log_emit:
  assumes "keeps s t" and "ext_values [c] = []"
  shows "safe2 s (bindE (emitCurrentStateStatement D L proc (driver_log c t)) (\<lambda>u. Inr (r, u)))"
proof (rule safe_bind1 [where s = s])
  show "safe1 s (emitCurrentStateStatement D L proc (driver_log c t))"
    using assms by (intro safe1_from [OF _ safe_emit]) (blast intro: keeps_trans keeps_driver_log)
qed simp

lemma emit_needs_commit:
  "phase s \<noteq> SCP_PHASE_PREPARE \<Longrightarrow> ballot_c s = None \<Longrightarrow>
   post (emitCurrentStateStatement D L proc s) (\<lambda>_. False)"
  unfolding emitCurrentStateStatement_def
  by (drule (1) createStatement_needs_commit [of _ D L]) (auto simp: post_def bindE_Inr_iff)

lemma safe_bumpState_counter: "safe2 s (bumpState_counter D L proc v n s)"
proof -
  let ?b = "SCPBallot n (case ballot_h s of Some h \<Rightarrow> bvalue h | None \<Rightarrow> v)"
  have "safe2 s (bindE (updateCurrentValue D ?b s) (\<lambda>(updated, s1).
      if updated
      then bindE (emitCurrentStateStatement D L proc (driver_log (StartedBallotProtocol ?b) s1))
             (\<lambda>s2. Inr (True, s2))
      else Inr (False, s1)))"
    by (rule safe_bind2 [OF safe_updateCurrentValue]) (auto intro: safe_log_emit)
  then show ?thesis
    by (simp add: bumpState_counter_def Let_def)
qed

lemma safe_bumpState: "safe2 s (bumpState D L proc v force s)"
  by (simp add: bumpState_def safe_bumpState_counter)

lemma safe_abandonBallot: "safe2 s (abandonBallot D L proc n s)"
  by (simp add: abandonBallot_def Let_def safe_bumpState safe_bumpState_counter)

lemma safe_timerExpired: "safe1 s (ballotProtocolTimerExpired D L proc s)"
proof -
  have "safe1 s (bindE (abandonBallot D L proc 0 s) (\<lambda>(_, s1). Inr s1))"
    by (rule safe_bind2 [OF safe_abandonBallot]) simp
  then show ?thesis
    by (simp add: ballotProtocolTimerExpired_def safe_startTimer)
qed

lemma safe_setPreparedAccept:
  assumes "may_prepare ballot s"
  shows "safe2 s (setPreparedAccept D L proc ballot s)"
proof -
  obtain w t where t: "setPrepared ballot s = (w, t)" by (cases "setPrepared ballot s")
  have st: "keeps s t" using keeps_setPrepared [OF assms] t by simp
  let ?u = "upd_ballot (mCommit_update (\<lambda>_. None)) t"
  let ?emit = "bindE (emitCurrentStateStatement D L proc (driver_log (AcceptedBallotPrepared ballot) ?u))
      (\<lambda>s3. Inr (True, s3))"
  have "safe2 s ?emit"
  proof (cases "phase t = SCP_PHASE_PREPARE")
    case True
    then show ?thesis
      by (intro safe_log_emit keeps_trans [OF st] keeps_clearCommit) simp_all
  next
    case False
    then have "post (emitCurrentStateStatement D L proc
        (driver_log (AcceptedBallotPrepared ballot) ?u)) (\<lambda>_. False)"
      by (intro emit_needs_commit) (simp_all add: driver_log_def)
    then show ?thesis by (auto simp: post_def bindE_Inr_iff)
  qed
  moreover have "safe2 s (bindE (emitCurrentStateStatement D L proc
      (driver_log (AcceptedBallotPrepared ballot) t)) (\<lambda>s3. Inr (True, s3)))"
    using st by (rule safe_log_emit) simp
  ultimately show ?thesis
    using t st by (auto simp: setPreparedAccept_def post_bindE post_dbgAssert)
qed

lemma safe_attemptPreparedAccept: "safe2 s (attemptPreparedAccept D L proc hint s)"
proof -
  let ?c = "rev (getPrepareCandidates hint (latest s))"
  have "safe2 s (bindE (findPreparedAccept D L s ?c) (\<lambda>found.
      case found of None \<Rightarrow> Inr (False, s) | Some ballot \<Rightarrow> setPreparedAccept D L proc ballot s))"
    unfolding post_bindE
    by (rule post_mono [OF findPreparedAccept_may_prepare])
       (auto split: option.split intro: safe_setPreparedAccept)
  then show ?thesis
    by (simp add: attemptPreparedAccept_def)
qed

lemma safe_update_emit:
  assumes "keeps s t" and "ext_values [c] = []"
  shows "safe2 s (bindE (updateCurrentIfNeeded D t) (\<lambda>u.
      bindE (emitCurrentStateStatement D L proc (driver_log c u)) (\<lambda>v. Inr (r, v))))"
  using assms
  by (intro safe_bind1 [OF safe1_from [OF _ safe_updateCurrentIfNeeded]] safe_log_emit)

lemma safe_setPreparedConfirmed:
  assumes "phase s = SCP_PHASE_PREPARE"
  shows "safe2 s (setPreparedConfirmed D L proc newC newH s)"
  using keeps_setHighCommit [OF assms] safe_update_emit
  by (auto simp: setPreparedConfirmed_def Let_def post_bindE post_dbgAssert)

lemma safe_attemptPreparedConfirmed: "safe2 s (attemptPreparedConfirmed D L proc hint s)"
  by (auto simp: attemptPreparedConfirmed_def post_bindE safe_setPreparedConfirmed
      split: list.split intro!: post_True [THEN post_mono])

lemma safe_setAcceptCommit:
  assumes "bvalue h = bvalue c"
    and "phase s \<noteq> SCP_PHASE_PREPARE \<Longrightarrow> commit_value s = Some (bvalue c)"
  shows "safe2 s (setAcceptCommit D L proc c h s)"
proof -
  obtain t move where t: "keeps s t" "ballot_c t = Some c" "ballot_h t = Some h"
    and prep: "phase t = SCP_PHASE_PREPARE \<longrightarrow> setAcceptCommit D L proc c h s =
       bindE (enterConfirm D h move t) (finishStep D L proc (AcceptedCommit h))"
    and conf: "phase t \<noteq> SCP_PHASE_PREPARE \<longrightarrow> setAcceptCommit D L proc c h s = Inr (False, t) \<or>
       setAcceptCommit D L proc c h s = finishStep D L proc (AcceptedCommit h) t"
    by (rule setAcceptCommit_shape [where D = D and L = L and proc = proc, OF assms])
  show ?thesis
  proof (cases "phase t = SCP_PHASE_PREPARE")
    case True
    have "safe2 s (bindE (enterConfirm D h move t) (finishStep D L proc (AcceptedCommit h)))"
      using safe1_from [OF t(1) safe_enterConfirm [OF True t(2,3) assms(1)]]
      by (rule safe_bind1) (simp add: safe_update_emit)
    with prep True show ?thesis by simp
  next
    case False
    with conf have "setAcceptCommit D L proc c h s = Inr (False, t) \<or>
       setAcceptCommit D L proc c h s = finishStep D L proc (AcceptedCommit h) t" by simp
    with t(1) safe_update_emit [OF t(1), of "AcceptedCommit h"] show ?thesis
      by (elim disjE) simp_all
  qed
qed

lemma safe_attemptAcceptCommit: "safe2 s (attemptAcceptCommit D L proc hint s)"
proof (rule safe2_inv)
  assume inv: "slot_inv s"
  have "safe2 s (setAcceptCommit D L proc (SCPBallot n (bvalue ballot)) (SCPBallot k (bvalue ballot)) s)"
    if "phase s = SCP_PHASE_CONFIRM \<longrightarrow> (\<exists>h. ballot_h s = Some h \<and> areBallotsCompatible ballot h)"
      "phase s = SCP_PHASE_PREPARE \<or> phase s = SCP_PHASE_CONFIRM" for n k ballot
    using that inv
    by (intro safe_setAcceptCommit)
       (auto simp: slot_inv_def commit_ok_def commit_value_def areBallotsCompatible_def)
  then show "safe2 s (attemptAcceptCommit D L proc hint s)"
    by (auto simp: attemptAcceptCommit_def Let_def post_bindE post_deref
        split: option.split intro!: post_True [THEN post_mono])
qed

lemma safe_setConfirmCommit:
  assumes val: "bvalue h = bvalue c" and ph: "phase s = SCP_PHASE_CONFIRM"
    and locked: "commit_value s = Some (bvalue c)"
  shows "safe2 s (setConfirmCommit D L proc c h s)"
proof -
  let ?t = "upd_ballot (\<lambda>B. B\<lparr>mCommit := Some c, mHighBallot := Some h\<rparr>) s"
  let ?ext = "upd_ballot (mPhase_update (\<lambda>_. SCP_PHASE_EXTERNALIZE))"
  let ?done = "\<lambda>v c'. driver_log (ValueExternalized (bvalue c')) (stopNomination v)"
  have st: "keeps s ?t"
    using val locked by (intro keeps_setCommitHigh) simp_all
  have fin: "keeps u (?done v c')"
    if u: "phase u = SCP_PHASE_CONFIRM" and v: "keeps (?ext u) v" and c': "ballot_c v = Some c'" for u v c'
  proof -
    have "slot_inv (?ext u)" if "slot_inv u"
      using that u by (auto simp: slot_inv_def prepared_ok_def commit_ok_def)
    moreover have "slot_inv (?done v c')" if "slot_inv v"
      using that by (simp add: slot_inv_def prepared_ok_def commit_ok_def driver_log_def stopNomination_def)
    moreover have "nom_same u (?done v c')" if "nom_same (?ext u) v"
      using that by (simp add: nom_same_def driver_log_def stopNomination_def)
    ultimately show ?thesis
      using v progress_externalize [OF u _ c'] unfolding keeps_def by blast
  qed
  have "post (updateCurrentIfNeeded D ?t) (\<lambda>u. phase u = SCP_PHASE_CONFIRM \<and> keeps s u)"
    using updateCurrentIfNeeded_phase [of D ?t] safe1_from [OF st safe_updateCurrentIfNeeded [where D = D]] ph
    by (auto simp: post_def)
  then show ?thesis
    unfolding setConfirmCommit_def post_bindE
  proof (rule post_mono)
    fix u
    assume u: "phase u = SCP_PHASE_CONFIRM \<and> keeps s u"
    show "post (emitCurrentStateStatement D L proc (?ext u)) (\<lambda>x. post (let s3 = stopNomination x
        in bindE (deref (ballot_c s3)) (\<lambda>c'. Inr (True, driver_log (ValueExternalized (bvalue c')) s3)))
        (\<lambda>(r, s'). keeps s s'))"
      by (rule post_mono [OF safe_emit])
         (use u in \<open>auto simp: Let_def post_bindE post_deref stopNomination_def
            intro: keeps_trans [OF _ fin [unfolded stopNomination_def]]\<close>)
  qed
qed

lemma safe_attemptConfirmCommit: "safe2 s (attemptConfirmCommit D L proc hint s)"
proof -
  have "safe2 s (setConfirmCommit D L proc (SCPBallot n (bvalue ballot)) (SCPBallot k (bvalue ballot)) s)"
    if "phase s = SCP_PHASE_CONFIRM" "ballot_c s = Some c" "areBallotsCompatible ballot c" for n k ballot c
    using that by (intro safe_setConfirmCommit) (auto simp: commit_value_def areBallotsCompatible_def)
  then have "safe2 s (bindE F (\<lambda>candidate. if fst candidate \<noteq> 0
      then setConfirmCommit D L proc (SCPBallot (fst candidate) (bvalue ballot))
        (SCPBallot (snd candidate) (bvalue ballot)) s
      else Inr (False, s)))"
    if "phase s = SCP_PHASE_CONFIRM" "ballot_c s = Some c" "areBallotsCompatible ballot c" for F ballot c
    using that by (cases F) simp_all
  then show ?thesis
    by (simp add: attemptConfirmCommit_def split: option.split BallotPledges.split)
qed

lemma safe_attemptBump: "safe2 s (attemptBump D L proc s)"
  by (simp add: attemptBump_def Let_def safe_abandonBallot split: option.split)

lemma safe_bumpLoop: "safe2 s (bumpLoop n (attemptBump D L proc) w s)"
proof (induction n arbitrary: s w)
  case (Suc n)
  show ?case
    unfolding bumpLoop.simps
    by (rule safe_bind2 [OF safe_attemptBump]) (auto intro: safe2_from [OF _ Suc.IH])
qed simp

end

lemma safe_checkHeardFromQuorum: "safe1 s (checkHeardFromQuorum D L s)"
  by (auto simp: checkHeardFromQuorum_def post_bindE split: option.split
      intro!: post_True [THEN post_mono] keeps_trans [OF keeps_heard keeps_driver_log])

section \<open>Advancing the slot and processing an envelope\<close>

context ballot_recursion
begin

lemma safe_advanceSlot: "safe1 s (advanceSlot D L proc bumps hint s)"
proof -
  let ?up = "upd_ballot (mCurrentMessageLevel_update (\<lambda>l. l + 1)) s"
  let ?down = "\<lambda>t. upd_ballot (mCurrentMessageLevel_update (\<lambda>l. l - 1)) t"
  have fin: "keeps s (sendLatestEnvelope (?down t))" if "keeps ?up t" for t
    using keeps_level [OF that] keeps_sendLatestEnvelope by (rule keeps_trans)
  have loop: "safe2 t (if level t = 1 then bumpLoop bumps (attemptBump D L proc) w t else Inr (w, t))" for t w
    by (simp add: safe_bumpLoop)
  show ?thesis
    unfolding advanceSlot_def Let_def
    by (auto intro!: fin keeps_level safe_bind1 [OF safe_checkHeardFromQuorum]
        safe_bind2 [OF safe2_from [OF _ safe_attemptPreparedAccept]]
        safe_bind2 [OF safe2_from [OF _ safe_attemptPreparedConfirmed]]
        safe_bind2 [OF safe2_from [OF _ safe_attemptAcceptCommit]]
        safe_bind2 [OF safe2_from [OF _ safe_attemptConfirmCommit]]
        safe_bind2 [OF safe2_from [OF _ loop]])
qed

end

lemma safe_processEnvelope:
  assumes "\<And>st s. safe1 s (advance st s)"
  shows "safe2 s (processEnvelope D advance envelope self s)"
proof -
  have run: "safe2 s (bindE (advance st (recordEnvelope envelope t)) (\<lambda>s2. Inr (True, s2)))"
    if "keeps s t" "isNewerStatement (nodeID (statement envelope)) (statement envelope) (latest t)" for st t
    using that
    by (intro safe_bind1 [OF safe1_from [OF _ assms]])
       (auto intro: keeps_trans keeps_recordEnvelope)
  have validated: "latest (setFullyValidated v s) = latest s" for v
    by (simp add: setFullyValidated_def)
  show ?thesis
    by (cases "isStatementSane D (statement envelope) self")
       (simp_all add: processEnvelope_def Let_def post_dbgAssert post_deref
          post_bindE [where m = "dbgAssert _ _"] post_bindE [where m = "deref _"]
          validated run keeps_recordEnvelope)
qed

lemma ballot_processEnvelope_safe: "safe2 s (ballot_processEnvelope D L bumps fuel envelope self s)"
proof (induction fuel arbitrary: envelope self s)
  case (Suc fuel)
  show ?case
    unfolding ballot_processEnvelope.simps
    by (intro safe_processEnvelope ballot_recursion.safe_advanceSlot ballot_recursion.intro Suc.IH)
qed simp

interpretation ballot_rec: ballot_recursion "ballot_processEnvelope D L bumps fuel" for D L bumps fuel
  by unfold_locales (rule ballot_processEnvelope_safe)

end
