(* ===== verification/Ballot_Termination.thy ===== *)
theory Ballot_Termination
  imports Ballot_Safety
begin

text \<open>
  Processing an envelope always comes to an end. The nesting of \<^verbatim>\<open>advanceSlot\<close> is cut at
  \<^verbatim>\<open>MAX_ADVANCE_SLOT_RECURSION\<close>, and every turn of the bump loop raises the counter of the current
  ballot or the phase, so with the fuel stated here the model never runs out of it: every error it
  returns is an error of the code.
\<close>

section \<open>Operations that use no fuel\<close>

definition fueled :: "scp_error + 'a \<Rightarrow> bool" where
  "fueled m \<longleftrightarrow> m \<noteq> Inl Out_Of_Fuel"

lemma fueled_basic [simp]:
  "fueled (Inr x)"
  "fueled (Inl e) \<longleftrightarrow> e \<noteq> Out_Of_Fuel"
  by (simp_all add: fueled_def)

lemma fueled_bindE: "fueled m \<Longrightarrow> (\<And>x. m = Inr x \<Longrightarrow> fueled (f x)) \<Longrightarrow> fueled (bindE m f)"
  by (cases m) simp_all

lemma fueled_deref [simp]: "fueled (deref p)"
  by (cases p) simp_all

lemma fueled_dbgAssert [simp]: "fueled c \<Longrightarrow> fueled (dbgAssert nd c)"
  by (cases nd; cases c) (simp_all add: dbgAssert_def)

lemmas fueled_intros = fueled_bindE fueled_dbgAssert

lemma fueled_filterE: "(\<And>x. fueled (p x)) \<Longrightarrow> fueled (filterE p xs)"
  by (induction xs) (auto intro!: fueled_bindE)

lemma fueled_isQuorum_loop: "fueled (isQuorum_loop m qfun ns)"
proof (induction m qfun ns rule: isQuorum_loop.induct)
  case (1 m qfun ns)
  have "fueled (filterE (quorumFilter m qfun ns) ns)"
    by (auto simp: quorumFilter_def intro!: fueled_filterE fueled_bindE)
  with 1 show ?case
    by (subst isQuorum_loop.simps) (auto split: sum.split)
qed

lemma fueled_isQuorum [simp]: "fueled (isQuorum q m qfun f)"
  by (auto simp: isQuorum_def intro!: fueled_intros fueled_isQuorum_loop)

lemma fueled_federated [simp]:
  "fueled (federatedAccept D L tag voted accepted envs)"
  "fueled (federatedRatify D L tag voted envs)"
  by (simp_all add: federatedAccept_def federatedRatify_def)

lemma fueled_findExtendedInterval:
  assumes "\<And>i. fueled (pred i)"
  shows "fueled (findExtendedInterval c bs pred)"
proof -
  have "fueled (findExtendedInterval_loop pred bs c)" for bs
    using assms by (induction pred bs c rule: findExtendedInterval_loop.induct)
      (auto intro!: fueled_intros split: if_split)
  then show ?thesis by (simp add: findExtendedInterval_def)
qed

lemma fueled_checkInvariants [simp]: "fueled (checkInvariants D s)"
  by (auto simp: checkInvariants_def intro!: fueled_intros split: option.split SCPPhase.split)

lemma fueled_createStatement [simp]: "fueled (createStatement D L t s)"
  by (auto simp: createStatement_def intro!: fueled_intros split: SCPPhase.split)

lemma fueled_bumpToBallot [simp]: "fueled (bumpToBallot D b check s)"
  by (auto simp: bumpToBallot_def startBallotProtocolTimer_def Let_def intro!: fueled_intros)

lemma fueled_updateCurrentIfNeeded [simp]: "fueled (updateCurrentIfNeeded D s)"
  by (auto simp: updateCurrentIfNeeded_def intro!: fueled_intros split: option.split)

lemma fueled_updateCurrentValue [simp]: "fueled (updateCurrentValue D b s)"
  by (auto simp: updateCurrentValue_def Let_def intro!: fueled_intros split: option.split)

lemma fueled_findPreparedAccept [simp]: "fueled (findPreparedAccept D L s cands)"
  by (induction cands) (auto intro!: fueled_intros split: if_split)

lemma fueled_findNewH [simp]: "fueled (findNewH D L s cands)"
  by (induction cands) (auto intro!: fueled_intros)

lemma fueled_findNewC [simp]: "fueled (findNewC D L s b cands newC)"
  by (induction cands arbitrary: newC) (auto intro!: fueled_intros)

lemma fueled_checkHeardFromQuorum [simp]: "fueled (checkHeardFromQuorum D L s)"
  by (auto simp: checkHeardFromQuorum_def intro!: fueled_intros split: option.split)

lemma fueled_isStatementSane [simp]: "fueled (isStatementSane D st self)"
  by (auto simp: isStatementSane_def intro!: fueled_intros)

section \<open>Operations that call back into the slot\<close>

definition runs :: "int \<Rightarrow> Slot \<Rightarrow> scp_error + 'a \<Rightarrow> bool" where
  "runs depth s m \<longleftrightarrow> (slot_inv s \<and> depth \<le> level s \<longrightarrow> fueled m)"

lemma runs_fueled [simp]: "fueled m \<Longrightarrow> runs depth s m"
  by (simp add: runs_def)

lemma runs_from: "keeps s t \<Longrightarrow> runs depth t m \<Longrightarrow> runs depth s m"
  by (auto simp: runs_def keeps_def progress_def)

lemma runs_bind1:
  "safe1 s m \<Longrightarrow> runs depth s m \<Longrightarrow> (\<And>t. keeps s t \<Longrightarrow> runs depth s (f t)) \<Longrightarrow> runs depth s (bindE m f)"
  by (cases m) (simp_all add: runs_def)

lemma runs_bind2:
  "safe2 s m \<Longrightarrow> runs depth s m \<Longrightarrow> (\<And>r t. keeps s t \<Longrightarrow> runs depth s (f (r, t))) \<Longrightarrow>
   runs depth s (bindE m f)"
  by (cases m) (auto simp: runs_def)

lemma runs_bind_any:
  "fueled m \<Longrightarrow> (\<And>x. m = Inr x \<Longrightarrow> runs depth s (f x)) \<Longrightarrow> runs depth s (bindE m f)"
  by (cases m) (simp_all add: runs_def)

lemma runs_bind_tail: "runs depth s m \<Longrightarrow> (\<And>x. fueled (f x)) \<Longrightarrow> runs depth s (bindE m f)"
  by (cases m) (simp_all add: runs_def)

lemma runs_inv: "(slot_inv s \<Longrightarrow> runs depth s m) \<Longrightarrow> runs depth s m"
  by (simp add: runs_def)

locale ballot_recursion_total = ballot_recursion proc for proc +
  fixes depth :: int
  assumes proc_runs: "runs depth s (proc e self s)"
begin

lemma runs_emit: "runs depth s (emitCurrentStateStatement D L proc s)"
proof -
  show ?thesis
    unfolding emitCurrentStateStatement_def Let_def
    by (intro runs_bind_any) (auto intro!: runs_bind_tail [OF proc_runs])
qed

lemma runs_log_emit:
  assumes "keeps s t" and "ext_values [c] = []"
  shows "runs depth s (bindE (emitCurrentStateStatement D L proc (driver_log c t)) (\<lambda>u. Inr (r, u)))"
proof (rule runs_from [OF keeps_trans [OF assms(1) keeps_driver_log [OF assms(2)]]])
  show "runs depth (driver_log c t)
      (bindE (emitCurrentStateStatement D L proc (driver_log c t)) (\<lambda>u. Inr (r, u)))"
    by (rule runs_bind1 [OF safe_emit runs_emit]) simp
qed

lemma runs_update_emit:
  assumes "keeps s t" and "ext_values [c] = []"
  shows "runs depth s (bindE (updateCurrentIfNeeded D t) (\<lambda>u.
      bindE (emitCurrentStateStatement D L proc (driver_log c u)) (\<lambda>v. Inr (r, v))))"
  using assms
  by (intro runs_bind1 [OF safe1_from [OF _ safe_updateCurrentIfNeeded]] runs_log_emit) simp_all

lemma runs_bumpState_counter: "runs depth s (bumpState_counter D L proc v n s)"
  by (auto simp: bumpState_counter_def Let_def intro!: runs_bind2 [OF safe_updateCurrentValue] runs_log_emit)

lemma runs_abandonBallot: "runs depth s (abandonBallot D L proc n s)"
  by (simp add: abandonBallot_def bumpState_def Let_def runs_bumpState_counter)

lemma runs_setPreparedAccept:
  assumes "may_prepare ballot s"
  shows "runs depth s (setPreparedAccept D L proc ballot s)"
proof -
  obtain w t where t: "setPrepared ballot s = (w, t)" by (cases "setPrepared ballot s")
  have st: "keeps s t" using keeps_setPrepared [OF assms] t by simp
  let ?u = "driver_log (AcceptedBallotPrepared ballot) (upd_ballot (mCommit_update (\<lambda>_. None)) t)"
  have "runs depth s (bindE (emitCurrentStateStatement D L proc ?u) (\<lambda>s3. Inr (True, s3)))"
  proof (cases "phase t = SCP_PHASE_PREPARE")
    case True
    then show ?thesis
      by (intro runs_log_emit keeps_trans [OF st] keeps_clearCommit) simp_all
  next
    case False
    then have "post (createStatement D L (phase ?u) ?u) (\<lambda>_. False)"
      by (intro createStatement_needs_commit) (simp_all add: driver_log_def)
    then have "fueled (emitCurrentStateStatement D L proc ?u)"
      unfolding emitCurrentStateStatement_def by (intro fueled_bindE) (simp_all add: post_def)
    then show ?thesis by (intro runs_fueled fueled_bindE) simp_all
  qed
  moreover have "runs depth s (bindE (emitCurrentStateStatement D L proc
      (driver_log (AcceptedBallotPrepared ballot) t)) (\<lambda>s3. Inr (True, s3)))"
    using st by (rule runs_log_emit) simp
  ultimately show ?thesis
    using t by (auto simp: setPreparedAccept_def bindE_assoc intro!: runs_bind_any fueled_dbgAssert)
qed

lemma runs_attemptPreparedAccept: "runs depth s (attemptPreparedAccept D L proc hint s)"
proof -
  let ?F = "findPreparedAccept D L s (rev (getPrepareCandidates hint (latest s)))"
  have "fueled ?F" "post ?F (\<lambda>r. \<forall>b. r = Some b \<longrightarrow> may_prepare b s)"
    using findPreparedAccept_may_prepare [of D L s] by (auto simp: post_def)
  then show ?thesis
    by (cases ?F) (auto simp: attemptPreparedAccept_def runs_setPreparedAccept split: option.split)
qed

lemma runs_attemptPreparedConfirmed: "runs depth s (attemptPreparedConfirmed D L proc hint s)"
proof -
  have "runs depth s (setPreparedConfirmed D L proc newC newH s)" if "phase s = SCP_PHASE_PREPARE" for newC newH
    using keeps_setHighCommit [OF that]
    by (auto simp: setPreparedConfirmed_def Let_def bindE_assoc
        intro!: runs_bind_any [where m = "dbgAssert _ _"] runs_update_emit)
  then show ?thesis
    by (auto simp: attemptPreparedConfirmed_def simp del: findNewC.simps intro!: runs_bind_any split: list.split)
qed

lemma runs_setAcceptCommit:
  assumes "bvalue h = bvalue c"
    and "phase s \<noteq> SCP_PHASE_PREPARE \<Longrightarrow> commit_value s = Some (bvalue c)"
  shows "runs depth s (setAcceptCommit D L proc c h s)"
proof -
  obtain t move where t: "keeps s t" "ballot_c t = Some c" "ballot_h t = Some h"
    and prep: "phase t = SCP_PHASE_PREPARE \<longrightarrow> setAcceptCommit D L proc c h s =
       bindE (enterConfirm D h move t) (finishStep D L proc (AcceptedCommit h))"
    and conf: "phase t \<noteq> SCP_PHASE_PREPARE \<longrightarrow> setAcceptCommit D L proc c h s = Inr (False, t) \<or>
       setAcceptCommit D L proc c h s = finishStep D L proc (AcceptedCommit h) t"
    by (rule setAcceptCommit_shape [where D = D and L = L and proc = proc, OF assms])
  show ?thesis
  proof (cases "phase t = SCP_PHASE_PREPARE")
    case True
    have "fueled (enterConfirm D h move t)" by (auto intro!: fueled_bindE)
    then have "runs depth s (bindE (enterConfirm D h move t) (finishStep D L proc (AcceptedCommit h)))"
      by (intro runs_bind1 [OF safe1_from [OF t(1) safe_enterConfirm [OF True t(2,3) assms(1)]]]
          runs_fueled runs_update_emit) simp_all
    with prep True show ?thesis by simp
  next
    case False
    with conf have "setAcceptCommit D L proc c h s = Inr (False, t) \<or>
       setAcceptCommit D L proc c h s = finishStep D L proc (AcceptedCommit h) t" by simp
    with runs_update_emit [OF t(1), of "AcceptedCommit h"] show ?thesis
      by (elim disjE) simp_all
  qed
qed

lemma runs_attemptAcceptCommit: "runs depth s (attemptAcceptCommit D L proc hint s)"
proof (rule runs_inv)
  assume inv: "slot_inv s"
  have "runs depth s (setAcceptCommit D L proc (SCPBallot n (bvalue ballot)) (SCPBallot k (bvalue ballot)) s)"
    if "phase s = SCP_PHASE_CONFIRM \<longrightarrow> (\<exists>h. ballot_h s = Some h \<and> areBallotsCompatible ballot h)"
      "phase s = SCP_PHASE_PREPARE \<or> phase s = SCP_PHASE_CONFIRM" for n k ballot
    using that inv
    by (intro runs_setAcceptCommit)
       (auto simp: slot_inv_def commit_ok_def commit_value_def areBallotsCompatible_def)
  then show "runs depth s (attemptAcceptCommit D L proc hint s)"
    by (cases "ballot_h s")
       (auto simp: attemptAcceptCommit_def Let_def split: option.split
          intro!: runs_bind_any fueled_findExtendedInterval)
qed

lemma runs_setConfirmCommit:
  assumes "bvalue h = bvalue c" "phase s = SCP_PHASE_CONFIRM" "commit_value s = Some (bvalue c)"
  shows "runs depth s (setConfirmCommit D L proc c h s)"
proof -
  let ?t = "upd_ballot (\<lambda>B. B\<lparr>mCommit := Some c, mHighBallot := Some h\<rparr>) s"
  let ?ext = "upd_ballot (mPhase_update (\<lambda>_. SCP_PHASE_EXTERNALIZE))"
  have "keeps s ?t"
    using assms by (intro keeps_setCommitHigh) simp_all
  then have upd: "safe1 s (updateCurrentIfNeeded D ?t)"
    by (rule safe1_from [OF _ safe_updateCurrentIfNeeded])
  have "runs depth s (emitCurrentStateStatement D L proc (?ext u))"
    if "keeps s u" "updateCurrentIfNeeded D ?t = Inr u" for u
  proof -
    have "phase u = SCP_PHASE_CONFIRM"
      using postD [OF updateCurrentIfNeeded_phase that(2)] assms(2) by simp
    then have "runs depth u (emitCurrentStateStatement D L proc (?ext u))"
      using runs_emit [of "?ext u" D L] by (auto simp: runs_def slot_inv_def prepared_ok_def commit_ok_def)
    with that(1) show ?thesis by (rule runs_from)
  qed
  then show ?thesis
    using postD [OF upd] unfolding setConfirmCommit_def Let_def
    by (intro runs_bind_any runs_bind_tail) (auto intro!: fueled_bindE)
qed

lemma runs_attemptConfirmCommit: "runs depth s (attemptConfirmCommit D L proc hint s)"
proof -
  have "runs depth s (setConfirmCommit D L proc (SCPBallot n (bvalue ballot)) (SCPBallot k (bvalue ballot)) s)"
    if "phase s = SCP_PHASE_CONFIRM" "ballot_c s = Some c" "areBallotsCompatible ballot c" for n k ballot c
    using that by (intro runs_setConfirmCommit) (auto simp: commit_value_def areBallotsCompatible_def)
  then have "runs depth s (bindE F (\<lambda>candidate. if fst candidate \<noteq> 0
      then setConfirmCommit D L proc (SCPBallot (fst candidate) (bvalue ballot))
        (SCPBallot (snd candidate) (bvalue ballot)) s
      else Inr (False, s)))"
    if "fueled F" "phase s = SCP_PHASE_CONFIRM" "ballot_c s = Some c" "areBallotsCompatible ballot c"
    for F ballot c
    using that by (intro runs_bind_any) simp_all
  then show ?thesis
    by (simp add: attemptConfirmCommit_def fueled_findExtendedInterval
        split: option.split BallotPledges.split)
qed

end

section \<open>The bump loop\<close>

definition current_counter :: "Slot \<Rightarrow> nat" where
  "current_counter s = (case ballot_b s of None \<Rightarrow> 0 | Some b \<Rightarrow> unat (counter b))"

text \<open>What is left to bump: the counters of this phase and of the phases to come.\<close>

definition bump_measure :: "Slot \<Rightarrow> nat" where
  "bump_measure s =
     (case phase s of
        SCP_PHASE_PREPARE \<Rightarrow> 2 ^ 32 + (2 ^ 32 - current_counter s)
      | SCP_PHASE_CONFIRM \<Rightarrow> 2 ^ 32 - current_counter s
      | SCP_PHASE_EXTERNALIZE \<Rightarrow> 0)"

lemma current_counter_bound: "current_counter s < 2 ^ 32"
  using unat_bound [where 'a = 32] by (simp add: current_counter_def split: option.split)

lemma bump_measure_bound: "bump_measure s \<le> 2 ^ 33"
  using diff_le_self [of "2 ^ 32" "current_counter s"] by (cases "phase s") (simp_all add: bump_measure_def)

lemma current_counter_mono: "ballot_opt_le (ballot_b s) (ballot_b t) \<Longrightarrow> current_counter s \<le> current_counter t"
  by (auto simp: ballot_opt_le_def current_counter_def less_eq_SCPBallot_def word_le_nat_alt word_less_nat_alt
      split: option.splits)

lemma bump_measure_progress: "progress s t \<Longrightarrow> bump_measure t \<le> bump_measure s"
  using current_counter_mono [of s t] current_counter_bound [of s] current_counter_bound [of t]
  by (cases "phase s"; cases "phase t") (auto simp: progress_def bump_measure_def)

lemma findBumpCounter_gt: "findBumpCounter L s target ns = Some n \<Longrightarrow> target < n"
  by (induction ns) (auto simp: Let_def split: if_splits)

lemma updateCurrentValue_True:
  "updateCurrentValue D ballot s = Inr (True, t) \<Longrightarrow>
     ballot_b t = Some ballot \<and> phase t = phase s \<and> phase s \<noteq> SCP_PHASE_EXTERNALIZE"
  using bumpToBallot_result [of D ballot True s]
  by (auto simp: updateCurrentValue_def bindE_Inr_iff post_def Let_def split: if_splits option.splits)

context ballot_recursion
begin

lemma attemptBump_decreases:
  assumes inv: "slot_inv s" and bump: "attemptBump D L proc s = Inr (True, t)"
  shows "bump_measure t < bump_measure s"
proof -
  let ?target = "case ballot_b s of Some b \<Rightarrow> counter b | None \<Rightarrow> 0"
  obtain n v where n: "?target < n" and "bumpState_counter D L proc v n s = Inr (True, t)"
    using bump findBumpCounter_gt [of L s ?target]
    by (fastforce simp: attemptBump_def abandonBallot_def Let_def split: if_splits option.splits)
  then obtain b r u where "counter b = n \<and> updateCurrentValue D b s = Inr (r, u) \<and>
    (if r then bindE (emitCurrentStateStatement D L proc (driver_log (StartedBallotProtocol b) u))
      (\<lambda>s2. Inr (True, s2)) else Inr (False, u)) = Inr (True, t)"
    using that [of "SCPBallot n (case ballot_h s of Some h \<Rightarrow> bvalue h | None \<Rightarrow> v)"]
    by (auto simp: bumpState_counter_def Let_def bindE_Inr_iff [of "updateCurrentValue _ _ _"]
        split: if_split_asm)
  then have b: "counter b = n" and u: "updateCurrentValue D b s = Inr (True, u)"
    and emit: "bindE (emitCurrentStateStatement D L proc (driver_log (StartedBallotProtocol b) u))
      (\<lambda>s2. Inr (True, s2)) = Inr (True, t)" by (auto split: if_splits)
  have "keeps s u"
    using postD [OF safe_updateCurrentValue u] by simp
  moreover have "keeps u t"
    using postD [OF safe_log_emit [OF keeps_refl] emit] by simp
  ultimately have "progress u t"
    using inv by (simp add: keeps_def)
  then have "bump_measure t \<le> bump_measure u"
    by (rule bump_measure_progress)
  moreover have "current_counter s < current_counter u"
    using updateCurrentValue_True [OF u] n b
    by (simp add: current_counter_def word_less_nat_alt split: option.splits)
  then have "bump_measure u < bump_measure s"
    using updateCurrentValue_True [OF u] current_counter_bound [of u]
    by (cases "phase s") (auto simp: bump_measure_def)
  ultimately show ?thesis by linarith
qed

end

context ballot_recursion_total
begin

lemma runs_attemptBump: "runs depth s (attemptBump D L proc s)"
  by (simp add: attemptBump_def Let_def runs_abandonBallot split: option.split)

lemma runs_bumpLoop: "bump_measure s < n \<Longrightarrow> runs depth s (bumpLoop n (attemptBump D L proc) w s)"
proof (induction n arbitrary: s w)
  case (Suc n)
  show ?case
  proof (rule runs_inv)
    assume inv: "slot_inv s"
    have "runs depth s (bumpLoop n (attemptBump D L proc) True t)"
      if "attemptBump D L proc s = Inr (True, t)" for t
      using attemptBump_decreases [OF inv that] Suc postD [OF safe_attemptBump that]
      by (auto intro: runs_from)
    then show "runs depth s (bumpLoop (Suc n) (attemptBump D L proc) w s)"
      using runs_attemptBump [of s D L]
      by (cases "attemptBump D L proc s") (auto simp: runs_def)
  qed
qed simp

lemma runs_advanceSlot:
  assumes "2 ^ 33 < bumps"
  shows "runs (depth - 1) s (advanceSlot D L proc bumps hint s)"
proof -
  let ?up = "upd_ballot (mCurrentMessageLevel_update (\<lambda>l. l + 1)) s"
  have up: "runs (depth - 1) s m" if "runs depth ?up m" for m :: "scp_error + Slot"
    using that by (auto simp: runs_def slot_inv_def prepared_ok_def commit_ok_def)
  have loop: "safe2 t (if level t = 1 then bumpLoop bumps (attemptBump D L proc) w t else Inr (w, t))" for t w
    by (simp add: safe_bumpLoop)
  have runs_loop:
    "runs depth t (if level t = 1 then bumpLoop bumps (attemptBump D L proc) w t else Inr (w, t))" for t w
    using le_less_trans [OF bump_measure_bound assms] by (simp add: runs_bumpLoop)
  show ?thesis
    unfolding advanceSlot_def Let_def
    by (auto intro!: up runs_bind1 [OF safe_checkHeardFromQuorum]
        runs_bind2 [OF safe2_from [OF _ safe_attemptPreparedAccept] runs_from [OF _ runs_attemptPreparedAccept]]
        runs_bind2 [OF safe2_from [OF _ safe_attemptPreparedConfirmed] runs_from [OF _ runs_attemptPreparedConfirmed]]
        runs_bind2 [OF safe2_from [OF _ safe_attemptAcceptCommit] runs_from [OF _ runs_attemptAcceptCommit]]
        runs_bind2 [OF safe2_from [OF _ safe_attemptConfirmCommit] runs_from [OF _ runs_attemptConfirmCommit]]
        runs_bind2 [OF safe2_from [OF _ loop] runs_from [OF _ runs_loop]])
qed

end

section \<open>The whole recursion\<close>

lemma runs_processEnvelope:
  assumes "\<And>st s. runs depth s (advance st s)"
  shows "runs depth s (processEnvelope D advance envelope self s)"
proof -
  have run: "runs depth s (bindE (advance st (recordEnvelope envelope t)) (\<lambda>s2. Inr (True, s2)))"
    if "keeps s t" "isNewerStatement (nodeID (statement envelope)) (statement envelope) (latest t)" for st t
  proof (rule runs_bind_tail)
    show "runs depth s (advance st (recordEnvelope envelope t))"
      by (rule runs_from [OF keeps_trans [OF that(1) keeps_recordEnvelope [OF that(2)]] assms])
  qed simp
  have validated: "latest (setFullyValidated v s) = latest s" for v
    by (simp add: setFullyValidated_def)
  show ?thesis
    unfolding processEnvelope_def Let_def
    by (intro runs_bind_any [where m = "dbgAssert _ _"] runs_bind_any [where m = "isStatementSane _ _ _"])
       (simp_all add: validated run fueled_bindE)
qed

lemma advanceSlot_at_limit: "runs (MAX_ADVANCE_SLOT_RECURSION - 1) s (advanceSlot D L proc bumps hint s)"
  by (simp add: runs_def advanceSlot_def Let_def)

lemma ballot_processEnvelope_runs:
  assumes "2 ^ 33 < bumps"
  shows "runs (MAX_ADVANCE_SLOT_RECURSION - 1 - int n) s
           (ballot_processEnvelope D L bumps (Suc n) envelope self s)"
proof (induction n arbitrary: envelope self s)
  case 0
  show ?case
    using runs_processEnvelope [OF advanceSlot_at_limit] by simp
next
  case (Suc n)
  let ?d = "MAX_ADVANCE_SLOT_RECURSION - 1 - int n"
  have "ballot_recursion_total (ballot_processEnvelope D L bumps (Suc n)) ?d"
    by unfold_locales (rule Suc.IH)
  from ballot_recursion_total.runs_advanceSlot [OF this assms] have
    "runs (?d - 1) s (ballot_processEnvelope D L bumps (Suc (Suc n)) envelope self s)"
    by (subst ballot_processEnvelope.simps) (rule runs_processEnvelope)
  then show ?case by (simp add: algebra_simps)
qed

interpretation ballot_total: ballot_recursion_total
  "ballot_processEnvelope D L (2 ^ 33 + 1) (Suc n)" "MAX_ADVANCE_SLOT_RECURSION - 1 - int n" for D L n
  by unfold_locales (rule ballot_processEnvelope_runs, simp)

section \<open>More fuel changes nothing\<close>

text \<open>\<open>m'\<close> is at least as fuelled as \<open>m\<close>: it agrees with \<open>m\<close> unless \<open>m\<close> ran out.\<close>

definition fuel_le :: "scp_error + 'a \<Rightarrow> scp_error + 'a \<Rightarrow> bool" where
  "fuel_le m m' \<longleftrightarrow> m = Inl Out_Of_Fuel \<or> m = m'"

lemma fuel_le_refl [simp]: "fuel_le m m"
  by (simp add: fuel_le_def)

lemma fuel_le_bottom [simp]: "fuel_le (Inl Out_Of_Fuel) m"
  by (simp add: fuel_le_def)

lemma fuel_le_bindE: "fuel_le m m' \<Longrightarrow> (\<And>x. fuel_le (f x) (f' x)) \<Longrightarrow> fuel_le (bindE m f) (bindE m' f')"
  by (cases m) (fastforce simp: fuel_le_def)+

lemma fuel_le_if: "fuel_le a a' \<Longrightarrow> fuel_le b b' \<Longrightarrow> fuel_le (if c then a else b) (if c then a' else b')"
  by simp

lemma fuel_le_prod: "(\<And>x y. fuel_le (f x y) (f' x y)) \<Longrightarrow> fuel_le (case_prod f p) (case_prod f' p)"
  by (cases p) simp

lemma fuel_le_option:
  "fuel_le a a' \<Longrightarrow> (\<And>x. fuel_le (f x) (f' x)) \<Longrightarrow> fuel_le (case_option a f p) (case_option a' f' p)"
  by (cases p) simp_all

lemma fuel_le_list:
  "fuel_le a a' \<Longrightarrow> (\<And>x xs. fuel_le (f x xs) (f' x xs)) \<Longrightarrow> fuel_le (case_list a f p) (case_list a' f' p)"
  by (cases p) simp_all

lemma fuel_le_pledges:
  "(\<And>x. fuel_le (f x) (f' x)) \<Longrightarrow> (\<And>x. fuel_le (g x) (g' x)) \<Longrightarrow> (\<And>x. fuel_le (h x) (h' x)) \<Longrightarrow>
   fuel_le (case_BallotPledges f g h p) (case_BallotPledges f' g' h' p)"
  by (cases p) simp_all

lemmas fuel_le_intros = fuel_le_bindE fuel_le_if fuel_le_prod fuel_le_option fuel_le_list fuel_le_pledges
  fuel_le_refl

locale more_fuel =
  fixes proc proc' :: self_process
  assumes proc_le: "fuel_le (proc e self s) (proc' e self s)"
begin

lemma emit_le: "fuel_le (emitCurrentStateStatement D L proc s) (emitCurrentStateStatement D L proc' s)"
  unfolding emitCurrentStateStatement_def Let_def by (intro fuel_le_intros proc_le)

lemma steps_le:
  "fuel_le (setPreparedAccept D L proc b s) (setPreparedAccept D L proc' b s)"
  "fuel_le (setPreparedConfirmed D L proc c h s) (setPreparedConfirmed D L proc' c h s)"
  "fuel_le (setAcceptCommit D L proc c h s) (setAcceptCommit D L proc' c h s)"
  "fuel_le (setConfirmCommit D L proc c h s) (setConfirmCommit D L proc' c h s)"
  "fuel_le (bumpState_counter D L proc v n s) (bumpState_counter D L proc' v n s)"
  unfolding setPreparedAccept_def setPreparedConfirmed_def setAcceptCommit_def setConfirmCommit_def
    bumpState_counter_def Let_def
  by (intro fuel_le_intros emit_le)+

lemma attempts_le:
  "fuel_le (attemptPreparedAccept D L proc hint s) (attemptPreparedAccept D L proc' hint s)"
  "fuel_le (attemptPreparedConfirmed D L proc hint s) (attemptPreparedConfirmed D L proc' hint s)"
  "fuel_le (attemptAcceptCommit D L proc hint s) (attemptAcceptCommit D L proc' hint s)"
  "fuel_le (attemptConfirmCommit D L proc hint s) (attemptConfirmCommit D L proc' hint s)"
  "fuel_le (attemptBump D L proc s) (attemptBump D L proc' s)"
  unfolding attemptPreparedAccept_def attemptPreparedConfirmed_def attemptAcceptCommit_def
    attemptConfirmCommit_def attemptBump_def abandonBallot_def bumpState_def Let_def
  by (intro fuel_le_intros steps_le)+

lemma bumpLoop_le:
  "n \<le> n' \<Longrightarrow> fuel_le (bumpLoop n (attemptBump D L proc) w s) (bumpLoop n' (attemptBump D L proc') w s)"
proof (induction n arbitrary: n' w s)
  case (Suc n)
  then obtain k where "n' = Suc k" "n \<le> k" by (cases n') auto
  with Suc.IH show ?case by (auto intro!: fuel_le_intros attempts_le)
qed simp

lemma advanceSlot_le:
  "bumps \<le> bumps' \<Longrightarrow> fuel_le (advanceSlot D L proc bumps hint s) (advanceSlot D L proc' bumps' hint s)"
  unfolding advanceSlot_def Let_def by (intro fuel_le_intros attempts_le bumpLoop_le)

end

lemma ballot_processEnvelope_fuel_le:
  assumes "bumps \<le> bumps'"
  shows "fuel \<le> fuel' \<Longrightarrow> fuel_le (ballot_processEnvelope D L bumps fuel envelope self s)
     (ballot_processEnvelope D L bumps' fuel' envelope self s)"
proof (induction fuel arbitrary: fuel' envelope self s)
  case (Suc fuel)
  then obtain k where k: "fuel' = Suc k" "fuel \<le> k" by (cases fuel') auto
  have "more_fuel (ballot_processEnvelope D L bumps fuel) (ballot_processEnvelope D L bumps' k)"
    by unfold_locales (rule Suc.IH [OF k(2)])
  note step = more_fuel.advanceSlot_le [OF this assms]
  show ?case
    unfolding k(1) ballot_processEnvelope.simps processEnvelope_def Let_def
    by (intro fuel_le_intros step)
qed simp

interpretation ballot_fuel: more_fuel
  "ballot_processEnvelope D L bumps fuel" "ballot_processEnvelope D L (bumps + i) (fuel + j)"
  for D L bumps fuel i j
  by unfold_locales (rule ballot_processEnvelope_fuel_le; simp)

end
