(* ===== verification/NominationProtocol.thy ===== *)
theory NominationProtocol
  imports Ballot_Termination
begin

text \<open>
  \<^verbatim>\<open>src/scp/NominationProtocol.cpp\<close>: voting for values, accepting them, combining the candidates and
  starting the ballot protocol. As in the ballot protocol a node processes its own statements, so the
  operations that emit take the call back into the slot as an argument and
  \<open>nomination_slotProcess\<close> ties the knot.
\<close>

type_synonym nomination_process = "NominationEnvelope \<Rightarrow> Slot \<Rightarrow> scp_error + (bool \<times> Slot)"

abbreviation upd_nom :: "(NominationProtocol \<Rightarrow> NominationProtocol) \<Rightarrow> Slot \<Rightarrow> Slot" where
  "upd_nom \<equiv> mNominationProtocol_update"

abbreviation votes :: "Slot \<Rightarrow> Value list" where
  "votes s \<equiv> mVotes (mNominationProtocol s)"
abbreviation accepted :: "Slot \<Rightarrow> Value list" where
  "accepted s \<equiv> mAccepted (mNominationProtocol s)"
abbreviation candidates :: "Slot \<Rightarrow> Value list" where
  "candidates s \<equiv> mCandidates (mNominationProtocol s)"
abbreviation nominations :: "Slot \<Rightarrow> (NodeID \<times> NominationEnvelope) list" where
  "nominations s \<equiv> mLatestNominations (mNominationProtocol s)"
abbreviation leaders :: "Slot \<Rightarrow> NodeID list" where
  "leaders s \<equiv> mRoundLeaders (mNominationProtocol s)"

section \<open>The order on nominations\<close>

text \<open>The result and the value left in \<^verbatim>\<open>notEqual\<close>.\<close>

definition isSubsetHelper :: "Value list \<Rightarrow> Value list \<Rightarrow> bool \<times> bool" where
  "isSubsetHelper p v =
     (if length p \<le> length v then
        let res = includes_range v p
        in (res, if res then length p \<noteq> length v else True)
      else (False, True))"

definition isNewerNomination :: "SCPNomination \<Rightarrow> SCPNomination \<Rightarrow> bool" where
  "isNewerNomination oldst st =
     (case isSubsetHelper (n_votes oldst) (n_votes st) of
        (sub, grows) \<Rightarrow>
          if sub then
            (case isSubsetHelper (n_accepted oldst) (n_accepted st) of
               (sub', g) \<Rightarrow> if sub' then grows \<or> g else False)
          else False)"

definition nomination_isNewerStatement ::
  "NodeID \<Rightarrow> SCPNomination \<Rightarrow> (NodeID \<times> NominationEnvelope) list \<Rightarrow> bool"
where
  "nomination_isNewerStatement n st latestNominations =
     (case map_of latestNominations n of
        None \<Rightarrow> True
      | Some oldp \<Rightarrow> isNewerNomination (pledges (statement oldp)) st)"

section \<open>Checking and recording\<close>

definition nomination_isSane :: "SCPDriver \<Rightarrow> NominationStatement \<Rightarrow> scp_error + bool" where
  "nomination_isSane D st =
     (let nom = pledges st
      in if length (n_votes nom) + length (n_accepted nom) \<noteq> 0 \<and>
            sorted (n_votes nom) \<and> sorted (n_accepted nom)
         then bindE (deref (getQuorumSetFromStatement D (wire_statement Nominate st))) (\<lambda>q.
                Inr (isQuorumSetSane q False))
         else Inr False)"

definition nomination_recordEnvelope :: "NominationEnvelope \<Rightarrow> Slot \<Rightarrow> Slot" where
  "nomination_recordEnvelope env s =
     recordStatement (wire_statement Nominate (statement env))
       (upd_nom (mLatestNominations_update (map_put (nodeID (statement env)) env)) s)"

definition acceptPredicate :: "Value \<Rightarrow> NominationStatement \<Rightarrow> bool" where
  "acceptPredicate v st \<longleftrightarrow> v \<in> set (n_accepted (pledges st))"

text \<open>The lambda passed as \<open>voted\<close> in \<^verbatim>\<open>processEnvelope\<close>.\<close>

definition votesFor :: "Value \<Rightarrow> NominationStatement \<Rightarrow> bool" where
  "votesFor v st \<longleftrightarrow> v \<in> set (n_votes (pledges st))"

definition applyAll :: "SCPNomination \<Rightarrow> (Value \<Rightarrow> 's \<Rightarrow> 's) \<Rightarrow> 's \<Rightarrow> 's" where
  "applyAll nom processor s = fold processor (n_accepted nom) (fold processor (n_votes nom) s)"

definition nomination_getStatementValues :: "NominationStatement \<Rightarrow> Value list" where
  "nomination_getStatementValues st = applyAll (pledges st) (\<lambda>v res. res @ [v]) []"

section \<open>Leaders and new votes\<close>

definition hashNode :: "SCPDriver \<Rightarrow> Slot \<Rightarrow> bool \<Rightarrow> NodeID \<Rightarrow> scp_error + uint64" where
  "hashNode D s isPriority n =
     (let N = mNominationProtocol s
      in bindE (dbgAssert (NDEBUG D) (Inr (mPreviousValue N \<noteq> []))) (\<lambda>_.
           Inr (computeHashNode D (mSlotIndex s) (mPreviousValue N) isPriority (mRoundNumber N) n)))"

definition hashValue :: "SCPDriver \<Rightarrow> Slot \<Rightarrow> Value \<Rightarrow> scp_error + uint64" where
  "hashValue D s v =
     (let N = mNominationProtocol s
      in bindE (dbgAssert (NDEBUG D) (Inr (mPreviousValue N \<noteq> []))) (\<lambda>_.
           Inr (computeValueHash D (mSlotIndex s) (mPreviousValue N) (mRoundNumber N) v)))"

definition getNodePriority :: "SCPDriver \<Rightarrow> Slot \<Rightarrow> NodeID \<Rightarrow> SCPQuorumSet \<Rightarrow> scp_error + uint64" where
  "getNodePriority D s n qset =
     bindE (getNodeWeight n qset) (\<lambda>w.
     bindE (hashNode D s False n) (\<lambda>h.
       if h < w then hashNode D s True n else Inr 0))"

text \<open>The lambda of \<^verbatim>\<open>updateRoundLeaders\<close>: highest priority so far and the nodes that have it.\<close>

definition considerLeader ::
  "SCPDriver \<Rightarrow> Slot \<Rightarrow> SCPQuorumSet \<Rightarrow> NodeID \<Rightarrow> scp_error + (uint64 \<times> NodeID list) \<Rightarrow>
   scp_error + (uint64 \<times> NodeID list)"
where
  "considerLeader D s myQSet cur acc =
     bindE acc (\<lambda>(topPriority, ls).
     bindE (getNodePriority D s cur myQSet) (\<lambda>w.
       let (top', ls') = (if w > topPriority then (w, []) else (topPriority, ls))
       in Inr (top', if w = top' \<and> w > 0 then set_insert cur ls' else ls')))"

definition updateRoundLeaders :: "SCPDriver \<Rightarrow> LocalNode \<Rightarrow> Slot \<Rightarrow> scp_error + Slot" where
  "updateRoundLeaders D L s =
     bindE (forAllNodes (mQSet L) (considerLeader D s (mQSet L)) (Inr (0, []))) (\<lambda>(_, ls).
       Inr (upd_nom (mRoundLeaders_update (\<lambda>_. ls)) s))"

text \<open>What the node would nominate in place of a value: the value, or a valid variation of it.\<close>

definition valueToNominate :: "SCPDriver \<Rightarrow> Slot \<Rightarrow> Value \<Rightarrow> Value" where
  "valueToNominate D s v =
     (if validateValue D (mSlotIndex s) v = kFullyValidatedValue then v
      else extractValidValue D (mSlotIndex s) v)"

definition considerValue ::
  "SCPDriver \<Rightarrow> Slot \<Rightarrow> Value \<Rightarrow> scp_error + (Value \<times> uint64) \<Rightarrow> scp_error + (Value \<times> uint64)"
where
  "considerValue D s value acc =
     bindE acc (\<lambda>(newVote, newHash).
       let v = valueToNominate D s value
       in if v \<noteq> [] \<and> v \<notin> set (votes s)
          then bindE (hashValue D s v) (\<lambda>curHash.
                 Inr (if curHash \<ge> newHash then (v, curHash) else (newVote, newHash)))
          else Inr (newVote, newHash))"

definition getNewValueFromNomination :: "SCPDriver \<Rightarrow> Slot \<Rightarrow> SCPNomination \<Rightarrow> scp_error + Value" where
  "getNewValueFromNomination D s nom =
     bindE (applyAll nom (considerValue D s) (Inr ([], 0))) (\<lambda>(newVote, _). Inr newVote)"

section \<open>Emitting\<close>

definition addVote :: "Value \<Rightarrow> Slot \<Rightarrow> Slot" where
  "addVote v s = upd_nom (mVotes_update (set_insert v)) s"

definition addAccepted :: "Value \<Rightarrow> Slot \<Rightarrow> Slot" where
  "addAccepted v s = upd_nom (mAccepted_update (set_insert v)) s"

definition addCandidate :: "Value \<Rightarrow> Slot \<Rightarrow> Slot" where
  "addCandidate v s = upd_nom (mCandidates_update (set_insert v)) s"

definition emitNomination ::
  "SCPDriver \<Rightarrow> LocalNode \<Rightarrow> nomination_process \<Rightarrow> Slot \<Rightarrow> scp_error + Slot"
where
  "emitNomination D L proc s =
     (let nom = \<lparr>n_quorumSetHash = mQSetHash L, n_votes = votes s, n_accepted = accepted s\<rparr>;
          envelope = createEnvelope D L Nominate nom s
      in bindE (proc envelope s) (\<lambda>(valid, s1).
           if valid then
             (if (case mLastNomination (mNominationProtocol s1) of
                    None \<Rightarrow> True
                  | Some e \<Rightarrow> isNewerNomination (pledges (statement e)) nom)
              then let s2 = upd_nom (mLastNomination_update (\<lambda>_. Some envelope)) s1
                   in Inr (if mFullyValidated s2
                           then driver_log (EmitEnvelope (wire_envelope Nominate envelope)) s2 else s2)
              else Inr s1)
           else Inl (Runtime_Error ''moved to a bad state (nomination)'')))"

section \<open>Processing an envelope\<close>

text \<open>The loop that promotes votes to accepted values.\<close>

fun promoteVotes :: "SCPDriver \<Rightarrow> LocalNode \<Rightarrow> Value list \<Rightarrow> bool \<Rightarrow> Slot \<Rightarrow> scp_error + (bool \<times> Slot)" where
  "promoteVotes D L [] modified s = Inr (modified, s)"
| "promoteVotes D L (v # vs) modified s =
     (if v \<in> set (accepted s) then promoteVotes D L vs modified s
      else bindE (federatedAccept D L Nominate (votesFor v) (acceptPredicate v) (nominations s)) (\<lambda>acc.
        if acc then
          (if validateValue D (mSlotIndex s) v = kFullyValidatedValue
           then promoteVotes D L vs True (addVote v (addAccepted v s))
           else
             let toVote = extractValidValue D (mSlotIndex s) v
             in if toVote \<noteq> [] \<and> toVote \<notin> set (votes s)
                then promoteVotes D L vs True (addVote toVote s)
                else promoteVotes D L vs modified s)
        else promoteVotes D L vs modified s))"

text \<open>The loop that promotes accepted values to candidates.\<close>

fun promoteAccepted :: "SCPDriver \<Rightarrow> LocalNode \<Rightarrow> Value list \<Rightarrow> bool \<Rightarrow> Slot \<Rightarrow> scp_error + (bool \<times> Slot)" where
  "promoteAccepted D L [] newCandidates s = Inr (newCandidates, s)"
| "promoteAccepted D L (a # as) newCandidates s =
     (if a \<in> set (candidates s) then promoteAccepted D L as newCandidates s
      else bindE (federatedRatify D L Nominate (acceptPredicate a) (nominations s)) (\<lambda>ratified.
        if ratified then promoteAccepted D L as True (addCandidate a s)
        else promoteAccepted D L as newCandidates s))"

text \<open>Taking a value from a round leader while there is no candidate.\<close>

definition takeLeaderVote ::
  "SCPDriver \<Rightarrow> NominationStatement \<Rightarrow> bool \<Rightarrow> Slot \<Rightarrow> scp_error + (bool \<times> Slot)"
where
  "takeLeaderVote D st modified s =
     (if candidates s = [] \<and> nodeID st \<in> set (leaders s)
      then bindE (getNewValueFromNomination D s (pledges st)) (\<lambda>newVote.
             Inr (if newVote \<noteq> [] then (True, addVote newVote s) else (modified, s)))
      else Inr (modified, s))"

text \<open>The new composite candidate, and the start of the ballot protocol with it.\<close>

definition updateCandidates ::
  "SCPDriver \<Rightarrow> LocalNode \<Rightarrow> self_process \<Rightarrow> Slot \<Rightarrow> scp_error + Slot"
where
  "updateCandidates D L bproc s =
     (let v = combineCandidates D (mSlotIndex s) (candidates s);
          s1 = driver_log (UpdatedCandidateValue v)
                 (upd_nom (mLatestCompositeCandidate_update (\<lambda>_. v)) s)
      in bindE (bumpState D L bproc v False s1) (\<lambda>(_, s2). Inr s2))"

definition nomination_processEnvelope ::
  "SCPDriver \<Rightarrow> LocalNode \<Rightarrow> self_process \<Rightarrow> nomination_process \<Rightarrow> NominationEnvelope \<Rightarrow> Slot \<Rightarrow>
   scp_error + (bool \<times> Slot)"
where
  "nomination_processEnvelope D L bproc proc envelope s =
     (let st = statement envelope; nom = pledges st
      in if \<not> nomination_isNewerStatement (nodeID st) nom (nominations s) then Inr (False, s)
         else bindE (nomination_isSane D st) (\<lambda>sane.
           if \<not> sane then Inr (False, s)
           else
             let s1 = nomination_recordEnvelope envelope s
             in if \<not> mNominationStarted (mNominationProtocol s1) then Inr (True, s1)
                else
                  bindE (promoteVotes D L (n_votes nom) False s1) (\<lambda>(modified, s2).
                  bindE (promoteAccepted D L (accepted s2) False s2) (\<lambda>(newCandidates, s3).
                  bindE (takeLeaderVote D st modified s3) (\<lambda>(modified', s4).
                  bindE (if modified' then emitNomination D L proc s4 else Inr s4) (\<lambda>s5.
                  bindE (if newCandidates then updateCandidates D L bproc s5 else Inr s5) (\<lambda>s6.
                    Inr (True, s6))))))))"

text \<open>\<open>fuel\<close> bounds the nesting of the slot processing its own nominations.\<close>

fun nomination_slotProcess ::
  "SCPDriver \<Rightarrow> LocalNode \<Rightarrow> self_process \<Rightarrow> nat \<Rightarrow> nomination_process"
where
  "nomination_slotProcess D L bproc 0 envelope s = Inl Out_Of_Fuel"
| "nomination_slotProcess D L bproc (Suc fuel) envelope s =
     bindE (dbgAssert (NDEBUG D) (Inr (slotIndex (statement envelope) = mSlotIndex s))) (\<lambda>_.
       nomination_processEnvelope D L bproc (nomination_slotProcess D L bproc fuel) envelope s)"

section \<open>Nominating\<close>

text \<open>The loop over the leaders; the last non-skipped leader's value is \<^verbatim>\<open>nominatingValue\<close>.\<close>

fun nominateFromLeaders ::
  "SCPDriver \<Rightarrow> NodeID list \<Rightarrow> Value \<Rightarrow> bool \<Rightarrow> Slot \<Rightarrow> scp_error + (Value \<times> bool \<times> Slot)"
where
  "nominateFromLeaders D [] nominatingValue updated s = Inr (nominatingValue, updated, s)"
| "nominateFromLeaders D (leader # ls) nominatingValue updated s =
     (case map_of (nominations s) leader of
        None \<Rightarrow> nominateFromLeaders D ls nominatingValue updated s
      | Some e \<Rightarrow>
          bindE (getNewValueFromNomination D s (pledges (statement e))) (\<lambda>v.
            if v \<noteq> [] then nominateFromLeaders D ls v True (addVote v s)
            else nominateFromLeaders D ls v updated s))"

definition nominate ::
  "SCPDriver \<Rightarrow> LocalNode \<Rightarrow> nomination_process \<Rightarrow> Value \<Rightarrow> Value \<Rightarrow> bool \<Rightarrow> Slot \<Rightarrow> scp_error + (bool \<times> Slot)"
where
  "nominate D L proc value previousValue timedout s =
     (if timedout \<and> \<not> mNominationStarted (mNominationProtocol s) then Inr (False, s)
      else
        bindE (updateRoundLeaders D L
                 (upd_nom (\<lambda>N. N\<lparr>mNominationStarted := True, mPreviousValue := previousValue,
                    mRoundNumber := mRoundNumber N + 1\<rparr>) s)) (\<lambda>s1.
        bindE (if mNodeID L \<in> set (leaders s1)
               then Inr (value, value \<notin> set (votes s1), addVote value s1)
               else nominateFromLeaders D (leaders s1) [] False s1) (\<lambda>(nominatingValue, updated, s2).
          let timeout = computeTimeout (mRoundNumber (mNominationProtocol s2));
              s3 = driver_log (NominatingValue nominatingValue) s2;
              s4 = driver_log (SetupTimer NOMINATION_TIMER timeout (NominateTimedOut value previousValue)) s3
          in if updated
             then bindE (emitNomination D L proc s4) (\<lambda>s5. Inr (True, s5))
             else Inr (False, s4))))"

section \<open>Restoring and reporting state\<close>

definition nomination_setStateFromEnvelope :: "NominationEnvelope \<Rightarrow> Slot \<Rightarrow> scp_error + Slot" where
  "nomination_setStateFromEnvelope e s =
     (if mNominationStarted (mNominationProtocol s)
      then Inl (Runtime_Error ''Cannot set state after nomination is started'')
      else
        let s1 = nomination_recordEnvelope e s; nom = pledges (statement e)
        in Inr (upd_nom (mLastNomination_update (\<lambda>_. Some e))
             (fold addVote (n_votes nom) (fold addAccepted (n_accepted nom) s1))))"

definition nomination_getCurrentState :: "LocalNode \<Rightarrow> Slot \<Rightarrow> NominationEnvelope list" where
  "nomination_getCurrentState L s =
     map snd (filter (\<lambda>(n, e). n \<noteq> mNodeID L \<or> mFullyValidated s) (nominations s))"

end
