(* ===== verification/Nomination_Safety.thy ===== *)
theory Nomination_Safety
  imports NominationProtocol
begin

text \<open>
  What nomination guarantees: the order on nominations is a strict order on the sorted ones (the only
  ones that are recorded), the sets of votes, accepted values and candidates only grow, candidates are
  accepted values, every value that becomes accepted is fully validated, and nothing the ballot
  protocol has reached is undone.
\<close>

section \<open>The order on nominations\<close>

definition nom_sorted :: "SCPNomination \<Rightarrow> bool" where
  "nom_sorted nom \<longleftrightarrow> sorted (n_votes nom) \<and> sorted (n_accepted nom)"

definition nom_newer :: "SCPNomination \<Rightarrow> SCPNomination \<Rightarrow> bool" where
  "nom_newer a b \<longleftrightarrow> nom_sorted a \<and> nom_sorted b \<and> isNewerNomination a b"

lemma sorted_mset_eq: "sorted xs \<Longrightarrow> sorted ys \<Longrightarrow> mset xs = mset ys \<Longrightarrow> xs = ys"
  by (metis properties_for_sort)

lemma isSubsetHelper_eq:
  assumes "sorted p" "sorted v"
  shows "isSubsetHelper p v = (mset p \<subseteq># mset v, p \<noteq> v)"
proof -
  have inc: "includes_range v p \<longleftrightarrow> mset p \<subseteq># mset v"
    by (rule includes_range_iff_subset_mset [OF assms(2,1)])
  have len: "mset p \<subseteq># mset v \<Longrightarrow> length p \<le> length v"
    using size_mset_mono by force
  have "p = v" if "mset p \<subseteq># mset v" "length p = length v"
  proof (rule sorted_mset_eq [OF assms])
    show "mset p = mset v"
      using that by (metis mset_subset_size order_less_irrefl size_mset subset_mset.le_neq_trans)
  qed
  with inc len show ?thesis
    by (auto simp: isSubsetHelper_def Let_def)
qed

lemma nom_newer_iff:
  "nom_newer a b \<longleftrightarrow> nom_sorted a \<and> nom_sorted b \<and>
     mset (n_votes a) \<subseteq># mset (n_votes b) \<and> mset (n_accepted a) \<subseteq># mset (n_accepted b) \<and>
     (n_votes a \<noteq> n_votes b \<or> n_accepted a \<noteq> n_accepted b)"
  by (auto simp: nom_newer_def nom_sorted_def isNewerNomination_def isSubsetHelper_eq)

lemma nom_newer_trans: "nom_newer a b \<Longrightarrow> nom_newer b c \<Longrightarrow> nom_newer a c"
proof -
  assume "nom_newer a b" "nom_newer b c"
  then have *: "nom_sorted a" "nom_sorted b" "nom_sorted c"
    "mset (n_votes a) \<subseteq># mset (n_votes b)" "mset (n_votes b) \<subseteq># mset (n_votes c)"
    "mset (n_accepted a) \<subseteq># mset (n_accepted b)" "mset (n_accepted b) \<subseteq># mset (n_accepted c)"
    "n_votes a \<noteq> n_votes b \<or> n_accepted a \<noteq> n_accepted b"
    by (simp_all add: nom_newer_iff)
  have "n_votes a = n_votes b \<and> n_accepted a = n_accepted b"
    if "n_votes a = n_votes c" "n_accepted a = n_accepted c"
    using that * by (auto simp: nom_sorted_def intro!: sorted_mset_eq intro: subset_mset.antisym)
  with * show ?thesis
    by (auto simp: nom_newer_iff intro: subset_mset.order_trans)
qed

interpretation nom_order: statement_order nom_newer
  by unfold_locales (simp add: nom_newer_iff, rule nom_newer_trans)

section \<open>Invariant and growth\<close>

definition nom_inv :: "Slot \<Rightarrow> bool" where
  "nom_inv s \<longleftrightarrow>
     map_ok (nominations s) \<and>
     (\<forall>n e. map_of (nominations s) n = Some e \<longrightarrow> nom_sorted (pledges (statement e))) \<and>
     strict_sorted (votes s) \<and> strict_sorted (accepted s) \<and> strict_sorted (candidates s) \<and>
     set (candidates s) \<subseteq> set (accepted s)"

definition nominations_grow :: "Slot \<Rightarrow> Slot \<Rightarrow> bool" where
  "nominations_grow s s' \<longleftrightarrow>
     newer_map nom_newer (\<lambda>e. pledges (statement e)) (nominations s) (nominations s')"

definition nom_grows :: "SCPDriver \<Rightarrow> Slot \<Rightarrow> Slot \<Rightarrow> bool" where
  "nom_grows D s s' \<longleftrightarrow>
     set (votes s) \<subseteq> set (votes s') \<and>
     set (accepted s) \<subseteq> set (accepted s') \<and>
     set (candidates s) \<subseteq> set (candidates s') \<and>
     (\<forall>v. v \<in> set (accepted s') \<longrightarrow> v \<in> set (accepted s) \<or>
        validateValue D (mSlotIndex s) v = kFullyValidatedValue) \<and>
     nominations_grow s s'"

definition slot_keeps :: "SCPDriver \<Rightarrow> Slot \<Rightarrow> Slot \<Rightarrow> bool" where
  "slot_keeps D s s' \<longleftrightarrow>
     (slot_inv s \<and> nom_inv s \<longrightarrow> slot_inv s' \<and> nom_inv s' \<and> progress s s' \<and> nom_grows D s s')"

lemma nominations_grow_refl [simp]: "nominations_grow s s"
  by (simp add: nominations_grow_def)

lemma nominations_grow_trans: "nominations_grow s t \<Longrightarrow> nominations_grow t u \<Longrightarrow> nominations_grow s u"
  unfolding nominations_grow_def by (rule nom_order.newer_map_trans)

lemma slot_keeps_refl [simp]: "slot_keeps D s s"
  by (simp add: slot_keeps_def nom_grows_def)

lemma slot_keeps_trans: "slot_keeps D s t \<Longrightarrow> slot_keeps D t u \<Longrightarrow> slot_keeps D s u"
proof -
  have grows: "nom_grows D s u" if "nom_grows D s t" "nom_grows D t u" "progress s t"
    using that by (auto simp: nom_grows_def progress_def intro: nominations_grow_trans)
  show "slot_keeps D s t \<Longrightarrow> slot_keeps D t u \<Longrightarrow> slot_keeps D s u"
    unfolding slot_keeps_def using progress_trans grows by blast
qed

text \<open>What the ballot protocol does is within these bounds.\<close>

lemma nom_same_fields:
  assumes "nom_same s s'"
  shows "votes s' = votes s" "accepted s' = accepted s" "candidates s' = candidates s"
    "nominations s' = nominations s"
proof -
  let ?f = "\<lambda>N. N\<lparr>mNominationStarted := False\<rparr>"
  have eq: "?f (mNominationProtocol s') = ?f (mNominationProtocol s)"
    using assms by (simp add: nom_same_def)
  show "votes s' = votes s" "accepted s' = accepted s" "candidates s' = candidates s"
    "nominations s' = nominations s"
    using arg_cong [OF eq, of mVotes] arg_cong [OF eq, of mAccepted] arg_cong [OF eq, of mCandidates]
      arg_cong [OF eq, of mLatestNominations] by simp_all
qed

lemma keeps_slot_keeps: "keeps s s' \<Longrightarrow> slot_keeps D s s'"
  using nom_same_fields [of s s']
  by (auto simp: keeps_def slot_keeps_def nom_inv_def nom_grows_def nominations_grow_def)

abbreviation nsafe1 :: "SCPDriver \<Rightarrow> Slot \<Rightarrow> scp_error + Slot \<Rightarrow> bool" where
  "nsafe1 D s m \<equiv> post m (slot_keeps D s)"

abbreviation nsafe2 :: "SCPDriver \<Rightarrow> Slot \<Rightarrow> scp_error + ('r \<times> Slot) \<Rightarrow> bool" where
  "nsafe2 D s m \<equiv> post m (\<lambda>(r, s'). slot_keeps D s s')"

lemma nsafe1_from: "slot_keeps D s t \<Longrightarrow> nsafe1 D t m \<Longrightarrow> nsafe1 D s m"
  by (erule post_mono) (rule slot_keeps_trans)

lemma nsafe2_from: "slot_keeps D s t \<Longrightarrow> nsafe2 D t m \<Longrightarrow> nsafe2 D s m"
  by (erule post_mono) (auto intro: slot_keeps_trans)

lemma nsafe_bind1:
  "nsafe1 D s m \<Longrightarrow> (\<And>t. slot_keeps D s t \<Longrightarrow> post (f t) Q) \<Longrightarrow> post (bindE m f) Q"
  by (cases m) simp_all

lemma nsafe_bind2:
  "nsafe2 D s m \<Longrightarrow> (\<And>r t. slot_keeps D s t \<Longrightarrow> post (f (r, t)) Q) \<Longrightarrow> post (bindE m f) Q"
  by (cases m) auto

lemma safe1_nsafe1: "safe1 s m \<Longrightarrow> nsafe1 D s m"
  by (erule post_mono) (rule keeps_slot_keeps)

lemma safe2_nsafe2: "safe2 s m \<Longrightarrow> nsafe2 D s m"
  by (erule post_mono) (auto intro: keeps_slot_keeps)

section \<open>Elementary updates\<close>

lemma progress_upd_nom [simp]: "progress s (upd_nom f s)"
  by (simp add: progress_def commit_value_def envelopes_grow_def)

lemma slot_inv_upd_nom [simp]: "slot_inv (upd_nom f s) = slot_inv s"
  by (simp add: slot_inv_def prepared_ok_def commit_ok_def)

lemma slot_keeps_upd_nom:
  "(nom_inv s \<Longrightarrow> nom_inv (upd_nom f s) \<and> nom_grows D s (upd_nom f s)) \<Longrightarrow> slot_keeps D s (upd_nom f s)"
  by (simp add: slot_keeps_def)

lemma slot_keeps_addVote: "slot_keeps D s (addVote v s)"
  unfolding addVote_def
  by (rule slot_keeps_upd_nom)
     (auto simp: nom_inv_def nom_grows_def nominations_grow_def strict_sorted_set_insert)

lemma slot_keeps_addAccepted:
  "validateValue D (mSlotIndex s) v = kFullyValidatedValue \<Longrightarrow> slot_keeps D s (addAccepted v s)"
  unfolding addAccepted_def
  by (rule slot_keeps_upd_nom)
     (auto simp: nom_inv_def nom_grows_def nominations_grow_def strict_sorted_set_insert)

lemma slot_keeps_addCandidate: "v \<in> set (accepted s) \<Longrightarrow> slot_keeps D s (addCandidate v s)"
  unfolding addCandidate_def
  by (rule slot_keeps_upd_nom)
     (auto simp: nom_inv_def nom_grows_def nominations_grow_def strict_sorted_set_insert)

text \<open>The round, the leaders, the composite candidate, the emitted message: nothing is promised of them.\<close>

lemma slot_keeps_others:
  "slot_keeps D s (upd_nom (mRoundLeaders_update (\<lambda>_. ls)) s)"
  "slot_keeps D s (upd_nom (mLastNomination_update (\<lambda>_. x)) s)"
  "slot_keeps D s (upd_nom (mLatestCompositeCandidate_update (\<lambda>_. y)) s)"
  "slot_keeps D s (upd_nom (\<lambda>N. N\<lparr>mNominationStarted := b, mPreviousValue := w, mRoundNumber := r N\<rparr>) s)"
  by (rule slot_keeps_upd_nom; simp add: nom_inv_def nom_grows_def nominations_grow_def)+

lemma slot_keeps_driver_log: "ext_values [c] = [] \<Longrightarrow> slot_keeps D s (driver_log c s)"
  by (rule keeps_slot_keeps) (rule keeps_driver_log)

lemma slot_keeps_recordStatement: "slot_keeps D s (recordStatement st s)"
  by (simp add: slot_keeps_def recordStatement_def slot_inv_def prepared_ok_def commit_ok_def nom_inv_def
      progress_def commit_value_def envelopes_grow_def nom_grows_def nominations_grow_def)

lemma slot_keeps_nomination_recordEnvelope:
  assumes newer: "nomination_isNewerStatement (nodeID (statement env)) (pledges (statement env)) (nominations s)"
    and sorted: "nom_sorted (pledges (statement env))"
  shows "slot_keeps D s (nomination_recordEnvelope env s)"
proof -
  let ?n = "nodeID (statement env)"
  let ?t = "upd_nom (mLatestNominations_update (map_put ?n env)) s"
  have "nom_inv ?t \<and> nom_grows D s ?t" if inv: "nom_inv s"
  proof -
    have ok: "map_ok (nominations s)" using inv by (simp add: nom_inv_def)
    have "nom_newer (pledges (statement old)) (pledges (statement env))"
      if "map_of (nominations s) ?n = Some old" for old
      using that newer inv sorted by (simp add: nomination_isNewerStatement_def nom_newer_def nom_inv_def)
    then have "nominations_grow s ?t"
      by (simp add: nominations_grow_def newer_map_put ok)
    moreover have "nom_inv ?t"
      using inv sorted by (auto simp: nom_inv_def map_ok_put om.find_put split: if_splits)
    ultimately show ?thesis by (simp add: nom_grows_def)
  qed
  then have "slot_keeps D s ?t" by (rule slot_keeps_upd_nom)
  then show ?thesis
    unfolding nomination_recordEnvelope_def by (rule slot_keeps_trans [OF _ slot_keeps_recordStatement])
qed

section \<open>The loops\<close>

lemma addVote_simps [simp]:
  "mSlotIndex (addVote v s) = mSlotIndex s" "mSlotIndex (addAccepted v s) = mSlotIndex s"
  "accepted (addCandidate v s) = accepted s"
  by (simp_all add: addVote_def addAccepted_def addCandidate_def)

lemma nsafe_promoteVotes: "nsafe2 D s (promoteVotes D L vs modified s)"
proof (induction vs arbitrary: modified s)
  case (Cons v vs)
  have acc: "nsafe2 D s (promoteVotes D L vs True (addVote v (addAccepted v s)))"
    if "validateValue D (mSlotIndex s) v = kFullyValidatedValue"
    using slot_keeps_trans [OF slot_keeps_addAccepted [OF that] slot_keeps_addVote]
    by (rule nsafe2_from) (rule Cons.IH)
  have vote: "nsafe2 D s (promoteVotes D L vs True (addVote w s))" for w
    using slot_keeps_addVote by (rule nsafe2_from) (rule Cons.IH)
  show ?case
    by (cases "federatedAccept D L Nominate (votesFor v) (acceptPredicate v) (nominations s)")
       (simp_all add: Cons.IH acc vote Let_def)
qed simp

lemma nsafe_promoteAccepted:
  "set as \<subseteq> set (accepted s) \<Longrightarrow> nsafe2 D s (promoteAccepted D L as new s)"
proof (induction as arbitrary: new s)
  case (Cons a as)
  have cand: "nsafe2 D s (promoteAccepted D L as True (addCandidate a s))"
  proof (rule nsafe2_from)
    show "slot_keeps D s (addCandidate a s)"
      using Cons.prems by (intro slot_keeps_addCandidate) simp
    show "nsafe2 D (addCandidate a s) (promoteAccepted D L as True (addCandidate a s))"
      using Cons.prems by (intro Cons.IH) simp
  qed
  have skip: "nsafe2 D s (promoteAccepted D L as new s)"
    using Cons by simp
  show ?case
    by (cases "federatedRatify D L Nominate (acceptPredicate a) (nominations s)")
       (simp_all add: cand skip)
qed simp

lemma nsafe_takeLeaderVote: "nsafe2 D s (takeLeaderVote D st modified s)"
  by (cases "getNewValueFromNomination D s (pledges st)") (simp_all add: takeLeaderVote_def slot_keeps_addVote)

lemma nsafe_nominateFromLeaders:
  "post (nominateFromLeaders D ls v updated s) (\<lambda>(v', u, s'). slot_keeps D s s')"
proof (induction ls arbitrary: v updated s)
  case (Cons l ls)
  have add: "post (nominateFromLeaders D ls w True (addVote w s)) (\<lambda>(v', u, s'). slot_keeps D s s')" for w
    by (rule post_mono [OF Cons.IH]) (auto intro: slot_keeps_trans [OF slot_keeps_addVote])
  have get: "post (bindE F (\<lambda>v. if v \<noteq> [] then nominateFromLeaders D ls v True (addVote v s)
      else nominateFromLeaders D ls v updated s)) (\<lambda>(v', u, s'). slot_keeps D s s')" for F
    using add Cons.IH by (cases F) auto
  show ?case
    using get Cons.IH by (simp split: option.split)
qed simp

lemma nsafe_updateRoundLeaders: "nsafe1 D s (updateRoundLeaders D L s)"
proof -
  have "nsafe1 D s (bindE F (\<lambda>(_, ls). Inr (upd_nom (mRoundLeaders_update (\<lambda>_. ls)) s)))"
    for F :: "scp_error + (uint64 \<times> NodeID list)"
    by (cases F) (auto simp: slot_keeps_others)
  then show ?thesis by (simp add: updateRoundLeaders_def)
qed

section \<open>The protocol, given the recursive calls\<close>

locale nomination_recursion = ballot_recursion bproc for bproc +
  fixes D :: SCPDriver and nproc :: nomination_process
  assumes nproc_keeps: "nsafe2 D s (nproc e s)"
begin

lemma nsafe_emitNomination: "nsafe1 D s (emitNomination D L nproc s)"
proof -
  have log: "slot_keeps D t (driver_log (EmitEnvelope x) (upd_nom (mLastNomination_update (\<lambda>_. y)) t))" for t x y
    by (rule slot_keeps_trans [OF slot_keeps_others(2) slot_keeps_driver_log]) simp
  show ?thesis
    unfolding emitNomination_def Let_def
    by (rule nsafe_bind2 [OF nproc_keeps])
       (auto intro: slot_keeps_trans [OF _ log] slot_keeps_trans [OF _ slot_keeps_others(2)])
qed

lemma nsafe_updateCandidates: "nsafe1 D s (updateCandidates D L bproc s)"
proof -
  let ?t = "\<lambda>v. driver_log (UpdatedCandidateValue v) (upd_nom (mLatestCompositeCandidate_update (\<lambda>_. v)) s)"
  have t: "slot_keeps D s (?t v)" for v
    by (rule slot_keeps_trans [OF slot_keeps_others(3) slot_keeps_driver_log]) simp
  show ?thesis
    unfolding updateCandidates_def Let_def
    by (rule nsafe_bind2 [OF nsafe2_from [OF t safe2_nsafe2 [OF safe_bumpState]]]) simp
qed

lemma nsafe_nomination_processEnvelope: "nsafe2 D s (nomination_processEnvelope D L bproc nproc envelope s)"
proof -
  let ?st = "statement envelope" and ?t = "nomination_recordEnvelope envelope s"
  have run: "nsafe2 D s
      (bindE (promoteVotes D L (n_votes nom) False t) (\<lambda>(modified, s2).
       bindE (promoteAccepted D L (accepted s2) False s2) (\<lambda>(new, s3).
       bindE (takeLeaderVote D ?st modified s3) (\<lambda>(modified', s4).
       bindE (if modified' then emitNomination D L nproc s4 else Inr s4) (\<lambda>s5.
       bindE (if new then updateCandidates D L bproc s5 else Inr s5) (\<lambda>s6. Inr (True, s6)))))))"
    if "slot_keeps D s t" for t nom
    using that nsafe1_from [OF _ nsafe_emitNomination] nsafe1_from [OF _ nsafe_updateCandidates]
    by (auto intro!: nsafe_bind2 [OF nsafe2_from [OF _ nsafe_promoteVotes]]
        nsafe_bind2 [OF nsafe2_from [OF _ nsafe_promoteAccepted]]
        nsafe_bind2 [OF nsafe2_from [OF _ nsafe_takeLeaderVote]] nsafe_bind1)
  have rec: "slot_keeps D s ?t"
    if "nomination_isNewerStatement (nodeID ?st) (pledges ?st) (nominations s)" "nomination_isSane D ?st = Inr True"
    using that
    by (intro slot_keeps_nomination_recordEnvelope)
       (auto simp: nomination_isSane_def nom_sorted_def Let_def split: if_splits)
  show ?thesis
    by (cases "nomination_isSane D ?st") (auto simp: nomination_processEnvelope_def Let_def rec intro!: run)
qed

lemma nsafe_nominate: "nsafe2 D s (nominate D L nproc v w timedout s)"
proof -
  have log: "slot_keeps D t (driver_log (SetupTimer x y z) (driver_log (NominatingValue u) t))" for t x y z u
    by (rule slot_keeps_trans [OF slot_keeps_driver_log slot_keeps_driver_log]) simp_all
  have pick: "post (if mNodeID L \<in> set (leaders t) then Inr (v, v \<notin> set (votes t), addVote v t)
      else nominateFromLeaders D (leaders t) [] False t) (\<lambda>(u, b, t'). slot_keeps D s t')"
    if "slot_keeps D s t" for t
    using that
    by (auto intro: slot_keeps_trans slot_keeps_addVote intro!: post_mono [OF nsafe_nominateFromLeaders])
  have fin: "nsafe2 D s (let t = driver_log (SetupTimer x y z) (driver_log (NominatingValue u) t')
      in if b then bindE (emitNomination D L nproc t) (\<lambda>s5. Inr (True, s5)) else Inr (False, t))"
    if "slot_keeps D s t'" for t' x y z u b
    using slot_keeps_trans [OF that log]
    by (auto simp: Let_def intro!: nsafe_bind1 [OF nsafe1_from [OF _ nsafe_emitNomination]])
  have bind3: "nsafe2 D s (bindE m f)"
    if "post m (\<lambda>(u, b, t'). slot_keeps D s t')" "\<And>u b t'. slot_keeps D s t' \<Longrightarrow> nsafe2 D s (f (u, b, t'))"
    for m :: "scp_error + (Value \<times> bool \<times> Slot)" and f :: "Value \<times> bool \<times> Slot \<Rightarrow> scp_error + (bool \<times> Slot)"
    using that by (cases m) auto
  show ?thesis
    unfolding nominate_def
    by (auto simp del: if_split split: if_split_asm intro!: bind3 [OF pick] fin [unfolded Let_def]
        nsafe_bind1 [OF nsafe1_from [OF slot_keeps_others(4) nsafe_updateRoundLeaders]]
        simp: Let_def if_split [of "nsafe2 D s"])
qed

end

section \<open>The whole recursion\<close>

lemma nomination_slotProcess_safe:
  assumes "ballot_recursion bproc"
  shows "nsafe2 D s (nomination_slotProcess D L bproc fuel envelope s)"
proof (induction fuel arbitrary: envelope s)
  case (Suc fuel)
  have "nomination_recursion bproc D (nomination_slotProcess D L bproc fuel)"
    using assms Suc.IH by (simp add: nomination_recursion_def nomination_recursion_axioms_def)
  then show ?case
    by (simp add: post_bindE post_dbgAssert nomination_recursion.nsafe_nomination_processEnvelope)
qed simp

interpretation nom_rec: nomination_recursion
  "ballot_processEnvelope D L bumps bfuel" D "nomination_slotProcess D L (ballot_processEnvelope D L bumps bfuel) fuel"
  for D L bumps bfuel fuel
  by unfold_locales (rule nomination_slotProcess_safe [OF ballot_rec.ballot_recursion_axioms])

end
