(* ===== verification/Nomination_Termination.thy ===== *)
theory Nomination_Termination
  imports Nomination_Safety
begin

text \<open>
  A node that processes its own nominations stops: each nested call is made only when a vote or an
  accepted value was added, and all of them come from a finite set, as long as the driver's
  \<^verbatim>\<open>extractValidValue\<close> returns values that are themselves valid (what \<^verbatim>\<open>SCPDriver.h\<close> documents).
\<close>

section \<open>The values in play\<close>

definition closed_values :: "SCPDriver \<Rightarrow> uint64 \<Rightarrow> Value set \<Rightarrow> bool" where
  "closed_values D i W \<longleftrightarrow> finite W \<and>
     (\<forall>v \<in> W. validateValue D i v \<noteq> kFullyValidatedValue \<longrightarrow>
        extractValidValue D i v = [] \<or> extractValidValue D i v \<in> W)"

definition within :: "Value set \<Rightarrow> Slot \<Rightarrow> bool" where
  "within W s \<longleftrightarrow> set (votes s) \<subseteq> W \<and> set (accepted s) \<subseteq> W"

definition values_left :: "Value set \<Rightarrow> Slot \<Rightarrow> nat" where
  "values_left W s = card (W - set (votes s)) + card (W - set (accepted s))"

definition nom_values :: "SCPNomination \<Rightarrow> Value set" where
  "nom_values nom = set (n_votes nom) \<union> set (n_accepted nom)"

lemma card_left_less: "finite W \<Longrightarrow> v \<in> W \<Longrightarrow> v \<notin> A \<Longrightarrow> card (W - insert v A) < card (W - A)"
  by (rule psubset_card_mono) auto

lemma card_left_le: "finite W \<Longrightarrow> card (W - insert v A) \<le> card (W - A)"
  by (rule card_mono) auto

lemma within_addVote:
  "finite W \<Longrightarrow> within W s \<Longrightarrow> v \<in> W \<Longrightarrow>
     within W (addVote v s) \<and> values_left W (addVote v s) \<le> values_left W s \<and>
     (v \<notin> set (votes s) \<longrightarrow> values_left W (addVote v s) < values_left W s)"
  using card_left_less [of W v "set (votes s)"] card_left_le [of W v "set (votes s)"]
  by (auto simp: within_def values_left_def addVote_def)

lemma within_addAccepted:
  "finite W \<Longrightarrow> within W s \<Longrightarrow> v \<in> W \<Longrightarrow> v \<notin> set (accepted s) \<Longrightarrow>
     within W (addAccepted v s) \<and> values_left W (addAccepted v s) < values_left W s"
  using card_left_less [of W v "set (accepted s)"]
  by (auto simp: within_def values_left_def addAccepted_def)

text \<open>A loop that may have modified the slot: it stays within the values and used some up if so.\<close>

definition uses_up :: "Value set \<Rightarrow> Slot \<Rightarrow> bool \<Rightarrow> bool \<times> Slot \<Rightarrow> bool" where
  "uses_up W s modified r \<longleftrightarrow>
     within W (snd r) \<and> mSlotIndex (snd r) = mSlotIndex s \<and> values_left W (snd r) \<le> values_left W s \<and>
     (fst r \<longrightarrow> modified \<or> values_left W (snd r) < values_left W s)"

lemma promoteVotes_uses_up:
  assumes "closed_values D (mSlotIndex s) W" "within W s" "set vs \<subseteq> W"
  shows "post (promoteVotes D L vs modified s) (uses_up W s modified)"
  using assms
proof (induction vs arbitrary: modified s)
  case Nil
  then show ?case by (simp add: uses_up_def)
next
  case (Cons v vs)
  note W = Cons.prems(1)
  have fin: "finite W" using W by (simp add: closed_values_def)
  have skip: "post (promoteVotes D L vs modified s) (uses_up W s modified)"
    using Cons by simp
  have step: "post (promoteVotes D L vs True t) (uses_up W s modified)"
    if "within W t" "values_left W t < values_left W s" "mSlotIndex t = mSlotIndex s" for t
    by (rule post_mono [OF Cons.IH [of t True]]) (use that Cons.prems in \<open>auto simp: uses_up_def\<close>)
  have acc: "post (promoteVotes D L vs True (addVote v (addAccepted v s))) (uses_up W s modified)"
    if "v \<notin> set (accepted s)"
    using within_addAccepted [OF fin Cons.prems(2) _ that] within_addVote [OF fin, of "addAccepted v s" v]
      Cons.prems(3) by (intro step) auto
  have vote: "post (promoteVotes D L vs True (addVote w s)) (uses_up W s modified)"
    if "w \<in> W" "w \<notin> set (votes s)" for w
    using within_addVote [OF fin Cons.prems(2) that(1)] that(2) by (intro step) auto
  have ext: "extractValidValue D (mSlotIndex s) v \<in> W"
    if "validateValue D (mSlotIndex s) v \<noteq> kFullyValidatedValue" "extractValidValue D (mSlotIndex s) v \<noteq> []"
    using that W Cons.prems(3) by (auto simp: closed_values_def)
  show ?case
    by (cases "federatedAccept D L Nominate (votesFor v) (acceptPredicate v) (nominations s)")
       (auto simp: skip acc vote ext Let_def)
qed

lemma promoteAccepted_same:
  "post (promoteAccepted D L as new s) (\<lambda>(_, s'). votes s' = votes s \<and> accepted s' = accepted s \<and>
     mSlotIndex s' = mSlotIndex s)"
proof (induction as arbitrary: new s)
  case (Cons a as)
  have "post (promoteAccepted D L as True (addCandidate a s)) (\<lambda>(_, s'). votes s' = votes s \<and>
     accepted s' = accepted s \<and> mSlotIndex s' = mSlotIndex s)"
    by (rule post_mono [OF Cons.IH]) (simp add: addCandidate_def)
  with Cons.IH show ?case
    by (cases "federatedRatify D L Nominate (acceptPredicate a) (nominations s)") simp_all
qed simp

text \<open>A value taken from a nomination is new, and is one of its values or a valid variation of one.\<close>

definition from_nomination :: "SCPDriver \<Rightarrow> Slot \<Rightarrow> Value set \<Rightarrow> Value \<Rightarrow> bool" where
  "from_nomination D s A v \<longleftrightarrow>
     v = [] \<or> v \<notin> set (votes s) \<and> (\<exists>w \<in> A. v = valueToNominate D s w)"

lemma considerValue_from:
  "post acc (\<lambda>(v, h). from_nomination D s A v) \<Longrightarrow>
   post (considerValue D s w acc) (\<lambda>(v, h). from_nomination D s (insert w A) v)"
  by (cases acc)
     (auto simp: considerValue_def hashValue_def Let_def post_bindE post_dbgAssert from_nomination_def)

lemma fold_considerValue_from:
  "post acc (\<lambda>(v, h). from_nomination D s A v) \<Longrightarrow>
   post (fold (considerValue D s) vs acc) (\<lambda>(v, h). from_nomination D s (set vs \<union> A) v)"
proof (induction vs arbitrary: acc A)
  case (Cons w vs)
  show ?case
    using Cons.IH [OF considerValue_from [OF Cons.prems, of w]] by simp
qed simp

lemma getNewValueFromNomination_from:
  "post (getNewValueFromNomination D s nom) (from_nomination D s (nom_values nom))"
proof -
  have "post (applyAll nom (considerValue D s) (Inr ([], 0)))
      (\<lambda>(v, h). from_nomination D s (set (n_accepted nom) \<union> (set (n_votes nom) \<union> {})) v)"
    unfolding applyAll_def by (intro fold_considerValue_from) (simp add: from_nomination_def)
  then show ?thesis
    unfolding getNewValueFromNomination_def post_bindE nom_values_def
    by (rule post_mono) (auto simp: Un_commute)
qed

lemma takeLeaderVote_uses_up:
  assumes "closed_values D (mSlotIndex s) W" "within W s" "nom_values (pledges st) \<subseteq> W"
  shows "post (takeLeaderVote D st modified s) (uses_up W s modified)"
proof -
  have fin: "finite W" using assms(1) by (simp add: closed_values_def)
  have vote: "uses_up W s modified (if v \<noteq> [] then (True, addVote v s) else (modified, s))"
    if "from_nomination D s (nom_values (pledges st)) v" for v
  proof (cases "v = []")
    case False
    with that obtain w where w: "w \<in> W" "v = valueToNominate D s w" "v \<notin> set (votes s)"
      using assms(3) by (auto simp: from_nomination_def)
    with False assms(1) have "v \<in> W"
      by (auto simp: valueToNominate_def closed_values_def split: if_splits)
    with within_addVote [OF fin assms(2) this] w(3) False show ?thesis
      by (auto simp: uses_up_def)
  next
    case True
    with assms show ?thesis by (simp add: uses_up_def)
  qed
  have "post (bindE (getNewValueFromNomination D s (pledges st)) (\<lambda>v.
      Inr (if v \<noteq> [] then (True, addVote v s) else (modified, s)))) (uses_up W s modified)"
    unfolding post_bindE post_basic by (rule post_mono [OF getNewValueFromNomination_from vote])
  with assms show ?thesis
    by (simp add: takeLeaderVote_def uses_up_def)
qed

section \<open>Enough fuel\<close>

definition nruns :: "int \<Rightarrow> Slot \<Rightarrow> scp_error + 'a \<Rightarrow> bool" where
  "nruns depth s m \<longleftrightarrow> (slot_inv s \<and> nom_inv s \<and> depth \<le> level s \<longrightarrow> fueled m)"

lemma nruns_fueled [simp]: "fueled m \<Longrightarrow> nruns depth s m"
  by (simp add: nruns_def)

lemma nruns_from: "slot_keeps D s t \<Longrightarrow> nruns depth t m \<Longrightarrow> nruns depth s m"
  by (auto simp: nruns_def slot_keeps_def progress_def)

lemma nruns_runs: "runs depth s m \<Longrightarrow> nruns depth s m"
  by (simp add: runs_def nruns_def)

lemma nruns_bind_any:
  "nruns depth s m \<Longrightarrow> (\<And>x. m = Inr x \<Longrightarrow> nruns depth s (f x)) \<Longrightarrow> nruns depth s (bindE m f)"
  by (cases m) (simp_all add: nruns_def)

lemma fueled_promoteVotes [simp]: "fueled (promoteVotes D L vs modified s)"
  by (induction vs arbitrary: modified s) (auto simp: Let_def intro!: fueled_bindE)

lemma fueled_promoteAccepted [simp]: "fueled (promoteAccepted D L as new s)"
  by (induction as arbitrary: new s) (auto intro!: fueled_bindE)

lemma fueled_considerValue: "fueled acc \<Longrightarrow> fueled (considerValue D s w acc)"
  by (auto simp: considerValue_def hashValue_def Let_def intro!: fueled_intros)

lemma fueled_fold: "(\<And>x acc. fueled acc \<Longrightarrow> fueled (f x acc)) \<Longrightarrow> fueled acc \<Longrightarrow> fueled (fold f xs acc)"
  by (induction xs arbitrary: acc) simp_all

lemma fueled_getNewValueFromNomination [simp]: "fueled (getNewValueFromNomination D s nom)"
  unfolding getNewValueFromNomination_def applyAll_def
  by (auto intro!: fueled_bindE fueled_fold fueled_considerValue)

lemma fueled_takeLeaderVote [simp]: "fueled (takeLeaderVote D st modified s)"
  by (auto simp: takeLeaderVote_def intro!: fueled_bindE)

lemma fueled_nomination_isSane [simp]: "fueled (nomination_isSane D st)"
  by (auto simp: nomination_isSane_def Let_def intro!: fueled_bindE)

context ballot_recursion_total
begin

lemma nruns_updateCandidates: "nruns depth s (updateCandidates D L proc s)"
proof -
  let ?t = "\<lambda>v. driver_log (UpdatedCandidateValue v) (upd_nom (mLatestCompositeCandidate_update (\<lambda>_. v)) s)"
  have t: "slot_keeps D s (?t v)" for v
    by (rule slot_keeps_trans [OF slot_keeps_others(3) slot_keeps_driver_log]) simp
  have "runs depth u (bumpState D L proc v False u)" for u v
    by (simp add: bumpState_def runs_bumpState_counter)
  then have "nruns depth s (bumpState D L proc v False (?t v))" for v
    by (intro nruns_from [OF t] nruns_runs)
  then show ?thesis
    unfolding updateCandidates_def Let_def by (intro nruns_bind_any) (auto split: prod.split)
qed

end

lemma nruns_emitNomination:
  assumes "\<And>e. nom_values (pledges (statement e)) = set (votes s) \<union> set (accepted s) \<Longrightarrow> nruns depth s (nproc e s)"
  shows "nruns depth s (emitNomination D L nproc s)"
  unfolding emitNomination_def Let_def
  by (intro nruns_bind_any assms) (auto simp: nom_values_def createEnvelope_def Let_def split: prod.split)

lemma recordEnvelope_same:
  "votes (nomination_recordEnvelope e s) = votes s" "accepted (nomination_recordEnvelope e s) = accepted s"
  "mSlotIndex (nomination_recordEnvelope e s) = mSlotIndex s"
  by (simp_all add: nomination_recordEnvelope_def recordStatement_def)

text \<open>The three loops together, and what they leave for a nested call.\<close>

lemma loops_use_up:
  assumes W: "closed_values D (mSlotIndex s) W" "within W s" "nom_values (pledges st) \<subseteq> W"
    and runs: "promoteVotes D L (n_votes (pledges st)) False s = Inr (m, s2)"
      "promoteAccepted D L (accepted s2) False s2 = Inr (new, s3)"
      "takeLeaderVote D st m s3 = Inr (m', s4)"
  shows "uses_up W s False (m', s4) \<and> slot_keeps D s s4"
proof -
  have 1: "uses_up W s False (m, s2)"
    using W runs(1) promoteVotes_uses_up [OF W(1,2)] by (auto simp: nom_values_def dest: postD)
  have 2: "votes s3 = votes s2" "accepted s3 = accepted s2" "mSlotIndex s3 = mSlotIndex s2"
    using postD [OF promoteAccepted_same runs(2)] by simp_all
  have 3: "uses_up W s3 m (m', s4)"
    using 1 2 W by (intro postD [OF takeLeaderVote_uses_up runs(3)]) (simp_all add: uses_up_def within_def)
  have "slot_keeps D s s2" "slot_keeps D s2 s3" "slot_keeps D s3 s4"
    using postD [OF nsafe_promoteVotes runs(1)] postD [OF nsafe_promoteAccepted [OF subset_refl] runs(2)]
      postD [OF nsafe_takeLeaderVote runs(3)] by simp_all
  then have "slot_keeps D s s4" by (blast intro: slot_keeps_trans)
  moreover have "uses_up W s False (m', s4)"
    using 1 2 3 by (auto simp: uses_up_def values_left_def)
  ultimately show ?thesis by simp
qed

context ballot_recursion_total
begin

text \<open>One more level: the nested call sees fewer values left.\<close>

lemma nruns_nomination_processEnvelope:
  assumes rec: "nomination_recursion proc D nproc"
    and W: "closed_values D (mSlotIndex s) W" "within W s" "nom_values (pledges (statement envelope)) \<subseteq> W"
    and nested: "\<And>e t. within W t \<Longrightarrow> nom_values (pledges (statement e)) \<subseteq> W \<Longrightarrow>
      mSlotIndex t = mSlotIndex s \<Longrightarrow> values_left W t < values_left W s \<Longrightarrow> nruns depth t (nproc e t)"
  shows "nruns depth s (nomination_processEnvelope D L proc nproc envelope s)"
proof -
  let ?st = "statement envelope" and ?t = "nomination_recordEnvelope envelope s"
  note same = recordEnvelope_same [of envelope s]
  have emit: "nruns depth u (if m then emitNomination D L nproc u else Inr u)"
    if "uses_up W ?t False (m, u)" for m u
  proof (cases m)
    case True
    with that same W(2) have "within W u" "mSlotIndex u = mSlotIndex s" "values_left W u < values_left W s"
      by (simp_all add: uses_up_def values_left_def)
    then have "nruns depth u (emitNomination D L nproc u)"
      by (intro nruns_emitNomination nested) (auto simp: within_def)
    with True show ?thesis by simp
  qed simp
  have rest: "nruns depth s (bindE (if m then emitNomination D L nproc u else Inr u) (\<lambda>s5.
      bindE (if new then updateCandidates D L proc s5 else Inr s5) (\<lambda>s6. Inr (True, s6))))"
    if "uses_up W ?t False (m, u)" "slot_keeps D s u" for m u new
  proof (rule nruns_bind_any [OF nruns_from [OF that(2) emit [OF that(1)]]])
    fix s5
    assume "(if m then emitNomination D L nproc u else Inr u) = Inr s5"
    then have "slot_keeps D s s5"
      using that(2) postD [OF nomination_recursion.nsafe_emitNomination [OF rec]]
      by (auto intro: slot_keeps_trans split: if_splits)
    then show "nruns depth s (bindE (if new then updateCandidates D L proc s5 else Inr s5) (\<lambda>s6. Inr (True, s6)))"
      by (auto intro!: nruns_bind_any intro: nruns_from [OF _ nruns_updateCandidates])
  qed
  have run: "nruns depth s
      (bindE (promoteVotes D L (n_votes (pledges ?st)) False ?t) (\<lambda>(modified, s2).
       bindE (promoteAccepted D L (accepted s2) False s2) (\<lambda>(new, s3).
       bindE (takeLeaderVote D ?st modified s3) (\<lambda>(modified', s4).
       bindE (if modified' then emitNomination D L nproc s4 else Inr s4) (\<lambda>s5.
       bindE (if new then updateCandidates D L proc s5 else Inr s5) (\<lambda>s6. Inr (True, s6)))))))"
    if st: "slot_keeps D s ?t"
    using loops_use_up [of D ?t W ?st L] W same st
    by (auto simp: within_def intro!: nruns_bind_any rest intro: slot_keeps_trans)
  have keeps: "slot_keeps D s ?t"
    if "nomination_isNewerStatement (nodeID ?st) (pledges ?st) (nominations s)" "nomination_isSane D ?st = Inr True"
    using that
    by (intro slot_keeps_nomination_recordEnvelope)
       (auto simp: nomination_isSane_def nom_sorted_def Let_def split: if_splits)
  show ?thesis
    unfolding nomination_processEnvelope_def Let_def
    by (cases "nomination_isNewerStatement (nodeID ?st) (pledges ?st) (nominations s)")
       (auto simp: keeps intro!: nruns_bind_any run)
qed

end

section \<open>The whole recursion\<close>

lemma nomination_slotProcess_runs:
  assumes total: "ballot_recursion_total proc depth" and i: "closed_values D i W"
  shows "mSlotIndex s = i \<Longrightarrow> within W s \<Longrightarrow> nom_values (pledges (statement e)) \<subseteq> W \<Longrightarrow>
    values_left W s \<le> n \<Longrightarrow> nruns depth s (nomination_slotProcess D L proc (Suc n) e s)"
proof (induction n arbitrary: s e)
  case 0
  have "nomination_recursion proc D (nomination_slotProcess D L proc 0)"
    using total by (simp add: nomination_recursion_def nomination_recursion_axioms_def ballot_recursion_total_def)
  from ballot_recursion_total.nruns_nomination_processEnvelope [OF total this, of s W e] 0 i show ?case
    by (subst nomination_slotProcess.simps) (auto intro!: nruns_bind_any fueled_dbgAssert)
next
  case (Suc n)
  have "ballot_recursion proc" using total by (simp add: ballot_recursion_total_def)
  then have "nomination_recursion proc D (nomination_slotProcess D L proc (Suc n))"
    using nomination_slotProcess_safe by (simp add: nomination_recursion_def nomination_recursion_axioms_def
        del: nomination_slotProcess.simps)
  from ballot_recursion_total.nruns_nomination_processEnvelope [OF total this, of s W e] Suc i show ?case
    by (subst nomination_slotProcess.simps) (auto intro!: nruns_bind_any fueled_dbgAssert
        simp del: nomination_slotProcess.simps)
qed

text \<open>What \<^verbatim>\<open>SCPDriver.h\<close> says of \<^verbatim>\<open>extractValidValue\<close>: the value returned is fully validated.\<close>

definition extracts_valid :: "SCPDriver \<Rightarrow> uint64 \<Rightarrow> bool" where
  "extracts_valid D i \<longleftrightarrow>
     (\<forall>v. extractValidValue D i v = [] \<or>
        validateValue D i (extractValidValue D i v) = kFullyValidatedValue)"

lemma closed_values_extract:
  "extracts_valid D i \<Longrightarrow> finite A \<Longrightarrow> closed_values D i (A \<union> (extractValidValue D i ` A - {[]}))"
  by (auto simp: closed_values_def extracts_valid_def)

definition nomination_fuel :: "Slot \<Rightarrow> SCPNomination \<Rightarrow> nat" where
  "nomination_fuel s nom =
     4 * (length (votes s) + length (accepted s) + length (n_votes nom) + length (n_accepted nom))"

lemma values_left_bound:
  assumes "W = A \<union> (f ` A - {[]})"
    and "A = set (votes s) \<union> set (accepted s) \<union> nom_values nom"
  shows "values_left W s \<le> nomination_fuel s nom"
proof -
  have fin: "finite A" using assms(2) by (simp add: nom_values_def)
  have "card A \<le> card (set (votes s)) + card (set (accepted s)) + (card (set (n_votes nom)) + card (set (n_accepted nom)))"
    unfolding assms(2) nom_values_def by (meson add_mono card_Un_le order_trans)
  then have A: "card A \<le> length (votes s) + length (accepted s) + length (n_votes nom) + length (n_accepted nom)"
    using card_length [of "votes s"] card_length [of "accepted s"] card_length [of "n_votes nom"]
      card_length [of "n_accepted nom"] by linarith
  have "card W \<le> 2 * card A"
    using card_Un_le [of A "f ` A - {[]}"] card_image_le [OF fin, of f]
      card_Diff_subset_Int [of "f ` A" "{[]}"] card_mono [of "f ` A" "f ` A - {[]}"] fin
    unfolding assms(1) by auto
  moreover have "values_left W s \<le> 2 * card W"
    using card_mono [of W "W - set (votes s)"] card_mono [of W "W - set (accepted s)"] fin assms(1)
    by (auto simp: values_left_def)
  ultimately have "values_left W s \<le> 4 * card A" by linarith
  also have "\<dots> \<le> nomination_fuel s nom"
    unfolding nomination_fuel_def by (rule mult_le_mono2 [OF A])
  finally show ?thesis .
qed

lemma nomination_slotProcess_total:
  assumes "extracts_valid D (mSlotIndex s)" "slot_inv s" "nom_inv s" "0 \<le> level s"
    and "nomination_fuel s (pledges (statement e)) < fuel" "2 ^ 33 < bumps" "50 \<le> bfuel"
  shows "nomination_slotProcess D L (ballot_processEnvelope D L bumps bfuel) fuel e s \<noteq> Inl Out_Of_Fuel"
proof -
  obtain b where b: "bfuel = Suc b" "49 \<le> b" using assms(7) by (cases bfuel) auto
  obtain n where n: "fuel = Suc n" "nomination_fuel s (pledges (statement e)) \<le> n"
    using assms(5) by (cases fuel) auto
  define A where "A = set (votes s) \<union> set (accepted s) \<union> nom_values (pledges (statement e))"
  define W where "W = A \<union> (extractValidValue D (mSlotIndex s) ` A - {[]})"
  have total: "ballot_recursion_total (ballot_processEnvelope D L bumps bfuel) (MAX_ADVANCE_SLOT_RECURSION - 1 - int b)"
    unfolding b(1) by unfold_locales (rule ballot_processEnvelope_runs [OF assms(6)])
  have W: "closed_values D (mSlotIndex s) W"
    unfolding W_def by (rule closed_values_extract [OF assms(1)]) (simp add: A_def nom_values_def)
  have "nruns (MAX_ADVANCE_SLOT_RECURSION - 1 - int b) s
      (nomination_slotProcess D L (ballot_processEnvelope D L bumps bfuel) (Suc n) e s)"
    using values_left_bound [OF W_def A_def] n(2)
    by (intro nomination_slotProcess_runs [OF total W]) (auto simp: W_def A_def within_def)
  then show ?thesis
    using assms(2-4) b(2) n(1) by (simp add: nruns_def fueled_def MAX_ADVANCE_SLOT_RECURSION_def
        del: nomination_slotProcess.simps)
qed

end
