(* ===== verification/Slot.thy ===== *)
theory Slot
  imports Nomination_Termination
begin

text \<open>
  \<^verbatim>\<open>src/scp/Slot.cpp\<close>: the slot as its clients see it. Messages are dispatched to the two protocols, the
  timers they set call back into the slot, and a slot may be restored from the node's last message.
  The second part is the transition system of a slot: what can happen to it, in any order, and what
  holds of every state it can reach.
\<close>

section \<open>Operations\<close>

text \<open>The three bounds of the recursions; enough fuel is a theorem (\<open>slot_fuel_ok\<close>).\<close>

record fuel =
  fuel_bumps :: nat
  fuel_ballot :: nat
  fuel_nomination :: nat

abbreviation ballotProc :: "SCPDriver \<Rightarrow> LocalNode \<Rightarrow> fuel \<Rightarrow> self_process" where
  "ballotProc D L F \<equiv> ballot_processEnvelope D L (fuel_bumps F) (fuel_ballot F)"

abbreviation nominationProc :: "SCPDriver \<Rightarrow> LocalNode \<Rightarrow> fuel \<Rightarrow> nomination_process" where
  "nominationProc D L F \<equiv> nomination_slotProcess D L (ballotProc D L F) (fuel_nomination F)"

definition Slot_processEnvelope ::
  "SCPDriver \<Rightarrow> LocalNode \<Rightarrow> fuel \<Rightarrow> SCPPledges SCPEnvelope \<Rightarrow> bool \<Rightarrow> Slot \<Rightarrow> scp_error + (bool \<times> Slot)"
where
  "Slot_processEnvelope D L F envelope self s =
     bindE (dbgAssert (NDEBUG D) (Inr (slotIndex (statement envelope) = mSlotIndex s))) (\<lambda>_.
       case pledges (statement envelope) of
         Nominate nom \<Rightarrow> nominationProc D L F (retag_envelope nom envelope) s
       | Ballot b \<Rightarrow> ballotProc D L F (retag_envelope b envelope) self s)"

definition Slot_abandonBallot :: "SCPDriver \<Rightarrow> LocalNode \<Rightarrow> fuel \<Rightarrow> Slot \<Rightarrow> scp_error + (bool \<times> Slot)" where
  "Slot_abandonBallot D L F s = abandonBallot D L (ballotProc D L F) 0 s"

definition Slot_bumpState ::
  "SCPDriver \<Rightarrow> LocalNode \<Rightarrow> fuel \<Rightarrow> Value \<Rightarrow> bool \<Rightarrow> Slot \<Rightarrow> scp_error + (bool \<times> Slot)"
where
  "Slot_bumpState D L F value force s = bumpState D L (ballotProc D L F) value force s"

definition Slot_nominate ::
  "SCPDriver \<Rightarrow> LocalNode \<Rightarrow> fuel \<Rightarrow> Value \<Rightarrow> Value \<Rightarrow> bool \<Rightarrow> Slot \<Rightarrow> scp_error + (bool \<times> Slot)"
where
  "Slot_nominate D L F value previousValue timedout s =
     nominate D L (nominationProc D L F) value previousValue timedout s"

text \<open>The callbacks handed to \<^verbatim>\<open>setupTimer\<close>.\<close>

definition fireTimer :: "SCPDriver \<Rightarrow> LocalNode \<Rightarrow> fuel \<Rightarrow> timer_callback \<Rightarrow> Slot \<Rightarrow> scp_error + Slot" where
  "fireTimer D L F cb s =
     (case cb of
        BallotTimerExpired \<Rightarrow> ballotProtocolTimerExpired D L (ballotProc D L F) s
      | NominateTimedOut value previousValue \<Rightarrow>
          bindE (Slot_nominate D L F value previousValue True s) (\<lambda>(_, s'). Inr s'))"

definition Slot_setStateFromEnvelope ::
  "SCPDriver \<Rightarrow> LocalNode \<Rightarrow> SCPPledges SCPEnvelope \<Rightarrow> Slot \<Rightarrow> scp_error + Slot"
where
  "Slot_setStateFromEnvelope D L e s =
     (if nodeID (statement e) = mNodeID L \<and> slotIndex (statement e) = mSlotIndex s
      then (case pledges (statement e) of
              Nominate nom \<Rightarrow> nomination_setStateFromEnvelope (retag_envelope nom e) s
            | Ballot b \<Rightarrow> setStateFromEnvelope D (retag_envelope b e) s)
      else Inr s)"

definition getLatestMessagesSend :: "Slot \<Rightarrow> SCPPledges SCPEnvelope list" where
  "getLatestMessagesSend s =
     (if mFullyValidated s
      then (case mLastNomination (mNominationProtocol s) of
              None \<Rightarrow> [] | Some e \<Rightarrow> [wire_envelope Nominate e]) @
           (case mLastEnvelope (mBallotProtocol s) of
              None \<Rightarrow> [] | Some (_, e) \<Rightarrow> [wire_envelope Ballot e])
      else [])"

definition Slot_getCurrentState :: "LocalNode \<Rightarrow> Slot \<Rightarrow> SCPPledges SCPEnvelope list" where
  "Slot_getCurrentState L s =
     map (wire_envelope Nominate) (nomination_getCurrentState L s) @
     map (wire_envelope Ballot) (getCurrentState L s)"

text \<open>The flag is set for the duration of the call and then restored.\<close>

definition getEntireCurrentState :: "LocalNode \<Rightarrow> Slot \<Rightarrow> SCPPledges SCPEnvelope list" where
  "getEntireCurrentState L s = Slot_getCurrentState L (setFullyValidated True s)"

definition Slot_getExternalizingState :: "LocalNode \<Rightarrow> Slot \<Rightarrow> scp_error + SCPPledges SCPEnvelope list" where
  "Slot_getExternalizingState L s =
     bindE (getExternalizingState L s) (\<lambda>es. Inr (map (wire_envelope Ballot) es))"

definition Slot_getStatementValues :: "SCPPledges SCPStatement \<Rightarrow> Value list" where
  "Slot_getStatementValues st =
     (case pledges st of
        Nominate nom \<Rightarrow>
          nomination_getStatementValues \<lparr>nodeID = nodeID st, slotIndex = slotIndex st, pledges = nom\<rparr>
      | Ballot b \<Rightarrow> [bvalue (getWorkingBallot b)])"

section \<open>The transition system\<close>

text \<open>
  Everything the environment can do to a slot: deliver an envelope of either protocol, ask to
  nominate, to abandon or to bump the ballot, let a timer that was set fire, stop the nomination. The
  local node is an argument of each step, since its quorum set may be updated in between.
\<close>

inductive slot_step :: "SCPDriver \<Rightarrow> Slot \<Rightarrow> Slot \<Rightarrow> bool" for D where
  step_envelope: "Slot_processEnvelope D L F e False s = Inr (r, s') \<Longrightarrow> slot_step D s s'"
| step_nominate: "Slot_nominate D L F v w False s = Inr (r, s') \<Longrightarrow> slot_step D s s'"
| step_abandon: "Slot_abandonBallot D L F s = Inr (r, s') \<Longrightarrow> slot_step D s s'"
| step_bump: "Slot_bumpState D L F v force s = Inr (r, s') \<Longrightarrow> slot_step D s s'"
| step_timer:
    "SetupTimer t d cb \<in> set (mDriverCalls s) \<Longrightarrow> fireTimer D L F cb s = Inr s' \<Longrightarrow> slot_step D s s'"
| step_stop: "slot_step D s (stopNomination s)"

text \<open>
  A slot starts empty, and may be given back statements the node itself once made, nominations and ballots, one after
  the other (\<^verbatim>\<open>HerderImpl::restoreSCPState\<close> does this at startup). \<open>restorable\<close> is what held of such a statement when it was
  made: \<^verbatim>\<open>checkInvariants\<close> has passed on a ballot statement, the values of a nomination come from sorted sets and
  accepted ones were validated. A ballot statement is given to a slot that has not accepted two ballots as prepared or
  a commit yet; at startup it has not accepted anything.
\<close>

definition restorable_ballot :: "BallotPledges \<Rightarrow> bool" where
  "restorable_ballot b \<longleftrightarrow>
     (case b of
        Prepare p \<Rightarrow>
          (case p_preparedPrime p of
             None \<Rightarrow> True
           | Some pp \<Rightarrow>
               (case p_prepared p of None \<Rightarrow> False | Some pr \<Rightarrow> areBallotsLessAndIncompatible pp pr))
      | _ \<Rightarrow> True)"

definition restorable :: "SCPDriver \<Rightarrow> Slot \<Rightarrow> SCPPledges \<Rightarrow> bool" where
  "restorable D s pl \<longleftrightarrow>
     (case pl of
        Nominate nom \<Rightarrow>
          nom_sorted nom \<and> (\<forall>v \<in> set (n_accepted nom). validateValue D (mSlotIndex s) v = kFullyValidatedValue)
      | Ballot b \<Rightarrow> phase s = SCP_PHASE_PREPARE \<and> ballot_pp s = None \<and> restorable_ballot b)"

inductive slot_reachable :: "SCPDriver \<Rightarrow> uint64 \<Rightarrow> Slot \<Rightarrow> bool" for D i where
  reach_init: "slot_reachable D i (initSlot L i)"
| reach_restore:
    "slot_reachable D i s \<Longrightarrow> restorable D s (pledges (statement e)) \<Longrightarrow>
     Slot_setStateFromEnvelope D L e s = Inr s' \<Longrightarrow> slot_reachable D i s'"
| reach_step: "slot_reachable D i s \<Longrightarrow> slot_step D s s' \<Longrightarrow> slot_reachable D i s'"

inductive_cases slot_stepE: "slot_step D s s'"
inductive_cases slot_reachableE: "slot_reachable D i s"

section \<open>Every step keeps the invariants\<close>

lemma fireTimer_safe: "nsafe1 D s (fireTimer D L F cb s)"
proof (cases cb)
  case BallotTimerExpired
  then show ?thesis
    by (simp add: fireTimer_def safe1_nsafe1 ballot_rec.safe_timerExpired)
next
  case (NominateTimedOut v w)
  then show ?thesis
    unfolding fireTimer_def Slot_nominate_def
    by (auto intro!: nsafe_bind2 [OF nom_rec.nsafe_nominate])
qed

lemma Slot_processEnvelope_safe: "nsafe2 D s (Slot_processEnvelope D L F e self s)"
proof (cases "pledges (statement e)")
  case (Ballot b)
  have "nsafe2 D s (ballotProc D L F (retag_envelope b e) self s)"
    by (rule safe2_nsafe2) (rule ballot_processEnvelope_safe)
  with Ballot show ?thesis
    by (simp add: Slot_processEnvelope_def post_bindE post_dbgAssert)
next
  case (Nominate nom)
  then show ?thesis
    by (simp add: Slot_processEnvelope_def post_bindE post_dbgAssert nom_rec.nproc_keeps)
qed

lemma slot_step_keeps: "slot_step D s s' \<Longrightarrow> slot_keeps D s s'"
proof (induction rule: slot_step.induct)
  case (step_envelope L F e s r s')
  then show ?case using postD [OF Slot_processEnvelope_safe] by fastforce
next
  case (step_nominate L F v w s r s')
  then show ?case using postD [OF nom_rec.nsafe_nominate] unfolding Slot_nominate_def by fastforce
next
  case (step_abandon L F s r s')
  then show ?case
    using postD [OF safe2_nsafe2 [OF ballot_rec.safe_abandonBallot]] unfolding Slot_abandonBallot_def by fastforce
next
  case (step_bump L F v force s r s')
  then show ?case
    using postD [OF safe2_nsafe2 [OF ballot_rec.safe_bumpState]] unfolding Slot_bumpState_def by fastforce
next
  case (step_timer t d cb s L F s')
  then show ?case using postD [OF fireTimer_safe] by blast
next
  case (step_stop s)
  show ?case by (rule keeps_slot_keeps) simp
qed

lemma slot_steps_keep: "(slot_step D)\<^sup>*\<^sup>* s s' \<Longrightarrow> slot_keeps D s s'"
  by (induction rule: rtranclp_induct) (auto intro: slot_keeps_trans slot_step_keeps)

section \<open>What holds of every reachable state\<close>

definition slot_ok :: "SCPDriver \<Rightarrow> uint64 \<Rightarrow> Slot \<Rightarrow> bool" where
  "slot_ok D i s \<longleftrightarrow>
     mSlotIndex s = i \<and> level s = 0 \<and> slot_inv s \<and> nom_inv s \<and>
     (\<forall>v \<in> set (accepted s). validateValue D i v = kFullyValidatedValue) \<and>
     (ext_values (mDriverCalls s) = [] \<or>
      phase s = SCP_PHASE_EXTERNALIZE \<and> ext_values (mDriverCalls s) = [the (commit_value s)])"

lemma slot_ok_keeps: "slot_ok D i s \<Longrightarrow> slot_keeps D s s' \<Longrightarrow> slot_ok D i s'"
  by (cases "phase s"; cases "phase s'") (auto simp: slot_ok_def slot_keeps_def progress_def nom_grows_def)

lemma init_fields [simp]:
  "mBallotProtocol (initSlot L i) = initBallotProtocol"
  "mNominationProtocol (initSlot L i) = initNominationProtocol"
  "mSlotIndex (initSlot L i) = i" "mDriverCalls (initSlot L i) = []"
  by (simp_all add: initSlot_def)

lemma slot_ok_init: "slot_ok D i (initSlot L i)"
  by (simp add: slot_ok_def slot_inv_def nom_inv_def prepared_ok_def commit_ok_def
      initBallotProtocol_def initNominationProtocol_def)

text \<open>Restoring: the invariants hold again, and no value is announced.\<close>

lemma slot_ok_restore_ballot:
  assumes ok: "slot_ok D i s" and "phase s = SCP_PHASE_PREPARE" "ballot_pp s = None" "restorable_ballot (pledges (statement e))"
  shows "post (setStateFromEnvelope D e s) (slot_ok D i)"
proof -
  have bump: "post (bindE (bumpToBallot D b True t) (\<lambda>s3. Inr (upd_ballot f s3))) (slot_ok D j)"
    if "\<And>calls. ext_values calls = [] \<Longrightarrow> slot_ok D j (upd_ballot f
        ((upd_ballot (\<lambda>B. B\<lparr>mCurrentBallot := Some b, mHeardFromQuorum := False\<rparr>) t)
           \<lparr>mDriverCalls := mDriverCalls t @ calls\<rparr>))" for b t f j
    unfolding post_bindE by (rule post_mono [OF bumpToBallot_result]) (use that in auto)
  have inv: "mSlotIndex s = i" "level s = 0" "map_ok (latest s)" "nom_inv s" "ext_values (mDriverCalls s) = []"
    "\<forall>v \<in> set (accepted s). validateValue D i v = kFullyValidatedValue"
    using ok assms(2) by (auto simp: slot_ok_def slot_inv_def)
  show ?thesis
    using assms(3,4) inv
    by (cases "pledges (statement e)")
       (auto simp: setStateFromEnvelope_def Let_def recordEnvelope_def recordStatement_def map_ok_put
          slot_ok_def slot_inv_def nom_inv_def prepared_ok_def commit_ok_def restorable_ballot_def
          intro!: bump split: option.splits)
qed

lemma slot_keeps_fold:
  "(\<And>t x. mSlotIndex t = i \<Longrightarrow> x \<in> set xs \<Longrightarrow> slot_keeps D t (f x t) \<and> mSlotIndex (f x t) = i) \<Longrightarrow> mSlotIndex s = i \<Longrightarrow>
   slot_keeps D s (fold f xs s) \<and> mSlotIndex (fold f xs s) = i"
proof (induction xs arbitrary: s)
  case Nil
  then show ?case by (simp add: keeps_slot_keeps)
next
  case (Cons x xs)
  have "slot_keeps D s (f x s)" "mSlotIndex (f x s) = i" using Cons.prems by simp_all
  moreover from this(2) have "slot_keeps D (f x s) (fold f xs (f x s)) \<and> mSlotIndex (fold f xs (f x s)) = i"
    using Cons.prems(1) by (intro Cons.IH) simp_all
  ultimately show ?case by (auto intro: slot_keeps_trans)
qed

lemma slot_ok_restore_nomination:
  assumes ok: "slot_ok D i s" and "nom_sorted (pledges (statement e))"
    and valid: "\<forall>v \<in> set (n_accepted (pledges (statement e))). validateValue D i v = kFullyValidatedValue"
  shows "post (nomination_setStateFromEnvelope e s) (slot_ok D i)"
proof -
  let ?r = "nomination_recordEnvelope e s" and ?nom = "pledges (statement e)"
  let ?a = "fold addAccepted (n_accepted ?nom) ?r"
  let ?v = "fold addVote (n_votes ?nom) ?a"
  have r: "slot_ok D i ?r"
    using ok assms(2)
    by (auto simp: slot_ok_def slot_inv_def prepared_ok_def commit_ok_def nom_inv_def nomination_recordEnvelope_def
        recordStatement_def commit_value_def map_ok_put om.find_put split: if_splits)
  have "slot_keeps D ?r ?a \<and> mSlotIndex ?a = i"
    by (rule slot_keeps_fold) (use r valid in \<open>auto simp: slot_ok_def intro: slot_keeps_addAccepted\<close>)
  moreover have "slot_keeps D ?a ?v \<and> mSlotIndex ?v = i"
    by (rule slot_keeps_fold) (use calculation in \<open>auto intro: slot_keeps_addVote\<close>)
  ultimately have "slot_ok D i ?v" using r slot_ok_keeps by blast
  then have "slot_ok D i (upd_nom (mLastNomination_update (\<lambda>_. Some e)) ?v)" by (rule slot_ok_keeps [OF _ slot_keeps_others(2)])
  then show ?thesis by (simp add: nomination_setStateFromEnvelope_def Let_def)
qed

lemma slot_ok_restore:
  assumes "slot_ok D i s" "restorable D s (pledges (statement e))"
  shows "post (Slot_setStateFromEnvelope D L e s) (slot_ok D i)"
proof (cases "pledges (statement e)")
  case (Nominate nom)
  with assms slot_ok_restore_nomination [of D i s "retag_envelope nom e"] show ?thesis
    by (auto simp: Slot_setStateFromEnvelope_def restorable_def retag_envelope_def slot_ok_def [of D i s])
next
  case (Ballot b)
  with assms slot_ok_restore_ballot [of D i s "retag_envelope b e"] show ?thesis
    by (auto simp: Slot_setStateFromEnvelope_def restorable_def retag_envelope_def)
qed

lemma slot_reachable_ok: "slot_reachable D i s \<Longrightarrow> slot_ok D i s"
proof (induction rule: slot_reachable.induct)
  case (reach_init L)
  show ?case by (rule slot_ok_init)
next
  case (reach_restore s e L s')
  then show ?case using postD [OF slot_ok_restore [OF reach_restore(4,2), of L]] by simp
next
  case (reach_step s s')
  then show ?case by (blast intro: slot_ok_keeps slot_step_keeps)
qed

section \<open>Fuel\<close>

definition slot_fuel_ok :: "Slot \<Rightarrow> SCPPledges SCPEnvelope \<Rightarrow> fuel \<Rightarrow> bool" where
  "slot_fuel_ok s e F \<longleftrightarrow> 2 ^ 33 < fuel_bumps F \<and> 50 \<le> fuel_ballot F \<and>
     (case pledges (statement e) of
        Nominate nom \<Rightarrow> nomination_fuel s nom < fuel_nomination F
      | Ballot b \<Rightarrow> True)"

lemma ballot_processEnvelope_total:
  assumes "slot_inv s" "0 \<le> level s" "2 ^ 33 < bumps" "50 \<le> fuel"
  shows "ballot_processEnvelope D L bumps fuel e self s \<noteq> Inl Out_Of_Fuel"
proof -
  obtain n where n: "fuel = Suc n" "49 \<le> n" using assms(4) by (cases fuel) auto
  have "runs (MAX_ADVANCE_SLOT_RECURSION - 1 - int n) s (ballot_processEnvelope D L bumps (Suc n) e self s)"
    by (rule ballot_processEnvelope_runs [OF assms(3)])
  with n assms(1,2) show ?thesis
    by (simp add: runs_def fueled_def MAX_ADVANCE_SLOT_RECURSION_def del: ballot_processEnvelope.simps)
qed

lemma Slot_processEnvelope_total:
  assumes "extracts_valid D (mSlotIndex s)" "slot_inv s" "nom_inv s" "0 \<le> level s" "slot_fuel_ok s e F"
  shows "Slot_processEnvelope D L F e self s \<noteq> Inl Out_Of_Fuel"
proof (cases "pledges (statement e)")
  case (Ballot b)
  with assms ballot_processEnvelope_total [of s] show ?thesis
    by (auto simp: Slot_processEnvelope_def slot_fuel_ok_def bindE_Inl_iff dbgAssert_def)
next
  case (Nominate nom)
  with assms nomination_slotProcess_total [OF assms(1-4), of "retag_envelope nom e"] show ?thesis
    by (auto simp: Slot_processEnvelope_def slot_fuel_ok_def bindE_Inl_iff dbgAssert_def retag_envelope_def)
qed

end
