(* ===== verification/Quorum_Search.thy ===== *)
theory Quorum_Search
  imports Quorum_Logic
begin

text \<open>
  \<^verbatim>\<open>LocalNode::isNodeInQuorum\<close>: the transitive search for a node through the quorum sets of recorded
  statements, and what its three answers mean.
\<close>

section \<open>Walking the nodes of a quorum set\<close>

text \<open>\<^verbatim>\<open>forAllNodes\<close> calls its argument once per node, in the order of the first occurrences.\<close>

fun firsts :: "'a list \<Rightarrow> 'a list \<Rightarrow> 'a list" where
  "firsts done_nodes [] = []"
| "firsts done_nodes (x # xs) =
     (if x \<in> set done_nodes then firsts done_nodes xs else x # firsts (x # done_nodes) xs)"

lemma set_firsts: "set (firsts ds xs) = set xs - set ds"
  by (induction xs arbitrary: ds) auto

lemma distinct_firsts: "distinct (firsts ds xs)"
  by (induction xs arbitrary: ds) (auto simp: set_firsts)

lemma firsts_cong: "set ds = set es \<Longrightarrow> firsts ds xs = firsts es xs"
proof (induction xs arbitrary: ds es)
  case (Cons x xs)
  from Cons.IH [of "x # ds" "x # es"] Cons.IH [of ds es] Cons.prems show ?case by simp
qed simp

lemma forAllNodesInternal_fold: "forAllNodesInternal q proc s = fold proc (qset_nodes q) s"
proof (induction q arbitrary: s)
  case (SCPQuorumSet thr v i)
  have "fold (\<lambda>q. forAllNodesInternal q proc) i s = fold proc (concat (map qset_nodes i)) s" for s
    using SCPQuorumSet.IH by (induction i arbitrary: s) simp_all
  then show ?case by simp
qed

lemma forAllNodes_fold: "forAllNodes q proc s = fold proc (firsts [] (qset_nodes q)) s"
proof -
  let ?f = "\<lambda>n (done_nodes, s). if n \<in> set done_nodes then (done_nodes, s)
                                else (set_insert n done_nodes, proc n s)"
  have "snd (fold ?f xs (ds, s)) = fold proc (firsts ds xs) s" for xs ds s
  proof (induction xs arbitrary: ds s)
    case (Cons x xs)
    have "firsts (set_insert x ds) xs = firsts (x # ds) xs"
      by (rule firsts_cong) simp
    with Cons.IH show ?case by simp
  qed simp
  then show ?thesis
    unfolding forAllNodes_def forAllNodesInternal_fold by simp
qed

section \<open>The search\<close>

datatype TriBool = TB_TRUE | TB_FALSE | TB_MAYBE

text \<open>
  The two \<^verbatim>\<open>std::unordered_set\<close>s are kept as ordered lists; which element \<^verbatim>\<open>begin()\<close> yields is not
  specified, so it is an argument \<open>pick\<close> that may choose differently in every iteration.
\<close>

definition exploreStatement ::
  "('st \<Rightarrow> SCPQuorumSet option) \<Rightarrow> NodeID list \<Rightarrow> 'st \<Rightarrow> NodeID list \<times> TriBool \<Rightarrow> NodeID list \<times> TriBool"
where
  "exploreStatement qfun visited st r =
     (case qfun st of
        None \<Rightarrow> (fst r, TB_MAYBE)
      | Some qset \<Rightarrow>
          (forAllNodes qset (\<lambda>n b. if n \<in> set visited then b else set_insert n b) (fst r), snd r))"

fun isNodeInQuorum_loop ::
  "nat \<Rightarrow> (nat \<Rightarrow> NodeID list \<Rightarrow> NodeID) \<Rightarrow> NodeID \<Rightarrow> ('st \<Rightarrow> SCPQuorumSet option) \<Rightarrow>
   (NodeID \<times> 'st list) list \<Rightarrow> NodeID list \<Rightarrow> NodeID list \<Rightarrow> TriBool \<Rightarrow> scp_error + TriBool"
where
  "isNodeInQuorum_loop 0 pick node qfun m backlog visited res = Inl Out_Of_Fuel"
| "isNodeInQuorum_loop (Suc fuel) pick node qfun m backlog visited res =
     (if backlog = [] then Inr res
      else
        let c = pick fuel backlog
        in if c = node then Inr TB_TRUE
           else
             let backlog1 = removeAll c backlog; visited1 = set_insert c visited
             in (case map_of m c of
                   None \<Rightarrow> isNodeInQuorum_loop fuel pick node qfun m backlog1 visited1 TB_MAYBE
                 | Some sts \<Rightarrow>
                     (case fold (exploreStatement qfun visited1) sts (backlog1, res) of
                        (backlog2, res2) \<Rightarrow>
                          isNodeInQuorum_loop fuel pick node qfun m backlog2 visited1 res2)))"

definition isNodeInQuorum ::
  "nat \<Rightarrow> (nat \<Rightarrow> NodeID list \<Rightarrow> NodeID) \<Rightarrow> NodeID \<Rightarrow> NodeID \<Rightarrow> ('st \<Rightarrow> SCPQuorumSet option) \<Rightarrow>
   (NodeID \<times> 'st list) list \<Rightarrow> scp_error + TriBool"
where
  "isNodeInQuorum fuel pick localNode node qfun m =
     isNodeInQuorum_loop fuel pick node qfun m [localNode] [] TB_FALSE"

section \<open>What the answers mean\<close>

definition picks :: "(nat \<Rightarrow> NodeID list \<Rightarrow> NodeID) \<Rightarrow> bool" where
  "picks pick \<longleftrightarrow> (\<forall>k xs. xs \<noteq> [] \<longrightarrow> pick k xs \<in> set xs)"

text \<open>The nodes the statements of \<open>c\<close> refer to, and whether all of them could be looked up.\<close>

definition refers_to :: "('st \<Rightarrow> SCPQuorumSet option) \<Rightarrow> (NodeID \<times> 'st list) list \<Rightarrow> NodeID \<Rightarrow> NodeID set" where
  "refers_to qfun m c =
     (case map_of m c of
        None \<Rightarrow> {}
      | Some sts \<Rightarrow> \<Union> (set (map (\<lambda>st. case qfun st of None \<Rightarrow> {} | Some q \<Rightarrow> set (qset_nodes q)) sts)))"

definition looked_up :: "('st \<Rightarrow> SCPQuorumSet option) \<Rightarrow> (NodeID \<times> 'st list) list \<Rightarrow> NodeID \<Rightarrow> bool" where
  "looked_up qfun m c \<longleftrightarrow>
     (case map_of m c of None \<Rightarrow> False | Some sts \<Rightarrow> (\<forall>st \<in> set sts. qfun st \<noteq> None))"

inductive transitively ::
  "('st \<Rightarrow> SCPQuorumSet option) \<Rightarrow> (NodeID \<times> 'st list) list \<Rightarrow> NodeID \<Rightarrow> NodeID \<Rightarrow> bool"
  for qfun m r where
  here: "transitively qfun m r r"
| further: "transitively qfun m r c \<Longrightarrow> n \<in> refers_to qfun m c \<Longrightarrow> transitively qfun m r n"

text \<open>All nodes the search can come across.\<close>

definition search_space :: "('st \<Rightarrow> SCPQuorumSet option) \<Rightarrow> (NodeID \<times> 'st list) list \<Rightarrow> NodeID \<Rightarrow> NodeID list" where
  "search_space qfun m r =
     r # concat (map (\<lambda>(c, sts). concat (map (\<lambda>st. case qfun st of None \<Rightarrow> [] | Some q \<Rightarrow> qset_nodes q) sts)) m)"

lemma refers_to_space: "refers_to qfun m c \<subseteq> set (search_space qfun m r)"
  by (auto simp: refers_to_def search_space_def split: option.splits dest!: map_of_SomeD)
     force

lemma transitively_space: "transitively qfun m r n \<Longrightarrow> n \<in> set (search_space qfun m r)"
  by (induction rule: transitively.induct)
     (simp add: search_space_def, use refers_to_space in blast)

lemma fold_insert_unvisited:
  "set (fold (\<lambda>n b. if n \<in> V then b else set_insert n b) ns b) = set b \<union> (set ns - V)"
  by (induction ns arbitrary: b) auto

lemma exploreStatement_result:
  "set (fst (exploreStatement qfun visited st r)) =
     set (fst r) \<union> ((case qfun st of None \<Rightarrow> {} | Some q \<Rightarrow> set (qset_nodes q)) - set visited)"
  "snd (exploreStatement qfun visited st r) = (if qfun st = None then TB_MAYBE else snd r)"
  by (auto simp: exploreStatement_def forAllNodes_fold fold_insert_unvisited set_firsts split: option.split)

lemma fold_exploreStatement:
  "set (fst (fold (exploreStatement qfun visited) sts r)) =
     set (fst r) \<union> (\<Union> (set (map (\<lambda>st. case qfun st of None \<Rightarrow> {} | Some q \<Rightarrow> set (qset_nodes q)) sts)) - set visited)"
  "snd (fold (exploreStatement qfun visited) sts r) =
     (if \<forall>st \<in> set sts. qfun st \<noteq> None then snd r else TB_MAYBE)"
  by (induction sts arbitrary: r) (auto simp: exploreStatement_result)

text \<open>The state of the search: everything seen is reachable, everything visited is expanded.\<close>

definition search_inv ::
  "('st \<Rightarrow> SCPQuorumSet option) \<Rightarrow> (NodeID \<times> 'st list) list \<Rightarrow> NodeID \<Rightarrow> NodeID \<Rightarrow>
   NodeID list \<Rightarrow> NodeID list \<Rightarrow> TriBool \<Rightarrow> bool"
where
  "search_inv qfun m r node backlog visited res \<longleftrightarrow>
     r \<in> set visited \<union> set backlog \<and>
     (\<forall>c \<in> set visited \<union> set backlog. transitively qfun m r c) \<and>
     (\<forall>c \<in> set visited. refers_to qfun m c \<subseteq> set visited \<union> set backlog) \<and>
     set backlog \<inter> set visited = {} \<and> node \<notin> set visited \<and>
     res = (if \<forall>c \<in> set visited. looked_up qfun m c then TB_FALSE else TB_MAYBE)"

definition search_answer ::
  "('st \<Rightarrow> SCPQuorumSet option) \<Rightarrow> (NodeID \<times> 'st list) list \<Rightarrow> NodeID \<Rightarrow> NodeID \<Rightarrow> TriBool \<Rightarrow> bool"
where
  "search_answer qfun m r node res \<longleftrightarrow>
     (case res of
        TB_TRUE \<Rightarrow> transitively qfun m r node
      | TB_FALSE \<Rightarrow> \<not> transitively qfun m r node \<and> (\<forall>c. transitively qfun m r c \<longrightarrow> looked_up qfun m c)
      | TB_MAYBE \<Rightarrow> \<not> transitively qfun m r node \<and> (\<exists>c. transitively qfun m r c \<and> \<not> looked_up qfun m c))"

lemma search_done:
  assumes "search_inv qfun m r node [] visited res"
  shows "search_answer qfun m r node res"
proof -
  have "c \<in> set visited" if "transitively qfun m r c" for c
    using that by (induction rule: transitively.induct) (use assms in \<open>auto simp: search_inv_def\<close>)
  then have "transitively qfun m r c \<longleftrightarrow> c \<in> set visited" for c
    using assms by (auto simp: search_inv_def)
  then show ?thesis
    using assms by (auto simp: search_inv_def search_answer_def)
qed

text \<open>One iteration.\<close>

lemma search_step:
  assumes inv: "search_inv qfun m r node backlog visited res"
    and c: "c \<in> set backlog" "c \<noteq> node"
    and b': "set b' = set backlog - {c} \<union> (refers_to qfun m c - insert c (set visited))"
    and res': "res' = (if looked_up qfun m c then res else TB_MAYBE)"
  shows "search_inv qfun m r node b' (set_insert c visited) res'"
proof -
  have "transitively qfun m r n" if "n \<in> refers_to qfun m c" for n
    using that inv c(1) by (auto simp: search_inv_def intro: transitively.further)
  then show ?thesis
    using inv c b' res' unfolding search_inv_def by (auto simp: subset_iff)
qed

lemma isNodeInQuorum_loop_correct:
  assumes "picks pick"
  shows "search_inv qfun m r node backlog visited res \<Longrightarrow>
    card (set (search_space qfun m r) - set visited) < fuel \<Longrightarrow>
    \<exists>ans. isNodeInQuorum_loop fuel pick node qfun m backlog visited res = Inr ans \<and>
      search_answer qfun m r node ans"
proof (induction fuel arbitrary: backlog visited res)
  case (Suc fuel)
  note inv = Suc.prems(1)
  show ?case
  proof (cases "backlog = []")
    case True
    with search_done inv show ?thesis by auto
  next
    case False
    let ?c = "pick fuel backlog" and ?v = "set_insert (pick fuel backlog) visited"
    have c: "?c \<in> set backlog" using assms False by (auto simp: picks_def)
    then have reach: "transitively qfun m r ?c" and new: "?c \<notin> set visited"
      using inv by (auto simp: search_inv_def)
    have "card (set (search_space qfun m r) - set ?v) < card (set (search_space qfun m r) - set visited)"
      using transitively_space [OF reach] new by (intro psubset_card_mono) auto
    then have less: "card (set (search_space qfun m r) - set ?v) < fuel"
      using Suc.prems(2) by simp
    show ?thesis
    proof (cases "?c = node")
      case True
      with False reach show ?thesis by (simp add: search_answer_def)
    next
      case other: False
      note step = search_step [OF inv c other]
      show ?thesis
      proof (cases "map_of m ?c")
        case None
        have "search_inv qfun m r node (removeAll ?c backlog) ?v TB_MAYBE"
          by (rule step) (auto simp: refers_to_def looked_up_def None)
        from Suc.IH [OF this less] False other None show ?thesis by (simp add: Let_def)
      next
        case (Some sts)
        obtain b2 res2 where fold: "fold (exploreStatement qfun ?v) sts (removeAll ?c backlog, res) = (b2, res2)"
          by fastforce
        have "search_inv qfun m r node b2 ?v res2"
          by (rule step)
             (use fold_exploreStatement [of qfun ?v sts "(removeAll ?c backlog, res)"] fold Some in
               \<open>auto simp: refers_to_def looked_up_def\<close>)
        from Suc.IH [OF this less] False other Some fold show ?thesis by (simp add: Let_def)
      qed
    qed
  qed
qed simp

end
