(* ===== verification/SCP.thy ===== *)
theory SCP
  imports Slot Quorum_Search
begin

text \<open>
  \<^verbatim>\<open>src/scp/SCP.cpp\<close>: the entry points of the consensus library. An instance has its local node and the
  slots it knows, by index. An operation finds or creates the slot and hands over to it.
\<close>

record SCP =
  mLocalNode :: LocalNode
  mKnownSlots :: "(uint64 \<times> Slot) list"

definition initSCP :: "LocalNode \<Rightarrow> SCP" where
  "initSCP L = \<lparr>mLocalNode = L, mKnownSlots = []\<rparr>"

section \<open>Operations\<close>

text \<open>\<^verbatim>\<open>getSlot\<close>: the slot, if known or created, and the instance that then knows it.\<close>

definition getSlot :: "uint64 \<Rightarrow> bool \<Rightarrow> SCP \<Rightarrow> Slot option \<times> SCP" where
  "getSlot i create S =
     (case map_of (mKnownSlots S) i of
        Some s \<Rightarrow> (Some s, S)
      | None \<Rightarrow>
          if create
          then let s = initSlot (mLocalNode S) i
               in (Some s, S\<lparr>mKnownSlots := map_put i s (mKnownSlots S)\<rparr>)
          else (None, S))"

text \<open>
  Running an operation on slot \<open>i\<close>, created if need be; the slot is held through a shared pointer, so
  what the operation does to it is visible in the map.
\<close>

definition onSlot :: "uint64 \<Rightarrow> (Slot \<Rightarrow> scp_error + ('r \<times> Slot)) \<Rightarrow> SCP \<Rightarrow> scp_error + ('r \<times> SCP)" where
  "onSlot i oper S =
     (case getSlot i True S of
        (slot, S1) \<Rightarrow>
          bindE (deref slot) (\<lambda>s. bindE (oper s) (\<lambda>(r, s').
            Inr (r, S1\<lparr>mKnownSlots := map_put i s' (mKnownSlots S1)\<rparr>))))"

definition receiveEnvelope ::
  "SCPDriver \<Rightarrow> fuel \<Rightarrow> SCPPledges SCPEnvelope \<Rightarrow> SCP \<Rightarrow> scp_error + (bool \<times> SCP)"
where
  "receiveEnvelope D F envelope S =
     (if \<not> verifyEnvelope D envelope then Inr (False, S)
      else onSlot (slotIndex (statement envelope))
             (Slot_processEnvelope D (mLocalNode S) F envelope False) S)"

definition SCP_abandonBallot :: "SCPDriver \<Rightarrow> fuel \<Rightarrow> uint64 \<Rightarrow> SCP \<Rightarrow> scp_error + (bool \<times> SCP)" where
  "SCP_abandonBallot D F i S =
     bindE (dbgAssert (NDEBUG D) (Inr (mIsValidator (mLocalNode S)))) (\<lambda>_.
       onSlot i (Slot_abandonBallot D (mLocalNode S) F) S)"

definition SCP_nominate ::
  "SCPDriver \<Rightarrow> fuel \<Rightarrow> uint64 \<Rightarrow> Value \<Rightarrow> Value \<Rightarrow> SCP \<Rightarrow> scp_error + (bool \<times> SCP)"
where
  "SCP_nominate D F i value previousValue S =
     bindE (dbgAssert (NDEBUG D) (Inr (mIsValidator (mLocalNode S)))) (\<lambda>_.
       onSlot i (Slot_nominate D (mLocalNode S) F value previousValue False) S)"

definition SCP_stopNomination :: "uint64 \<Rightarrow> SCP \<Rightarrow> SCP" where
  "SCP_stopNomination i S =
     (case getSlot i False S of
        (None, S1) \<Rightarrow> S1
      | (Some s, S1) \<Rightarrow> S1\<lparr>mKnownSlots := map_put i (stopNomination s) (mKnownSlots S1)\<rparr>)"

definition updateLocalQuorumSet :: "(SCPQuorumSet \<Rightarrow> Hash) \<Rightarrow> SCPQuorumSet \<Rightarrow> SCP \<Rightarrow> SCP" where
  "updateLocalQuorumSet hashQSet qSet S = S\<lparr>mLocalNode := updateQuorumSet hashQSet qSet (mLocalNode S)\<rparr>"

text \<open>The loop of \<^verbatim>\<open>purgeSlots\<close> over the map.\<close>

fun purge :: "uint64 \<Rightarrow> (uint64 \<times> Slot) list \<Rightarrow> (uint64 \<times> Slot) list" where
  "purge maxSlotIndex [] = []"
| "purge maxSlotIndex ((i, s) # m) =
     (if i < maxSlotIndex then purge maxSlotIndex m else (i, s) # purge maxSlotIndex m)"

definition purgeSlots :: "uint64 \<Rightarrow> SCP \<Rightarrow> SCP" where
  "purgeSlots maxSlotIndex S = S\<lparr>mKnownSlots := purge maxSlotIndex (mKnownSlots S)\<rparr>"

text \<open>A timer callback holds the slot itself.\<close>

definition SCP_fireTimer ::
  "SCPDriver \<Rightarrow> fuel \<Rightarrow> uint64 \<Rightarrow> timer_callback \<Rightarrow> SCP \<Rightarrow> scp_error + (unit \<times> SCP)"
where
  "SCP_fireTimer D F i cb S =
     (case map_of (mKnownSlots S) i of
        None \<Rightarrow> Inr ((), S)
      | Some s \<Rightarrow> bindE (fireTimer D (mLocalNode S) F cb s) (\<lambda>s'.
          Inr ((), S\<lparr>mKnownSlots := map_put i s' (mKnownSlots S)\<rparr>)))"

definition SCP_setStateFromEnvelope ::
  "SCPDriver \<Rightarrow> uint64 \<Rightarrow> SCPPledges SCPEnvelope \<Rightarrow> SCP \<Rightarrow> scp_error + (unit \<times> SCP)"
where
  "SCP_setStateFromEnvelope D i e S =
     (if verifyEnvelope D e
      then onSlot i (\<lambda>s. bindE (Slot_setStateFromEnvelope D (mLocalNode S) e s) (\<lambda>s'. Inr ((), s'))) S
      else Inr ((), S))"

section \<open>Queries\<close>

definition getKnownSlotsCount :: "SCP \<Rightarrow> nat" where
  "getKnownSlotsCount S = length (mKnownSlots S)"

definition getCumulativeStatemtCount :: "SCP \<Rightarrow> nat" where
  "getCumulativeStatemtCount S = sum_list (map (\<lambda>(i, s). length (mStatementsHistory s)) (mKnownSlots S))"

definition SCP_getLatestMessagesSend :: "uint64 \<Rightarrow> SCP \<Rightarrow> SCPPledges SCPEnvelope list" where
  "SCP_getLatestMessagesSend i S =
     (case fst (getSlot i False S) of None \<Rightarrow> [] | Some s \<Rightarrow> getLatestMessagesSend s)"

definition SCP_getCurrentState :: "uint64 \<Rightarrow> SCP \<Rightarrow> SCPPledges SCPEnvelope list" where
  "SCP_getCurrentState i S =
     (case fst (getSlot i False S) of None \<Rightarrow> [] | Some s \<Rightarrow> Slot_getCurrentState (mLocalNode S) s)"

definition SCP_getExternalizingState :: "uint64 \<Rightarrow> SCP \<Rightarrow> scp_error + SCPPledges SCPEnvelope list" where
  "SCP_getExternalizingState i S =
     (case fst (getSlot i False S) of
        None \<Rightarrow> Inr [] | Some s \<Rightarrow> Slot_getExternalizingState (mLocalNode S) s)"

text \<open>\<^verbatim>\<open>m[e.first.nodeID].emplace_back(&e.first)\<close> over the history of the slot.\<close>

definition statementsByNode ::
  "(SCPPledges SCPStatement \<times> bool) list \<Rightarrow> (NodeID \<times> SCPPledges SCPStatement list) list"
where
  "statementsByNode hist =
     fold (\<lambda>(st, _) m.
       map_put (nodeID st) ((case map_of m (nodeID st) of None \<Rightarrow> [] | Some sts \<Rightarrow> sts) @ [st]) m) hist []"

definition Slot_isNodeInQuorum ::
  "SCPDriver \<Rightarrow> LocalNode \<Rightarrow> nat \<Rightarrow> (nat \<Rightarrow> NodeID list \<Rightarrow> NodeID) \<Rightarrow> NodeID \<Rightarrow> Slot \<Rightarrow> scp_error + TriBool"
where
  "Slot_isNodeInQuorum D L fuel pick node s =
     isNodeInQuorum fuel pick (mNodeID L) node
       (\<lambda>st. getQSet D (getCompanionQuorumSetHashFromStatement st))
       (statementsByNode (mStatementsHistory s))"

fun isNodeInQuorum_slots ::
  "(Slot \<Rightarrow> scp_error + TriBool) \<Rightarrow> (uint64 \<times> Slot) list \<Rightarrow> TriBool \<Rightarrow> scp_error + TriBool"
where
  "isNodeInQuorum_slots ask [] res = Inr res"
| "isNodeInQuorum_slots ask ((i, slot) # m) res =
     bindE (ask slot) (\<lambda>r. if r = TB_TRUE \<or> r = TB_FALSE then Inr r else isNodeInQuorum_slots ask m r)"

definition SCP_isNodeInQuorum ::
  "SCPDriver \<Rightarrow> nat \<Rightarrow> (nat \<Rightarrow> NodeID list \<Rightarrow> NodeID) \<Rightarrow> NodeID \<Rightarrow> SCP \<Rightarrow> scp_error + TriBool"
where
  "SCP_isNodeInQuorum D fuel pick node S =
     isNodeInQuorum_slots (Slot_isNodeInQuorum D (mLocalNode S) fuel pick node) (mKnownSlots S) TB_MAYBE"

section \<open>The instance as a transition system\<close>

text \<open>
  What can happen to an instance. The statements the node saved are given back one by one (\<open>scp_restore\<close>), to slots that
  are known already or not. An exception ends the restoring, as in \<^verbatim>\<open>HerderImpl::restoreSCPState\<close>, and what was restored
  before it stays. The answers of the driver are those of one record throughout.
\<close>

inductive scp_step :: "SCPDriver \<Rightarrow> SCP \<Rightarrow> SCP \<Rightarrow> bool" for D where
  scp_receive: "receiveEnvelope D F e S = Inr (r, S') \<Longrightarrow> scp_step D S S'"
| scp_nominate: "SCP_nominate D F i v w S = Inr (r, S') \<Longrightarrow> scp_step D S S'"
| scp_abandon: "SCP_abandonBallot D F i S = Inr (r, S') \<Longrightarrow> scp_step D S S'"
| scp_timer:
    "map_of (mKnownSlots S) i = Some s \<Longrightarrow> SetupTimer t d cb \<in> set (mDriverCalls s) \<Longrightarrow>
     SCP_fireTimer D F i cb S = Inr ((), S') \<Longrightarrow> scp_step D S S'"
| scp_stop: "scp_step D S (SCP_stopNomination i S)"
| scp_purge: "scp_step D S (purgeSlots n S)"
| scp_qset: "scp_step D S (updateLocalQuorumSet hashQSet q S)"
| scp_restore:
    "fst (getSlot i True S) = Some s \<Longrightarrow> restorable D s (pledges (statement e)) \<Longrightarrow>
     SCP_setStateFromEnvelope D i e S = Inr ((), S') \<Longrightarrow> scp_step D S S'"

definition scp_ok :: "SCPDriver \<Rightarrow> SCP \<Rightarrow> bool" where
  "scp_ok D S \<longleftrightarrow>
     map_ok (mKnownSlots S) \<and>
     (\<forall>i s. map_of (mKnownSlots S) i = Some s \<longrightarrow> slot_reachable D i s)"

lemma scp_ok_init: "scp_ok D (initSCP L)"
  by (simp add: scp_ok_def initSCP_def)

lemma scp_ok_put:
  "scp_ok D S \<Longrightarrow> slot_reachable D i s \<Longrightarrow>
   scp_ok D (S\<lparr>mKnownSlots := map_put i s (mKnownSlots S)\<rparr>)"
  by (simp add: scp_ok_def map_ok_put om.find_put)

text \<open>The slot that \<^verbatim>\<open>getSlot\<close> returns is a reachable one, and the instance stays well-formed.\<close>

lemma getSlot_ok:
  assumes "scp_ok D S" and "getSlot i c S = (r, S')"
  shows "scp_ok D S' \<and> (\<forall>s. r = Some s \<longrightarrow> slot_reachable D i s) \<and> mLocalNode S' = mLocalNode S"
  using assms scp_ok_put [OF assms(1) slot_reachable.reach_init]
  by (auto simp: getSlot_def scp_ok_def Let_def slot_reachable.reach_init split: option.splits if_splits)

lemma getSlot_create: "\<exists>s S'. getSlot i True S = (Some s, S')"
  by (simp add: getSlot_def Let_def split: option.split)

lemma onSlot_ok:
  assumes ok: "scp_ok D S" and run: "onSlot i oper S = Inr (r, S')"
    and step: "\<And>s s' r. getSlot i True S = (Some s, snd (getSlot i True S)) \<Longrightarrow> slot_reachable D i s \<Longrightarrow>
      oper s = Inr (r, s') \<Longrightarrow> slot_reachable D i s'"
  shows "scp_ok D S'"
proof -
  obtain s S1 where g: "getSlot i True S = (Some s, S1)" using getSlot_create by blast
  then obtain s' where s': "oper s = Inr (r, s')"
    and S': "S' = S1\<lparr>mKnownSlots := map_put i s' (mKnownSlots S1)\<rparr>"
    using run by (auto simp: onSlot_def bindE_Inr_iff)
  have "scp_ok D S1" "slot_reachable D i s" using getSlot_ok [OF ok g] by auto
  then show ?thesis
    unfolding S' using step [OF _ _ s'] g by (intro scp_ok_put) simp_all
qed

lemma onSlot_step_ok:
  assumes "scp_ok D S" "onSlot i oper S = Inr (r, S')" "\<And>s s' r. oper s = Inr (r, s') \<Longrightarrow> slot_step D s s'"
  shows "scp_ok D S'"
  using assms by (blast intro: onSlot_ok slot_reachable.reach_step)

lemma purge_filter: "purge n m = filter (\<lambda>(i, s). \<not> i < n) m"
  by (induction n m rule: purge.induct) auto

lemma map_of_purge: "map_of (purge n m) i = (if i < n then None else map_of m i)"
  by (induction n m rule: purge.induct) auto

lemma map_ok_purge: "map_ok m \<Longrightarrow> map_ok (purge n m)"
  by (induction n m rule: purge.induct) (auto simp: purge_filter)

text \<open>Every slot an instance knows is in a reachable state, whatever the history of the instance.\<close>

lemma scp_step_ok: "scp_step D S S' \<Longrightarrow> scp_ok D S \<Longrightarrow> scp_ok D S'"
proof (induction rule: scp_step.induct)
  case (scp_receive F e S r S')
  then have "S' = S \<or> onSlot (slotIndex (statement e)) (Slot_processEnvelope D (mLocalNode S) F e False) S = Inr (r, S')"
    by (auto simp: receiveEnvelope_def split: if_splits)
  with scp_receive.prems show ?case
    by (elim disjE) (simp, erule onSlot_step_ok, assumption, rule slot_step.step_envelope)
next
  case (scp_nominate F i v w S r S')
  then have "onSlot i (Slot_nominate D (mLocalNode S) F v w False) S = Inr (r, S')"
    by (auto simp: SCP_nominate_def bindE_Inr_iff)
  with scp_nominate.prems show ?case
    by (rule onSlot_step_ok) (rule slot_step.step_nominate)
next
  case (scp_abandon F i S r S')
  then have "onSlot i (Slot_abandonBallot D (mLocalNode S) F) S = Inr (r, S')"
    by (auto simp: SCP_abandonBallot_def bindE_Inr_iff)
  with scp_abandon.prems show ?case
    by (rule onSlot_step_ok) (rule slot_step.step_abandon)
next
  case (scp_timer S i s t d cb F S')
  then obtain s' where "fireTimer D (mLocalNode S) F cb s = Inr s'"
    and S': "S' = S\<lparr>mKnownSlots := map_put i s' (mKnownSlots S)\<rparr>"
    by (auto simp: SCP_fireTimer_def bindE_Inr_iff)
  with scp_timer have "slot_reachable D i s'"
    by (auto simp: scp_ok_def intro: slot_reachable.reach_step [OF _ slot_step.step_timer])
  with scp_timer S' show ?case by (simp add: scp_ok_put)
next
  case (scp_stop S i)
  have "slot_reachable D i (stopNomination s)" if "slot_reachable D i s" for s
    using that by (rule slot_reachable.reach_step [OF _ slot_step.step_stop])
  moreover obtain r S1 where g: "getSlot i False S = (r, S1)" by fastforce
  ultimately show ?case
    using getSlot_ok [OF scp_stop g] scp_ok_put by (cases r) (auto simp: SCP_stopNomination_def g)
next
  case (scp_purge S n)
  then show ?case
    by (simp add: scp_ok_def purgeSlots_def map_ok_purge map_of_purge)
next
  case (scp_qset S hashQSet q)
  then show ?case by (simp add: scp_ok_def updateLocalQuorumSet_def)
next
  case (scp_restore i S s e S')
  let ?oper = "\<lambda>s. bindE (Slot_setStateFromEnvelope D (mLocalNode S) e s) (\<lambda>s'. Inr ((), s'))"
  have "onSlot i ?oper S = Inr ((), S') \<or> S' = S"
    using scp_restore by (auto simp: SCP_setStateFromEnvelope_def split: if_splits)
  moreover have "slot_reachable D i s'"
    if "getSlot i True S = (Some t, S1)" "slot_reachable D i t" "?oper t = Inr (r, s')" for t S1 r s'
    using that scp_restore(1,2) by (auto simp: bindE_Inr_iff intro: slot_reachable.reach_restore)
  ultimately show ?case
    using scp_restore.prems by (auto intro: onSlot_ok [OF scp_restore.prems])
qed

lemma scp_steps_ok: "(scp_step D)\<^sup>*\<^sup>* (initSCP L) S \<Longrightarrow> scp_ok D S"
  by (induction rule: rtranclp_induct) (auto intro: scp_step_ok scp_ok_init)

end
