(* ===== verification/Ballot_Votes.thy ===== *)
theory Ballot_Votes
  imports Slot
begin

text \<open>
  Why the ballot protocol moves: federated voting in terms of quorums and blocking sets, the interval
  search, the justification of every step by what other nodes have said, and how a node catches up
  and is restored.
\<close>

section \<open>Federated voting\<close>

text \<open>The nodes whose recorded statement satisfies \<open>f\<close>.\<close>

definition saying :: "('p SCPStatement \<Rightarrow> bool) \<Rightarrow> (NodeID \<times> 'p SCPEnvelope) list \<Rightarrow> NodeID set" where
  "saying f m = {n. \<exists>e. map_of m n = Some e \<and> f (statement e)}"

text \<open>
  \<open>ratified\<close>: a quorum that satisfies the local node's quorum set says so.
  \<open>accepted_by_others\<close>: a set that blocks the local node accepts it, or a quorum votes for or accepts it.
\<close>

definition ratified ::
  "SCPDriver \<Rightarrow> LocalNode \<Rightarrow> ('p \<Rightarrow> SCPPledges) \<Rightarrow> ('p SCPStatement \<Rightarrow> bool) \<Rightarrow> (NodeID \<times> 'p SCPEnvelope) list \<Rightarrow> bool"
where
  "ratified D L tag f m \<longleftrightarrow>
     (\<exists>U \<subseteq> saying f m. qset.closed (qset_of m (env_qset D tag)) U \<and> has_slice (mQSet L) U)"

definition accepted_by_others ::
  "SCPDriver \<Rightarrow> LocalNode \<Rightarrow> ('p \<Rightarrow> SCPPledges) \<Rightarrow> ('p SCPStatement \<Rightarrow> bool) \<Rightarrow> ('p SCPStatement \<Rightarrow> bool) \<Rightarrow>
   (NodeID \<times> 'p SCPEnvelope) list \<Rightarrow> bool"
where
  "accepted_by_others D L tag voted acc m \<longleftrightarrow>
     blocked_by (mQSet L) (saying acc m) \<or> ratified D L tag (\<lambda>st. acc st \<or> voted st) m"

text \<open>
  The situation in which SCP is called: the local quorum set is sane, and the quorum sets of the
  recorded statements are at hand.
\<close>

definition voting_ok :: "SCPDriver \<Rightarrow> LocalNode \<Rightarrow> ('p \<Rightarrow> SCPPledges) \<Rightarrow> (NodeID \<times> 'p SCPEnvelope) list \<Rightarrow> bool" where
  "voting_ok D L tag m \<longleftrightarrow>
     map_ok m \<and> quorum_sets_known m (env_qset D tag) (\<lambda>_. True) \<and>
     small_qset (mQSet L) \<and> thresholds_ok (mQSet L)"

lemma set_filter_nodes:
  assumes "map_ok m"
  shows "set (filter_nodes m (\<lambda>e. f (statement e))) = saying f m"
proof -
  have "saying f m = {n. \<exists>e. (n, e) \<in> set m \<and> f (statement e)}"
    unfolding saying_def using om.items_find [OF assms] by simp
  then show ?thesis
    by (force simp: filter_nodes_def)
qed

lemma quorum_sets_known_mono:
  "quorum_sets_known m qf (\<lambda>_. True) \<Longrightarrow> quorum_sets_known m qf f"
  by (auto simp: quorum_sets_known_def)

lemma federatedRatify_iff:
  "voting_ok D L tag m \<Longrightarrow> federatedRatify D L tag f m = Inr (ratified D L tag f m)"
  unfolding federatedRatify_def voting_ok_def ratified_def
  by (subst isQuorum_result) (auto simp: set_filter_nodes quorum_sets_known_mono)

lemma federatedAccept_iff:
  assumes "voting_ok D L tag m"
  shows "federatedAccept D L tag voted acc m = Inr (accepted_by_others D L tag voted acc m)"
proof -
  have "isVBlocking_map (mQSet L) m (\<lambda>e. acc (statement e)) \<longleftrightarrow> blocked_by (mQSet L) (saying acc m)"
    using assms by (simp add: voting_ok_def isVBlocking_map_def vblocking_defs set_filter_nodes)
  moreover have "isQuorum (mQSet L) m (env_qset D tag) (\<lambda>e. acc (statement e) \<or> voted (statement e)) =
      Inr (ratified D L tag (\<lambda>st. acc st \<or> voted st) m)"
    using federatedRatify_iff [OF assms] by (simp add: federatedRatify_def)
  ultimately show ?thesis
    by (simp add: federatedAccept_def accepted_by_others_def)
qed

text \<open>
  Two ratifications by one node, with majority thresholds everywhere, share a node that says both.
\<close>

lemma ratified_overlap:
  assumes "majority_ok (mQSet L)" "ratified D L tag f m" "ratified D L tag g m"
  shows "saying f m \<inter> saying g m \<noteq> {}"
proof -
  obtain U V where "U \<subseteq> saying f m" "V \<subseteq> saying g m" "has_slice (mQSet L) U" "has_slice (mQSet L) V"
    using assms(2,3) unfolding ratified_def by blast
  with majority_slices_meet [OF assms(1), of U V] show ?thesis by blast
qed

section \<open>The interval search\<close>

text \<open>What the loop has established when it stops: the interval passes the test, its ends are
  boundaries, and its top is the highest boundary that passes on its own.\<close>

definition interval_found :: "(Interval \<Rightarrow> scp_error + bool) \<Rightarrow> uint32 list \<Rightarrow> Interval \<Rightarrow> bool" where
  "interval_found pred bs c \<longleftrightarrow>
     pred c = Inr True \<and> fst c \<in> set bs \<and> snd c \<in> set bs \<and> fst c \<le> snd c \<and>
     (\<forall>b \<in> set bs. snd c < b \<longrightarrow> pred (b, b) = Inr False)"

lemma findExtendedInterval_extend:
  "sorted_wrt (>) ds \<Longrightarrow> fst c \<noteq> 0 \<Longrightarrow> pred c = Inr True \<Longrightarrow> fst c \<le> snd c \<Longrightarrow>
   post (findExtendedInterval_loop pred ds c) (\<lambda>c'. fst c' \<noteq> 0 \<longrightarrow>
     pred c' = Inr True \<and> snd c' = snd c \<and> fst c' \<le> snd c' \<and> fst c' \<in> insert (fst c) (set ds))"
proof (induction ds arbitrary: c)
  case (Cons b ds)
  have nxt: "post (findExtendedInterval_loop pred ds c) (\<lambda>c'. fst c' \<noteq> 0 \<longrightarrow>
      pred c' = Inr True \<and> snd c' = snd c \<and> fst c' \<le> snd c' \<and> fst c' \<in> insert (fst c) (set (b # ds)))"
    if "fst c \<noteq> 0" "pred c = Inr True" "fst c \<le> snd c" for c
    by (rule post_mono [OF Cons.IH]) (use that Cons.prems in auto)
  have zero: "ds = []" if "b = 0"
    using Cons.prems(1) that by (cases ds) auto
  show ?case
  proof (cases "pred (b, snd c)")
    case (Inl e)
    with nxt [of c] Cons.prems show ?thesis by auto
  next
    case (Inr ok)
    show ?thesis
      using nxt [of c] nxt [of "(b, snd c)"] zero Inr Cons.prems
      by (cases "b = 0"; cases ok) (auto simp: not_less elim!: post_mono)
  qed
qed simp

lemma findExtendedInterval_sound:
  assumes "strict_sorted bs"
  shows "post (findExtendedInterval (0, 0) bs pred) (\<lambda>c. fst c \<noteq> 0 \<longrightarrow> interval_found pred bs c)"
proof -
  have "post (findExtendedInterval_loop pred ds (0, 0)) (\<lambda>c. fst c \<noteq> 0 \<longrightarrow>
      pred c = Inr True \<and> fst c \<in> set ds \<and> snd c \<in> set ds \<and> fst c \<le> snd c \<and>
      (\<forall>b \<in> set ds. snd c < b \<longrightarrow> pred (b, b) = Inr False))" if "sorted_wrt (>) ds" for ds
    using that
  proof (induction ds)
    case (Cons b ds)
    show ?case
    proof (cases "pred (b, b)")
      case (Inr ok)
      show ?thesis
      proof (cases "ok \<and> b \<noteq> 0")
        case True
        with Inr Cons.prems findExtendedInterval_extend [of ds "(b, b)" pred] show ?thesis
          by (auto elim!: post_mono)
      next
        case False
        have "ds = []" if "b = 0" using Cons.prems that by (cases ds) auto
        with False Inr Cons show ?thesis
          by (cases "b = 0") (auto elim!: post_mono)
      qed
    qed simp
  qed simp
  from this [of "rev bs"] assms show ?thesis
    by (simp add: findExtendedInterval_def interval_found_def sorted_wrt_rev)
qed

section \<open>Every step is justified\<close>

lemma findPreparedAccept_found:
  "findPreparedAccept D L s cands = Inr (Some b) \<Longrightarrow>
     b \<in> set cands \<and>
     federatedAccept D L Ballot (\<lambda>st. votesPrepare b (pledges st)) (\<lambda>st. hasPreparedBallot b (pledges st))
       (latest s) = Inr True"
  by (induction cands) (auto simp: bindE_Inr_iff split: if_splits)

lemma findNewH_found:
  "findNewH D L s cands = Inr (h # rest) \<Longrightarrow>
     h \<in> set cands \<and> set (h # rest) \<subseteq> set cands \<and> ratifiedPrepared D L s h = Inr True"
  by (induction cands) (auto simp: bindE_Inr_iff split: if_splits)

lemma findNewC_found:
  "findNewC D L s b cands c0 = Inr c \<Longrightarrow> c \<noteq> c0 \<Longrightarrow> c \<in> set cands \<and> ratifiedPrepared D L s c = Inr True"
proof (induction cands arbitrary: c0)
  case (Cons x cands)
  then show ?case
    by (cases "c = x") (auto simp: bindE_Inr_iff split: if_splits)
qed simp

lemma attemptPreparedAccept_justified:
  assumes ok: "voting_ok D L Ballot (latest s)" and run: "attemptPreparedAccept D L proc hint s = Inr (True, s')"
  shows "\<exists>b \<in> set (getPrepareCandidates hint (latest s)).
    accepted_by_others D L Ballot (\<lambda>st. votesPrepare b (pledges st)) (\<lambda>st. hasPreparedBallot b (pledges st)) (latest s) \<and>
    setPreparedAccept D L proc b s = Inr (True, s')"
proof -
  obtain b where "findPreparedAccept D L s (rev (getPrepareCandidates hint (latest s))) = Inr (Some b)"
    and set: "setPreparedAccept D L proc b s = Inr (True, s')"
    using run by (auto simp: attemptPreparedAccept_def bindE_Inr_iff split: if_splits option.splits)
  from findPreparedAccept_found [OF this(1)] set show ?thesis
    by (intro bexI [of _ b]) (auto simp: federatedAccept_iff [OF ok])
qed

lemma attemptPreparedConfirmed_justified:
  assumes ok: "voting_ok D L Ballot (latest s)" and run: "attemptPreparedConfirmed D L proc hint s = Inr (True, s')"
  shows "\<exists>newH newC.
    ratified D L Ballot (\<lambda>st. hasPreparedBallot newH (pledges st)) (latest s) \<and>
    (counter newC \<noteq> 0 \<longrightarrow> ratified D L Ballot (\<lambda>st. hasPreparedBallot newC (pledges st)) (latest s)) \<and>
    setPreparedConfirmed D L proc newC newH s = Inr (True, s')"
proof -
  let ?cands = "rev (getPrepareCandidates hint (latest s))"
  let ?next = "\<lambda>newH rest. bindE (if ballot_c s = None \<and>
        (case ballot_p s of None \<Rightarrow> True | Some p \<Rightarrow> \<not> areBallotsLessAndIncompatible newH p) \<and>
        (case ballot_pp s of None \<Rightarrow> True | Some pp \<Rightarrow> \<not> areBallotsLessAndIncompatible newH pp)
      then findNewC D L s (case ballot_b s of Some b \<Rightarrow> b | None \<Rightarrow> default_ballot) rest default_ballot
      else Inr default_ballot) (\<lambda>newC. setPreparedConfirmed D L proc newC newH s)"
  have "bindE (findNewH D L s ?cands) (\<lambda>rest. case rest of [] \<Rightarrow> Inr (False, s) | newH # _ \<Rightarrow> ?next newH rest) =
      Inr (True, s')"
    using run unfolding attemptPreparedConfirmed_def by (simp only: split: if_split_asm) simp_all
  then obtain xs where "findNewH D L s ?cands = Inr xs"
    and xs: "(case xs of [] \<Rightarrow> Inr (False, s) | newH # _ \<Rightarrow> ?next newH xs) = Inr (True, s')"
    by (cases "findNewH D L s ?cands") simp_all
  moreover obtain newH rest where "xs = newH # rest" using xs by (cases xs) simp_all
  ultimately have H: "findNewH D L s ?cands = Inr (newH # rest)"
    and run': "?next newH (newH # rest) = Inr (True, s')"
    using xs by (simp_all only: list.case)
  obtain newC b where C: "newC = default_ballot \<or> findNewC D L s b (newH # rest) default_ballot = Inr newC"
    and set: "setPreparedConfirmed D L proc newC newH s = Inr (True, s')"
    using run' unfolding bindE_Inr_iff by (auto simp del: findNewC.simps split: if_split_asm)
  have "ratifiedPrepared D L s newC = Inr True" if "counter newC \<noteq> 0"
  proof -
    have "newC \<noteq> default_ballot" using that by (auto simp: default_ballot_def)
    with C findNewC_found show ?thesis by blast
  qed
  with findNewH_found [OF H] set show ?thesis
    by (intro exI [of _ newH] exI [of _ newC]) (auto simp: federatedRatify_iff [OF ok])
qed

lemma boundaries_sorted: "strict_sorted (getCommitBoundariesFromStatements ballot m)"
  by (simp add: getCommitBoundariesFromStatements_def strict_sorted_set_of)

lemma attemptAcceptCommit_justified:
  assumes ok: "voting_ok D L Ballot (latest s)" and run: "attemptAcceptCommit D L proc hint s = Inr (True, s')"
  shows "\<exists>ballot c h. commitHint hint = Some ballot \<and> c \<noteq> 0 \<and> c \<le> h \<and>
    accepted_by_others D L Ballot (\<lambda>st. votesCommit ballot (c, h) (pledges st))
      (\<lambda>st. commitPredicate ballot (c, h) (pledges st)) (latest s) \<and>
    setAcceptCommit D L proc (SCPBallot c (bvalue ballot)) (SCPBallot h (bvalue ballot)) s = Inr (True, s')"
proof -
  let ?pred = "\<lambda>ballot cur. federatedAccept D L Ballot (\<lambda>st. votesCommit ballot cur (pledges st))
      (\<lambda>st. commitPredicate ballot cur (pledges st)) (latest s)"
  let ?bs = "\<lambda>ballot. getCommitBoundariesFromStatements ballot (latest s)"
  obtain ballot c h where b: "commitHint hint = Some ballot"
    and f: "findExtendedInterval (0, 0) (?bs ballot) (?pred ballot) = Inr (c, h)" and c: "c \<noteq> 0"
    and set: "setAcceptCommit D L proc (SCPBallot c (bvalue ballot)) (SCPBallot h (bvalue ballot)) s = Inr (True, s')"
    using run by (auto simp: attemptAcceptCommit_def bindE_Inr_iff Let_def split: if_splits option.splits)
  have "interval_found (?pred ballot) (?bs ballot) (c, h)"
    using postD [OF findExtendedInterval_sound [OF boundaries_sorted] f] c by simp
  with b c set show ?thesis
    by (auto simp: interval_found_def federatedAccept_iff [OF ok])
qed

lemma attemptConfirmCommit_justified:
  assumes ok: "voting_ok D L Ballot (latest s)" and run: "attemptConfirmCommit D L proc hint s = Inr (True, s')"
  shows "\<exists>ballot c h. commit_value s = Some (bvalue ballot) \<and> c \<noteq> 0 \<and> c \<le> h \<and>
    ratified D L Ballot (\<lambda>st. commitPredicate ballot (c, h) (pledges st)) (latest s) \<and>
    setConfirmCommit D L proc (SCPBallot c (bvalue ballot)) (SCPBallot h (bvalue ballot)) s = Inr (True, s')"
proof -
  let ?pred = "\<lambda>ballot cur. federatedRatify D L Ballot (\<lambda>st. commitPredicate ballot cur (pledges st)) (latest s)"
  let ?bs = "\<lambda>ballot. getCommitBoundariesFromStatements ballot (latest s)"
  obtain ballot c h c0 where b: "ballot_c s = Some c0" "areBallotsCompatible ballot c0"
    and f: "findExtendedInterval (0, 0) (?bs ballot) (?pred ballot) = Inr (c, h)" and c: "c \<noteq> 0"
    and set: "setConfirmCommit D L proc (SCPBallot c (bvalue ballot)) (SCPBallot h (bvalue ballot)) s = Inr (True, s')"
    using run by (auto simp: attemptConfirmCommit_def bindE_Inr_iff
        split: if_splits option.splits BallotPledges.splits)
  have "interval_found (?pred ballot) (?bs ballot) (c, h)"
    using postD [OF findExtendedInterval_sound [OF boundaries_sorted] f] c by simp
  with b c set show ?thesis
    by (intro exI [of _ ballot] exI [of _ c] exI [of _ h])
       (auto simp: interval_found_def federatedRatify_iff [OF ok] commit_value_def areBallotsCompatible_def)
qed

section \<open>What a statement says\<close>

text \<open>
  The meaning of the three kinds of statements in the white paper, as the sets of ballots that the sender
  votes to prepare, has accepted as prepared, votes to commit and has accepted to commit.
\<close>

fun prepare_voted :: "BallotPledges \<Rightarrow> SCPBallot set" where
  "prepare_voted (Prepare p) = {SCPBallot n v |n v. v = bvalue (p_ballot p) \<and> n \<le> counter (p_ballot p)}"
| "prepare_voted (Confirm c) = {SCPBallot n v |n v. v = bvalue (c_ballot c)}"
| "prepare_voted (Externalize e) = {SCPBallot n v |n v. v = bvalue (e_commit e)}"

fun prepare_accepted :: "BallotPledges \<Rightarrow> SCPBallot set" where
  "prepare_accepted (Prepare p) =
     {SCPBallot n v |n v. \<exists>x. (p_prepared p = Some x \<or> p_preparedPrime p = Some x) \<and> v = bvalue x \<and> n \<le> counter x}"
| "prepare_accepted (Confirm c) = {SCPBallot n v |n v. v = bvalue (c_ballot c) \<and> n \<le> c_nPrepared c}"
| "prepare_accepted (Externalize e) = {SCPBallot n v |n v. v = bvalue (e_commit e)}"

fun commit_voted :: "BallotPledges \<Rightarrow> SCPBallot set" where
  "commit_voted (Prepare p) =
     {SCPBallot n v |n v. v = bvalue (p_ballot p) \<and> p_nC p \<noteq> 0 \<and> p_nC p \<le> n \<and> n \<le> p_nH p}"
| "commit_voted (Confirm c) = {SCPBallot n v |n v. v = bvalue (c_ballot c) \<and> c_nCommit c \<le> n}"
| "commit_voted (Externalize e) = {SCPBallot n v |n v. v = bvalue (e_commit e) \<and> counter (e_commit e) \<le> n}"

fun commit_accepted :: "BallotPledges \<Rightarrow> SCPBallot set" where
  "commit_accepted (Prepare p) = {}"
| "commit_accepted (Confirm c) =
     {SCPBallot n v |n v. v = bvalue (c_ballot c) \<and> c_nCommit c \<le> n \<and> n \<le> c_nH c}"
| "commit_accepted (Externalize e) = {SCPBallot n v |n v. v = bvalue (e_commit e) \<and> counter (e_commit e) \<le> n}"

text \<open>The ballots with value \<open>v\<close> and counters from \<open>c\<close> to \<open>h\<close>.\<close>

definition ballots_between :: "Value \<Rightarrow> uint32 \<Rightarrow> uint32 \<Rightarrow> SCPBallot set" where
  "ballots_between v c h = {SCPBallot n v |n. c \<le> n \<and> n \<le> h}"

lemma less_and_compatible: "areBallotsLessAndCompatible b x \<longleftrightarrow> bvalue b = bvalue x \<and> counter b \<le> counter x"
  by (auto simp: areBallotsLessAndCompatible_def areBallotsCompatible_def less_eq_SCPBallot_def less_SCPBallot_def)

lemma votesPrepare_iff: "votesPrepare b p \<longleftrightarrow> b \<in> prepare_voted p"
  by (cases b; cases p) (auto simp: less_and_compatible areBallotsCompatible_def)

lemma hasPreparedBallot_iff: "hasPreparedBallot b p \<longleftrightarrow> b \<in> prepare_accepted p"
  by (cases b; cases p) (auto simp: less_and_compatible areBallotsCompatible_def split: option.splits)

lemma ballots_between_subset:
  "ballots_between v c h \<subseteq> {SCPBallot n w |n w. w = u \<and> P n} \<longleftrightarrow> (\<forall>n. c \<le> n \<and> n \<le> h \<longrightarrow> v = u \<and> P n)"
  by (auto simp: ballots_between_def)

lemma votesCommit_iff:
  assumes "c \<le> h"
  shows "votesCommit b (c, h) p \<longleftrightarrow> ballots_between (bvalue b) c h \<subseteq> commit_voted p"
proof (cases p)
  case (Prepare x)
  show ?thesis unfolding Prepare commit_voted.simps ballots_between_subset
    using assms by (auto simp: areBallotsCompatible_def)
next
  case (Confirm x)
  show ?thesis unfolding Confirm commit_voted.simps ballots_between_subset
    using assms by (auto simp: areBallotsCompatible_def)
next
  case (Externalize x)
  show ?thesis unfolding Externalize commit_voted.simps ballots_between_subset
    using assms by (auto simp: areBallotsCompatible_def)
qed

lemma commitPredicate_iff:
  assumes "c \<le> h"
  shows "commitPredicate b (c, h) p \<longleftrightarrow> ballots_between (bvalue b) c h \<subseteq> commit_accepted p"
proof (cases p)
  case (Prepare x)
  have "SCPBallot c (bvalue b) \<in> ballots_between (bvalue b) c h" using assms by (simp add: ballots_between_def)
  then show ?thesis using Prepare by auto
next
  case (Confirm x)
  show ?thesis unfolding Confirm commit_accepted.simps ballots_between_subset
    using assms by (auto simp: areBallotsCompatible_def)
next
  case (Externalize x)
  show ?thesis unfolding Externalize commit_accepted.simps ballots_between_subset
    using assms by (auto simp: areBallotsCompatible_def)
qed

section \<open>Bumping\<close>

text \<open>The counters are scanned upwards, and the scan stops at the first one below the node's own.\<close>

lemma allCounters_sorted: "strict_sorted (allCounters s n)"
  by (simp add: allCounters_def strict_sorted_set_insert strict_sorted_set_of)

lemma attemptBump_behind:
  assumes b: "ballot_b s = Some b" and e: "(n, e) \<in> set (latest s)"
    and low: "statementCounter (pledges (statement e)) < counter b"
  shows "attemptBump D L proc s = Inr (False, s)"
proof -
  let ?cs = "allCounters s (counter b)"
  have "statementCounter (pledges (statement e)) \<in> set ?cs"
    using e by (force simp: allCounters_def)
  then obtain c cs where cs: "?cs = c # cs" and "c \<le> statementCounter (pledges (statement e))"
    using allCounters_sorted [of s "counter b"] by (cases ?cs) auto
  with low have "c < counter b" by simp
  with cs b show ?thesis by (simp add: attemptBump_def)
qed

text \<open>Without such a node the counter found is the smallest one that no blocking set is beyond.\<close>

definition ahead :: "LocalNode \<Rightarrow> Slot \<Rightarrow> uint32 \<Rightarrow> bool" where
  "ahead L s n \<longleftrightarrow> isVBlocking_map (mQSet L) (latest s) (\<lambda>e. aheadOf n (pledges (statement e)))"

lemma findBumpCounter_smallest:
  "strict_sorted ns \<Longrightarrow> (\<And>n. n \<in> set ns \<Longrightarrow> target \<le> n) \<Longrightarrow>
   findBumpCounter L s target ns =
     (if target \<in> set ns \<and> \<not> ahead L s target then None
      else List.find (\<lambda>n. target < n \<and> \<not> ahead L s n) ns)"
proof (induction ns)
  case (Cons n ns)
  have ge: "\<not> n < target" using Cons.prems by (simp add: not_less)
  have notin: "target \<notin> set ns"
    using Cons.prems by force
  have IH: "findBumpCounter L s target ns = List.find (\<lambda>n. target < n \<and> \<not> ahead L s n) ns"
    using Cons notin by simp
  show ?case
  proof (cases "n = target")
    case True
    with IH show ?thesis by (simp add: ahead_def Let_def)
  next
    case False
    with ge have "target < n" by simp
    with False ge notin IH show ?thesis by (auto simp: ahead_def Let_def)
  qed
qed simp

section \<open>Values of a statement\<close>

lemma validateValues_last:
  "validateValues D i st = foldl (\<lambda>res v.
     if validateValue D i v = kFullyValidatedValue then res else validateValue D i v)
     kFullyValidatedValue (statementValues st)"
proof -
  have "(if tr \<noteq> kFullyValidatedValue then (if tr = kInvalidValue then kInvalidValue else kMaybeValidValue) else res) =
      (if tr = kFullyValidatedValue then res else tr)" for tr res
    by (cases tr) simp_all
  then show ?thesis
    by (simp only: validateValues_def foldl_conv_fold Let_def)
qed

lemma validateValues_full:
  "validateValues D i st = kFullyValidatedValue \<longleftrightarrow>
     (\<forall>v \<in> set (statementValues st). validateValue D i v = kFullyValidatedValue)"
proof -
  have "foldl (\<lambda>res v. if validateValue D i v = kFullyValidatedValue then res else validateValue D i v) r vs =
      kFullyValidatedValue \<longleftrightarrow>
      r = kFullyValidatedValue \<and> (\<forall>v \<in> set vs. validateValue D i v = kFullyValidatedValue)" for r vs
    by (induction vs arbitrary: r) auto
  then show ?thesis by (simp add: validateValues_last)
qed

lemma validateValues_invalid:
  "validateValues D i st = kInvalidValue \<longleftrightarrow>
     (\<exists>before v after. statementValues st = before @ v # after \<and> validateValue D i v = kInvalidValue \<and>
        (\<forall>w \<in> set after. validateValue D i w = kFullyValidatedValue))"
proof -
  let ?f = "\<lambda>res v. if validateValue D i v = kFullyValidatedValue then res else validateValue D i v"
  have "foldl ?f kFullyValidatedValue vs = kInvalidValue \<longleftrightarrow>
      (\<exists>before v after. vs = before @ v # after \<and> validateValue D i v = kInvalidValue \<and>
        (\<forall>w \<in> set after. validateValue D i w = kFullyValidatedValue))" for vs
  proof (induction vs rule: rev_induct)
    case (snoc x xs)
    have last: "(\<exists>before v after. xs @ [x] = before @ v # after \<and> P v \<and> (\<forall>w \<in> set after. Q w)) \<longleftrightarrow>
        P x \<or> Q x \<and> (\<exists>before v after. xs = before @ v # after \<and> P v \<and> (\<forall>w \<in> set after. Q w))" (is "?l \<longleftrightarrow> ?r") for P Q
    proof
      assume ?l
      then obtain before v after where *: "xs @ [x] = before @ v # after" "P v" "\<forall>w \<in> set after. Q w" by blast
      then show ?r by (cases after rule: rev_cases) auto
    next
      assume ?r
      then show ?l
      proof (elim disjE conjE exE)
        assume "P x"
        then show ?l by (intro exI [of _ xs] exI [of _ x] exI [of _ "[]"]) simp
      next
        fix before v after
        assume "Q x" "xs = before @ v # after" "P v" "\<forall>w \<in> set after. Q w"
        then show ?l by (intro exI [of _ before] exI [of _ v] exI [of _ "after @ [x]"]) simp
      qed
    qed
    show ?case unfolding last using snoc.IH by simp
  qed simp
  then show ?thesis by (simp only: validateValues_last)
qed

section \<open>Raising h past an incompatible commit ballot\<close>

lemma findNewH_above:
  "findNewH D L s cands = Inr (newH # rest) \<Longrightarrow> ballot_h s = Some h \<Longrightarrow> h < newH"
  by (induction cands) (auto simp: bindE_Inr_iff not_le split: if_splits)

lemma bumpToBallot_returns:
  assumes "phase s \<noteq> SCP_PHASE_EXTERNALIZE" "ballot_opt_le (ballot_b s) (Some x)"
  shows "\<exists>t. bumpToBallot D x True s = Inr t \<and>
    mBallotProtocol t = (mBallotProtocol s)\<lparr>mCurrentBallot := Some x, mHeardFromQuorum := False\<rparr>"
proof -
  have "fueled (bumpToBallot D x True s)" "\<exists>t. bumpToBallot D x True s = Inr t"
    using assms by (auto simp: bumpToBallot_def startBallotProtocolTimer_def Let_def ballot_opt_le_def
        split: option.splits)
  then obtain t where t: "bumpToBallot D x True s = Inr t" by blast
  from postD [OF bumpToBallot_result t] t show ?thesis by auto
qed

lemma checkInvariants_incompatible:
  assumes "\<not> NDEBUG D" "ballot_c s = Some c" "ballot_h s = Some h" "ballot_b s = Some b" "bvalue h \<noteq> bvalue c"
  shows "checkInvariants D s = Inl Dbg_Abort"
proof -
  have "dbgAssert (NDEBUG D) (Inr P) = Inr () \<or> dbgAssert (NDEBUG D) (Inr P) = Inl Dbg_Abort" for P
    using assms(1) by (simp add: dbgAssert_def)
  then show ?thesis
    using assms by (auto simp: checkInvariants_def dbgAssert_def split: option.split)
qed

lemma setPreparedConfirmed_aborts:
  assumes "\<not> NDEBUG D" "phase s = SCP_PHASE_PREPARE" "ballot_b s = Some b" "ballot_c s = Some c" "ballot_h s = Some h"
    and "h < newH" "bvalue newH \<noteq> bvalue c"
  shows "setPreparedConfirmed D L proc default_ballot newH s = Inl Dbg_Abort"
proof -
  let ?s1 = "upd_ballot (mHighBallot_update (\<lambda>_. Some newH)) s"
  have "\<exists>t. updateCurrentIfNeeded D ?s1 = Inr t \<and> ballot_c t = Some c \<and> ballot_h t = Some newH \<and> ballot_b t \<noteq> None"
    using assms(2-4) bumpToBallot_returns [of ?s1 newH D]
    by (cases "b < newH") (auto simp: updateCurrentIfNeeded_def ballot_opt_le_def less_imp_le)
  then obtain t where t: "updateCurrentIfNeeded D ?s1 = Inr t"
    and "ballot_c t = Some c" "ballot_h t = Some newH" "\<exists>b'. ballot_b t = Some b'" by blast
  then have "checkInvariants D (driver_log x t) = Inl Dbg_Abort" for x
    using assms(1,7) by (auto simp: driver_log_def intro!: checkInvariants_incompatible)
  then have "emitCurrentStateStatement D L proc (driver_log x t) = Inl Dbg_Abort" for x
    by (simp add: emitCurrentStateStatement_def createStatement_def)
  with t assms(5,6) show ?thesis
    by (simp add: setPreparedConfirmed_def Let_def default_ballot_def)
qed

section \<open>Restoring the state from the node's own statement\<close>

definition ballot_vars where
  "ballot_vars s = (ballot_b s, ballot_p s, ballot_pp s, ballot_h s, ballot_c s, phase s)"

text \<open>The empty slot after the message has been recorded, and after the ballot has been set.\<close>

abbreviation recorded :: "BallotEnvelope \<Rightarrow> Slot \<Rightarrow> Slot" where
  "recorded e s \<equiv> (let r = recordEnvelope e s
     in (upd_ballot (\<lambda>B. B\<lparr>mLastEnvelope := Some (mAllocations r, e), mLastEnvelopeEmit := Some (mAllocations r, e)\<rparr>) r)
          \<lparr>mAllocations := Suc (mAllocations r)\<rparr>)"

lemma restore_bump:
  "\<exists>t. bumpToBallot D x True (recorded e (initSlot L i)) = Inr t \<and>
     ballot_vars t = (Some x, None, None, None, None, SCP_PHASE_PREPARE)"
proof -
  have B: "mBallotProtocol (recorded e (initSlot L i)) =
      initBallotProtocol\<lparr>mLatestEnvelopes := [(nodeID (statement e), e)], mLastEnvelope := Some (0, e),
        mLastEnvelopeEmit := Some (0, e)\<rparr>"
    by (simp add: Let_def recordEnvelope_def recordStatement_def initBallotProtocol_def initSlot_def)
  from bumpToBallot_returns [of "recorded e (initSlot L i)" x D] show ?thesis
    unfolding ballot_vars_def B by (auto simp: initBallotProtocol_def ballot_opt_le_def)
qed

lemma restore_prepare:
  assumes "pledges (statement e) = Prepare p"
  shows "\<exists>s. setStateFromEnvelope D e (initSlot L i) = Inr s \<and> ballot_vars s =
    (Some (p_ballot p), p_prepared p, p_preparedPrime p,
     if p_nH p \<noteq> 0 then Some (SCPBallot (p_nH p) (bvalue (p_ballot p))) else None,
     if p_nC p \<noteq> 0 then Some (SCPBallot (p_nC p) (bvalue (p_ballot p))) else None, SCP_PHASE_PREPARE)"
  using restore_bump [of D "p_ballot p" e L i] assms
  by (auto simp: setStateFromEnvelope_def Let_def ballot_vars_def initBallotProtocol_def split: option.split)

lemma restore_confirm:
  assumes "pledges (statement e) = Confirm c"
  shows "\<exists>s. setStateFromEnvelope D e (initSlot L i) = Inr s \<and> ballot_vars s =
    (Some (c_ballot c), Some (SCPBallot (c_nPrepared c) (bvalue (c_ballot c))), None,
     Some (SCPBallot (c_nH c) (bvalue (c_ballot c))), Some (SCPBallot (c_nCommit c) (bvalue (c_ballot c))),
     SCP_PHASE_CONFIRM)"
  using restore_bump [of D "c_ballot c" e L i] assms
  by (auto simp: setStateFromEnvelope_def Let_def ballot_vars_def initBallotProtocol_def)

lemma restore_externalize:
  assumes "pledges (statement e) = Externalize x"
  shows "\<exists>s. setStateFromEnvelope D e (initSlot L i) = Inr s \<and> ballot_vars s =
    (Some (SCPBallot UINT32_MAX (bvalue (e_commit x))), Some (SCPBallot UINT32_MAX (bvalue (e_commit x))), None,
     Some (SCPBallot (e_nH x) (bvalue (e_commit x))), Some (e_commit x), SCP_PHASE_EXTERNALIZE)"
  using restore_bump [of D "SCPBallot UINT32_MAX (bvalue (e_commit x))" e L i] assms
  by (auto simp: setStateFromEnvelope_def Let_def ballot_vars_def initBallotProtocol_def)

text \<open>
  What the statement of a state leaves of its variables: \<open>h\<close> and \<open>c\<close> are sent as counters only, for the value of \<open>b\<close>,
  and 0 stands for none; a CONFIRM statement has no \<open>p'\<close> and \<open>p\<close> as a counter only; an EXTERNALIZE statement has \<open>c\<close>
  and the counter of \<open>h\<close>, and the node comes back with the largest counter.
\<close>

definition at_value :: "Value \<Rightarrow> SCPBallot option \<Rightarrow> SCPBallot option" where
  "at_value v x = map_option (\<lambda>y. SCPBallot (counter y) v) x"

definition unless0 :: "SCPBallot option \<Rightarrow> SCPBallot option" where
  "unless0 x = (case x of None \<Rightarrow> None | Some y \<Rightarrow> if counter y = 0 then None else Some y)"

definition stated_vars where
  "stated_vars b s =
     (let v = bvalue b; w = the (commit_value s) in
      case phase s of
        SCP_PHASE_PREPARE \<Rightarrow>
          (Some b, ballot_p s, ballot_pp s, unless0 (at_value v (ballot_h s)), unless0 (at_value v (ballot_c s)), SCP_PHASE_PREPARE)
      | SCP_PHASE_CONFIRM \<Rightarrow> (Some b, at_value v (ballot_p s), None, at_value v (ballot_h s), at_value v (ballot_c s), SCP_PHASE_CONFIRM)
      | SCP_PHASE_EXTERNALIZE \<Rightarrow>
          (Some (SCPBallot UINT32_MAX w), Some (SCPBallot UINT32_MAX w), None, at_value w (ballot_h s), ballot_c s, SCP_PHASE_EXTERNALIZE))"

lemma restore_stated:
  assumes b: "ballot_b s = Some b" and create: "createStatement D L (phase s) s = Inr st" and e: "pledges (statement e) = st"
  shows "\<exists>s'. setStateFromEnvelope D e (initSlot L' i) = Inr s' \<and> ballot_vars s' = stated_vars b s"
proof (cases "phase s")
  case SCP_PHASE_PREPARE
  with create b have "st = Prepare \<lparr>p_quorumSetHash = mQSetHash L, p_ballot = b, p_prepared = ballot_p s,
      p_preparedPrime = ballot_pp s, p_nC = (case ballot_c s of None \<Rightarrow> 0 | Some c \<Rightarrow> counter c),
      p_nH = (case ballot_h s of None \<Rightarrow> 0 | Some h \<Rightarrow> counter h)\<rparr>"
    by (auto simp: createStatement_def bindE_Inr_iff)
  from restore_prepare [OF e [unfolded this], of D L' i] show ?thesis
    using SCP_PHASE_PREPARE by (auto simp: stated_vars_def unless0_def at_value_def Let_def split: option.splits)
next
  case SCP_PHASE_CONFIRM
  with create b obtain p c h where "ballot_p s = Some p" "ballot_c s = Some c" "ballot_h s = Some h"
    and "st = Confirm \<lparr>c_ballot = b, c_nPrepared = counter p, c_nCommit = counter c, c_nH = counter h,
            c_quorumSetHash = mQSetHash L\<rparr>"
    by (auto simp: createStatement_def bindE_Inr_iff)
  with SCP_PHASE_CONFIRM restore_confirm [OF e [unfolded this(4)], of D L' i] show ?thesis
    by (simp add: stated_vars_def at_value_def Let_def)
next
  case SCP_PHASE_EXTERNALIZE
  with create obtain c h where "ballot_c s = Some c" "ballot_h s = Some h"
    and "st = Externalize \<lparr>e_commit = c, e_nH = counter h, e_commitQuorumSetHash = mQSetHash L\<rparr>"
    by (auto simp: createStatement_def bindE_Inr_iff)
  with SCP_PHASE_EXTERNALIZE restore_externalize [OF e [unfolded this(3)], of D L' i] show ?thesis
    by (simp add: stated_vars_def at_value_def commit_value_def Let_def)
qed

text \<open>With the assertions compiled in, a state that has a commit ballot has made sure that \<open>h\<close> and \<open>c\<close> have the value of \<open>b\<close>.\<close>

lemma checkInvariants_values:
  assumes "checkInvariants D s = Inr u" "\<not> NDEBUG D" "ballot_c s = Some c"
  shows "\<exists>h b. ballot_h s = Some h \<and> ballot_b s = Some b \<and> bvalue c = bvalue h \<and> bvalue h = bvalue b"
  using assms by (auto simp: checkInvariants_def dbgAssert_def bindE_Inr_iff areBallotsLessAndCompatible_def areBallotsCompatible_def
      split: option.splits sum.splits if_splits prod.splits)

end
