(* ===== verification/Closest_Blocking.thy ===== *)
theory Closest_Blocking
  imports Quorum_Logic
begin

text \<open>
  \<^verbatim>\<open>LocalNode::findClosestVBlocking\<close>: given the nodes that agree, it returns nodes among them whose
  failure, together with the nodes that do not agree, blocks the quorum set; it returns none exactly
  when the quorum set is blocked already. The second half: the weight of a node computed in machine
  arithmetic is the exact one.
\<close>

section \<open>The loops\<close>

lemma blocked_by_mono: "blocked_by q S \<Longrightarrow> S \<subseteq> T \<Longrightarrow> blocked_by q T"
proof (induction q S rule: blocked_by.induct)
  case (1 thr v i S)
  have "count_if (\<lambda>n. n \<in> S) v \<le> count_if (\<lambda>n. n \<in> T) v"
    using "1.prems"(2) by (intro count_mono) auto
  moreover have "count_if (\<lambda>q. blocked_by q S) i \<le> count_if (\<lambda>q. blocked_by q T) i"
    using 1 by (intro count_mono) auto
  ultimately show ?case using "1.prems"(1) by simp
qed

text \<open>A countdown on a word: it meets zero exactly when there are enough hits.\<close>

lemma closest_validators_result:
  "left \<noteq> 0 \<Longrightarrow>
   (case closest_validators N None v left res of
      None \<Rightarrow> unat left \<le> count_if (\<lambda>n. n \<notin> set N) v
    | Some (left', res') \<Rightarrow>
        count_if (\<lambda>n. n \<notin> set N) v < unat left \<and>
        unat left' = unat left - count_if (\<lambda>n. n \<notin> set N) v \<and>
        res' = res @ filter (\<lambda>n. n \<in> set N) v)"
proof (induction v arbitrary: left res)
  case Nil
  then show ?case by (simp add: unat_gt_0)
next
  case (Cons x v)
  consider "x \<in> set N" | "x \<notin> set N" "left = 1" | "x \<notin> set N" "left - 1 \<noteq> 0" by fastforce
  then show ?case
  proof cases
    case 1
    with Cons.IH [OF Cons.prems, of "res @ [x]"] show ?thesis
      by (auto split: option.splits)
  next
    case 2
    then show ?thesis by simp
  next
    case 3
    have "unat (left - 1) = unat left - 1"
      using Cons.prems by (rule unat_minus_one)
    with Cons.IH [OF 3(2), of res] 3 show ?thesis
      by (auto split: option.splits)
  qed
qed

lemma mset_emplace_by_size [simp]: "mset (emplace_by_size v ms) = add_mset v (mset ms)"
  by (simp add: emplace_by_size_def) (metis mset_append takeWhile_dropWhile_id)

lemma closest_inner_result:
  "left \<noteq> 0 \<Longrightarrow>
   (case closest_inner vs left acc of
      None \<Rightarrow> unat left \<le> count_if (\<lambda>v. v = []) vs
    | Some (left', acc') \<Rightarrow>
        count_if (\<lambda>v. v = []) vs < unat left \<and>
        unat left' = unat left - count_if (\<lambda>v. v = []) vs \<and>
        mset acc' = mset acc + mset (filter (\<lambda>v. v \<noteq> []) vs))"
proof (induction vs arbitrary: left acc)
  case Nil
  then show ?case by (simp add: unat_gt_0)
next
  case (Cons x vs)
  consider "x \<noteq> []" | "x = []" "left = 1" | "x = []" "left - 1 \<noteq> 0" by fastforce
  then show ?case
  proof cases
    case 1
    with Cons.IH [OF Cons.prems, of "emplace_by_size x acc"] show ?thesis
      by (auto split: option.splits)
  next
    case 2
    then show ?thesis by simp
  next
    case 3
    have "unat (left - 1) = unat left - 1"
      using Cons.prems by (rule unat_minus_one)
    with Cons.IH [OF 3(2), of acc] 3 show ?thesis
      by (auto split: option.splits)
  qed
qed

lemma closest_take_result: "closest_take vs left res = res @ concat (take (unat left) vs)"
proof (induction vs arbitrary: left res)
  case (Cons v vs)
  show ?case
  proof (cases "left = 0")
    case False
    then have "unat (left - 1) = unat left - 1" "unat left \<noteq> 0"
      by (auto simp: unat_minus_one unat_eq_0)
    with Cons.IH [of "left - 1" "res @ v"] False show ?thesis
      by (cases "unat left") simp_all
  qed simp
qed simp

section \<open>The result blocks\<close>

text \<open>The number of top-level items that must fail.\<close>

lemma left_till_block:
  assumes "1 \<le> unat thr" "unat thr \<le> n" "n < 2 ^ 31"
  shows "unat ((1 + of_nat n) - (ucast (thr :: uint32) :: uint64)) = n + 1 - unat thr"
proof -
  have "unat (ucast thr :: uint64) = unat thr"
    by (rule unat_ucast_widen) simp
  then have "(ucast thr :: uint64) = of_nat (unat thr)"
    by (metis of_nat_unat)
  then have "(1 + of_nat n) - (ucast thr :: uint64) = of_nat (n + 1 - unat thr)"
    using assms(2) by (simp add: of_nat_diff)
  moreover have "n + 1 - unat thr < 2 ^ 64" using assms(3) by simp
  ultimately show ?thesis by (simp add: unat_of_nat take_bit_eq_mod)
qed

definition closest_ok :: "SCPQuorumSet \<Rightarrow> NodeID list \<Rightarrow> NodeID list \<Rightarrow> bool" where
  "closest_ok q N R \<longleftrightarrow>
     set R \<subseteq> set N \<and> blocked_by q (- set N \<union> set R) \<and> (R = [] \<longleftrightarrow> blocked_by q (- set N))"

text \<open>What one level returns, in numbers.\<close>

lemma closest_level:
  fixes N :: "NodeID list"
  assumes "1 \<le> unat thr" "unat thr \<le> length v + length i" "length v + length i < 2 ^ 31"
  defines "miss \<equiv> count_if (\<lambda>n. n \<notin> set N) v"
    and "rs \<equiv> map (\<lambda>q. findClosestVBlocking q N None) i"
    and "need \<equiv> length v + length i + 1 - unat thr"
  shows "(if need \<le> miss + count_if (\<lambda>r. r = []) rs
     then findClosestVBlocking (SCPQuorumSet thr v i) N None = []
     else \<exists>ms k. mset ms = mset (filter (\<lambda>r. r \<noteq> []) rs) \<and>
       k = need - (miss + count_if (\<lambda>r. r = []) rs) \<and>
       findClosestVBlocking (SCPQuorumSet thr v i) N None =
         take k (filter (\<lambda>n. n \<in> set N) v) @
         concat (take (k - length (filter (\<lambda>n. n \<in> set N) v)) ms))"
proof -
  let ?w = "(1 + of_nat (length v) + of_nat (length i)) - (ucast thr :: uint64)"
  let ?res = "filter (\<lambda>n. n \<in> set N) v"
  have w: "unat ?w = need"
    using left_till_block [OF assms(1-3)] by (simp add: need_def add.assoc)
  have nz: "?w \<noteq> 0" using w assms(2) by (auto simp: need_def simp flip: unat_eq_0)
  show ?thesis
  proof (cases "closest_validators N None v ?w []")
    case None
    with closest_validators_result [OF nz, of N v "[]"] w show ?thesis
      by (simp add: miss_def)
  next
    case (Some p)
    obtain l res where p: "p = (l, res)" by fastforce
    with Some closest_validators_result [OF nz, of N v "[]"] w
    have l: "miss < need" "unat l = need - miss" "res = ?res" by (simp_all add: miss_def)
    then have lnz: "l \<noteq> 0" by (auto simp flip: unat_eq_0)
    show ?thesis
    proof (cases "closest_inner rs l []")
      case None
      with closest_inner_result [OF lnz, of rs "[]"] l have "need \<le> miss + count_if (\<lambda>r. r = []) rs"
        by simp
      moreover have "findClosestVBlocking (SCPQuorumSet thr v i) N None = []"
        using None Some p by (simp add: rs_def)
      ultimately show ?thesis by (simp del: findClosestVBlocking.simps)
    next
      case inner: (Some p')
      obtain l' ms where p': "p' = (l', ms)" by fastforce
      with inner closest_inner_result [OF lnz, of rs "[]"] l
      have l': "count_if (\<lambda>r. r = []) rs < need - miss" "mset ms = mset (filter (\<lambda>r. r \<noteq> []) rs)"
        "unat l' = need - (miss + count_if (\<lambda>r. r = []) rs)" by simp_all
      have small: "length ?res < 2 ^ 64"
        by (rule le_less_trans [OF length_filter_le]) (use assms(3) in simp)
      have u: "unat (of_nat (length ?res) :: uint64) = length ?res"
        using small by (intro unat_of_nat_small) simp
      have cut: "(if of_nat (length ?res) > l' then take (unat l') ?res else ?res) = take (unat l') ?res"
        by (simp add: word_less_nat_alt u)
      have "unat (of_nat (length (take (unat l') ?res)) :: uint64) = min (unat l') (length ?res)"
        using small by (subst unat_of_nat_small) auto
      then have rest: "unat (l' - of_nat (length (take (unat l') ?res))) = unat l' - length ?res"
        by (subst unat_sub) (auto simp: word_le_nat_alt)
      have "findClosestVBlocking (SCPQuorumSet thr v i) N None =
          take (unat l') ?res @ concat (take (unat l' - length ?res) ms)"
        using Some p inner p' l(3) cut rest by (simp add: rs_def Let_def closest_take_result)
      moreover have "\<not> need \<le> miss + count_if (\<lambda>r. r = []) rs"
        using l'(1) by simp
      ultimately show ?thesis
        using l'(2,3) by (auto simp del: findClosestVBlocking.simps)
    qed
  qed
qed

lemma count_chosen:
  assumes "mset c \<subseteq># mset (filter P (map f xs))"
  shows "length c \<le> count_if (\<lambda>x. P (f x) \<and> f x \<in> set c) xs"
proof -
  have "mset c = filter_mset (\<lambda>x. x \<in> set c) (mset c)"
    by (metis filter_mset_True multiset.set_map set_mset_mset filter_mset_cong)
  also have "\<dots> \<subseteq># filter_mset (\<lambda>x. x \<in> set c) (mset (filter P (map f xs)))"
    by (rule multiset_filter_mono [OF assms])
  also have "\<dots> = mset (filter (\<lambda>x. x \<in> set c) (filter P (map f xs)))"
    by (simp only: mset_filter)
  finally have "size (mset c) \<le> size (mset (filter (\<lambda>x. x \<in> set c) (filter P (map f xs))))"
    by (rule size_mset_mono)
  then show ?thesis
    by (simp add: filter_map comp_def conj_commute del: mset_filter mset_map)
qed

lemma count_disjoint:
  "(\<And>x. \<not> (P x \<and> Q x)) \<Longrightarrow> (\<And>x. x \<in> set xs \<Longrightarrow> P x \<or> Q x \<Longrightarrow> R x) \<Longrightarrow>
   count_if P xs + count_if Q xs \<le> count_if R xs"
  by (induction xs) (auto simp: Suc_le_eq le_SucI)

lemma closest_blocking_step:
  assumes IH: "\<And>q. q \<in> set i \<Longrightarrow> closest_ok q N (f q)"
    and ms: "mset ms = mset (filter (\<lambda>r. r \<noteq> []) (map f i))"
    and thr: "unat thr \<le> length v + length i" "1 \<le> unat thr"
    and need: "miss + e < length v + length i + 1 - unat thr"
      "k = length v + length i + 1 - unat thr - (miss + e)"
    and counts: "miss = count_if (\<lambda>n. n \<notin> set N) v" "e = count_if (\<lambda>r. r = []) (map f i)"
  defines "res \<equiv> filter (\<lambda>n. n \<in> set N) v"
  defines "R \<equiv> take k res @ concat (take (k - length res) ms)"
  shows "set R \<subseteq> set N \<and> R \<noteq> [] \<and> blocked_by (SCPQuorumSet thr v i) (- set N \<union> set R)"
proof -
  let ?ch = "take (k - length res) ms" and ?B = "- set N \<union> set R"
  have len_v: "miss + length res = length v"
    using count_compl [of "\<lambda>n. n \<in> set N" v] counts(1) by (simp add: res_def)
  have "length ms = count_if (\<lambda>r. r \<noteq> []) (map f i)"
    using ms by (metis size_mset)
  then have len_i: "e + length ms = length i"
    using count_compl [of "\<lambda>r. r = []" "map f i"] counts(2) by simp
  have k: "1 \<le> k" "k \<le> length res + length ms"
    using need len_v len_i thr by linarith+
  have ms_in: "m \<noteq> [] \<and> (\<exists>q \<in> set i. m = f q)" if "m \<in> set ms" for m
  proof -
    have "m \<in># mset (filter (\<lambda>r. r \<noteq> []) (map f i))" using that ms by (metis set_mset_mset)
    then show ?thesis by auto
  qed
  have sub: "set R \<subseteq> set N"
    using ms_in IH by (fastforce simp: R_def res_def closest_ok_def dest!: in_set_takeD)
  have "R \<noteq> []"
  proof (cases "res = []")
    case True
    with k obtain m ms' where "ms = m # ms'" by (cases ms) auto
    with True k ms_in show ?thesis by (cases k) (auto simp: R_def)
  next
    case False
    with k show ?thesis by (cases k) (auto simp: R_def)
  qed
  have "length (take k res) \<le> count_if (\<lambda>n. n \<in> set N \<and> n \<in> set (take k res)) v"
    using count_chosen [of "take k res" "\<lambda>n. n \<in> set N" "\<lambda>n. n" v]
    by (simp add: res_def) (metis append_take_drop_id mset_append mset_subset_eq_add_left mset_filter)
  then have v: "miss + min k (length res) \<le> count_if (\<lambda>n. n \<in> ?B) v"
    using count_disjoint [of "\<lambda>n. n \<notin> set N" "\<lambda>n. n \<in> set N \<and> n \<in> set (take k res)" v "\<lambda>n. n \<in> ?B"]
    by (fastforce simp: counts(1) R_def)
  have "mset ?ch \<subseteq># mset (filter (\<lambda>r. r \<noteq> []) (map f i))"
    unfolding ms [symmetric] by (metis append_take_drop_id mset_append mset_subset_eq_add_left)
  from count_chosen [OF this]
  have chosen: "length ?ch \<le> count_if (\<lambda>q. f q \<noteq> [] \<and> f q \<in> set ?ch) i" .
  have "blocked_by q ?B" if q: "q \<in> set i" "f q = [] \<or> f q \<noteq> [] \<and> f q \<in> set ?ch" for q
  proof -
    have "blocked_by q (- set N \<union> set (f q))" using IH [OF q(1)] by (simp add: closest_ok_def)
    then show ?thesis by (rule blocked_by_mono) (use q(2) in \<open>auto simp: R_def\<close>)
  qed
  then have i: "e + min (k - length res) (length ms) \<le> count_if (\<lambda>q. blocked_by q ?B) i"
    using count_disjoint [of "\<lambda>q. f q = []" "\<lambda>q. f q \<noteq> [] \<and> f q \<in> set ?ch" i "\<lambda>q. blocked_by q ?B"] chosen
    by (simp add: counts(2) filter_map comp_def min.commute)
  have "length v + length i + 1 \<le> unat thr + (count_if (\<lambda>n. n \<in> ?B) v + count_if (\<lambda>q. blocked_by q ?B) i)"
    using v i k need by linarith
  with thr sub \<open>R \<noteq> []\<close> show ?thesis by simp
qed

lemma closest_blocking:
  "small_qset q \<Longrightarrow> thresholds_ok q \<Longrightarrow> closest_ok q N (findClosestVBlocking q N None)"
proof (induction q)
  case (SCPQuorumSet thr v i)
  let ?f = "\<lambda>q. findClosestVBlocking q N None"
  let ?miss = "count_if (\<lambda>n. n \<notin> set N) v" and ?e = "count_if (\<lambda>r. r = []) (map ?f i)"
  have IH: "closest_ok q N (?f q)" if "q \<in> set i" for q
    using that SCPQuorumSet by simp
  have thr: "1 \<le> unat thr" "unat thr \<le> length v + length i" "length v + length i < 2 ^ 31"
    using SCPQuorumSet.prems by simp_all
  have "count_if (\<lambda>q. blocked_by q (- set N)) i = count_if (\<lambda>q. ?f q = []) i"
    using IH by (intro count_cong) (simp add: closest_ok_def)
  then have now: "blocked_by (SCPQuorumSet thr v i) (- set N) \<longleftrightarrow>
      length v + length i + 1 - unat thr \<le> ?miss + ?e"
    using thr by (simp add: filter_map comp_def) linarith
  note level = closest_level [OF thr, of N]
  show ?case
  proof (cases "length v + length i + 1 - unat thr \<le> ?miss + ?e")
    case True
    with level now show ?thesis
      by (simp add: closest_ok_def del: findClosestVBlocking.simps blocked_by.simps)
  next
    case False
    with level obtain ms k where ms: "mset ms = mset (filter (\<lambda>r. r \<noteq> []) (map ?f i))"
      and k: "k = length v + length i + 1 - unat thr - (?miss + ?e)"
      and R: "findClosestVBlocking (SCPQuorumSet thr v i) N None =
         take k (filter (\<lambda>n. n \<in> set N) v) @ concat (take (k - count_if (\<lambda>n. n \<in> set N) v) ms)"
      by (auto simp del: findClosestVBlocking.simps)
    from closest_blocking_step [OF IH ms thr(2,1) _ k refl refl] False now show ?thesis
      unfolding closest_ok_def R by simp
  qed
qed

section \<open>Node weights\<close>

text \<open>The weight in exact arithmetic, rounded down at every level.\<close>

fun node_weight :: "NodeID \<Rightarrow> SCPQuorumSet \<Rightarrow> nat" where
  "node_weight n (SCPQuorumSet thr v i) =
     (let d = length v + length i
      in if n \<in> set v then (2 ^ 64 - 1) * unat thr div d
         else (case filter (\<lambda>w. w \<noteq> 0) (map (node_weight n) i) of
                 [] \<Rightarrow> 0
               | w # _ \<Rightarrow> w * unat thr div d))"

lemma bigDivide_weight:
  fixes thr :: uint32
  assumes "1 \<le> unat thr" "unat thr \<le> d" "d < 2 ^ 31"
  shows "\<exists>r. bigDivide_u64 A (ucast thr) (of_nat d) = Inr (True, r) \<and> unat r = unat A * unat thr div d \<and> r \<le> A"
proof -
  have t: "unat (ucast thr :: uint64) = unat thr"
    by (rule unat_ucast_widen) simp
  have d: "unat (of_nat d :: uint64) = d"
    using assms(3) by (intro unat_of_nat_small) simp
  have "of_nat d \<noteq> (0 :: uint64)" using d assms by (auto simp flip: unat_eq_0)
  moreover have "(ucast thr :: uint64) \<le> of_nat d" using assms by (simp only: word_le_nat_alt t d)
  ultimately show ?thesis
    using bigDivide_u64_fraction [of "of_nat d" "ucast thr" A] t d by simp
qed

lemma getNodeWeightInner_exact:
  fixes thr :: uint32
  assumes "1 \<le> unat thr" "unat thr \<le> d" "d < 2 ^ 31"
  shows "(\<And>q. q \<in> set i \<Longrightarrow> \<exists>w. getNodeWeight n q = Inr w \<and> unat w = node_weight n q) \<Longrightarrow>
    \<exists>w. getNodeWeightInner n (ucast thr) (of_nat d) i = Inr w \<and>
      unat w = (case filter (\<lambda>w. w \<noteq> 0) (map (node_weight n) i) of
                  [] \<Rightarrow> 0 | w # _ \<Rightarrow> w * unat thr div d)"
proof (induction i)
  case (Cons q i)
  obtain w where w: "getNodeWeight n q = Inr w" "unat w = node_weight n q" using Cons.prems by auto
  show ?case
  proof (cases "w = 0")
    case True
    with w Cons show ?thesis by (auto simp: unat_eq_0)
  next
    case False
    with w(2) have "node_weight n q \<noteq> 0" by (metis unat_eq_0)
    with w False bigDivide_weight [OF assms, of w] show ?thesis by auto
  qed
qed simp

lemma getNodeWeight_exact:
  "small_qset q \<Longrightarrow> thresholds_ok q \<Longrightarrow> \<exists>w. getNodeWeight n q = Inr w \<and> unat w = node_weight n q"
proof (induction q)
  case (SCPQuorumSet thr v i)
  let ?d = "length v + length i"
  have thr: "1 \<le> unat thr" "unat thr \<le> ?d" "?d < 2 ^ 31"
    using SCPQuorumSet.prems by simp_all
  have d: "of_nat (length i) + of_nat (length v) = (of_nat ?d :: uint64)" by simp
  have IH: "\<exists>w. getNodeWeight n q = Inr w \<and> unat w = node_weight n q" if "q \<in> set i" for q
    using that SCPQuorumSet by simp
  have max: "unat UINT64_MAX = 2 ^ 64 - 1" by simp
  show ?case
  proof (cases "n \<in> set v")
    case True
    with bigDivide_weight [OF thr, of UINT64_MAX] show ?thesis
      unfolding getNodeWeight.simps Let_def d max by (auto simp: Let_def)
  next
    case False
    with getNodeWeightInner_exact [OF thr IH] show ?thesis
      unfolding getNodeWeight.simps Let_def d by (simp add: Let_def)
  qed
qed

lemma node_weight_outside: "n \<notin> set (qset_nodes q) \<Longrightarrow> node_weight n q = 0"
proof (induction q)
  case (SCPQuorumSet thr v i)
  then have "filter (\<lambda>w. w \<noteq> 0) (map (node_weight n) i) = []"
    by (auto simp: filter_empty_conv)
  with SCPQuorumSet.prems show ?case by (simp add: Let_def)
qed

end
