(* ===== verification/Nomination_Leaders.thy ===== *)
theory Nomination_Leaders
  imports Nomination_Safety Quorum_Search Closest_Blocking
begin

text \<open>
  Who leads a nomination round, and what value is taken from a leader: the leaders are the nodes of
  the local quorum set with the highest positive priority, and the value taken is the one with the
  highest hash among those the node does not vote for yet.
\<close>

section \<open>Leaders\<close>

text \<open>The priority of a node, when the hash of the previous value is defined.\<close>

definition priority :: "SCPDriver \<Rightarrow> Slot \<Rightarrow> SCPQuorumSet \<Rightarrow> NodeID \<Rightarrow> uint64" where
  "priority D s q n =
     (let N = mNominationProtocol s;
          h = (\<lambda>p. computeHashNode D (mSlotIndex s) (mPreviousValue N) p (mRoundNumber N) n)
      in if unat (h False) < node_weight n q then h True else 0)"

lemma getNodePriority_eq:
  assumes "small_qset q" "thresholds_ok q" "mPreviousValue (mNominationProtocol s) \<noteq> []"
  shows "getNodePriority D s n q = Inr (priority D s q n)"
proof -
  obtain w where "getNodeWeight n q = Inr w" "unat w = node_weight n q"
    using getNodeWeight_exact [OF assms(1,2)] by blast
  with assms(3) show ?thesis
    by (simp add: getNodePriority_def hashNode_def priority_def Let_def word_less_nat_alt)
qed

text \<open>After the nodes in \<open>P\<close>: the highest priority among them, and who has it.\<close>

definition leaders_of :: "(NodeID \<Rightarrow> uint64) \<Rightarrow> NodeID set \<Rightarrow> uint64 \<Rightarrow> NodeID list \<Rightarrow> bool" where
  "leaders_of pr P hi ls \<longleftrightarrow>
     strict_sorted ls \<and> (\<forall>n \<in> P. pr n \<le> hi) \<and> (hi \<noteq> 0 \<longrightarrow> (\<exists>n \<in> P. pr n = hi)) \<and>
     set ls = {n \<in> P. pr n = hi \<and> 0 < hi}"

lemma considerLeader_step:
  assumes "getNodePriority D s c q = Inr (pr c)" and "leaders_of pr P hi ls"
  shows "\<exists>hi' ls'. considerLeader D s q c (Inr (hi, ls)) = Inr (hi', ls') \<and>
    leaders_of pr (insert c P) hi' ls'"
proof -
  consider "pr c > hi" | "pr c = hi" | "pr c < hi" by fastforce
  then show ?thesis
  proof cases
    case 1
    then have "0 < pr c" by (metis le_less_trans word_zero_le)
    with 1 assms show ?thesis
      by (force simp: considerLeader_def leaders_of_def Let_def)
  next
    case 2
    with assms show ?thesis
      by (auto simp: considerLeader_def leaders_of_def Let_def strict_sorted_set_insert)
  next
    case 3
    with assms show ?thesis
      by (auto simp: considerLeader_def leaders_of_def Let_def)
  qed
qed

lemma fold_considerLeader:
  "(\<And>n. n \<in> set ns \<Longrightarrow> getNodePriority D s n q = Inr (pr n)) \<Longrightarrow> leaders_of pr P hi ls \<Longrightarrow>
   \<exists>hi' ls'. fold (considerLeader D s q) ns (Inr (hi, ls)) = Inr (hi', ls') \<and>
     leaders_of pr (set ns \<union> P) hi' ls'"
proof (induction ns arbitrary: P hi ls)
  case (Cons c ns)
  obtain hi' ls' where step: "considerLeader D s q c (Inr (hi, ls)) = Inr (hi', ls')"
    "leaders_of pr (insert c P) hi' ls'"
    using considerLeader_step [of D s c q pr P hi ls] Cons.prems by auto
  from Cons.IH [OF _ step(2)] Cons.prems(1) step(1) show ?case by auto
qed auto

lemma leaders_of_max:
  assumes "leaders_of pr V hi ls"
  shows "set ls = {n \<in> V. 0 < pr n \<and> (\<forall>m \<in> V. pr m \<le> pr n)}"
proof (intro set_eqI iffI)
  fix n assume "n \<in> set ls"
  with assms show "n \<in> {n \<in> V. 0 < pr n \<and> (\<forall>m \<in> V. pr m \<le> pr n)}"
    by (simp add: leaders_of_def)
next
  fix n assume n: "n \<in> {n \<in> V. 0 < pr n \<and> (\<forall>m \<in> V. pr m \<le> pr n)}"
  then have le: "pr n \<le> hi" using assms by (simp add: leaders_of_def)
  with n have pos: "0 < hi" by auto
  then obtain m where "m \<in> V" "pr m = hi" using assms by (auto simp: leaders_of_def)
  with n have "hi \<le> pr n" by auto
  with le n pos assms show "n \<in> set ls" by (auto simp: leaders_of_def)
qed

lemma updateRoundLeaders_leaders:
  fixes D :: SCPDriver
  assumes "small_qset (mQSet L)" "thresholds_ok (mQSet L)" "mPreviousValue (mNominationProtocol s) \<noteq> []"
  defines "pr \<equiv> priority D s (mQSet L)" and "V \<equiv> set (qset_nodes (mQSet L))"
  shows "\<exists>ls. updateRoundLeaders D L s = Inr (upd_nom (mRoundLeaders_update (\<lambda>_. ls)) s) \<and>
    strict_sorted ls \<and> set ls = {n \<in> V. 0 < pr n \<and> (\<forall>m \<in> V. pr m \<le> pr n)}"
proof -
  let ?ns = "firsts [] (qset_nodes (mQSet L))"
  have V: "set ?ns = V" by (simp add: set_firsts V_def)
  have "leaders_of pr {} 0 []" by (simp add: leaders_of_def)
  from fold_considerLeader [OF _ this, of ?ns D s "mQSet L"] getNodePriority_eq [OF assms(1-3)] V
  obtain hi ls where run: "fold (considerLeader D s (mQSet L)) ?ns (Inr (0, [])) = Inr (hi, ls)"
    and ls: "leaders_of pr V hi ls" unfolding pr_def by auto
  have "set ls = {n \<in> V. 0 < pr n \<and> (\<forall>m \<in> V. pr m \<le> pr n)}"
    by (rule leaders_of_max [OF ls])
  with run ls show ?thesis
    by (auto simp: updateRoundLeaders_def forAllNodes_fold leaders_of_def)
qed

end
