(* ===== verification/Quorum_Properties.thy ===== *)
theory Quorum_Properties
  imports Closest_Blocking Quorum_Search
begin

text \<open>
  The properties of \<^verbatim>\<open>LocalNode\<close> and of the arithmetic it uses, each with an instance on a concrete
  quorum set.
\<close>

definition sample_qset :: SCPQuorumSet where
  "sample_qset = SCPQuorumSet 2 [[1], [2]] [SCPQuorumSet 1 [[3], [4]] []]"

definition sample_messages :: "(NodeID \<times> SCPQuorumSet) list" where
  "sample_messages = [([1], sample_qset), ([2], sample_qset), ([3], sample_qset)]"

lemmas sample_defs = sample_qset_def sample_messages_def

text \<open>
  The slice test of the code counts down a 32-bit threshold over validators and inner sets and
  stops early. It decides exactly whether the given nodes contain a quorum slice, for every threshold,
  zero included.
\<close>

theorem slice_test_correct:
  assumes "small_qset q"
  shows "isQuorumSlice q N \<longleftrightarrow> has_slice q (set N)"
  using assms by (simp add: slice_defs)

theorem slice_test_correct_witness:
  "small_qset sample_qset \<and> isQuorumSlice sample_qset [[2], [4]] \<and> has_slice sample_qset {[2], [4]} \<and>
   \<not> isQuorumSlice sample_qset [[3], [4]]"
  using slice_test_correct [of sample_qset "[[2], [4]]"] slice_test_correct [of sample_qset "[[3], [4]]"]
  by (simp add: sample_defs)

text \<open>
  C34. For a quorum set that passes \<^verbatim>\<open>isQuorumSetSane\<close>, the v-blocking test (a signed 32-bit countdown
  from a 64-bit difference) decides exactly whether the given nodes meet every quorum slice.
\<close>

theorem v_blocking_correct:
  assumes "small_qset q" and "isQuorumSetSane q extra"
  shows "isVBlocking q N \<longleftrightarrow> (\<forall>T. has_slice q T \<longrightarrow> T \<inter> set N \<noteq> {})"
  using assms blocking_iff_meets [of q "set N"] by (simp add: isQuorumSetSane_iff vblocking_defs)

theorem v_blocking_correct_witness:
  "isQuorumSetSane sample_qset False \<and> isVBlocking sample_qset [[1], [2]] \<and>
   \<not> (\<exists>T. has_slice sample_qset T \<and> T \<inter> {[1], [2]} = {})"
proof -
  have sane: "small_qset sample_qset" "isQuorumSetSane sample_qset False"
    by (simp_all add: sample_defs isQuorumSetSane_def)
  moreover have "isVBlocking sample_qset [[1], [2]]" by code_simp
  ultimately show ?thesis
    using v_blocking_correct [OF sane, of "[[1], [2]]"] by auto
qed

text \<open>
  C10. \<^verbatim>\<open>isQuorum\<close> terminates and, when the quorum set of every message that passes the filter is known,
  returns whether some set of those nodes is a quorum (each member has a slice inside the set) that
  contains a slice of the given quorum set. The repeated filtering of the code does not lose a quorum.
\<close>

theorem quorum_test_correct:
  assumes "map_ok m" and "quorum_sets_known m qfun f" and "small_qset qSet"
  shows "isQuorum qSet m qfun f =
    Inr (\<exists>U \<subseteq> set (filter_nodes m f).
      (\<forall>n \<in> U. \<exists>q. qset_of m qfun n = Some q \<and> has_slice q U) \<and> has_slice qSet U)"
  using isQuorum_result [OF assms] by (simp add: qset.closed_def)

theorem quorum_test_correct_witness:
  "isQuorum sample_qset sample_messages Some (\<lambda>q. True) =
    Inr (\<exists>U \<subseteq> {[1], [2], [3]}. (\<forall>n \<in> U. \<exists>q. qset_of sample_messages Some n = Some q \<and> has_slice q U) \<and>
      has_slice sample_qset U)"
  using quorum_test_correct [of sample_messages Some "\<lambda>q. True" sample_qset]
  by (simp add: sample_defs quorum_sets_known_def filter_nodes_def)

text \<open>
  \<^verbatim>\<open>isQuorumSetSane\<close> accepts exactly the quorum sets in which every threshold is between one and
  the number of entries of its level, no node occurs twice anywhere and, with the extra checks, every
  level asks for more than half of its entries.
\<close>

theorem sanity_correct:
  assumes "small_qset q"
  shows "isQuorumSetSane q extra \<longleftrightarrow>
    thresholds_ok q \<and> (extra \<longrightarrow> majority_ok q) \<and> distinct (qset_nodes q)"
  using assms by (rule isQuorumSetSane_iff)

theorem sanity_correct_witness:
  "small_qset sample_qset \<and>
   (isQuorumSetSane sample_qset True \<longleftrightarrow>
     thresholds_ok sample_qset \<and> (True \<longrightarrow> majority_ok sample_qset) \<and> distinct (qset_nodes sample_qset)) \<and>
   \<not> isQuorumSetSane sample_qset True"
  using sanity_correct [of sample_qset True] by (simp add: sample_defs)

text \<open>
  C35. Two quorum slices of a quorum set that passes the extra sanity checks have a node in common.
\<close>

theorem sane_slices_intersect:
  assumes "small_qset q" and "isQuorumSetSane q True" and "isQuorumSlice q A" and "isQuorumSlice q B"
  shows "set A \<inter> set B \<noteq> {}"
  using assms majority_slices_meet [of q "set A" "set B"] by (simp add: isQuorumSetSane_iff slice_defs)

theorem sane_slices_intersect_witness:
  "isQuorumSetSane (SCPQuorumSet 2 [[1], [2], [3]] []) True \<and>
   set [[1], [2]] \<inter> set [[2], [3 :: uint8]] \<noteq> {}"
proof -
  have sane: "small_qset (SCPQuorumSet 2 [[1], [2], [3]] [])" "isQuorumSetSane (SCPQuorumSet 2 [[1], [2], [3]] []) True"
    by (simp, code_simp)
  have slices: "isQuorumSlice (SCPQuorumSet 2 [[1], [2], [3]] []) [[1], [2]]"
    "isQuorumSlice (SCPQuorumSet 2 [[1], [2], [3]] []) [[2], [3]]"
    by code_simp+
  show ?thesis
    using sane sane_slices_intersect [OF sane slices] by blast
qed

text \<open>
  Normalising a quorum set (merging singleton inner sets into the validators, unwrapping an inner
  set that stands alone) changes no slice test.
\<close>

theorem normalize_keeps_slices:
  assumes "small_qset q"
  shows "isQuorumSlice (normalizeQSet q) N \<longleftrightarrow> isQuorumSlice q N"
  using assms by (simp add: slice_defs small_normalizeQSet has_slice_normalizeQSet)

theorem normalize_keeps_slices_witness:
  "normalizeQSet (SCPQuorumSet 1 [] [SCPQuorumSet 2 [[1]] [SCPQuorumSet 1 [[2]] []]]) = SCPQuorumSet 2 [[1], [2]] [] \<and>
   (isQuorumSlice (normalizeQSet (SCPQuorumSet 1 [] [SCPQuorumSet 2 [[1]] [SCPQuorumSet 1 [[2]] []]])) [[1], [2]] \<longleftrightarrow>
    isQuorumSlice (SCPQuorumSet 1 [] [SCPQuorumSet 2 [[1]] [SCPQuorumSet 1 [[2]] []]]) [[1], [2]])"
  using normalize_keeps_slices [of "SCPQuorumSet 1 [] [SCPQuorumSet 2 [[1]] [SCPQuorumSet 1 [[2]] []]]" "[[1], [2]]"]
  by (simp add: is_singleton_set_def)

text \<open>
  \<^verbatim>\<open>isNodeInQuorum\<close> ends with a fuel of one more than the nodes that occur, in whatever order the
  backlog is worked off, and its answer is right: TRUE means the node is reached through the quorum
  sets of recorded statements, FALSE that it is not although every statement could be looked up, and
  MAYBE that it was not reached and some statement or quorum set is missing.
\<close>

theorem node_search_correct:
  assumes "picks pick" and "length (search_space qfun m r) < fuel"
  shows "\<exists>ans. isNodeInQuorum fuel pick r node qfun m = Inr ans \<and> search_answer qfun m r node ans"
proof -
  have "search_inv qfun m r node [r] [] TB_FALSE"
    by (simp add: search_inv_def transitively.here)
  moreover have "card (set (search_space qfun m r)) < fuel"
    using assms(2) card_length by (rule order.strict_trans1 [rotated])
  ultimately show ?thesis
    unfolding isNodeInQuorum_def using isNodeInQuorum_loop_correct [OF assms(1), of qfun m r node "[r]" "[]"] by simp
qed

theorem node_search_correct_witness:
  "\<exists>ans. isNodeInQuorum 6 (\<lambda>k xs. hd xs) [1] [4] Some [([1 :: uint8], [sample_qset])] = Inr ans \<and>
     search_answer Some [([1], [sample_qset])] [1] [4] ans"
  by (rule node_search_correct) (simp_all add: picks_def search_space_def sample_defs)

text \<open>
  \<^verbatim>\<open>findClosestVBlocking\<close> returns agreeing nodes whose failure, added to the nodes that do not
  agree, blocks the quorum set, and returns no node exactly when the quorum set is blocked already.
\<close>

theorem closest_blocking_correct:
  assumes "small_qset q" and "thresholds_ok q"
  shows "set (findClosestVBlocking q N None) \<subseteq> set N \<and>
    blocked_by q (- set N \<union> set (findClosestVBlocking q N None)) \<and>
    (findClosestVBlocking q N None = [] \<longleftrightarrow> blocked_by q (- set N))"
  using closest_blocking [OF assms] by (simp add: closest_ok_def)

theorem closest_blocking_correct_witness:
  "findClosestVBlocking sample_qset [[1], [2], [3], [4]] None = [[1], [2]] \<and>
   blocked_by sample_qset (- set [[1], [2], [3], [4]] \<union> set (findClosestVBlocking sample_qset [[1], [2], [3], [4]] None))"
proof -
  have "findClosestVBlocking sample_qset [[1], [2], [3], [4]] None = [[1], [2]]" by code_simp
  moreover have "small_qset sample_qset" "thresholds_ok sample_qset" by (simp_all add: sample_defs)
  ultimately show ?thesis
    using closest_blocking_correct [of sample_qset "[[1], [2], [3], [4]]"] by blast
qed

text \<open>
  The weight of a node is computed without error or overflow in 64-bit arithmetic, is the exact
  fraction rounded down at every level, and is zero for a node that is not in the quorum set.
\<close>

theorem node_weight_correct:
  assumes "small_qset q" and "thresholds_ok q"
  shows "\<exists>w. getNodeWeight n q = Inr w \<and> unat w = node_weight n q \<and> (n \<notin> set (qset_nodes q) \<longrightarrow> w = 0)"
proof -
  obtain w where w: "getNodeWeight n q = Inr w" "unat w = node_weight n q"
    using getNodeWeight_exact [OF assms] by blast
  then have "n \<notin> set (qset_nodes q) \<longrightarrow> w = 0"
    using node_weight_outside by (metis unat_eq_0)
  with w show ?thesis by blast
qed

theorem node_weight_correct_witness:
  "\<exists>w. getNodeWeight [3] sample_qset = Inr w \<and> unat w = node_weight [3] sample_qset \<and>
     ([3] \<notin> set (qset_nodes sample_qset) \<longrightarrow> w = 0)"
  by (rule node_weight_correct) (simp_all add: sample_defs)

text \<open>
  \<^verbatim>\<open>bigDivide\<close> on unsigned 64-bit arguments returns the exact quotient of the 128-bit product, and
  reports whether it fits in 64 bits; a fraction of at most one always fits.
\<close>

theorem bigDivide_exact:
  assumes "C \<noteq> 0"
  shows "bigDivide_u64 A B C =
      Inr (unat A * unat B div unat C < 2 ^ 64, of_nat (unat A * unat B div unat C)) \<and>
    (B \<le> C \<longrightarrow> unat A * unat B div unat C \<le> unat A)"
proof -
  have "unat A * unat B div unat C \<le> unat A" if "B \<le> C"
    using bigDivide_u64_fraction [OF assms that, of A] by (auto simp: word_le_nat_alt)
  then show ?thesis
    using bigDivide_u64_eq [OF assms] by (simp add: Let_def)
qed

theorem bigDivide_exact_witness:
  "bigDivide_u64 18446744073709551615 4 2 = Inr (False, 18446744073709551614)"
  using bigDivide_exact [of 2 18446744073709551615 4] by simp

end
