(* ===== verification/Sample.thy ===== *)
theory Sample
  imports SCP Ballot_Votes Nomination_Leaders Quorum_Properties
begin

text \<open>
  Small concrete networks on which the properties are instantiated: a driver that accepts every value,
  a network of one node, in which one request to bump the ballot runs the whole protocol up to
  EXTERNALIZE, and nodes restored from messages they sent before.
\<close>

definition driver_with :: "SCPQuorumSet \<Rightarrow> SCPDriver" where
  "driver_with q =
     \<lparr>NDEBUG = False, signEnvelope = \<lambda>_. [], verifyEnvelope = \<lambda>_. True, getQSet = \<lambda>_. Some q,
      validateValue = \<lambda>_ _. kFullyValidatedValue, extractValidValue = \<lambda>_ v. v,
      computeHashNode = \<lambda>_ _ _ _ _. 1, computeValueHash = \<lambda>_ _ _ _. 1,
      combineCandidates = \<lambda>_ vs. concat vs\<rparr>"

definition node_with :: "SCPQuorumSet \<Rightarrow> LocalNode" where
  "node_with q = \<lparr>mNodeID = [1], mIsValidator = True, mQSet = q, mQSetHash = []\<rparr>"

definition solo_qset :: SCPQuorumSet where "solo_qset = SCPQuorumSet 1 [[1]] []"
definition peer_qset :: SCPQuorumSet where "peer_qset = SCPQuorumSet 1 [[2]] []"
definition trio_qset :: SCPQuorumSet where "trio_qset = SCPQuorumSet 2 [[1], [2], [3]] []"

definition sample_fuel :: fuel where
  "sample_fuel = \<lparr>fuel_bumps = 2, fuel_ballot = 6, fuel_nomination = 3\<rparr>"

definition large_fuel :: fuel where
  "large_fuel = \<lparr>fuel_bumps = 2 ^ 33 + 1, fuel_ballot = 50, fuel_nomination = 100\<rparr>"

definition envelope_of :: "NodeID \<Rightarrow> 'p \<Rightarrow> 'p SCPEnvelope" where
  "envelope_of n p = \<lparr>statement = \<lparr>nodeID = n, slotIndex = 7, pledges = p\<rparr>, signature = []\<rparr>"

definition prepare_msg :: "SCPBallot \<Rightarrow> SCPBallot option \<Rightarrow> uint32 \<Rightarrow> uint32 \<Rightarrow> BallotPledges" where
  "prepare_msg b p nC nH = Prepare
     \<lparr>p_quorumSetHash = [], p_ballot = b, p_prepared = p, p_preparedPrime = None, p_nC = nC, p_nH = nH\<rparr>"

definition confirm_msg :: "SCPBallot \<Rightarrow> uint32 \<Rightarrow> uint32 \<Rightarrow> uint32 \<Rightarrow> BallotPledges" where
  "confirm_msg b nP nC nH = Confirm
     \<lparr>c_ballot = b, c_nPrepared = nP, c_nCommit = nC, c_nH = nH, c_quorumSetHash = []\<rparr>"

definition nominate_msg :: "Value list \<Rightarrow> Value list \<Rightarrow> SCPNomination" where
  "nominate_msg xs ys = \<lparr>n_quorumSetHash = [], n_votes = xs, n_accepted = ys\<rparr>"

lemmas sample_node_defs = driver_with_def node_with_def solo_qset_def peer_qset_def trio_qset_def
  envelope_of_def prepare_msg_def confirm_msg_def nominate_msg_def

section \<open>A network of one node\<close>

definition solo_run :: "scp_error + (bool \<times> Slot)" where
  "solo_run = Slot_bumpState (driver_with solo_qset) (node_with solo_qset) sample_fuel [10] True
     (initSlot (node_with solo_qset) 7)"

definition solo_final :: Slot where
  "solo_final = (case solo_run of Inr (_, s) \<Rightarrow> s | Inl _ \<Rightarrow> initSlot (node_with solo_qset) 7)"

lemma solo_run_result:
  "map_sum id (\<lambda>(r, s). (r, phase s, commit_value s, ext_values (mDriverCalls s))) solo_run =
     Inr (True, SCP_PHASE_EXTERNALIZE, Some [10], [[10]])"
  by code_simp

lemma solo_final_facts:
  "solo_run = Inr (True, solo_final)" "phase solo_final = SCP_PHASE_EXTERNALIZE"
  "commit_value solo_final = Some [10]" "ext_values (mDriverCalls solo_final) = [[10]]"
proof -
  have "\<exists>s. m = Inr (True, s) \<and> phase s = SCP_PHASE_EXTERNALIZE \<and> commit_value s = Some [10] \<and>
      ext_values (mDriverCalls s) = [[10]]"
    if "map_sum id (\<lambda>(r, s). (r, phase s, commit_value s, ext_values (mDriverCalls s))) m =
      Inr (True, SCP_PHASE_EXTERNALIZE, Some [10], [[10]])" for m
    using that by (cases m) auto
  from this [OF solo_run_result] obtain s where s: "solo_run = Inr (True, s)" "phase s = SCP_PHASE_EXTERNALIZE"
    "commit_value s = Some [10]" "ext_values (mDriverCalls s) = [[10]]" by blast
  have "solo_final = s" unfolding solo_final_def s(1) by simp
  with s show "solo_run = Inr (True, solo_final)" "phase solo_final = SCP_PHASE_EXTERNALIZE"
    "commit_value solo_final = Some [10]" "ext_values (mDriverCalls solo_final) = [[10]]" by simp_all
qed

lemma solo_step: "slot_step (driver_with solo_qset) (initSlot (node_with solo_qset) 7) solo_final"
  using solo_final_facts(1) unfolding solo_run_def by (rule slot_step.step_bump)

lemma solo_reachable: "slot_reachable (driver_with solo_qset) 7 solo_final"
  by (rule slot_reachable.reach_step [OF slot_reachable.reach_init solo_step])

end
