(* ===== verification/Ballot_Properties.thy ===== *)
theory Ballot_Properties
  imports Sample
begin

text \<open>
  The properties of the ballot protocol's functions and steps, and of nomination, with instances.
\<close>

section \<open>Ballots and statements\<close>

text \<open>
  \<^verbatim>\<open>compareBallots\<close> is a three-way comparison for the XDR order on ballots: its sign is the order, it
  is antisymmetric, and it is zero on equal ballots only.
\<close>

theorem compareBallots_order:
  "compareBallots a b \<in> {- 1, 0, 1} \<and> compareBallots b a = - compareBallots a b \<and>
   (compareBallots a b < 0 \<longleftrightarrow> a < b) \<and> (compareBallots a b = 0 \<longleftrightarrow> a = b)"
proof -
  have "compareBallots b a = - compareBallots a b \<and> compareBallots a b \<in> {- 1, 0, 1}"
    by (auto simp: compareBallots_def)
  then show ?thesis by simp
qed

text \<open>
  "Newer" is a strict order on ballot statements: a statement is never newer than itself, newer
  statements compose, and two statements are never each newer than the other. So a recorded message is
  never replaced by itself or by an older one.
\<close>

theorem newer_statement_order:
  assumes "isNewerStatement2 a b" and "isNewerStatement2 b c"
  shows "isNewerStatement2 a c \<and> \<not> isNewerStatement2 b a \<and> \<not> isNewerStatement2 a a"
  using assms ballot_order.newer_trans ballot_order.newer_asym ballot_order.newer_irrefl
  unfolding isNewerStatement2_def by blast

theorem newer_statement_order_witness:
  "isNewerStatement2 (statement (envelope_of [2] (prepare_msg (SCPBallot 1 [10]) None 0 0)))
     (statement (envelope_of [2] (confirm_msg (SCPBallot 2 [10]) 2 1 2)))"
proof -
  let ?st = "\<lambda>p. statement (envelope_of [2] p)"
  have "isNewerStatement2 (?st (prepare_msg (SCPBallot 1 [10]) None 0 0)) (?st (prepare_msg (SCPBallot 2 [10]) None 0 0))"
    "isNewerStatement2 (?st (prepare_msg (SCPBallot 2 [10]) None 0 0)) (?st (confirm_msg (SCPBallot 2 [10]) 2 1 2))"
    by (simp_all add: sample_node_defs isNewerStatement2_def less_SCPBallot_def)
  from newer_statement_order [OF this] show ?thesis by blast
qed

text \<open>
  The interval search of \<^verbatim>\<open>findExtendedInterval\<close> over the sorted boundaries returns, when it finds an
  interval, one that passes the test, whose ends are boundaries, and whose top is the highest boundary
  that passes on its own.
\<close>

theorem interval_search_correct:
  assumes "findExtendedInterval (0, 0) (getCommitBoundariesFromStatements ballot m) pred = Inr c" and "fst c \<noteq> 0"
  shows "pred c = Inr True \<and> fst c \<in> set (getCommitBoundariesFromStatements ballot m) \<and>
    snd c \<in> set (getCommitBoundariesFromStatements ballot m) \<and> fst c \<le> snd c \<and>
    (\<forall>b \<in> set (getCommitBoundariesFromStatements ballot m). snd c < b \<longrightarrow> pred (b, b) = Inr False)"
  using postD [OF findExtendedInterval_sound [OF boundaries_sorted] assms(1)] assms(2)
  by (simp add: interval_found_def)

definition sample_commits :: "(NodeID \<times> BallotEnvelope) list" where
  "sample_commits =
     [([2], envelope_of [2] (confirm_msg (SCPBallot 5 [10]) 5 2 4)),
      ([3], envelope_of [3] (confirm_msg (SCPBallot 5 [10]) 5 3 5))]"

definition sample_pred :: "Interval \<Rightarrow> scp_error + bool" where
  "sample_pred c = Inr (3 \<le> fst c \<and> snd c \<le> 4)"

theorem interval_search_correct_witness:
  "findExtendedInterval (0, 0) (getCommitBoundariesFromStatements (SCPBallot 5 [10]) sample_commits) sample_pred = Inr (3, 4) \<and>
   sample_pred (3, 4) = Inr True"
proof -
  have "findExtendedInterval (0, 0) (getCommitBoundariesFromStatements (SCPBallot 5 [10]) sample_commits) sample_pred = Inr (3, 4)"
    by code_simp
  with interval_search_correct [OF this] show ?thesis by simp
qed

section \<open>Federated voting\<close>

text \<open>
  C9. \<^verbatim>\<open>federatedAccept\<close> returns, without error, whether the nodes that accept the statement block the
  local quorum set or some quorum votes for or accepts it; this is how the white paper defines
  accepting. \<^verbatim>\<open>federatedRatify\<close> returns whether some quorum votes for it.
\<close>

theorem federated_voting_correct:
  assumes "voting_ok D L tag m"
  shows "federatedAccept D L tag voted acc m =
      Inr (blocked_by (mQSet L) (saying acc m) \<or>
        (\<exists>U \<subseteq> saying (\<lambda>st. acc st \<or> voted st) m.
          (\<forall>n \<in> U. \<exists>q. qset_of m (env_qset D tag) n = Some q \<and> has_slice q U) \<and> has_slice (mQSet L) U)) \<and>
    federatedRatify D L tag voted m =
      Inr (\<exists>U \<subseteq> saying voted m.
        (\<forall>n \<in> U. \<exists>q. qset_of m (env_qset D tag) n = Some q \<and> has_slice q U) \<and> has_slice (mQSet L) U)"
  using federatedAccept_iff [OF assms] federatedRatify_iff [OF assms]
  by (simp add: accepted_by_others_def ratified_def qset.closed_def)

lemma sample_voting_ok:
  "voting_ok (driver_with trio_qset) (node_with trio_qset) Ballot sample_commits"
  by (auto simp: voting_ok_def sample_commits_def sample_node_defs quorum_sets_known_def
      getQuorumSetFromStatement_def wire_statement_def)

theorem federated_voting_correct_witness:
  "federatedRatify (driver_with trio_qset) (node_with trio_qset) Ballot (\<lambda>st. True) sample_commits =
     Inr (\<exists>U \<subseteq> saying (\<lambda>st. True) sample_commits.
       (\<forall>n \<in> U. \<exists>q. qset_of sample_commits (env_qset (driver_with trio_qset) Ballot) n = Some q \<and> has_slice q U) \<and>
       has_slice (mQSet (node_with trio_qset)) U)"
  using federated_voting_correct [OF sample_voting_ok] by blast

text \<open>
  With majority thresholds everywhere in the local quorum set, what one node ratifies twice is
  said by a common node: two incompatible statements cannot both be ratified unless some node said
  both.
\<close>

theorem ratified_share_a_node:
  assumes "majority_ok (mQSet L)" and "voting_ok D L tag m"
    and "federatedRatify D L tag f m = Inr True" and "federatedRatify D L tag g m = Inr True"
  shows "\<exists>n e. map_of m n = Some e \<and> f (statement e) \<and> g (statement e)"
proof -
  have "ratified D L tag f m" "ratified D L tag g m"
    using assms(3,4) federatedRatify_iff [OF assms(2)] by simp_all
  from ratified_overlap [OF assms(1) this] show ?thesis
    by (auto simp: saying_def)
qed

theorem ratified_share_a_node_witness:
  "\<exists>n e. map_of sample_commits n = Some e \<and>
     hasPreparedBallot (SCPBallot 5 [10]) (pledges (statement e)) \<and>
     commitPredicate (SCPBallot 5 [10]) (3, 4) (pledges (statement e))"
proof (rule ratified_share_a_node [OF _ sample_voting_ok])
  show "majority_ok (mQSet (node_with trio_qset))" by (simp add: sample_node_defs)
qed code_simp+

section \<open>The steps of the protocol\<close>

definition accept_all :: self_process where
  "accept_all e self s = Inr (True, s)"

definition sample_prepares :: "(NodeID \<times> BallotEnvelope) list" where
  "sample_prepares =
     [([2], envelope_of [2] (prepare_msg (SCPBallot 3 [10]) (Some (SCPBallot 2 [10])) 1 2)),
      ([3], envelope_of [3] (prepare_msg (SCPBallot 3 [10]) (Some (SCPBallot 2 [10])) 1 2))]"

definition prepare_slot :: "SCPBallot option \<Rightarrow> Slot" where
  "prepare_slot p = upd_ballot (\<lambda>B. B\<lparr>mCurrentBallot := Some (SCPBallot 1 [10]), mPrepared := p,
     mLatestEnvelopes := sample_prepares\<rparr>) (initSlot (node_with trio_qset) 7)"

definition confirm_slot :: Slot where
  "confirm_slot = upd_ballot (\<lambda>B. B\<lparr>mPhase := SCP_PHASE_CONFIRM, mCurrentBallot := Some (SCPBallot 5 [10]),
     mPrepared := Some (SCPBallot 5 [10]), mHighBallot := Some (SCPBallot 4 [10]), mCommit := Some (SCPBallot 3 [10]),
     mLatestEnvelopes := sample_commits\<rparr>) (initSlot (node_with trio_qset) 7)"

abbreviation "trioD \<equiv> driver_with trio_qset"
abbreviation "trioL \<equiv> node_with trio_qset"

lemma latest_samples [simp]:
  "latest (prepare_slot p) = sample_prepares" "latest confirm_slot = sample_commits"
  by (simp_all add: prepare_slot_def confirm_slot_def)

lemma sample_prepares_voting_ok: "voting_ok trioD trioL Ballot sample_prepares"
  by (auto simp: voting_ok_def sample_prepares_def sample_node_defs quorum_sets_known_def
      getQuorumSetFromStatement_def wire_statement_def)

lemma map_sum_fst: "map_sum id fst m = Inr r \<Longrightarrow> \<exists>s. m = Inr (r, s)"
  by (cases m) auto

text \<open>
  A ballot is accepted as prepared (step 1 of the white paper) only for a reason: when
  \<^verbatim>\<open>attemptPreparedAccept\<close> does something, it is \<^verbatim>\<open>setPreparedAccept\<close> on a candidate that a blocking set
  has accepted as prepared or a quorum votes to prepare or has accepted.
\<close>

theorem prepared_accept_justified:
  assumes "voting_ok D L Ballot (latest s)" and "attemptPreparedAccept D L proc hint s = Inr (True, s')"
  shows "\<exists>b \<in> set (getPrepareCandidates hint (latest s)).
    accepted_by_others D L Ballot (\<lambda>st. b \<in> prepare_voted (pledges st)) (\<lambda>st. b \<in> prepare_accepted (pledges st)) (latest s) \<and>
    setPreparedAccept D L proc b s = Inr (True, s')"
  using attemptPreparedAccept_justified [OF assms] by (simp only: votesPrepare_iff hasPreparedBallot_iff)

theorem prepared_accept_justified_witness:
  "\<exists>s'. \<exists>b \<in> set (getPrepareCandidates (prepare_msg (SCPBallot 3 [10]) None 0 0) sample_prepares).
    accepted_by_others trioD trioL Ballot (\<lambda>st. b \<in> prepare_voted (pledges st)) (\<lambda>st. b \<in> prepare_accepted (pledges st)) sample_prepares \<and>
    setPreparedAccept trioD trioL accept_all b (prepare_slot None) = Inr (True, s')"
proof -
  have "map_sum id fst (attemptPreparedAccept trioD trioL accept_all (prepare_msg (SCPBallot 3 [10]) None 0 0)
      (prepare_slot None)) = Inr True" by code_simp
  from map_sum_fst [OF this] obtain s' where
    "attemptPreparedAccept trioD trioL accept_all (prepare_msg (SCPBallot 3 [10]) None 0 0) (prepare_slot None) = Inr (True, s')"
    by blast
  from prepared_accept_justified [OF _ this] show ?thesis
    by (auto simp: sample_prepares_voting_ok)
qed

text \<open>
  C30. A ballot is confirmed prepared, and a ballot is voted to commit (steps 2 and 3), only when a quorum
  has accepted it as prepared: both the new \<open>h\<close> and, if one is chosen, the new \<open>c\<close> are ratified.
\<close>

theorem prepared_confirm_justified:
  assumes "voting_ok D L Ballot (latest s)" and "attemptPreparedConfirmed D L proc hint s = Inr (True, s')"
  shows "\<exists>newH newC.
    ratified D L Ballot (\<lambda>st. newH \<in> prepare_accepted (pledges st)) (latest s) \<and>
    (counter newC \<noteq> 0 \<longrightarrow> ratified D L Ballot (\<lambda>st. newC \<in> prepare_accepted (pledges st)) (latest s)) \<and>
    setPreparedConfirmed D L proc newC newH s = Inr (True, s')"
  using attemptPreparedConfirmed_justified [OF assms] by (simp only: hasPreparedBallot_iff)

theorem prepared_confirm_justified_witness:
  "\<exists>s' newH newC.
    ratified trioD trioL Ballot (\<lambda>st. newH \<in> prepare_accepted (pledges st)) sample_prepares \<and>
    (counter newC \<noteq> 0 \<longrightarrow> ratified trioD trioL Ballot (\<lambda>st. newC \<in> prepare_accepted (pledges st)) sample_prepares) \<and>
    setPreparedConfirmed trioD trioL accept_all newC newH (prepare_slot (Some (SCPBallot 2 [10]))) = Inr (True, s')"
proof -
  let ?s = "prepare_slot (Some (SCPBallot 2 [10]))" and ?hint = "prepare_msg (SCPBallot 3 [10]) (Some (SCPBallot 2 [10])) 0 0"
  have "map_sum id fst (attemptPreparedConfirmed trioD trioL accept_all ?hint ?s) = Inr True" by code_simp
  from map_sum_fst [OF this] obtain s' where
    "attemptPreparedConfirmed trioD trioL accept_all ?hint ?s = Inr (True, s')" by blast
  from prepared_confirm_justified [OF _ this] show ?thesis
    by (auto simp: sample_prepares_voting_ok)
qed

text \<open>
  C4. A commit is accepted (step 4) only for an interval of counters that a blocking set has accepted
  to commit or a quorum votes to commit or has accepted, for the value of the hint; what a statement votes
  for and has accepted is its meaning in the white paper (\<open>commit_voted\<close>, \<open>commit_accepted\<close>).
\<close>

theorem commit_accept_justified:
  assumes "voting_ok D L Ballot (latest s)" and "attemptAcceptCommit D L proc hint s = Inr (True, s')"
  shows "\<exists>ballot c h. commitHint hint = Some ballot \<and> c \<noteq> 0 \<and> c \<le> h \<and>
    accepted_by_others D L Ballot (\<lambda>st. ballots_between (bvalue ballot) c h \<subseteq> commit_voted (pledges st))
      (\<lambda>st. ballots_between (bvalue ballot) c h \<subseteq> commit_accepted (pledges st)) (latest s) \<and>
    setAcceptCommit D L proc (SCPBallot c (bvalue ballot)) (SCPBallot h (bvalue ballot)) s = Inr (True, s')"
proof -
  obtain ballot c h where h: "c \<le> h" and rest: "commitHint hint = Some ballot" "c \<noteq> 0"
    "accepted_by_others D L Ballot (\<lambda>st. votesCommit ballot (c, h) (pledges st))
      (\<lambda>st. commitPredicate ballot (c, h) (pledges st)) (latest s)"
    "setAcceptCommit D L proc (SCPBallot c (bvalue ballot)) (SCPBallot h (bvalue ballot)) s = Inr (True, s')"
    using attemptAcceptCommit_justified [OF assms] by blast
  show ?thesis
    using rest h unfolding votesCommit_iff [OF h] commitPredicate_iff [OF h] by blast
qed

theorem commit_accept_justified_witness:
  "\<exists>s' ballot c h. commitHint (prepare_msg (SCPBallot 3 [10]) (Some (SCPBallot 2 [10])) 1 2) = Some ballot \<and> c \<noteq> 0 \<and> c \<le> h \<and>
    accepted_by_others trioD trioL Ballot (\<lambda>st. ballots_between (bvalue ballot) c h \<subseteq> commit_voted (pledges st))
      (\<lambda>st. ballots_between (bvalue ballot) c h \<subseteq> commit_accepted (pledges st)) sample_prepares \<and>
    setAcceptCommit trioD trioL accept_all (SCPBallot c (bvalue ballot)) (SCPBallot h (bvalue ballot))
      (prepare_slot (Some (SCPBallot 2 [10]))) = Inr (True, s')"
proof -
  let ?s = "prepare_slot (Some (SCPBallot 2 [10]))" and ?hint = "prepare_msg (SCPBallot 3 [10]) (Some (SCPBallot 2 [10])) 1 2"
  have "map_sum id fst (attemptAcceptCommit trioD trioL accept_all ?hint ?s) = Inr True" by code_simp
  from map_sum_fst [OF this] obtain s' where
    "attemptAcceptCommit trioD trioL accept_all ?hint ?s = Inr (True, s')" by blast
  from commit_accept_justified [OF _ this] show ?thesis
    by (auto simp: sample_prepares_voting_ok)
qed

text \<open>
  C3. A value is externalized (steps 7 and 8) only when a quorum that satisfies the local quorum set
  has accepted to commit it over one interval of counters, and it is the value the node itself is
  committed to.
\<close>

theorem externalize_justified:
  assumes "voting_ok D L Ballot (latest s)" and "attemptConfirmCommit D L proc hint s = Inr (True, s')"
  shows "\<exists>ballot c h U. commit_value s = Some (bvalue ballot) \<and> c \<noteq> 0 \<and> c \<le> h \<and>
    (\<forall>n \<in> U. \<exists>e q. map_of (latest s) n = Some e \<and> ballots_between (bvalue ballot) c h \<subseteq> commit_accepted (pledges (statement e)) \<and>
      env_qset D Ballot e = Some q \<and> has_slice q U) \<and> has_slice (mQSet L) U \<and>
    setConfirmCommit D L proc (SCPBallot c (bvalue ballot)) (SCPBallot h (bvalue ballot)) s = Inr (True, s')"
proof -
  obtain ballot c h where facts: "commit_value s = Some (bvalue ballot)" "c \<noteq> 0" "c \<le> h"
    "setConfirmCommit D L proc (SCPBallot c (bvalue ballot)) (SCPBallot h (bvalue ballot)) s = Inr (True, s')"
    and r: "ratified D L Ballot (\<lambda>st. commitPredicate ballot (c, h) (pledges st)) (latest s)"
    using attemptConfirmCommit_justified [OF assms] by blast
  from r obtain U where U: "U \<subseteq> saying (\<lambda>st. commitPredicate ballot (c, h) (pledges st)) (latest s)"
    "qset.closed (qset_of (latest s) (env_qset D Ballot)) U" "has_slice (mQSet L) U"
    by (auto simp: ratified_def)
  then have "\<forall>n \<in> U. \<exists>e q. map_of (latest s) n = Some e \<and> commitPredicate ballot (c, h) (pledges (statement e)) \<and>
      env_qset D Ballot e = Some q \<and> has_slice q U"
    by (fastforce simp: saying_def qset.closed_def qset_of_def)
  with facts U(3) show ?thesis unfolding commitPredicate_iff [OF facts(3)] by blast
qed

theorem externalize_justified_witness:
  "\<exists>s' ballot c h U. commit_value confirm_slot = Some (bvalue ballot) \<and> c \<noteq> 0 \<and> c \<le> h \<and>
    (\<forall>n \<in> U. \<exists>e q. map_of sample_commits n = Some e \<and> ballots_between (bvalue ballot) c h \<subseteq> commit_accepted (pledges (statement e)) \<and>
      env_qset trioD Ballot e = Some q \<and> has_slice q U) \<and> has_slice (mQSet trioL) U \<and>
    setConfirmCommit trioD trioL accept_all (SCPBallot c (bvalue ballot)) (SCPBallot h (bvalue ballot)) confirm_slot = Inr (True, s')"
proof -
  have "map_sum id fst (attemptConfirmCommit trioD trioL accept_all (confirm_msg (SCPBallot 5 [10]) 5 3 5) confirm_slot) = Inr True"
    by code_simp
  from map_sum_fst [OF this] obtain s' where
    "attemptConfirmCommit trioD trioL accept_all (confirm_msg (SCPBallot 5 [10]) 5 3 5) confirm_slot = Inr (True, s')"
    by blast
  from externalize_justified [OF _ this] show ?thesis
    by (simp add: sample_voting_ok) blast
qed

section \<open>Bumping, validating, restoring\<close>

text \<open>
  The counter \<^verbatim>\<open>attemptBump\<close> moves to. If any recorded message has a counter below the node's own,
  it moves nowhere; otherwise, if no blocking set is ahead of the node's counter, nowhere either; else to
  the smallest known higher counter that no blocking set is beyond.
\<close>

theorem bump_target:
  "findBumpCounter L s target (allCounters s target) =
     (if \<exists>e \<in> set (latest s). statementCounter (pledges (statement (snd e))) < target then None
      else if ahead L s target then List.find (\<lambda>n. target < n \<and> \<not> ahead L s n) (allCounters s target)
      else None)"
proof (cases "\<exists>e \<in> set (latest s). statementCounter (pledges (statement (snd e))) < target")
  case True
  then obtain n where n: "n \<in> set (allCounters s target)" "n < target" by (force simp: allCounters_def)
  then obtain c cs where "allCounters s target = c # cs" "c \<le> n"
    using allCounters_sorted [of s target] by (cases "allCounters s target") auto
  moreover from this n(2) have "c < target" by simp
  ultimately show ?thesis using True by simp
next
  case False
  then have "target \<le> n" if "n \<in> set (allCounters s target)" for n
    using that by (force simp: allCounters_def not_less)
  moreover have "target \<in> set (allCounters s target)" by (simp add: allCounters_def)
  ultimately show ?thesis
    using findBumpCounter_smallest [OF allCounters_sorted [of s target]] False by simp
qed

text \<open>
  The verdict of \<^verbatim>\<open>validateValues\<close>: fully validated exactly when every value of the statement is, and
  invalid exactly when the last value that is not fully validated is invalid; so an invalid value is
  overridden by a later one that may be valid.
\<close>

theorem validateValues_verdict:
  "(validateValues D i st = kFullyValidatedValue \<longleftrightarrow>
      (\<forall>v \<in> set (statementValues st). validateValue D i v = kFullyValidatedValue)) \<and>
   (validateValues D i st = kInvalidValue \<longleftrightarrow>
      (\<exists>before v after. statementValues st = before @ v # after \<and> validateValue D i v = kInvalidValue \<and>
         (\<forall>w \<in> set after. validateValue D i w = kFullyValidatedValue)))"
  using validateValues_full validateValues_invalid by blast

lemma maybe_sample:
  "validateValues ((driver_with trio_qset)\<lparr>validateValue := \<lambda>_ v. if v = [10] then kInvalidValue else kMaybeValidValue\<rparr>)
     7 (prepare_msg (SCPBallot 2 [20]) (Some (SCPBallot 1 [10])) 0 0) = kMaybeValidValue"
  by code_simp

theorem validateValues_verdict_witness:
  "\<not> (\<exists>before v after. statementValues (prepare_msg (SCPBallot 2 [20]) (Some (SCPBallot 1 [10])) 0 0) = before @ v # after \<and>
      (if v = [10] then kInvalidValue else kMaybeValidValue) = kInvalidValue \<and>
      (\<forall>w \<in> set after. (if w = [10] then kInvalidValue else kMaybeValidValue) = kFullyValidatedValue))"
  using validateValues_verdict [of "(driver_with trio_qset)\<lparr>validateValue := \<lambda>_ v. if v = [10] then kInvalidValue else kMaybeValidValue\<rparr>"
      7 "prepare_msg (SCPBallot 2 [20]) (Some (SCPBallot 1 [10])) 0 0"] maybe_sample
  by simp

text \<open>
  C40. Raising \<open>h\<close> to a ballot with another value than \<open>c\<close> stops the node: \<^verbatim>\<open>setPreparedConfirmed\<close> without a
  new \<open>c\<close> keeps the old one, and the statement it then builds fails the assertions of
  \<^verbatim>\<open>checkInvariants\<close>.
\<close>

theorem incompatible_high_ballot_aborts:
  assumes "\<not> NDEBUG D" "phase s = SCP_PHASE_PREPARE" "ballot_b s = Some b" "ballot_c s = Some c" "ballot_h s = Some h"
    and "h < newH" "bvalue newH \<noteq> bvalue c"
  shows "setPreparedConfirmed D L proc default_ballot newH s = Inl Dbg_Abort"
  using assms by (rule setPreparedConfirmed_aborts)

definition committed_slot :: Slot where
  "committed_slot = upd_ballot (\<lambda>B. B\<lparr>mCurrentBallot := Some (SCPBallot 1 [10]), mPrepared := Some (SCPBallot 1 [10]),
     mHighBallot := Some (SCPBallot 1 [10]), mCommit := Some (SCPBallot 1 [10])\<rparr>) (initSlot (node_with trio_qset) 7)"

theorem incompatible_high_ballot_aborts_witness:
  "setPreparedConfirmed trioD trioL accept_all default_ballot (SCPBallot 2 [20]) committed_slot = Inl Dbg_Abort"
  by (rule incompatible_high_ballot_aborts [of _ _ "SCPBallot 1 [10]" "SCPBallot 1 [10]" "SCPBallot 1 [10]"])
     (simp_all add: committed_slot_def driver_with_def initSlot_def initBallotProtocol_def less_SCPBallot_def)

text \<open>
  C39. What a node has again when it restarts from the statement its state would emit. With the assertions compiled in,
  and \<open>h\<close> and \<open>c\<close> not at counter 0 (which stands for none), the phase and the commit ballot \<open>c\<close> always come back, and \<open>h\<close>
  with them. In the PREPARE phase \<open>b\<close>, \<open>p\<close> and \<open>p'\<close> come back as well, but an \<open>h\<close> without \<open>c\<close> comes back with the value of
  \<open>b\<close>, whatever its own was. In the CONFIRM phase \<open>b\<close> comes back, \<open>p\<close> with the value of \<open>b\<close> and no \<open>p'\<close>. In the EXTERNALIZE
  phase the node comes back at the largest counter: \<open>b\<close> and \<open>p\<close> keep only their value, and there is no \<open>p'\<close>.
\<close>

theorem restore_from_own_statement:
  assumes "ballot_b s = Some b" "createStatement D L (phase s) s = Inr st" "pledges (statement e) = st"
    and "\<not> NDEBUG D" "\<forall>x. ballot_h s = Some x \<or> ballot_c s = Some x \<longrightarrow> counter x \<noteq> 0"
  shows "\<exists>s'. setStateFromEnvelope D e (initSlot L' i) = Inr s' \<and> phase s' = phase s \<and> ballot_c s' = ballot_c s \<and>
    ballot_h s' = (if ballot_c s \<noteq> None then ballot_h s else at_value (bvalue b) (ballot_h s)) \<and>
    (phase s = SCP_PHASE_PREPARE \<longrightarrow> ballot_b s' = Some b \<and> ballot_p s' = ballot_p s \<and> ballot_pp s' = ballot_pp s) \<and>
    (phase s = SCP_PHASE_CONFIRM \<longrightarrow> ballot_b s' = Some b \<and> ballot_p s' = at_value (bvalue b) (ballot_p s) \<and> ballot_pp s' = None) \<and>
    (phase s = SCP_PHASE_EXTERNALIZE \<longrightarrow>
       ballot_b s' = Some (SCPBallot UINT32_MAX (bvalue b)) \<and> ballot_p s' = ballot_b s' \<and> ballot_pp s' = None)"
proof -
  obtain s' where s': "setStateFromEnvelope D e (initSlot L' i) = Inr s'" "ballot_vars s' = stated_vars b s"
    using restore_stated [OF assms(1-3)] by blast
  have inv: "checkInvariants D s = Inr ()" using assms(2) by (auto simp: createStatement_def bindE_Inr_iff)
  have at: "at_value v x = x" if "\<forall>y. x = Some y \<longrightarrow> bvalue y = v" for v x
    using that by (cases x) (auto simp: at_value_def SCPBallot.expand)
  have none: "unless0 (at_value v x) = at_value v x" if "\<forall>y. x = Some y \<longrightarrow> counter y \<noteq> 0" for v x
    using that by (cases x) (auto simp: at_value_def unless0_def)
  show ?thesis
  proof (cases "ballot_c s")
    case None
    with inv assms(4) have "phase s = SCP_PHASE_PREPARE"
      by (cases "phase s") (auto simp: checkInvariants_def dbgAssert_def bindE_Inr_iff)
    with None s' assms(5) none show ?thesis by (auto simp: stated_vars_def ballot_vars_def Let_def at_value_def unless0_def)
  next
    case (Some c)
    then have "at_value (bvalue b) (ballot_h s) = ballot_h s" "at_value (bvalue b) (ballot_c s) = ballot_c s" "the (commit_value s) = bvalue b"
      using checkInvariants_values [OF inv assms(4) Some] assms(1) at by (auto simp: commit_value_def)
    moreover from this(1,2) none assms(5) have "unless0 (ballot_h s) = ballot_h s" "unless0 (ballot_c s) = ballot_c s"
      by (metis none)+
    ultimately show ?thesis using Some s' by (cases "phase s") (auto simp: stated_vars_def ballot_vars_def Let_def)
  qed
qed

theorem restore_from_own_statement_witness:
  "\<exists>s'. setStateFromEnvelope trioD (envelope_of [1] (confirm_msg (SCPBallot 5 [10]) 5 3 4)) (initSlot trioL 7) = Inr s' \<and>
     ballot_b s' = Some (SCPBallot 5 [10]) \<and> ballot_c s' = ballot_c confirm_slot \<and> ballot_h s' = ballot_h confirm_slot"
proof -
  let ?e = "envelope_of [1] (confirm_msg (SCPBallot 5 [10]) 5 3 4)"
  have vars: "ballot_b confirm_slot = Some (SCPBallot 5 [10])" "ballot_h confirm_slot = Some (SCPBallot 4 [10])"
    "ballot_c confirm_slot = Some (SCPBallot 3 [10])" "phase confirm_slot = SCP_PHASE_CONFIRM" by code_simp+
  have "createStatement trioD trioL (phase confirm_slot) confirm_slot = Inr (confirm_msg (SCPBallot 5 [10]) 5 3 4)" by code_simp
  moreover have "pledges (statement ?e) = confirm_msg (SCPBallot 5 [10]) 5 3 4" "\<not> NDEBUG trioD"
    by (simp_all add: envelope_of_def driver_with_def)
  moreover have "\<forall>x. ballot_h confirm_slot = Some x \<or> ballot_c confirm_slot = Some x \<longrightarrow> counter x \<noteq> 0" using vars by auto
  ultimately show ?thesis using restore_from_own_statement [OF vars(1), of trioD trioL _ ?e trioL 7] vars by auto
qed

section \<open>Leaders of a nomination round\<close>

text \<open>
  The round leaders are exactly the nodes of the local quorum set whose priority is positive and
  highest, and \<^verbatim>\<open>updateRoundLeaders\<close> changes nothing else.
\<close>

theorem round_leaders_correct:
  assumes "small_qset (mQSet L)" "thresholds_ok (mQSet L)" "mPreviousValue (mNominationProtocol s) \<noteq> []"
  shows "\<exists>ls. updateRoundLeaders D L s = Inr (upd_nom (mRoundLeaders_update (\<lambda>_. ls)) s) \<and> strict_sorted ls \<and>
    set ls = {n \<in> set (qset_nodes (mQSet L)). 0 < priority D s (mQSet L) n \<and>
      (\<forall>m \<in> set (qset_nodes (mQSet L)). priority D s (mQSet L) m \<le> priority D s (mQSet L) n)}"
  using assms by (rule updateRoundLeaders_leaders)

theorem round_leaders_correct_witness:
  "\<exists>ls. updateRoundLeaders trioD trioL (upd_nom (mPreviousValue_update (\<lambda>_. [9])) (initSlot trioL 7)) =
     Inr (upd_nom (mRoundLeaders_update (\<lambda>_. ls)) (upd_nom (mPreviousValue_update (\<lambda>_. [9])) (initSlot trioL 7))) \<and>
     strict_sorted ls"
  using round_leaders_correct [of trioL "upd_nom (mPreviousValue_update (\<lambda>_. [9])) (initSlot trioL 7)" trioD]
  by (auto simp: node_with_def trio_qset_def)

end
