(* ===== verification/Slot_Properties.thy ===== *)
theory Slot_Properties
  imports Ballot_Properties
begin

text \<open>
  The properties of a slot and of an SCP instance over any sequence of events, with instances on the
  network of one node of \<open>Sample\<close>.
\<close>

section \<open>Every state a slot can reach\<close>

text \<open>
  C1. A slot externalizes at most once. In every reachable state either nothing has been announced to
  the driver, or exactly one value has: the slot is in the EXTERNALIZE phase and the value is that of
  its commit ballot.
\<close>

theorem externalizes_at_most_once:
  assumes "slot_reachable D i s"
  shows "ext_values (mDriverCalls s) = [] \<or>
    (phase s = SCP_PHASE_EXTERNALIZE \<and> ext_values (mDriverCalls s) = [the (commit_value s)])"
  using slot_reachable_ok [OF assms] by (simp add: slot_ok_def)

theorem externalizes_at_most_once_witness:
  "ext_values (mDriverCalls solo_final) = [[10]] \<and> phase solo_final = SCP_PHASE_EXTERNALIZE"
  using externalizes_at_most_once [OF solo_reachable] solo_final_facts by simp

text \<open>
  C2. The commitment is final. Along any further sequence of events (messages of any kind, timeouts,
  requests of the application, updates of the local quorum set) a slot past the PREPARE phase keeps its
  commit value, phases never go back, and a value once announced stays the only one announced.
\<close>

theorem commitment_is_final:
  assumes "slot_reachable D i s" and "(slot_step D)\<^sup>*\<^sup>* s s'" and "phase s \<noteq> SCP_PHASE_PREPARE"
  shows "commit_value s' = commit_value s \<and> commit_value s \<noteq> None \<and> phase s' \<noteq> SCP_PHASE_PREPARE \<and>
    (phase s = SCP_PHASE_EXTERNALIZE \<longrightarrow>
       phase s' = SCP_PHASE_EXTERNALIZE \<and> ext_values (mDriverCalls s') = ext_values (mDriverCalls s))"
proof -
  have inv: "slot_inv s" "nom_inv s" using slot_reachable_ok [OF assms(1)] by (simp_all add: slot_ok_def)
  with slot_steps_keep [OF assms(2)] have "progress s s'" by (simp add: slot_keeps_def)
  with inv(1) assms(3) show ?thesis
    by (cases "phase s"; cases "phase s'") (auto simp: progress_def slot_inv_def commit_ok_def commit_value_def)
qed

theorem commitment_is_final_witness:
  "commit_value (stopNomination solo_final) = Some [10] \<and>
   ext_values (mDriverCalls (stopNomination solo_final)) = [[10]]"
  using commitment_is_final [OF solo_reachable r_into_rtranclp [of "slot_step (driver_with solo_qset)", OF slot_step.step_stop]]
    solo_final_facts by simp

text \<open>
  C31. The ballot state only advances. Along any sequence of events from a reachable state: the phase
  does not go back; the accepted-prepared ballot \<open>p\<close> does not decrease; within a phase the current
  ballot \<open>b\<close> does not decrease; what was recorded in the statement history and what was told to the
  driver stays; each node's recorded message is replaced by newer ones only; the slot keeps its index.
\<close>

theorem ballot_state_advances:
  assumes "slot_reachable D i s" and "(slot_step D)\<^sup>*\<^sup>* s s'"
  shows "phase_rank (phase s) \<le> phase_rank (phase s') \<and>
    ballot_opt_le (ballot_p s) (ballot_p s') \<and>
    (phase s' = phase s \<longrightarrow> ballot_opt_le (ballot_b s) (ballot_b s')) \<and>
    prefix (mStatementsHistory s) (mStatementsHistory s') \<and>
    prefix (mDriverCalls s) (mDriverCalls s') \<and>
    (\<forall>n e. map_of (latest s) n = Some e \<longrightarrow>
      (\<exists>e'. map_of (latest s') n = Some e' \<and>
        (e' = e \<or> isNewerPledges (pledges (statement e)) (pledges (statement e'))))) \<and>
    mSlotIndex s' = i"
proof -
  have ok: "slot_inv s" "nom_inv s" "mSlotIndex s = i"
    using slot_reachable_ok [OF assms(1)] by (simp_all add: slot_ok_def)
  with slot_steps_keep [OF assms(2)] have "progress s s'" by (simp add: slot_keeps_def)
  with ok(3) show ?thesis
    by (auto simp: progress_def envelopes_grow_def newer_map_def)
qed

theorem ballot_state_advances_witness:
  "ballot_opt_le (ballot_p (initSlot (node_with solo_qset) 7)) (ballot_p solo_final) \<and> mSlotIndex solo_final = 7"
  using ballot_state_advances [OF slot_reachable.reach_init r_into_rtranclp [of "slot_step (driver_with solo_qset)", OF solo_step]]
  by blast

text \<open>
  C32. The shape of every reachable state: the recorded messages form a map sorted by node, \<open>p'\<close> is
  below \<open>p\<close> with another value, from the CONFIRM phase on there are \<open>c\<close> and \<open>h\<close> with one value, and
  no call of \<^verbatim>\<open>advanceSlot\<close> is left open.
\<close>

theorem reachable_ballot_state:
  assumes "slot_reachable D i s"
  shows "map_ok (latest s) \<and> level s = 0 \<and>
    (\<forall>pp. ballot_pp s = Some pp \<longrightarrow> (\<exists>p. ballot_p s = Some p \<and> pp < p \<and> bvalue pp \<noteq> bvalue p)) \<and>
    (phase s \<noteq> SCP_PHASE_PREPARE \<longrightarrow>
      (\<exists>c h. ballot_c s = Some c \<and> ballot_h s = Some h \<and> bvalue h = bvalue c))"
  using slot_reachable_ok [OF assms]
  by (auto simp: slot_ok_def slot_inv_def prepared_ok_def commit_ok_def areBallotsLessAndIncompatible_def
      areBallotsCompatible_def order.order_iff_strict split: if_splits)

theorem reachable_ballot_state_witness:
  "level solo_final = 0 \<and> (\<exists>c h. ballot_c solo_final = Some c \<and> ballot_h solo_final = Some h \<and> bvalue h = bvalue c)"
  using reachable_ballot_state [OF solo_reachable] solo_final_facts by simp

section \<open>Nomination\<close>

text \<open>
  Nomination only grows and only takes valid values. In every reachable state the votes, the
  accepted values and the candidates are sorted without repetition, every candidate has been accepted
  and every accepted value is fully validated by the driver; along any sequence of events the three
  sets only grow, and each node's recorded nomination is replaced by larger ones only.
\<close>

theorem nomination_grows:
  assumes "slot_reachable D i s" and "(slot_step D)\<^sup>*\<^sup>* s s'"
  shows "strict_sorted (votes s') \<and> strict_sorted (accepted s') \<and> strict_sorted (candidates s') \<and>
    set (candidates s') \<subseteq> set (accepted s') \<and>
    (\<forall>v \<in> set (accepted s'). validateValue D i v = kFullyValidatedValue) \<and>
    set (votes s) \<subseteq> set (votes s') \<and> set (accepted s) \<subseteq> set (accepted s') \<and>
    set (candidates s) \<subseteq> set (candidates s') \<and>
    (\<forall>n e. map_of (nominations s) n = Some e \<longrightarrow>
      (\<exists>e'. map_of (nominations s') n = Some e' \<and>
        (e' = e \<or> isNewerNomination (pledges (statement e)) (pledges (statement e')))))"
proof -
  note ok = slot_reachable_ok [OF assms(1)]
  then have "slot_inv s" "nom_inv s" by (simp_all add: slot_ok_def)
  with slot_steps_keep [OF assms(2)] have "nom_grows D s s'" by (simp add: slot_keeps_def)
  moreover have "slot_ok D i s'" by (rule slot_ok_keeps [OF ok slot_steps_keep [OF assms(2)]])
  moreover from calculation have "\<exists>e'. map_of (nominations s') n = Some e' \<and>
      (e' = e \<or> isNewerNomination (pledges (statement e)) (pledges (statement e')))"
    if "map_of (nominations s) n = Some e" for n e
    using that unfolding nom_grows_def nominations_grow_def newer_map_def nom_newer_def by blast
  ultimately show ?thesis
    by (simp add: slot_ok_def nom_inv_def nom_grows_def)
qed

theorem nomination_grows_witness:
  "strict_sorted (votes solo_final) \<and> set (candidates solo_final) \<subseteq> set (accepted solo_final)"
  using nomination_grows [OF slot_reachable.reach_init r_into_rtranclp [of "slot_step (driver_with solo_qset)", OF solo_step]]
  by blast

section \<open>Termination\<close>

text \<open>
  C5. Processing an envelope terminates in every reachable state: with the fuel of \<open>slot_fuel_ok\<close> the
  recursion of the code (the slot processes the messages it emits itself) never runs out of it, given
  that the driver's \<^verbatim>\<open>extractValidValue\<close> returns validated values as documented.
\<close>

theorem envelope_processing_terminates:
  assumes "slot_reachable D i s" and "extracts_valid D i" and "slot_fuel_ok s e F"
  shows "(\<exists>r s'. Slot_processEnvelope D L F e self s = Inr (r, s')) \<or>
    (\<exists>err. Slot_processEnvelope D L F e self s = Inl err \<and> err \<noteq> Out_Of_Fuel)"
proof -
  have "Slot_processEnvelope D L F e self s \<noteq> Inl Out_Of_Fuel"
    using slot_reachable_ok [OF assms(1)] assms(2,3)
    by (intro Slot_processEnvelope_total) (simp_all add: slot_ok_def)
  then show ?thesis by (cases "Slot_processEnvelope D L F e self s") auto
qed

theorem envelope_processing_terminates_witness:
  "(\<exists>r s'. Slot_processEnvelope (driver_with solo_qset) (node_with solo_qset) large_fuel
      (envelope_of [1] (Ballot (prepare_msg (SCPBallot 1 [10]) None 0 0))) False solo_final = Inr (r, s')) \<or>
   (\<exists>err. Slot_processEnvelope (driver_with solo_qset) (node_with solo_qset) large_fuel
      (envelope_of [1] (Ballot (prepare_msg (SCPBallot 1 [10]) None 0 0))) False solo_final = Inl err \<and> err \<noteq> Out_Of_Fuel)"
  by (rule envelope_processing_terminates [OF solo_reachable])
     (simp_all add: extracts_valid_def slot_fuel_ok_def large_fuel_def sample_node_defs)

text \<open>
  The fuel is only a bound: when the ballot protocol processes an envelope without running out of
  fuel, it does the same with any more.
\<close>

theorem fuel_is_only_a_bound:
  assumes "ballot_processEnvelope D L bumps fuel e self s = r" and "r \<noteq> Inl Out_Of_Fuel"
    and "bumps \<le> bumps'" and "fuel \<le> fuel'"
  shows "ballot_processEnvelope D L bumps' fuel' e self s = r"
  using ballot_processEnvelope_fuel_le [OF assms(3,4), of D L e self s] assms(1,2)
  by (simp add: fuel_le_def)

theorem fuel_is_only_a_bound_witness:
  "ballot_processEnvelope (driver_with solo_qset) (node_with solo_qset) (2 ^ 40) 50
     (envelope_of [2] (prepare_msg (SCPBallot 0 [10]) None 0 0)) False (initSlot (node_with solo_qset) 7) =
   Inr (False, initSlot (node_with solo_qset) 7)"
proof (rule fuel_is_only_a_bound)
  show "ballot_processEnvelope (driver_with solo_qset) (node_with solo_qset) 1 1
     (envelope_of [2] (prepare_msg (SCPBallot 0 [10]) None 0 0)) False (initSlot (node_with solo_qset) 7) =
   Inr (False, initSlot (node_with solo_qset) 7)" by code_simp
qed simp_all

section \<open>The instance\<close>

text \<open>
  C33. Along any sequence of events at an SCP instance (envelopes, nominations, abandoned ballots, timers, purges, new
  quorum sets, statements the node once made given back to slots known or not, nominations and ballots of one slot
  one after the other), its known slots form a map sorted by index and each of them is in a reachable state of its own
  index; so each of them has externalized at most one value.
\<close>

theorem instance_slots_reachable:
  assumes "(scp_step D)\<^sup>*\<^sup>* (initSCP L) S"
  shows "map_ok (mKnownSlots S) \<and>
    (\<forall>i s. map_of (mKnownSlots S) i = Some s \<longrightarrow>
       slot_reachable D i s \<and> mSlotIndex s = i \<and> length (ext_values (mDriverCalls s)) \<le> 1)"
proof -
  have ok: "scp_ok D S" by (rule scp_steps_ok [OF assms])
  have "mSlotIndex s = i \<and> length (ext_values (mDriverCalls s)) \<le> 1" if "slot_reachable D i s" for i s
    using slot_reachable_ok [OF that] by (auto simp: slot_ok_def)
  with ok show ?thesis by (auto simp: scp_ok_def)
qed

text \<open>A node that is given back a nomination and a ballot for slot 7, and then hears from another node.\<close>

definition restored_run :: "scp_error + (bool \<times> SCP)" where
  "restored_run =
     bindE (SCP_setStateFromEnvelope (driver_with solo_qset) 7 (envelope_of [1] (Nominate (nominate_msg [[10]] [[10]]))) (initSCP (node_with solo_qset))) (\<lambda>(_, S1).
     bindE (SCP_setStateFromEnvelope (driver_with solo_qset) 7 (envelope_of [1] (Ballot (confirm_msg (SCPBallot 5 [10]) 5 3 4))) S1) (\<lambda>(_, S2).
       receiveEnvelope (driver_with solo_qset) sample_fuel (envelope_of [2] (Ballot (confirm_msg (SCPBallot 5 [10]) 5 3 4))) S2))"

theorem instance_slots_reachable_witness:
  "\<exists>S s. restored_run = Inr (True, S) \<and> map_of (mKnownSlots S) 7 = Some s \<and> accepted s = [[10]] \<and>
     phase s = SCP_PHASE_EXTERNALIZE \<and> ext_values (mDriverCalls s) = [[10]] \<and> slot_reachable (driver_with solo_qset) 7 s"
proof -
  let ?D = "driver_with solo_qset" and ?S = "initSCP (node_with solo_qset)"
  let ?n = "envelope_of [1] (Nominate (nominate_msg [[10]] [[10]]))" and ?b = "envelope_of [1] (Ballot (confirm_msg (SCPBallot 5 [10]) 5 3 4))"
  have "(case restored_run of Inr (r, S) \<Rightarrow> r \<and> (case map_of (mKnownSlots S) 7 of
      Some s \<Rightarrow> accepted s = [[10]] \<and> phase s = SCP_PHASE_EXTERNALIZE \<and> ext_values (mDriverCalls s) = [[10]] | _ \<Rightarrow> False) | Inl _ \<Rightarrow> False)"
    by code_simp
  then obtain S s where S: "restored_run = Inr (True, S)" "map_of (mKnownSlots S) 7 = Some s"
    "accepted s = [[10]]" "phase s = SCP_PHASE_EXTERNALIZE" "ext_values (mDriverCalls s) = [[10]]"
    by (auto split: sum.splits option.splits)
  from S(1) obtain S1 S2 where run: "SCP_setStateFromEnvelope ?D 7 ?n ?S = Inr ((), S1)" "SCP_setStateFromEnvelope ?D 7 ?b S1 = Inr ((), S2)"
    "receiveEnvelope ?D sample_fuel (envelope_of [2] (Ballot (confirm_msg (SCPBallot 5 [10]) 5 3 4))) S2 = Inr (True, S)"
    unfolding restored_run_def by (auto simp: bindE_Inr_iff)
  have "(case SCP_setStateFromEnvelope ?D 7 ?n ?S of Inr (_, S1) \<Rightarrow>
      (case fst (getSlot 7 True S1) of Some u \<Rightarrow> phase u = SCP_PHASE_PREPARE \<and> ballot_pp u = None | None \<Rightarrow> False) | Inl _ \<Rightarrow> False)" by code_simp
  then obtain u where u: "fst (getSlot 7 True S1) = Some u" "phase u = SCP_PHASE_PREPARE" "ballot_pp u = None"
    using run(1) by (auto split: option.splits)
  have "fst (getSlot 7 True ?S) = Some (initSlot (node_with solo_qset) 7)" by (simp add: getSlot_def initSCP_def Let_def)
  then have "scp_step ?D ?S S1" by (rule scp_step.scp_restore [OF _ _ run(1)])
    (simp add: restorable_def sample_node_defs nom_sorted_def)
  moreover have "scp_step ?D S1 S2"
    by (rule scp_step.scp_restore [OF u(1) _ run(2)]) (simp add: u restorable_def restorable_ballot_def sample_node_defs)
  moreover have "scp_step ?D S2 S" by (rule scp_step.scp_receive [OF run(3)])
  ultimately have "(scp_step ?D)\<^sup>*\<^sup>* ?S S" by (meson converse_rtranclp_into_rtranclp rtranclp.rtrancl_refl)
  from instance_slots_reachable [OF this] S show ?thesis by blast
qed

text \<open>
  \<^verbatim>\<open>receiveEnvelope\<close> affects one slot only. An envelope whose signature does not verify is refused and
  nothing changes; a verified one is processed by the slot it names, created empty if it was not known;
  every other slot and the local node stay as they were.
\<close>

theorem receiveEnvelope_local:
  assumes "map_ok (mKnownSlots S)" and "receiveEnvelope D F e S = Inr (r, S')"
  shows "mLocalNode S' = mLocalNode S \<and>
    (\<forall>j. j \<noteq> slotIndex (statement e) \<longrightarrow> map_of (mKnownSlots S') j = map_of (mKnownSlots S) j) \<and>
    (\<not> verifyEnvelope D e \<longrightarrow> \<not> r \<and> S' = S) \<and>
    (verifyEnvelope D e \<longrightarrow> (\<exists>s'. map_of (mKnownSlots S') (slotIndex (statement e)) = Some s' \<and>
       Slot_processEnvelope D (mLocalNode S) F e False
         (case map_of (mKnownSlots S) (slotIndex (statement e)) of
            Some s \<Rightarrow> s | None \<Rightarrow> initSlot (mLocalNode S) (slotIndex (statement e))) = Inr (r, s')))"
  using assms
  by (auto simp: receiveEnvelope_def onSlot_def getSlot_def Let_def bindE_Inr_iff om.find_put map_ok_put
      split: if_splits option.splits)

theorem receiveEnvelope_local_witness:
  "\<exists>r S'. receiveEnvelope (driver_with solo_qset) sample_fuel
     (envelope_of [2] (Ballot (prepare_msg (SCPBallot 0 [10]) None 0 0))) (initSCP (node_with solo_qset)) = Inr (r, S') \<and>
     map_of (mKnownSlots S') 8 = None \<and> map_of (mKnownSlots S') 7 \<noteq> None"
proof -
  let ?e = "envelope_of [2] (Ballot (prepare_msg (SCPBallot 0 [10]) None 0 0))" and ?S = "initSCP (node_with solo_qset)"
  have "map_sum id fst (receiveEnvelope (driver_with solo_qset) sample_fuel ?e ?S) = Inr False" by code_simp
  from map_sum_fst [OF this] obtain S' where S': "receiveEnvelope (driver_with solo_qset) sample_fuel ?e ?S = Inr (False, S')"
    by blast
  moreover have "map_ok (mKnownSlots ?S)" by (simp add: initSCP_def)
  from receiveEnvelope_local [OF this S'] have "map_of (mKnownSlots S') 8 = None \<and> map_of (mKnownSlots S') 7 \<noteq> None"
    by (simp add: envelope_of_def initSCP_def driver_with_def) blast
  ultimately show ?thesis by blast
qed

text \<open>
  \<^verbatim>\<open>purgeSlots\<close> forgets exactly the slots below the bound and leaves the others, and the order of
  the map, as they are.
\<close>

theorem purgeSlots_exact:
  "map_of (mKnownSlots (purgeSlots n S)) i = (if i < n then None else map_of (mKnownSlots S) i) \<and>
   subseq (mKnownSlots (purgeSlots n S)) (mKnownSlots S) \<and>
   getKnownSlotsCount (purgeSlots n S) = length (filter (\<lambda>(j, s). n \<le> j) (mKnownSlots S))"
proof -
  have "map_of (mKnownSlots (purgeSlots n S)) i = (if i < n then None else map_of (mKnownSlots S) i)"
    by (simp add: purgeSlots_def map_of_purge)
  then show ?thesis by (simp add: purgeSlots_def purge_filter getKnownSlotsCount_def not_less)
qed

end
