(* ===== verification/Ledger_Types.thy ===== *)
theory Ledger_Types
  imports Prelude
begin

text \<open>
  Ledger entries and their keys (\<^verbatim>\<open>src/xdr/Stellar-ledger-entries.x\<close>, \<^verbatim>\<open>src/xdr/Stellar-ledger.x\<close>), and the
  order on identities by which buckets are sorted (\<^verbatim>\<open>src/bucket/LedgerCmp.h\<close>). Signed 64-bit fields are
  integers; the operations that compute with them state their bounds.
\<close>

type_synonym AccountID = bytes
type_synonym int64 = int
type_synonym int32 = int

section \<open>Assets\<close>

datatype Asset =
    AssetNative
  | AlphaNum4 (assetCode: bytes) (issuer: AccountID)
  | AlphaNum12 (assetCode: bytes) (issuer: AccountID)

text \<open>The XDR order of the union: the tag, then the fields in turn.\<close>

instantiation Asset :: linorder
begin

fun less_Asset :: "Asset \<Rightarrow> Asset \<Rightarrow> bool" where
  "less_Asset AssetNative b = (b \<noteq> AssetNative)"
| "less_Asset (AlphaNum4 c i) (AlphaNum4 d j) = (c < d \<or> c = d \<and> i < j)"
| "less_Asset (AlphaNum4 c i) (AlphaNum12 d j) = True"
| "less_Asset (AlphaNum12 c i) (AlphaNum12 d j) = (c < d \<or> c = d \<and> i < j)"
| "less_Asset _ _ = False"

definition less_eq_Asset :: "Asset \<Rightarrow> Asset \<Rightarrow> bool" where
  "less_eq_Asset a b \<longleftrightarrow> a = b \<or> a < b"

instance
proof
  fix x y z :: Asset
  have asym: "x < y \<Longrightarrow> \<not> y < x" for x y :: Asset
    by (cases x; cases y) auto
  have trans: "x < y \<Longrightarrow> y < z \<Longrightarrow> x < z" for x y z :: Asset
    by (cases x; cases y; cases z) auto
  show "x < y \<longleftrightarrow> x \<le> y \<and> \<not> y \<le> x"
    using asym [of x y] asym [of x x] by (auto simp: less_eq_Asset_def)
  show "x \<le> x" by (simp add: less_eq_Asset_def)
  show "x \<le> y \<Longrightarrow> y \<le> z \<Longrightarrow> x \<le> z"
    using trans by (auto simp: less_eq_Asset_def)
  show "x \<le> y \<Longrightarrow> y \<le> x \<Longrightarrow> x = y"
    using asym by (auto simp: less_eq_Asset_def)
  show "x \<le> y \<or> y \<le> x"
    by (cases x; cases y) (auto simp: less_eq_Asset_def)
qed

end

section \<open>Entries\<close>

record Price =
  price_n :: int32
  price_d :: int32

record Signer =
  sg_pubKey :: AccountID
  sg_weight :: uint32
  sg_signerType :: uint32

record AccountEntry =
  a_accountID :: AccountID
  a_balance :: int64
  a_seqNum :: uint64
  a_numSubEntries :: uint32
  a_inflationDest :: "AccountID option"
  a_flags :: uint32
  a_homeDomain :: bytes
  a_accountType :: uint32
  a_thresholds :: "uint8 list"
  a_signers :: "Signer list"

record TrustLineEntry =
  t_accountID :: AccountID
  t_asset :: Asset
  t_balance :: int64
  t_limit :: int64
  t_flags :: uint32

record OfferEntry =
  o_sellerID :: AccountID
  o_offerID :: uint64
  o_selling :: Asset
  o_buying :: Asset
  o_amount :: int64
  o_price :: Price
  o_flags :: uint32

record DataEntry =
  d_accountID :: AccountID
  d_dataName :: bytes
  d_dataValue :: bytes

record ReversedPaymentEntry =
  r_rID :: int64

datatype LedgerEntryData =
    AccountData AccountEntry
  | TrustLineData TrustLineEntry
  | OfferData OfferEntry
  | DataData DataEntry
  | ReversedPaymentData ReversedPaymentEntry

record LedgerEntry =
  lastModifiedLedgerSeq :: uint32
  edata :: LedgerEntryData

section \<open>Keys\<close>

datatype LedgerKey =
    AccountKey AccountID
  | TrustLineKey AccountID Asset
  | OfferKey AccountID uint64
  | DataKey AccountID bytes
  | ReversedPaymentKey int64

fun dataKey :: "LedgerEntryData \<Rightarrow> LedgerKey" where
  "dataKey (AccountData a) = AccountKey (a_accountID a)"
| "dataKey (TrustLineData t) = TrustLineKey (t_accountID t) (t_asset t)"
| "dataKey (OfferData f) = OfferKey (o_sellerID f) (o_offerID f)"
| "dataKey (DataData d) = DataKey (d_accountID d) (d_dataName d)"
| "dataKey (ReversedPaymentData r) = ReversedPaymentKey (r_rID r)"

definition LedgerEntryKey :: "LedgerEntry \<Rightarrow> LedgerKey" where
  "LedgerEntryKey e = dataKey (edata e)"

fun LedgerEntryType_of :: "LedgerKey \<Rightarrow> nat" where
  "LedgerEntryType_of (AccountKey _) = 0"
| "LedgerEntryType_of (TrustLineKey _ _) = 1"
| "LedgerEntryType_of (OfferKey _ _) = 2"
| "LedgerEntryType_of (DataKey _ _) = 3"
| "LedgerEntryType_of (ReversedPaymentKey _) = 4"

text \<open>
  \<^verbatim>\<open>LedgerEntryIdCmp\<close> compares entries or keys by the fields that identify them, which are the fields of
  the key.
\<close>

fun sameTypeCmp :: "LedgerKey \<Rightarrow> LedgerKey \<Rightarrow> bool" where
  "sameTypeCmp (AccountKey a) (AccountKey b) = (a < b)"
| "sameTypeCmp (TrustLineKey a x) (TrustLineKey b y) =
     (if a < b then True else if b < a then False else x < y)"
| "sameTypeCmp (OfferKey a x) (OfferKey b y) =
     (if a < b then True else if b < a then False else x < y)"
| "sameTypeCmp (DataKey a x) (DataKey b y) =
     (if a < b then True else if b < a then False else x < y)"
| "sameTypeCmp (ReversedPaymentKey a) (ReversedPaymentKey b) = (a < b)"
| "sameTypeCmp _ _ = False"

definition LedgerEntryIdCmp :: "LedgerKey \<Rightarrow> LedgerKey \<Rightarrow> bool" where
  "LedgerEntryIdCmp a b =
     (let aty = LedgerEntryType_of a; bty = LedgerEntryType_of b
      in if aty < bty then True else if bty < aty then False else sameTypeCmp a b)"

text \<open>It is a strict linear order, and two keys unordered by it are equal.\<close>

instantiation LedgerKey :: linorder
begin

definition less_LedgerKey :: "LedgerKey \<Rightarrow> LedgerKey \<Rightarrow> bool" where
  "less_LedgerKey = LedgerEntryIdCmp"

definition less_eq_LedgerKey :: "LedgerKey \<Rightarrow> LedgerKey \<Rightarrow> bool" where
  "less_eq_LedgerKey a b \<longleftrightarrow> a = b \<or> LedgerEntryIdCmp a b"

instance
proof
  fix x y z :: LedgerKey
  have asym: "LedgerEntryIdCmp x y \<Longrightarrow> \<not> LedgerEntryIdCmp y x" for x y
    by (cases x; cases y) (auto simp: LedgerEntryIdCmp_def split: if_splits)
  have trans: "LedgerEntryIdCmp x y \<Longrightarrow> LedgerEntryIdCmp y z \<Longrightarrow> LedgerEntryIdCmp x z" for x y z
    by (cases x; cases y; cases z) (auto simp: LedgerEntryIdCmp_def split: if_splits)
  show "x < y \<longleftrightarrow> x \<le> y \<and> \<not> y \<le> x"
    using asym [of x y] asym [of x x] by (auto simp: less_LedgerKey_def less_eq_LedgerKey_def)
  show "x \<le> x" by (simp add: less_eq_LedgerKey_def)
  show "x \<le> y \<Longrightarrow> y \<le> z \<Longrightarrow> x \<le> z"
    using trans by (auto simp: less_eq_LedgerKey_def)
  show "x \<le> y \<Longrightarrow> y \<le> x \<Longrightarrow> x = y"
    using asym by (auto simp: less_eq_LedgerKey_def)
  show "x \<le> y \<or> y \<le> x"
    by (cases x; cases y) (auto simp: less_eq_LedgerKey_def LedgerEntryIdCmp_def)
qed

end

section \<open>Bucket entries\<close>

datatype BucketEntry = LIVEENTRY LedgerEntry | DEADENTRY LedgerKey

fun bkey :: "BucketEntry \<Rightarrow> LedgerKey" where
  "bkey (LIVEENTRY e) = LedgerEntryKey e"
| "bkey (DEADENTRY k) = k"

definition BucketEntryIdCmp :: "BucketEntry \<Rightarrow> BucketEntry \<Rightarrow> bool" where
  "BucketEntryIdCmp a b =
     (case a of
        LIVEENTRY e \<Rightarrow> (case b of LIVEENTRY f \<Rightarrow> LedgerEntryIdCmp (LedgerEntryKey e) (LedgerEntryKey f)
                               | DEADENTRY k \<Rightarrow> LedgerEntryIdCmp (LedgerEntryKey e) k)
      | DEADENTRY k \<Rightarrow> (case b of LIVEENTRY f \<Rightarrow> LedgerEntryIdCmp k (LedgerEntryKey f)
                               | DEADENTRY l \<Rightarrow> LedgerEntryIdCmp k l))"

lemma BucketEntryIdCmp_less [simp]: "BucketEntryIdCmp a b \<longleftrightarrow> bkey a < bkey b"
  by (simp add: BucketEntryIdCmp_def less_LedgerKey_def split: BucketEntry.split)

end
