(* ===== verification/Bucket.thy ===== *)
theory Bucket
  imports Ledger_Types
begin

text \<open>
  \<^verbatim>\<open>src/bucket/Bucket.cpp\<close>: a bucket is a file of bucket entries in ascending order of identity, here the
  list of its entries. Files are content-addressed by \<^verbatim>\<open>BucketManager\<close> and immutable once adopted, so a
  \<^verbatim>\<open>shared_ptr<Bucket>\<close> is its contents; an input iterator is the entries still to be read. The second
  part shows what a merge holds.
\<close>

section \<open>Operations\<close>

type_synonym Bucket = "BucketEntry list"

record OutputIterator =
  mOut :: "BucketEntry list"
  mBuf :: "BucketEntry option"
  mObjectsPut :: nat
  mKeepDead :: bool

definition OutputIterator_init :: "bool \<Rightarrow> OutputIterator" where
  "OutputIterator_init keepDeadEntries =
     \<lparr>mOut = [], mBuf = None, mObjectsPut = 0, mKeepDead = keepDeadEntries\<rparr>"

fun isDead :: "BucketEntry \<Rightarrow> bool" where
  "isDead (DEADENTRY _) = True"
| "isDead (LIVEENTRY _) = False"

definition writeOne :: "BucketEntry \<Rightarrow> OutputIterator \<Rightarrow> OutputIterator" where
  "writeOne e out = out\<lparr>mOut := mOut out @ [e], mObjectsPut := Suc (mObjectsPut out)\<rparr>"

definition put :: "BucketEntry \<Rightarrow> OutputIterator \<Rightarrow> scp_error + OutputIterator" where
  "put e out =
     (if \<not> mKeepDead out \<and> isDead e then Inr out
      else case mBuf out of
             Some buf \<Rightarrow>
               bindE (assertE (\<not> BucketEntryIdCmp e buf)) (\<lambda>_.
                 let out1 = (if BucketEntryIdCmp buf e then writeOne buf out else out)
                 in Inr (out1\<lparr>mBuf := Some e\<rparr>))
           | None \<Rightarrow> Inr (out\<lparr>mBuf := Some e\<rparr>))"

definition getBucket :: "OutputIterator \<Rightarrow> Bucket" where
  "getBucket out =
     (let out1 = (case mBuf out of None \<Rightarrow> out | Some buf \<Rightarrow> (writeOne buf out)\<lparr>mBuf := None\<rparr>)
      in if mObjectsPut out1 = 0 then [] else mOut out1)"

fun containsBucketIdentity :: "BucketEntry \<Rightarrow> Bucket \<Rightarrow> bool" where
  "containsBucketIdentity ident [] = False"
| "containsBucketIdentity ident (e # b) =
     (if \<not> (BucketEntryIdCmp e ident \<or> BucketEntryIdCmp ident e) then True
      else containsBucketIdentity ident b)"

fun countLiveAndDeadEntries :: "Bucket \<Rightarrow> nat \<times> nat" where
  "countLiveAndDeadEntries [] = (0, 0)"
| "countLiveAndDeadEntries (e # b) =
     (case countLiveAndDeadEntries b of (live, dead) \<Rightarrow>
        if isDead e then (live, Suc dead) else (Suc live, dead))"

text \<open>
  \<^verbatim>\<open>maybe_put\<close>: the shadow iterators are advanced one after the other, up to the first that holds the
  identity of the candidate; the remaining ones stay where they are.
\<close>

fun shadowed :: "BucketEntry \<Rightarrow> Bucket list \<Rightarrow> bool \<times> Bucket list" where
  "shadowed e [] = (False, [])"
| "shadowed e (si # sis) =
     (let si1 = dropWhile (\<lambda>s. BucketEntryIdCmp s e) si
      in if si1 \<noteq> [] \<and> \<not> BucketEntryIdCmp e (hd si1) then (True, si1 # sis)
         else case shadowed e sis of (r, sis1) \<Rightarrow> (r, si1 # sis1))"

definition maybe_put ::
  "BucketEntry \<Rightarrow> Bucket list \<Rightarrow> OutputIterator \<Rightarrow> scp_error + (Bucket list \<times> OutputIterator)"
where
  "maybe_put e shadowIterators out =
     (case shadowed e shadowIterators of (hidden, sis) \<Rightarrow>
        if hidden then Inr (sis, out) else bindE (put e out) (\<lambda>out1. Inr (sis, out1)))"

fun merge_loop :: "Bucket \<Rightarrow> Bucket \<Rightarrow> Bucket list \<Rightarrow> OutputIterator \<Rightarrow> scp_error + OutputIterator" where
  "merge_loop [] [] sis out = Inr out"
| "merge_loop (x # oi) [] sis out =
     bindE (maybe_put x sis out) (\<lambda>(sis1, out1). merge_loop oi [] sis1 out1)"
| "merge_loop [] (y # ni) sis out =
     bindE (maybe_put y sis out) (\<lambda>(sis1, out1). merge_loop [] ni sis1 out1)"
| "merge_loop (x # oi) (y # ni) sis out =
     (if BucketEntryIdCmp x y
      then bindE (maybe_put x sis out) (\<lambda>(sis1, out1). merge_loop oi (y # ni) sis1 out1)
      else if BucketEntryIdCmp y x
      then bindE (maybe_put y sis out) (\<lambda>(sis1, out1). merge_loop (x # oi) ni sis1 out1)
      else bindE (maybe_put y sis out) (\<lambda>(sis1, out1). merge_loop oi ni sis1 out1))"

definition Bucket_merge :: "Bucket \<Rightarrow> Bucket \<Rightarrow> Bucket list \<Rightarrow> bool \<Rightarrow> scp_error + Bucket" where
  "Bucket_merge oldBucket newBucket shadows keepDeadEntries =
     bindE (merge_loop oldBucket newBucket shadows (OutputIterator_init keepDeadEntries)) (\<lambda>out.
       Inr (getBucket out))"

fun put_all :: "BucketEntry list \<Rightarrow> OutputIterator \<Rightarrow> scp_error + OutputIterator" where
  "put_all [] out = Inr out"
| "put_all (e # es) out = bindE (put e out) (\<lambda>out1. put_all es out1)"

text \<open>
  \<^verbatim>\<open>Bucket::fresh\<close>. \<^verbatim>\<open>std::sort\<close> leaves the order of equal identities open; the theorems are about batches
  without repeated identities, for which the sorted list is determined.
\<close>

definition Bucket_fresh :: "LedgerEntry list \<Rightarrow> LedgerKey list \<Rightarrow> scp_error + Bucket" where
  "Bucket_fresh liveEntries deadEntries =
     bindE (put_all (sort_key bkey (map LIVEENTRY liveEntries)) (OutputIterator_init True)) (\<lambda>liveOut.
     bindE (put_all (sort_key bkey (map DEADENTRY deadEntries)) (OutputIterator_init True)) (\<lambda>deadOut.
       Bucket_merge (getBucket liveOut) (getBucket deadOut) [] True))"

section \<open>What a bucket holds\<close>

abbreviation bucket_ok :: "Bucket \<Rightarrow> bool" where
  "bucket_ok b \<equiv> strict_sorted (map bkey b)"

definition bkeys :: "Bucket \<Rightarrow> LedgerKey set" where
  "bkeys b = bkey ` set b"

definition entry_of :: "Bucket \<Rightarrow> LedgerKey \<Rightarrow> BucketEntry option" where
  "entry_of b k = map_of (map (\<lambda>e. (bkey e, e)) b) k"

lemma entry_of_simps [simp]:
  "entry_of [] k = None"
  "entry_of (e # b) k = (if bkey e = k then Some e else entry_of b k)"
  by (simp_all add: entry_of_def)

lemma bkeys_simps [simp]: "bkeys [] = {}" "bkeys (e # b) = insert (bkey e) (bkeys b)" "bkeys (a @ b) = bkeys a \<union> bkeys b"
  by (auto simp: bkeys_def)

lemma entry_of_None_iff: "entry_of b k = None \<longleftrightarrow> k \<notin> bkeys b"
  by (induction b) auto

lemma entry_of_key: "entry_of b k = Some e \<Longrightarrow> bkey e = k \<and> e \<in> set b"
  by (induction b) (auto split: if_splits)

lemma entry_of_filter:
  "bucket_ok b \<Longrightarrow> entry_of (filter P b) k = (case entry_of b k of None \<Rightarrow> None | Some e \<Rightarrow> if P e then Some e else None)"
proof (induction b)
  case (Cons e b)
  have "entry_of (filter P b) k = None" if "bkey e = k"
    using Cons.prems that by (auto simp: entry_of_None_iff bkeys_def)
  with Cons show ?case by (auto split: option.split)
qed simp

lemma bucket_ok_filter: "bucket_ok b \<Longrightarrow> bucket_ok (filter P b)"
  by (induction b) auto

lemma containsBucketIdentity_iff [simp]: "containsBucketIdentity ident b \<longleftrightarrow> bkey ident \<in> bkeys b"
  by (induction b) auto

section \<open>What a merge holds\<close>

text \<open>The candidates in the order the loop visits them.\<close>

fun merge_entries :: "Bucket \<Rightarrow> Bucket \<Rightarrow> Bucket" where
  "merge_entries [] ni = ni"
| "merge_entries oi [] = oi"
| "merge_entries (x # oi) (y # ni) =
     (if bkey x < bkey y then x # merge_entries oi (y # ni)
      else if bkey y < bkey x then y # merge_entries (x # oi) ni
      else y # merge_entries oi ni)"

fun put_candidates :: "BucketEntry list \<Rightarrow> Bucket list \<Rightarrow> OutputIterator \<Rightarrow> scp_error + OutputIterator" where
  "put_candidates [] sis out = Inr out"
| "put_candidates (e # es) sis out =
     bindE (maybe_put e sis out) (\<lambda>(sis1, out1). put_candidates es sis1 out1)"

lemma merge_entries_Nil2 [simp]: "merge_entries oi [] = oi"
  by (cases oi) simp_all

lemma merge_loop_candidates: "merge_loop oi ni sis out = put_candidates (merge_entries oi ni) sis out"
  by (induction oi ni sis out rule: merge_loop.induct)
     (auto intro!: arg_cong [where f = "bindE m" for m] ext)

lemma bkeys_merge_entries [simp]: "bkeys (merge_entries oi ni) = bkeys oi \<union> bkeys ni"
  by (induction oi ni rule: merge_entries.induct) auto

lemma bucket_ok_Cons: "bucket_ok (e # b) \<longleftrightarrow> (\<forall>k \<in> bkeys b. bkey e < k) \<and> bucket_ok b"
  by (auto simp: bkeys_def)

lemma bucket_ok_merge_entries: "bucket_ok oi \<Longrightarrow> bucket_ok ni \<Longrightarrow> bucket_ok (merge_entries oi ni)"
proof (induction oi ni rule: merge_entries.induct)
  case (3 x oi y ni)
  consider "bkey x < bkey y" | "bkey y < bkey x" | "bkey x = bkey y" by fastforce
  then show ?case
  proof cases
    case 1
    with 3 show ?thesis by (auto simp only: merge_entries.simps bucket_ok_Cons bkeys_merge_entries bkeys_simps if_True)
  next
    case 2
    with 3 show ?thesis by (auto simp only: merge_entries.simps bucket_ok_Cons bkeys_merge_entries bkeys_simps if_True split: if_splits)
  next
    case eq: 3
    with 3 show ?thesis by (auto simp only: merge_entries.simps bucket_ok_Cons bkeys_merge_entries bkeys_simps split: if_splits)
  qed
qed simp_all

lemma entry_of_merge_entries:
  "bucket_ok oi \<Longrightarrow> bucket_ok ni \<Longrightarrow>
   entry_of (merge_entries oi ni) k = (case entry_of ni k of None \<Rightarrow> entry_of oi k | Some e \<Rightarrow> Some e)"
proof (induction oi ni rule: merge_entries.induct)
  case (3 x oi y ni)
  have old: "entry_of oi (bkey x) = None" and new: "entry_of ni (bkey y) = None"
    using "3.prems" by (auto simp: entry_of_None_iff bkeys_def)
  have "entry_of ni (bkey x) = None" if "bkey x < bkey y"
    using "3.prems" that by (force simp: entry_of_None_iff bkeys_def)
  with 3 old new show ?case by (auto simp: not_less split: option.split)
qed (auto split: option.split)

text \<open>The shadow test decides membership, and loses no identity above the candidate.\<close>

definition hidden_keys :: "Bucket list \<Rightarrow> LedgerKey set" where
  "hidden_keys sis = (\<Union>b \<in> set sis. bkeys b)"

lemma hidden_keys_simps [simp]: "hidden_keys [] = {}" "hidden_keys (b # bs) = bkeys b \<union> hidden_keys bs"
  "hidden_keys (as @ bs) = hidden_keys as \<union> hidden_keys bs"
  by (auto simp: hidden_keys_def)

lemma dropWhile_bucket:
  assumes "bucket_ok b"
  shows "bucket_ok (dropWhile (\<lambda>s. bkey s < k) b) \<and>
    (dropWhile (\<lambda>s. bkey s < k) b \<noteq> [] \<and> \<not> k < bkey (hd (dropWhile (\<lambda>s. bkey s < k) b)) \<longleftrightarrow> k \<in> bkeys b) \<and>
    {j \<in> bkeys (dropWhile (\<lambda>s. bkey s < k) b). k < j} = {j \<in> bkeys b. k < j}"
  using assms
proof (induction b)
  case (Cons e b)
  show ?case
  proof (cases "bkey e < k")
    case True
    with Cons show ?thesis by (simp del: sorted_wrt_map) fastforce
  next
    case False
    have "k \<notin> bkeys b"
      using Cons.prems False unfolding bucket_ok_Cons by auto
    with False Cons.prems show ?thesis by (auto simp: not_less)
  qed
qed simp

lemma hidden_keys_above:
  assumes "{j \<in> A. (k :: LedgerKey) < j} = {j \<in> B. k < j}" "{j \<in> C. k < j} = {j \<in> D. k < j}"
  shows "{j \<in> A \<union> C. k < j} = {j \<in> B \<union> D. k < j}"
  using assms by auto

lemma shadowed_result:
  assumes "\<forall>b \<in> set sis. bucket_ok b" and "shadowed e sis = (r, sis1)"
  shows "(r \<longleftrightarrow> bkey e \<in> hidden_keys sis) \<and> (\<forall>b \<in> set sis1. bucket_ok b) \<and>
    {j \<in> hidden_keys sis1. bkey e < j} = {j \<in> hidden_keys sis. bkey e < j}"
  using assms
proof (induction sis arbitrary: r sis1)
  case (Cons b sis)
  define d where "d = dropWhile (\<lambda>s. bkey s < bkey e) b"
  have ok: "bucket_ok d" and hit: "d \<noteq> [] \<and> \<not> bkey e < bkey (hd d) \<longleftrightarrow> bkey e \<in> bkeys b"
    and above: "{j \<in> bkeys d. bkey e < j} = {j \<in> bkeys b. bkey e < j}"
    using dropWhile_bucket [of b "bkey e"] Cons.prems(1) unfolding d_def by simp_all
  obtain r2 sis2 where rec: "shadowed e sis = (r2, sis2)" by fastforce
  have IH: "r2 \<longleftrightarrow> bkey e \<in> hidden_keys sis" "\<forall>b \<in> set sis2. bucket_ok b"
      "{j \<in> hidden_keys sis2. bkey e < j} = {j \<in> hidden_keys sis. bkey e < j}"
    using Cons.IH [OF _ rec] Cons.prems(1) by simp_all
  have step: "shadowed e (b # sis) = (if bkey e \<in> bkeys b then (True, d # sis) else (r2, d # sis2))"
    using hit rec by (simp add: Let_def flip: d_def)
  show ?case
  proof (cases "bkey e \<in> bkeys b")
    case True
    with step Cons.prems(2) have "r" "sis1 = d # sis" by simp_all
    with True ok Cons.prems(1) hidden_keys_above [OF above refl] show ?thesis
      by (simp only: hidden_keys_simps list.set) blast
  next
    case False
    with step Cons.prems(2) have "r = r2" "sis1 = d # sis2" by simp_all
    with False ok IH hidden_keys_above [OF above IH(3)] show ?thesis
      by (simp only: hidden_keys_simps list.set) blast
  qed
qed simp

text \<open>What the output iterator holds so far.\<close>

definition contents :: "OutputIterator \<Rightarrow> Bucket" where
  "contents out = mOut out @ (case mBuf out of None \<Rightarrow> [] | Some e \<Rightarrow> [e])"

definition out_ok :: "OutputIterator \<Rightarrow> bool" where
  "out_ok out \<longleftrightarrow> mObjectsPut out = length (mOut out)"

lemma getBucket_contents: "out_ok out \<Longrightarrow> getBucket out = contents out"
  by (auto simp: getBucket_def contents_def out_ok_def writeOne_def Let_def split: option.split)

lemma contents_init [simp]: "contents (OutputIterator_init keep) = []" "out_ok (OutputIterator_init keep)"
  "mKeepDead (OutputIterator_init keep) = keep"
  by (simp_all add: contents_def out_ok_def OutputIterator_init_def)

lemma put_contents:
  assumes "out_ok out" "\<forall>x \<in> set (contents out). bkey x < bkey e"
  shows "\<exists>out1. put e out = Inr out1 \<and> out_ok out1 \<and> mKeepDead out1 = mKeepDead out \<and>
    contents out1 = contents out @ (if mKeepDead out \<or> \<not> isDead e then [e] else [])"
  using assms
  by (cases "mBuf out") (auto simp: put_def contents_def out_ok_def writeOne_def assertE_def Let_def)

lemma put_candidates_result:
  "bucket_ok es \<Longrightarrow> \<forall>b \<in> set sis. bucket_ok b \<Longrightarrow> out_ok out \<Longrightarrow>
   \<forall>x \<in> set (contents out). \<forall>e \<in> set es. bkey x < bkey e \<Longrightarrow>
   \<exists>out1. put_candidates es sis out = Inr out1 \<and> out_ok out1 \<and>
     contents out1 = contents out @
       filter (\<lambda>e. bkey e \<notin> hidden_keys sis \<and> (mKeepDead out \<or> \<not> isDead e)) es"
proof (induction es arbitrary: sis out)
  case (Cons e es)
  obtain r sis1 where s: "shadowed e sis = (r, sis1)" by fastforce
  note res = shadowed_result [OF Cons.prems(2) s]
  have above: "\<forall>x \<in> set es. bkey e < bkey x" using Cons.prems(1) by simp
  have hid: "x \<in> set es \<Longrightarrow> bkey x \<in> hidden_keys sis1 \<longleftrightarrow> bkey x \<in> hidden_keys sis" for x
    using res above by blast
  have tail: "\<exists>out2. put_candidates es sis1 out1 = Inr out2 \<and> out_ok out2 \<and> contents out2 = contents out1 @
      filter (\<lambda>e. bkey e \<notin> hidden_keys sis \<and> (mKeepDead out \<or> \<not> isDead e)) es"
    if "out_ok out1" "mKeepDead out1 = mKeepDead out" "\<forall>x \<in> set (contents out1). \<forall>e \<in> set es. bkey x < bkey e" for out1
    using Cons.IH [of sis1 out1] Cons.prems(1) res that hid by (simp cong: filter_cong)
  show ?case
  proof (cases r)
    case True
    with tail [of out] res s Cons.prems show ?thesis by (simp add: maybe_put_def)
  next
    case False
    obtain out1 where out1: "put e out = Inr out1" "out_ok out1" "mKeepDead out1 = mKeepDead out"
      "contents out1 = contents out @ (if mKeepDead out \<or> \<not> isDead e then [e] else [])"
      using put_contents [of out e] Cons.prems(3,4) by auto
    with tail [of out1] Cons.prems above False res s show ?thesis
      by (auto simp: maybe_put_def split: if_splits)
  qed
qed simp

definition merged :: "Bucket \<Rightarrow> Bucket \<Rightarrow> Bucket list \<Rightarrow> bool \<Rightarrow> Bucket" where
  "merged old new shadows keep =
     filter (\<lambda>e. bkey e \<notin> hidden_keys shadows \<and> (keep \<or> \<not> isDead e)) (merge_entries old new)"

lemma Bucket_merge_merged:
  assumes "bucket_ok old" "bucket_ok new" "\<forall>b \<in> set shadows. bucket_ok b"
  shows "Bucket_merge old new shadows keep = Inr (merged old new shadows keep)"
  using put_candidates_result [OF bucket_ok_merge_entries [OF assms(1,2)] assms(3), of "OutputIterator_init keep"]
  by (auto simp: Bucket_merge_def merge_loop_candidates getBucket_contents merged_def)

lemma bucket_ok_merged: "bucket_ok old \<Longrightarrow> bucket_ok new \<Longrightarrow> bucket_ok (merged old new shadows keep)"
  unfolding merged_def by (intro bucket_ok_filter bucket_ok_merge_entries)

text \<open>The newer entry wins; shadowed identities and, where they need not be kept, dead entries are left out.\<close>

definition newest :: "BucketEntry option \<Rightarrow> BucketEntry option \<Rightarrow> BucketEntry option" where
  "newest new old = (case new of None \<Rightarrow> old | Some e \<Rightarrow> Some e)"

definition drop_dead :: "bool \<Rightarrow> BucketEntry option \<Rightarrow> BucketEntry option" where
  "drop_dead keep r = (case r of None \<Rightarrow> None | Some e \<Rightarrow> if keep \<or> \<not> isDead e then Some e else None)"

lemma entry_of_merged:
  assumes "bucket_ok old" "bucket_ok new"
  shows "entry_of (merged old new shadows keep) k =
    (if k \<in> hidden_keys shadows then None else drop_dead keep (newest (entry_of new k) (entry_of old k)))"
proof -
  have "bkey e = k" if "entry_of (merge_entries old new) k = Some e" for e
    using entry_of_key [OF that] by simp
  then show ?thesis
    unfolding merged_def entry_of_filter [OF bucket_ok_merge_entries [OF assms]]
    by (auto simp: entry_of_merge_entries [OF assms] newest_def drop_dead_def split: option.split)
qed

section \<open>A fresh bucket\<close>

lemma put_all_contents:
  "bucket_ok es \<Longrightarrow> out_ok out \<Longrightarrow> mKeepDead out \<Longrightarrow> \<forall>x \<in> set (contents out). \<forall>e \<in> set es. bkey x < bkey e \<Longrightarrow>
   \<exists>out1. put_all es out = Inr out1 \<and> out_ok out1 \<and> contents out1 = contents out @ es"
proof (induction es arbitrary: out)
  case (Cons e es)
  obtain out1 where out1: "put e out = Inr out1" "out_ok out1" "mKeepDead out1" "contents out1 = contents out @ [e]"
    using put_contents [of out e] Cons.prems by auto
  have "\<forall>x \<in> set (contents out1). \<forall>y \<in> set es. bkey x < bkey y"
    using Cons.prems(1,4) out1(4) by (auto simp: bucket_ok_Cons bkeys_def)
  then obtain out2 where "put_all es out1 = Inr out2" "out_ok out2" "contents out2 = contents out1 @ es"
    using Cons.IH [of out1] Cons.prems(1) out1(2,3) by (auto simp: bucket_ok_Cons)
  with out1(1,4) show ?case by simp
qed simp

lemma bucket_ok_sort:
  assumes "distinct (map bkey es)"
  shows "bucket_ok (sort_key bkey es)"
proof -
  have "distinct (map bkey (sort_key bkey es))"
    using assms by (metis distinct_map distinct_sort set_sort)
  then show ?thesis unfolding strict_sorted_iff using sorted_sort_key by blast
qed

lemma entry_of_sort:
  assumes "distinct (map bkey es)"
  shows "entry_of (sort_key bkey es) k = entry_of es k"
proof -
  have "distinct (map bkey (sort_key bkey es))"
    using bucket_ok_sort [OF assms] by (rule strict_sorted_distinct)
  then have "distinct (map fst (map (\<lambda>e. (bkey e, e)) es))"
    "distinct (map fst (map (\<lambda>e. (bkey e, e)) (sort_key bkey es)))"
    using assms by (simp_all add: comp_def)
  then have "map_of (map (\<lambda>e. (bkey e, e)) (sort_key bkey es)) = map_of (map (\<lambda>e. (bkey e, e)) es)"
    by (subst map_of_inject_set) simp_all
  then show ?thesis by (simp add: entry_of_def)
qed

definition batch_ok :: "LedgerEntry list \<Rightarrow> LedgerKey list \<Rightarrow> bool" where
  "batch_ok live dead \<longleftrightarrow> distinct (map LedgerEntryKey live) \<and> distinct dead"

lemma Bucket_fresh_result:
  assumes "batch_ok live dead"
  shows "\<exists>b. Bucket_fresh live dead = Inr b \<and> bucket_ok b \<and>
    (\<forall>k. entry_of b k = newest (entry_of (map DEADENTRY dead) k) (entry_of (map LIVEENTRY live) k))"
proof -
  have d: "distinct (map bkey (map LIVEENTRY live))" "distinct (map bkey (map DEADENTRY dead))"
    using assms by (simp_all add: batch_ok_def comp_def)
  let ?l = "sort_key bkey (map LIVEENTRY live)" and ?d = "sort_key bkey (map DEADENTRY dead)"
  note ok = bucket_ok_sort [OF d(1)] bucket_ok_sort [OF d(2)]
  obtain lo where lo: "put_all ?l (OutputIterator_init True) = Inr lo" "getBucket lo = ?l"
    using put_all_contents [OF ok(1), of "OutputIterator_init True"] by (auto simp: getBucket_contents)
  obtain do where do: "put_all ?d (OutputIterator_init True) = Inr do" "getBucket do = ?d"
    using put_all_contents [OF ok(2), of "OutputIterator_init True"] by (auto simp: getBucket_contents)
  have "Bucket_fresh live dead = Inr (merged ?l ?d [] True)"
    using lo do Bucket_merge_merged [OF ok, of "[]"] by (simp add: Bucket_fresh_def)
  moreover have "entry_of (merged ?l ?d [] True) k =
      newest (entry_of (map DEADENTRY dead) k) (entry_of (map LIVEENTRY live) k)" for k
    using entry_of_merged [OF ok, of "[]" True k] d by (simp add: entry_of_sort drop_dead_def split: option.split)
  ultimately show ?thesis using bucket_ok_merged [OF ok] by blast
qed

end
