(* ===== verification/FutureBucket.thy ===== *)
theory FutureBucket
  imports Bucket
begin

text \<open>
  \<^verbatim>\<open>src/bucket/FutureBucket.cpp\<close>: a merge in progress on a worker thread, with the hashes by which it is
  saved and restarted. The task is a pure function of immutable buckets, so the future is its value with
  a flag saying whether the worker has finished. A hash in hexadecimal is the hash it encodes, \<open>None\<close>
  for the empty string; the hash function is a parameter \<open>H\<close>.
\<close>

datatype FutureState = FB_CLEAR | FB_HASH_OUTPUT | FB_HASH_INPUTS | FB_LIVE_OUTPUT | FB_LIVE_INPUTS

record FutureBucket =
  mState :: FutureState
  mInputCurrBucket :: "Bucket option"
  mInputSnapBucket :: "Bucket option"
  mInputShadowBuckets :: "Bucket list"
  mOutputBucket :: "(Bucket \<times> bool) option"
  mInputCurrBucketHash :: "Hash option"
  mInputSnapBucketHash :: "Hash option"
  mInputShadowBucketHashes :: "Hash list"
  mOutputBucketHash :: "Hash option"
  mKeepDeadEntries :: bool

section \<open>Operations\<close>

text \<open>\<^verbatim>\<open>FutureBucket()\<close> does not set \<^verbatim>\<open>mKeepDeadEntries\<close>: its value is an argument.\<close>

definition FutureBucket_default :: "bool \<Rightarrow> FutureBucket" where
  "FutureBucket_default unset =
     \<lparr>mState = FB_CLEAR, mInputCurrBucket = None, mInputSnapBucket = None, mInputShadowBuckets = [],
      mOutputBucket = None, mInputCurrBucketHash = None, mInputSnapBucketHash = None,
      mInputShadowBucketHashes = [], mOutputBucketHash = None, mKeepDeadEntries = unset\<rparr>"

definition isLive :: "FutureBucket \<Rightarrow> bool" where
  "isLive fb \<longleftrightarrow> mState fb = FB_LIVE_INPUTS \<or> mState fb = FB_LIVE_OUTPUT"

definition isMerging :: "FutureBucket \<Rightarrow> bool" where
  "isMerging fb \<longleftrightarrow> mState fb = FB_LIVE_INPUTS"

definition hasHashes :: "FutureBucket \<Rightarrow> bool" where
  "hasHashes fb \<longleftrightarrow> mState fb = FB_HASH_INPUTS \<or> mState fb = FB_HASH_OUTPUT"

definition mergeComplete :: "FutureBucket \<Rightarrow> scp_error + bool" where
  "mergeComplete fb =
     bindE (assertE (isLive fb)) (\<lambda>_.
       case mOutputBucket fb of None \<Rightarrow> Inl (Runtime_Error ''no state'') | Some (_, ready) \<Rightarrow> Inr ready)"

definition checkHashEq :: "(Bucket \<Rightarrow> Hash) \<Rightarrow> Bucket \<Rightarrow> Hash option \<Rightarrow> scp_error + unit" where
  "checkHashEq H b h =
     (case h of
        None \<Rightarrow> Inl (Runtime_Error ''wrong number of hex bytes when decoding uint256'')
      | Some x \<Rightarrow> assertE (H b = x))"

fun checkAllHashes :: "(Bucket \<Rightarrow> Hash) \<Rightarrow> Bucket list \<Rightarrow> Hash list \<Rightarrow> scp_error + unit" where
  "checkAllHashes H (b # bs) (h # hs) = bindE (checkHashEq H b (Some h)) (\<lambda>_. checkAllHashes H bs hs)"
| "checkAllHashes H _ _ = Inr ()"

definition checkHashesMatch :: "(Bucket \<Rightarrow> Hash) \<Rightarrow> FutureBucket \<Rightarrow> scp_error + unit" where
  "checkHashesMatch H fb =
     bindE (if mInputShadowBuckets fb \<noteq> []
            then bindE (assertE (length (mInputShadowBuckets fb) = length (mInputShadowBucketHashes fb))) (\<lambda>_.
                   checkAllHashes H (mInputShadowBuckets fb) (mInputShadowBucketHashes fb))
            else Inr ()) (\<lambda>_.
     bindE (case mInputSnapBucket fb of None \<Rightarrow> Inr () | Some b \<Rightarrow> checkHashEq H b (mInputSnapBucketHash fb)) (\<lambda>_.
     bindE (case mInputCurrBucket fb of None \<Rightarrow> Inr () | Some b \<Rightarrow> checkHashEq H b (mInputCurrBucketHash fb)) (\<lambda>_.
       case mOutputBucket fb of
         None \<Rightarrow> Inr ()
       | Some (b, _) \<Rightarrow>
           bindE (mergeComplete fb) (\<lambda>done.
             if done \<and> mOutputBucketHash fb \<noteq> None then checkHashEq H b (mOutputBucketHash fb) else Inr ()))))"

definition checkState :: "(Bucket \<Rightarrow> Hash) \<Rightarrow> FutureBucket \<Rightarrow> scp_error + unit" where
  "checkState H fb =
     (case mState fb of
        FB_CLEAR \<Rightarrow>
          assertE (mInputShadowBuckets fb = [] \<and> mInputSnapBucket fb = None \<and> mInputCurrBucket fb = None \<and>
            mOutputBucket fb = None \<and> mInputShadowBucketHashes fb = [] \<and> mInputSnapBucketHash fb = None \<and>
            mInputCurrBucketHash fb = None \<and> mOutputBucketHash fb = None)
      | FB_LIVE_INPUTS \<Rightarrow>
          bindE (assertE (mInputSnapBucket fb \<noteq> None \<and> mInputCurrBucket fb \<noteq> None \<and>
            mOutputBucket fb \<noteq> None \<and> mOutputBucketHash fb = None)) (\<lambda>_. checkHashesMatch H fb)
      | FB_LIVE_OUTPUT \<Rightarrow>
          bindE (mergeComplete fb) (\<lambda>done.
          bindE (assertE (done \<and> mOutputBucket fb \<noteq> None \<and> mOutputBucketHash fb \<noteq> None)) (\<lambda>_.
            checkHashesMatch H fb))
      | FB_HASH_INPUTS \<Rightarrow>
          assertE (mInputSnapBucket fb = None \<and> mInputCurrBucket fb = None \<and> mOutputBucket fb = None \<and>
            mInputSnapBucketHash fb \<noteq> None \<and> mInputCurrBucketHash fb \<noteq> None \<and> mOutputBucketHash fb = None)
      | FB_HASH_OUTPUT \<Rightarrow>
          assertE (mInputSnapBucket fb = None \<and> mInputCurrBucket fb = None \<and> mOutputBucket fb = None \<and>
            mInputSnapBucketHash fb = None \<and> mInputCurrBucketHash fb = None \<and> mOutputBucketHash fb \<noteq> None))"

definition clearInputs :: "FutureBucket \<Rightarrow> FutureBucket" where
  "clearInputs fb = fb\<lparr>mInputShadowBuckets := [], mInputSnapBucket := None, mInputCurrBucket := None,
     mInputShadowBucketHashes := [], mInputSnapBucketHash := None, mInputCurrBucketHash := None\<rparr>"

definition clearOutput :: "FutureBucket \<Rightarrow> FutureBucket" where
  "clearOutput fb = fb\<lparr>mOutputBucket := None, mOutputBucketHash := None\<rparr>"

definition clear :: "FutureBucket \<Rightarrow> FutureBucket" where
  "clear fb = clearOutput (clearInputs (fb\<lparr>mState := FB_CLEAR\<rparr>))"

text \<open>The task starts unfinished; \<open>workerDone\<close> is the worker thread finishing it.\<close>

definition startMerge :: "(Bucket \<Rightarrow> Hash) \<Rightarrow> FutureBucket \<Rightarrow> scp_error + FutureBucket" where
  "startMerge H fb =
     bindE (assertE (mState fb = FB_LIVE_INPUTS)) (\<lambda>_.
     bindE (assertE (mInputCurrBucket fb \<noteq> None \<and> mInputSnapBucket fb \<noteq> None \<and> mOutputBucket fb = None)) (\<lambda>_.
     bindE (deref (mInputCurrBucket fb)) (\<lambda>cur. bindE (deref (mInputSnapBucket fb)) (\<lambda>snap.
     bindE (Bucket_merge cur snap (mInputShadowBuckets fb) (mKeepDeadEntries fb)) (\<lambda>res.
       let fb1 = fb\<lparr>mOutputBucket := Some (res, False)\<rparr>
       in bindE (checkState H fb1) (\<lambda>_. Inr fb1))))))"

definition workerDone :: "FutureBucket \<Rightarrow> FutureBucket" where
  "workerDone fb = fb\<lparr>mOutputBucket := map_option (\<lambda>(b, _). (b, True)) (mOutputBucket fb)\<rparr>"

definition FutureBucket_inputs ::
  "(Bucket \<Rightarrow> Hash) \<Rightarrow> Bucket \<Rightarrow> Bucket \<Rightarrow> Bucket list \<Rightarrow> bool \<Rightarrow> scp_error + FutureBucket"
where
  "FutureBucket_inputs H cur snap shadows keepDeadEntries =
     startMerge H
       \<lparr>mState = FB_LIVE_INPUTS, mInputCurrBucket = Some cur, mInputSnapBucket = Some snap,
        mInputShadowBuckets = shadows, mOutputBucket = None, mInputCurrBucketHash = Some (H cur),
        mInputSnapBucketHash = Some (H snap), mInputShadowBucketHashes = map H shadows,
        mOutputBucketHash = None, mKeepDeadEntries = keepDeadEntries\<rparr>"

definition setLiveOutput :: "(Bucket \<Rightarrow> Hash) \<Rightarrow> Bucket option \<Rightarrow> FutureBucket \<Rightarrow> scp_error + FutureBucket" where
  "setLiveOutput H output fb =
     bindE (deref output) (\<lambda>b.
       let fb1 = fb\<lparr>mState := FB_LIVE_OUTPUT, mOutputBucketHash := Some (H b), mOutputBucket := Some (b, True)\<rparr>
       in bindE (checkState H fb1) (\<lambda>_. Inr fb1))"

text \<open>\<^verbatim>\<open>resolve\<close> waits for the worker.\<close>

definition resolve :: "(Bucket \<Rightarrow> Hash) \<Rightarrow> FutureBucket \<Rightarrow> scp_error + (Bucket \<times> FutureBucket)" where
  "resolve H fb =
     bindE (checkState H fb) (\<lambda>_. bindE (assertE (isLive fb)) (\<lambda>_.
       let fb1 = workerDone (clearInputs fb)
       in bindE (deref (mOutputBucket fb1)) (\<lambda>(bucket, _).
          bindE (case mOutputBucketHash fb1 of
                   None \<Rightarrow> Inr (fb1\<lparr>mOutputBucketHash := Some (H bucket)\<rparr>)
                 | Some h \<Rightarrow> bindE (checkHashEq H bucket (Some h)) (\<lambda>_. Inr fb1)) (\<lambda>fb2.
            let fb3 = fb2\<lparr>mState := FB_LIVE_OUTPUT\<rparr>
            in bindE (checkState H fb3) (\<lambda>_. Inr (bucket, fb3))))))"

definition hasOutputHash :: "FutureBucket \<Rightarrow> scp_error + bool" where
  "hasOutputHash fb =
     (if mState fb = FB_LIVE_OUTPUT \<or> mState fb = FB_HASH_OUTPUT
      then bindE (assertE (mOutputBucketHash fb \<noteq> None)) (\<lambda>_. Inr True) else Inr False)"

definition getOutputHash :: "FutureBucket \<Rightarrow> scp_error + Hash" where
  "getOutputHash fb =
     bindE (assertE (mState fb = FB_LIVE_OUTPUT \<or> mState fb = FB_HASH_OUTPUT)) (\<lambda>_.
     bindE (assertE (mOutputBucketHash fb \<noteq> None)) (\<lambda>_. deref (mOutputBucketHash fb)))"

fun getAllBuckets :: "(Hash \<Rightarrow> Bucket option) \<Rightarrow> Hash list \<Rightarrow> scp_error + Bucket list" where
  "getAllBuckets store [] = Inr []"
| "getAllBuckets store (h # hs) =
     bindE (assertE (store h \<noteq> None)) (\<lambda>_. bindE (deref (store h)) (\<lambda>b.
     bindE (getAllBuckets store hs) (\<lambda>bs. Inr (b # bs))))"

text \<open>\<open>store\<close> is \<^verbatim>\<open>BucketManager::getBucketByHash\<close>.\<close>

definition makeLive :: "(Bucket \<Rightarrow> Hash) \<Rightarrow> (Hash \<Rightarrow> Bucket option) \<Rightarrow> FutureBucket \<Rightarrow> scp_error + FutureBucket" where
  "makeLive H store fb =
     bindE (checkState H fb) (\<lambda>_. bindE (assertE (\<not> isLive fb \<and> hasHashes fb)) (\<lambda>_.
     bindE (hasOutputHash fb) (\<lambda>out.
       if out then bindE (getOutputHash fb) (\<lambda>h. setLiveOutput H (store h) fb)
       else bindE (assertE (mState fb = FB_HASH_INPUTS)) (\<lambda>_.
            bindE (deref (mInputCurrBucketHash fb)) (\<lambda>hc. bindE (deref (mInputSnapBucketHash fb)) (\<lambda>hs.
            bindE (assertE (mInputShadowBuckets fb = [])) (\<lambda>_.
            bindE (getAllBuckets store (mInputShadowBucketHashes fb)) (\<lambda>shadows.
            bindE (startMerge H (fb\<lparr>mInputCurrBucket := store hc, mInputSnapBucket := store hs,
                     mInputShadowBuckets := shadows, mState := FB_LIVE_INPUTS\<rparr>)) (\<lambda>fb1.
            bindE (assertE (isLive fb1)) (\<lambda>_. Inr fb1)))))))))) "

definition getHashes :: "FutureBucket \<Rightarrow> Hash list" where
  "getHashes fb =
     (case mInputCurrBucketHash fb of None \<Rightarrow> [] | Some h \<Rightarrow> [h]) @
     (case mInputSnapBucketHash fb of None \<Rightarrow> [] | Some h \<Rightarrow> [h]) @
     mInputShadowBucketHashes fb @
     (case mOutputBucketHash fb of None \<Rightarrow> [] | Some h \<Rightarrow> [h])"

text \<open>What \<^verbatim>\<open>save\<close> writes and \<^verbatim>\<open>load\<close> reads.\<close>

datatype SavedFuture =
    SavedInputs "Hash option" "Hash option" "Hash list"
  | SavedOutput "Hash option"
  | SavedClear

definition save :: "(Bucket \<Rightarrow> Hash) \<Rightarrow> FutureBucket \<Rightarrow> scp_error + SavedFuture" where
  "save H fb =
     bindE (checkState H fb) (\<lambda>_.
       Inr (if mState fb = FB_LIVE_INPUTS \<or> mState fb = FB_HASH_INPUTS
            then SavedInputs (mInputCurrBucketHash fb) (mInputSnapBucketHash fb) (mInputShadowBucketHashes fb)
            else if mState fb = FB_LIVE_OUTPUT \<or> mState fb = FB_HASH_OUTPUT
            then SavedOutput (mOutputBucketHash fb) else SavedClear))"

definition load :: "(Bucket \<Rightarrow> Hash) \<Rightarrow> SavedFuture \<Rightarrow> FutureBucket \<Rightarrow> scp_error + FutureBucket" where
  "load H sv fb =
     (let fb0 = clear fb;
          fb1 = (case sv of
                   SavedInputs c s sh \<Rightarrow> fb0\<lparr>mState := FB_HASH_INPUTS, mInputCurrBucketHash := c,
                     mInputSnapBucketHash := s, mInputShadowBucketHashes := sh\<rparr>
                 | SavedOutput h \<Rightarrow> fb0\<lparr>mState := FB_HASH_OUTPUT, mOutputBucketHash := h\<rparr>
                 | SavedClear \<Rightarrow> fb0)
      in bindE (checkState H fb1) (\<lambda>_. Inr fb1))"

section \<open>A merge that is running, and one that is resolved\<close>

text \<open>\<open>running H fb c s sh keep\<close>: \<open>fb\<close> merges the sorted buckets \<open>c\<close> and \<open>s\<close> under the shadows \<open>sh\<close>.\<close>

definition running_fb :: "(Bucket \<Rightarrow> Hash) \<Rightarrow> Bucket \<Rightarrow> Bucket \<Rightarrow> Bucket list \<Rightarrow> bool \<Rightarrow> bool \<Rightarrow> FutureBucket" where
  "running_fb H c s sh keep ready =
     \<lparr>mState = FB_LIVE_INPUTS, mInputCurrBucket = Some c, mInputSnapBucket = Some s,
      mInputShadowBuckets = sh, mOutputBucket = Some (merged c s sh keep, ready),
      mInputCurrBucketHash = Some (H c), mInputSnapBucketHash = Some (H s),
      mInputShadowBucketHashes = map H sh, mOutputBucketHash = None, mKeepDeadEntries = keep\<rparr>"

definition running :: "(Bucket \<Rightarrow> Hash) \<Rightarrow> FutureBucket \<Rightarrow> Bucket \<Rightarrow> Bucket \<Rightarrow> Bucket list \<Rightarrow> bool \<Rightarrow> bool" where
  "running H fb c s sh keep \<longleftrightarrow>
     bucket_ok c \<and> bucket_ok s \<and> (\<forall>b \<in> set sh. bucket_ok b) \<and> (\<exists>ready. fb = running_fb H c s sh keep ready)"

text \<open>A future with its output only.\<close>

definition output_fb :: "(Bucket \<Rightarrow> Hash) \<Rightarrow> Bucket \<Rightarrow> bool \<Rightarrow> FutureBucket" where
  "output_fb H b keep =
     \<lparr>mState = FB_LIVE_OUTPUT, mInputCurrBucket = None, mInputSnapBucket = None, mInputShadowBuckets = [],
      mOutputBucket = Some (b, True), mInputCurrBucketHash = None, mInputSnapBucketHash = None,
      mInputShadowBucketHashes = [], mOutputBucketHash = Some (H b), mKeepDeadEntries = keep\<rparr>"

definition cleared :: "FutureBucket \<Rightarrow> bool" where
  "cleared fb \<longleftrightarrow> (\<exists>unset. fb = FutureBucket_default unset)"

lemmas future_defs = checkHashEq_def assertE_def mergeComplete_def isLive_def isMerging_def hasHashes_def
  clearInputs_def clearOutput_def clear_def workerDone_def FutureBucket_default_def

lemma checkAllHashes_map [simp]: "checkAllHashes H bs (map H bs) = Inr ()"
  by (induction bs) (simp_all add: checkHashEq_def assertE_def)

lemma checkState_fb [simp]:
  "checkState H (running_fb H c s sh keep ready) = Inr ()"
  "checkState H (output_fb H b keep) = Inr ()"
  by (cases sh; simp add: running_fb_def output_fb_def checkState_def checkHashesMatch_def future_defs)+

lemma cleared_clear: "cleared (clear fb)"
  by (cases fb) (auto simp: cleared_def future_defs)

lemma cleared_simps: "cleared fb \<Longrightarrow> \<not> isLive fb \<and> \<not> isMerging fb"
  by (auto simp: cleared_def future_defs)

lemma running_simps: "running H fb c s sh keep \<Longrightarrow> isLive fb \<and> isMerging fb"
  by (auto simp: running_def running_fb_def future_defs)

lemma running_workerDone: "running H fb c s sh keep \<Longrightarrow> running H (workerDone fb) c s sh keep"
  by (auto simp: running_def running_fb_def workerDone_def)

lemma startMerge_running:
  assumes "bucket_ok c" "bucket_ok s" "\<forall>b \<in> set sh. bucket_ok b"
  shows "startMerge H
    \<lparr>mState = FB_LIVE_INPUTS, mInputCurrBucket = Some c, mInputSnapBucket = Some s,
     mInputShadowBuckets = sh, mOutputBucket = None, mInputCurrBucketHash = Some (H c),
     mInputSnapBucketHash = Some (H s), mInputShadowBucketHashes = map H sh,
     mOutputBucketHash = None, mKeepDeadEntries = keep\<rparr> = Inr (running_fb H c s sh keep False)"
  using checkState_fb(1) [of H c s sh keep False]
  by (simp add: startMerge_def Bucket_merge_merged [OF assms] assertE_def running_fb_def)

lemma FutureBucket_inputs_running:
  assumes "bucket_ok c" "bucket_ok s" "\<forall>b \<in> set sh. bucket_ok b"
  shows "\<exists>fb. FutureBucket_inputs H c s sh keep = Inr fb \<and> running H fb c s sh keep"
  unfolding FutureBucket_inputs_def startMerge_running [OF assms] running_def using assms by blast

text \<open>
  Resolving a running merge returns the merged bucket, whether or not the worker has finished, and
  leaves the future live with its output only.
\<close>

lemma resolve_running:
  assumes "running H fb c s sh keep"
  shows "resolve H fb = Inr (merged c s sh keep, output_fb H (merged c s sh keep) keep)"
proof -
  obtain ready where fb: "fb = running_fb H c s sh keep ready" using assms by (auto simp: running_def)
  let ?b = "merged c s sh keep"
  have w: "workerDone (clearInputs fb) = (FutureBucket_default keep)
      \<lparr>mState := FB_LIVE_INPUTS, mOutputBucket := Some (?b, True)\<rparr>"
    by (simp add: fb running_fb_def future_defs)
  have "isLive fb" using running_simps [OF assms] by simp
  then show ?thesis
    using checkState_fb(2) [of H ?b keep]
    by (simp add: resolve_def w Let_def assertE_def) (simp add: fb FutureBucket_default_def flip: output_fb_def)
qed

lemma resolve_output: "resolve H (output_fb H b keep) = Inr (b, output_fb H b keep)"
proof -
  have w: "workerDone (clearInputs (output_fb H b keep)) = output_fb H b keep"
    by (simp add: output_fb_def future_defs)
  have f: "mOutputBucket (output_fb H b keep) = Some (b, True)" "mOutputBucketHash (output_fb H b keep) = Some (H b)"
    "isLive (output_fb H b keep)" by (simp_all add: output_fb_def isLive_def)
  have u: "(output_fb H b keep)\<lparr>mState := FB_LIVE_OUTPUT\<rparr> = output_fb H b keep" by (simp add: output_fb_def)
  show ?thesis
    unfolding resolve_def w Let_def by (simp add: f assertE_def checkHashEq_def) (simp add: u)
qed

section \<open>Saving and restarting\<close>

definition stores :: "(Bucket \<Rightarrow> Hash) \<Rightarrow> (Hash \<Rightarrow> Bucket option) \<Rightarrow> Bucket list \<Rightarrow> bool" where
  "stores H store bs \<longleftrightarrow> (\<forall>b \<in> set bs. store (H b) = Some b)"

lemma getAllBuckets_stores: "stores H store bs \<Longrightarrow> getAllBuckets store (map H bs) = Inr bs"
  by (induction bs) (simp_all add: stores_def assertE_def)

lemma restart_running:
  assumes "running H fb c s sh keep" "stores H store (c # s # sh)"
  shows "bindE (save H fb) (\<lambda>sv. bindE (load H sv (FutureBucket_default unset)) (makeLive H store)) =
    Inr (running_fb H c s sh unset False)"
proof -
  obtain ready where fb: "fb = running_fb H c s sh keep ready"
    and ok: "bucket_ok c" "bucket_ok s" "\<forall>b \<in> set sh. bucket_ok b" using assms(1) by (auto simp: running_def)
  let ?ld = "(FutureBucket_default unset)\<lparr>mState := FB_HASH_INPUTS, mInputCurrBucketHash := Some (H c),
      mInputSnapBucketHash := Some (H s), mInputShadowBucketHashes := map H sh\<rparr>"
  have "save H fb = Inr (SavedInputs (Some (H c)) (Some (H s)) (map H sh))"
    unfolding fb save_def checkState_fb by (simp add: running_fb_def)
  moreover have ld: "checkState H ?ld = Inr ()" by (simp add: checkState_def future_defs)
  then have "load H (SavedInputs (Some (H c)) (Some (H s)) (map H sh)) (FutureBucket_default unset) = Inr ?ld"
    by (simp add: load_def future_defs)
  moreover have st: "store (H c) = Some c" "store (H s) = Some s" "getAllBuckets store (map H sh) = Inr sh"
    using assms(2) by (simp_all add: stores_def getAllBuckets_stores)
  have "makeLive H store ?ld = Inr (running_fb H c s sh unset False)"
    using startMerge_running [OF ok, of H unset]
    unfolding makeLive_def ld
    by (simp add: st hasOutputHash_def future_defs) (simp add: running_fb_def)
  ultimately show ?thesis by simp
qed

end
