(* ===== verification/BucketList.thy ===== *)
theory BucketList
  imports FutureBucket
begin

text \<open>
  \<^verbatim>\<open>src/bucket/BucketList.cpp\<close>: eleven levels, each with a current bucket, a snapshot and a merge in
  progress. Closing a ledger adds a batch of live and dead entries to level 0; at the ledgers where a
  level is half full it spills into the next one. Also the saved form of a bucket list
  (\<^verbatim>\<open>src/history/HistoryArchive.cpp\<close>, \<^verbatim>\<open>BucketManagerImpl::assumeState\<close>). The reference counting of bucket
  files (\<^verbatim>\<open>setRetain\<close>) is not part of the model.
\<close>

unbundle bit_operations_syntax

definition kNumLevels :: nat where
  "kNumLevels = 11"

record BucketLevel =
  mLevel :: nat
  mNextCurr :: FutureBucket
  mCurr :: Bucket
  mSnap :: Bucket

type_synonym BucketList = "BucketLevel list"

section \<open>Sizes of levels\<close>

definition levelSize :: "nat \<Rightarrow> scp_error + uint32" where
  "levelSize level = bindE (assertE (level < kNumLevels)) (\<lambda>_. Inr (push_bit (2 * (level + 1)) 1))"

definition levelHalf :: "nat \<Rightarrow> scp_error + uint32" where
  "levelHalf level = bindE (levelSize level) (\<lambda>s. Inr (drop_bit 1 s))"

definition mask32 :: "uint32 \<Rightarrow> uint32 \<Rightarrow> uint32" where
  "mask32 v m = v AND NOT (m - 1)"

definition levelShouldSpill :: "uint32 \<Rightarrow> nat \<Rightarrow> scp_error + bool" where
  "levelShouldSpill ledger level =
     (if level = kNumLevels - 1 then Inr False
      else bindE (levelHalf level) (\<lambda>h.
             if ledger = mask32 ledger h then Inr True
             else bindE (levelSize level) (\<lambda>s. Inr (ledger = mask32 ledger s))))"

section \<open>One level\<close>

definition BucketLevel_init :: "nat \<Rightarrow> BucketLevel" where
  "BucketLevel_init i = \<lparr>mLevel = i, mNextCurr = FutureBucket_default True, mCurr = [], mSnap = []\<rparr>"

definition setNext :: "FutureBucket \<Rightarrow> BucketLevel \<Rightarrow> BucketLevel" where
  "setNext fb lev = lev\<lparr>mNextCurr := fb\<rparr>"

definition setCurr :: "Bucket \<Rightarrow> BucketLevel \<Rightarrow> BucketLevel" where
  "setCurr b lev = lev\<lparr>mNextCurr := clear (mNextCurr lev), mCurr := b\<rparr>"

definition setSnap :: "Bucket \<Rightarrow> BucketLevel \<Rightarrow> BucketLevel" where
  "setSnap b lev = lev\<lparr>mSnap := b\<rparr>"

definition commit :: "(Bucket \<Rightarrow> Hash) \<Rightarrow> BucketLevel \<Rightarrow> scp_error + BucketLevel" where
  "commit H lev =
     bindE (if isLive (mNextCurr lev)
            then bindE (resolve H (mNextCurr lev)) (\<lambda>(b, fb). Inr (setCurr b (setNext fb lev)))
            else Inr lev) (\<lambda>lev1.
     bindE (assertE (\<not> isMerging (mNextCurr lev1))) (\<lambda>_. Inr lev1))"

definition prepare ::
  "(Bucket \<Rightarrow> Hash) \<Rightarrow> uint32 \<Rightarrow> Bucket \<Rightarrow> Bucket list \<Rightarrow> BucketLevel \<Rightarrow> scp_error + BucketLevel"
where
  "prepare H currLedger snap shadows lev =
     bindE (assertE (\<not> isMerging (mNextCurr lev))) (\<lambda>_.
     bindE (if mLevel lev > 0
            then bindE (levelHalf (mLevel lev - 1)) (\<lambda>h.
                 bindE (levelShouldSpill (currLedger + h) (mLevel lev)) (\<lambda>spill.
                   Inr (if spill then [] else mCurr lev)))
            else Inr (mCurr lev)) (\<lambda>cur.
     bindE (FutureBucket_inputs H cur snap shadows (mLevel lev < kNumLevels - 1)) (\<lambda>fb.
     bindE (assertE (isMerging fb)) (\<lambda>_. Inr (setNext fb lev)))))"

definition snapLevel :: "BucketLevel \<Rightarrow> Bucket \<times> BucketLevel" where
  "snapLevel lev = (mCurr lev, lev\<lparr>mSnap := mCurr lev, mCurr := []\<rparr>)"

text \<open>The hashes: \<open>sha\<close> is SHA256 over the concatenation of hashes.\<close>

definition BucketLevel_getHash :: "(Hash list \<Rightarrow> Hash) \<Rightarrow> (Bucket \<Rightarrow> Hash) \<Rightarrow> BucketLevel \<Rightarrow> Hash" where
  "BucketLevel_getHash sha H lev = sha [H (mCurr lev), H (mSnap lev)]"

definition BucketList_getHash :: "(Hash list \<Rightarrow> Hash) \<Rightarrow> (Bucket \<Rightarrow> Hash) \<Rightarrow> BucketList \<Rightarrow> Hash" where
  "BucketList_getHash sha H levels = sha (map (BucketLevel_getHash sha H) levels)"

section \<open>The list\<close>

definition BucketList_init :: BucketList where
  "BucketList_init = map BucketLevel_init [0..<kNumLevels]"

definition buckets_of :: "BucketList \<Rightarrow> Bucket list" where
  "buckets_of levels = concat (map (\<lambda>l. [mCurr l, mSnap l]) levels)"

definition pop2 :: "'a list \<Rightarrow> 'a list" where
  "pop2 xs = butlast (butlast xs)"

definition spillInto ::
  "(Bucket \<Rightarrow> Hash) \<Rightarrow> uint32 \<Rightarrow> nat \<Rightarrow> Bucket list \<Rightarrow> BucketList \<Rightarrow> scp_error + BucketList"
where
  "spillInto H currLedger i shadows levels =
     (case snapLevel (levels ! (i - 1)) of (snap, lev) \<Rightarrow>
        let levels1 = levels[i - 1 := lev]
        in bindE (commit H (levels1 ! i)) (\<lambda>l1.
           bindE (prepare H currLedger snap shadows l1) (\<lambda>l2. Inr (levels1[i := l2]))))"

text \<open>The loop of \<^verbatim>\<open>addBatch\<close>, counting down.\<close>

fun addBatch_loop ::
  "(Bucket \<Rightarrow> Hash) \<Rightarrow> uint32 \<Rightarrow> nat \<Rightarrow> Bucket list \<Rightarrow> BucketList \<Rightarrow> scp_error + (Bucket list \<times> BucketList)"
where
  "addBatch_loop H currLedger 0 shadows levels = Inr (shadows, levels)"
| "addBatch_loop H currLedger (Suc i) shadows levels =
     bindE (assertE (2 \<le> length shadows)) (\<lambda>_.
     bindE (levelShouldSpill currLedger i) (\<lambda>spill.
     bindE (if spill then spillInto H currLedger (Suc i) (pop2 shadows) levels else Inr levels) (\<lambda>levels1.
       addBatch_loop H currLedger i (pop2 shadows) levels1)))"

definition addBatch ::
  "(Bucket \<Rightarrow> Hash) \<Rightarrow> uint32 \<Rightarrow> LedgerEntry list \<Rightarrow> LedgerKey list \<Rightarrow> BucketList \<Rightarrow> scp_error + BucketList"
where
  "addBatch H currLedger liveEntries deadEntries levels =
     bindE (assertE (0 < currLedger)) (\<lambda>_.
     bindE (assertE (2 \<le> length (buckets_of levels))) (\<lambda>_.
     bindE (addBatch_loop H currLedger (length levels - 1) (pop2 (buckets_of levels)) levels) (\<lambda>(shadows, levels1).
     bindE (assertE (shadows = [])) (\<lambda>_.
     bindE (Bucket_fresh liveEntries deadEntries) (\<lambda>b.
     bindE (prepare H currLedger b shadows (levels1 ! 0)) (\<lambda>l1.
     bindE (commit H l1) (\<lambda>l2. Inr (levels1[0 := l2]))))))))"

definition restartLevel :: "(Bucket \<Rightarrow> Hash) \<Rightarrow> (Hash \<Rightarrow> Bucket option) \<Rightarrow> BucketLevel \<Rightarrow> scp_error + BucketLevel" where
  "restartLevel H store lev =
     (if hasHashes (mNextCurr lev) \<and> \<not> isLive (mNextCurr lev)
      then bindE (makeLive H store (mNextCurr lev)) (\<lambda>fb. Inr (setNext fb lev))
      else Inr lev)"

fun restartMerges :: "(Bucket \<Rightarrow> Hash) \<Rightarrow> (Hash \<Rightarrow> Bucket option) \<Rightarrow> BucketList \<Rightarrow> scp_error + BucketList" where
  "restartMerges H store [] = Inr []"
| "restartMerges H store (lev # levels) =
     bindE (restartLevel H store lev) (\<lambda>lev1.
     bindE (restartMerges H store levels) (\<lambda>levels1. Inr (lev1 # levels1)))"

section \<open>Checking the database against the buckets\<close>

text \<open>
  \<^verbatim>\<open>checkDBAgainstBuckets\<close> of \<^verbatim>\<open>src/bucket/Bucket.cpp\<close>. The database is a parameter: \<open>storeLoad\<close> is what it
  holds under a key, \<open>countObjects\<close> how many objects of a type (\<^verbatim>\<open>SELECT COUNT\<close>).
\<close>

fun collectBuckets :: "(Bucket \<Rightarrow> Hash) \<Rightarrow> BucketList \<Rightarrow> scp_error + (Bucket list \<times> BucketList)" where
  "collectBuckets H [] = Inr ([], [])"
| "collectBuckets H (lev # levels) =
     bindE (if isLive (mNextCurr lev)
            then bindE (resolve H (mNextCurr lev)) (\<lambda>(b, fb). Inr ([b], setNext fb lev))
            else Inr ([], lev)) (\<lambda>(bs, lev1).
     bindE (collectBuckets H levels) (\<lambda>(rest, levels1).
       Inr (bs @ [mCurr lev, mSnap lev] @ rest, lev1 # levels1)))"

fun mergeAll :: "Bucket \<Rightarrow> Bucket list \<Rightarrow> scp_error + Bucket" where
  "mergeAll superBucket [] = Inr superBucket"
| "mergeAll superBucket (b # bs) = bindE (Bucket_merge b superBucket [] True) (\<lambda>sb. mergeAll sb bs)"

definition checkAgainstDatabase :: "(LedgerKey \<Rightarrow> LedgerEntry option) \<Rightarrow> LedgerEntry \<Rightarrow> scp_error + unit" where
  "checkAgainstDatabase storeLoad e =
     bindE (deref (storeLoad (LedgerEntryKey e))) (\<lambda>fromDb.
       if fromDb \<noteq> e then Inl (Runtime_Error ''Inconsistent state between objects'') else Inr ())"

fun scanSuperBucket ::
  "(LedgerKey \<Rightarrow> LedgerEntry option) \<Rightarrow> Bucket \<Rightarrow> (nat \<Rightarrow> nat) \<Rightarrow> scp_error + (nat \<Rightarrow> nat)"
where
  "scanSuperBucket storeLoad [] counts = Inr counts"
| "scanSuperBucket storeLoad (DEADENTRY k # b) counts = scanSuperBucket storeLoad b counts"
| "scanSuperBucket storeLoad (LIVEENTRY e # b) counts =
     (let t = LedgerEntryType_of (LedgerEntryKey e)
      in bindE (checkAgainstDatabase storeLoad e) (\<lambda>_. scanSuperBucket storeLoad b (counts(t := Suc (counts t)))))"

definition compareSizes :: "nat \<Rightarrow> nat \<Rightarrow> scp_error + unit" where
  "compareSizes inDatabase inBucketlist =
     (if inDatabase \<noteq> inBucketlist then Inl (Runtime_Error ''object count mismatch'') else Inr ())"

definition checkDBAgainstBuckets ::
  "(Bucket \<Rightarrow> Hash) \<Rightarrow> (LedgerKey \<Rightarrow> LedgerEntry option) \<Rightarrow> (nat \<Rightarrow> nat) \<Rightarrow> BucketList \<Rightarrow> scp_error + BucketList"
where
  "checkDBAgainstBuckets H storeLoad countObjects levels =
     bindE (collectBuckets H levels) (\<lambda>(buckets, levels1).
       case buckets of
         [] \<Rightarrow> Inr levels1
       | b # bs \<Rightarrow>
           bindE (mergeAll b bs) (\<lambda>superBucket.
           bindE (scanSuperBucket storeLoad superBucket (\<lambda>_. 0)) (\<lambda>counts.
           bindE (compareSizes (countObjects 0) (counts 0)) (\<lambda>_.
           bindE (compareSizes (countObjects 1) (counts 1)) (\<lambda>_.
           bindE (compareSizes (countObjects 2) (counts 2)) (\<lambda>_.
           bindE (compareSizes (countObjects 3) (counts 3)) (\<lambda>_.
           bindE (compareSizes (countObjects 4) (counts 4)) (\<lambda>_. Inr levels1))))))))"

section \<open>The saved state\<close>

text \<open>
  \<^verbatim>\<open>HistoryStateBucket\<close> as written to and read from JSON: the merge in its saved form.
\<close>

record HistoryStateBucket =
  hs_curr :: Hash
  hs_next :: SavedFuture
  hs_snap :: Hash

fun saveState :: "(Bucket \<Rightarrow> Hash) \<Rightarrow> BucketList \<Rightarrow> scp_error + HistoryStateBucket list" where
  "saveState H [] = Inr []"
| "saveState H (lev # levels) =
     bindE (save H (mNextCurr lev)) (\<lambda>sv. bindE (saveState H levels) (\<lambda>rest.
       Inr (\<lparr>hs_curr = H (mCurr lev), hs_next = sv, hs_snap = H (mSnap lev)\<rparr> # rest)))"

text \<open>
  \<open>unset\<close> is the value of \<^verbatim>\<open>mKeepDeadEntries\<close> in the objects that \<^verbatim>\<open>load\<close> reads into.
\<close>

definition assumeLevel ::
  "(Bucket \<Rightarrow> Hash) \<Rightarrow> (Hash \<Rightarrow> Bucket option) \<Rightarrow> bool \<Rightarrow> HistoryStateBucket \<Rightarrow> BucketLevel \<Rightarrow> scp_error + BucketLevel"
where
  "assumeLevel H store unset hs lev =
     bindE (load H (hs_next hs) (FutureBucket_default unset)) (\<lambda>next.
       case (store (hs_curr hs), store (hs_snap hs)) of
         (Some c, Some s) \<Rightarrow> Inr (setNext next (setSnap s (setCurr c lev)))
       | _ \<Rightarrow> Inl (Runtime_Error ''Missing bucket files while assuming saved BucketList state''))"

fun assumeLevels ::
  "(Bucket \<Rightarrow> Hash) \<Rightarrow> (Hash \<Rightarrow> Bucket option) \<Rightarrow> bool \<Rightarrow> HistoryStateBucket list \<Rightarrow> BucketList \<Rightarrow> scp_error + BucketList"
where
  "assumeLevels H store unset has [] = Inr []"
| "assumeLevels H store unset [] (lev # levels) = Inl (Runtime_Error ''out_of_range'')"
| "assumeLevels H store unset (hs # has) (lev # levels) =
     bindE (assumeLevel H store unset hs lev) (\<lambda>lev1.
     bindE (assumeLevels H store unset has levels) (\<lambda>levels1. Inr (lev1 # levels1)))"

definition assumeState ::
  "(Bucket \<Rightarrow> Hash) \<Rightarrow> (Hash \<Rightarrow> Bucket option) \<Rightarrow> bool \<Rightarrow> HistoryStateBucket list \<Rightarrow> BucketList \<Rightarrow> scp_error + BucketList"
where
  "assumeState H store unset has levels =
     bindE (assumeLevels H store unset has levels) (\<lambda>levels1. restartMerges H store levels1)"

section \<open>The spill schedule\<close>

text \<open>\<open>half i\<close> and \<open>spills k i\<close>: the numbers behind the 32-bit computations.\<close>

definition half :: "nat \<Rightarrow> nat" where
  "half i = 2 * 4 ^ i"

definition spills :: "nat \<Rightarrow> nat \<Rightarrow> bool" where
  "spills k i \<longleftrightarrow> i \<noteq> kNumLevels - 1 \<and> half i dvd k"

lemma mask32_iff:
  assumes "m < 32"
  shows "v = mask32 v (2 ^ m) \<longleftrightarrow> 2 ^ m dvd unat v"
proof -
  have "mask32 v (2 ^ m) = v AND NOT (mask m)"
    by (simp add: mask32_def mask_eq_exp_minus_1)
  moreover have "v = v AND NOT (mask m) \<longleftrightarrow> take_bit m v = 0"
    by (auto simp: bit_eq_iff bit_simps)
  ultimately have "v = mask32 v (2 ^ m) \<longleftrightarrow> take_bit m v = 0" by simp
  also have "\<dots> \<longleftrightarrow> unat (take_bit m v) = 0" by (simp add: unat_eq_zero)
  also have "\<dots> \<longleftrightarrow> 2 ^ m dvd unat v"
    unfolding unsigned_take_bit_eq by (simp only: take_bit_eq_mod mod_eq_0_iff_dvd)
  finally show ?thesis .
qed

lemma levelSize_eq: "i < kNumLevels \<Longrightarrow> levelSize i = Inr (2 ^ (2 * (i + 1)))"
  by (simp add: levelSize_def assertE_def push_bit_eq_mult)

lemma levelHalf_eq: "i < kNumLevels \<Longrightarrow> levelHalf i = Inr (2 ^ (2 * i + 1))"
proof -
  assume i: "i < kNumLevels"
  have "drop_bit 1 (2 ^ (2 * (i + 1)) :: uint32) = 2 ^ (2 * i + 1)"
    using i unfolding drop_bit_exp_eq by (simp add: kNumLevels_def)
  then show ?thesis by (simp add: levelHalf_def levelSize_eq [OF i])
qed

lemma half_power: "half i = 2 ^ (2 * i + 1)"
  by (simp add: half_def power_mult)

lemma half_dvd_2_32: "i < kNumLevels \<Longrightarrow> half i dvd 2 ^ 32"
  unfolding half_power by (rule le_imp_power_dvd) (simp add: kNumLevels_def)

lemma levelShouldSpill_eq:
  assumes "i < kNumLevels"
  shows "levelShouldSpill w i = Inr (spills (unat w) i)"
proof -
  have m: "2 * i + 1 < 32" "2 * (i + 1) < 32" using assms by (simp_all add: kNumLevels_def)
  have "2 ^ (2 * (i + 1)) dvd unat w \<Longrightarrow> 2 ^ (2 * i + 1) dvd unat w"
    by (rule power_le_dvd [of 2 "2 * (i + 1)"]) simp_all
  then show ?thesis
    using mask32_iff [OF m(1), of w] mask32_iff [OF m(2), of w]
    by (auto simp: levelShouldSpill_def levelHalf_eq [OF assms] levelSize_eq [OF assms] spills_def half_power)
qed

lemma spills_next:
  assumes "i < kNumLevels" "j < kNumLevels"
  shows "spills (unat (w + 2 ^ (2 * j + 1) :: uint32)) i \<longleftrightarrow> spills (unat w + half j) i"
proof -
  have "unat (2 ^ (2 * j + 1) :: uint32) = half j"
  proof -
    have "2 ^ (2 * j + 1) < (2 :: nat) ^ 32"
      using assms(2) by (intro power_strict_increasing) (simp_all add: kNumLevels_def)
    then have "unat (of_nat (2 ^ (2 * j + 1)) :: uint32) = 2 ^ (2 * j + 1)"
      by (intro unat_of_nat_small) simp
    then show ?thesis by (simp add: half_power)
  qed
  then have "unat (w + 2 ^ (2 * j + 1) :: uint32) = (unat w + half j) mod 2 ^ 32"
    by (simp add: unat_word_ariths)
  then show ?thesis
    using half_dvd_2_32 [OF assms(1)] by (simp add: spills_def dvd_mod_iff)
qed

text \<open>A level spills only at ledgers where every level before it does.\<close>

lemma spills_below: "spills k (Suc i) \<Longrightarrow> Suc i < kNumLevels \<Longrightarrow> spills k i"
proof -
  assume "spills k (Suc i)" "Suc i < kNumLevels"
  moreover have "half i dvd half (Suc i)" by (simp add: half_def)
  ultimately show "spills k i" by (auto simp: spills_def kNumLevels_def intro: dvd_trans)
qed

end
