(* ===== verification/LedgerDelta.thy ===== *)
theory LedgerDelta
  imports BucketList
begin

text \<open>
  \<^verbatim>\<open>src/ledger/LedgerDelta.cpp\<close>: the changes a ledger, a transaction or an operation makes to the ledger
  entries, nested in one another and committed outwards or rolled back. An \<^verbatim>\<open>EntryFrame::pointer\<close> is
  the entry it wraps (the public operations copy it); \<^verbatim>\<open>mHeader\<close>, the pointer to the header that a
  commit writes, is non-null exactly while the delta is open. The second part shows which map of entries
  a delta stands for.
\<close>

section \<open>The ledger header\<close>

record StellarValue =
  sv_txSetHash :: Hash
  sv_closeTime :: uint64
  sv_upgrades :: "bytes list"

record LedgerHeader =
  lh_ledgerVersion :: uint32
  lh_previousLedgerHash :: Hash
  lh_scpValue :: StellarValue
  lh_txSetResultHash :: Hash
  lh_bucketListHash :: Hash
  lh_ledgerSeq :: uint32
  lh_totalCoins :: int64
  lh_feePool :: int64
  lh_inflationSeq :: uint32
  lh_idPool :: uint64
  lh_baseFee :: uint32
  lh_baseReserve :: uint32
  lh_maxTxSetSize :: uint32
  lh_skipList :: "Hash list"

text \<open>\<^verbatim>\<open>LedgerHeaderFrame::generateID\<close> and \<^verbatim>\<open>getStartingSequenceNumber\<close>.\<close>

definition generateID :: "LedgerHeader \<Rightarrow> uint64 \<times> LedgerHeader" where
  "generateID h = (lh_idPool h + 1, h\<lparr>lh_idPool := lh_idPool h + 1\<rparr>)"

definition getStartingSequenceNumber :: "LedgerHeader \<Rightarrow> uint64" where
  "getStartingSequenceNumber h = push_bit 32 (ucast (lh_ledgerSeq h))"

section \<open>The delta\<close>

type_synonym KeyEntryMap = "(LedgerKey \<times> LedgerEntry) list"

record LedgerDelta =
  mOpen :: bool
  mCurrentHeader :: LedgerHeader
  mPreviousHeaderValue :: LedgerHeader
  mNew :: KeyEntryMap
  mMod :: KeyEntryMap
  mDelete :: "LedgerKey list"
  mPrevious :: KeyEntryMap
  mUpdateLastModified :: bool

text \<open>The constructors: on a ledger header, and nested in an outer delta.\<close>

definition LedgerDelta_on :: "LedgerHeader \<Rightarrow> bool \<Rightarrow> LedgerDelta" where
  "LedgerDelta_on header update =
     \<lparr>mOpen = True, mCurrentHeader = header, mPreviousHeaderValue = header, mNew = [], mMod = [],
      mDelete = [], mPrevious = [], mUpdateLastModified = update\<rparr>"

definition LedgerDelta_nested :: "LedgerDelta \<Rightarrow> LedgerDelta" where
  "LedgerDelta_nested outer = LedgerDelta_on (mCurrentHeader outer) (mUpdateLastModified outer)"

definition delta_checkState :: "LedgerDelta \<Rightarrow> scp_error + unit" where
  "delta_checkState d =
     (if \<not> mOpen d then Inl (Runtime_Error ''Invalid operation: delta is already committed'') else Inr ())"

text \<open>\<^verbatim>\<open>std::map::erase\<close> and \<^verbatim>\<open>std::map::insert\<close>, which keeps an element that is there.\<close>

definition map_erase :: "'k \<Rightarrow> ('k \<times> 'v) list \<Rightarrow> ('k \<times> 'v) list" where
  "map_erase k m = filter (\<lambda>(k', _). k' \<noteq> k) m"

definition map_insert :: "'k::linorder \<Rightarrow> 'v \<Rightarrow> ('k \<times> 'v) list \<Rightarrow> ('k \<times> 'v) list" where
  "map_insert k v m = (case map_of m k of None \<Rightarrow> map_put k v m | Some _ \<Rightarrow> m)"

definition addEntry :: "LedgerEntry \<Rightarrow> LedgerDelta \<Rightarrow> scp_error + LedgerDelta" where
  "addEntry entry d =
     bindE (delta_checkState d) (\<lambda>_.
       let k = LedgerEntryKey entry
       in if k \<in> set (mDelete d)
          then Inr (d\<lparr>mDelete := removeAll k (mDelete d), mMod := map_put k entry (mMod d)\<rparr>)
          else bindE (assertE (map_of (mNew d) k = None)) (\<lambda>_.
               bindE (assertE (map_of (mMod d) k = None)) (\<lambda>_.
                 Inr (d\<lparr>mNew := map_put k entry (mNew d)\<rparr>))))"

definition deleteEntry :: "LedgerKey \<Rightarrow> LedgerDelta \<Rightarrow> scp_error + LedgerDelta" where
  "deleteEntry k d =
     bindE (delta_checkState d) (\<lambda>_.
       if map_of (mNew d) k \<noteq> None then Inr (d\<lparr>mNew := map_erase k (mNew d)\<rparr>)
       else bindE (assertE (k \<notin> set (mDelete d))) (\<lambda>_.
              Inr (d\<lparr>mMod := map_erase k (mMod d), mDelete := set_insert k (mDelete d)\<rparr>)))"

definition modEntry :: "LedgerEntry \<Rightarrow> LedgerDelta \<Rightarrow> scp_error + LedgerDelta" where
  "modEntry entry d =
     bindE (delta_checkState d) (\<lambda>_.
       let k = LedgerEntryKey entry
       in if map_of (mMod d) k \<noteq> None then Inr (d\<lparr>mMod := map_put k entry (mMod d)\<rparr>)
          else if map_of (mNew d) k \<noteq> None then Inr (d\<lparr>mNew := map_put k entry (mNew d)\<rparr>)
          else bindE (assertE (k \<notin> set (mDelete d))) (\<lambda>_.
                 Inr (d\<lparr>mMod := map_put k entry (mMod d)\<rparr>)))"

definition recordEntry :: "LedgerEntry \<Rightarrow> LedgerDelta \<Rightarrow> scp_error + LedgerDelta" where
  "recordEntry entry d =
     bindE (delta_checkState d) (\<lambda>_.
       Inr (d\<lparr>mPrevious := map_insert (LedgerEntryKey entry) entry (mPrevious d)\<rparr>))"

text \<open>The previous value of an entry, if the other delta has it, is recorded here as well.\<close>

definition recordFrom :: "LedgerDelta \<Rightarrow> LedgerKey \<Rightarrow> LedgerDelta \<Rightarrow> scp_error + LedgerDelta" where
  "recordFrom other k d =
     (case map_of (mPrevious other) k of None \<Rightarrow> Inr d | Some e \<Rightarrow> recordEntry e d)"

definition mergeEntries :: "LedgerDelta \<Rightarrow> LedgerDelta \<Rightarrow> scp_error + LedgerDelta" where
  "mergeEntries other d =
     bindE (delta_checkState d) (\<lambda>_.
     bindE (foldE (\<lambda>k d. bindE (deleteEntry k d) (recordFrom other k)) (mDelete other) d) (\<lambda>d1.
     bindE (foldE (\<lambda>(_, e). addEntry e) (mNew other) d1) (\<lambda>d2.
       foldE (\<lambda>(k, e) d. bindE (modEntry e d) (recordFrom other k)) (mMod other) d2)))"

text \<open>\<^verbatim>\<open>commit\<close>, into a ledger header and into the outer delta.\<close>

definition commit_header :: "LedgerHeader \<Rightarrow> LedgerDelta \<Rightarrow> scp_error + (LedgerHeader \<times> LedgerDelta)" where
  "commit_header header d =
     bindE (delta_checkState d) (\<lambda>_.
       if mPreviousHeaderValue d \<noteq> header then Inl (Runtime_Error ''unexpected header state'')
       else Inr (mCurrentHeader d, d\<lparr>mOpen := False\<rparr>))"

definition commit_outer :: "LedgerDelta \<Rightarrow> LedgerDelta \<Rightarrow> scp_error + (LedgerDelta \<times> LedgerDelta)" where
  "commit_outer outer d =
     bindE (delta_checkState d) (\<lambda>_.
       if mPreviousHeaderValue d \<noteq> mCurrentHeader outer then Inl (Runtime_Error ''unexpected header state'')
       else bindE (mergeEntries d outer) (\<lambda>outer1.
              Inr (outer1\<lparr>mCurrentHeader := mCurrentHeader d\<rparr>, d\<lparr>mOpen := False\<rparr>)))"

text \<open>\<^verbatim>\<open>rollback\<close> returns the keys it flushes from the entry cache; the destructor rolls an open delta back.\<close>

definition rollback :: "LedgerDelta \<Rightarrow> scp_error + (LedgerKey list \<times> LedgerDelta)" where
  "rollback d =
     bindE (delta_checkState d) (\<lambda>_.
       Inr (mDelete d @ map fst (mNew d) @ map fst (mMod d), d\<lparr>mOpen := False\<rparr>))"

definition LedgerDelta_destroy :: "LedgerDelta \<Rightarrow> LedgerKey list" where
  "LedgerDelta_destroy d = (if mOpen d then (case rollback d of Inl _ \<Rightarrow> [] | Inr (ks, _) \<Rightarrow> ks) else [])"

section \<open>What a delta reports\<close>

datatype LedgerEntryChange =
    ENTRY_CREATED LedgerEntry
  | ENTRY_UPDATED LedgerEntry
  | ENTRY_REMOVED LedgerKey
  | ENTRY_STATE LedgerEntry

definition addCurrentMeta :: "LedgerDelta \<Rightarrow> LedgerKey \<Rightarrow> LedgerEntryChange list" where
  "addCurrentMeta d key =
     (case map_of (mPrevious d) key of
        None \<Rightarrow> []
      | Some e \<Rightarrow> if lastModifiedLedgerSeq e \<noteq> lh_ledgerSeq (mCurrentHeader d) then [ENTRY_STATE e] else [])"

definition getChanges :: "LedgerDelta \<Rightarrow> LedgerEntryChange list" where
  "getChanges d =
     map (\<lambda>(_, e). ENTRY_CREATED e) (mNew d) @
     concat (map (\<lambda>(k, e). addCurrentMeta d k @ [ENTRY_UPDATED e]) (mMod d)) @
     concat (map (\<lambda>k. addCurrentMeta d k @ [ENTRY_REMOVED k]) (mDelete d))"

definition getLiveEntries :: "LedgerDelta \<Rightarrow> LedgerEntry list" where
  "getLiveEntries d = map snd (mNew d) @ map snd (mMod d)"

definition getDeadEntries :: "LedgerDelta \<Rightarrow> LedgerKey list" where
  "getDeadEntries d = mDelete d"

definition delta_checkAgainstDatabase ::
  "bool \<Rightarrow> (LedgerKey \<Rightarrow> LedgerEntry option) \<Rightarrow> LedgerDelta \<Rightarrow> scp_error + unit"
where
  "delta_checkAgainstDatabase paranoid storeLoad d =
     (if \<not> paranoid then Inr ()
      else bindE (foldE (\<lambda>l _. checkAgainstDatabase storeLoad l) (getLiveEntries d) ()) (\<lambda>_.
             foldE (\<lambda>k _. if storeLoad k \<noteq> None
                          then Inl (Runtime_Error ''Inconsistent state ; entry should not exist in database'')
                          else Inr ()) (getDeadEntries d) ()))"

end
