(* ===== verification/BucketList_Refinement.thy ===== *)
theory BucketList_Refinement
  imports BucketList
begin

text \<open>
  A bucket list stores a map from keys to ledger entries: the first bucket in the order curr, snap of
  level 0, curr, snap of level 1, ... that holds a key decides. This theory shows that adding a batch
  updates that map by the batch, whatever spills, merges and shadowing the ledger number triggers.
\<close>

section \<open>The map a bucket list stores\<close>

fun lookup :: "BucketList \<Rightarrow> LedgerKey \<Rightarrow> BucketEntry option" where
  "lookup [] k = None"
| "lookup (lev # levels) k =
     newest (entry_of (mCurr lev) k) (newest (entry_of (mSnap lev) k) (lookup levels k))"

fun live_entry :: "BucketEntry option \<Rightarrow> LedgerEntry option" where
  "live_entry (Some (LIVEENTRY e)) = Some e"
| "live_entry _ = None"

definition stored :: "BucketList \<Rightarrow> LedgerKey \<Rightarrow> LedgerEntry option" where
  "stored levels k = live_entry (lookup levels k)"

text \<open>The abstract operation: live entries are written, then dead keys are removed.\<close>

definition apply_batch ::
  "LedgerEntry list \<Rightarrow> LedgerKey list \<Rightarrow> (LedgerKey \<Rightarrow> LedgerEntry option) \<Rightarrow> LedgerKey \<Rightarrow> LedgerEntry option"
where
  "apply_batch live dead m k =
     (if k \<in> set dead then None
      else case map_of (map (\<lambda>e. (LedgerEntryKey e, e)) live) k of None \<Rightarrow> m k | Some e \<Rightarrow> Some e)"

lemma newest_simps [simp]: "newest (Some e) r = Some e" "newest None r = r" "newest r None = r"
  by (simp_all add: newest_def split: option.split)

lemma newest_assoc: "newest (newest a b) c = newest a (newest b c)"
  by (simp add: newest_def split: option.split)

lemma lookup_append: "lookup (as @ bs) k = newest (lookup as k) (lookup bs k)"
  by (induction as) (simp_all add: newest_assoc)

definition keys_of :: "BucketList \<Rightarrow> LedgerKey set" where
  "keys_of levels = hidden_keys (buckets_of levels)"

lemma buckets_of_simps [simp]: "buckets_of [] = []" "buckets_of (l # ls) = mCurr l # mSnap l # buckets_of ls"
  "buckets_of (as @ bs) = buckets_of as @ buckets_of bs"
  by (simp_all add: buckets_of_def)

lemma keys_of_simps [simp]: "keys_of [] = {}" "keys_of (l # ls) = bkeys (mCurr l) \<union> bkeys (mSnap l) \<union> keys_of ls"
  "keys_of (as @ bs) = keys_of as \<union> keys_of bs"
  by (auto simp: keys_of_def)

lemma newest_None_iff: "newest a b = None \<longleftrightarrow> a = None \<and> b = None"
  by (simp add: newest_def split: option.split)

lemma lookup_None_iff: "lookup levels k = None \<longleftrightarrow> k \<notin> keys_of levels"
  by (induction levels) (auto simp: newest_None_iff entry_of_None_iff)

section \<open>What a pending merge holds\<close>

text \<open>
  \<open>folds keep N snap cur M\<close>: \<open>M\<close> stands for \<open>snap\<close> on top of \<open>cur\<close>, except for keys of newer buckets \<open>N\<close>.
\<close>

definition folds :: "bool \<Rightarrow> LedgerKey set \<Rightarrow> Bucket \<Rightarrow> Bucket \<Rightarrow> Bucket \<Rightarrow> bool" where
  "folds keep N snap cur M \<longleftrightarrow>
     bucket_ok M \<and>
     (\<forall>k. k \<notin> N \<longrightarrow> entry_of M k = drop_dead keep (newest (entry_of snap k) (entry_of cur k)))"

lemma folds_mono: "folds keep N snap cur M \<Longrightarrow> N \<subseteq> N' \<Longrightarrow> folds keep N' snap cur M"
  by (auto simp: folds_def)

lemma folds_merged:
  assumes "bucket_ok cur" "bucket_ok snap"
  shows "folds keep (hidden_keys shadows) snap cur (merged cur snap shadows keep)"
  using assms by (simp add: folds_def bucket_ok_merged entry_of_merged)

lemma drop_dead_True [simp]: "drop_dead True r = r"
  by (simp add: drop_dead_def split: option.split)

lemma folds_keys: "folds True N snap cur M \<Longrightarrow> bkeys snap \<union> bkeys cur \<subseteq> N \<union> bkeys M"
proof
  fix k
  assume f: "folds True N snap cur M" and "k \<in> bkeys snap \<union> bkeys cur"
  then have "newest (entry_of snap k) (entry_of cur k) \<noteq> None"
    by (auto simp: newest_None_iff entry_of_None_iff)
  with f show "k \<in> N \<union> bkeys M"
    by (metis UnCI drop_dead_True entry_of_None_iff folds_def)
qed

section \<open>The invariant\<close>

text \<open>The next ledger after \<open>k\<close> at which level \<open>i\<close> spills.\<close>

definition next_spill :: "nat \<Rightarrow> nat \<Rightarrow> nat" where
  "next_spill k i = (k div half i + 1) * half i"

lemma half_pos [simp]: "0 < half i"
  by (simp add: half_def)

lemma next_spill_at: "half i dvd k \<Longrightarrow> next_spill k i = k + half i"
  by (auto simp: next_spill_def algebra_simps)

lemma next_spill_step: "0 < k \<Longrightarrow> next_spill (k - 1) i = (if half i dvd k then k else next_spill k i)"
proof (cases "half i dvd k")
  case True
  assume "0 < k"
  with True obtain m where m: "k = half i * Suc m" by (metis dvdE gr0_implies_Suc mult_0_right neq0_conv)
  have "(k - 1) div half i = m"
  proof (rule div_nat_eqI)
    show "half i * m \<le> k - 1" unfolding m mult_Suc_right using half_pos [of i] by linarith
    show "k - 1 < half i * Suc m" using m \<open>0 < k\<close> by simp
  qed
  with True m show ?thesis by (simp add: next_spill_def mult.commute)
next
  case False
  assume "0 < k"
  with False have "(k - 1) div half i = k div half i"
    by (metis Suc_pred' div_Suc dvd_eq_mod_eq_0)
  with False show ?thesis by (simp add: next_spill_def)
qed

lemmas next_spill_steps = next_spill_step next_spill_step [unfolded One_nat_def]

text \<open>
  Between level \<open>i\<close> and level \<open>i + 1\<close>, \<open>newer\<close> being the levels before \<open>i\<close>: the merge that the latter
  has in progress stands for the former's snapshot on top of its own current bucket, or of nothing if it
  will itself be snapshotted before the merge is committed. Dead entries are kept but for the last level, where they
  may be. A merge that is still running would stand for the same with either value of its flag.
\<close>

definition yields :: "(Bucket \<Rightarrow> Hash) \<Rightarrow> FutureBucket \<Rightarrow> Bucket \<Rightarrow> bool \<Rightarrow> bool" where
  "yields H fb M keep \<longleftrightarrow>
     (\<exists>c s sh. running H fb c s sh keep \<and> M = merged c s sh keep) \<or> fb = output_fb H M keep"

definition pending ::
  "(Bucket \<Rightarrow> Hash) \<Rightarrow> FutureBucket \<Rightarrow> bool \<Rightarrow> LedgerKey set \<Rightarrow> Bucket \<Rightarrow> Bucket \<Rightarrow> bool"
where
  "pending H fb must N snap cur \<longleftrightarrow>
     (\<exists>M flag keep. yields H fb M flag \<and> (must \<longrightarrow> keep) \<and> folds keep N snap cur M) \<and>
     (\<forall>c s sh f f'. running H fb c s sh f \<longrightarrow> folds f' N snap cur (merged c s sh f'))"

lemma pendingE:
  assumes "pending H fb must N snap cur"
  obtains M flag keep where "yields H fb M flag" "must \<longrightarrow> keep" "folds keep N snap cur M"
  using assms unfolding pending_def by blast

lemma pending_running: "pending H fb must N snap cur \<Longrightarrow> running H fb c s sh f \<Longrightarrow> folds f' N snap cur (merged c s sh f')"
  unfolding pending_def by blast

lemma pending_mono: "pending H fb must N snap cur \<Longrightarrow> N \<subseteq> N' \<Longrightarrow> pending H fb must N' snap cur"
  unfolding pending_def using folds_mono [of _ N snap cur _ N'] by meson

lemma pending_next:
  assumes "pending H fb must N snap cur" "\<And>M flag. yields H fb M flag \<Longrightarrow> \<exists>flag'. yields H fb' M flag'"
    and "\<And>c s sh f. running H fb' c s sh f \<Longrightarrow> \<exists>f'. running H fb c s sh f'"
  shows "pending H fb' must N snap cur"
proof -
  obtain M flag keep where M: "yields H fb M flag" "must \<longrightarrow> keep" "folds keep N snap cur M" using assms(1) by (rule pendingE)
  with assms(2) obtain flag' where "yields H fb' M flag'" by blast
  moreover have "folds f' N snap cur (merged c s sh f')" if "running H fb' c s sh f" for c s sh f f'
    using assms(3) [OF that] pending_running [OF assms(1)] by blast
  ultimately show ?thesis unfolding pending_def using M(2,3) by blast
qed

lemma pending_inputs:
  assumes "running H fb c s sh flag" "\<And>f. folds f N snap cur (merged c s sh f)" "must \<longrightarrow> flag"
  shows "pending H fb must N snap cur"
proof -
  have "yields H fb (merged c s sh flag) flag" unfolding yields_def using assms(1) by blast
  moreover have "c' = c \<and> s' = s \<and> sh' = sh" if "running H fb c' s' sh' f" for c' s' sh' f
    using that assms(1) by (auto simp: running_def running_fb_def)
  ultimately show ?thesis unfolding pending_def using assms(2,3) by blast
qed

definition link ::
  "(Bucket \<Rightarrow> Hash) \<Rightarrow> nat \<Rightarrow> nat \<Rightarrow> BucketList \<Rightarrow> BucketLevel \<Rightarrow> BucketLevel \<Rightarrow> bool"
where
  "link H t i newer a b \<longleftrightarrow>
     cleared (mNextCurr b) \<and> mSnap a = [] \<and> mCurr b = [] \<or>
     pending H (mNextCurr b) (Suc i < kNumLevels - 1) (keys_of newer \<union> bkeys (mCurr a)) (mSnap a)
       (if spills t (Suc i) then [] else mCurr b)"

fun chain :: "(Bucket \<Rightarrow> Hash) \<Rightarrow> (nat \<Rightarrow> nat) \<Rightarrow> BucketList \<Rightarrow> nat \<Rightarrow> BucketList \<Rightarrow> bool" where
  "chain H t newer i (a # b # rest) =
     (link H (t i) i newer a b \<and> chain H t (newer @ [a]) (Suc i) (b # rest))"
| "chain H t newer i _ = True"

definition levels_ok :: "BucketList \<Rightarrow> bool" where
  "levels_ok ls \<longleftrightarrow>
     length ls = kNumLevels \<and> map mLevel ls = [0..<kNumLevels] \<and>
     (\<forall>b \<in> set (buckets_of ls). bucket_ok b) \<and>
     mSnap (last ls) = [] \<and> cleared (mNextCurr (hd ls))"

definition bucketlist_ok :: "(Bucket \<Rightarrow> Hash) \<Rightarrow> nat \<Rightarrow> BucketList \<Rightarrow> bool" where
  "bucketlist_ok H k ls \<longleftrightarrow> levels_ok ls \<and> chain H (next_spill k) [] 0 ls"

lemma chain_append:
  "chain H t newer i (pre @ a # rest) \<longleftrightarrow>
     chain H t newer i (pre @ [a]) \<and> chain H t (newer @ pre) (i + length pre) (a # rest)"
proof (induction pre arbitrary: newer i)
  case (Cons p pre)
  then show ?case by (cases pre) auto
qed simp

lemma chain_times:
  "(\<And>j. i \<le> j \<Longrightarrow> Suc j < i + length ls \<Longrightarrow> t j = t' j) \<Longrightarrow> chain H t newer i ls = chain H t' newer i ls"
proof (induction H t newer i ls rule: chain.induct)
  case (1 H t newer i a b rest)
  have "chain H t (newer @ [a]) (Suc i) (b # rest) = chain H t' (newer @ [a]) (Suc i) (b # rest)"
    by (rule "1.IH") (rule "1.prems"; simp)
  moreover have "t i = t' i" by (rule "1.prems") simp_all
  ultimately show ?case by simp
qed simp_all

text \<open>Keys may only be added to what is newer.\<close>

lemma link_mono:
  "link H t i newer a b \<Longrightarrow> keys_of newer \<union> bkeys (mCurr a) \<subseteq> keys_of newer' \<union> bkeys (mCurr a') \<Longrightarrow>
   mSnap a' = mSnap a \<Longrightarrow> link H t i newer' a' b"
  unfolding link_def by (metis pending_mono)

lemma chain_mono:
  "chain H t newer i (a # rest) \<Longrightarrow> keys_of newer \<union> bkeys (mCurr a) \<subseteq> keys_of newer' \<union> bkeys (mCurr a') \<Longrightarrow>
   mSnap a' = mSnap a \<Longrightarrow> chain H t newer' i (a' # rest)"
proof (induction rest arbitrary: newer newer' i a a')
  case (Cons b rest)
  have "link H (t i) i newer' a' b"
    using Cons.prems by (auto intro: link_mono)
  moreover have "chain H t (newer' @ [a']) (Suc i) (b # rest)"
    by (rule Cons.IH [of "newer @ [a]" "Suc i" b]) (use Cons.prems in auto)
  ultimately show ?case by simp
qed simp

text \<open>The last level of a chain may be snapshotted when the merge into it was prepared for that.\<close>

lemma chain_snap_last:
  "chain H t newer i (pre @ [a]) \<Longrightarrow> (pre \<noteq> [] \<Longrightarrow> spills (t (i + length pre - 1)) (i + length pre)) \<Longrightarrow>
   mNextCurr a' = mNextCurr a \<Longrightarrow> mCurr a' = [] \<Longrightarrow> chain H t newer i (pre @ [a'])"
proof (induction pre arbitrary: newer i)
  case (Cons p pre)
  show ?case
  proof (cases pre)
    case Nil
    with Cons.prems show ?thesis by (auto simp: link_def)
  next
    case (Cons q pre')
    with Cons.IH [of "newer @ [p]" "Suc i"] Cons.prems show ?thesis by auto
  qed
qed simp

section \<open>One spill\<close>

definition snapped :: "BucketLevel \<Rightarrow> BucketLevel" where
  "snapped a = a\<lparr>mSnap := mCurr a, mCurr := []\<rparr>"

lemma snapped_simps [simp]:
  "mCurr (snapped a) = []" "mSnap (snapped a) = mCurr a" "mNextCurr (snapped a) = mNextCurr a"
  "mLevel (snapped a) = mLevel a"
  by (simp_all add: snapped_def)

lemma yields_simps:
  assumes "yields H fb M keep"
  shows "isLive fb" "resolve H fb = Inr (M, output_fb H M keep)" "yields H (workerDone fb) M keep"
proof -
  have "isLive (output_fb H M keep)" "workerDone (output_fb H M keep) = output_fb H M keep"
    by (simp_all add: output_fb_def isLive_def workerDone_def)
  with assms show "isLive fb" "resolve H fb = Inr (M, output_fb H M keep)" "yields H (workerDone fb) M keep"
    unfolding yields_def by (auto dest: running_simps resolve_running running_workerDone simp: resolve_output)
qed

lemma commit_yields:
  assumes "yields H (mNextCurr b) M keep"
  shows "\<exists>fb. commit H b = Inr (b\<lparr>mNextCurr := fb, mCurr := M\<rparr>) \<and> cleared fb"
  using yields_simps [OF assms] cleared_clear cleared_simps
  by (auto simp: commit_def setCurr_def setNext_def assertE_def)

lemma commit_cleared: "cleared (mNextCurr b) \<Longrightarrow> commit H b = Inr b"
  using cleared_simps by (simp add: commit_def assertE_def)

lemma prepare_running:
  fixes w :: uint32
  assumes "mLevel b = Suc i" "Suc i < kNumLevels" "cleared (mNextCurr b)"
    and "bucket_ok (mCurr b)" "bucket_ok snap" "\<forall>x \<in> set shadows. bucket_ok x"
  defines "cur \<equiv> (if spills (unat w + half i) (Suc i) then [] else mCurr b)"
  shows "\<exists>fb. prepare H w snap shadows b = Inr (b\<lparr>mNextCurr := fb\<rparr>) \<and>
    running H fb cur snap shadows (Suc i < kNumLevels - 1)"
proof -
  have cur: "bucket_ok cur" using assms(4) by (simp add: cur_def)
  obtain fb where fb: "FutureBucket_inputs H cur snap shadows (Suc i < kNumLevels - 1) = Inr fb"
    "running H fb cur snap shadows (Suc i < kNumLevels - 1)"
    using FutureBucket_inputs_running [OF cur assms(5,6)] by blast
  have "levelHalf (mLevel b - 1) = Inr (2 ^ (2 * i + 1))" "mLevel b = Suc i"
    using levelHalf_eq [of i] assms(1,2) by simp_all
  moreover have "levelShouldSpill (w + 2 ^ (2 * i + 1)) (Suc i) = Inr (spills (unat w + half i) (Suc i))"
    using levelShouldSpill_eq [OF assms(2)] spills_next [OF assms(2), of i] assms(2) by simp
  ultimately show ?thesis
    using fb running_simps [OF fb(2)] cleared_simps [OF assms(3)]
    by (intro exI [of _ fb]) (simp add: prepare_def assertE_def setNext_def flip: cur_def)
qed

text \<open>The state of the two levels after level \<open>i\<close> has spilled into level \<open>i + 1\<close>.\<close>

definition spilled ::
  "(Bucket \<Rightarrow> Hash) \<Rightarrow> nat \<Rightarrow> nat \<Rightarrow> BucketList \<Rightarrow> BucketLevel \<Rightarrow> BucketLevel \<Rightarrow> BucketList \<Rightarrow> BucketLevel \<Rightarrow> bool"
where
  "spilled H k i pre a b suf b' \<longleftrightarrow>
     mLevel b' = mLevel b \<and> mSnap b' = mSnap b \<and> bucket_ok (mCurr b') \<and>
     link H (next_spill k i) i pre (snapped a) b' \<and>
     (Suc i < kNumLevels - 1 \<longrightarrow> keys_of (pre @ [a]) \<union> bkeys (mCurr b) \<subseteq> keys_of (pre @ [snapped a]) \<union> bkeys (mCurr b')) \<and>
     (\<forall>x. Suc i < kNumLevels - 1 \<or> mSnap b = [] \<and> suf = [] \<longrightarrow>
        live_entry (lookup (pre @ snapped a # b' # suf) x) = live_entry (lookup (pre @ a # b # suf) x))"

lemma newest_prefix: "k \<in> keys_of pre \<Longrightarrow> newest (lookup pre k) r = lookup pre k"
  using lookup_None_iff [of pre k] by (cases "lookup pre k") auto

lemma live_drop_dead [simp]: "live_entry (drop_dead keep r) = live_entry r"
  by (cases r rule: live_entry.cases) (auto simp: drop_dead_def)

lemma spill_lookup:
  assumes "folds keep (keys_of pre \<union> bkeys (mCurr a)) (mSnap a) (mCurr b) M"
    and "mCurr b' = M" "mSnap b' = mSnap b" "keep \<or> mSnap b = [] \<and> suf = []"
  shows "live_entry (lookup (pre @ snapped a # b' # suf) x) = live_entry (lookup (pre @ a # b # suf) x)"
proof -
  have shape: "lookup (pre @ snapped a # b' # suf) x =
      newest (lookup pre x) (newest (entry_of (mCurr a) x) (newest (entry_of M x) (newest (entry_of (mSnap b) x) (lookup suf x))))"
    using assms(2,3) by (simp add: lookup_append)
  have shape': "lookup (pre @ a # b # suf) x =
      newest (lookup pre x) (newest (entry_of (mCurr a) x)
        (newest (newest (entry_of (mSnap a) x) (entry_of (mCurr b) x)) (newest (entry_of (mSnap b) x) (lookup suf x))))"
    by (simp add: lookup_append newest_assoc)
  show ?thesis
  proof (cases "x \<in> keys_of pre \<or> x \<in> bkeys (mCurr a)")
    case True
    then show ?thesis
      unfolding shape shape' using newest_prefix [of x pre] entry_of_None_iff [of "mCurr a" x]
      by (cases "entry_of (mCurr a) x") auto
  next
    case False
    then have none: "lookup pre x = None" "entry_of (mCurr a) x = None"
      by (simp_all add: lookup_None_iff entry_of_None_iff)
    have M: "entry_of M x = drop_dead keep (newest (entry_of (mSnap a) x) (entry_of (mCurr b) x))"
      using assms(1) False by (simp add: folds_def)
    show ?thesis
      unfolding shape shape' none M using assms(4) by (elim disjE) simp_all
  qed
qed

lemma spillInto_spilled:
  fixes w :: uint32
  assumes ok: "length pre = i" "Suc i < kNumLevels" "mLevel b = Suc i" "\<forall>x \<in> set (buckets_of (pre @ [a, b])). bucket_ok x"
    and link: "link H k i pre a b" and k: "unat w = k" "half i dvd k"
    and cur: "spills k (Suc i) \<Longrightarrow> mCurr b = []"
  shows "\<exists>b'. spillInto H w (Suc i) (buckets_of pre) (pre @ a # b # suf) = Inr (pre @ snapped a # b' # suf) \<and>
    spilled H k i pre a b suf b'"
proof -
  let ?keep = "Suc i < kNumLevels - 1"
  have "\<exists>b1 keep. commit H b = Inr b1 \<and> cleared (mNextCurr b1) \<and> mLevel b1 = mLevel b \<and> mSnap b1 = mSnap b \<and>
      bucket_ok (mCurr b1) \<and> (?keep \<longrightarrow> keep) \<and> folds keep (keys_of pre \<union> bkeys (mCurr a)) (mSnap a) (mCurr b) (mCurr b1)"
  proof (cases "cleared (mNextCurr b) \<and> mSnap a = [] \<and> mCurr b = []")
    case True
    then show ?thesis by (intro exI [of _ b] exI [of _ True]) (auto simp: commit_cleared folds_def)
  next
    case False
    let ?N = "keys_of pre \<union> bkeys (mCurr a)"
    have "pending H (mNextCurr b) ?keep ?N (mSnap a) (if spills k (Suc i) then [] else mCurr b)"
      using link False unfolding link_def by blast
    then obtain M flag keep where M: "yields H (mNextCurr b) M flag" "?keep \<longrightarrow> keep"
      "folds keep ?N (mSnap a) (if spills k (Suc i) then [] else mCurr b) M" by (rule pendingE)
    have "folds keep ?N (mSnap a) (mCurr b) M" using M(3) cur by (cases "spills k (Suc i)") simp_all
    moreover from this have "bucket_ok M" by (simp add: folds_def)
    moreover obtain fb where "commit H b = Inr (b\<lparr>mNextCurr := fb, mCurr := M\<rparr>)" "cleared fb" using commit_yields [OF M(1)] by blast
    ultimately show ?thesis using M(2) by (intro exI [of _ "b\<lparr>mNextCurr := fb, mCurr := M\<rparr>"] exI [of _ keep]) simp
  qed
  then obtain b1 keep where b1: "commit H b = Inr b1" "cleared (mNextCurr b1)" "mLevel b1 = mLevel b" "mSnap b1 = mSnap b"
    "bucket_ok (mCurr b1)" and keep: "?keep \<longrightarrow> keep" and folds: "folds keep (keys_of pre \<union> bkeys (mCurr a)) (mSnap a) (mCurr b) (mCurr b1)"
    by blast
  have sh: "\<forall>x \<in> set (buckets_of pre). bucket_ok x" and sn: "bucket_ok (mCurr a)" using ok(4) by simp_all
  let ?cur = "if spills (k + half i) (Suc i) then [] else mCurr b1"
  obtain fb where fb: "prepare H w (mCurr a) (buckets_of pre) b1 = Inr (b1\<lparr>mNextCurr := fb\<rparr>)"
    "running H fb ?cur (mCurr a) (buckets_of pre) ?keep"
    using prepare_running [OF b1(3) [unfolded ok(3)] ok(2) b1(2,5) sn sh, of H w] k(1) by auto
  let ?b' = "b1\<lparr>mNextCurr := fb\<rparr>"
  have "bucket_ok ?cur" using b1(5) by simp
  from folds_merged [OF this sn, of _ "buckets_of pre"]
  have "folds f (keys_of pre) (mCurr a) ?cur (merged ?cur (mCurr a) (buckets_of pre) f)" for f
    by (simp add: keys_of_def)
  from pending_inputs [OF fb(2) this]
  have new_link: "link H (next_spill k i) i pre (snapped a) ?b'"
    unfolding link_def next_spill_at [OF k(2)] by (cases "spills (k + half i) (Suc i)") simp_all
  have "keys_of (pre @ [a]) \<union> bkeys (mCurr b) \<subseteq> keys_of (pre @ [snapped a]) \<union> bkeys (mCurr ?b')" if ?keep
    using folds_keys [of "keys_of pre \<union> bkeys (mCurr a)" "mSnap a" "mCurr b" "mCurr b1"] folds keep that by auto
  moreover have "live_entry (lookup (pre @ snapped a # ?b' # suf) x) = live_entry (lookup (pre @ a # b # suf) x)"
    if "?keep \<or> mSnap b = [] \<and> suf = []" for x
    by (rule spill_lookup [OF folds]) (use that keep b1(4) in auto)
  ultimately have "spilled H k i pre a b suf ?b'"
    using new_link b1 by (simp add: spilled_def)
  moreover have "spillInto H w (Suc i) (buckets_of pre) (pre @ a # b # suf) = Inr (pre @ snapped a # ?b' # suf)"
    using ok(1) b1(1) fb(1)
    by (simp add: spillInto_def snapLevel_def nth_append list_update_append flip: snapped_def)
  ultimately show ?thesis by blast
qed

section \<open>The loop\<close>

text \<open>While \<open>n\<close> levels remain to be looked at, the ones before \<open>n\<close> are as ledger \<open>k - 1\<close> left them.\<close>

definition due :: "nat \<Rightarrow> nat \<Rightarrow> nat \<Rightarrow> nat" where
  "due k n i = (if i < n then next_spill (k - 1) i else next_spill k i)"

lemma levels_ok_split:
  assumes "levels_ok (pre @ a # b # suf)"
  shows "mLevel b = Suc (length pre)" "\<forall>x \<in> set (buckets_of (pre @ [a, b])). bucket_ok x"
    "Suc (length pre) = kNumLevels - 1 \<longleftrightarrow> suf = []" "suf = [] \<Longrightarrow> mSnap b = []"
proof -
  have len: "length (pre @ a # b # suf) = kNumLevels" and lv: "map mLevel (pre @ a # b # suf) = [0..<kNumLevels]"
    using assms unfolding levels_ok_def by blast+
  have "map mLevel (pre @ a # b # suf) ! Suc (length pre) = [0..<kNumLevels] ! Suc (length pre)"
    using lv by metis
  then show "mLevel b = Suc (length pre)" using len by (simp add: nth_append)
  show "\<forall>x \<in> set (buckets_of (pre @ [a, b])). bucket_ok x" using assms by (simp add: levels_ok_def)
  show "Suc (length pre) = kNumLevels - 1 \<longleftrightarrow> suf = []" using len by (auto simp: kNumLevels_def)
  show "suf = [] \<Longrightarrow> mSnap b = []" using assms by (simp add: levels_ok_def)
qed

lemma levels_ok_spilled:
  assumes "levels_ok (pre @ a # b # suf)" "spilled H k i pre a b suf b'"
  shows "levels_ok (pre @ snapped a # b' # suf)"
  using assms by (cases pre) (auto simp: levels_ok_def spilled_def)

lemma chain_spilled:
  assumes ok: "levels_ok (pre @ a # b # suf)" and i: "length pre = i" and k: "0 < k" "spills k i"
    and chain: "chain H (due k (Suc i)) [] 0 (pre @ a # b # suf)"
    and sp: "spilled H k i pre a b suf b'"
  shows "chain H (due k i) [] 0 (pre @ snapped a # b' # suf)"
proof -
  note split = levels_ok_split [OF ok]
  have c: "chain H (due k (Suc i)) [] 0 (pre @ [a])" "chain H (due k (Suc i)) (pre @ [a]) (Suc i) (b # suf)"
    using chain_append [THEN iffD1, OF chain] i by simp_all
  have "chain H (due k (Suc i)) [] 0 (pre @ [snapped a])"
  proof (rule chain_snap_last [OF c(1)])
    assume "pre \<noteq> []"
    then obtain j where j: "i = Suc j" using i by (cases i) auto
    have "i < kNumLevels" using ok i by (simp add: levels_ok_def)
    with k(2) j have "spills k j" by (auto intro: spills_below)
    then have "due k (Suc i) j = k" using k(1) j by (simp add: due_def next_spill_steps spills_def)
    with j i k(2) show "spills (due k (Suc i) (0 + length pre - 1)) (0 + length pre)" by simp
  qed simp_all
  then have "chain H (due k i) [] 0 (pre @ [snapped a])"
    by (subst chain_times [where t' = "due k (Suc i)"]) (simp_all add: due_def i)
  moreover have "link H (due k i i) i pre (snapped a) b'"
    using sp by (simp add: spilled_def due_def)
  moreover have "chain H (due k i) (pre @ [snapped a]) (Suc i) (b' # suf)"
  proof (cases "suf = []")
    case False
    have "Suc (Suc (i + length suf)) = kNumLevels" using ok i by (simp add: levels_ok_def)
    with False have "Suc i < kNumLevels - 1" by (cases suf) (auto simp: kNumLevels_def)
    with sp have "chain H (due k (Suc i)) (pre @ [snapped a]) (Suc i) (b' # suf)"
      by (intro chain_mono [OF c(2)]) (simp_all add: spilled_def)
    then show ?thesis
      by (subst chain_times [where t' = "due k (Suc i)"]) (simp_all add: due_def)
  qed simp
  ultimately show ?thesis using i by (intro chain_append [THEN iffD2]) simp
qed

lemma addBatch_loop_result:
  fixes w :: uint32
  assumes k: "0 < k" "unat w = k"
  shows "n < kNumLevels \<Longrightarrow> levels_ok ls \<Longrightarrow> chain H (due k n) [] 0 ls \<Longrightarrow> (spills k n \<Longrightarrow> mCurr (ls ! n) = []) \<Longrightarrow>
    \<exists>ls'. addBatch_loop H w n (buckets_of (take n ls)) ls = Inr ([], ls') \<and> levels_ok ls' \<and>
      chain H (next_spill k) [] 0 ls' \<and> (\<forall>x. stored ls' x = stored ls x)"
proof (induction n arbitrary: ls)
  case 0
  have "due k 0 = next_spill k" by (simp add: due_def fun_eq_iff)
  with 0 show ?case by auto
next
  case (Suc i)
  define pre where "pre = take i ls"
  have len: "length ls = kNumLevels" using Suc.prems(2) by (simp add: levels_ok_def)
  define a b suf where "a = ls ! i" and "b = ls ! Suc i" and "suf = drop (Suc (Suc i)) ls"
  have ls: "ls = pre @ a # b # suf" and i: "length pre = i" and take: "take (Suc i) ls = pre @ [a]"
    using Suc.prems(1) len by (simp_all add: pre_def a_def b_def suf_def Cons_nth_drop_Suc take_Suc_conv_app_nth)
  have pop: "pop2 (buckets_of (take (Suc i) ls)) = buckets_of pre" and
    two: "2 \<le> length (buckets_of (take (Suc i) ls))"
    unfolding take by (simp_all add: pop2_def butlast_append)
  have sp: "levelShouldSpill w i = Inr (spills k i)"
    using levelShouldSpill_eq [of i w] Suc.prems(1) k(2) by simp
  show ?case
  proof (cases "spills k i")
    case False
    then have "\<not> half i dvd k" using Suc.prems(1) by (simp add: spills_def kNumLevels_def)
    then have "due k (Suc i) = due k i"
      using k(1) by (auto simp: due_def fun_eq_iff next_spill_steps less_Suc_eq)
    with Suc.IH [of ls] Suc.prems False sp pop two show ?thesis
      by (simp add: assertE_def pre_def)
  next
    case True
    have half: "half i dvd k" using True by (simp add: spills_def)
    have "link H (due k (Suc i) i) i pre a b"
      using chain_append [THEN iffD1, OF Suc.prems(3) [unfolded ls]] i by simp
    moreover have "due k (Suc i) i = k" using k(1) half by (simp add: due_def next_spill_steps)
    ultimately have "link H k i pre a b" by simp
    moreover note split = levels_ok_split [OF Suc.prems(2) [unfolded ls]]
    moreover have "mCurr b = []" if "spills k (Suc i)" using Suc.prems(4) that by (simp add: b_def)
    ultimately obtain b' where b': "spillInto H w (Suc i) (buckets_of pre) ls = Inr (pre @ snapped a # b' # suf)"
      "spilled H k i pre a b suf b'"
      using spillInto_spilled [OF i Suc.prems(1), of b a H k w suf] k(2) half i ls by auto
    let ?ls = "pre @ snapped a # b' # suf"
    have "levels_ok ?ls" using levels_ok_spilled [OF _ b'(2)] Suc.prems(2) ls by simp
    moreover have "chain H (due k i) [] 0 ?ls"
      using chain_spilled [OF _ i k(1) True _ b'(2)] Suc.prems(2,3) ls by simp
    moreover have "mCurr (?ls ! i) = []" using i by (simp add: nth_append)
    moreover have "take i ?ls = pre" using i by simp
    ultimately obtain ls' where ls': "addBatch_loop H w i (buckets_of pre) ?ls = Inr ([], ls')" "levels_ok ls'"
      "chain H (next_spill k) [] 0 ls'" "\<forall>x. stored ls' x = stored ?ls x"
      using Suc.IH [of ?ls] Suc.prems(1) by auto
    have "Suc i < kNumLevels - 1 \<or> mSnap b = [] \<and> suf = []"
      using split(3,4) i Suc.prems(1) by linarith
    then have "stored ?ls x = stored ls x" for x
      using b'(2) ls by (simp add: stored_def spilled_def)
    with ls' b'(1) True sp pop two show ?thesis by (simp add: assertE_def)
  qed
qed

section \<open>Adding a batch\<close>

lemma entry_of_dead: "entry_of (map DEADENTRY dead) k = (if k \<in> set dead then Some (DEADENTRY k) else None)"
  by (induction dead) auto

lemma entry_of_live:
  "entry_of (map LIVEENTRY live) k = map_option LIVEENTRY (map_of (map (\<lambda>e. (LedgerEntryKey e, e)) live) k)"
  by (induction live) auto

lemma addBatch_level0:
  assumes "levels_ok (l # ls)" "chain H t [] 0 (l # ls)" "bucket_ok b"
  shows "\<exists>l'. bindE (prepare H w b [] l) (commit H) = Inr l' \<and> levels_ok (l' # ls) \<and> chain H t [] 0 (l' # ls) \<and>
    (\<forall>x. lookup (l' # ls) x = newest (entry_of b x) (lookup (l # ls) x))"
proof -
  have l: "mLevel l = 0" "cleared (mNextCurr l)" "bucket_ok (mCurr l)" "kNumLevels \<noteq> Suc 0"
    using assms(1) by (auto simp: levels_ok_def kNumLevels_def upt_rec)
  obtain fb where fb: "FutureBucket_inputs H (mCurr l) b [] True = Inr fb" "running H fb (mCurr l) b [] True"
    using FutureBucket_inputs_running [OF l(3) assms(3), of "[]"] by auto
  have "prepare H w b [] l = Inr (l\<lparr>mNextCurr := fb\<rparr>)"
    using fb running_simps [OF fb(2)] cleared_simps [OF l(2)] l(1)
    by (simp add: prepare_def assertE_def setNext_def kNumLevels_def)
  moreover have "yields H (mNextCurr (l\<lparr>mNextCurr := fb\<rparr>)) (merged (mCurr l) b [] True) True"
    using fb(2) by (auto simp: yields_def)
  from commit_yields [OF this] obtain fb' where c: "cleared fb'"
    "commit H (l\<lparr>mNextCurr := fb\<rparr>) = Inr (l\<lparr>mNextCurr := fb', mCurr := merged (mCurr l) b [] True\<rparr>)"
    by auto
  let ?l = "l\<lparr>mNextCurr := fb', mCurr := merged (mCurr l) b [] True\<rparr>"
  have e: "entry_of (mCurr ?l) x = newest (entry_of b x) (entry_of (mCurr l) x)" for x
    using entry_of_merged [OF l(3) assms(3), of "[]" True x] by simp
  have "levels_ok (?l # ls)"
    using assms(1) c(1) bucket_ok_merged [OF l(3) assms(3), of "[]" True] by (auto simp: levels_ok_def split: if_splits)
  moreover have "bkeys (mCurr l) \<subseteq> bkeys (mCurr ?l)"
  proof
    fix x
    assume "x \<in> bkeys (mCurr l)"
    with e [of x] have "entry_of (mCurr ?l) x \<noteq> None" by (simp add: newest_None_iff entry_of_None_iff)
    then show "x \<in> bkeys (mCurr ?l)" by (simp only: entry_of_None_iff not_not)
  qed
  then have "chain H t [] 0 (?l # ls)" using assms(2) by (rule_tac chain_mono) auto
  moreover have "lookup (?l # ls) x = newest (entry_of b x) (lookup (l # ls) x)" for x
    using e [of x] by (simp add: newest_assoc)
  ultimately show ?thesis using c(2) by (intro exI [of _ ?l]) simp
qed

lemma addBatch_refines:
  fixes w :: uint32
  assumes "bucketlist_ok H k ls" "unat w = Suc k" "batch_ok live dead"
  shows "\<exists>ls'. addBatch H w live dead ls = Inr ls' \<and> bucketlist_ok H (Suc k) ls' \<and>
    stored ls' = apply_batch live dead (stored ls)"
proof -
  have ok: "levels_ok ls" and chain: "chain H (next_spill k) [] 0 ls" and len: "length ls = kNumLevels"
    using assms(1) by (simp_all add: bucketlist_ok_def levels_ok_def)
  have "chain H (due (Suc k) (kNumLevels - 1)) [] 0 ls"
    using chain len by (subst chain_times [where t' = "next_spill k"]) (auto simp: due_def)
  moreover have "\<not> spills (Suc k) (kNumLevels - 1)" by (simp add: spills_def)
  ultimately obtain ls1 where loop: "addBatch_loop H w (kNumLevels - 1) (buckets_of (take (kNumLevels - 1) ls)) ls = Inr ([], ls1)"
    and ls1: "levels_ok ls1" "chain H (next_spill (Suc k)) [] 0 ls1" "\<forall>x. stored ls1 x = stored ls x"
    using addBatch_loop_result [OF _ assms(2), of "kNumLevels - 1" ls H] ok by (auto simp: kNumLevels_def)
  obtain front l10 where "ls = front @ [l10]" using len by (cases ls rule: rev_cases) (auto simp: kNumLevels_def)
  moreover from this len have "take (kNumLevels - 1) ls = front" by auto
  ultimately have pop: "pop2 (buckets_of ls) = buckets_of (take (kNumLevels - 1) ls)" "2 \<le> length (buckets_of ls)"
    by (simp_all add: pop2_def butlast_append)
  obtain b where b: "Bucket_fresh live dead = Inr b" "bucket_ok b"
    "\<forall>x. entry_of b x = newest (entry_of (map DEADENTRY dead) x) (entry_of (map LIVEENTRY live) x)"
    using Bucket_fresh_result [OF assms(3)] by blast
  obtain l rest where l: "ls1 = l # rest" using ls1(1) by (cases ls1) (auto simp: levels_ok_def kNumLevels_def)
  obtain l' where l': "bindE (prepare H w b [] l) (commit H) = Inr l'" "levels_ok (l' # rest)"
    "chain H (next_spill (Suc k)) [] 0 (l' # rest)" "\<forall>x. lookup (l' # rest) x = newest (entry_of b x) (lookup (l # rest) x)"
    using addBatch_level0 [OF _ _ b(2), of l rest] ls1(1,2) l by metis
  have "0 < w" using assms(2) by (metis unat_0 word_gt_0 zero_neq_one nat.distinct(1))
  then have "addBatch H w live dead ls = Inr (l' # rest)"
    using loop pop b(1) l'(1) l len by (simp add: addBatch_def assertE_def bindE_Inr_iff)
  moreover have "stored (l' # rest) = apply_batch live dead (stored ls)"
  proof
    fix x
    have "stored ls x = live_entry (lookup (l # rest) x)" using ls1(3) l by (simp add: stored_def)
    with l'(4) b(3) show "stored (l' # rest) x = apply_batch live dead (stored ls) x"
      by (auto simp: stored_def apply_batch_def entry_of_dead entry_of_live simp del: lookup.simps split: option.split)
  qed
  ultimately show ?thesis using l'(2,3) unfolding bucketlist_ok_def by blast
qed

section \<open>Worker threads\<close>

lemma link_next:
  assumes "link H t i newer a b"
    and "cleared (mNextCurr b) \<Longrightarrow> cleared fb" "\<And>M keep. yields H (mNextCurr b) M keep \<Longrightarrow> yields H fb M keep"
    and "\<And>c s sh f. running H fb c s sh f \<Longrightarrow> running H (mNextCurr b) c s sh f"
  shows "link H t i newer a (setNext fb b)"
proof -
  have s: "mNextCurr (setNext fb b) = fb" "mCurr (setNext fb b) = mCurr b" by (simp_all add: setNext_def)
  from assms(1) show ?thesis unfolding link_def s
    using assms(2) pending_next [where fb = "mNextCurr b" and fb' = fb and H = H] assms(3,4) by meson
qed

text \<open>Replacing the futures of a list by ones that hold the same.\<close>

definition same_future :: "(Bucket \<Rightarrow> Hash) \<Rightarrow> BucketLevel \<Rightarrow> BucketLevel \<Rightarrow> bool" where
  "same_future H l l' \<longleftrightarrow>
     (\<exists>fb. l' = setNext fb l \<and> (cleared (mNextCurr l) \<longrightarrow> cleared fb) \<and>
       (\<forall>M keep. yields H (mNextCurr l) M keep \<longrightarrow> yields H fb M keep) \<and>
       (\<forall>c s sh f. running H fb c s sh f \<longrightarrow> running H (mNextCurr l) c s sh f))"

lemma same_future_simps:
  "same_future H l l' \<Longrightarrow> mCurr l' = mCurr l \<and> mSnap l' = mSnap l \<and> mLevel l' = mLevel l"
  by (auto simp: same_future_def setNext_def)

lemma same_future_refl: "same_future H l l"
  unfolding same_future_def setNext_def by (intro exI [of _ "mNextCurr l"]) simp

lemma chain_same_future:
  "chain H t newer i ls \<Longrightarrow> list_all2 (same_future H) ls ls' \<Longrightarrow> chain H t newer i ls'"
proof (induction H t newer i ls arbitrary: ls' rule: chain.induct)
  case (1 H t newer i a b rest)
  then obtain a' b' rest' where ls': "ls' = a' # b' # rest'" "same_future H a a'" "same_future H b b'"
    "list_all2 (same_future H) (b # rest) (b' # rest')" by (auto simp: list_all2_Cons1)
  have a: "mCurr a' = mCurr a" "mSnap a' = mSnap a" using same_future_simps [OF ls'(2)] by simp_all
  have "link H (t i) i newer a b'"
    using "1.prems"(1) ls'(3) link_next [of H "t i" i newer a b] by (auto simp: same_future_def)
  then have "link H (t i) i newer a' b'" by (rule link_mono) (simp_all add: a)
  moreover have "chain H t (newer @ [a]) (Suc i) (b' # rest')" using "1.IH" "1.prems"(1) ls'(4) by simp
  then have "chain H t (newer @ [a']) (Suc i) (b' # rest')" by (rule chain_mono) (simp_all add: a)
  ultimately show ?case using ls'(1) by simp
qed (auto simp: list_all2_Cons1)

lemma buckets_same_future:
  "list_all2 (same_future H) ls ls' \<Longrightarrow> buckets_of ls' = buckets_of ls \<and> map mLevel ls' = map mLevel ls \<and> lookup ls' = lookup ls"
  by (induction rule: list_all2_induct) (auto dest: same_future_simps)

lemma bucketlist_ok_same_future:
  assumes "bucketlist_ok H k ls" "list_all2 (same_future H) ls ls'"
  shows "bucketlist_ok H k ls' \<and> stored ls' = stored ls"
proof -
  note same = buckets_same_future [OF assms(2)]
  have len: "length ls' = length ls" using assms(2) by (rule list_all2_lengthD [symmetric])
  obtain a rest a' rest' where ls: "ls = a # rest" "ls' = a' # rest'" "same_future H a a'"
    using assms by (cases ls) (auto simp: list_all2_Cons1 bucketlist_ok_def levels_ok_def kNumLevels_def)
  have "same_future H (last ls) (last ls')"
  proof -
    have "ls \<noteq> []" "ls' \<noteq> []" using ls(1,2) by simp_all
    then show ?thesis
      using list_all2_nthD [OF assms(2), of "length ls - 1"] len by (simp add: last_conv_nth)
  qed
  then have "mSnap (last ls') = mSnap (last ls)" by (simp add: same_future_simps)
  moreover have "cleared (mNextCurr (hd ls)) \<Longrightarrow> cleared (mNextCurr (hd ls'))"
    using ls by (auto simp: same_future_def setNext_def)
  ultimately have "levels_ok ls'"
    using assms(1) same len by (simp add: bucketlist_ok_def levels_ok_def)
  with assms chain_same_future same show ?thesis by (auto simp: bucketlist_ok_def stored_def fun_eq_iff)
qed

text \<open>A worker thread finishes the merge of level \<open>i\<close>.\<close>

definition mergeDone :: "nat \<Rightarrow> BucketList \<Rightarrow> BucketList" where
  "mergeDone i ls = ls[i := setNext (workerDone (mNextCurr (ls ! i))) (ls ! i)]"

lemma running_undone: "running H (workerDone fb) c s sh f \<Longrightarrow> running H fb c s sh f"
  by (cases fb) (auto simp: running_def running_fb_def workerDone_def split: option.splits)

lemma same_future_workerDone: "same_future H l (setNext (workerDone (mNextCurr l)) l)"
  unfolding same_future_def
  by (intro exI [of _ "workerDone (mNextCurr l)"])
     (auto simp: cleared_def workerDone_def FutureBucket_default_def intro: yields_simps(3) [unfolded workerDone_def] running_undone [unfolded workerDone_def])

lemma mergeDone_same: "list_all2 (same_future H) ls (mergeDone i ls)"
  unfolding mergeDone_def list_all2_conv_all_nth
  by (cases "i < length ls") (auto simp: nth_list_update same_future_refl same_future_workerDone)

end
