(* ===== verification/BucketList_Restart.thy ===== *)
theory BucketList_Restart
  imports BucketList_Refinement
begin

text \<open>
  Saving a bucket list and assuming the saved state again, as a node does when it restarts: the levels
  come back, and merges in progress are restarted from their inputs.
\<close>

section \<open>Saving and assuming a state\<close>

text \<open>The buckets a future refers to, and those of a list: what \<^verbatim>\<open>BucketManager\<close> retains.\<close>

definition future_buckets :: "FutureBucket \<Rightarrow> Bucket list" where
  "future_buckets fb =
     (case mInputCurrBucket fb of None \<Rightarrow> [] | Some b \<Rightarrow> [b]) @
     (case mInputSnapBucket fb of None \<Rightarrow> [] | Some b \<Rightarrow> [b]) @ mInputShadowBuckets fb @
     (case mOutputBucket fb of None \<Rightarrow> [] | Some (b, _) \<Rightarrow> [b])"

definition referenced :: "BucketList \<Rightarrow> Bucket list" where
  "referenced ls = concat (map (\<lambda>l. [mCurr l, mSnap l] @ future_buckets (mNextCurr l)) ls)"

text \<open>A future that can be saved and restarted: clear, merging, or resolved.\<close>

definition restartable :: "(Bucket \<Rightarrow> Hash) \<Rightarrow> FutureBucket \<Rightarrow> bool" where
  "restartable H fb \<longleftrightarrow>
     cleared fb \<or> (\<exists>M keep. yields H fb M keep)"

lemma restart_cleared:
  "bindE (save H (FutureBucket_default u)) (\<lambda>sv. load H sv (FutureBucket_default unset)) = Inr (FutureBucket_default unset)"
  by (simp add: save_def load_def checkState_def future_defs)

lemma restart_output:
  assumes "store (H b) = Some b"
  shows "bindE (save H (output_fb H b keep)) (\<lambda>sv. bindE (load H sv (FutureBucket_default unset)) (makeLive H store)) =
    Inr (output_fb H b unset)"
proof -
  let ?ld = "(FutureBucket_default unset)\<lparr>mState := FB_HASH_OUTPUT, mOutputBucketHash := Some (H b)\<rparr>"
  have ld: "checkState H ?ld = Inr ()" by (simp add: checkState_def future_defs)
  have "save H (output_fb H b keep) = Inr (SavedOutput (Some (H b)))"
    unfolding save_def checkState_fb by (simp add: output_fb_def)
  moreover from ld have "load H (SavedOutput (Some (H b))) (FutureBucket_default unset) = Inr ?ld"
    by (simp add: load_def future_defs)
  moreover have "makeLive H store ?ld = Inr (output_fb H b unset)"
    using checkState_fb(2) [of H b unset] assms
    unfolding makeLive_def ld
    by (simp add: hasOutputHash_def getOutputHash_def setLiveOutput_def future_defs) (simp add: FutureBucket_default_def Let_def flip: output_fb_def)
  ultimately show ?thesis by simp
qed


text \<open>The future after a restart: the same merge, with the flag the loaded object happens to have.\<close>

definition restarted :: "(Bucket \<Rightarrow> Hash) \<Rightarrow> bool \<Rightarrow> FutureBucket \<Rightarrow> FutureBucket \<Rightarrow> bool" where
  "restarted H unset fb fb' \<longleftrightarrow>
     cleared fb \<and> fb' = FutureBucket_default unset \<or>
     (\<exists>c s sh keep. running H fb c s sh keep \<and> fb' = running_fb H c s sh unset False) \<or>
     (\<exists>b keep. fb = output_fb H b keep \<and> fb' = output_fb H b unset)"

lemma makeLive_hashes: "makeLive H store fb = Inr fb' \<Longrightarrow> hasHashes fb \<and> \<not> isLive fb"
  by (auto simp: makeLive_def bindE_Inr_iff assertE_def split: if_splits)

lemma restart_live:
  assumes "bindE (save H fb) (\<lambda>sv. bindE (load H sv (FutureBucket_default unset)) (makeLive H store)) = Inr fb'"
  shows "\<exists>sv nx. save H fb = Inr sv \<and> load H sv (FutureBucket_default unset) = Inr nx \<and>
    restartLevel H store (setNext nx l) = Inr (setNext fb' l)"
proof -
  obtain sv nx where "save H fb = Inr sv" "load H sv (FutureBucket_default unset) = Inr nx" "makeLive H store nx = Inr fb'"
    using assms by (auto simp: bindE_Inr_iff)
  with makeLive_hashes [OF this(3)] show ?thesis
    by (intro exI [of _ sv] exI [of _ nx]) (simp add: restartLevel_def setNext_def)
qed

lemma restart_future:
  assumes "restartable H fb" "stores H store (future_buckets fb)"
  shows "\<exists>sv nx fb'. save H fb = Inr sv \<and> load H sv (FutureBucket_default unset) = Inr nx \<and>
    restartLevel H store (setNext nx l) = Inr (setNext fb' l) \<and> restarted H unset fb fb'"
proof -
  consider (cl) u where "fb = FutureBucket_default u" | (run) c s sh keep where "running H fb c s sh keep"
    | (out) b keep where "fb = output_fb H b keep"
    using assms(1) by (auto simp: restartable_def yields_def cleared_def)
  then show ?thesis
  proof cases
    case cl
    then obtain sv where "save H fb = Inr sv" "load H sv (FutureBucket_default unset) = Inr (FutureBucket_default unset)"
      using restart_cleared [of H u unset] by (auto simp: bindE_Inr_iff)
    moreover have "restartLevel H store (setNext (FutureBucket_default unset) l) = Inr (setNext (FutureBucket_default unset) l)"
      by (simp add: restartLevel_def setNext_def future_defs)
    moreover have "restarted H unset fb (FutureBucket_default unset)"
      using cl by (auto simp: restarted_def cleared_def)
    ultimately show ?thesis by blast
  next
    case run
    then have "future_buckets fb = c # s # sh @ [merged c s sh keep]"
      by (auto simp: running_def running_fb_def future_buckets_def)
    with assms(2) have "stores H store (c # s # sh)" by (simp add: stores_def)
    from restart_live [OF restart_running [OF run this]] run show ?thesis unfolding restarted_def by blast
  next
    case out
    with assms(2) have "store (H b) = Some b" by (simp add: stores_def future_buckets_def output_fb_def)
    from restart_live [OF restart_output [where store = store and H = H, OF this]] out show ?thesis unfolding restarted_def by blast
  qed
qed

lemma assumeLevel_saved:
  assumes "restartable H (mNextCurr l)" "stores H store (mCurr l # mSnap l # future_buckets (mNextCurr l))"
    and "mLevel base = mLevel l"
  shows "\<exists>sv l1 fb'. save H (mNextCurr l) = Inr sv \<and>
    assumeLevel H store unset \<lparr>hs_curr = H (mCurr l), hs_next = sv, hs_snap = H (mSnap l)\<rparr> base = Inr l1 \<and>
    restartLevel H store l1 = Inr (setNext fb' l) \<and>
    restarted H unset (mNextCurr l) fb'"
proof -
  have "stores H store (future_buckets (mNextCurr l))" using assms(2) by (simp add: stores_def)
  then obtain sv nx fb' where r: "save H (mNextCurr l) = Inr sv" "load H sv (FutureBucket_default unset) = Inr nx"
    "restartLevel H store (setNext nx l) = Inr (setNext fb' l)" "restarted H unset (mNextCurr l) fb'"
    using restart_future [OF assms(1), of store unset l] by blast
  have base: "setNext nx (setSnap (mSnap l) (setCurr (mCurr l) base)) = setNext nx l"
    using assms(3) by (simp add: setNext_def setSnap_def setCurr_def)
  have "assumeLevel H store unset \<lparr>hs_curr = H (mCurr l), hs_next = sv, hs_snap = H (mSnap l)\<rparr> base = Inr (setNext nx l)"
    using assms(2) r(2) base by (simp add: assumeLevel_def stores_def)
  with r(1,3,4) show ?thesis by blast
qed

lemma assumeState_saved:
  "\<forall>l \<in> set ls. restartable H (mNextCurr l) \<Longrightarrow> stores H store (referenced ls) \<Longrightarrow> map mLevel base = map mLevel ls \<Longrightarrow>
   \<exists>has ls'. saveState H ls = Inr has \<and> assumeState H store unset has base = Inr ls' \<and>
     list_all2 (\<lambda>l l'. \<exists>fb. l' = setNext fb l \<and> restarted H unset (mNextCurr l) fb) ls ls'"
proof (induction ls arbitrary: base)
  case Nil
  then show ?case by (simp add: assumeState_def)
next
  case (Cons l ls)
  then obtain b bs where base: "base = b # bs" "mLevel b = mLevel l" "map mLevel bs = map mLevel ls" by auto
  have st: "stores H store (mCurr l # mSnap l # future_buckets (mNextCurr l))" "stores H store (referenced ls)"
    using Cons.prems(2) by (auto simp: stores_def referenced_def)
  obtain has ls' where IH: "saveState H ls = Inr has" "assumeState H store unset has bs = Inr ls'"
    "list_all2 (\<lambda>l l'. \<exists>fb. l' = setNext fb l \<and> restarted H unset (mNextCurr l) fb) ls ls'"
    using Cons.IH [OF _ st(2) base(3)] Cons.prems(1) by auto
  obtain sv l1 fb' where l: "save H (mNextCurr l) = Inr sv"
    "assumeLevel H store unset \<lparr>hs_curr = H (mCurr l), hs_next = sv, hs_snap = H (mSnap l)\<rparr> b = Inr l1"
    "restartLevel H store l1 = Inr (setNext fb' l)"
    "restarted H unset (mNextCurr l) fb'"
    using assumeLevel_saved [OF _ st(1) base(2), of unset] Cons.prems(1) by auto
  show ?case
    using IH l(4) by (intro exI [of _ "\<lparr>hs_curr = H (mCurr l), hs_next = sv, hs_snap = H (mSnap l)\<rparr> # has"]
        exI [of _ "setNext fb' l # ls'"]) (auto simp: l(1-3) base(1) assumeState_def bindE_Inr_iff)
qed

text \<open>
  A restart keeps the invariant when the flag of the merges comes back true, or no merge is in progress but one into the
  last level: there it does not matter whether dead entries are kept.
\<close>

lemma link_restarted:
  assumes link: "link H t i newer a b" and r: "restarted H unset (mNextCurr b) fb"
    and flag: "Suc i < kNumLevels - 1 \<Longrightarrow> isMerging (mNextCurr b) \<Longrightarrow> unset"
  shows "link H t i newer a (setNext fb b)"
proof -
  have s: "mNextCurr (setNext fb b) = fb" "mCurr (setNext fb b) = mCurr b" by (simp_all add: setNext_def)
  consider (cl) "cleared (mNextCurr b)" "cleared fb"
    | (run) c sn sh keep where "running H (mNextCurr b) c sn sh keep" "fb = running_fb H c sn sh unset False"
    | (out) x keep where "mNextCurr b = output_fb H x keep" "fb = output_fb H x unset"
    using r by (auto simp: restarted_def cleared_def)
  then show ?thesis
  proof cases
    case cl
    then have "\<not> yields H (mNextCurr b) M f" for M f using yields_simps(1) [of H "mNextCurr b" M f] cleared_simps by blast
    with link cl(2) show ?thesis unfolding link_def s by (auto simp: pending_def)
  next
    case run
    have p: "pending H (mNextCurr b) (Suc i < kNumLevels - 1) (keys_of newer \<union> bkeys (mCurr a)) (mSnap a) (if spills t (Suc i) then [] else mCurr b)"
      using link running_simps [OF run(1)] cleared_simps unfolding link_def by blast
    have "running H fb c sn sh unset" using run by (auto simp: running_def)
    from pending_inputs [OF this pending_running [OF p run(1)]] flag running_simps [OF run(1)] show ?thesis
      unfolding link_def s by blast
  next
    case out
    have "\<not> cleared (mNextCurr b)" using out(1) by (auto simp: cleared_def FutureBucket_default_def output_fb_def)
    moreover have "\<exists>f'. yields H fb M f'" if "yields H (mNextCurr b) M f" for M f
      using that out by (auto simp: yields_def running_def running_fb_def output_fb_def)
    moreover have "\<not> running H fb c s' sh f" for c s' sh f using out(2) by (auto simp: running_def running_fb_def output_fb_def)
    ultimately show ?thesis using link pending_next [where fb = "mNextCurr b" and fb' = fb and H = H] unfolding link_def s by blast
  qed
qed

definition next_restarted :: "(Bucket \<Rightarrow> Hash) \<Rightarrow> bool \<Rightarrow> BucketLevel \<Rightarrow> BucketLevel \<Rightarrow> bool" where
  "next_restarted H unset l l' \<longleftrightarrow> (\<exists>fb. l' = setNext fb l \<and> restarted H unset (mNextCurr l) fb)"

lemma next_restarted_simps:
  "next_restarted H unset l l' \<Longrightarrow> mCurr l' = mCurr l \<and> mSnap l' = mSnap l \<and> mLevel l' = mLevel l"
  by (auto simp: next_restarted_def setNext_def)

lemma chain_restarted:
  "chain H t newer i ls \<Longrightarrow> list_all2 (next_restarted H unset) ls ls' \<Longrightarrow> i + length ls = kNumLevels \<Longrightarrow>
   \<forall>l \<in> set (butlast ls). isMerging (mNextCurr l) \<longrightarrow> unset \<Longrightarrow> chain H t newer i ls'"
proof (induction H t newer i ls arbitrary: ls' rule: chain.induct)
  case (1 H t newer i a b rest)
  then obtain a' b' rest' where ls': "ls' = a' # b' # rest'" "next_restarted H unset a a'" "next_restarted H unset b b'"
    "list_all2 (next_restarted H unset) (b # rest) (b' # rest')" by (auto simp: list_all2_Cons1)
  have a: "mCurr a' = mCurr a" "mSnap a' = mSnap a" using next_restarted_simps [OF ls'(2)] by simp_all
  have "Suc i < kNumLevels - 1 \<Longrightarrow> isMerging (mNextCurr b) \<Longrightarrow> unset" using "1.prems"(3,4) by (cases rest) auto
  then have "link H (t i) i newer a b'"
    using "1.prems"(1) ls'(3) link_restarted [of H "t i" i newer a b] by (auto simp: next_restarted_def)
  then have "link H (t i) i newer a' b'" by (rule link_mono) (simp_all add: a)
  moreover have "chain H t (newer @ [a]) (Suc i) (b' # rest')" using "1.IH" "1.prems" ls'(4) by (auto split: if_splits)
  then have "chain H t (newer @ [a']) (Suc i) (b' # rest')" by (rule chain_mono) (simp_all add: a)
  ultimately show ?case using ls'(1) by simp
qed (auto simp: list_all2_Cons1)

lemma buckets_restarted:
  "list_all2 (next_restarted H unset) ls ls' \<Longrightarrow> buckets_of ls' = buckets_of ls \<and> map mLevel ls' = map mLevel ls \<and> lookup ls' = lookup ls"
  by (induction rule: list_all2_induct) (auto dest: next_restarted_simps)

lemma bucketlist_ok_restarted:
  assumes "bucketlist_ok H k ls" "list_all2 (next_restarted H unset) ls ls'" "\<forall>l \<in> set (butlast ls). isMerging (mNextCurr l) \<longrightarrow> unset"
  shows "bucketlist_ok H k ls' \<and> stored ls' = stored ls"
proof -
  note same = buckets_restarted [OF assms(2)]
  have len: "length ls' = length ls" using assms(2) by (rule list_all2_lengthD [symmetric])
  obtain a rest a' rest' where ls: "ls = a # rest" "ls' = a' # rest'" "next_restarted H unset a a'"
    using assms by (cases ls) (auto simp: list_all2_Cons1 bucketlist_ok_def levels_ok_def kNumLevels_def)
  have "ls \<noteq> []" "ls' \<noteq> []" using ls(1,2) by simp_all
  then have "next_restarted H unset (last ls) (last ls')"
    using list_all2_nthD [OF assms(2), of "length ls - 1"] len by (simp add: last_conv_nth)
  then have "mSnap (last ls') = mSnap (last ls)" by (simp add: next_restarted_simps)
  moreover have "cleared (mNextCurr (hd ls)) \<Longrightarrow> cleared (mNextCurr (hd ls'))"
    using ls running_simps cleared_simps by (auto simp: next_restarted_def restarted_def setNext_def cleared_def FutureBucket_default_def output_fb_def
        running_def running_fb_def)
  ultimately have "levels_ok ls'"
    using assms(1) same len by (simp add: bucketlist_ok_def levels_ok_def)
  moreover have "chain H (next_spill k) [] 0 ls'"
    using assms by (intro chain_restarted [OF _ assms(2)]) (simp_all add: bucketlist_ok_def levels_ok_def)
  ultimately show ?thesis using same by (auto simp: bucketlist_ok_def stored_def fun_eq_iff)
qed

lemma chain_restartable: "chain H t newer i ls \<Longrightarrow> l \<in> set (tl ls) \<Longrightarrow> restartable H (mNextCurr l)"
  by (induction H t newer i ls rule: chain.induct) (auto simp: link_def pending_def restartable_def)

lemma bucketlist_ok_restartable: "bucketlist_ok H k ls \<Longrightarrow> l \<in> set ls \<Longrightarrow> restartable H (mNextCurr l)"
  using chain_restartable [of H "next_spill k" "[]" 0 ls l]
  by (cases ls) (auto simp: bucketlist_ok_def levels_ok_def restartable_def)

lemma restart_result:
  assumes "bucketlist_ok H k ls" "stores H store (referenced ls)"
  shows "\<exists>has ls'. saveState H ls = Inr has \<and> assumeState H store unset has BucketList_init = Inr ls' \<and>
    list_all2 (\<lambda>l l'. \<exists>fb. l' = setNext fb l \<and> restarted H unset (mNextCurr l) fb) ls ls'"
proof -
  have "map mLevel BucketList_init = map mLevel ls"
    using assms(1) by (simp add: bucketlist_ok_def levels_ok_def BucketList_init_def BucketLevel_init_def comp_def)
  with assms bucketlist_ok_restartable show ?thesis by (intro assumeState_saved) blast+
qed

end
