(* ===== verification/BucketList_Check.thy ===== *)
theory BucketList_Check
  imports BucketList_Restart
begin

text \<open>
  The consistency check of the database against the bucket list, and the runs of a bucket list: batches
  of consecutive ledgers, worker threads finishing, checks and restarts, in any interleaving.
\<close>

section \<open>The super-bucket\<close>

fun lookup_buckets :: "Bucket list \<Rightarrow> LedgerKey \<Rightarrow> BucketEntry option" where
  "lookup_buckets [] k = None"
| "lookup_buckets (b # bs) k = newest (entry_of b k) (lookup_buckets bs k)"

lemma lookup_buckets_append: "lookup_buckets (as @ bs) k = newest (lookup_buckets as k) (lookup_buckets bs k)"
  by (induction as) (simp_all add: newest_assoc)

lemma mergeAll_result:
  "bucket_ok sb \<Longrightarrow> \<forall>b \<in> set bs. bucket_ok b \<Longrightarrow>
   \<exists>sb'. mergeAll sb bs = Inr sb' \<and> bucket_ok sb' \<and> (\<forall>k. entry_of sb' k = newest (entry_of sb k) (lookup_buckets bs k))"
proof (induction bs arbitrary: sb)
  case (Cons b bs)
  let ?m = "merged b sb [] True"
  have b: "bucket_ok b" using Cons.prems(2) by simp
  obtain sb' where "mergeAll ?m bs = Inr sb'" "bucket_ok sb'" "\<forall>k. entry_of sb' k = newest (entry_of ?m k) (lookup_buckets bs k)"
    using Cons.IH [OF bucket_ok_merged [OF b Cons.prems(1)], of "[]" True] Cons.prems(2) by auto
  then show ?case
    using Bucket_merge_merged [OF b Cons.prems(1), of "[]"] entry_of_merged [OF b Cons.prems(1), of "[]" True]
    by (simp add: newest_assoc)
qed simp

lemma same_future_resolved:
  "yields H (mNextCurr l) M keep \<Longrightarrow> same_future H l (setNext (output_fb H M keep) l)"
proof -
  assume y: "yields H (mNextCurr l) M keep"
  have "M' = M \<and> keep' = keep" if "yields H (mNextCurr l) M' keep'" for M' keep'
  proof -
    have "output_fb H M' keep' = output_fb H M keep" "M' = M"
      using yields_simps(2) [OF that] yields_simps(2) [OF y] by (metis prod.inject sum.inject(2))+
    then show ?thesis by (simp add: output_fb_def)
  qed
  moreover have "\<not> cleared (mNextCurr l)" using yields_simps(1) [OF y] cleared_simps by blast
  ultimately show ?thesis
    unfolding same_future_def
    by (intro exI [of _ "output_fb H M keep"]) (auto simp: yields_def running_def running_fb_def output_fb_def)
qed

text \<open>Behind the levels in \<open>newer\<close> and \<open>a\<close>, the buckets collected hold what the levels do.\<close>

lemma collectBuckets_result:
  "chain H t newer i (a # rest) \<Longrightarrow> \<forall>b \<in> set (buckets_of rest). bucket_ok b \<Longrightarrow>
   \<exists>bs rest'. collectBuckets H rest = Inr (bs, rest') \<and> list_all2 (same_future H) rest rest' \<and>
     (\<forall>b \<in> set bs. bucket_ok b) \<and>
     (\<forall>k. k \<notin> keys_of (newer @ [a]) \<longrightarrow> lookup_buckets bs k = lookup rest k)"
proof (induction rest arbitrary: newer i a)
  case (Cons b rest)
  obtain bs rest' where IH: "collectBuckets H rest = Inr (bs, rest')" "list_all2 (same_future H) rest rest'"
    "\<forall>b \<in> set bs. bucket_ok b" "\<And>k. k \<notin> keys_of (newer @ [a] @ [b]) \<Longrightarrow> lookup_buckets bs k = lookup rest k"
    using Cons.IH [of "newer @ [a]" "Suc i" b] Cons.prems by auto
  have tail: "newest (entry_of (mCurr b) k) (newest (entry_of (mSnap b) k) (lookup_buckets bs k)) = lookup (b # rest) k"
    if "k \<notin> keys_of (newer @ [a])" for k
    using IH(4) [of k] that entry_of_None_iff [of "mCurr b" k] entry_of_None_iff [of "mSnap b" k]
    by (cases "entry_of (mCurr b) k"; cases "entry_of (mSnap b) k") auto
  have link: "link H (t i) i newer a b" using Cons.prems(1) by simp
  show ?case
  proof (cases "cleared (mNextCurr b) \<and> mSnap a = [] \<and> mCurr b = []")
    case True
    with IH tail Cons.prems(2) cleared_simps same_future_refl show ?thesis
      by (intro exI [of _ "mCurr b # mSnap b # bs"] exI [of _ "b # rest'"]) auto
  next
    case False
    then have "pending H (mNextCurr b) (Suc i < kNumLevels - 1) (keys_of newer \<union> bkeys (mCurr a)) (mSnap a) (if spills (t i) (Suc i) then [] else mCurr b)"
      using link unfolding link_def by blast
    then obtain M flag keep where y: "yields H (mNextCurr b) M flag"
      and f: "folds keep (keys_of newer \<union> bkeys (mCurr a)) (mSnap a) (if spills (t i) (Suc i) then [] else mCurr b) M"
      by (rule pendingE)
    have "newest (entry_of M k) (newest (entry_of (mCurr b) k) r) = newest (entry_of (mCurr b) k) r"
      if "k \<notin> keys_of (newer @ [a])" for k r
    proof -
      have "entry_of M k = None \<or> entry_of M k = entry_of (mCurr b) k"
        using f that by (auto simp: folds_def drop_dead_def entry_of_None_iff [of "mSnap a" k, THEN iffD2] split: option.splits)
      then show ?thesis by (cases "entry_of (mCurr b) k") auto
    qed
    with tail have "lookup_buckets (M # mCurr b # mSnap b # bs) k = lookup (b # rest) k" if "k \<notin> keys_of (newer @ [a])" for k
      using that by simp
    moreover have "collectBuckets H (b # rest) = Inr (M # mCurr b # mSnap b # bs, setNext (output_fb H M flag) b # rest')"
      using yields_simps(1,2) [OF y] IH(1) by simp
    moreover have "bucket_ok M" using f by (simp add: folds_def)
    ultimately show ?thesis
      using IH(2,3) Cons.prems(2) same_future_resolved [OF y]
      by (intro exI [of _ "M # mCurr b # mSnap b # bs"] exI [of _ "setNext (output_fb H M flag) b # rest'"]) auto
  qed
qed simp

lemma superBucket_result:
  assumes "bucketlist_ok H k ls"
  shows "\<exists>b bs ls' sb. collectBuckets H ls = Inr (b # bs, ls') \<and> list_all2 (same_future H) ls ls' \<and>
    mergeAll b bs = Inr sb \<and> bucket_ok sb \<and> (\<forall>x. entry_of sb x = lookup ls x)"
proof -
  obtain l rest where ls: "ls = l # rest"
    using assms by (cases ls) (auto simp: bucketlist_ok_def levels_ok_def kNumLevels_def)
  have l: "\<not> isLive (mNextCurr l)" and ok: "\<forall>b \<in> set (buckets_of (l # rest)). bucket_ok b"
    and chain: "chain H (next_spill k) [] 0 (l # rest)"
    using assms cleared_simps by (auto simp: bucketlist_ok_def levels_ok_def ls)
  obtain bs rest' where bs: "collectBuckets H rest = Inr (bs, rest')" "list_all2 (same_future H) rest rest'"
    "\<forall>b \<in> set bs. bucket_ok b" "\<And>k. k \<notin> keys_of [l] \<Longrightarrow> lookup_buckets bs k = lookup rest k"
    using collectBuckets_result [OF chain] ok by auto
  have "\<exists>sb. mergeAll (mCurr l) (mSnap l # bs) = Inr sb \<and> bucket_ok sb \<and>
      (\<forall>x. entry_of sb x = newest (entry_of (mCurr l) x) (lookup_buckets (mSnap l # bs) x))"
    using ok bs(3) by (intro mergeAll_result) simp_all
  moreover have "newest (entry_of (mCurr l) x) (lookup_buckets (mSnap l # bs) x) = lookup ls x" for x
    using bs(4) [of x] entry_of_None_iff [of "mCurr l" x] entry_of_None_iff [of "mSnap l" x] ls
    by (cases "entry_of (mCurr l) x"; cases "entry_of (mSnap l) x") auto
  ultimately show ?thesis
    using bs(1,2) l ls same_future_refl by (simp del: mergeAll.simps)
qed

section \<open>The comparison with the database\<close>

text \<open>What is relied on of the database: it is finite, consistent with its keys, and counts what it holds.\<close>

definition db_ok :: "(LedgerKey \<Rightarrow> LedgerEntry option) \<Rightarrow> (nat \<Rightarrow> nat) \<Rightarrow> bool" where
  "db_ok db cnt \<longleftrightarrow>
     finite (dom db) \<and> (\<forall>k e. db k = Some e \<longrightarrow> LedgerEntryKey e = k) \<and>
     (\<forall>t. cnt t = card {k \<in> dom db. LedgerEntryType_of k = t})"

definition live_keys :: "Bucket \<Rightarrow> nat \<Rightarrow> LedgerKey list" where
  "live_keys b t = filter (\<lambda>k. LedgerEntryType_of k = t) (map bkey (filter (\<lambda>e. \<not> isDead e) b))"

lemma scanSuperBucket_result:
  "scanSuperBucket db b counts = Inr counts' \<longleftrightarrow>
     (\<forall>e. LIVEENTRY e \<in> set b \<longrightarrow> db (LedgerEntryKey e) = Some e) \<and>
     counts' = (\<lambda>t. counts t + length (live_keys b t))"
proof (induction db b counts rule: scanSuperBucket.induct)
  case (3 db e b counts)
  have "checkAgainstDatabase db e = Inr () \<longleftrightarrow> db (LedgerEntryKey e) = Some e"
    by (auto simp: checkAgainstDatabase_def bindE_Inr_iff)
  moreover have "(\<lambda>t. (counts(LedgerEntryType_of (LedgerEntryKey e) :=
        counts (LedgerEntryType_of (LedgerEntryKey e)) + 1)) t + length (live_keys b t)) =
      (\<lambda>t. counts t + length (live_keys (LIVEENTRY e # b) t))"
    by (rule ext) (simp add: live_keys_def)
  ultimately show ?case
    using 3 by (auto simp: bindE_Inr_iff Let_def simp del: fun_upd_apply)
qed (auto simp: live_keys_def)

lemma compareSizes_iff [simp]: "compareSizes a b = Inr () \<longleftrightarrow> a = b"
  by (simp add: compareSizes_def)

lemma live_in_bucket:
  assumes "bucket_ok b"
  shows "LIVEENTRY e \<in> set b \<longleftrightarrow> entry_of b (LedgerEntryKey e) = Some (LIVEENTRY e)"
  using assms
proof (induction b)
  case (Cons x b)
  have "bkey x \<notin> bkeys b" using Cons.prems unfolding bucket_ok_Cons by auto
  moreover have "LIVEENTRY e \<in> set b \<Longrightarrow> LedgerEntryKey e \<in> bkeys b" by (force simp: bkeys_def)
  ultimately show ?case using Cons by auto
qed simp

lemma type_cases: "LedgerEntryType_of k < 5"
  by (cases k) simp_all

text \<open>The count of a type over the super-bucket is the number of keys it stores.\<close>

lemma length_live_keys:
  assumes "bucket_ok b"
  shows "length (live_keys b t) = card {k. live_entry (entry_of b k) \<noteq> None \<and> LedgerEntryType_of k = t}"
proof -
  have "distinct (map bkey b)" using assms by (rule strict_sorted_distinct)
  then have "distinct (map bkey (filter (\<lambda>e. \<not> isDead e) b))" by (rule distinct_map_filter)
  then have "distinct (live_keys b t)" unfolding live_keys_def by (rule distinct_filter)
  then have "length (live_keys b t) = card (set (live_keys b t))" by (rule distinct_card [symmetric])
  moreover have "set (live_keys b t) = {k. live_entry (entry_of b k) \<noteq> None \<and> LedgerEntryType_of k = t}"
  proof -
    have "(\<exists>e \<in> set b. \<not> isDead e \<and> bkey e = k) \<longleftrightarrow> live_entry (entry_of b k) \<noteq> None" for k
    proof
      assume "\<exists>e \<in> set b. \<not> isDead e \<and> bkey e = k"
      then obtain e where "LIVEENTRY e \<in> set b" "LedgerEntryKey e = k"
        by (metis bkey.simps(1) isDead.elims(3))
      then show "live_entry (entry_of b k) \<noteq> None" using live_in_bucket [OF assms] by auto
    next
      assume "live_entry (entry_of b k) \<noteq> None"
      then obtain e where "entry_of b k = Some (LIVEENTRY e)" by (cases "entry_of b k" rule: live_entry.cases) auto
      with entry_of_key [OF this] show "\<exists>e \<in> set b. \<not> isDead e \<and> bkey e = k"
        by (intro bexI [of _ "LIVEENTRY e"]) simp_all
    qed
    moreover have "set (live_keys b t) = {k. (\<exists>e \<in> set b. \<not> isDead e \<and> bkey e = k) \<and> LedgerEntryType_of k = t}"
      unfolding live_keys_def by auto
    ultimately show ?thesis by simp
  qed
  ultimately show ?thesis by simp
qed

lemma stored_key: "stored ls k = Some e \<Longrightarrow> LedgerEntryKey e = k"
proof -
  have key: "lookup ls k = Some x \<Longrightarrow> bkey x = k" for x
    by (induction ls) (auto simp: newest_def dest: entry_of_key split: option.splits)
  assume "stored ls k = Some e"
  then have "lookup ls k = Some (LIVEENTRY e)"
    by (cases "lookup ls k" rule: live_entry.cases) (auto simp: stored_def)
  from key [OF this] show "LedgerEntryKey e = k" by simp
qed

lemma maps_agree:
  fixes m db :: "LedgerKey \<Rightarrow> LedgerEntry option"
  assumes "finite (dom db)" "\<And>k e. m k = Some e \<Longrightarrow> db k = Some e"
    and "\<And>t. t < 5 \<Longrightarrow> card {k \<in> dom db. LedgerEntryType_of k = t} = card {k \<in> dom m. LedgerEntryType_of k = t}"
  shows "db = m"
proof -
  have sub: "dom m \<subseteq> dom db" using assms(2) by auto
  have "k \<in> dom m" if "k \<in> dom db" for k
  proof -
    let ?t = "LedgerEntryType_of k"
    have "{k \<in> dom m. LedgerEntryType_of k = ?t} = {k \<in> dom db. LedgerEntryType_of k = ?t}"
      using sub assms(1) assms(3) [OF type_cases [of k]] by (intro card_subset_eq) auto
    with that show ?thesis by blast
  qed
  with sub assms(2) show ?thesis by (metis domD domIff subsetD ext)
qed

lemma checkDB_iff:
  assumes ok: "bucketlist_ok H k ls" and db: "db_ok db cnt"
  shows "(\<exists>ls'. checkDBAgainstBuckets H db cnt ls = Inr ls') \<longleftrightarrow> db = stored ls"
    and "checkDBAgainstBuckets H db cnt ls = Inr ls' \<Longrightarrow> list_all2 (same_future H) ls ls'"
proof -
  obtain b bs lsr sb where r: "collectBuckets H ls = Inr (b # bs, lsr)" "list_all2 (same_future H) ls lsr"
    "mergeAll b bs = Inr sb" and sb: "bucket_ok sb" "\<forall>x. entry_of sb x = lookup ls x"
    using superBucket_result [OF ok] by blast
  have run: "checkDBAgainstBuckets H db cnt ls = Inr ls' \<longleftrightarrow>
      ls' = lsr \<and> (\<forall>e. LIVEENTRY e \<in> set sb \<longrightarrow> db (LedgerEntryKey e) = Some e) \<and>
      (\<forall>t < 5. cnt t = length (live_keys sb t))" for ls'
  proof -
    have five: "(\<forall>t < 5. P t) \<longleftrightarrow> P 0 \<and> P 1 \<and> P 2 \<and> P 3 \<and> P (4 :: nat)" for P
      by (auto simp: less_Suc_eq numeral_eq_Suc)
    show ?thesis
      unfolding checkDBAgainstBuckets_def five
      by (auto simp: r(1,3) bindE_Inr_iff scanSuperBucket_result)
  qed
  then show "checkDBAgainstBuckets H db cnt ls = Inr ls' \<Longrightarrow> list_all2 (same_future H) ls ls'"
    using r(2) by simp
  have live: "LIVEENTRY e \<in> set sb \<longleftrightarrow> stored ls (LedgerEntryKey e) = Some e" for e
  proof -
    have "x = Some (LIVEENTRY e) \<longleftrightarrow> live_entry x = Some e" for x
      by (cases x rule: live_entry.cases) auto
    then show ?thesis using live_in_bucket [OF sb(1)] sb(2) by (simp add: stored_def)
  qed
  have lks: "length (live_keys sb t) = card {k \<in> dom (stored ls). LedgerEntryType_of k = t}" for t
    using length_live_keys [OF sb(1)] sb(2) by (simp add: stored_def dom_def)
  show "(\<exists>ls'. checkDBAgainstBuckets H db cnt ls = Inr ls') \<longleftrightarrow> db = stored ls"
  proof
    assume "\<exists>ls'. checkDBAgainstBuckets H db cnt ls = Inr ls'"
    then have same: "\<And>e. stored ls (LedgerEntryKey e) = Some e \<Longrightarrow> db (LedgerEntryKey e) = Some e"
      and size: "\<And>t. t < 5 \<Longrightarrow> cnt t = length (live_keys sb t)"
      unfolding run live by blast+
    have keys: "finite (dom db)" "\<And>t. cnt t = card {k \<in> dom db. LedgerEntryType_of k = t}"
      using db by (simp_all add: db_ok_def)
    show "db = stored ls"
    proof (rule maps_agree [OF keys(1)])
      show "db k = Some e" if "stored ls k = Some e" for k e
        using same [of e] stored_key [OF that] that by simp
      show "card {k \<in> dom db. LedgerEntryType_of k = t} = card {k \<in> dom (stored ls). LedgerEntryType_of k = t}"
        if "t < 5" for t
        using size [OF that] unfolding keys(2) lks .
    qed
  next
    assume "db = stored ls"
    moreover have "cnt t = card {k \<in> dom db. LedgerEntryType_of k = t}" for t
      using db by (simp add: db_ok_def)
    ultimately show "\<exists>ls'. checkDBAgainstBuckets H db cnt ls = Inr ls'"
      unfolding run live lks by blast
  qed
qed

section \<open>Runs\<close>

text \<open>
  \<open>bucket_run H k ls m\<close>: after the batches of ledgers 1 to \<open>k\<close>, interleaved with worker threads, checks
  and restarts from the saved state, the bucket list is \<open>ls\<close>; \<open>m\<close> is the map the batches describe. The
  restarts are those that find the flag \<^verbatim>\<open>mKeepDeadEntries\<close> of the loaded merges, which the code leaves uninitialised,
  true, or that have no merge in progress but one into the last level.
\<close>

inductive bucket_run ::
  "(Bucket \<Rightarrow> Hash) \<Rightarrow> nat \<Rightarrow> BucketList \<Rightarrow> (LedgerKey \<Rightarrow> LedgerEntry option) \<Rightarrow> bool" for H
where
  run_init: "bucket_run H 0 BucketList_init (\<lambda>_. None)"
| run_batch: "bucket_run H k ls m \<Longrightarrow> Suc k < 2 ^ 32 \<Longrightarrow> batch_ok live dead \<Longrightarrow>
    addBatch H (of_nat (Suc k)) live dead ls = Inr ls' \<Longrightarrow>
    bucket_run H (Suc k) ls' (apply_batch live dead m)"
| run_worker: "bucket_run H k ls m \<Longrightarrow> bucket_run H k (mergeDone i ls) m"
| run_check: "bucket_run H k ls m \<Longrightarrow> db_ok db cnt \<Longrightarrow>
    checkDBAgainstBuckets H db cnt ls = Inr ls' \<Longrightarrow> bucket_run H k ls' m"
| run_restart: "bucket_run H k ls m \<Longrightarrow> stores H store (referenced ls) \<Longrightarrow>
    \<forall>l \<in> set (butlast ls). isMerging (mNextCurr l) \<longrightarrow> unset \<Longrightarrow>
    bindE (saveState H ls) (\<lambda>has. assumeState H store unset has BucketList_init) = Inr ls' \<Longrightarrow> bucket_run H k ls' m"

lemma chain_init:
  "\<forall>l \<in> set ls. cleared (mNextCurr l) \<and> mCurr l = [] \<and> mSnap l = [] \<Longrightarrow> chain H t newer i ls"
  by (induction H t newer i ls rule: chain.induct) (simp_all add: link_def)

lemma bucketlist_ok_init: "bucketlist_ok H 0 BucketList_init \<and> stored BucketList_init = (\<lambda>_. None)"
proof -
  have empty: "\<forall>l \<in> set BucketList_init. cleared (mNextCurr l) \<and> mCurr l = [] \<and> mSnap l = []"
    by (auto simp: BucketList_init_def BucketLevel_init_def cleared_def)
  then have "keys_of BucketList_init = {}" by (auto simp: keys_of_def hidden_keys_def buckets_of_def)
  then have "stored BucketList_init = (\<lambda>_. None)" by (intro ext) (simp add: stored_def lookup_None_iff [THEN iffD2])
  moreover have "levels_ok BucketList_init"
    by (auto simp: levels_ok_def BucketList_init_def BucketLevel_init_def buckets_of_def comp_def kNumLevels_def
        upt_rec cleared_def)
  ultimately show ?thesis using chain_init [OF empty] by (simp add: bucketlist_ok_def)
qed

lemma unat_ledger: "Suc k < 2 ^ 32 \<Longrightarrow> unat (of_nat (Suc k) :: uint32) = Suc k"
  by (rule unat_of_nat_small) simp

lemma bucket_run_ok: "bucket_run H k ls m \<Longrightarrow> bucketlist_ok H k ls \<and> stored ls = m"
proof (induction rule: bucket_run.induct)
  case run_init
  show ?case by (rule bucketlist_ok_init)
next
  case (run_batch k ls m live dead ls')
  then show ?case using addBatch_refines [OF _ unat_ledger [OF run_batch(2)] run_batch(3)] by fastforce
next
  case (run_worker k ls m i)
  then show ?case using bucketlist_ok_same_future [OF _ mergeDone_same] by blast
next
  case (run_check k ls m db cnt ls')
  then show ?case using bucketlist_ok_same_future checkDB_iff(2) by metis
next
  case (run_restart k ls m store unset ls')
  then have ok: "bucketlist_ok H k ls" "stored ls = m" by simp_all
  with restart_result [OF ok(1) run_restart(2), of unset] run_restart(4) have "list_all2 (next_restarted H unset) ls ls'"
    by (auto simp: next_restarted_def [abs_def])
  with bucketlist_ok_restarted [OF ok(1) _ run_restart(3)] ok(2) show ?case by blast
qed

end
