(* ===== verification/LedgerDelta_Refinement.thy ===== *)
theory LedgerDelta_Refinement
  imports LedgerDelta BucketList_Check
begin

text \<open>
  A delta stands for a change of a map from keys to entries. On a map \<open>m\<close>, the operations of a delta
  have the effect of the corresponding updates as long as entries are added only where there is none and
  modified or deleted only where there is one; committing composes the changes.
\<close>

section \<open>Erasing and inserting\<close>

lemma map_of_erase [simp]: "map_of (map_erase k m) = (map_of m)(k := None)"
  unfolding map_erase_def by (induction m) (auto simp: fun_eq_iff)

lemma map_ok_erase: "map_ok m \<Longrightarrow> map_ok (map_erase k m)"
  unfolding map_erase_def by (induction m) auto

lemma keys_erase: "set (map fst (map_erase k m)) = set (map fst m) - {k}"
  unfolding map_erase_def by force

lemma keys_map_of: "k \<in> set (map fst m) \<longleftrightarrow> map_of m k \<noteq> None"
  by (simp add: map_of_eq_None_iff)

lemma removeAll_sorted: "strict_sorted xs \<Longrightarrow> strict_sorted (removeAll x xs)"
  by (induction xs) auto

section \<open>The map a delta stands for\<close>

type_synonym ledger_map = "LedgerKey \<Rightarrow> LedgerEntry option"

definition effect :: "LedgerDelta \<Rightarrow> ledger_map \<Rightarrow> ledger_map" where
  "effect d m k =
     (if k \<in> set (mDelete d) then None
      else case map_of (mNew d) k of
             Some e \<Rightarrow> Some e
           | None \<Rightarrow> (case map_of (mMod d) k of Some e \<Rightarrow> Some e | None \<Rightarrow> m k))"

definition keyed :: "KeyEntryMap \<Rightarrow> bool" where
  "keyed es \<longleftrightarrow> map_ok es \<and> (\<forall>k e. map_of es k = Some e \<longrightarrow> LedgerEntryKey e = k)"

definition delta_ok :: "ledger_map \<Rightarrow> LedgerDelta \<Rightarrow> bool" where
  "delta_ok m d \<longleftrightarrow>
     mOpen d \<and> keyed (mNew d) \<and> keyed (mMod d) \<and> keyed (mPrevious d) \<and> strict_sorted (mDelete d) \<and>
     (\<forall>k. map_of (mNew d) k \<noteq> None \<longrightarrow> m k = None) \<and>
     (\<forall>k. map_of (mMod d) k \<noteq> None \<longrightarrow> m k \<noteq> None \<and> k \<notin> set (mDelete d)) \<and>
     (\<forall>k \<in> set (mDelete d). m k \<noteq> None)"

lemma keyed_put: "keyed es \<Longrightarrow> keyed (map_put (LedgerEntryKey e) e es)"
  by (simp add: keyed_def map_ok_put map_of_put)

lemma keyed_erase: "keyed es \<Longrightarrow> keyed (map_erase k es)"
  by (simp add: keyed_def map_ok_erase)

lemma keyed_insert: "keyed es \<Longrightarrow> keyed (map_insert (LedgerEntryKey e) e es)"
  by (auto simp: map_insert_def keyed_put split: option.split)

lemma keyed_map_of_put: "keyed es \<Longrightarrow> map_of (map_put k e es) = (map_of es)(k \<mapsto> e)"
  by (simp add: keyed_def map_of_put)

lemmas keyed_simps = keyed_put keyed_erase keyed_insert keyed_map_of_put

lemma addEntry_effect:
  assumes "delta_ok m d" "effect d m (LedgerEntryKey e) = None"
  shows "\<exists>d'. addEntry e d = Inr d' \<and> delta_ok m d' \<and> effect d' m = (effect d m)(LedgerEntryKey e \<mapsto> e) \<and>
    mCurrentHeader d' = mCurrentHeader d"
proof (cases "LedgerEntryKey e \<in> set (mDelete d)")
  case True
  with assms(1) show ?thesis
    by (intro exI [of _ "d\<lparr>mDelete := removeAll (LedgerEntryKey e) (mDelete d), mMod := map_put (LedgerEntryKey e) e (mMod d)\<rparr>"])
       (auto simp: addEntry_def Let_def delta_checkState_def delta_ok_def effect_def fun_eq_iff keyed_simps removeAll_sorted cong: option.case_cong split: option.split)
next
  case False
  with assms(2) have none: "map_of (mNew d) (LedgerEntryKey e) = None" "map_of (mMod d) (LedgerEntryKey e) = None" "m (LedgerEntryKey e) = None"
    by (auto simp: effect_def split: option.splits)
  with False assms(1) show ?thesis
    by (intro exI [of _ "d\<lparr>mNew := map_put (LedgerEntryKey e) e (mNew d)\<rparr>"])
       (auto simp: addEntry_def Let_def delta_checkState_def assertE_def delta_ok_def effect_def fun_eq_iff keyed_simps cong: option.case_cong)
qed

lemma modEntry_effect:
  assumes "delta_ok m d" "effect d m (LedgerEntryKey e) \<noteq> None"
  shows "\<exists>d'. modEntry e d = Inr d' \<and> delta_ok m d' \<and> effect d' m = (effect d m)(LedgerEntryKey e \<mapsto> e) \<and>
    mCurrentHeader d' = mCurrentHeader d"
proof -
  have k: "LedgerEntryKey e \<notin> set (mDelete d)" using assms(2) by (auto simp: effect_def)
  show ?thesis
  proof (cases "map_of (mMod d) (LedgerEntryKey e) = None \<and> map_of (mNew d) (LedgerEntryKey e) \<noteq> None")
    case True
    with assms(1) k show ?thesis
      by (intro exI [of _ "d\<lparr>mNew := map_put (LedgerEntryKey e) e (mNew d)\<rparr>"])
         (auto simp: modEntry_def Let_def delta_checkState_def delta_ok_def effect_def fun_eq_iff keyed_simps cong: option.case_cong)
  next
    case False
    have "m (LedgerEntryKey e) \<noteq> None"
      using False assms k by (auto simp: effect_def delta_ok_def split: option.splits)
    moreover from this have "map_of (mNew d) (LedgerEntryKey e) = None"
      using assms(1) by (auto simp: delta_ok_def)
    ultimately show ?thesis
      using False assms(1) k by (intro exI [of _ "d\<lparr>mMod := map_put (LedgerEntryKey e) e (mMod d)\<rparr>"])
         (auto simp: modEntry_def Let_def delta_checkState_def assertE_def delta_ok_def effect_def fun_eq_iff keyed_simps cong: option.case_cong split: option.split)
  qed
qed

lemma deleteEntry_effect:
  assumes "delta_ok m d" "effect d m k \<noteq> None"
  shows "\<exists>d'. deleteEntry k d = Inr d' \<and> delta_ok m d' \<and> effect d' m = (effect d m)(k := None) \<and>
    mCurrentHeader d' = mCurrentHeader d"
proof -
  have k: "k \<notin> set (mDelete d)" using assms(2) by (auto simp: effect_def)
  show ?thesis
  proof (cases "map_of (mNew d) k = None")
    case True
    then have "m k \<noteq> None" using assms k by (auto simp: effect_def delta_ok_def split: option.splits)
    with True assms(1) k show ?thesis
      by (intro exI [of _ "d\<lparr>mMod := map_erase k (mMod d), mDelete := set_insert k (mDelete d)\<rparr>"])
         (auto simp: deleteEntry_def delta_checkState_def assertE_def delta_ok_def effect_def fun_eq_iff keyed_simps strict_sorted_set_insert cong: option.case_cong)
  next
    case False
    then have m: "m k = None" using assms(1) by (auto simp: delta_ok_def)
    then have "map_of (mMod d) k = None" using assms(1) by (auto simp: delta_ok_def)
    with False m assms(1) k show ?thesis
      by (intro exI [of _ "d\<lparr>mNew := map_erase k (mNew d)\<rparr>"])
         (auto simp: deleteEntry_def delta_checkState_def delta_ok_def effect_def fun_eq_iff keyed_simps cong: option.case_cong)
  qed
qed

lemma recordEntry_effect:
  assumes "delta_ok m d"
  shows "\<exists>d'. recordEntry e d = Inr d' \<and> delta_ok m d' \<and> effect d' m = effect d m \<and> mCurrentHeader d' = mCurrentHeader d"
  using assms by (intro exI [of _ "d\<lparr>mPrevious := map_insert (LedgerEntryKey e) e (mPrevious d)\<rparr>"])
    (simp add: recordEntry_def delta_checkState_def delta_ok_def effect_def fun_eq_iff keyed_simps cong: option.case_cong)

lemma recordFrom_effect:
  assumes "delta_ok m d"
  shows "\<exists>d'. recordFrom other k d = Inr d' \<and> delta_ok m d' \<and> effect d' m = effect d m \<and> mCurrentHeader d' = mCurrentHeader d"
  using recordEntry_effect [OF assms] assms by (cases "map_of (mPrevious other) k") (simp_all add: recordFrom_def)

section \<open>Committing\<close>

lemma foldE_deleteEntry:
  "delta_ok m d \<Longrightarrow> distinct ks \<Longrightarrow> \<forall>k \<in> set ks. effect d m k \<noteq> None \<Longrightarrow>
   \<exists>d'. foldE (\<lambda>k d. bindE (deleteEntry k d) (recordFrom other k)) ks d = Inr d' \<and> delta_ok m d' \<and>
     effect d' m = (\<lambda>k. if k \<in> set ks then None else effect d m k) \<and> mCurrentHeader d' = mCurrentHeader d"
proof (induction ks arbitrary: d)
  case (Cons k ks)
  obtain d1 where d1: "deleteEntry k d = Inr d1" "delta_ok m d1" "effect d1 m = (effect d m)(k := None)"
    "mCurrentHeader d1 = mCurrentHeader d"
    using deleteEntry_effect [OF Cons.prems(1), of k] Cons.prems(3) by auto
  obtain d2 where d2: "recordFrom other k d1 = Inr d2" "delta_ok m d2" "effect d2 m = effect d1 m"
    "mCurrentHeader d2 = mCurrentHeader d1"
    using recordFrom_effect [OF d1(2)] by blast
  obtain d' where "foldE (\<lambda>k d. bindE (deleteEntry k d) (recordFrom other k)) ks d2 = Inr d'" "delta_ok m d'"
    "effect d' m = (\<lambda>k. if k \<in> set ks then None else effect d2 m k)" "mCurrentHeader d' = mCurrentHeader d2"
    using Cons.IH [OF d2(2)] Cons.prems(2,3) d1(3) d2(3) by fastforce
  with d1 d2 show ?case by (intro exI [of _ d']) (auto simp: fun_eq_iff)
qed simp

text \<open>Adding, or modifying and recording, the entries of another delta one after the other.\<close>

lemma foldE_updates:
  assumes step: "\<And>d k e. delta_ok m d \<Longrightarrow> LedgerEntryKey e = k \<Longrightarrow> P (effect d m k) \<Longrightarrow>
      \<exists>d'. f (k, e) d = Inr d' \<and> delta_ok m d' \<and> effect d' m = (effect d m)(k \<mapsto> e) \<and> mCurrentHeader d' = mCurrentHeader d"
  shows "delta_ok m d \<Longrightarrow> distinct (map fst es) \<Longrightarrow> \<forall>(k, e) \<in> set es. LedgerEntryKey e = k \<and> P (effect d m k) \<Longrightarrow>
   \<exists>d'. foldE f es d = Inr d' \<and> delta_ok m d' \<and> effect d' m = effect d m ++ map_of es \<and>
     mCurrentHeader d' = mCurrentHeader d"
proof (induction es arbitrary: d)
  case (Cons ke es)
  obtain k e where ke: "ke = (k, e)" by fastforce
  obtain d1 where d1: "f (k, e) d = Inr d1" "delta_ok m d1" "effect d1 m = (effect d m)(k \<mapsto> e)"
    "mCurrentHeader d1 = mCurrentHeader d"
    using step [OF Cons.prems(1), of e k] Cons.prems(3) ke by auto
  have "\<forall>(k', e') \<in> set es. LedgerEntryKey e' = k' \<and> P (effect d1 m k')"
    using Cons.prems(2,3) d1(3) ke by force
  then obtain d' where d': "foldE f es d1 = Inr d'" "delta_ok m d'" "effect d' m = effect d1 m ++ map_of es"
    "mCurrentHeader d' = mCurrentHeader d1"
    using Cons.IH [OF d1(2)] Cons.prems(2) by auto
  have "(effect d m)(k \<mapsto> e) ++ map_of es = effect d m ++ map_of ((k, e) # es)"
    using Cons.prems(2) ke by (simp add: map_add_upd_left dom_map_of_conv_image_fst)
  with d1 d' ke show ?case by (intro exI [of _ d']) (simp del: fun_upd_apply)
qed simp

lemma keyedD:
  assumes "keyed es"
  shows "distinct (map fst es)" "\<forall>(k, e) \<in> set es. LedgerEntryKey e = k \<and> map_of es k = Some e"
proof -
  show "distinct (map fst es)" using assms by (simp add: keyed_def strict_sorted_distinct)
  then show "\<forall>(k, e) \<in> set es. LedgerEntryKey e = k \<and> map_of es k = Some e" using assms by (auto simp: keyed_def)
qed

lemma mergeEntries_effect:
  assumes outer: "delta_ok m d" and inner: "delta_ok (effect d m) i"
  shows "\<exists>d'. mergeEntries i d = Inr d' \<and> delta_ok m d' \<and> effect d' m = effect i (effect d m) \<and>
    mCurrentHeader d' = mCurrentHeader d"
proof -
  let ?E = "effect d m"
  have open_d: "delta_checkState d = Inr ()" using outer by (simp add: delta_ok_def delta_checkState_def)
  have new: "keyed (mNew i)" and mod: "keyed (mMod i)" and del: "distinct (mDelete i)"
    using inner by (simp_all add: delta_ok_def strict_sorted_distinct)
  have dom: "\<And>k. map_of (mNew i) k \<noteq> None \<Longrightarrow> ?E k = None"
    "\<And>k. map_of (mMod i) k \<noteq> None \<Longrightarrow> ?E k \<noteq> None \<and> k \<notin> set (mDelete i)" "\<And>k. k \<in> set (mDelete i) \<Longrightarrow> ?E k \<noteq> None"
    using inner by (simp_all add: delta_ok_def)
  obtain d1 where d1: "foldE (\<lambda>k d. bindE (deleteEntry k d) (recordFrom i k)) (mDelete i) d = Inr d1" "delta_ok m d1"
    "effect d1 m = (\<lambda>k. if k \<in> set (mDelete i) then None else ?E k)" "mCurrentHeader d1 = mCurrentHeader d"
    using foldE_deleteEntry [OF outer del] dom(3) by blast
  have add: "\<exists>d'. (\<lambda>(_, e). addEntry e) (k, e) d = Inr d' \<and> delta_ok m d' \<and> effect d' m = (effect d m)(k \<mapsto> e) \<and>
      mCurrentHeader d' = mCurrentHeader d"
    if "delta_ok m d" "LedgerEntryKey e = k" "effect d m k = None" for d k e
    using addEntry_effect [OF that(1), of e] that(2,3) by simp
  have "\<forall>(k, e) \<in> set (mNew i). LedgerEntryKey e = k \<and> effect d1 m k = None"
    using keyedD(2) [OF new] dom(1) d1(3) by fastforce
  then obtain d2 where d2: "foldE (\<lambda>(_, e). addEntry e) (mNew i) d1 = Inr d2" "delta_ok m d2"
    "effect d2 m = effect d1 m ++ map_of (mNew i)" "mCurrentHeader d2 = mCurrentHeader d1"
    using foldE_updates [where P = "\<lambda>x. x = None", OF add d1(2) keyedD(1) [OF new]] by blast
  have change: "\<exists>d'. (\<lambda>(k, e) d. bindE (modEntry e d) (recordFrom i k)) (k, e) d = Inr d' \<and> delta_ok m d' \<and>
      effect d' m = (effect d m)(k \<mapsto> e) \<and> mCurrentHeader d' = mCurrentHeader d"
    if "delta_ok m d" "LedgerEntryKey e = k" "effect d m k \<noteq> None" for d k e
    using modEntry_effect [OF that(1), of e] that(2,3) recordFrom_effect [of m _ i k] by fastforce
  have "effect d2 m k \<noteq> None" if "map_of (mMod i) k \<noteq> None" for k
    unfolding d2(3) d1(3) using dom(2) [OF that] by (auto simp: map_add_def split: option.split)
  then have "\<forall>(k, e) \<in> set (mMod i). LedgerEntryKey e = k \<and> effect d2 m k \<noteq> None"
    using keyedD(2) [OF mod] by fastforce
  then obtain d3 where d3: "foldE (\<lambda>(k, e) d. bindE (modEntry e d) (recordFrom i k)) (mMod i) d2 = Inr d3" "delta_ok m d3"
    "effect d3 m = effect d2 m ++ map_of (mMod i)" "mCurrentHeader d3 = mCurrentHeader d2"
    using foldE_updates [where P = "\<lambda>x. x \<noteq> None", OF change d2(2) keyedD(1) [OF mod]] by blast
  have "effect d3 m k = effect i ?E k" for k
    unfolding d3(3) d2(3) d1(3) effect_def [of i] map_add_def using dom [of k] by (auto split: option.split)
  then have "effect d3 m = effect i ?E" by (rule ext)
  moreover have "mergeEntries i d = Inr d3" by (simp add: mergeEntries_def open_d d1(1) d2(1) d3(1))
  ultimately show ?thesis using d1(4) d2(4) d3(2,4) by (intro exI [of _ d3]) simp
qed

lemma commit_outer_effect:
  assumes "delta_ok m d" "delta_ok (effect d m) i" "mPreviousHeaderValue i = mCurrentHeader d"
  shows "\<exists>d'. commit_outer d i = Inr (d', i\<lparr>mOpen := False\<rparr>) \<and> delta_ok m d' \<and> effect d' m = effect i (effect d m) \<and>
    mCurrentHeader d' = mCurrentHeader i"
proof -
  obtain d1 where "mergeEntries i d = Inr d1" "delta_ok m d1" "effect d1 m = effect i (effect d m)"
    using mergeEntries_effect [OF assms(1,2)] by blast
  moreover have "effect (d1\<lparr>mCurrentHeader := h\<rparr>) m = effect d1 m" "delta_ok m (d1\<lparr>mCurrentHeader := h\<rparr>) = delta_ok m d1" for h
    by (simp_all add: effect_def delta_ok_def fun_eq_iff cong: option.case_cong)
  ultimately show ?thesis
    using assms(2,3) by (auto simp: commit_outer_def delta_checkState_def delta_ok_def)
qed

section \<open>What a delta reports\<close>

lemma delta_ok_disjoint: "delta_ok m d \<Longrightarrow> map_of (mNew d) k = None \<or> map_of (mMod d) k = None"
  unfolding delta_ok_def by metis

lemma delta_batch:
  assumes "delta_ok m d"
  shows "batch_ok (getLiveEntries d) (getDeadEntries d) \<and>
    apply_batch (getLiveEntries d) (getDeadEntries d) m = effect d m"
proof -
  have new: "keyed (mNew d)" and mod: "keyed (mMod d)" and del: "distinct (mDelete d)"
    using assms by (simp_all add: delta_ok_def strict_sorted_distinct)
  have keys: "map LedgerEntryKey (map snd es) = map fst es" "map (\<lambda>e. (LedgerEntryKey e, e)) (map snd es) = es"
    if "keyed es" for es
    using keyedD(2) [OF that] by (auto intro!: map_idI)
  have disj: "set (map fst (mNew d)) \<inter> set (map fst (mMod d)) = {}"
    using assms unfolding delta_ok_def keys_map_of [symmetric] by blast
  have "batch_ok (getLiveEntries d) (getDeadEntries d)"
    using keyedD(1) [OF new] keyedD(1) [OF mod] disj del
    unfolding batch_ok_def getLiveEntries_def getDeadEntries_def map_append keys(1) [OF new] keys(1) [OF mod] by simp
  moreover have "apply_batch (getLiveEntries d) (getDeadEntries d) m k = effect d m k" for k
  proof -
    show ?thesis
      using delta_ok_disjoint [OF assms, of k]
      unfolding apply_batch_def getLiveEntries_def getDeadEntries_def map_append keys(2) [OF new] keys(2) [OF mod] effect_def
      by (auto simp: map_add_def split: option.split)
  qed
  ultimately show ?thesis by blast
qed

text \<open>Replaying the changes.\<close>

fun replay :: "LedgerEntryChange list \<Rightarrow> ledger_map \<Rightarrow> ledger_map" where
  "replay [] m = m"
| "replay (ENTRY_CREATED e # cs) m = replay cs (m(LedgerEntryKey e \<mapsto> e))"
| "replay (ENTRY_UPDATED e # cs) m = replay cs (m(LedgerEntryKey e \<mapsto> e))"
| "replay (ENTRY_REMOVED k # cs) m = replay cs (m(k := None))"
| "replay (ENTRY_STATE e # cs) m = replay cs m"

lemma replay_append: "replay (as @ bs) m = replay bs (replay as m)"
  by (induction as m rule: replay.induct) (simp_all del: fun_upd_apply)

lemma replay_meta: "replay (addCurrentMeta d k) m = m"
  by (simp add: addCurrentMeta_def split: option.split)

lemma replay_created:
  "distinct (map fst es) \<Longrightarrow> \<forall>(k, e) \<in> set es. LedgerEntryKey e = k \<Longrightarrow>
   replay (map (\<lambda>(_, e). ENTRY_CREATED e) es) m = m ++ map_of es"
  by (induction es arbitrary: m) (auto simp: map_add_upd_left dom_map_of_conv_image_fst)

lemma replay_updated:
  "distinct (map fst es) \<Longrightarrow> \<forall>(k, e) \<in> set es. LedgerEntryKey e = k \<Longrightarrow>
   replay (concat (map (\<lambda>(k, e). addCurrentMeta d k @ [ENTRY_UPDATED e]) es)) m = m ++ map_of es"
  by (induction es arbitrary: m) (auto simp: replay_append replay_meta map_add_upd_left dom_map_of_conv_image_fst)

lemma replay_removed:
  "replay (concat (map (\<lambda>k. addCurrentMeta d k @ [ENTRY_REMOVED k]) ks)) m = (\<lambda>k. if k \<in> set ks then None else m k)"
  by (induction ks arbitrary: m) (auto simp: replay_append replay_meta fun_eq_iff)

lemma replay_getChanges:
  assumes "delta_ok m d"
  shows "replay (getChanges d) m = effect d m"
proof -
  have new: "keyed (mNew d)" and mod: "keyed (mMod d)" using assms by (simp_all add: delta_ok_def)
  have "\<forall>(k, e) \<in> set (mNew d). LedgerEntryKey e = k" "\<forall>(k, e) \<in> set (mMod d). LedgerEntryKey e = k"
    using keyedD(2) [OF new] keyedD(2) [OF mod] by auto
  note r = replay_created [OF keyedD(1) [OF new] this(1)] replay_updated [OF keyedD(1) [OF mod] this(2)]
  show ?thesis
  proof (rule ext)
    fix k
    show "replay (getChanges d) m k = effect d m k"
      using delta_ok_disjoint [OF assms, of k]
      unfolding getChanges_def replay_append r replay_removed
      by (auto simp: effect_def map_add_def split: option.split)
  qed
qed

section \<open>Sequences of changes\<close>

datatype entry_op = Add LedgerEntry | Change LedgerEntry | Remove LedgerKey | Record LedgerEntry

text \<open>What an operation does to a map of entries, and where it may be used.\<close>

fun op_effect :: "entry_op \<Rightarrow> ledger_map \<Rightarrow> ledger_map" where
  "op_effect (Add e) m = m(LedgerEntryKey e \<mapsto> e)"
| "op_effect (Change e) m = m(LedgerEntryKey e \<mapsto> e)"
| "op_effect (Remove k) m = m(k := None)"
| "op_effect (Record e) m = m"

fun op_legal :: "entry_op \<Rightarrow> ledger_map \<Rightarrow> bool" where
  "op_legal (Add e) m = (m (LedgerEntryKey e) = None)"
| "op_legal (Change e) m = (m (LedgerEntryKey e) \<noteq> None)"
| "op_legal (Remove k) m = (m k \<noteq> None)"
| "op_legal (Record e) m = True"

fun ops_legal :: "entry_op list \<Rightarrow> ledger_map \<Rightarrow> bool" where
  "ops_legal [] m = True"
| "ops_legal (x # xs) m = (op_legal x m \<and> ops_legal xs (op_effect x m))"

text \<open>The contract of a log of changes, and what it gives for a sequence of them.\<close>

locale change_log =
  fixes ok :: "'d \<Rightarrow> bool"
    and current :: "'d \<Rightarrow> ledger_map"
    and step :: "entry_op \<Rightarrow> 'd \<Rightarrow> scp_error + 'd"
  assumes step_legal: "ok d \<Longrightarrow> op_legal x (current d) \<Longrightarrow>
      \<exists>d'. step x d = Inr d' \<and> ok d' \<and> current d' = op_effect x (current d)"
begin

lemma steps_legal: "ok d \<Longrightarrow> ops_legal xs (current d) \<Longrightarrow>
    \<exists>d'. foldE step xs d = Inr d' \<and> ok d' \<and> current d' = fold op_effect xs (current d)"
proof (induction xs arbitrary: d)
  case (Cons x xs)
  then obtain d1 where "step x d = Inr d1" "ok d1" "current d1 = op_effect x (current d)"
    using step_legal [of d x] by auto
  with Cons.IH [of d1] Cons.prems(2) show ?case by simp
qed simp

end

fun delta_step :: "entry_op \<Rightarrow> LedgerDelta \<Rightarrow> scp_error + LedgerDelta" where
  "delta_step (Add e) d = addEntry e d"
| "delta_step (Change e) d = modEntry e d"
| "delta_step (Remove k) d = deleteEntry k d"
| "delta_step (Record e) d = recordEntry e d"

interpretation ld: change_log "delta_ok m" "\<lambda>d. effect d m" delta_step for m
proof unfold_locales
  fix d x
  assume d: "delta_ok m d" and x: "op_legal x (effect d m)"
  show "\<exists>d'. delta_step x d = Inr d' \<and> delta_ok m d' \<and> effect d' m = op_effect x (effect d m)"
  proof (cases x)
    case (Add e)
    with addEntry_effect [OF d, of e] x show ?thesis by auto
  next
    case (Change e)
    with modEntry_effect [OF d, of e] x show ?thesis by auto
  next
    case (Remove k)
    with deleteEntry_effect [OF d, of k] x show ?thesis by auto
  next
    case (Record e)
    with recordEntry_effect [OF d, of e] show ?thesis by auto
  qed
qed

lemma delta_ok_fresh: "delta_ok m (LedgerDelta_on h u) \<and> effect (LedgerDelta_on h u) m = m"
  by (simp add: LedgerDelta_on_def delta_ok_def effect_def keyed_def fun_eq_iff)

lemma delta_step_header: "delta_step x d = Inr d' \<Longrightarrow> mPreviousHeaderValue d' = mPreviousHeaderValue d \<and> mCurrentHeader d' = mCurrentHeader d"
  by (cases x) (auto simp: addEntry_def modEntry_def deleteEntry_def recordEntry_def Let_def bindE_Inr_iff split: if_splits)

lemma delta_steps_header: "foldE delta_step xs d = Inr d' \<Longrightarrow> mPreviousHeaderValue d' = mPreviousHeaderValue d \<and> mCurrentHeader d' = mCurrentHeader d"
  by (induction xs arbitrary: d) (auto simp: bindE_Inr_iff dest!: delta_step_header)

end
