(* ===== verification/Bucket_Properties.thy ===== *)
theory Bucket_Properties
  imports BucketList_Check
begin

text \<open>
  What the bucket list guarantees, with concrete runs: a ledger that creates an account and one that
  removes it again.
\<close>

definition alice :: LedgerEntry where
  "alice = \<lparr>lastModifiedLedgerSeq = 1, edata = AccountData
     \<lparr>a_accountID = [1], a_balance = 100, a_seqNum = 1, a_numSubEntries = 0, a_inflationDest = None, a_flags = 0,
      a_homeDomain = [], a_accountType = 0, a_thresholds = [], a_signers = []\<rparr>\<rparr>"

lemma alice_key [simp]: "LedgerEntryKey alice = AccountKey [1]"
  by (simp add: alice_def LedgerEntryKey_def)

lemma batch_ok_examples [simp]: "batch_ok [alice] []" "batch_ok [] [AccountKey [1]]" "batch_ok [] []"
  by (simp_all add: batch_ok_def)

text \<open>
  C11. The bucket list implements a map from keys to ledger entries. After any run (batches of consecutive ledgers,
  merges finishing at any time, consistency checks, restarts) the list stores exactly the map the batches describe, and
  adding the next batch never fails and updates that map by the batch, whatever spills, background merges, shadowing
  and dropping of dead entries the ledger number triggers. Of the restarts those are meant at which the uninitialised flag
  of the restarted merges is true or no merge is in progress but one into the last level; a restart that finds
  it false otherwise can lose the map (\<open>restart_revives_entry\<close>).
\<close>

theorem bucketlist_refines_map:
  assumes "bucket_run H k ls m" "Suc k < 2 ^ 32" "batch_ok live dead"
  shows "stored ls = m \<and>
    (\<exists>ls'. addBatch H (of_nat (Suc k)) live dead ls = Inr ls' \<and> stored ls' = apply_batch live dead m)"
proof -
  have ok: "bucketlist_ok H k ls" "stored ls = m" using bucket_run_ok [OF assms(1)] by simp_all
  from addBatch_refines [OF ok(1) unat_ledger [OF assms(2)] assms(3)] ok(2) show ?thesis by blast
qed

theorem bucketlist_refines_map_witness:
  "\<exists>ls1 ls2. addBatch (\<lambda>_. []) 1 [alice] [] BucketList_init = Inr ls1 \<and> stored ls1 (AccountKey [1]) = Some alice \<and>
     addBatch (\<lambda>_. []) 2 [] [AccountKey [1]] ls1 = Inr ls2 \<and> stored ls2 = (\<lambda>_. None)"
proof -
  let ?H = "\<lambda>_ :: Bucket. [] :: Hash"
  obtain ls1 where 1: "addBatch ?H 1 [alice] [] BucketList_init = Inr ls1"
    "stored ls1 = apply_batch [alice] [] (\<lambda>_. None)"
    using bucketlist_refines_map [OF run_init [of ?H], of "[alice]" "[]"] by auto
  have "bucket_run ?H (Suc 0) ls1 (apply_batch [alice] [] (\<lambda>_. None))"
    using run_batch [OF run_init [of ?H], of "[alice]" "[]" ls1] 1(1) by simp
  from bucketlist_refines_map [OF this, of "[]" "[AccountKey [1]]"] obtain ls2 where
    "addBatch ?H 2 [] [AccountKey [1]] ls1 = Inr ls2"
    "stored ls2 = apply_batch [] [AccountKey [1]] (apply_batch [alice] [] (\<lambda>_. None))" by auto
  moreover have "apply_batch [] [AccountKey [1]] (apply_batch [alice] [] (\<lambda>_. None)) = (\<lambda>_. None)"
    by (auto simp: apply_batch_def)
  moreover have "stored ls1 (AccountKey [1]) = Some alice" unfolding 1(2) by (simp add: apply_batch_def)
  ultimately show ?thesis using 1(1) by auto
qed

text \<open>
  The consistency check of the database against the buckets succeeds exactly when the database holds
  the map that the batches describe, no entry more and none less.
\<close>

theorem checkDB_exact:
  assumes "bucket_run H k ls m" "db_ok db cnt"
  shows "(\<exists>ls'. checkDBAgainstBuckets H db cnt ls = Inr ls') \<longleftrightarrow> db = m"
  using bucket_run_ok [OF assms(1)] checkDB_iff(1) [OF _ assms(2)] by blast

theorem checkDB_exact_witness:
  "\<exists>ls. addBatch (\<lambda>_. []) 1 [alice] [] BucketList_init = Inr ls \<and>
     (\<exists>ls'. checkDBAgainstBuckets (\<lambda>_. []) [AccountKey [1] \<mapsto> alice] (\<lambda>t. if t = 0 then 1 else 0) ls = Inr ls') \<and>
     (\<nexists>ls'. checkDBAgainstBuckets (\<lambda>_. []) (\<lambda>_. None) (\<lambda>_. 0) ls = Inr ls')"
proof -
  let ?H = "\<lambda>_ :: Bucket. [] :: Hash"
  obtain ls where ls: "addBatch ?H 1 [alice] [] BucketList_init = Inr ls"
    using addBatch_refines [of ?H 0 BucketList_init 1 "[alice]" "[]"] bucketlist_ok_init by auto
  have m: "apply_batch [alice] [] (\<lambda>_. None) = [AccountKey [1] \<mapsto> alice]" by (auto simp: apply_batch_def)
  have run: "bucket_run ?H (Suc 0) ls [AccountKey [1] \<mapsto> alice]"
    using run_batch [OF run_init [of ?H], of "[alice]" "[]" ls] ls by (simp add: m)
  have "{k. k = AccountKey [1] \<and> LedgerEntryType_of k = t} = (if t = 0 then {AccountKey [1]} else {})" for t
    by auto
  then have db: "db_ok [AccountKey [1] \<mapsto> alice] (\<lambda>t. if t = 0 then 1 else 0)"
    by (auto simp: db_ok_def split: if_splits)
  have empty: "db_ok (\<lambda>_. None) (\<lambda>_. 0)" by (simp add: db_ok_def)
  have "(\<lambda>_. None) \<noteq> [AccountKey [1] \<mapsto> alice]" by (metis fun_upd_same option.distinct(1))
  with ls checkDB_exact [OF run db] checkDB_exact [OF run empty] show ?thesis by blast
qed

text \<open>
  C12. Merging sorted buckets never fails and gives a sorted bucket, in which a key is found exactly when
  no shadow holds it: with its entry in the newer bucket if there is one, else with that of the older
  one, dead entries being left out when they need not be kept.
\<close>

theorem merge_lookup:
  assumes "bucket_ok old" "bucket_ok new" "\<forall>b \<in> set shadows. bucket_ok b"
  shows "\<exists>b. Bucket_merge old new shadows keep = Inr b \<and> bucket_ok b \<and>
    (\<forall>k. entry_of b k =
      (if \<exists>sh \<in> set shadows. entry_of sh k \<noteq> None then None
       else case (entry_of new k, entry_of old k) of
              (Some e, _) \<Rightarrow> if keep \<or> \<not> isDead e then Some e else None
            | (None, Some e) \<Rightarrow> if keep \<or> \<not> isDead e then Some e else None
            | (None, None) \<Rightarrow> None))"
proof -
  have "k \<in> hidden_keys shadows \<longleftrightarrow> (\<exists>sh \<in> set shadows. entry_of sh k \<noteq> None)" for k
    by (induction shadows) (auto simp: entry_of_None_iff)
  then have "entry_of (merged old new shadows keep) k =
      (if \<exists>sh \<in> set shadows. entry_of sh k \<noteq> None then None
       else case (entry_of new k, entry_of old k) of
              (Some e, _) \<Rightarrow> if keep \<or> \<not> isDead e then Some e else None
            | (None, Some e) \<Rightarrow> if keep \<or> \<not> isDead e then Some e else None
            | (None, None) \<Rightarrow> None)" for k
    unfolding entry_of_merged [OF assms(1,2)] by (simp add: newest_def drop_dead_def split: option.split)
  then show ?thesis
    using Bucket_merge_merged [OF assms] bucket_ok_merged [OF assms(1,2)] by blast
qed

theorem merge_lookup_witness:
  "\<exists>b. Bucket_merge [LIVEENTRY alice] [DEADENTRY (AccountKey [1]), DEADENTRY (AccountKey [2])] [[DEADENTRY (AccountKey [2])]] True = Inr b \<and>
     entry_of b (AccountKey [1]) = Some (DEADENTRY (AccountKey [1])) \<and> entry_of b (AccountKey [2]) = None"
proof -
  have "bucket_ok [DEADENTRY (AccountKey [1]), DEADENTRY (AccountKey [2])]"
    by (simp add: less_LedgerKey_def LedgerEntryIdCmp_def)
  from merge_lookup [OF _ this, of "[LIVEENTRY alice]" "[[DEADENTRY (AccountKey [2])]]" True] show ?thesis by auto
qed

text \<open>
  C38. The spill schedule, on 32-bit ledger numbers including those near wrap-around: level \<open>i\<close> spills at
  the multiples of \<open>2 * 4 ^ i\<close>, and the last level never.
\<close>

theorem spill_schedule:
  assumes "i < kNumLevels"
  shows "levelShouldSpill ledger i = Inr (i \<noteq> kNumLevels - 1 \<and> 2 * 4 ^ i dvd unat ledger)"
  using levelShouldSpill_eq [OF assms] by (simp add: spills_def half_def)

theorem spill_schedule_witness:
  "levelShouldSpill 2 0 = Inr True \<and> levelShouldSpill 2 1 = Inr False \<and> levelShouldSpill 8 1 = Inr True \<and>
   levelShouldSpill 0 10 = Inr False"
  using spill_schedule [of 0 2] spill_schedule [of 1 2] spill_schedule [of 1 8] spill_schedule [of 10 0]
  by (simp add: kNumLevels_def)

text \<open>
  C37. Saving a bucket list and assuming the saved state again, with the files of all referenced buckets
  at hand, always succeeds and gives a list with the same hash that stores the same map.
\<close>

theorem saved_state_roundtrip:
  assumes "bucket_run H k ls m" "stores H store (referenced ls)"
  shows "\<exists>has ls'. saveState H ls = Inr has \<and> assumeState H store unset has BucketList_init = Inr ls' \<and>
    stored ls' = m \<and> BucketList_getHash sha H ls' = BucketList_getHash sha H ls"
proof -
  have ok: "bucketlist_ok H k ls" "stored ls = m" using bucket_run_ok [OF assms(1)] by simp_all
  have same: "lookup ls' = lookup ls \<and> map (BucketLevel_getHash sha H) ls' = map (BucketLevel_getHash sha H) ls"
    if "list_all2 (\<lambda>l l'. \<exists>fb. l' = setNext fb l \<and> restarted H unset (mNextCurr l) fb) ls ls'" for ls'
    using that by (induction rule: list_all2_induct) (auto simp: setNext_def BucketLevel_getHash_def)
  obtain has ls' where "saveState H ls = Inr has" "assumeState H store unset has BucketList_init = Inr ls'"
    "list_all2 (\<lambda>l l'. \<exists>fb. l' = setNext fb l \<and> restarted H unset (mNextCurr l) fb) ls ls'"
    using restart_result [OF ok(1) assms(2), of unset] by blast
  with same [OF this(3)] ok(2) show ?thesis
    by (intro exI [of _ has] exI [of _ ls']) (auto simp: stored_def BucketList_getHash_def)
qed

definition sample_hash :: "Bucket \<Rightarrow> Hash" where
  "sample_hash b = (if b = [] then [] else [1])"

definition sample_store :: "Hash \<Rightarrow> Bucket option" where
  "sample_store h = Some (if h = [] then [] else [LIVEENTRY alice])"

lemma sample_batch:
  "case addBatch sample_hash 1 [alice] [] BucketList_init of
     Inl _ \<Rightarrow> False | Inr ls \<Rightarrow> list_all (\<lambda>b. b = [] \<or> b = [LIVEENTRY alice]) (referenced ls)"
  by code_simp

theorem saved_state_roundtrip_witness:
  "\<exists>ls has ls'. addBatch sample_hash 1 [alice] [] BucketList_init = Inr ls \<and> saveState sample_hash ls = Inr has \<and>
     assumeState sample_hash sample_store True has BucketList_init = Inr ls' \<and> stored ls' (AccountKey [1]) = Some alice"
proof -
  obtain ls where ls: "addBatch sample_hash 1 [alice] [] BucketList_init = Inr ls"
    "\<forall>b \<in> set (referenced ls). b = [] \<or> b = [LIVEENTRY alice]"
    using sample_batch by (auto simp: list_all_iff split: sum.splits)
  have "bucket_run sample_hash (Suc 0) ls (apply_batch [alice] [] (\<lambda>_. None))"
    using run_batch [OF run_init [of sample_hash], of "[alice]" "[]" ls] ls(1) by simp
  moreover have "stores sample_hash sample_store (referenced ls)"
    using ls(2) by (auto simp: stores_def sample_hash_def sample_store_def)
  ultimately show ?thesis
    using ls(1) saved_state_roundtrip [of sample_hash "Suc 0" ls _ sample_store True] by (fastforce simp: apply_batch_def)
qed

text \<open>
  A merge that is saved while it runs and restarted from the saved hashes comes to the result of
  merging its inputs with the flag \<open>unset\<close> that the loaded object happens to have, whatever \<open>keep\<close> was
  asked for: the saved form does not hold the flag.
\<close>

theorem restarted_merge_result:
  assumes "FutureBucket_inputs H c s sh keep = Inr fb" "stores H store (c # s # sh)"
    and "bucket_ok c" "bucket_ok s" "\<forall>b \<in> set sh. bucket_ok b"
  shows "\<exists>sv fb1 fb2 fb3 M. save H fb = Inr sv \<and> load H sv (FutureBucket_default unset) = Inr fb1 \<and>
    makeLive H store fb1 = Inr fb2 \<and> resolve H fb2 = Inr (M, fb3) \<and> Bucket_merge c s sh unset = Inr M"
proof -
  have run: "running H fb c s sh keep" using FutureBucket_inputs_running [OF assms(3-5), of H keep] assms(1) by auto
  have run': "running H (running_fb H c s sh unset False) c s sh unset" using assms(3-5) by (auto simp: running_def)
  from restart_running [OF run assms(2), of unset] resolve_running [OF run'] Bucket_merge_merged [OF assms(3-5)]
  show ?thesis by (auto simp: bindE_Inr_iff)
qed

theorem restarted_merge_result_witness:
  "\<exists>fb sv fb1 fb2 fb3. FutureBucket_inputs (map (\<lambda>_. 1)) [] [DEADENTRY (AccountKey [1])] [] True = Inr fb \<and>
     (\<exists>fb4. resolve (map (\<lambda>_. 1)) fb = Inr ([DEADENTRY (AccountKey [1])], fb4)) \<and>
     save (map (\<lambda>_. 1)) fb = Inr sv \<and> load (map (\<lambda>_. 1)) sv (FutureBucket_default False) = Inr fb1 \<and>
     makeLive (map (\<lambda>_. 1)) (\<lambda>h. Some (map (\<lambda>_. DEADENTRY (AccountKey [1])) h)) fb1 = Inr fb2 \<and>
     resolve (map (\<lambda>_. 1)) fb2 = Inr ([], fb3)"
proof -
  let ?H = "map (\<lambda>_. 1) :: Bucket \<Rightarrow> Hash" and ?D = "[DEADENTRY (AccountKey [1])]"
  obtain fb where fb: "FutureBucket_inputs ?H [] ?D [] True = Inr fb" "running ?H fb [] ?D [] True"
    using FutureBucket_inputs_running [of "[]" ?D "[]" ?H True] by auto
  have "Bucket_merge [] ?D [] True = Inr ?D" "Bucket_merge [] ?D [] False = Inr []" by code_simp+
  moreover from this have "merged [] ?D [] True = ?D" using Bucket_merge_merged [of "[]" ?D "[]" True] by simp
  then have "resolve ?H fb = Inr (?D, output_fb ?H ?D True)" using resolve_running [OF fb(2)] by simp
  ultimately show ?thesis
    using fb(1) restarted_merge_result [OF fb(1), of "\<lambda>h. Some (map (\<lambda>_. DEADENTRY (AccountKey [1])) h)" False]
    by (auto simp: stores_def)
qed

section \<open>A restart that loses the map\<close>

fun add_batches :: "(Bucket \<Rightarrow> Hash) \<Rightarrow> nat \<Rightarrow> (LedgerEntry list \<times> LedgerKey list) list \<Rightarrow> BucketList \<Rightarrow> scp_error + BucketList" where
  "add_batches H k [] ls = Inr ls"
| "add_batches H k ((live, dead) # bs) ls = bindE (addBatch H (of_nat (Suc k)) live dead ls) (add_batches H (Suc k) bs)"

lemma add_batches_run:
  "bucket_run H k ls m \<Longrightarrow> k + length bs < 2 ^ 32 \<Longrightarrow> list_all (\<lambda>(live, dead). batch_ok live dead) bs \<Longrightarrow> add_batches H k bs ls = Inr ls' \<Longrightarrow>
   \<exists>m'. bucket_run H (k + length bs) ls' m'"
proof (induction H k bs ls arbitrary: m rule: add_batches.induct)
  case (2 H k live dead bs ls)
  then obtain ls1 where "addBatch H (of_nat (Suc k)) live dead ls = Inr ls1" "add_batches H (Suc k) bs ls1 = Inr ls'"
    by (auto simp: bindE_Inr_iff)
  with 2 run_batch [OF "2.prems"(1)] show ?case by fastforce
qed auto

lemma map_sum_result: "map_sum id f m = Inr y \<Longrightarrow> \<exists>x. m = Inr x \<and> f x = y"
  by (cases m) simp_all

definition no_changes :: "LedgerEntry list \<times> LedgerKey list" where "no_changes = ([], [])"

definition marker_hash :: "Bucket \<Rightarrow> Hash" where
  "marker_hash b = (if b = [] then [] else if b = [LIVEENTRY alice] then [1] else [2])"

definition deletion :: "scp_error + BucketList" where
  "deletion = add_batches marker_hash 0 (([alice], []) # replicate 7 no_changes @ [([], [AccountKey [1]]), no_changes]) BucketList_init"

definition marked_file :: "Hash \<Rightarrow> Bucket option" where
  "marked_file h = Some (if h = [] then [] else if h = [1] then [LIVEENTRY alice] else [DEADENTRY (AccountKey [1])])"

text \<open>
  A restart can bring a deleted entry back. An account is created in ledger 1 and deleted in ledger 9, so
  that after ledger 10 the list does not store it. The node restarts from its saved state with all bucket files at hand
  and finds the flag \<^verbatim>\<open>mKeepDeadEntries\<close> of the merge in progress false. Two ledgers without changes later the
  account is there again: the restarted merge has dropped its deletion on a level above the one that still holds it.
\<close>

lemma restart_revives_entry:
  "\<exists>ls m has ls1 ls2. bucket_run marker_hash 10 ls m \<and> m (AccountKey [1]) = None \<and> stores marker_hash marked_file (referenced ls) \<and>
     saveState marker_hash ls = Inr has \<and> assumeState marker_hash marked_file False has BucketList_init = Inr ls1 \<and>
     add_batches marker_hash 10 [no_changes, no_changes] ls1 = Inr ls2 \<and> stored ls2 (AccountKey [1]) = Some alice"
proof -
  let ?bs = "([alice], []) # replicate 7 no_changes @ [([], [AccountKey [1]]), no_changes]"
  let ?restart = "\<lambda>ls. bindE (saveState marker_hash ls) (\<lambda>has. assumeState marker_hash marked_file False has BucketList_init)"
  have "map_sum id (\<lambda>ls. (stored ls (AccountKey [1]), list_all (\<lambda>b. marked_file (marker_hash b) = Some b) (referenced ls))) deletion = Inr (None, True)"
    by code_simp
  from map_sum_result [OF this] obtain ls where ls: "deletion = Inr ls" "stored ls (AccountKey [1]) = None"
    "list_all (\<lambda>b. marked_file (marker_hash b) = Some b) (referenced ls)" by blast
  have "map_sum id (\<lambda>ls. stored ls (AccountKey [1])) (bindE (bindE deletion ?restart) (add_batches marker_hash 10 [no_changes, no_changes])) = Inr (Some alice)"
    by code_simp
  from map_sum_result [OF this] obtain ls2 where ls2: "bindE (?restart ls) (add_batches marker_hash 10 [no_changes, no_changes]) = Inr ls2"
    "stored ls2 (AccountKey [1]) = Some alice" unfolding ls(1) bindE_simps by blast
  obtain ls1 where "?restart ls = Inr ls1" "add_batches marker_hash 10 [no_changes, no_changes] ls1 = Inr ls2"
    using ls2(1) unfolding bindE_Inr_iff [of "?restart ls"] by blast
  moreover obtain has where "saveState marker_hash ls = Inr has" "assumeState marker_hash marked_file False has BucketList_init = Inr ls1"
    using calculation(1) unfolding bindE_Inr_iff by blast
  moreover have "stores marker_hash marked_file (referenced ls)" using ls(3) unfolding stores_def list_all_iff .
  moreover obtain m where m: "bucket_run marker_hash 10 ls m"
  proof -
    have "length ?bs = 10" "list_all (\<lambda>(live, dead). batch_ok live dead) ?bs" by (simp_all add: no_changes_def list_all_iff)
    with add_batches_run [OF run_init [of marker_hash], of ?bs ls] ls(1) that show thesis unfolding deletion_def by auto
  qed
  moreover have "m (AccountKey [1]) = None" using bucket_run_ok [OF m] ls(2) by blast
  ultimately show ?thesis using ls2(2) by blast
qed

end
