(* ===== verification/Ledger_Properties.thy ===== *)
theory Ledger_Properties
  imports LedgerDelta_Refinement Bucket_Properties
begin

text \<open>
  What the changes of a ledger guarantee: nesting, what is reported, and what reaches the bucket list.
\<close>

definition genesis :: LedgerHeader where
  "genesis = \<lparr>lh_ledgerVersion = 1, lh_previousLedgerHash = [],
     lh_scpValue = \<lparr>sv_txSetHash = [], sv_closeTime = 0, sv_upgrades = []\<rparr>, lh_txSetResultHash = [],
     lh_bucketListHash = [], lh_ledgerSeq = 1, lh_totalCoins = 0, lh_feePool = 0, lh_inflationSeq = 0, lh_idPool = 0,
     lh_baseFee = 100, lh_baseReserve = 1000, lh_maxTxSetSize = 100, lh_skipList = []\<rparr>"

text \<open>
  C21. A nested delta works on what the outer delta makes of the ledger: a sequence of changes that adds
  entries only where there is none, and changes or removes them only where there is one, never fails;
  committing it never fails either, leaves the outer delta with the combined effect and closes the inner
  one for good.
\<close>

theorem nested_delta_commit:
  assumes "delta_ok m outer" "ops_legal xs (effect outer m)"
  shows "\<exists>inner outer' inner'. foldE delta_step xs (LedgerDelta_nested outer) = Inr inner \<and>
    commit_outer outer inner = Inr (outer', inner') \<and> delta_ok m outer' \<and>
    effect outer' m = fold op_effect xs (effect outer m) \<and> (\<forall>x. \<exists>e. delta_step x inner' = Inl e)"
proof -
  let ?n = "LedgerDelta_nested outer"
  have "delta_ok (effect outer m) ?n" "effect ?n (effect outer m) = effect outer m"
    using delta_ok_fresh by (simp_all add: LedgerDelta_nested_def)
  then obtain inner where inner: "foldE delta_step xs ?n = Inr inner" "delta_ok (effect outer m) inner"
    "effect inner (effect outer m) = fold op_effect xs (effect outer m)"
    using ld.steps_legal [of "effect outer m" ?n xs] assms(2) by auto
  have "mPreviousHeaderValue inner = mCurrentHeader outer"
    using delta_steps_header [OF inner(1)] by (simp add: LedgerDelta_nested_def LedgerDelta_on_def)
  then obtain outer' where "commit_outer outer inner = Inr (outer', inner\<lparr>mOpen := False\<rparr>)" "delta_ok m outer'"
    "effect outer' m = effect inner (effect outer m)"
    using commit_outer_effect [OF assms(1) inner(2)] by blast
  moreover have "\<exists>e. delta_step x (inner\<lparr>mOpen := False\<rparr>) = Inl e" for x
    by (cases x) (simp_all add: addEntry_def modEntry_def deleteEntry_def recordEntry_def delta_checkState_def)
  ultimately show ?thesis using inner(1,3) by metis
qed

theorem nested_delta_commit_witness:
  "\<exists>inner outer' inner'. foldE delta_step [Add alice, Change alice, Remove (AccountKey [1]), Add alice]
      (LedgerDelta_nested (LedgerDelta_on genesis True)) = Inr inner \<and>
    commit_outer (LedgerDelta_on genesis True) inner = Inr (outer', inner') \<and>
    effect outer' (\<lambda>_. None) = [AccountKey [1] \<mapsto> alice]"
proof -
  have "ops_legal [Add alice, Change alice, Remove (AccountKey [1]), Add alice] (effect (LedgerDelta_on genesis True) (\<lambda>_. None))"
    using delta_ok_fresh by simp
  from nested_delta_commit [OF _ this] delta_ok_fresh show ?thesis by fastforce
qed

text \<open>
  C13. Closing a ledger: the delta's live and dead entries, added to the bucket list as the batch of the
  next ledger, always go through, and the bucket list then stores exactly the ledger with the delta's
  changes applied. The changes reported in the meta data, replayed on the old ledger, give the same.
\<close>

theorem closed_ledger_in_buckets:
  assumes "bucket_run H k ls m" "Suc k < 2 ^ 32" "ops_legal xs m"
  shows "\<exists>d ls'. foldE delta_step xs (LedgerDelta_on header update) = Inr d \<and>
    addBatch H (of_nat (Suc k)) (getLiveEntries d) (getDeadEntries d) ls = Inr ls' \<and>
    stored ls' = fold op_effect xs m \<and> replay (getChanges d) m = fold op_effect xs m"
proof -
  obtain d where d: "foldE delta_step xs (LedgerDelta_on header update) = Inr d" "delta_ok m d"
    "effect d m = fold op_effect xs m"
    using ld.steps_legal [of m "LedgerDelta_on header update" xs] delta_ok_fresh [of m] assms(3) by auto
  have ok: "bucketlist_ok H k ls" "stored ls = m" using bucket_run_ok [OF assms(1)] by simp_all
  have b: "batch_ok (getLiveEntries d) (getDeadEntries d)" "apply_batch (getLiveEntries d) (getDeadEntries d) m = effect d m"
    using delta_batch [OF d(2)] by simp_all
  from addBatch_refines [OF ok(1) unat_ledger [OF assms(2)] b(1)] ok(2) b(2) d replay_getChanges [OF d(2)]
  show ?thesis by metis
qed

theorem closed_ledger_in_buckets_witness:
  "\<exists>d ls'. foldE delta_step [Add alice, Change alice] (LedgerDelta_on genesis True) = Inr d \<and>
    addBatch (\<lambda>_. []) 1 (getLiveEntries d) (getDeadEntries d) BucketList_init = Inr ls' \<and>
    stored ls' = [AccountKey [1] \<mapsto> alice]"
  using closed_ledger_in_buckets [OF run_init [of "\<lambda>_. []"], of "[Add alice, Change alice]" genesis True] by auto

end
