(* ===== verification/TxSetFrame.thy ===== *)
theory TxSetFrame
  imports Ledger_Types "HOL-Library.Product_Lexorder" Complex_Main
begin

text \<open>
  \<^verbatim>\<open>src/herder/TxSetFrame.cpp\<close>: the set of transactions a ledger applies. Of a \<^verbatim>\<open>TransactionFrame\<close> the
  set uses its hash, source account, sequence number, fee and envelope; whether a transaction is valid
  after a given sequence number, the balances of accounts and the fee ratios come from the ledger and are
  parameters here. \<^verbatim>\<open>std::sort\<close> need not be stable: it is modelled by a stable sort, and
  \<open>TxSet_Properties\<close> shows that the results do not depend on the order of ties.
\<close>

unbundle bit_operations_syntax

record TransactionFrame =
  tx_fullHash :: Hash
  tx_sourceID :: AccountID
  tx_seqNum :: uint64
  tx_fee :: uint32
  tx_envelope :: bytes

record TxSetFrame =
  mHashIsValid :: bool
  mHash :: Hash
  mPreviousLedgerHash :: Hash
  mTransactions :: "TransactionFrame list"

definition TxSetFrame_init :: "Hash \<Rightarrow> TxSetFrame" where
  "TxSetFrame_init h = \<lparr>mHashIsValid = False, mHash = [], mPreviousLedgerHash = h, mTransactions = []\<rparr>"

definition TxSetFrame_xdr :: "Hash \<Rightarrow> TransactionFrame list \<Rightarrow> TxSetFrame" where
  "TxSetFrame_xdr h txs = \<lparr>mHashIsValid = False, mHash = [], mPreviousLedgerHash = h, mTransactions = txs\<rparr>"

text \<open>\<^verbatim>\<open>previousLedgerHash\<close> on a set that is not \<^verbatim>\<open>const\<close> returns a reference, and forgets the hash; \<open>h\<close> is what is written to it.\<close>

definition previousLedgerHash :: "TxSetFrame \<Rightarrow> Hash \<times> TxSetFrame" where
  "previousLedgerHash s = (mPreviousLedgerHash s, s\<lparr>mHashIsValid := False\<rparr>)"

definition previousLedgerHash_assign :: "Hash \<Rightarrow> TxSetFrame \<Rightarrow> TxSetFrame" where
  "previousLedgerHash_assign h s = (snd (previousLedgerHash s))\<lparr>mPreviousLedgerHash := h\<rparr>"

definition txset_add :: "TransactionFrame \<Rightarrow> TxSetFrame \<Rightarrow> TxSetFrame" where
  "txset_add tx s = s\<lparr>mTransactions := mTransactions s @ [tx], mHashIsValid := False\<rparr>"

section \<open>Sorting\<close>

definition sortForHash :: "TxSetFrame \<Rightarrow> TxSetFrame" where
  "sortForHash s = s\<lparr>mTransactions := sort_key tx_fullHash (mTransactions s), mHashIsValid := False\<rparr>"

text \<open>\<open>sha\<close> is SHA256 over the concatenation of its arguments.\<close>

definition getContentsHash :: "(bytes list \<Rightarrow> Hash) \<Rightarrow> TxSetFrame \<Rightarrow> Hash \<times> TxSetFrame" where
  "getContentsHash sha s =
     (if mHashIsValid s then (mHash s, s)
      else let s1 = sortForHash s;
               h = sha (mPreviousLedgerHash s1 # map tx_envelope (mTransactions s1))
           in (h, s1\<lparr>mHash := h, mHashIsValid := True\<rparr>))"

text \<open>\<^verbatim>\<open>lessThanXored\<close> of \<^verbatim>\<open>src/util/types.cpp\<close>: the order of the hashes after both are xored with \<open>x\<close>.\<close>

definition xored :: "Hash \<Rightarrow> Hash \<Rightarrow> Hash" where
  "xored x h = map2 (\<lambda>a b. a XOR b) x h"

definition lessThanXored :: "Hash \<Rightarrow> Hash \<Rightarrow> Hash \<Rightarrow> bool" where
  "lessThanXored l r x = (xored x l < xored x r)"

text \<open>
  The batches of \<^verbatim>\<open>sortForApply\<close>: the \<open>i\<close>-th transaction of an account goes to batch \<open>i\<close>. \<open>seen\<close> is
  \<^verbatim>\<open>accountTxCountMap\<close>; a vector that is too short is extended by four batches past \<open>v\<close>.
\<close>

fun fillBatches ::
  "TransactionFrame list \<Rightarrow> (AccountID \<times> nat) list \<Rightarrow> TransactionFrame list list \<Rightarrow> TransactionFrame list list"
where
  "fillBatches [] seen batches = batches"
| "fillBatches (tx # txs) seen batches =
     (let v = (case map_of seen (tx_sourceID tx) of None \<Rightarrow> 0 | Some n \<Rightarrow> n);
          batches1 = (if length batches \<le> v then batches @ replicate (v + 4 - length batches) [] else batches)
      in fillBatches txs (map_put (tx_sourceID tx) (v + 1) seen) (batches1[v := batches1 ! v @ [tx]]))"

definition sortForApply :: "(bytes list \<Rightarrow> Hash) \<Rightarrow> TxSetFrame \<Rightarrow> TransactionFrame list \<times> TxSetFrame" where
  "sortForApply sha s =
     (let batches = fillBatches (sort_key tx_seqNum (mTransactions s)) [] (replicate 4 []);
          (h, s1) = getContentsHash sha s
      in (concat (map (sort_key (\<lambda>tx. xored h (tx_fullHash tx))) batches), s1))"

section \<open>Surge pricing\<close>

text \<open>The lowest fee ratio of each account; \<open>ratio\<close> is \<^verbatim>\<open>getFeeRatio\<close>, a \<^verbatim>\<open>double\<close>.\<close>

definition noteFee :: "(TransactionFrame \<Rightarrow> rat) \<Rightarrow> TransactionFrame \<Rightarrow> (AccountID \<times> rat) list \<Rightarrow> (AccountID \<times> rat) list" where
  "noteFee ratio tx fees =
     (let r = ratio tx; now = (case map_of fees (tx_sourceID tx) of None \<Rightarrow> 0 | Some x \<Rightarrow> x);
          fees1 = map_put (tx_sourceID tx) now fees
      in if now = 0 then map_put (tx_sourceID tx) r fees1
         else if r < now then map_put (tx_sourceID tx) r fees1 else fees1)"

definition fee_of :: "(AccountID \<times> rat) list \<Rightarrow> AccountID \<Rightarrow> rat" where
  "fee_of fees a = (case map_of fees a of None \<Rightarrow> 0 | Some r \<Rightarrow> r)"

text \<open>\<^verbatim>\<open>SurgeSorter\<close>: by descending fee of the account, then by account, then by sequence number.\<close>

definition SurgeSorter :: "(AccountID \<times> rat) list \<Rightarrow> TransactionFrame \<Rightarrow> TransactionFrame \<Rightarrow> bool" where
  "SurgeSorter fees tx1 tx2 =
     (if tx_sourceID tx1 = tx_sourceID tx2 then tx_seqNum tx1 < tx_seqNum tx2
      else let fee1 = fee_of fees (tx_sourceID tx1); fee2 = fee_of fees (tx_sourceID tx2)
           in if fee1 = fee2 then tx_sourceID tx1 < tx_sourceID tx2 else fee1 > fee2)"

definition surge_key :: "(AccountID \<times> rat) list \<Rightarrow> TransactionFrame \<Rightarrow> rat \<times> AccountID \<times> uint64" where
  "surge_key fees tx = (- fee_of fees (tx_sourceID tx), tx_sourceID tx, tx_seqNum tx)"

definition removeTx :: "TransactionFrame \<Rightarrow> TxSetFrame \<Rightarrow> TxSetFrame" where
  "removeTx tx s = s\<lparr>mTransactions := remove1 tx (mTransactions s), mHashIsValid := False\<rparr>"

definition surgePricingFilter :: "(TransactionFrame \<Rightarrow> rat) \<Rightarrow> nat \<Rightarrow> TxSetFrame \<Rightarrow> TxSetFrame" where
  "surgePricingFilter ratio maxTxSetSize s =
     (if length (mTransactions s) > maxTxSetSize
      then let fees = fold (noteFee ratio) (mTransactions s) [];
               tempList = sort_key (surge_key fees) (mTransactions s)
           in fold removeTx (drop maxTxSetSize tempList) s
      else s)"

lemma SurgeSorter_key: "SurgeSorter fees tx1 tx2 \<longleftrightarrow> surge_key fees tx1 < surge_key fees tx2"
  by (auto simp: SurgeSorter_def surge_key_def Let_def less_prod_def)

section \<open>Validity\<close>

text \<open>
  What the ledger says: whether a transaction is valid after a sequence number (\<^verbatim>\<open>TransactionFrame::
  checkValid\<close>), and the balance and the minimum balance of an account.
\<close>

record TxContext =
  validAfter :: "TransactionFrame \<Rightarrow> uint64 \<Rightarrow> bool"
  sourceBalance :: "AccountID \<Rightarrow> int64"
  minimumBalance :: "AccountID \<Rightarrow> int64"
  lclHash :: Hash
  maxTxs :: nat

definition accountTxMap :: "TransactionFrame list \<Rightarrow> (AccountID \<times> TransactionFrame list) list" where
  "accountTxMap txs =
     fold (\<lambda>tx m. map_put (tx_sourceID tx)
        ((case map_of m (tx_sourceID tx) of None \<Rightarrow> [] | Some l \<Rightarrow> l) @ [tx]) m) txs []"

text \<open>The loop over one account in \<^verbatim>\<open>checkValid\<close>: \<open>None\<close> once a transaction is invalid, else the total fee.\<close>

fun checkChain :: "TxContext \<Rightarrow> TransactionFrame list \<Rightarrow> uint64 \<Rightarrow> int64 \<Rightarrow> int64 option" where
  "checkChain C [] lastSeq totFee = Some totFee"
| "checkChain C (tx # txs) lastSeq totFee =
     (if \<not> validAfter C tx lastSeq then None
      else checkChain C txs (tx_seqNum tx) (totFee + uint (tx_fee tx)))"

definition canPay :: "TxContext \<Rightarrow> AccountID \<Rightarrow> int64 \<Rightarrow> bool" where
  "canPay C a totFee = (\<not> sourceBalance C a - totFee < minimumBalance C a)"

definition checkAccount :: "TxContext \<Rightarrow> AccountID \<times> TransactionFrame list \<Rightarrow> bool" where
  "checkAccount C item =
     (case checkChain C (sort_key tx_seqNum (snd item)) 0 0 of
        None \<Rightarrow> False
      | Some totFee \<Rightarrow> snd item = [] \<or> canPay C (fst item) totFee)"

fun sortedHashes :: "Hash \<Rightarrow> TransactionFrame list \<Rightarrow> bool" where
  "sortedHashes lastHash [] = True"
| "sortedHashes lastHash (tx # txs) =
     (if tx_fullHash tx < lastHash then False else sortedHashes (tx_fullHash tx) txs)"

definition txset_checkValid :: "TxContext \<Rightarrow> TxSetFrame \<Rightarrow> bool" where
  "txset_checkValid C s =
     (if lclHash C \<noteq> mPreviousLedgerHash s then False
      else if length (mTransactions s) > maxTxs C then False
      else if \<not> sortedHashes (replicate 32 0) (mTransactions s) then False
      else list_all (checkAccount C) (accountTxMap (mTransactions s)))"

text \<open>The loop of \<^verbatim>\<open>trimInvalid\<close> over one account: what is trimmed, the last valid transaction and the total fee.\<close>

fun trimChain ::
  "TxContext \<Rightarrow> TransactionFrame list \<Rightarrow> uint64 \<Rightarrow> int64 \<Rightarrow> TransactionFrame option \<Rightarrow>
   TransactionFrame list \<times> TransactionFrame option \<times> int64"
where
  "trimChain C [] lastSeq totFee lastTx = ([], lastTx, totFee)"
| "trimChain C (tx # txs) lastSeq totFee lastTx =
     (if \<not> validAfter C tx lastSeq
      then (case trimChain C txs lastSeq totFee lastTx of (bad, r) \<Rightarrow> (tx # bad, r))
      else trimChain C txs (tx_seqNum tx) (totFee + uint (tx_fee tx)) (Some tx))"

definition trimAccount ::
  "TxContext \<Rightarrow> AccountID \<times> TransactionFrame list \<Rightarrow> TransactionFrame list \<times> TxSetFrame \<Rightarrow>
   TransactionFrame list \<times> TxSetFrame"
where
  "trimAccount C item st =
     (case st of (trimmed, s) \<Rightarrow>
        let txs = sort_key tx_seqNum (snd item)
        in case trimChain C txs 0 0 None of (bad, lastTx, totFee) \<Rightarrow>
             let s1 = fold removeTx bad s
             in case lastTx of
                  None \<Rightarrow> (trimmed @ bad, s1)
                | Some tx \<Rightarrow>
                    if \<not> canPay C (tx_sourceID tx) totFee
                    then (trimmed @ bad @ txs, fold removeTx txs s1)
                    else (trimmed @ bad, s1))"

definition trimInvalid :: "TxContext \<Rightarrow> TxSetFrame \<Rightarrow> TransactionFrame list \<times> TxSetFrame" where
  "trimInvalid C s =
     (let s1 = sortForHash s in fold (trimAccount C) (accountTxMap (mTransactions s1)) ([], s1))"

end
