(* ===== verification/TxSet_Properties.thy ===== *)
theory TxSet_Properties
  imports TxSetFrame
begin

text \<open>
  The order in which a transaction set is applied, which transactions surge pricing drops, and that a
  trimmed set is valid.
\<close>

section \<open>The order of application\<close>

abbreviation from_account :: "AccountID \<Rightarrow> TransactionFrame list \<Rightarrow> TransactionFrame list" where
  "from_account a \<equiv> filter (\<lambda>tx. tx_sourceID tx = a)"















section \<open>Surge pricing\<close>

lemma removeTx_all: "mTransactions (fold removeTx ys s) = fold remove1 ys (mTransactions s)"
  by (induction ys arbitrary: s) (simp_all add: removeTx_def)

lemma mset_remove_all: "mset (fold remove1 ys xs) = mset xs - mset ys"
  by (induction ys arbitrary: xs) simp_all

lemma fee_of_noteFee:
  "map_ok fees \<Longrightarrow> fee_of (noteFee ratio tx fees) a =
     (if a = tx_sourceID tx then if fee_of fees a = 0 then ratio tx else min (ratio tx) (fee_of fees a) else fee_of fees a)"
  by (auto simp: noteFee_def fee_of_def Let_def map_of_put map_ok_put)

lemma map_ok_noteFee: "map_ok fees \<Longrightarrow> map_ok (noteFee ratio tx fees)"
  by (simp add: noteFee_def Let_def map_ok_put)

text \<open>The fee noted for an account is the lowest ratio among its transactions.\<close>

definition account_fee :: "(TransactionFrame \<Rightarrow> rat) \<Rightarrow> TransactionFrame list \<Rightarrow> AccountID \<Rightarrow> rat" where
  "account_fee ratio txs a = Min (ratio ` set (from_account a txs))"

lemma fees_noted:
  "map_ok fees \<Longrightarrow> \<forall>tx \<in> set txs. 0 < ratio tx \<Longrightarrow> 0 \<le> fee_of fees a \<Longrightarrow>
   fee_of (fold (noteFee ratio) txs fees) a =
     (if from_account a txs = [] then fee_of fees a
      else if fee_of fees a = 0 then account_fee ratio txs a else min (fee_of fees a) (account_fee ratio txs a))"
proof (induction txs arbitrary: fees)
  case (Cons tx txs)
  let ?fees = "noteFee ratio tx fees"
  have pos: "0 < ratio tx" using Cons.prems(2) by simp
  have "0 \<le> fee_of ?fees a" using Cons.prems pos by (auto simp: fee_of_noteFee)
  then have IH: "fee_of (fold (noteFee ratio) (tx # txs) fees) a =
     (if from_account a txs = [] then fee_of ?fees a
      else if fee_of ?fees a = 0 then account_fee ratio txs a else min (fee_of ?fees a) (account_fee ratio txs a))"
    using Cons.IH [OF map_ok_noteFee [OF Cons.prems(1)]] Cons.prems(2) by simp
  have acc: "account_fee ratio (tx # txs) (tx_sourceID tx) =
      (if from_account (tx_sourceID tx) txs = [] then ratio tx else min (ratio tx) (account_fee ratio txs (tx_sourceID tx)))"
    by (simp add: account_fee_def del: set_filter)
  have other: "account_fee ratio (tx # txs) a = account_fee ratio txs a" if "a \<noteq> tx_sourceID tx"
    using that by (auto simp: account_fee_def)
  show ?case
    unfolding IH using fee_of_noteFee [OF Cons.prems(1), of ratio tx a] acc other pos
    by (cases "a = tx_sourceID tx") (auto simp: min_def)
qed simp

lemma surge_result:
  assumes "\<forall>tx \<in> set (mTransactions s). 0 < ratio tx" "n < length (mTransactions s)"
  defines "fees \<equiv> fold (noteFee ratio) (mTransactions s) []"
  shows "mset (mTransactions (surgePricingFilter ratio n s)) = mset (take n (sort_key (surge_key fees) (mTransactions s)))"
    and "tx \<in> set (mTransactions s) \<Longrightarrow> fee_of fees (tx_sourceID tx) = account_fee ratio (mTransactions s) (tx_sourceID tx)"
proof -
  let ?l = "sort_key (surge_key fees) (mTransactions s)"
  have "mset (mTransactions (surgePricingFilter ratio n s)) = mset ?l - mset (drop n ?l)"
    using assms(2) by (simp add: surgePricingFilter_def Let_def fees_def removeTx_all mset_remove_all)
  also have "\<dots> = mset (take n ?l)"
    by (metis add_diff_cancel_right' append_take_drop_id mset_append)
  finally show "mset (mTransactions (surgePricingFilter ratio n s)) = mset (take n ?l)" .
  assume "tx \<in> set (mTransactions s)"
  then have "from_account (tx_sourceID tx) (mTransactions s) \<noteq> []" by (auto simp: filter_empty_conv)
  then show "fee_of fees (tx_sourceID tx) = account_fee ratio (mTransactions s) (tx_sourceID tx)"
    using fees_noted [of "[]" "mTransactions s" ratio "tx_sourceID tx"] assms(1) by (simp add: fees_def fee_of_def)
qed

section \<open>Trimming\<close>

lemma map_ok_accounts: "map_ok m \<Longrightarrow> map_ok (fold (\<lambda>tx m. map_put (tx_sourceID tx)
        ((case map_of m (tx_sourceID tx) of None \<Rightarrow> [] | Some l \<Rightarrow> l) @ [tx]) m) txs m)"
  by (induction txs arbitrary: m) (simp_all add: map_ok_put)

lemma accounts_fold:
  "map_ok m \<Longrightarrow> map_of (fold (\<lambda>tx m. map_put (tx_sourceID tx)
        ((case map_of m (tx_sourceID tx) of None \<Rightarrow> [] | Some l \<Rightarrow> l) @ [tx]) m) txs m) a =
     (if from_account a txs = [] then map_of m a
      else Some ((case map_of m a of None \<Rightarrow> [] | Some l \<Rightarrow> l) @ from_account a txs))"
  by (induction txs arbitrary: m) (simp_all add: map_ok_put map_of_put)

lemma accountTxMap_simps:
  "map_ok (accountTxMap txs)"
  "map_of (accountTxMap txs) a = (if from_account a txs = [] then None else Some (from_account a txs))"
  using map_ok_accounts [of "[]" txs] accounts_fold [of "[]" txs a] by (simp_all add: accountTxMap_def)

lemma trimChain_checkChain:
  "trimChain C txs lastSeq totFee lastTx = (bad, lastTx', tot) \<Longrightarrow> distinct txs \<Longrightarrow>
   set bad \<subseteq> set txs \<and> checkChain C (filter (\<lambda>tx. tx \<notin> set bad) txs) lastSeq totFee = Some tot \<and>
   (lastTx' = (if filter (\<lambda>tx. tx \<notin> set bad) txs = [] then lastTx else Some (last (filter (\<lambda>tx. tx \<notin> set bad) txs))))"
proof (induction C txs lastSeq totFee lastTx arbitrary: bad lastTx' tot rule: trimChain.induct)
  case (2 C tx txs lastSeq totFee lastTx)
  show ?case
  proof (cases "validAfter C tx lastSeq")
    case True
    then have r: "trimChain C txs (tx_seqNum tx) (totFee + uint (tx_fee tx)) (Some tx) = (bad, lastTx', tot)"
      using "2.prems"(1) by simp
    from "2.IH"(2) [OF _ this] True "2.prems"(2) have "tx \<notin> set bad" by auto
    with "2.IH"(2) [OF _ r] True "2.prems"(2) show ?thesis by auto
  next
    case False
    then obtain bad1 where r: "trimChain C txs lastSeq totFee lastTx = (bad1, lastTx', tot)" "bad = tx # bad1"
      using "2.prems"(1) by (auto split: prod.splits)
    have "filter (\<lambda>x. x \<notin> set bad) (tx # txs) = filter (\<lambda>x. x \<notin> set bad1) txs"
      using "2.prems"(2) r(2) by (auto intro: filter_cong)
    with "2.IH"(1) [OF _ r(1)] False "2.prems"(2) r(2) show ?thesis by auto
  qed
qed auto

text \<open>What \<open>trimAccount\<close> keeps of an account's transactions.\<close>

definition kept :: "TxContext \<Rightarrow> AccountID \<Rightarrow> TransactionFrame list \<Rightarrow> TransactionFrame list" where
  "kept C a txs =
     (case trimChain C (sort_key tx_seqNum txs) 0 0 None of (bad, lastTx, totFee) \<Rightarrow>
        if lastTx \<noteq> None \<and> \<not> canPay C a totFee then [] else filter (\<lambda>tx. tx \<notin> set bad) txs)"

lemma kept_checkAccount:
  assumes "distinct txs" "kept C a txs \<noteq> []"
  shows "checkAccount C (a, kept C a txs)"
proof -
  obtain bad lastTx tot where t: "trimChain C (sort_key tx_seqNum txs) 0 0 None = (bad, lastTx, tot)" by (cases "trimChain C (sort_key tx_seqNum txs) 0 0 None") auto
  have c: "checkChain C (filter (\<lambda>tx. tx \<notin> set bad) (sort_key tx_seqNum txs)) 0 0 = Some tot"
    "lastTx = (if filter (\<lambda>tx. tx \<notin> set bad) (sort_key tx_seqNum txs) = [] then None
       else Some (last (filter (\<lambda>tx. tx \<notin> set bad) (sort_key tx_seqNum txs))))"
    using trimChain_checkChain [OF t] assms(1) by simp_all
  have k: "kept C a txs = filter (\<lambda>tx. tx \<notin> set bad) txs" "lastTx \<noteq> None \<longrightarrow> canPay C a tot"
    using assms(2) t by (auto simp: kept_def split: if_splits)
  have "lastTx \<noteq> None" using c(2) assms(2) k(1) by (auto simp: filter_empty_conv)
  with c(1) k show ?thesis by (simp add: checkAccount_def filter_sort)
qed

lemma fold_remove1_filter: "distinct xs \<Longrightarrow> fold remove1 ys xs = filter (\<lambda>x. x \<notin> set ys) xs"
proof (induction ys arbitrary: xs)
  case (Cons y ys)
  then show ?case by (simp add: distinct_remove1_removeAll removeAll_filter_not_eq conj_commute) metis
qed simp

lemma trimAccount_result:
  assumes "distinct (mTransactions s)" "from_account a (mTransactions s) = txs"
  shows "\<exists>P. mTransactions (snd (trimAccount C (a, txs) (tr, s))) = filter P (mTransactions s) \<and>
    from_account a (filter P (mTransactions s)) = kept C a txs \<and>
    (\<forall>b. b \<noteq> a \<longrightarrow> from_account b (filter P (mTransactions s)) = from_account b (mTransactions s)) \<and>
    mPreviousLedgerHash (snd (trimAccount C (a, txs) (tr, s))) = mPreviousLedgerHash s"
proof -
  obtain bad lastTx tot where t: "trimChain C (sort_key tx_seqNum txs) 0 0 None = (bad, lastTx, tot)"
    by (cases "trimChain C (sort_key tx_seqNum txs) 0 0 None") auto
  have prev: "mPreviousLedgerHash (fold removeTx ys s) = mPreviousLedgerHash s" for ys s
    by (induction ys arbitrary: s) (simp_all add: removeTx_def)
  have dist: "distinct txs" using assms by auto
  then have tc: "set bad \<subseteq> set txs"
    "lastTx = (if filter (\<lambda>tx. tx \<notin> set bad) (sort_key tx_seqNum txs) = [] then None
       else Some (last (filter (\<lambda>tx. tx \<notin> set bad) (sort_key tx_seqNum txs))))"
    using trimChain_checkChain [OF t] by simp_all
  have src: "tx_sourceID tx = a" if "tx \<in> set txs" for tx using assms(2) that by auto
  have last: "tx_sourceID tx = a" if "lastTx = Some tx" for tx
  proof -
    from that tc(2) have "tx \<in> set (filter (\<lambda>tx. tx \<notin> set bad) (sort_key tx_seqNum txs))"
      by (metis last_in_set option.distinct(1) option.inject)
    then show ?thesis using src by simp
  qed
  define P where "P tx = (tx \<notin> set bad \<and> \<not> (lastTx \<noteq> None \<and> \<not> canPay C a tot \<and> tx \<in> set txs))" for tx
  have "mTransactions (snd (trimAccount C (a, txs) (tr, s))) = filter P (mTransactions s)"
    using assms(1) t last
    by (cases lastTx) (auto simp: trimAccount_def Let_def removeTx_all fold_remove1_filter P_def intro!: filter_cong)
  moreover have "from_account a (filter P (mTransactions s)) = filter P txs"
    unfolding assms(2) [symmetric] filter_filter by (auto intro!: filter_cong)
  moreover have "filter P txs = kept C a txs"
    using t by (auto simp: kept_def P_def filter_empty_conv intro!: filter_cong)
  moreover have "from_account b (filter P (mTransactions s)) = from_account b (mTransactions s)" if "b \<noteq> a" for b
    using that src tc(1) by (auto simp: P_def intro!: filter_cong)
  moreover have "mPreviousLedgerHash (snd (trimAccount C (a, txs) (tr, s))) = mPreviousLedgerHash s"
    using t by (simp add: trimAccount_def Let_def prev split: option.split)
  ultimately show ?thesis by metis
qed

lemma trim_accounts:
  "distinct (mTransactions s) \<Longrightarrow> distinct (map fst items) \<Longrightarrow>
   \<forall>(a, txs) \<in> set items. from_account a (mTransactions s) = txs \<Longrightarrow>
   \<exists>P. mTransactions (snd (fold (trimAccount C) items (tr, s))) = filter P (mTransactions s) \<and>
     (\<forall>a. from_account a (filter P (mTransactions s)) =
        (case map_of items a of None \<Rightarrow> from_account a (mTransactions s) | Some txs \<Rightarrow> kept C a txs)) \<and>
     mPreviousLedgerHash (snd (fold (trimAccount C) items (tr, s))) = mPreviousLedgerHash s"
proof (induction items arbitrary: tr s)
  case Nil
  then show ?case by (intro exI [of _ "\<lambda>_. True"]) simp
next
  case (Cons item items)
  obtain a txs where item: "item = (a, txs)" by fastforce
  obtain tr1 s1 where s1: "trimAccount C (a, txs) (tr, s) = (tr1, s1)" by fastforce
  obtain P where P: "mTransactions s1 = filter P (mTransactions s)" "from_account a (mTransactions s1) = kept C a txs"
    "\<And>b. b \<noteq> a \<Longrightarrow> from_account b (mTransactions s1) = from_account b (mTransactions s)"
    "mPreviousLedgerHash s1 = mPreviousLedgerHash s"
    using trimAccount_result [OF Cons.prems(1), of a txs C tr] Cons.prems(3) item s1 by auto
  have "\<forall>(b, l) \<in> set items. from_account b (mTransactions s1) = l"
  proof (clarify)
    fix b l
    assume bl: "(b, l) \<in> set items"
    then have "b \<noteq> a" using Cons.prems(2) item by force
    with P(3) Cons.prems(3) bl show "from_account b (mTransactions s1) = l" by auto
  qed
  then obtain Q where Q: "mTransactions (snd (fold (trimAccount C) items (tr1, s1))) = filter Q (mTransactions s1)"
    "\<And>b. from_account b (filter Q (mTransactions s1)) =
        (case map_of items b of None \<Rightarrow> from_account b (mTransactions s1) | Some txs \<Rightarrow> kept C b txs)"
    "mPreviousLedgerHash (snd (fold (trimAccount C) items (tr1, s1))) = mPreviousLedgerHash s1"
    using Cons.IH [of s1 tr1] Cons.prems(1,2) P(1) by auto
  have "map_of items a = None" using Cons.prems(2) item by (simp add: map_of_eq_None_iff)
  with Q(2) P(2,3) have "from_account b (filter Q (mTransactions s1)) =
      (case map_of (item # items) b of None \<Rightarrow> from_account b (mTransactions s) | Some txs \<Rightarrow> kept C b txs)" for b
    using item by (cases "b = a") (auto split: option.split)
  moreover have "filter Q (mTransactions s1) = filter (\<lambda>x. P x \<and> Q x) (mTransactions s)"
    unfolding P(1) by simp
  ultimately show ?case
    using Q(1,3) P(4) s1 item by (intro exI [of _ "\<lambda>x. P x \<and> Q x"]) simp
qed

section \<open>The properties\<close>










definition sample_tx :: "uint8 \<Rightarrow> uint8 \<Rightarrow> uint64 \<Rightarrow> TransactionFrame" where
  "sample_tx h a q = \<lparr>tx_fullHash = h # replicate 31 0, tx_sourceID = [a], tx_seqNum = q, tx_fee = 10, tx_envelope = [h]\<rparr>"

definition sample_set :: "TransactionFrame list \<Rightarrow> TxSetFrame" where
  "sample_set txs = (TxSetFrame_init [])\<lparr>mTransactions := txs\<rparr>"

lemma sample_simps [simp]:
  "tx_fullHash (sample_tx h a q) = h # replicate 31 0" "tx_sourceID (sample_tx h a q) = [a]" "tx_seqNum (sample_tx h a q) = q"
  "tx_fee (sample_tx h a q) = 10" "mTransactions (sample_set txs) = txs" "mPreviousLedgerHash (sample_set txs) = []"
  "\<not> mHashIsValid (sample_set txs)"
  by (simp_all add: sample_tx_def sample_set_def TxSetFrame_init_def)


text \<open>
  Surge pricing keeps as many transactions as the ledger allows; an account that loses a transaction
  does not pay more, by the lowest fee ratio of its transactions, than an account that keeps one, and of
  one account's transactions those with the lowest sequence numbers are kept.
\<close>

theorem surge_pricing:
  assumes "\<forall>tx \<in> set (mTransactions s). 0 < ratio tx" "max_size < length (mTransactions s)"
  shows "\<exists>dropped. mset (mTransactions (surgePricingFilter ratio max_size s)) + mset dropped = mset (mTransactions s) \<and>
    length (mTransactions (surgePricingFilter ratio max_size s)) = max_size \<and>
    (\<forall>t \<in> set (mTransactions (surgePricingFilter ratio max_size s)). \<forall>d \<in> set dropped.
       account_fee ratio (mTransactions s) (tx_sourceID d) \<le> account_fee ratio (mTransactions s) (tx_sourceID t) \<and>
       (tx_sourceID d = tx_sourceID t \<longrightarrow> tx_seqNum t \<le> tx_seqNum d))"
proof -
  define fees where "fees = fold (noteFee ratio) (mTransactions s) []"
  let ?l = "sort_key (surge_key fees) (mTransactions s)" and ?r = "surgePricingFilter ratio max_size s"
  have res: "mset (mTransactions ?r) = mset (take max_size ?l)"
    using surge_result(1) [OF assms] by (simp add: fees_def)
  then have "mset (mTransactions ?r) + mset (drop max_size ?l) = mset (mTransactions s)"
    by (metis append_take_drop_id mset_append mset_sort)
  moreover have "length (mTransactions ?r) = max_size"
    using arg_cong [OF res, of size] assms(2) by simp
  moreover have "account_fee ratio (mTransactions s) (tx_sourceID d) \<le> account_fee ratio (mTransactions s) (tx_sourceID t) \<and>
       (tx_sourceID d = tx_sourceID t \<longrightarrow> tx_seqNum t \<le> tx_seqNum d)"
    if "t \<in> set (mTransactions ?r)" "d \<in> set (drop max_size ?l)" for t d
  proof -
    have t: "t \<in> set (take max_size ?l)" using that(1) arg_cong [OF res, of set_mset] by simp
    have "sorted (map (surge_key fees) (take max_size ?l @ drop max_size ?l))" by simp
    then have "surge_key fees t \<le> surge_key fees d"
      using t that(2) unfolding map_append sorted_append by simp
    moreover have "t \<in> set (mTransactions s)" "d \<in> set (mTransactions s)"
      using set_take_subset [of max_size ?l] set_drop_subset [of max_size ?l] t that(2) by auto
    ultimately show ?thesis
      using surge_result(2) [OF assms, folded fees_def] by (auto simp: surge_key_def less_eq_prod_def less_prod_def)
  qed
  ultimately show ?thesis by blast
qed

theorem surge_pricing_witness:
  "length (mTransactions (surgePricingFilter (\<lambda>tx. rat_of_nat (unat (tx_fee tx))) 1
      (sample_set [sample_tx 9 1 8, sample_tx 5 1 7]))) = 1"
  using surge_pricing [of "sample_set [sample_tx 9 1 8, sample_tx 5 1 7]" "\<lambda>tx. rat_of_nat (unat (tx_fee tx))" 1] by auto

lemma zero_hash_least: "length h = n \<Longrightarrow> \<not> h < replicate n (0 :: uint8)"
proof (induction n arbitrary: h)
  case (Suc n)
  then show ?case by (cases h) auto
qed simp

lemma sortedHashes_sorted:
  "sorted (map tx_fullHash txs) \<Longrightarrow> \<forall>tx \<in> set txs. \<not> tx_fullHash tx < h \<Longrightarrow> sortedHashes h txs"
  by (induction h txs rule: sortedHashes.induct) (auto simp: not_less)

text \<open>
  C36. Trimming: what is left of a transaction set after \<^verbatim>\<open>trimInvalid\<close> consists of transactions of the set,
  and passes \<^verbatim>\<open>checkValid\<close> when it follows the last closed ledger and is not too large.
\<close>

theorem trimmed_set_valid:
  assumes "distinct (mTransactions s)" "\<forall>tx \<in> set (mTransactions s). length (tx_fullHash tx) = 32"
    and "mPreviousLedgerHash s = lclHash C" "length (mTransactions (snd (trimInvalid C s))) \<le> maxTxs C"
  shows "txset_checkValid C (snd (trimInvalid C s)) \<and> set (mTransactions (snd (trimInvalid C s))) \<subseteq> set (mTransactions s)"
proof -
  let ?s1 = "sortForHash s" and ?r = "snd (trimInvalid C s)"
  have s1: "mTransactions ?s1 = sort_key tx_fullHash (mTransactions s)" "mPreviousLedgerHash ?s1 = mPreviousLedgerHash s"
    by (simp_all add: sortForHash_def)
  let ?items = "accountTxMap (mTransactions ?s1)"
  have d: "distinct (map fst ?items)" by (simp add: strict_sorted_distinct accountTxMap_simps(1))
  have "\<forall>(a, txs) \<in> set ?items. from_account a (mTransactions ?s1) = txs"
    using map_of_is_SomeI [OF d] accountTxMap_simps(2) [of "mTransactions ?s1"] by (fastforce split: if_splits)
  then obtain P where P: "mTransactions ?r = filter P (mTransactions ?s1)"
    "\<And>a. from_account a (mTransactions ?r) = (case map_of ?items a of None \<Rightarrow> from_account a (mTransactions ?s1) | Some txs \<Rightarrow> kept C a txs)"
    "mPreviousLedgerHash ?r = mPreviousLedgerHash s"
    using trim_accounts [of ?s1 ?items C "[]"] assms(1) d s1 unfolding trimInvalid_def Let_def by auto
  have sub: "set (mTransactions ?r) \<subseteq> set (mTransactions s)" unfolding P(1) s1(1) by auto
  have "sorted (map tx_fullHash (mTransactions ?r))" unfolding P(1) s1(1) filter_sort by simp
  then have "sortedHashes (replicate 32 0) (mTransactions ?r)"
    using sub assms(2) zero_hash_least [of _ 32] by (intro sortedHashes_sorted) blast+
  moreover have "list_all (checkAccount C) (accountTxMap (mTransactions ?r))"
  proof (clarsimp simp: list_all_iff)
    fix a txs
    assume "(a, txs) \<in> set (accountTxMap (mTransactions ?r))"
    then have "map_of (accountTxMap (mTransactions ?r)) a = Some txs"
      using accountTxMap_simps(1) [of "mTransactions ?r"] by (simp add: strict_sorted_distinct)
    then have txs: "txs = from_account a (mTransactions ?r)" "txs \<noteq> []"
      by (simp_all add: accountTxMap_simps(2) split: if_splits)
    then have "from_account a (mTransactions ?s1) \<noteq> []"
      unfolding P(1) by (auto simp: filter_empty_conv)
    then have "txs = kept C a (from_account a (mTransactions ?s1))"
      using P(2) [of a] txs(1) by (simp add: accountTxMap_simps(2))
    moreover have "distinct (from_account a (mTransactions ?s1))" using assms(1) s1(1) by simp
    ultimately show "checkAccount C (a, txs)" using kept_checkAccount txs(2) by metis
  qed
  ultimately show ?thesis using assms(3,4) P(3) sub by (simp add: txset_checkValid_def)
qed

definition sample_context :: TxContext where
  "sample_context = \<lparr>validAfter = (\<lambda>tx q. tx_seqNum tx = (if q = 0 then 7 else q + 1)), sourceBalance = (\<lambda>_. 100),
     minimumBalance = (\<lambda>_. 10), lclHash = [], maxTxs = 5\<rparr>"

theorem trimmed_set_valid_witness:
  "txset_checkValid sample_context (snd (trimInvalid sample_context (sample_set [sample_tx 9 1 9, sample_tx 5 1 7])))"
proof -
  let ?s = "sample_set [sample_tx 9 1 9, sample_tx 5 1 7]"
  have "length (mTransactions (snd (trimInvalid sample_context ?s))) \<le> maxTxs sample_context" by code_simp
  moreover have "distinct (mTransactions ?s)" by (simp add: sample_tx_def)
  ultimately show ?thesis using trimmed_set_valid [of ?s sample_context] by (simp add: sample_context_def)
qed

end
