(* ===== verification/Assets.thy ===== *)
theory Assets
  imports Ledger_Types Util_Types
begin

text \<open>
  Assets, prices and signed amounts: the rest of \<^verbatim>\<open>src/util/types.cpp\<close> and the asset-code templates of
  \<^verbatim>\<open>src/util/types.h\<close>. An amount is an integer in the range of \<^verbatim>\<open>int64_t\<close>; arithmetic that would leave
  the range is undefined behaviour of the program and the error value \<^term>\<open>Signed_Overflow\<close> here.
\<close>

section \<open>Signed 64-bit amounts\<close>

abbreviation INT64_MAX :: int64 where
  "INT64_MAX \<equiv> 9223372036854775807"

abbreviation INT64_MIN :: int64 where
  "INT64_MIN \<equiv> - 9223372036854775808"

definition is_int64 :: "int \<Rightarrow> bool" where
  "is_int64 x \<longleftrightarrow> INT64_MIN \<le> x \<and> x \<le> INT64_MAX"

definition i64 :: "int \<Rightarrow> scp_error + int64" where
  "i64 x = (if is_int64 x then Inr x else Inl Signed_Overflow)"

lemma i64_Inr_iff [simp]: "i64 x = Inr y \<longleftrightarrow> is_int64 x \<and> y = x"
  by (auto simp: i64_def)

lemma i64_ok [simp]: "is_int64 x \<Longrightarrow> i64 x = Inr x"
  by (simp add: i64_def)

text \<open>
  The two signed versions of \<^verbatim>\<open>bigDivide\<close>. The first returns whether the quotient fits; its callers read
  the result only then, so the result is an option here. The second throws when it does not fit.
\<close>

definition bigDivide :: "int64 \<Rightarrow> int64 \<Rightarrow> int64 \<Rightarrow> scp_error + int64 option" where
  "bigDivide A B C =
     bindE (assertE (A \<ge> 0 \<and> B \<ge> 0 \<and> C > 0)) (\<lambda>_.
     bindE (bigDivide_u64 (word_of_int A) (word_of_int B) (word_of_int C)) (\<lambda>(res, r2).
       Inr (if res \<and> uint r2 \<le> INT64_MAX then Some (uint r2) else None)))"

definition bigDivide_throw :: "int64 \<Rightarrow> int64 \<Rightarrow> int64 \<Rightarrow> scp_error + int64" where
  "bigDivide_throw A B C =
     bindE (bigDivide A B C) (\<lambda>res. case res of
       None \<Rightarrow> Inl (Runtime_Error ''overflow while performing bigDivide'')
     | Some r \<Rightarrow> Inr r)"

lemma unat_word_of_int64: "0 \<le> x \<Longrightarrow> x \<le> INT64_MAX \<Longrightarrow> unat (word_of_int x :: uint64) = nat x"
  by (simp add: unat_eq_nat_uint uint_word_of_int)

lemma bigDivide_signed:
  assumes "0 \<le> A" "A \<le> INT64_MAX" "0 \<le> B" "B \<le> INT64_MAX" "0 < C" "C \<le> INT64_MAX"
  shows "bigDivide A B C = Inr (if A * B div C \<le> INT64_MAX then Some (A * B div C) else None)"
proof -
  let ?q = "nat A * nat B div nat C"
  have C: "(word_of_int C :: uint64) \<noteq> 0"
    using unat_word_of_int64 [of C] assms(5,6) by (metis less_irrefl nat_0_iff not_less order.strict_implies_order unat_0 zero_less_nat_eq)
  have q: "int ?q = A * B div C"
    using assms by (simp add: zdiv_int)
  have "bigDivide_u64 (word_of_int A) (word_of_int B) (word_of_int C) = Inr (?q < 2 ^ 64, of_nat ?q)"
    using assms by (simp add: bigDivide_u64_eq [OF C] unat_word_of_int64 Let_def)
  moreover have "?q < 2 ^ 64 \<and> uint (of_nat ?q :: uint64) \<le> INT64_MAX \<longleftrightarrow> A * B div C \<le> INT64_MAX"
  proof (cases "?q < 2 ^ 64")
    case True
    then have "uint (of_nat ?q :: uint64) = int ?q" by (simp add: uint_nat unat_of_nat)
    with True q show ?thesis by simp
  next
    case False
    then have "18446744073709551616 \<le> ?q" by simp
    then have "\<not> A * B div C \<le> INT64_MAX" using q by linarith
    with False show ?thesis by simp
  qed
  moreover have "uint (of_nat ?q :: uint64) = A * B div C" if "A * B div C \<le> INT64_MAX"
    using that q by (simp add: uint_nat unat_of_nat)
  ultimately show ?thesis
    using assms by (auto simp: bigDivide_def assertE_def)
qed

section \<open>Prices\<close>

text \<open>The comparisons cross-multiply in 128 bits; an \<^verbatim>\<open>int32\<close> is converted as a signed value.\<close>

definition price_ge :: "Price \<Rightarrow> Price \<Rightarrow> bool" where
  "price_ge a b =
     ((word_of_int (price_n a) :: 128 word) * word_of_int (price_d b) \<ge> word_of_int (price_d a) * word_of_int (price_n b))"

definition price_gt :: "Price \<Rightarrow> Price \<Rightarrow> bool" where
  "price_gt a b =
     ((word_of_int (price_n a) :: 128 word) * word_of_int (price_d b) > word_of_int (price_d a) * word_of_int (price_n b))"

definition price_ok :: "Price \<Rightarrow> bool" where
  "price_ok p \<longleftrightarrow> 0 < price_n p \<and> price_n p < 2 ^ 31 \<and> 0 < price_d p \<and> price_d p < 2 ^ 31"

lemma int32_product:
  assumes "0 < x" "x < 2 ^ 31" "0 < y" "y < 2 ^ 31"
  shows "uint ((word_of_int x :: 128 word) * word_of_int y) = x * y"
proof -
  have "x * y < 2 ^ 31 * 2 ^ 31"
    using assms by (intro mult_strict_mono) simp_all
  then have "x * y mod 2 ^ 128 = x * y"
    using assms by (intro mod_pos_pos_trivial) simp_all
  then show ?thesis
    by (simp add: wi_hom_mult uint_word_of_int del: of_int_mult)
qed

lemma price_cmp_exact:
  assumes "price_ok a" "price_ok b"
  shows "price_ge a b \<longleftrightarrow> price_n a * price_d b \<ge> price_d a * price_n b"
    and "price_gt a b \<longleftrightarrow> price_n a * price_d b > price_d a * price_n b"
proof -
  have "uint ((word_of_int (price_n a) :: 128 word) * word_of_int (price_d b)) = price_n a * price_d b"
    and "uint ((word_of_int (price_d a) :: 128 word) * word_of_int (price_n b)) = price_d a * price_n b"
    using assms int32_product unfolding price_ok_def by simp_all
  then show "price_ge a b \<longleftrightarrow> price_n a * price_d b \<ge> price_d a * price_n b"
    and "price_gt a b \<longleftrightarrow> price_n a * price_d b > price_d a * price_n b"
    unfolding price_ge_def price_gt_def word_le_def word_less_def by simp_all
qed

section \<open>Asset codes\<close>

text \<open>Characters in the C locale; a code byte above 127 is refused before it is classified.\<close>

definition isalnum :: "uint8 \<Rightarrow> bool" where
  "isalnum b \<longleftrightarrow> 48 \<le> b \<and> b \<le> 57 \<or> 65 \<le> b \<and> b \<le> 90 \<or> 97 \<le> b \<and> b \<le> 122"

definition iscntrl :: "uint8 \<Rightarrow> bool" where
  "iscntrl b \<longleftrightarrow> b \<le> 31 \<or> b = 127"

definition isString32Valid :: "bytes \<Rightarrow> bool" where
  "isString32Valid str = list_all (\<lambda>c. \<not> (127 < c \<or> iscntrl c)) str"

text \<open>
  The loop of \<^verbatim>\<open>isAssetValid\<close>: \<open>None\<close> for a code that is refused, otherwise the number of characters before
  the trailing zeros.
\<close>

fun code_chars :: "bool \<Rightarrow> nat \<Rightarrow> bytes \<Rightarrow> nat option" where
  "code_chars zeros n [] = Some n"
| "code_chars zeros n (b # bs) =
     (if b = 0 then code_chars True n bs
      else if zeros then None
      else if b > 0x7F \<or> \<not> isalnum b then None
      else code_chars zeros (n + 1) bs)"

fun isAssetValid :: "Asset \<Rightarrow> bool" where
  "isAssetValid AssetNative = True"
| "isAssetValid (AlphaNum4 code _) = (case code_chars False 0 code of None \<Rightarrow> False | Some n \<Rightarrow> n > 0)"
| "isAssetValid (AlphaNum12 code _) = (case code_chars False 0 code of None \<Rightarrow> False | Some n \<Rightarrow> n > 4)"

definition isAssetValid_issuer :: "AccountID \<Rightarrow> Asset \<Rightarrow> bool" where
  "isAssetValid_issuer bankID cur \<longleftrightarrow> isAssetValid cur \<and> (cur = AssetNative \<or> issuer cur = bankID)"

text \<open>\<^verbatim>\<open>getIssuer\<close> reads an inactive arm of the union for the native asset, which throws.\<close>

definition getIssuer :: "Asset \<Rightarrow> scp_error + AccountID" where
  "getIssuer asset = (case asset of AssetNative \<Rightarrow> Inl (Runtime_Error ''wrong union'') | AlphaNum4 _ i \<Rightarrow> Inr i | AlphaNum12 _ i \<Rightarrow> Inr i)"

definition compareAsset :: "Asset \<Rightarrow> Asset \<Rightarrow> bool" where
  "compareAsset first second =
     (case (first, second) of
        (AssetNative, AssetNative) \<Rightarrow> True
      | (AlphaNum4 c i, AlphaNum4 c' i') \<Rightarrow> i = i' \<and> c = c'
      | (AlphaNum12 c i, AlphaNum12 c' i') \<Rightarrow> i = i' \<and> c = c'
      | _ \<Rightarrow> False)"

lemma compareAsset_eq: "compareAsset a b \<longleftrightarrow> a = b"
  by (cases a; cases b) (auto simp: compareAsset_def)

fun assetType :: "Asset \<Rightarrow> nat" where
  "assetType AssetNative = 0"
| "assetType (AlphaNum4 _ _) = 1"
| "assetType (AlphaNum12 _ _) = 2"

subsection \<open>The database representation of a code\<close>

fun assetCodeToStr :: "bytes \<Rightarrow> bytes" where
  "assetCodeToStr [] = []"
| "assetCodeToStr (c # cs) = (if c = 0 then [] else c # assetCodeToStr cs)"

definition strToAssetCode :: "nat \<Rightarrow> bytes \<Rightarrow> bytes" where
  "strToAssetCode N str = take (min N (length str)) str @ replicate (N - min N (length str)) 0"

lemma code_chars_shape:
  "code_chars zeros n code = Some m \<Longrightarrow>
   n \<le> m \<and> (zeros \<longrightarrow> m = n) \<and> (zeros \<longrightarrow> code = replicate (length code) 0) \<and>
   (\<not> zeros \<longrightarrow> length (assetCodeToStr code) = m - n \<and>
     code = assetCodeToStr code @ replicate (length code - (m - n)) 0)"
proof (induction zeros n code rule: code_chars.induct)
  case (2 zeros n b bs)
  then show ?case
    by (cases "b = 0"; cases zeros) (auto simp: Suc_diff_le split: if_splits)
qed simp

lemma strToAssetCode_pad: "strToAssetCode (length str + k) str = str @ replicate k 0"
  by (simp add: strToAssetCode_def min_def)

lemma code_roundtrip:
  assumes "code_chars False 0 code = Some m"
  shows "strToAssetCode (length code) (assetCodeToStr code) = code" and "length (assetCodeToStr code) = m"
proof -
  have len: "length (assetCodeToStr code) = m" and code: "code = assetCodeToStr code @ replicate (length code - m) 0"
    using code_chars_shape [OF assms] by simp_all
  have "length code = length (assetCodeToStr code) + (length code - m)"
    using arg_cong [OF code, of length] by simp
  then show "strToAssetCode (length code) (assetCodeToStr code) = code"
    using strToAssetCode_pad [of "assetCodeToStr code" "length code - m"] code by metis
  show "length (assetCodeToStr code) = m" by (rule len)
qed

text \<open>The XDR types give the codes their lengths.\<close>

fun asset_wf :: "Asset \<Rightarrow> bool" where
  "asset_wf AssetNative = True"
| "asset_wf (AlphaNum4 code _) = (length code = 4)"
| "asset_wf (AlphaNum12 code _) = (length code = 12)"

definition codeStr :: "Asset \<Rightarrow> bytes" where
  "codeStr asset = assetCodeToStr (assetCode asset)"

text \<open>Valid codes of the two lengths do not overlap, so the code and the issuer identify the asset.\<close>

lemma asset_key_injective:
  assumes "isAssetValid a" "isAssetValid b" "asset_wf a" "asset_wf b" "a \<noteq> AssetNative" "b \<noteq> AssetNative"
    and "codeStr a = codeStr b" "issuer a = issuer b"
  shows "a = b"
proof -
  have len: "length (codeStr x) \<le> 4 \<longleftrightarrow> assetType x = 1" if "isAssetValid x" "asset_wf x" "x \<noteq> AssetNative" for x
  proof (cases x)
    case (AlphaNum4 code i)
    with that obtain m where m: "code_chars False 0 code = Some m" "length code = 4" by (auto split: option.splits)
    have "code = assetCodeToStr code @ replicate (length code - m) 0" "length (assetCodeToStr code) = m"
      using code_chars_shape [OF m(1)] by simp_all
    then have "m \<le> 4" using m(2) by (metis length_append le_add1)
    with AlphaNum4 code_roundtrip(2) [OF m(1)] show ?thesis by (simp add: codeStr_def)
  next
    case (AlphaNum12 code i)
    with that obtain m where "code_chars False 0 code = Some m" "m > 4" by (auto split: option.splits)
    with AlphaNum12 code_roundtrip(2) show ?thesis by (simp add: codeStr_def)
  qed (use that in simp)
  have same: "assetType a = assetType b"
    using len [OF assms(1,3,5)] len [OF assms(2,4,6)] assms(5-7) by (cases a; cases b) auto
  have code: "strToAssetCode (length (assetCode x)) (codeStr x) = assetCode x" if "isAssetValid x" "x \<noteq> AssetNative" for x
    using that code_roundtrip(1) by (cases x) (auto simp: codeStr_def split: option.splits)
  have "length (assetCode a) = length (assetCode b)"
    using same assms(3-6) by (cases a; cases b) simp_all
  then have "assetCode a = assetCode b"
    using code [OF assms(1,5)] code [OF assms(2,6)] assms(7) by metis
  with same assms(5,6,8) show ?thesis
    by (cases a; cases b) simp_all
qed

end
