(* ===== verification/Database.thy ===== *)
theory Database
  imports Assets LedgerDelta_Refinement "HOL-Library.Product_Lexorder" Complex_Main
begin

text \<open>
  The ledger state as the program keeps it: the SQL tables the entry frames read and write, the cache of
  entries in front of them (\<^verbatim>\<open>src/lib/util/lrucache.hpp\<close>), and the functions of \<^verbatim>\<open>src/ledger/EntryFrame.cpp\<close>
  on the cache. A table is an ordered map from its primary key to the other columns. Columns hold the
  decoded values: an account as its key bytes and not as the text of \<^verbatim>\<open>PubKeyUtils::toStrKey\<close>, binary data
  as bytes and not in base 64.
\<close>

section \<open>The cache of entries\<close>

text \<open>The items, most recently used first, and the maximal number of them.\<close>

record LruCache =
  cache_items :: "(LedgerKey \<times> LedgerEntry option) list"
  cache_max :: nat

definition lru_put :: "LedgerKey \<Rightarrow> LedgerEntry option \<Rightarrow> LruCache \<Rightarrow> LruCache" where
  "lru_put key v c =
     (let items = (key, v) # map_erase key (cache_items c)
      in c\<lparr>cache_items := (if length items > cache_max c then butlast items else items)\<rparr>)"

definition lru_get :: "LedgerKey \<Rightarrow> LruCache \<Rightarrow> scp_error + (LedgerEntry option \<times> LruCache)" where
  "lru_get key c =
     (case map_of (cache_items c) key of
        None \<Rightarrow> Inl (Runtime_Error ''There is no such key in cache'')
      | Some v \<Rightarrow> Inr (v, c\<lparr>cache_items := (key, v) # map_erase key (cache_items c)\<rparr>))"

definition lru_erase_if_exists :: "LedgerKey \<Rightarrow> LruCache \<Rightarrow> LruCache" where
  "lru_erase_if_exists key c = c\<lparr>cache_items := map_erase key (cache_items c)\<rparr>"

definition lru_exists :: "LedgerKey \<Rightarrow> LruCache \<Rightarrow> bool" where
  "lru_exists key c \<longleftrightarrow> map_of (cache_items c) key \<noteq> None"

section \<open>The tables\<close>

record AccountRow =
  ar_balance :: int64
  ar_seqnum :: uint64
  ar_numsubentries :: uint32
  ar_inflationdest :: "AccountID option"
  ar_homedomain :: bytes
  ar_accounttype :: uint32
  ar_thresholds :: "uint8 list"
  ar_flags :: uint32
  ar_lastmodified :: uint32

record TrustRow =
  tr_assettype :: nat
  tr_tlimit :: int64
  tr_balance :: int64
  tr_flags :: uint32
  tr_lastmodified :: uint32

text \<open>The columns of one asset of an offer: its type, and its code and issuer unless they are null.\<close>

type_synonym asset_columns = "nat \<times> bytes option \<times> AccountID option"

record OfferRow =
  or_sellerid :: AccountID
  or_selling :: asset_columns
  or_buying :: asset_columns
  or_amount :: int64
  or_pricen :: int32
  or_priced :: int32
  or_price :: rat
  or_flags :: uint32
  or_lastmodified :: uint32

record Database =
  tb_accounts :: "(AccountID \<times> AccountRow) list"
  tb_signers :: "((AccountID \<times> AccountID) \<times> (uint32 \<times> uint32)) list"
  tb_trustlines :: "((AccountID \<times> AccountID \<times> bytes) \<times> TrustRow) list"
  tb_offers :: "(uint64 \<times> OfferRow) list"
  tb_accountdata :: "((AccountID \<times> bytes) \<times> bytes) list"
  tb_reversed :: "(int64 \<times> uint32) list"
  mEntryCache :: LruCache

text \<open>
  \<^verbatim>\<open>INSERT\<close> fails on an existing primary key. \<^verbatim>\<open>UPDATE\<close> by primary key affects one row or none, and the
  frames throw unless it affected one. \<^verbatim>\<open>DELETE\<close> of no row succeeds.
\<close>

definition sql_insert :: "'k::linorder \<Rightarrow> 'r \<Rightarrow> ('k \<times> 'r) list \<Rightarrow> scp_error + ('k \<times> 'r) list" where
  "sql_insert k r t =
     (if map_of t k \<noteq> None then Inl (Runtime_Error ''constraint failed'') else Inr (map_put k r t))"

definition sql_update :: "'k::linorder \<Rightarrow> ('r \<Rightarrow> 'r) \<Rightarrow> ('k \<times> 'r) list \<Rightarrow> scp_error + ('k \<times> 'r) list" where
  "sql_update k f t =
     (case map_of t k of
        None \<Rightarrow> Inl (Runtime_Error ''Could not update data in SQL'')
      | Some r \<Rightarrow> Inr (map_put k (f r) t))"

section \<open>Programs over the ledger state\<close>

text \<open>
  The operations that change ledger entries work on the database and on the delta they are given. A
  program returns a value and the changed state, or fails.
\<close>

record Ledger =
  st_db :: Database
  st_delta :: LedgerDelta

type_synonym 'a led = "Ledger \<Rightarrow> scp_error + ('a \<times> Ledger)"

definition bindL :: "'a led \<Rightarrow> ('a \<Rightarrow> 'b led) \<Rightarrow> 'b led" where
  "bindL m f s = bindE (m s) (\<lambda>(x, s1). f x s1)"

definition returnL :: "'a \<Rightarrow> 'a led" where
  "returnL x s = Inr (x, s)"

definition throwL :: "scp_error \<Rightarrow> 'a led" where
  "throwL e s = Inl e"

definition liftE :: "scp_error + 'a \<Rightarrow> 'a led" where
  "liftE m s = bindE m (\<lambda>x. Inr (x, s))"

definition withDB :: "(Database \<Rightarrow> scp_error + ('a \<times> Database)) \<Rightarrow> 'a led" where
  "withDB f s = bindE (f (st_db s)) (\<lambda>(x, db). Inr (x, s\<lparr>st_db := db\<rparr>))"

definition onDelta :: "(LedgerDelta \<Rightarrow> scp_error + LedgerDelta) \<Rightarrow> unit led" where
  "onDelta f s = bindE (f (st_delta s)) (\<lambda>d. Inr ((), s\<lparr>st_delta := d\<rparr>))"

definition getDelta :: "LedgerDelta led" where
  "getDelta s = Inr (st_delta s, s)"

lemma bindL_Inr_iff: "bindL m f s = Inr y \<longleftrightarrow> (\<exists>x s1. m s = Inr (x, s1) \<and> f x s1 = Inr y)"
  by (auto simp: bindL_def bindE_Inr_iff)

lemma bindL_step: "m s = Inr (x, s1) \<Longrightarrow> bindL m f s = f x s1"
  by (simp add: bindL_def)

lemma bindL_Inl: "m s = Inl e \<Longrightarrow> bindL m f s = Inl e"
  by (simp add: bindL_def)

lemma led_simps [simp]:
  "returnL x s = Inr (x, s)"
  "throwL e s = Inl e"
  "liftE (Inr x) s = Inr (x, s)"
  "liftE (Inl e) s = Inl e"
  "getDelta s = Inr (st_delta s, s)"
  by (simp_all add: returnL_def throwL_def liftE_def getDelta_def)

lemma bindL_simps [simp]:
  "bindL (returnL x) f = f x"
  "bindL (throwL e) f = throwL e"
  "bindL (liftE (Inr x)) f = f x"
  "bindL (liftE (Inl e)) f = throwL e"
  "bindL getDelta g s = g (st_delta s) s"
  by (simp_all add: bindL_def fun_eq_iff)

lemma bindL_assoc: "bindL (bindL m f) g = bindL m (\<lambda>x. bindL (f x) g)"
  by (simp add: bindL_def fun_eq_iff bindE_assoc split_def)

text \<open>
  \<open>wpL m Q s\<close>: from \<open>s\<close> the program returns, with a value and a state that satisfy \<open>Q\<close>. This is the
  weakest precondition for total correctness; it distributes over sequencing.
\<close>

definition wpL :: "'a led \<Rightarrow> ('a \<Rightarrow> Ledger \<Rightarrow> bool) \<Rightarrow> Ledger \<Rightarrow> bool" where
  "wpL m Q s \<longleftrightarrow> (\<exists>x s1. m s = Inr (x, s1) \<and> Q x s1)"

named_theorems wp_simps "total-correctness weakest preconditions"

lemma wpL_bindL [wp_simps]: "wpL (bindL m f) Q s \<longleftrightarrow> wpL m (\<lambda>x. wpL (f x) Q) s"
  by (auto simp: wpL_def bindL_Inr_iff)

lemma wpL_basic [simp, wp_simps]:
  "wpL (returnL x) Q s \<longleftrightarrow> Q x s"
  "\<not> wpL (throwL e) Q s"
  "wpL (liftE (Inr x)) Q s \<longleftrightarrow> Q x s"
  "wpL getDelta R s \<longleftrightarrow> R (st_delta s) s"
  by (simp_all add: wpL_def)

lemma wpL_liftE [wp_simps]: "wpL (liftE m) Q s \<longleftrightarrow> (\<exists>x. m = Inr x \<and> Q x s)"
  by (cases m) (simp_all add: wpL_def)

lemma wpL_if [wp_simps]: "wpL (if b then m else m') Q s \<longleftrightarrow> (if b then wpL m Q s else wpL m' Q s)"
  by simp

lemma wpL_mono: "wpL m Q s \<Longrightarrow> (\<And>x s1. Q x s1 \<Longrightarrow> R x s1) \<Longrightarrow> wpL m R s"
  by (auto simp: wpL_def)

lemma wpLI: "m s = Inr (x, s1) \<Longrightarrow> Q x s1 \<Longrightarrow> wpL m Q s"
  by (auto simp: wpL_def)

section \<open>The cache functions of the entry frames\<close>

definition flushCachedEntry :: "LedgerKey \<Rightarrow> Database \<Rightarrow> Database" where
  "flushCachedEntry key db = db\<lparr>mEntryCache := lru_erase_if_exists key (mEntryCache db)\<rparr>"

definition cachedEntryExists :: "LedgerKey \<Rightarrow> Database \<Rightarrow> bool" where
  "cachedEntryExists key db = lru_exists key (mEntryCache db)"

definition getCachedEntry :: "LedgerKey \<Rightarrow> Database \<Rightarrow> scp_error + (LedgerEntry option \<times> Database)" where
  "getCachedEntry key db =
     bindE (lru_get key (mEntryCache db)) (\<lambda>(p, c). Inr (p, db\<lparr>mEntryCache := c\<rparr>))"

definition putCachedEntry :: "LedgerKey \<Rightarrow> LedgerEntry option \<Rightarrow> Database \<Rightarrow> Database" where
  "putCachedEntry key p db = db\<lparr>mEntryCache := lru_put key p (mEntryCache db)\<rparr>"

text \<open>\<^verbatim>\<open>touch\<close>: the stamp an entry gets when it is stored under a delta.\<close>

definition touch :: "LedgerDelta \<Rightarrow> uint32 \<Rightarrow> scp_error + uint32" where
  "touch d lastModified =
     (if mUpdateLastModified d
      then bindE (assertE (lh_ledgerSeq (mCurrentHeader d) \<noteq> 0)) (\<lambda>_. Inr (lh_ledgerSeq (mCurrentHeader d)))
      else Inr lastModified)"

text \<open>What the cache holds after each of them.\<close>

definition cache_of :: "Database \<Rightarrow> LedgerKey \<Rightarrow> LedgerEntry option option" where
  "cache_of db = map_of (cache_items (mEntryCache db))"

text \<open>Only accounts and trust lines are ever put into the cache, and what it holds is what the map of entries holds.\<close>

definition cacheable :: "LedgerKey \<Rightarrow> bool" where
  "cacheable k = (case k of AccountKey _ \<Rightarrow> True | TrustLineKey _ _ \<Rightarrow> True | _ \<Rightarrow> False)"

definition cache_ok :: "(LedgerKey \<Rightarrow> LedgerEntry option) \<Rightarrow> Database \<Rightarrow> bool" where
  "cache_ok view db \<longleftrightarrow>
     distinct (map fst (cache_items (mEntryCache db))) \<and> (\<forall>k v. cache_of db k = Some v \<longrightarrow> cacheable k \<and> view k = v)"

lemma cacheable_simps [simp]:
  "cacheable (AccountKey i)" "cacheable (TrustLineKey a x)" "\<not> cacheable (OfferKey a j)" "\<not> cacheable (DataKey a n)"
  "\<not> cacheable (ReversedPaymentKey r)"
  by (simp_all add: cacheable_def)

lemma distinct_map_erase: "distinct (map fst m) \<Longrightarrow> distinct (map fst (map_erase k m)) \<and> k \<notin> set (map fst (map_erase k m))"
  unfolding map_erase_def by (induction m) auto

lemma map_of_butlast: "distinct (map fst m) \<Longrightarrow> map_of (butlast m) k = Some v \<Longrightarrow> map_of m k = Some v"
  by (induction m) (auto split: if_splits dest!: map_of_SomeD in_set_butlastD)

lemma distinct_butlast_fst: "distinct (map fst m) \<Longrightarrow> distinct (map fst (butlast m))"
  by (simp add: map_butlast distinct_butlast)

lemma cache_ok_flush: "cache_ok view db \<Longrightarrow> (\<And>k. k \<noteq> key \<Longrightarrow> view' k = view k) \<Longrightarrow> cache_ok view' (flushCachedEntry key db)"
  by (auto simp: cache_ok_def cache_of_def flushCachedEntry_def lru_erase_if_exists_def distinct_map_erase split: if_splits)

lemma cache_ok_put:
  assumes "cache_ok view db" "view key = v" "cacheable key"
  shows "cache_ok view (putCachedEntry key v db)"
proof -
  let ?items = "(key, v) # map_erase key (cache_items (mEntryCache db))"
  have d: "distinct (map fst ?items)"
    using assms(1) distinct_map_erase [of "cache_items (mEntryCache db)" key] by (simp add: cache_ok_def)
  have view: "cacheable k \<and> view k = w" if "map_of ?items k = Some w" for k w
    using that assms by (auto simp: cache_ok_def cache_of_def split: if_splits)
  then have "cacheable k \<and> view k = w" if "map_of (butlast ?items) k = Some w" for k w
    using map_of_butlast [OF d that] by blast
  with view d distinct_butlast_fst [OF d] show ?thesis
    unfolding cache_ok_def cache_of_def putCachedEntry_def lru_put_def Let_def
    by (simp del: butlast.simps map_of.simps add: map_of_eq_Some_iff)
qed

lemma cache_ok_get:
  assumes "cache_ok view db" "cachedEntryExists key db"
  shows "\<exists>c. getCachedEntry key db = Inr (view key, db\<lparr>mEntryCache := c\<rparr>) \<and> cache_ok view (db\<lparr>mEntryCache := c\<rparr>)"
proof -
  from assms(2) obtain v where v: "map_of (cache_items (mEntryCache db)) key = Some v"
    by (auto simp: cachedEntryExists_def lru_exists_def)
  then have "view key = v" using assms(1) by (simp add: cache_ok_def cache_of_def)
  with v assms(1) distinct_map_erase [of "cache_items (mEntryCache db)" key] show ?thesis
    by (auto simp: getCachedEntry_def lru_get_def cache_ok_def cache_of_def split: if_splits)
qed

end
