(* ===== verification/AccountFrame.thy ===== *)
theory AccountFrame
  imports Database
begin

text \<open>
  \<^verbatim>\<open>src/ledger/AccountFrame.cpp\<close>: an account entry, its signers, which live in a table of their own, and how
  it is loaded and stored. A frame is a value here: two frames loaded for the same account are two copies,
  as in the program. The key of a frame is computed from its entry, which never changes its key while the
  frame is in use.
\<close>

unbundle bit_operations_syntax

section \<open>The frame\<close>

record AccountFrame =
  af_account :: AccountEntry
  af_lastModified :: uint32
  mUpdateSigners :: bool

definition account_entry :: "AccountFrame \<Rightarrow> LedgerEntry" where
  "account_entry f = \<lparr>lastModifiedLedgerSeq = af_lastModified f, edata = AccountData (af_account f)\<rparr>"

definition account_getID :: "AccountFrame \<Rightarrow> AccountID" where
  "account_getID f = a_accountID (af_account f)"

text \<open>The constructors: from an identifier, from a ledger entry, and for authentication only.\<close>

definition AccountFrame_id :: "AccountID \<Rightarrow> AccountFrame" where
  "AccountFrame_id i =
     \<lparr>af_account = \<lparr>a_accountID = i, a_balance = 0, a_seqNum = 0, a_numSubEntries = 0, a_inflationDest = None,
        a_flags = 0, a_homeDomain = [], a_accountType = 0, a_thresholds = [1, 0, 0, 0], a_signers = []\<rparr>,
      af_lastModified = 0, mUpdateSigners = True\<rparr>"

definition AccountFrame_entry :: "LedgerEntry \<Rightarrow> scp_error + AccountFrame" where
  "AccountFrame_entry from =
     (case edata from of
        AccountData a \<Rightarrow> Inr \<lparr>af_account = a, af_lastModified = lastModifiedLedgerSeq from, mUpdateSigners = True\<rparr>
      | _ \<Rightarrow> Inl (Runtime_Error ''wrong union''))"

definition makeAuthOnlyAccount :: "AccountID \<Rightarrow> AccountFrame" where
  "makeAuthOnlyAccount i = (AccountFrame_id i)\<lparr>af_account := (af_account (AccountFrame_id i))\<lparr>a_balance := INT64_MIN\<rparr>\<rparr>"

definition signerCompare :: "Signer \<Rightarrow> Signer \<Rightarrow> bool" where
  "signerCompare s1 s2 \<longleftrightarrow> sg_pubKey s1 < sg_pubKey s2"

definition account_normalize :: "AccountFrame \<Rightarrow> AccountFrame" where
  "account_normalize f = f\<lparr>af_account := (af_account f)\<lparr>a_signers := sort_key sg_pubKey (a_signers (af_account f))\<rparr>\<rparr>"

definition setUpdateSigners :: "AccountFrame \<Rightarrow> AccountFrame" where
  "setUpdateSigners f = (account_normalize f)\<lparr>mUpdateSigners := True\<rparr>"

text \<open>\<^verbatim>\<open>std::is_sorted\<close>: no element is smaller than the one before it.\<close>

fun is_sorted_by :: "('a \<Rightarrow> 'a \<Rightarrow> bool) \<Rightarrow> 'a list \<Rightarrow> bool" where
  "is_sorted_by cmp (x # y # xs) = (\<not> cmp y x \<and> is_sorted_by cmp (y # xs))"
| "is_sorted_by cmp _ = True"

definition account_isValid :: "AccountEntry \<Rightarrow> bool" where
  "account_isValid a \<longleftrightarrow> isString32Valid (a_homeDomain a) \<and> a_balance a \<ge> 0 \<and> is_sorted_by signerCompare (a_signers a)"

definition isAuthRequired :: "AccountFrame \<Rightarrow> bool" where
  "isAuthRequired f \<longleftrightarrow> a_flags (af_account f) AND 1 \<noteq> 0"

definition isImmutableAuth :: "AccountFrame \<Rightarrow> bool" where
  "isImmutableAuth f \<longleftrightarrow> a_flags (af_account f) AND 4 \<noteq> 0"

section \<open>The reserve\<close>

text \<open>
  \<^verbatim>\<open>LedgerManagerImpl::getMinBalance\<close>: the product of two 32-bit numbers is computed in 32 bits and then
  widened.
\<close>

definition getMinBalance :: "LedgerHeader \<Rightarrow> uint32 \<Rightarrow> int64" where
  "getMinBalance lm ownerCount = uint ((2 + ownerCount) * lh_baseReserve lm)"

definition getMinimumBalance :: "LedgerHeader \<Rightarrow> AccountFrame \<Rightarrow> int64" where
  "getMinimumBalance lm f = getMinBalance lm (a_numSubEntries (af_account f))"

definition getBalanceAboveReserve :: "LedgerHeader \<Rightarrow> AccountFrame \<Rightarrow> scp_error + int64" where
  "getBalanceAboveReserve lm f =
     bindE (i64 (a_balance (af_account f) - getMinBalance lm (a_numSubEntries (af_account f)))) (\<lambda>avail.
       Inr (if avail < 0 then 0 else avail))"

text \<open>The sum is computed as an unsigned number and then read as a signed one.\<close>

definition addNumEntries :: "LedgerHeader \<Rightarrow> int \<Rightarrow> AccountFrame \<Rightarrow> scp_error + (bool \<times> AccountFrame)" where
  "addNumEntries lm n f =
     (let newEntriesCount = sint (a_numSubEntries (af_account f) + word_of_int n)
      in if newEntriesCount < 0 then Inl (Runtime_Error ''invalid account state'')
         else if n > 0 \<and> a_balance (af_account f) < getMinBalance lm (word_of_int newEntriesCount) then Inr (False, f)
         else Inr (True, f\<lparr>af_account := (af_account f)\<lparr>a_numSubEntries := word_of_int newEntriesCount\<rparr>\<rparr>))"

definition getMasterWeight :: "AccountFrame \<Rightarrow> uint32" where
  "getMasterWeight f = ucast (a_thresholds (af_account f) ! 0)"

definition getLowThreshold :: "AccountFrame \<Rightarrow> uint32" where
  "getLowThreshold f = ucast (a_thresholds (af_account f) ! 1)"

definition getMediumThreshold :: "AccountFrame \<Rightarrow> uint32" where
  "getMediumThreshold f = ucast (a_thresholds (af_account f) ! 2)"

definition getHighThreshold :: "AccountFrame \<Rightarrow> uint32" where
  "getHighThreshold f = ucast (a_thresholds (af_account f) ! 3)"

section \<open>Loading\<close>

definition signer_rows :: "AccountID \<Rightarrow> ((AccountID \<times> AccountID) \<times> (uint32 \<times> uint32)) list \<Rightarrow> Signer list" where
  "signer_rows i t =
     map (\<lambda>((_, p), (w, ty)). \<lparr>sg_pubKey = p, sg_weight = w, sg_signerType = ty\<rparr>) (filter (\<lambda>((a, _), _). a = i) t)"

definition loadSigners :: "AccountID \<Rightarrow> Database \<Rightarrow> Signer list" where
  "loadSigners i db = sort_key sg_pubKey (signer_rows i (tb_signers db))"

definition account_of_row :: "AccountID \<Rightarrow> AccountRow \<Rightarrow> Signer list \<Rightarrow> AccountEntry" where
  "account_of_row i r signers =
     \<lparr>a_accountID = i, a_balance = ar_balance r, a_seqNum = ar_seqnum r, a_numSubEntries = ar_numsubentries r,
      a_inflationDest = ar_inflationdest r, a_flags = ar_flags r, a_homeDomain = ar_homedomain r,
      a_accountType = ar_accounttype r, a_thresholds = ar_thresholds r, a_signers = signers\<rparr>"

definition loadAccount_db :: "AccountID \<Rightarrow> Database \<Rightarrow> scp_error + (AccountFrame option \<times> Database)" where
  "loadAccount_db i db =
     (let key = AccountKey i
      in if cachedEntryExists key db
         then bindE (getCachedEntry key db) (\<lambda>(p, db1). case p of
                None \<Rightarrow> Inr (None, db1)
              | Some e \<Rightarrow> bindE (AccountFrame_entry e) (\<lambda>f. Inr (Some f, db1)))
         else case map_of (tb_accounts db) i of
                None \<Rightarrow> Inr (None, putCachedEntry key None db)
              | Some r \<Rightarrow>
                  let account = account_of_row i r (if ar_numsubentries r \<noteq> 0 then loadSigners i db else []);
                      res = account_normalize \<lparr>af_account = account, af_lastModified = ar_lastmodified r, mUpdateSigners = False\<rparr>
                  in bindE (assertE (account_isValid (af_account res))) (\<lambda>_.
                       Inr (Some res, putCachedEntry key (Some (account_entry res)) db)))"

definition loadAccount :: "AccountID \<Rightarrow> AccountFrame option led" where
  "loadAccount i =
     bindL (withDB (loadAccount_db i)) (\<lambda>a. case a of
       None \<Rightarrow> returnL None
     | Some f \<Rightarrow> bindL (onDelta (recordEntry (account_entry f))) (\<lambda>_. returnL (Some f)))"

text \<open>A read of the cache moves an item to its front, so the state changes there too.\<close>

definition account_exists :: "AccountID \<Rightarrow> Database \<Rightarrow> scp_error + (bool \<times> Database)" where
  "account_exists i db =
     (let key = AccountKey i; row = map_of (tb_accounts db) i \<noteq> None
      in if cachedEntryExists key db
         then bindE (getCachedEntry key db) (\<lambda>(p, db1). Inr (p \<noteq> None \<or> row, db1))
         else Inr (row, db))"

section \<open>Storing\<close>

definition row_of_account :: "AccountFrame \<Rightarrow> AccountRow" where
  "row_of_account f =
     (let a = af_account f in
      \<lparr>ar_balance = a_balance a, ar_seqnum = a_seqNum a, ar_numsubentries = a_numSubEntries a,
       ar_inflationdest = a_inflationDest a, ar_homedomain = a_homeDomain a, ar_accounttype = a_accountType a,
       ar_thresholds = a_thresholds a, ar_flags = a_flags a, ar_lastmodified = af_lastModified f\<rparr>)"

definition sql_delete_one :: "'k \<Rightarrow> ('k \<times> 'r) list \<Rightarrow> scp_error + ('k \<times> 'r) list" where
  "sql_delete_one k t =
     (if map_of t k = None then Inl (Runtime_Error ''Could not update data in SQL'') else Inr (map_erase k t))"

text \<open>The walk over the new and the stored signers, both from the smallest to the biggest key.\<close>

fun signers_walk :: "AccountID \<Rightarrow> Signer list \<Rightarrow> Signer list \<Rightarrow> bool \<Rightarrow>
    ((AccountID \<times> AccountID) \<times> (uint32 \<times> uint32)) list \<Rightarrow>
    scp_error + (bool \<times> ((AccountID \<times> AccountID) \<times> (uint32 \<times> uint32)) list)" where
  "signers_walk i [] [] changed t = Inr (changed, t)"
| "signers_walk i (n # ns) [] changed t =
     bindE (sql_insert (i, sg_pubKey n) (sg_weight n, sg_signerType n) t) (\<lambda>t1. signers_walk i ns [] True t1)"
| "signers_walk i [] (q # qs) changed t =
     bindE (sql_delete_one (i, sg_pubKey q) t) (\<lambda>t1. signers_walk i [] qs True t1)"
| "signers_walk i (n # ns) (q # qs) changed t =
     (if sg_pubKey n = sg_pubKey q
      then if sg_weight n \<noteq> sg_weight q
           then bindE (sql_update (i, sg_pubKey n) (\<lambda>_. (sg_weight n, sg_signerType n)) t) (\<lambda>t1. signers_walk i ns qs True t1)
           else signers_walk i ns qs changed t
      else if sg_pubKey n < sg_pubKey q
      then bindE (sql_insert (i, sg_pubKey n) (sg_weight n, sg_signerType n) t) (\<lambda>t1. signers_walk i ns (q # qs) True t1)
      else bindE (sql_delete_one (i, sg_pubKey q) t) (\<lambda>t1. signers_walk i (n # ns) qs True t1))"

definition applySigners :: "bool \<Rightarrow> AccountFrame \<Rightarrow> Database \<Rightarrow> scp_error + (unit \<times> Database)" where
  "applySigners ins f db =
     bindE (signers_walk (account_getID f) (a_signers (af_account f))
             (if ins then [] else loadSigners (account_getID f) db) False (tb_signers db)) (\<lambda>(changed, t).
       let db1 = db\<lparr>tb_signers := t\<rparr>
       in Inr ((), if changed then flushCachedEntry (AccountKey (account_getID f)) db1 else db1))"

definition account_storeUpdate :: "bool \<Rightarrow> AccountFrame \<Rightarrow> AccountFrame led" where
  "account_storeUpdate ins f =
     bindL (liftE (assertE (account_isValid (af_account f)))) (\<lambda>_.
     bindL getDelta (\<lambda>d.
     bindL (liftE (touch d (af_lastModified f))) (\<lambda>stamp.
     let f1 = f\<lparr>af_lastModified := stamp\<rparr>; i = account_getID f1; entry = account_entry f1 in
     bindL (withDB (\<lambda>db.
       let db1 = flushCachedEntry (AccountKey i) db
       in bindE (if ins then sql_insert i (row_of_account f1) (tb_accounts db1)
                 else sql_update i (\<lambda>_. row_of_account f1) (tb_accounts db1)) (\<lambda>t.
            Inr ((), db1\<lparr>tb_accounts := t\<rparr>)))) (\<lambda>_.
     bindL (onDelta (if ins then addEntry entry else modEntry entry)) (\<lambda>_.
     bindL (if mUpdateSigners f1 then withDB (applySigners ins f1) else returnL ()) (\<lambda>_.
       returnL f1))))))"

definition account_storeChange :: "AccountFrame \<Rightarrow> AccountFrame led" where
  "account_storeChange f = account_storeUpdate False f"

definition account_storeAdd :: "AccountFrame \<Rightarrow> AccountFrame led" where
  "account_storeAdd f = account_storeUpdate True f"

definition account_storeDelete :: "AccountID \<Rightarrow> unit led" where
  "account_storeDelete i =
     bindL (withDB (\<lambda>db.
       let db1 = flushCachedEntry (AccountKey i) db
       in Inr ((), db1\<lparr>tb_accounts := map_erase i (tb_accounts db1),
                       tb_signers := filter (\<lambda>((a, _), _). a \<noteq> i) (tb_signers db1)\<rparr>))) (\<lambda>_.
     onDelta (deleteEntry (AccountKey i)))"

end
