(* ===== verification/TrustFrame.thy ===== *)
theory TrustFrame
  imports AccountFrame
begin

text \<open>
  \<^verbatim>\<open>src/ledger/TrustFrame.cpp\<close>: a trust line, its balance and limit, and how it is loaded and stored. The
  primary key of the table is the account, the issuer and the code of the asset as a string.
\<close>

section \<open>The frame\<close>

record TrustFrame =
  tf_line :: TrustLineEntry
  tf_lastModified :: uint32
  mIsIssuer :: bool

definition trust_entry :: "TrustFrame \<Rightarrow> LedgerEntry" where
  "trust_entry f = \<lparr>lastModifiedLedgerSeq = tf_lastModified f, edata = TrustLineData (tf_line f)\<rparr>"

definition trust_key :: "TrustFrame \<Rightarrow> LedgerKey" where
  "trust_key f = TrustLineKey (t_accountID (tf_line f)) (t_asset (tf_line f))"

definition trust_isValid :: "TrustLineEntry \<Rightarrow> bool" where
  "trust_isValid trl \<longleftrightarrow>
     t_asset trl \<noteq> AssetNative \<and> isAssetValid (t_asset trl) \<and>
     (t_balance trl \<ge> 0 \<or> t_accountID trl = issuer (t_asset trl)) \<and>
     t_limit trl > 0 \<and> t_balance trl \<le> t_limit trl"

definition TrustFrame_entry :: "LedgerEntry \<Rightarrow> scp_error + TrustFrame" where
  "TrustFrame_entry from =
     (case edata from of
        TrustLineData t \<Rightarrow>
          bindE (assertE (trust_isValid t)) (\<lambda>_.
            Inr \<lparr>tf_line = t, tf_lastModified = lastModifiedLedgerSeq from, mIsIssuer = False\<rparr>)
      | _ \<Rightarrow> Inl (Runtime_Error ''wrong union''))"

text \<open>A new frame, as \<^verbatim>\<open>make_shared<TrustFrame>()\<close> followed by setting the fields of the line.\<close>

definition TrustFrame_new :: "AccountID \<Rightarrow> Asset \<Rightarrow> int64 \<Rightarrow> TrustFrame" where
  "TrustFrame_new acc asset limit =
     \<lparr>tf_line = \<lparr>t_accountID = acc, t_asset = asset, t_balance = 0, t_limit = limit, t_flags = 0\<rparr>,
      tf_lastModified = 0, mIsIssuer = False\<rparr>"

definition createIssuerFrame :: "Asset \<Rightarrow> scp_error + TrustFrame" where
  "createIssuerFrame asset =
     bindE (getIssuer asset) (\<lambda>i.
       Inr \<lparr>tf_line = \<lparr>t_accountID = i, t_asset = asset, t_balance = INT64_MAX, t_limit = INT64_MAX, t_flags = 1\<rparr>,
            tf_lastModified = 0, mIsIssuer = True\<rparr>)"

definition trust_getBalance :: "TrustFrame \<Rightarrow> scp_error + int64" where
  "trust_getBalance f = bindE (assertE (trust_isValid (tf_line f))) (\<lambda>_. Inr (t_balance (tf_line f)))"

definition isAuthorized :: "TrustFrame \<Rightarrow> bool" where
  "isAuthorized f \<longleftrightarrow> t_flags (tf_line f) AND 1 \<noteq> 0"

definition setAuthorized :: "bool \<Rightarrow> TrustFrame \<Rightarrow> TrustFrame" where
  "setAuthorized authorized f =
     f\<lparr>tf_line := (tf_line f)\<lparr>t_flags := (if authorized then t_flags (tf_line f) OR 1 else t_flags (tf_line f) AND NOT 1)\<rparr>\<rparr>"

definition addBalance :: "int64 \<Rightarrow> TrustFrame \<Rightarrow> scp_error + (bool \<times> TrustFrame)" where
  "addBalance amount f =
     (let trl = tf_line f in
      if amount = 0 then Inr (True, f)
      else if \<not> isAuthorized f then Inr (False, f)
      else bindE (i64 (amount + t_balance trl)) (\<lambda>b.
        if t_limit trl < b then Inr (False, f)
        else bindE (if b < 0 then bindE (getIssuer (t_asset trl)) (\<lambda>i. Inr (t_accountID trl = i)) else Inr True) (\<lambda>allowed.
          if \<not> allowed then Inr (False, f)
          else Inr (True, f\<lparr>tf_line := trl\<lparr>t_balance := b\<rparr>\<rparr>))))"

definition getMaxAmountReceive :: "TrustFrame \<Rightarrow> scp_error + int64" where
  "getMaxAmountReceive f =
     (if isAuthorized f then i64 (t_limit (tf_line f) - t_balance (tf_line f)) else Inr 0)"

section \<open>Loading\<close>

text \<open>\<^verbatim>\<open>getKeyFields\<close>; the strings of the native asset stay empty.\<close>

definition getKeyFields :: "AccountID \<Rightarrow> Asset \<Rightarrow> AccountID \<times> AccountID \<times> bytes" where
  "getKeyFields acc asset =
     (case asset of AssetNative \<Rightarrow> (acc, [], [])
      | AlphaNum4 code i \<Rightarrow> (acc, i, assetCodeToStr code)
      | AlphaNum12 code i \<Rightarrow> (acc, i, assetCodeToStr code))"

text \<open>The asset of a row; the type column of a row that was stored is 1 or 2.\<close>

definition asset_of_row :: "nat \<Rightarrow> AccountID \<Rightarrow> bytes \<Rightarrow> Asset" where
  "asset_of_row ty i str =
     (if ty = 1 then AlphaNum4 (strToAssetCode 4 str) i
      else if ty = 2 then AlphaNum12 (strToAssetCode 12 str) i
      else AssetNative)"

definition trust_of_row :: "AccountID \<times> AccountID \<times> bytes \<Rightarrow> TrustRow \<Rightarrow> TrustLineEntry" where
  "trust_of_row k r =
     (case k of (acc, i, str) \<Rightarrow>
        \<lparr>t_accountID = acc, t_asset = asset_of_row (tr_assettype r) i str, t_balance = tr_balance r,
         t_limit = tr_tlimit r, t_flags = tr_flags r\<rparr>)"

text \<open>The result says whether the line came from the cache.\<close>

definition loadTrustLine_db ::
  "AccountID \<Rightarrow> Asset \<Rightarrow> Database \<Rightarrow> scp_error + ((bool \<times> TrustFrame option) \<times> Database)"
where
  "loadTrustLine_db acc asset db =
     (if asset = AssetNative then Inl (Runtime_Error ''XLM TrustLine?'')
      else let key = TrustLineKey acc asset; fields = getKeyFields acc asset
           in if cachedEntryExists key db
              then bindE (getCachedEntry key db) (\<lambda>(p, db1). case p of
                     None \<Rightarrow> Inr ((True, None), db1)
                   | Some e \<Rightarrow> bindE (TrustFrame_entry e) (\<lambda>f. Inr ((True, Some f), db1)))
              else case map_of (tb_trustlines db) fields of
                     None \<Rightarrow> Inr ((False, None), putCachedEntry key None db)
                   | Some r \<Rightarrow>
                       let trl = trust_of_row fields r;
                           le = \<lparr>lastModifiedLedgerSeq = tr_lastmodified r, edata = TrustLineData trl\<rparr>
                       in if \<not> trust_isValid trl then Inl (Runtime_Error ''Invalid TrustEntry'')
                          else bindE (TrustFrame_entry le) (\<lambda>f.
                                 Inr ((False, Some f), putCachedEntry (trust_key f) (Some (trust_entry f)) db)))"

text \<open>With a delta, a line read from the table is recorded in it; a line from the cache is not.\<close>

definition loadTrustLine :: "AccountID \<Rightarrow> Asset \<Rightarrow> TrustFrame option led" where
  "loadTrustLine acc asset =
     bindL (withDB (loadTrustLine_db acc asset)) (\<lambda>(cached, line). case line of
       None \<Rightarrow> returnL None
     | Some f \<Rightarrow> if cached then returnL (Some f)
                 else bindL (onDelta (recordEntry (trust_entry f))) (\<lambda>_. returnL (Some f)))"

definition loadTrustLineIssuer :: "AccountID \<Rightarrow> Asset \<Rightarrow> (TrustFrame option \<times> AccountFrame option) led" where
  "loadTrustLineIssuer acc asset =
     bindL (loadTrustLine acc asset) (\<lambda>line.
     bindL (liftE (getIssuer asset)) (\<lambda>i.
     bindL (loadAccount i) (\<lambda>a.
       returnL (line, a))))"

definition trust_exists :: "AccountID \<Rightarrow> Asset \<Rightarrow> Database \<Rightarrow> scp_error + (bool \<times> Database)" where
  "trust_exists acc asset db =
     (let key = TrustLineKey acc asset; row = map_of (tb_trustlines db) (getKeyFields acc asset) \<noteq> None
      in if cachedEntryExists key db
         then bindE (getCachedEntry key db) (\<lambda>(p, db1). Inr (p \<noteq> None \<or> row, db1))
         else Inr (row, db))"

section \<open>Storing\<close>

definition trust_store :: "bool \<Rightarrow> TrustFrame \<Rightarrow> TrustFrame led" where
  "trust_store ins f =
     (if \<not> trust_isValid (tf_line f) then throwL (Runtime_Error ''Invalid TrustEntry'')
      else bindL (withDB (\<lambda>db. Inr ((), flushCachedEntry (trust_key f) db))) (\<lambda>_.
        if mIsIssuer f then returnL f
        else bindL getDelta (\<lambda>d.
             bindL (liftE (touch d (tf_lastModified f))) (\<lambda>stamp.
             let f1 = f\<lparr>tf_lastModified := stamp\<rparr>; trl = tf_line f1; fields = getKeyFields (t_accountID trl) (t_asset trl);
                 row = \<lparr>tr_assettype = assetType (t_asset trl), tr_tlimit = t_limit trl, tr_balance = t_balance trl,
                        tr_flags = t_flags trl, tr_lastmodified = stamp\<rparr>
             in bindL (withDB (\<lambda>db.
                  bindE (if ins then sql_insert fields row (tb_trustlines db)
                         else sql_update fields (\<lambda>r. row\<lparr>tr_assettype := tr_assettype r\<rparr>) (tb_trustlines db)) (\<lambda>t.
                    Inr ((), db\<lparr>tb_trustlines := t\<rparr>)))) (\<lambda>_.
                bindL (onDelta (if ins then addEntry (trust_entry f1) else modEntry (trust_entry f1))) (\<lambda>_.
                  returnL f1))))))"

definition trust_storeChange :: "TrustFrame \<Rightarrow> TrustFrame led" where
  "trust_storeChange f = trust_store False f"

definition trust_storeAdd :: "TrustFrame \<Rightarrow> TrustFrame led" where
  "trust_storeAdd f = trust_store True f"

definition trust_storeDelete :: "AccountID \<Rightarrow> Asset \<Rightarrow> unit led" where
  "trust_storeDelete acc asset =
     bindL (withDB (\<lambda>db.
       let db1 = flushCachedEntry (TrustLineKey acc asset) db
       in Inr ((), db1\<lparr>tb_trustlines := map_erase (getKeyFields acc asset) (tb_trustlines db1)\<rparr>))) (\<lambda>_.
     onDelta (deleteEntry (TrustLineKey acc asset)))"

end
