(* ===== verification/OfferFrame.thy ===== *)
theory OfferFrame
  imports TrustFrame
begin

text \<open>
  \<^verbatim>\<open>src/ledger/OfferFrame.cpp\<close>: offers and the order book. Offers are not cached. The column \<^verbatim>\<open>price\<close>, by
  which the book is ordered, is the quotient of the price as a floating-point number: \<open>fdiv\<close> is the
  division of \<^verbatim>\<open>double\<close>s, a parameter of the model.
\<close>

record OfferFrame =
  of_offer :: OfferEntry
  of_lastModified :: uint32

definition offer_entry :: "OfferFrame \<Rightarrow> LedgerEntry" where
  "offer_entry f = \<lparr>lastModifiedLedgerSeq = of_lastModified f, edata = OfferData (of_offer f)\<rparr>"

definition OfferFrame_entry :: "LedgerEntry \<Rightarrow> scp_error + OfferFrame" where
  "OfferFrame_entry from =
     (case edata from of
        OfferData x \<Rightarrow> Inr \<lparr>of_offer = x, of_lastModified = lastModifiedLedgerSeq from\<rparr>
      | _ \<Rightarrow> Inl (Runtime_Error ''wrong union''))"

definition offer_isValid :: "OfferEntry \<Rightarrow> bool" where
  "offer_isValid x \<longleftrightarrow> isAssetValid (o_buying x) \<and> isAssetValid (o_selling x)"

section \<open>Loading\<close>

definition columns_of_asset :: "Asset \<Rightarrow> asset_columns" where
  "columns_of_asset asset =
     (case asset of AssetNative \<Rightarrow> (0, None, None)
      | AlphaNum4 code i \<Rightarrow> (1, Some (assetCodeToStr code), Some i)
      | AlphaNum12 code i \<Rightarrow> (2, Some (assetCodeToStr code), Some i))"

definition asset_of_columns :: "asset_columns \<Rightarrow> scp_error + Asset" where
  "asset_of_columns cols =
     (case cols of (ty, code, i) \<Rightarrow>
        if ty > 2 then Inl (Runtime_Error ''bad database state'')
        else if ty = 0 then Inr AssetNative
        else case (code, i) of
               (Some c, Some iss) \<Rightarrow> Inr (if ty = 2 then AlphaNum12 (strToAssetCode 12 c) iss else AlphaNum4 (strToAssetCode 4 c) iss)
             | _ \<Rightarrow> Inl (Runtime_Error ''bad database state''))"

text \<open>One round of the loop of \<^verbatim>\<open>loadOffers\<close>, and the whole loop.\<close>

definition offer_of_row :: "uint64 \<times> OfferRow \<Rightarrow> scp_error + OfferFrame" where
  "offer_of_row row =
     (case row of (i, r) \<Rightarrow>
        bindE (asset_of_columns (or_selling r)) (\<lambda>selling.
        bindE (asset_of_columns (or_buying r)) (\<lambda>buying.
          let x = \<lparr>o_sellerID = or_sellerid r, o_offerID = i, o_selling = selling, o_buying = buying, o_amount = or_amount r,
                   o_price = \<lparr>price_n = or_pricen r, price_d = or_priced r\<rparr>, o_flags = or_flags r\<rparr>
          in if \<not> offer_isValid x then Inl (Runtime_Error ''Invalid asset'')
             else Inr \<lparr>of_offer = x, of_lastModified = or_lastmodified r\<rparr>)))"

fun mapE :: "('a \<Rightarrow> 'e + 'b) \<Rightarrow> 'a list \<Rightarrow> 'e + 'b list" where
  "mapE f [] = Inr []"
| "mapE f (x # xs) = bindE (f x) (\<lambda>y. bindE (mapE f xs) (\<lambda>ys. Inr (y # ys)))"

definition loadOffers :: "(uint64 \<times> OfferRow) list \<Rightarrow> scp_error + OfferFrame list" where
  "loadOffers rows = mapE offer_of_row rows"

definition loadOffer_db :: "AccountID \<Rightarrow> uint64 \<Rightarrow> Database \<Rightarrow> scp_error + OfferFrame option" where
  "loadOffer_db seller i db =
     bindE (loadOffers (filter (\<lambda>(k, r). or_sellerid r = seller \<and> k = i) (tb_offers db))) (\<lambda>fs.
       Inr (if fs = [] then None else Some (last fs)))"

definition loadOffer :: "AccountID \<Rightarrow> uint64 \<Rightarrow> OfferFrame option led" where
  "loadOffer seller i =
     bindL (withDB (\<lambda>db. bindE (loadOffer_db seller i db) (\<lambda>x. Inr (x, db)))) (\<lambda>x. case x of
       None \<Rightarrow> returnL None
     | Some f \<Rightarrow> bindL (onDelta (recordEntry (offer_entry f))) (\<lambda>_. returnL (Some f)))"

text \<open>The \<^verbatim>\<open>WHERE\<close> conditions on the assets of \<^verbatim>\<open>loadBestOffers\<close>.\<close>

definition asset_matches :: "Asset \<Rightarrow> asset_columns \<Rightarrow> bool" where
  "asset_matches asset cols =
     (case (asset, cols) of
        (AssetNative, (ty, _, i)) \<Rightarrow> ty = 0 \<and> i = None
      | (AlphaNum4 code iss, (_, c, i)) \<Rightarrow> c = Some (assetCodeToStr code) \<and> i = Some iss
      | (AlphaNum12 code iss, (_, c, i)) \<Rightarrow> c = Some (assetCodeToStr code) \<and> i = Some iss)"

definition book :: "Asset \<Rightarrow> Asset \<Rightarrow> Database \<Rightarrow> (uint64 \<times> OfferRow) list" where
  "book selling buying db =
     sort_key (\<lambda>(i, r). (or_price r, i))
       (filter (\<lambda>(_, r). asset_matches selling (or_selling r) \<and> asset_matches buying (or_buying r)) (tb_offers db))"

definition loadBestOffers :: "nat \<Rightarrow> nat \<Rightarrow> Asset \<Rightarrow> Asset \<Rightarrow> Database \<Rightarrow> scp_error + OfferFrame list" where
  "loadBestOffers numOffers offset selling buying db = loadOffers (take numOffers (drop offset (book selling buying db)))"

definition offer_loadAll :: "AccountID \<Rightarrow> Database \<Rightarrow> scp_error + OfferFrame list" where
  "offer_loadAll acc db = loadOffers (filter (\<lambda>(_, r). or_sellerid r = acc) (tb_offers db))"

definition offer_exists :: "AccountID \<Rightarrow> uint64 \<Rightarrow> Database \<Rightarrow> bool" where
  "offer_exists seller i db \<longleftrightarrow> (\<exists>(k, r) \<in> set (tb_offers db). or_sellerid r = seller \<and> k = i)"

section \<open>Storing\<close>

definition computePrice :: "(int32 \<Rightarrow> int32 \<Rightarrow> rat) \<Rightarrow> OfferEntry \<Rightarrow> rat" where
  "computePrice fdiv x = fdiv (price_n (o_price x)) (price_d (o_price x))"

definition row_of_offer :: "(int32 \<Rightarrow> int32 \<Rightarrow> rat) \<Rightarrow> OfferFrame \<Rightarrow> OfferRow" where
  "row_of_offer fdiv f =
     (let x = of_offer f in
      \<lparr>or_sellerid = o_sellerID x, or_selling = columns_of_asset (o_selling x), or_buying = columns_of_asset (o_buying x),
       or_amount = o_amount x, or_pricen = price_n (o_price x), or_priced = price_d (o_price x),
       or_price = computePrice fdiv x, or_flags = o_flags x, or_lastmodified = of_lastModified f\<rparr>)"

text \<open>The table refuses a negative amount.\<close>

definition offer_storeUpdateHelper :: "(int32 \<Rightarrow> int32 \<Rightarrow> rat) \<Rightarrow> bool \<Rightarrow> OfferFrame \<Rightarrow> OfferFrame led" where
  "offer_storeUpdateHelper fdiv ins f =
     bindL getDelta (\<lambda>d.
     bindL (liftE (touch d (of_lastModified f))) (\<lambda>stamp.
     let f1 = f\<lparr>of_lastModified := stamp\<rparr>; i = o_offerID (of_offer f1); row = row_of_offer fdiv f1
     in if \<not> offer_isValid (of_offer f1) then throwL (Runtime_Error ''Invalid asset'')
        else if o_amount (of_offer f1) < 0 then throwL (Runtime_Error ''constraint failed'')
        else bindL (withDB (\<lambda>db.
               bindE (if ins then sql_insert i row (tb_offers db)
                      else sql_update i (\<lambda>r. row\<lparr>or_sellerid := or_sellerid r\<rparr>) (tb_offers db)) (\<lambda>t.
                 Inr ((), db\<lparr>tb_offers := t\<rparr>)))) (\<lambda>_.
             bindL (onDelta (if ins then addEntry (offer_entry f1) else modEntry (offer_entry f1))) (\<lambda>_.
               returnL f1))))"

definition offer_storeChange :: "(int32 \<Rightarrow> int32 \<Rightarrow> rat) \<Rightarrow> OfferFrame \<Rightarrow> OfferFrame led" where
  "offer_storeChange fdiv f = offer_storeUpdateHelper fdiv False f"

definition offer_storeAdd :: "(int32 \<Rightarrow> int32 \<Rightarrow> rat) \<Rightarrow> OfferFrame \<Rightarrow> OfferFrame led" where
  "offer_storeAdd fdiv f = offer_storeUpdateHelper fdiv True f"

definition offer_storeDelete :: "AccountID \<Rightarrow> uint64 \<Rightarrow> unit led" where
  "offer_storeDelete seller i =
     bindL (withDB (\<lambda>db. Inr ((), db\<lparr>tb_offers := map_erase i (tb_offers db)\<rparr>))) (\<lambda>_.
     onDelta (deleteEntry (OfferKey seller i)))"

end
