(* ===== verification/DataFrame.thy ===== *)
theory DataFrame
  imports OfferFrame
begin

text \<open>
  \<^verbatim>\<open>src/ledger/DataFrame.cpp\<close> and \<^verbatim>\<open>src/ledger/ReversedPaymentFrame.cpp\<close>: data attached to accounts, and the
  payments that were reversed. Neither is cached.
\<close>

section \<open>Account data\<close>

record DataFrame =
  df_data :: DataEntry
  df_lastModified :: uint32

definition data_entry :: "DataFrame \<Rightarrow> LedgerEntry" where
  "data_entry f = \<lparr>lastModifiedLedgerSeq = df_lastModified f, edata = DataData (df_data f)\<rparr>"

definition DataFrame_entry :: "LedgerEntry \<Rightarrow> scp_error + DataFrame" where
  "DataFrame_entry from =
     (case edata from of
        DataData x \<Rightarrow> Inr \<lparr>df_data = x, df_lastModified = lastModifiedLedgerSeq from\<rparr>
      | _ \<Rightarrow> Inl (Runtime_Error ''wrong union''))"

text \<open>The table has no column for the ledger an entry was last modified in: a loaded entry has none.\<close>

definition data_of_row :: "(AccountID \<times> bytes) \<times> bytes \<Rightarrow> DataFrame" where
  "data_of_row row =
     (case row of ((acc, name), v) \<Rightarrow>
        \<lparr>df_data = \<lparr>d_accountID = acc, d_dataName = name, d_dataValue = v\<rparr>, df_lastModified = 0\<rparr>)"

definition loadData :: "AccountID \<Rightarrow> bytes \<Rightarrow> Database \<Rightarrow> DataFrame option" where
  "loadData acc name db = map_option (\<lambda>v. data_of_row ((acc, name), v)) (map_of (tb_accountdata db) (acc, name))"

definition data_loadAll :: "AccountID \<Rightarrow> Database \<Rightarrow> DataFrame list" where
  "data_loadAll acc db = map data_of_row (filter (\<lambda>((a, _), _). a = acc) (tb_accountdata db))"

definition data_exists :: "AccountID \<Rightarrow> bytes \<Rightarrow> Database \<Rightarrow> bool" where
  "data_exists acc name db \<longleftrightarrow> map_of (tb_accountdata db) (acc, name) \<noteq> None"

definition data_storeUpdateHelper :: "bool \<Rightarrow> DataFrame \<Rightarrow> DataFrame led" where
  "data_storeUpdateHelper ins f =
     bindL getDelta (\<lambda>d.
     bindL (liftE (touch d (df_lastModified f))) (\<lambda>stamp.
     let f1 = f\<lparr>df_lastModified := stamp\<rparr>; k = (d_accountID (df_data f1), d_dataName (df_data f1)); v = d_dataValue (df_data f1)
     in bindL (withDB (\<lambda>db.
          bindE (if ins then sql_insert k v (tb_accountdata db) else sql_update k (\<lambda>_. v) (tb_accountdata db)) (\<lambda>t.
            Inr ((), db\<lparr>tb_accountdata := t\<rparr>)))) (\<lambda>_.
        bindL (onDelta (if ins then addEntry (data_entry f1) else modEntry (data_entry f1))) (\<lambda>_.
          returnL f1))))"

definition data_storeChange :: "DataFrame \<Rightarrow> DataFrame led" where
  "data_storeChange f = data_storeUpdateHelper False f"

definition data_storeAdd :: "DataFrame \<Rightarrow> DataFrame led" where
  "data_storeAdd f = data_storeUpdateHelper True f"

definition data_storeDelete :: "AccountID \<Rightarrow> bytes \<Rightarrow> unit led" where
  "data_storeDelete acc name =
     bindL (withDB (\<lambda>db. Inr ((), db\<lparr>tb_accountdata := map_erase (acc, name) (tb_accountdata db)\<rparr>))) (\<lambda>_.
     onDelta (deleteEntry (DataKey acc name)))"

section \<open>Reversed payments\<close>

record ReversedPaymentFrame =
  rf_payment :: ReversedPaymentEntry
  rf_lastModified :: uint32

definition reversed_entry :: "ReversedPaymentFrame \<Rightarrow> LedgerEntry" where
  "reversed_entry f = \<lparr>lastModifiedLedgerSeq = rf_lastModified f, edata = ReversedPaymentData (rf_payment f)\<rparr>"

definition ReversedPaymentFrame_entry :: "LedgerEntry \<Rightarrow> scp_error + ReversedPaymentFrame" where
  "ReversedPaymentFrame_entry from =
     (case edata from of
        ReversedPaymentData x \<Rightarrow> Inr \<lparr>rf_payment = x, rf_lastModified = lastModifiedLedgerSeq from\<rparr>
      | _ \<Rightarrow> Inl (Runtime_Error ''wrong union''))"

definition loadReversedPayment :: "int64 \<Rightarrow> Database \<Rightarrow> ReversedPaymentFrame option" where
  "loadReversedPayment i db =
     map_option (\<lambda>m. \<lparr>rf_payment = \<lparr>r_rID = i\<rparr>, rf_lastModified = m\<rparr>) (map_of (tb_reversed db) i)"

definition reversed_exists :: "int64 \<Rightarrow> Database \<Rightarrow> bool" where
  "reversed_exists i db \<longleftrightarrow> map_of (tb_reversed db) i \<noteq> None"

text \<open>A change of a reversed payment is not stored and not recorded in the delta.\<close>

definition reversed_storeUpdateHelper :: "bool \<Rightarrow> ReversedPaymentFrame \<Rightarrow> ReversedPaymentFrame led" where
  "reversed_storeUpdateHelper ins f =
     bindL getDelta (\<lambda>d.
     bindL (liftE (touch d (rf_lastModified f))) (\<lambda>stamp.
     let f1 = f\<lparr>rf_lastModified := stamp\<rparr>; i = r_rID (rf_payment f1)
     in if \<not> ins then returnL f1
        else bindL (withDB (\<lambda>db.
               bindE (sql_insert i stamp (tb_reversed db)) (\<lambda>t. Inr ((), db\<lparr>tb_reversed := t\<rparr>)))) (\<lambda>_.
             bindL (onDelta (addEntry (reversed_entry f1))) (\<lambda>_.
               returnL f1))))"

definition reversed_storeChange :: "ReversedPaymentFrame \<Rightarrow> ReversedPaymentFrame led" where
  "reversed_storeChange f = reversed_storeUpdateHelper False f"

definition reversed_storeAdd :: "ReversedPaymentFrame \<Rightarrow> ReversedPaymentFrame led" where
  "reversed_storeAdd f = reversed_storeUpdateHelper True f"

definition reversed_storeDelete :: "int64 \<Rightarrow> unit led" where
  "reversed_storeDelete i =
     bindL (withDB (\<lambda>db. Inr ((), db\<lparr>tb_reversed := map_erase i (tb_reversed db)\<rparr>))) (\<lambda>_.
     onDelta (deleteEntry (ReversedPaymentKey i)))"

end
