(* ===== verification/Ledger_View.thy ===== *)
theory Ledger_View
  imports DataFrame
begin

text \<open>
  The map of ledger entries the tables of the database stand for, the invariant of the database (tables,
  entries and cache), and what loading and storing do to it.
\<close>

section \<open>Sorted tables\<close>

lemma sorted_key_unique:
  assumes "sorted_wrt (\<lambda>x y. f x < (f y :: 'b::linorder)) xs" "sorted_wrt (\<lambda>x y. f x < f y) ys" "set xs = set ys"
  shows "xs = ys"
proof -
  have s: "strict_sorted (map f xs)" "strict_sorted (map f ys)"
    using assms(1,2) by (simp_all add: sorted_wrt_map)
  then have "map f xs = map f ys"
    using strict_sorted_equal [OF s] assms(3) by simp
  moreover have "inj_on f (set xs \<union> set ys)"
    using strict_sorted_distinct [OF s(1)] assms(3) by (simp add: distinct_map)
  ultimately show ?thesis by (rule map_inj_on)
qed

lemma sort_key_strict: "sorted_wrt (\<lambda>x y. f x < (f y :: 'b::linorder)) xs \<Longrightarrow> sort_key f xs = xs"
  by (rule sort_key_id_if_sorted) (auto simp: sorted_wrt_map intro: sorted_wrt_mono_rel [rotated])

lemma is_sorted_by_strict: "sorted_wrt (\<lambda>x y. sg_pubKey x < sg_pubKey y) xs \<Longrightarrow> is_sorted_by signerCompare xs"
  by (induction signerCompare xs rule: is_sorted_by.induct) (auto simp: signerCompare_def)

section \<open>Signers\<close>

type_synonym signer_table = "((AccountID \<times> AccountID) \<times> (uint32 \<times> uint32)) list"

abbreviation signers_sorted :: "Signer list \<Rightarrow> bool" where
  "signers_sorted xs \<equiv> sorted_wrt (\<lambda>x y. sg_pubKey x < sg_pubKey y) xs"

lemma signer_rows_sorted: "map_ok t \<Longrightarrow> signers_sorted (signer_rows i t)"
  unfolding signer_rows_def by (induction t) (auto simp: sorted_wrt_map less_prod_def')

lemma loadSigners_rows: "map_ok (tb_signers db) \<Longrightarrow> loadSigners i db = signer_rows i (tb_signers db)"
  by (simp add: loadSigners_def sort_key_strict signer_rows_sorted)

lemma set_signer_rows:
  "map_ok t \<Longrightarrow> s \<in> set (signer_rows i t) \<longleftrightarrow> map_of t (i, sg_pubKey s) = Some (sg_weight s, sg_signerType s)"
proof -
  assume ok: "map_ok t"
  have "s \<in> set (signer_rows i t) \<longleftrightarrow> ((i, sg_pubKey s), (sg_weight s, sg_signerType s)) \<in> set t"
    unfolding signer_rows_def by (force simp: image_iff)
  also have "\<dots> \<longleftrightarrow> map_of t (i, sg_pubKey s) = Some (sg_weight s, sg_signerType s)"
    by (rule om.items_find [OF ok])
  finally show ?thesis .
qed

lemma signer_rows_cong:
  assumes "map_ok t" "map_ok t'" "\<And>p. map_of t (i, p) = map_of t' (i, p)"
  shows "signer_rows i t = signer_rows i t'"
  by (rule sorted_key_unique [where f = sg_pubKey]) (auto simp: assms signer_rows_sorted set_signer_rows)

text \<open>
  What the walk of \<^verbatim>\<open>applySigners\<close> leaves in the table: the new signers, except that a signer whose weight is
  unchanged keeps the type it had.
\<close>

definition types_kept :: "Signer list \<Rightarrow> Signer list \<Rightarrow> bool" where
  "types_kept new old \<longleftrightarrow>
     (\<forall>n \<in> set new. \<forall>q \<in> set old. sg_pubKey n = sg_pubKey q \<and> sg_weight n = sg_weight q \<longrightarrow> sg_signerType n = sg_signerType q)"

lemma sql_insert_new: "map_of t k = None \<Longrightarrow> sql_insert k r t = Inr (map_put k r t)"
  by (simp add: sql_insert_def)

lemma sql_update_row: "map_of t k = Some r \<Longrightarrow> sql_update k f t = Inr (map_put k (f r) t)"
  by (simp add: sql_update_def)

lemma sql_delete_row: "map_of t k = Some r \<Longrightarrow> sql_delete_one k t = Inr (map_erase k t)"
  by (simp add: sql_delete_one_def)

definition rows_of :: "AccountID \<Rightarrow> Signer list \<Rightarrow> signer_table" where
  "rows_of i xs = map (\<lambda>s. ((i, sg_pubKey s), (sg_weight s, sg_signerType s))) xs"

lemma rows_of_simps [simp]:
  "rows_of i [] = []"
  "rows_of i (s # xs) = ((i, sg_pubKey s), (sg_weight s, sg_signerType s)) # rows_of i xs"
  by (simp_all add: rows_of_def)

lemma map_of_rows_Cons: "map_of (rows_of i (s # xs)) = (map_of (rows_of i xs))((i, sg_pubKey s) \<mapsto> (sg_weight s, sg_signerType s))"
  by (simp add: fun_eq_iff)

lemma rows_of_None: "map_of (rows_of i xs) (a, p) = None \<longleftrightarrow> a \<noteq> i \<or> p \<notin> sg_pubKey ` set xs"
  by (induction xs) auto

lemma rows_of_dom: "map_of (rows_of i xs) (a, p) = Some v \<Longrightarrow> a = i"
  by (induction xs) (auto split: if_splits)

lemma rows_of_fresh: "signers_sorted (s # xs) \<Longrightarrow> map_of (rows_of i xs) (i, sg_pubKey s) = None"
  by (auto simp: rows_of_None)

lemma rows_of_Some: "signers_sorted xs \<Longrightarrow> map_of (rows_of i xs) (i, sg_pubKey s) = Some (sg_weight s, sg_signerType s) \<longleftrightarrow> s \<in> set xs"
proof (induction xs)
  case (Cons x xs)
  show ?case
  proof (cases "sg_pubKey x = sg_pubKey s")
    case True
    with Cons.prems show ?thesis by (auto simp: Signer.equality)
  next
    case False
    with Cons show ?thesis by auto
  qed
qed simp

text \<open>Replacing the part \<open>old\<close> of a map by \<open>new\<close>, one entry at a time.\<close>

definition replaced :: "('k \<Rightarrow> 'v option) \<Rightarrow> ('k \<Rightarrow> 'v option) \<Rightarrow> ('k \<Rightarrow> 'v option) \<Rightarrow> ('k \<Rightarrow> 'v option)" where
  "replaced old new m = (\<lambda>k. case new k of Some v \<Rightarrow> Some v | None \<Rightarrow> if old k \<noteq> None then None else m k)"

definition replaceable :: "('k \<Rightarrow> 'v option) \<Rightarrow> ('k \<Rightarrow> 'v option) \<Rightarrow> ('k \<Rightarrow> 'v option) \<Rightarrow> bool" where
  "replaceable old new m \<longleftrightarrow>
     (\<forall>k v. old k = Some v \<longrightarrow> m k = Some v) \<and> (\<forall>k. new k \<noteq> None \<and> old k = None \<longrightarrow> m k = None)"

lemma replace_insert:
  assumes "new k = None" "old k = None" "replaceable old (new(k \<mapsto> v)) m"
  shows "m k = None" "replaceable old new (m(k \<mapsto> v))" "replaced old new (m(k \<mapsto> v)) = replaced old (new(k \<mapsto> v)) m"
  using assms by (auto simp: replaceable_def replaced_def fun_eq_iff split: option.splits if_splits)

lemma replace_delete:
  assumes "new k = None" "old k = None" "replaceable (old(k \<mapsto> v)) new m"
  shows "m k = Some v" "replaceable old new (m(k := None))" "replaced old new (m(k := None)) = replaced (old(k \<mapsto> v)) new m"
  using assms by (auto simp: replaceable_def replaced_def fun_eq_iff split: option.splits if_splits)

lemma replace_update:
  assumes "new k = None" "old k = None" "replaceable (old(k \<mapsto> v)) (new(k \<mapsto> w)) m"
  shows "m k = Some v" "replaceable old new (m(k \<mapsto> w))"
    "replaced old new (m(k \<mapsto> w)) = replaced (old(k \<mapsto> v)) (new(k \<mapsto> w)) m"
  using assms by (auto simp: replaceable_def replaced_def fun_eq_iff split: option.splits if_splits)

lemma signers_walk_result:
  "map_ok t \<Longrightarrow> signers_sorted new \<Longrightarrow> signers_sorted old \<Longrightarrow> types_kept new old \<Longrightarrow>
   replaceable (map_of (rows_of i old)) (map_of (rows_of i new)) (map_of t) \<Longrightarrow>
   \<exists>changed t'. signers_walk i new old ch t = Inr (changed, t') \<and> map_ok t' \<and>
     map_of t' = replaced (map_of (rows_of i old)) (map_of (rows_of i new)) (map_of t)"
proof (induction i new old ch t rule: signers_walk.induct)
  case (1 i changed t)
  then show ?case by (simp add: replaced_def)
next
  case (2 i n ns changed t)
  have r: "replaceable (map_of (rows_of i [])) ((map_of (rows_of i ns))((i, sg_pubKey n) \<mapsto> (sg_weight n, sg_signerType n))) (map_of t)"
    using "2.prems"(5) unfolding map_of_rows_Cons .
  note step = replace_insert [of "map_of (rows_of i ns)" "(i, sg_pubKey n)", OF rows_of_fresh [OF "2.prems"(2)] _ r]
  show ?case
    using "2.IH" [of "map_put (i, sg_pubKey n) (sg_weight n, sg_signerType n) t"] "2.prems"(1-4) step
    by (simp add: sql_insert_new map_ok_put map_of_put types_kept_def del: fun_upd_apply map_of.simps(2) rows_of_simps(2) add: map_of_rows_Cons)
next
  case (3 i q qs changed t)
  have r: "replaceable ((map_of (rows_of i qs))((i, sg_pubKey q) \<mapsto> (sg_weight q, sg_signerType q))) (map_of (rows_of i [])) (map_of t)"
    using "3.prems"(5) unfolding map_of_rows_Cons .
  note step = replace_delete [of "map_of (rows_of i [])" "(i, sg_pubKey q)" "map_of (rows_of i qs)", OF _ rows_of_fresh [OF "3.prems"(3)] r]
  show ?case
    using "3.IH" [of "map_erase (i, sg_pubKey q) t"] "3.prems"(1-4) step
    by (simp add: sql_delete_row map_ok_erase types_kept_def del: fun_upd_apply map_of.simps(2) rows_of_simps(2) add: map_of_rows_Cons)
next
  case (4 i n ns q qs changed t)
  let ?n = "(sg_weight n, sg_signerType n)" and ?q = "(sg_weight q, sg_signerType q)"
  have fresh: "map_of (rows_of i ns) (i, sg_pubKey n) = None" "map_of (rows_of i qs) (i, sg_pubKey q) = None"
    using rows_of_fresh "4.prems"(2,3) by blast+
  have sorted: "signers_sorted ns" "signers_sorted qs" and kept: "types_kept ns (q # qs)" "types_kept (n # ns) qs" "types_kept ns qs"
    using "4.prems"(2-4) by (auto simp: types_kept_def)
  consider (same) "sg_pubKey n = sg_pubKey q" | (less) "sg_pubKey n < sg_pubKey q" | (greater) "sg_pubKey q < sg_pubKey n"
    by fastforce
  then show ?case
  proof cases
    case same
    have r: "replaceable ((map_of (rows_of i qs))((i, sg_pubKey n) \<mapsto> ?q)) ((map_of (rows_of i ns))((i, sg_pubKey n) \<mapsto> ?n)) (map_of t)"
      using "4.prems"(5) unfolding map_of_rows_Cons same .
    note step = replace_update [of "map_of (rows_of i ns)" "(i, sg_pubKey n)" "map_of (rows_of i qs)", OF fresh(1) _ r]
    show ?thesis
    proof (cases "sg_weight n = sg_weight q")
      case True
      then have "?n = ?q" using same "4.prems"(4) by (simp add: types_kept_def)
      moreover from this have "(map_of t)((i, sg_pubKey n) \<mapsto> ?n) = map_of t"
        using step(1) fresh(2) same by (simp add: fun_upd_idem)
      ultimately show ?thesis
        using "4.IH"(2) [OF same] True same "4.prems"(1) sorted kept(3) step(2,3) fresh(2) by (simp del: fun_upd_apply map_of.simps(2) rows_of_simps(2) add: map_of_rows_Cons)
    next
      case False
      then show ?thesis
        using "4.IH"(1) [OF same, of "map_put (i, sg_pubKey n) (sg_weight n, sg_signerType n) t"] same "4.prems"(1) sorted kept(3) step fresh(2)
        by (simp add: sql_update_row map_ok_put map_of_put del: fun_upd_apply map_of.simps(2) rows_of_simps(2) add: map_of_rows_Cons)
    qed
  next
    case less
    then have ne: "sg_pubKey n \<noteq> sg_pubKey q" by simp
    have "map_of (rows_of i (q # qs)) (i, sg_pubKey n) = None"
      using less "4.prems"(3) by (auto simp: rows_of_None)
    moreover have "replaceable (map_of (rows_of i (q # qs))) ((map_of (rows_of i ns))((i, sg_pubKey n) \<mapsto> ?n)) (map_of t)"
      using "4.prems"(5) unfolding map_of_rows_Cons .
    note step = replace_insert [of "map_of (rows_of i ns)" "(i, sg_pubKey n)", OF fresh(1) _ this]
    ultimately show ?thesis
      using "4.IH"(3) [OF ne less, of "map_put (i, sg_pubKey n) (sg_weight n, sg_signerType n) t"] ne less "4.prems"(1,3) sorted kept(1) step
      by (simp add: sql_insert_new map_ok_put map_of_put del: fun_upd_apply map_of.simps(2) rows_of_simps(2) add: map_of_rows_Cons)
  next
    case greater
    then have ne: "sg_pubKey n \<noteq> sg_pubKey q" and nl: "\<not> sg_pubKey n < sg_pubKey q" by simp_all
    have "map_of (rows_of i (n # ns)) (i, sg_pubKey q) = None"
      using greater "4.prems"(2) by (auto simp: rows_of_None)
    moreover have "replaceable ((map_of (rows_of i qs))((i, sg_pubKey q) \<mapsto> ?q)) (map_of (rows_of i (n # ns))) (map_of t)"
      using "4.prems"(5) unfolding map_of_rows_Cons .
    note step = replace_delete [of "map_of (rows_of i (n # ns))" "(i, sg_pubKey q)" "map_of (rows_of i qs)", OF _ fresh(2) this]
    ultimately show ?thesis
      using "4.IH"(4) [OF ne nl, of "map_erase (i, sg_pubKey q) t"] ne nl "4.prems"(1,2) sorted kept(2) step
      by (simp add: sql_delete_row map_ok_erase del: fun_upd_apply map_of.simps(2) rows_of_simps(2) add: map_of_rows_Cons)
  qed
qed

lemma rows_of_signer_rows:
  assumes "map_ok t"
  shows "map_of (rows_of i (signer_rows i t)) (a, p) = (if a = i then map_of t (i, p) else None)"
proof -
  have sorted: "signers_sorted (signer_rows i t)" by (rule signer_rows_sorted [OF assms])
  have "map_of (rows_of i (signer_rows i t)) (i, p) = Some v \<longleftrightarrow> map_of t (i, p) = Some v" for v
    using rows_of_Some [OF sorted, of i "\<lparr>sg_pubKey = p, sg_weight = fst v, sg_signerType = snd v\<rparr>"]
      set_signer_rows [OF assms, of "\<lparr>sg_pubKey = p, sg_weight = fst v, sg_signerType = snd v\<rparr>" i] by simp
  then have "map_of (rows_of i (signer_rows i t)) (i, p) = map_of t (i, p)"
    by (cases "map_of t (i, p)"; cases "map_of (rows_of i (signer_rows i t)) (i, p)") auto
  then show ?thesis
    using rows_of_None [of i "signer_rows i t" a p] by auto
qed

lemma applySigners_rows:
  assumes ok: "map_ok (tb_signers db)" and new: "signers_sorted (a_signers (af_account f))"
    and i: "i = account_getID f" and fresh: "ins \<Longrightarrow> signer_rows i (tb_signers db) = []"
    and kept: "types_kept (a_signers (af_account f)) (signer_rows i (tb_signers db))"
  shows "\<exists>t changed. applySigners ins f db =
      Inr ((), if changed then flushCachedEntry (AccountKey i) (db\<lparr>tb_signers := t\<rparr>) else db\<lparr>tb_signers := t\<rparr>) \<and>
    map_ok t \<and> signer_rows i t = a_signers (af_account f) \<and> (\<forall>a. a \<noteq> i \<longrightarrow> signer_rows a t = signer_rows a (tb_signers db))"
proof -
  let ?new = "a_signers (af_account f)" and ?t = "tb_signers db"
  let ?old = "signer_rows i ?t"
  have old: "(if ins then [] else loadSigners i db) = ?old"
    using fresh by (simp add: loadSigners_rows [OF ok])
  have rows: "map_of (rows_of i ?old) k = (if fst k = i then map_of ?t k else None)" for k
    using rows_of_signer_rows [OF ok] by (cases k) simp
  have "replaceable (map_of (rows_of i ?old)) (map_of (rows_of i ?new)) (map_of ?t)"
    by (auto simp: replaceable_def rows split: if_splits dest: rows_of_dom)
  then obtain changed t where t: "signers_walk i ?new ?old False ?t = Inr (changed, t)" "map_ok t"
      "map_of t = replaced (map_of (rows_of i ?old)) (map_of (rows_of i ?new)) (map_of ?t)"
    using signers_walk_result [OF ok new signer_rows_sorted [OF ok] kept] by blast
  have at: "map_of t (i, p) = map_of (rows_of i ?new) (i, p)" for p
    by (cases "map_of ?t (i, p)") (simp_all add: t(3) replaced_def rows split: option.split)
  have "map_of t (a, p) = map_of ?t (a, p)" if "a \<noteq> i" for a p
    using that rows_of_None [of i ?new a p] by (simp add: t(3) replaced_def rows)
  then have "signer_rows a t = signer_rows a ?t" if "a \<noteq> i" for a
    using that signer_rows_cong [OF t(2) ok] by blast
  moreover have "signer_rows i t = ?new"
    by (rule sorted_key_unique [OF signer_rows_sorted [OF t(2)] new])
       (auto simp: set_signer_rows [OF t(2)] at rows_of_Some [OF new])
  ultimately show ?thesis
    using t(1,2) unfolding applySigners_def Let_def i [symmetric] old
    by (intro exI [of _ t] exI [of _ changed]) simp
qed

section \<open>The map of entries\<close>

definition asset_ok :: "Asset \<Rightarrow> bool" where
  "asset_ok x \<longleftrightarrow> isAssetValid x \<and> asset_wf x"

fun db_view :: "Database \<Rightarrow> ledger_map" where
  "db_view db (AccountKey i) =
     map_option (\<lambda>r. \<lparr>lastModifiedLedgerSeq = ar_lastmodified r,
                      edata = AccountData (account_of_row i r (signer_rows i (tb_signers db)))\<rparr>) (map_of (tb_accounts db) i)"
| "db_view db (TrustLineKey a x) =
     (if x = AssetNative \<or> \<not> asset_ok x then None
      else map_option (\<lambda>r. \<lparr>lastModifiedLedgerSeq = tr_lastmodified r, edata = TrustLineData (trust_of_row (getKeyFields a x) r)\<rparr>)
             (map_of (tb_trustlines db) (getKeyFields a x)))"
| "db_view db (OfferKey a i) =
     (case map_of (tb_offers db) i of None \<Rightarrow> None
      | Some r \<Rightarrow> if or_sellerid r = a then case_sum (\<lambda>_. None) (Some \<circ> offer_entry) (offer_of_row (i, r)) else None)"
| "db_view db (DataKey a n) = map_option data_entry (loadData a n db)"
| "db_view db (ReversedPaymentKey i) = map_option reversed_entry (loadReversedPayment i db)"

definition account_row_ok :: "signer_table \<Rightarrow> AccountID \<Rightarrow> AccountRow option \<Rightarrow> bool" where
  "account_row_ok t i row =
     (case row of
        None \<Rightarrow> signer_rows i t = []
      | Some r \<Rightarrow> isString32Valid (ar_homedomain r) \<and> 0 \<le> ar_balance r \<and> ar_balance r \<le> INT64_MAX \<and>
                  (ar_numsubentries r = 0 \<longrightarrow> signer_rows i t = []))"

definition trust_row_ok :: "AccountID \<times> AccountID \<times> bytes \<Rightarrow> TrustRow \<Rightarrow> bool" where
  "trust_row_ok k r \<longleftrightarrow>
     (\<exists>x. x \<noteq> AssetNative \<and> asset_ok x \<and> k = getKeyFields (fst k) x \<and> tr_assettype r = assetType x) \<and>
     trust_isValid (trust_of_row k r) \<and> is_int64 (tr_balance r) \<and> tr_tlimit r \<le> INT64_MAX"

definition offer_row_ok :: "OfferRow \<Rightarrow> bool" where
  "offer_row_ok r \<longleftrightarrow>
     (\<exists>x. asset_ok x \<and> or_selling r = columns_of_asset x) \<and> (\<exists>x. asset_ok x \<and> or_buying r = columns_of_asset x) \<and>
     0 \<le> or_amount r \<and> or_amount r \<le> INT64_MAX"

definition tables_ok :: "Database \<Rightarrow> bool" where
  "tables_ok db \<longleftrightarrow>
     map_ok (tb_accounts db) \<and> map_ok (tb_signers db) \<and> map_ok (tb_trustlines db) \<and> map_ok (tb_offers db) \<and>
     map_ok (tb_accountdata db) \<and> map_ok (tb_reversed db) \<and>
     (\<forall>i. account_row_ok (tb_signers db) i (map_of (tb_accounts db) i)) \<and>
     (\<forall>k r. map_of (tb_trustlines db) k = Some r \<longrightarrow> trust_row_ok k r) \<and>
     (\<forall>i r. map_of (tb_offers db) i = Some r \<longrightarrow> offer_row_ok r)"

definition database_ok :: "Database \<Rightarrow> bool" where
  "database_ok db \<longleftrightarrow> tables_ok db \<and> cache_ok (db_view db) db"

text \<open>The map and the tables do not depend on the cache.\<close>

lemma db_view_cache [simp]: "db_view (db\<lparr>mEntryCache := c\<rparr>) = db_view db"
proof
  fix k
  show "db_view (db\<lparr>mEntryCache := c\<rparr>) k = db_view db k"
    by (cases k) (simp_all add: loadData_def loadReversedPayment_def)
qed

lemma tables_ok_cache [simp]: "tables_ok (db\<lparr>mEntryCache := c\<rparr>) = tables_ok db"
  by (simp add: tables_ok_def)

lemma tables_okD:
  assumes "tables_ok db"
  shows "map_of (tb_trustlines db) k = Some r \<Longrightarrow> trust_row_ok k r"
    and "map_of (tb_offers db) i = Some x \<Longrightarrow> offer_row_ok x"
    and "account_row_ok (tb_signers db) a (map_of (tb_accounts db) a)"
  using assms unfolding tables_ok_def by blast+

section \<open>Assets in tables\<close>

lemma getKeyFields_credit: "x \<noteq> AssetNative \<Longrightarrow> getKeyFields a x = (a, issuer x, codeStr x)"
  by (cases x) (simp_all add: getKeyFields_def codeStr_def)

lemma getKeyFields_inj:
  assumes "getKeyFields a x = getKeyFields b y" "x \<noteq> AssetNative" "y \<noteq> AssetNative" "asset_ok x" "asset_ok y"
  shows "a = b \<and> x = y"
  using assms asset_key_injective [of x y] by (auto simp: getKeyFields_credit asset_ok_def)

lemma code_of_asset:
  assumes "asset_ok x" "x \<noteq> AssetNative"
  shows "strToAssetCode (length (assetCode x)) (codeStr x) = assetCode x"
proof -
  have "isAssetValid x" using assms(1) by (simp add: asset_ok_def)
  with assms(2) code_roundtrip(1) show ?thesis by (cases x) (auto simp: codeStr_def split: option.splits)
qed

lemma asset_of_row_type: "asset_ok x \<Longrightarrow> x \<noteq> AssetNative \<Longrightarrow> asset_of_row (assetType x) (issuer x) (codeStr x) = x"
  using code_of_asset [of x] by (cases x) (auto simp: asset_of_row_def asset_ok_def)

lemma asset_of_columns_of: "asset_ok x \<Longrightarrow> asset_of_columns (columns_of_asset x) = Inr x"
  using code_of_asset [of x] by (cases x) (auto simp: asset_of_columns_def columns_of_asset_def asset_ok_def codeStr_def)

lemma columns_of_asset_inj: "asset_ok x \<Longrightarrow> asset_ok y \<Longrightarrow> columns_of_asset x = columns_of_asset y \<Longrightarrow> x = y"
  using asset_of_columns_of by (metis Inr_inject)

lemma asset_matches_columns: "asset_ok x \<Longrightarrow> asset_ok y \<Longrightarrow> asset_matches x (columns_of_asset y) \<longleftrightarrow> x = y"
  using asset_key_injective [of x y]
  by (cases x; cases y) (auto simp: asset_matches_def columns_of_asset_def asset_ok_def codeStr_def)

lemma trust_row_asset:
  assumes "trust_row_ok (getKeyFields a x) r" "x \<noteq> AssetNative" "asset_ok x"
  shows "t_asset (trust_of_row (getKeyFields a x) r) = x" "tr_assettype r = assetType x"
proof -
  obtain y where "y \<noteq> AssetNative" "asset_ok y" "getKeyFields a x = getKeyFields a y" "tr_assettype r = assetType y"
    using assms(1) by (auto simp: trust_row_ok_def getKeyFields_credit [OF assms(2)])
  then have "tr_assettype r = assetType x" using getKeyFields_inj [of a x a y] assms(2,3) by simp
  then show "tr_assettype r = assetType x" "t_asset (trust_of_row (getKeyFields a x) r) = x"
    using asset_of_row_type [OF assms(3,2)] by (simp_all add: trust_of_row_def getKeyFields_credit [OF assms(2)])
qed

lemma trust_of_row_simps [simp]:
  "t_accountID (trust_of_row k r) = fst k"
  "t_balance (trust_of_row k r) = tr_balance r"
  "t_limit (trust_of_row k r) = tr_tlimit r"
  "t_flags (trust_of_row k r) = tr_flags r"
  by (simp_all add: trust_of_row_def split_def)

lemma offer_of_row_ok:
  assumes "offer_row_ok r"
  obtains f where "offer_of_row (i, r) = Inr f" "offer_isValid (of_offer f)" "asset_ok (o_selling (of_offer f))" "asset_ok (o_buying (of_offer f))"
    "or_selling r = columns_of_asset (o_selling (of_offer f))" "or_buying r = columns_of_asset (o_buying (of_offer f))"
    "o_sellerID (of_offer f) = or_sellerid r" "o_offerID (of_offer f) = i" "o_amount (of_offer f) = or_amount r"
    "o_price (of_offer f) = \<lparr>price_n = or_pricen r, price_d = or_priced r\<rparr>" "o_flags (of_offer f) = or_flags r"
    "of_lastModified f = or_lastmodified r"
proof -
  obtain x y where xy: "asset_ok x" "asset_ok y" "or_selling r = columns_of_asset x" "or_buying r = columns_of_asset y"
    using assms by (auto simp: offer_row_ok_def)
  then have "\<exists>f. offer_of_row (i, r) = Inr f \<and> of_offer f = \<lparr>o_sellerID = or_sellerid r, o_offerID = i, o_selling = x, o_buying = y,
      o_amount = or_amount r, o_price = \<lparr>price_n = or_pricen r, price_d = or_priced r\<rparr>, o_flags = or_flags r\<rparr> \<and>
      of_lastModified f = or_lastmodified r \<and> offer_isValid (of_offer f)"
    by (auto simp: offer_of_row_def asset_of_columns_of Let_def offer_isValid_def asset_ok_def)
  with xy that show thesis by fastforce
qed

section \<open>Loading\<close>

lemma db_view_key:
  assumes "tables_ok db" "db_view db k = Some e"
  shows "LedgerEntryKey e = k"
proof (cases k)
  case (AccountKey i)
  with assms(2) show ?thesis by (auto simp: LedgerEntryKey_def account_of_row_def)
next
  case (TrustLineKey a x)
  with assms obtain r where r: "x \<noteq> AssetNative" "asset_ok x" "map_of (tb_trustlines db) (getKeyFields a x) = Some r"
    "e = \<lparr>lastModifiedLedgerSeq = tr_lastmodified r, edata = TrustLineData (trust_of_row (getKeyFields a x) r)\<rparr>"
    by (auto split: if_splits)
  then have "trust_row_ok (getKeyFields a x) r" using tables_okD(1) [OF assms(1)] by blast
  with r trust_row_asset(1) [OF this] TrustLineKey show ?thesis
    by (simp add: LedgerEntryKey_def getKeyFields_credit)
next
  case (OfferKey a i)
  with assms(2) obtain r where r: "map_of (tb_offers db) i = Some r" "or_sellerid r = a"
    "case_sum (\<lambda>_. None) (Some \<circ> offer_entry) (offer_of_row (i, r)) = Some e"
    by (auto split: option.splits if_splits)
  moreover have "offer_row_ok r" using assms(1) r(1) by (simp add: tables_ok_def)
  ultimately show ?thesis
    using OfferKey by (elim offer_of_row_ok [of r i]) (auto simp: LedgerEntryKey_def offer_entry_def)
next
  case (DataKey a n)
  with assms(2) show ?thesis by (auto simp: LedgerEntryKey_def data_entry_def loadData_def data_of_row_def)
next
  case (ReversedPaymentKey i)
  with assms(2) show ?thesis by (auto simp: LedgerEntryKey_def reversed_entry_def loadReversedPayment_def)
qed

lemma account_row_valid:
  assumes "tables_ok db" "map_of (tb_accounts db) i = Some r"
  shows "account_isValid (account_of_row i r (signer_rows i (tb_signers db)))"
    "(if ar_numsubentries r \<noteq> 0 then loadSigners i db else []) = signer_rows i (tb_signers db)"
proof -
  have row: "account_row_ok (tb_signers db) i (Some r)" and t: "map_ok (tb_signers db)"
    using assms by (metis tables_ok_def)+
  then show "account_isValid (account_of_row i r (signer_rows i (tb_signers db)))"
    using is_sorted_by_strict [OF signer_rows_sorted [OF t]] by (simp add: account_isValid_def account_of_row_def account_row_ok_def)
  show "(if ar_numsubentries r \<noteq> 0 then loadSigners i db else []) = signer_rows i (tb_signers db)"
    using row by (simp add: account_row_ok_def loadSigners_rows [OF t])
qed

lemma loadAccount_db_view:
  assumes "database_ok db"
  shows "\<exists>f c. loadAccount_db i db = Inr (f, db\<lparr>mEntryCache := c\<rparr>) \<and> database_ok (db\<lparr>mEntryCache := c\<rparr>) \<and>
    map_option account_entry f = db_view db (AccountKey i)"
proof (cases "cachedEntryExists (AccountKey i) db")
  case True
  have t: "tables_ok db" and c: "cache_ok (db_view db) db" using assms by (simp_all add: database_ok_def)
  obtain c where c: "getCachedEntry (AccountKey i) db = Inr (db_view db (AccountKey i), db\<lparr>mEntryCache := c\<rparr>)"
    "cache_ok (db_view db) (db\<lparr>mEntryCache := c\<rparr>)"
    using cache_ok_get [OF c True] by blast
  show ?thesis
  proof (cases "db_view db (AccountKey i)")
    case None
    with c True t show ?thesis by (auto simp: loadAccount_db_def database_ok_def)
  next
    case (Some e)
    then obtain a where "edata e = AccountData a" by auto
    with Some c True t show ?thesis
      by (intro exI [of _ "Some \<lparr>af_account = a, af_lastModified = lastModifiedLedgerSeq e, mUpdateSigners = True\<rparr>"] exI [of _ c])
         (auto simp: loadAccount_db_def database_ok_def AccountFrame_entry_def account_entry_def simp del: db_view.simps)
  qed
next
  case False
  have t: "tables_ok db" and c: "cache_ok (db_view db) db" using assms by (simp_all add: database_ok_def)
  show ?thesis
  proof (cases "map_of (tb_accounts db) i")
    case None
    then have "cache_ok (db_view db) (putCachedEntry (AccountKey i) None db)"
      by (intro cache_ok_put [OF c]) simp_all
    with None False t show ?thesis
      by (intro exI [of _ None] exI [of _ "lru_put (AccountKey i) None (mEntryCache db)"])
         (simp add: loadAccount_db_def database_ok_def putCachedEntry_def)
  next
    case (Some r)
    note row = account_row_valid [OF t Some]
    let ?f = "\<lparr>af_account = account_of_row i r (signer_rows i (tb_signers db)), af_lastModified = ar_lastmodified r, mUpdateSigners = False\<rparr>"
    have "account_normalize ?f = ?f"
      using t by (simp add: account_normalize_def account_of_row_def tables_ok_def sort_key_strict signer_rows_sorted)
    moreover have view: "db_view db (AccountKey i) = Some (account_entry ?f)" using Some by (simp add: account_entry_def)
    moreover have "cache_ok (db_view db) (putCachedEntry (AccountKey i) (Some (account_entry ?f)) db)"
      by (rule cache_ok_put [OF c view cacheable_simps(1)])
    ultimately show ?thesis
      using Some False t row
      by (intro exI [of _ "Some ?f"] exI [of _ "lru_put (AccountKey i) (Some (account_entry ?f)) (mEntryCache db)"])
         (simp add: loadAccount_db_def database_ok_def putCachedEntry_def assertE_def Let_def del: db_view.simps)
  qed
qed

lemma TrustFrame_entry_ok:
  "trust_isValid t \<Longrightarrow> TrustFrame_entry \<lparr>lastModifiedLedgerSeq = m, edata = TrustLineData t\<rparr> =
     Inr \<lparr>tf_line = t, tf_lastModified = m, mIsIssuer = False\<rparr>"
  by (simp add: TrustFrame_entry_def assertE_def)

lemma loadTrustLine_db_view:
  assumes "database_ok db" "x \<noteq> AssetNative" "asset_ok x"
  shows "\<exists>b f c. loadTrustLine_db a x db = Inr ((b, f), db\<lparr>mEntryCache := c\<rparr>) \<and> database_ok (db\<lparr>mEntryCache := c\<rparr>) \<and>
    map_option trust_entry f = db_view db (TrustLineKey a x) \<and> (\<forall>g. f = Some g \<longrightarrow> \<not> mIsIssuer g)"
proof -
  let ?k = "TrustLineKey a x" and ?fields = "getKeyFields a x"
  have t: "tables_ok db" and c: "cache_ok (db_view db) db" using assms(1) by (simp_all add: database_ok_def)
  show ?thesis
  proof (cases "map_of (tb_trustlines db) ?fields")
    case None
    then have view: "db_view db ?k = None" by simp
    show ?thesis
    proof (cases "cachedEntryExists ?k db")
      case True
      with cache_ok_get [OF c True] None t assms(2) view show ?thesis
        by (auto simp: loadTrustLine_db_def database_ok_def simp del: db_view.simps)
    next
      case False
      with cache_ok_put [OF c view cacheable_simps(2)] None t assms(2) view show ?thesis
        by (auto simp: loadTrustLine_db_def database_ok_def putCachedEntry_def simp del: db_view.simps)
    qed
  next
    case (Some r)
    have row: "trust_row_ok ?fields r" by (rule tables_okD(1) [OF t Some])
    have valid: "trust_isValid (trust_of_row ?fields r)" using row by (simp add: trust_row_ok_def)
    let ?f = "\<lparr>tf_line = trust_of_row ?fields r, tf_lastModified = tr_lastmodified r, mIsIssuer = False\<rparr>"
    have view: "db_view db ?k = Some (trust_entry ?f)" using Some assms(2,3) by (simp add: trust_entry_def)
    have key: "trust_key ?f = ?k"
      using trust_row_asset(1) [OF row assms(2,3)] by (simp add: trust_key_def getKeyFields_credit [OF assms(2)])
    show ?thesis
    proof (cases "cachedEntryExists ?k db")
      case True
      with cache_ok_get [OF c True] t assms(2) view TrustFrame_entry_ok [OF valid] show ?thesis
        by (auto simp: loadTrustLine_db_def database_ok_def trust_entry_def simp del: db_view.simps)
    next
      case False
      with cache_ok_put [OF c view cacheable_simps(2)] Some t assms(2) view TrustFrame_entry_ok [OF valid] valid key show ?thesis
        by (auto simp: loadTrustLine_db_def database_ok_def putCachedEntry_def Let_def simp del: db_view.simps)
    qed
  qed
qed

lemma loadOffer_db_view:
  assumes "database_ok db"
  shows "\<exists>f. loadOffer_db a i db = Inr f \<and> map_option offer_entry f = db_view db (OfferKey a i)"
proof -
  have t: "tables_ok db" and ok: "map_ok (tb_offers db)" using assms by (simp_all add: database_ok_def tables_ok_def)
  have filter: "filter (\<lambda>(k, r). P r \<and> k = i) m = (case map_of m i of Some r \<Rightarrow> if P r then [(i, r)] else [] | None \<Rightarrow> [])"
    if "distinct (map fst m)" for m and P :: "OfferRow \<Rightarrow> bool"
    using that
  proof (induction m)
    case (Cons x m)
    then show ?case
      using map_of_eq_None_iff [of m i] by (cases x; cases "fst x = i") (auto split: option.splits)
  qed simp
  note f = filter [OF strict_sorted_distinct [OF ok]]
  show ?thesis
  proof (cases "map_of (tb_offers db) i")
    case (Some r)
    with tables_okD(2) [OF t] obtain g where "offer_of_row (i, r) = Inr g" by (meson offer_of_row_ok)
    with Some show ?thesis by (auto simp: loadOffer_db_def loadOffers_def f)
  qed (simp add: loadOffer_db_def loadOffers_def f)
qed

section \<open>How the map follows the tables\<close>

lemma view_account:
  assumes "map_ok (tb_accounts db)" "\<And>a. a \<noteq> i \<Longrightarrow> signer_rows a t = signer_rows a (tb_signers db)"
  shows "db_view (db\<lparr>tb_accounts := map_put i r (tb_accounts db), tb_signers := t\<rparr>) =
    (db_view db)(AccountKey i \<mapsto> \<lparr>lastModifiedLedgerSeq = ar_lastmodified r, edata = AccountData (account_of_row i r (signer_rows i t))\<rparr>)"
proof
  fix k
  show "db_view (db\<lparr>tb_accounts := map_put i r (tb_accounts db), tb_signers := t\<rparr>) k =
      ((db_view db)(AccountKey i \<mapsto> \<lparr>lastModifiedLedgerSeq = ar_lastmodified r, edata = AccountData (account_of_row i r (signer_rows i t))\<rparr>)) k"
    using assms by (cases k) (simp_all add: map_of_put loadData_def loadReversedPayment_def)
qed

lemma view_account_erase:
  assumes "\<And>a. a \<noteq> i \<Longrightarrow> signer_rows a t = signer_rows a (tb_signers db)"
  shows "db_view (db\<lparr>tb_accounts := map_erase i (tb_accounts db), tb_signers := t\<rparr>) = (db_view db)(AccountKey i := None)"
proof
  fix k
  show "db_view (db\<lparr>tb_accounts := map_erase i (tb_accounts db), tb_signers := t\<rparr>) k = ((db_view db)(AccountKey i := None)) k"
    using assms by (cases k) (simp_all add: loadData_def loadReversedPayment_def)
qed

lemma view_trust:
  assumes "map_ok (tb_trustlines db)" "x \<noteq> AssetNative" "asset_ok x"
  shows "db_view (db\<lparr>tb_trustlines := map_put (getKeyFields a x) r (tb_trustlines db)\<rparr>) =
    (db_view db)(TrustLineKey a x \<mapsto> \<lparr>lastModifiedLedgerSeq = tr_lastmodified r, edata = TrustLineData (trust_of_row (getKeyFields a x) r)\<rparr>)"
proof
  fix k
  show "db_view (db\<lparr>tb_trustlines := map_put (getKeyFields a x) r (tb_trustlines db)\<rparr>) k =
    ((db_view db)(TrustLineKey a x \<mapsto> \<lparr>lastModifiedLedgerSeq = tr_lastmodified r, edata = TrustLineData (trust_of_row (getKeyFields a x) r)\<rparr>)) k"
    using assms getKeyFields_inj [of _ _ a x] by (cases k) (auto simp: map_of_put loadData_def loadReversedPayment_def)
qed

lemma view_trust_erase:
  assumes "x \<noteq> AssetNative" "asset_ok x"
  shows "db_view (db\<lparr>tb_trustlines := map_erase (getKeyFields a x) (tb_trustlines db)\<rparr>) = (db_view db)(TrustLineKey a x := None)"
proof
  fix k
  show "db_view (db\<lparr>tb_trustlines := map_erase (getKeyFields a x) (tb_trustlines db)\<rparr>) k = ((db_view db)(TrustLineKey a x := None)) k"
    using assms getKeyFields_inj [of _ _ a x] by (cases k) (auto simp: loadData_def loadReversedPayment_def)
qed

lemma view_offer:
  assumes "map_ok (tb_offers db)" "\<And>r0. map_of (tb_offers db) i = Some r0 \<Longrightarrow> or_sellerid r0 = or_sellerid r" "offer_of_row (i, r) = Inr f"
  shows "db_view (db\<lparr>tb_offers := map_put i r (tb_offers db)\<rparr>) = (db_view db)(OfferKey (or_sellerid r) i \<mapsto> offer_entry f)"
proof
  fix k
  show "db_view (db\<lparr>tb_offers := map_put i r (tb_offers db)\<rparr>) k = ((db_view db)(OfferKey (or_sellerid r) i \<mapsto> offer_entry f)) k"
  proof (cases k)
    case (OfferKey b j)
    then show ?thesis
      using assms(2) [of "the (map_of (tb_offers db) i)"] assms(3)
      by (cases "j = i"; cases "map_of (tb_offers db) i") (auto simp: map_of_put [OF assms(1)])
  qed (simp_all add: loadData_def loadReversedPayment_def)
qed

lemma view_offer_erase:
  assumes "\<And>r0. map_of (tb_offers db) i = Some r0 \<Longrightarrow> or_sellerid r0 = a"
  shows "db_view (db\<lparr>tb_offers := map_erase i (tb_offers db)\<rparr>) = (db_view db)(OfferKey a i := None)"
proof
  fix k
  show "db_view (db\<lparr>tb_offers := map_erase i (tb_offers db)\<rparr>) k = ((db_view db)(OfferKey a i := None)) k"
  proof (cases k)
    case (OfferKey b j)
    then show ?thesis
      using assms [of "the (map_of (tb_offers db) i)"]
      by (cases "j = i"; cases "map_of (tb_offers db) i") auto
  qed (simp_all add: loadData_def loadReversedPayment_def)
qed

lemma view_data:
  assumes "map_ok (tb_accountdata db)"
  shows "db_view (db\<lparr>tb_accountdata := map_put (a, n) v (tb_accountdata db)\<rparr>) =
     (db_view db)(DataKey a n \<mapsto> data_entry (data_of_row ((a, n), v)))"
proof
  fix k
  show "db_view (db\<lparr>tb_accountdata := map_put (a, n) v (tb_accountdata db)\<rparr>) k =
      ((db_view db)(DataKey a n \<mapsto> data_entry (data_of_row ((a, n), v)))) k"
    using assms by (cases k) (simp_all add: map_of_put loadData_def loadReversedPayment_def)
qed

lemma view_data_erase:
  "db_view (db\<lparr>tb_accountdata := map_erase (a, n) (tb_accountdata db)\<rparr>) = (db_view db)(DataKey a n := None)"
proof
  fix k
  show "db_view (db\<lparr>tb_accountdata := map_erase (a, n) (tb_accountdata db)\<rparr>) k = ((db_view db)(DataKey a n := None)) k"
    by (cases k) (simp_all add: loadData_def loadReversedPayment_def)
qed

lemma view_reversed:
  assumes "map_ok (tb_reversed db)"
  shows "db_view (db\<lparr>tb_reversed := map_put i m (tb_reversed db)\<rparr>) =
     (db_view db)(ReversedPaymentKey i \<mapsto> \<lparr>lastModifiedLedgerSeq = m, edata = ReversedPaymentData \<lparr>r_rID = i\<rparr>\<rparr>)"
proof
  fix k
  show "db_view (db\<lparr>tb_reversed := map_put i m (tb_reversed db)\<rparr>) k =
      ((db_view db)(ReversedPaymentKey i \<mapsto> \<lparr>lastModifiedLedgerSeq = m, edata = ReversedPaymentData \<lparr>r_rID = i\<rparr>\<rparr>)) k"
    using assms by (cases k) (simp_all add: map_of_put loadData_def loadReversedPayment_def reversed_entry_def)
qed

lemma view_reversed_erase:
  "db_view (db\<lparr>tb_reversed := map_erase i (tb_reversed db)\<rparr>) = (db_view db)(ReversedPaymentKey i := None)"
proof
  fix k
  show "db_view (db\<lparr>tb_reversed := map_erase i (tb_reversed db)\<rparr>) k = ((db_view db)(ReversedPaymentKey i := None)) k"
    by (cases k) (simp_all add: loadData_def loadReversedPayment_def)
qed

end
