(* ===== verification/Ledger_Store.thy ===== *)
theory Ledger_Store
  imports Ledger_View
begin

text \<open>
  The invariant of the ledger state while changes are made: the tables and the cache are consistent, and
  the delta records exactly the difference between the entries at its start and the entries now. Every
  load and store keeps it and changes the map of entries as its name says.
\<close>

section \<open>The invariant\<close>

lemma flush_tables [simp]:
  "tb_accounts (flushCachedEntry k db) = tb_accounts db" "tb_signers (flushCachedEntry k db) = tb_signers db"
  "tb_trustlines (flushCachedEntry k db) = tb_trustlines db" "tb_offers (flushCachedEntry k db) = tb_offers db"
  "tb_accountdata (flushCachedEntry k db) = tb_accountdata db" "tb_reversed (flushCachedEntry k db) = tb_reversed db"
  by (simp_all add: flushCachedEntry_def)

text \<open>
  The table of account data does not hold the ledger an entry was modified in, so the database and the delta
  agree on data entries only up to that field.
\<close>

definition unstamped :: "LedgerEntry \<Rightarrow> LedgerEntry" where
  "unstamped e = (case edata e of DataData _ \<Rightarrow> e\<lparr>lastModifiedLedgerSeq := 0\<rparr> | _ \<Rightarrow> e)"

definition agree :: "ledger_map \<Rightarrow> ledger_map \<Rightarrow> bool" where
  "agree m1 m2 \<longleftrightarrow> (\<forall>k. map_option unstamped (m1 k) = map_option unstamped (m2 k))"

abbreviation entries :: "Ledger \<Rightarrow> ledger_map" where
  "entries s \<equiv> db_view (st_db s)"

definition ledger_ok :: "ledger_map \<Rightarrow> Ledger \<Rightarrow> bool" where
  "ledger_ok m s \<longleftrightarrow>
     database_ok (st_db s) \<and> delta_ok m (st_delta s) \<and> agree (effect (st_delta s) m) (entries s) \<and>
     (mUpdateLastModified (st_delta s) \<longrightarrow> lh_ledgerSeq (mCurrentHeader (st_delta s)) \<noteq> 0)"

definition same_run :: "Ledger \<Rightarrow> Ledger \<Rightarrow> bool" where
  "same_run s s1 \<longleftrightarrow>
     mCurrentHeader (st_delta s1) = mCurrentHeader (st_delta s) \<and>
     mPreviousHeaderValue (st_delta s1) = mPreviousHeaderValue (st_delta s) \<and>
     mUpdateLastModified (st_delta s1) = mUpdateLastModified (st_delta s)"

definition stamp :: "Ledger \<Rightarrow> uint32 \<Rightarrow> uint32" where
  "stamp s n = (if mUpdateLastModified (st_delta s) then lh_ledgerSeq (mCurrentHeader (st_delta s)) else n)"

lemma same_run_refl [simp]: "same_run s s"
  by (simp add: same_run_def)

lemma same_run_trans: "same_run s s1 \<Longrightarrow> same_run s1 s2 \<Longrightarrow> same_run s s2"
  by (simp add: same_run_def)

lemma same_run_stamp: "same_run s s1 \<Longrightarrow> stamp s1 n = stamp s n"
  by (simp add: same_run_def stamp_def)

lemma agree_refl: "agree m m"
  by (simp add: agree_def)

lemma agree_trans: "agree m1 m2 \<Longrightarrow> agree m2 m3 \<Longrightarrow> agree m1 m3"
  by (simp add: agree_def)

lemma agree_None: "agree m1 m2 \<Longrightarrow> m1 k = None \<longleftrightarrow> m2 k = None"
  unfolding agree_def by (metis option.map_disc_iff)

lemma agree_upd: "agree m1 m2 \<Longrightarrow> unstamped e = unstamped e' \<Longrightarrow> agree (m1(k \<mapsto> e)) (m2(k \<mapsto> e'))"
  by (simp add: agree_def)

lemma agree_del: "agree m1 m2 \<Longrightarrow> agree (m1(k := None)) (m2(k := None))"
  by (simp add: agree_def)

lemma op_legal_agree: "agree m1 m2 \<Longrightarrow> op_legal x m2 \<Longrightarrow> op_legal x m1"
  by (cases x) (simp_all add: agree_None)

lemma op_effect_agree: "agree m1 m2 \<Longrightarrow> agree (op_effect x m1) (op_effect x m2)"
  by (cases x) (simp_all add: agree_upd agree_del)

lemma touch_stamp: "ledger_ok m s \<Longrightarrow> touch (st_delta s) n = Inr (stamp s n)"
  by (auto simp: ledger_ok_def touch_def stamp_def assertE_def)

lemma delta_step_update: "delta_step x d = Inr d' \<Longrightarrow> mUpdateLastModified d' = mUpdateLastModified d"
  by (cases x) (auto simp: addEntry_def modEntry_def deleteEntry_def recordEntry_def Let_def bindE_Inr_iff split: if_splits)

text \<open>A change of the database together with the same change of the delta.\<close>

lemma ledger_step:
  assumes s: "ledger_ok m s" and legal: "op_legal x (entries s)" and db: "database_ok db" "agree (op_effect x (entries s)) (db_view db)"
  shows "\<exists>d. delta_step x (st_delta s) = Inr d \<and> ledger_ok m (s\<lparr>st_db := db, st_delta := d\<rparr>) \<and>
    same_run s (s\<lparr>st_db := db, st_delta := d\<rparr>)"
proof -
  have a: "agree (effect (st_delta s) m) (entries s)" and d: "delta_ok m (st_delta s)"
    using s by (simp_all add: ledger_ok_def)
  obtain d where d: "delta_step x (st_delta s) = Inr d" "delta_ok m d" "effect d m = op_effect x (effect (st_delta s) m)"
    using ld.step_legal [OF d op_legal_agree [OF a legal]] by blast
  have "agree (effect d m) (db_view db)"
    unfolding d(3) by (rule agree_trans [OF op_effect_agree [OF a] db(2)])
  with s d db(1) delta_step_header [OF d(1)] delta_step_update [OF d(1)] show ?thesis
    by (intro exI [of _ d]) (simp add: ledger_ok_def same_run_def)
qed

lemma onDelta_step: "f (st_delta s) = Inr d \<Longrightarrow> onDelta f s = Inr ((), s\<lparr>st_delta := d\<rparr>)"
  by (simp add: onDelta_def)

lemma withDB_step: "f (st_db s) = Inr (x, db) \<Longrightarrow> withDB f s = Inr (x, s\<lparr>st_db := db\<rparr>)"
  by (simp add: withDB_def)

lemma recordEntry_step:
  assumes "ledger_ok m s"
  shows "\<exists>s1. onDelta (recordEntry e) s = Inr ((), s1) \<and> ledger_ok m s1 \<and> st_db s1 = st_db s \<and> same_run s s1"
proof -
  have "database_ok (st_db s)" using assms by (simp add: ledger_ok_def)
  then obtain d where "delta_step (Record e) (st_delta s) = Inr d" "ledger_ok m (s\<lparr>st_delta := d\<rparr>)" "same_run s (s\<lparr>st_delta := d\<rparr>)"
    using ledger_step [OF assms, of "Record e" "st_db s"] by (auto simp: agree_refl)
  then show ?thesis by (auto simp: onDelta_step)
qed

lemma ledger_ok_db:
  assumes "ledger_ok m s" "database_ok db" "db_view db = entries s"
  shows "ledger_ok m (s\<lparr>st_db := db\<rparr>)"
  using assms by (simp add: ledger_ok_def)

section \<open>Loading\<close>

definition loaded :: "ledger_map \<Rightarrow> Ledger \<Rightarrow> Ledger \<Rightarrow> bool" where
  "loaded m s s1 \<longleftrightarrow> ledger_ok m s1 \<and> entries s1 = entries s \<and> tb_offers (st_db s1) = tb_offers (st_db s) \<and>
     tb_signers (st_db s1) = tb_signers (st_db s) \<and> same_run s s1"

lemma loaded_refl: "ledger_ok m s \<Longrightarrow> loaded m s s"
  by (simp add: loaded_def)

lemma loaded_trans: "loaded m s s1 \<Longrightarrow> loaded m s1 s2 \<Longrightarrow> loaded m s s2"
  by (auto simp: loaded_def intro: same_run_trans)

lemma loaded_ok: "loaded m s s1 \<Longrightarrow> ledger_ok m s1"
  by (simp add: loaded_def)

lemma loadAccount_loaded:
  assumes "ledger_ok m s"
  shows "\<exists>f s1. loadAccount i s = Inr (f, s1) \<and> loaded m s s1 \<and> map_option account_entry f = entries s (AccountKey i)"
proof -
  have "database_ok (st_db s)" using assms by (simp add: ledger_ok_def)
  from loadAccount_db_view [OF this, of i] obtain f c where f: "loadAccount_db i (st_db s) = Inr (f, (st_db s)\<lparr>mEntryCache := c\<rparr>)"
    "database_ok ((st_db s)\<lparr>mEntryCache := c\<rparr>)" "map_option account_entry f = entries s (AccountKey i)" by blast
  let ?s = "s\<lparr>st_db := (st_db s)\<lparr>mEntryCache := c\<rparr>\<rparr>"
  have ok: "ledger_ok m ?s" by (rule ledger_ok_db [OF assms f(2)]) simp
  have w: "withDB (loadAccount_db i) s = Inr (f, ?s)" by (simp add: withDB_def f(1))
  show ?thesis
  proof (cases f)
    case None
    with f ok show ?thesis
      by (intro exI [of _ None] exI [of _ ?s]) (simp add: loadAccount_def bindL_step [where m = "withDB _", OF w] loaded_def same_run_def)
  next
    case (Some g)
    from recordEntry_step [OF ok, of "account_entry g"] obtain s1 where s1: "onDelta (recordEntry (account_entry g)) ?s = Inr ((), s1)"
      "ledger_ok m s1" "st_db s1 = st_db ?s" "same_run ?s s1" by blast
    have "loaded m s s1" using s1 by (simp add: loaded_def same_run_def)
    with Some f(3) s1(1) show ?thesis
      by (intro exI [of _ f] exI [of _ s1])
         (simp add: loadAccount_def bindL_step [where m = "withDB _", OF w] bindL_step [where m = "onDelta _"])
  qed
qed

lemma loadTrustLine_loaded:
  assumes "ledger_ok m s" "x \<noteq> AssetNative" "asset_ok x"
  shows "\<exists>f s1. loadTrustLine a x s = Inr (f, s1) \<and> loaded m s s1 \<and> map_option trust_entry f = entries s (TrustLineKey a x) \<and>
    (\<forall>g. f = Some g \<longrightarrow> \<not> mIsIssuer g)"
proof -
  have "database_ok (st_db s)" using assms(1) by (simp add: ledger_ok_def)
  from loadTrustLine_db_view [OF this assms(2,3), of a] obtain b f c
    where f: "loadTrustLine_db a x (st_db s) = Inr ((b, f), (st_db s)\<lparr>mEntryCache := c\<rparr>)"
    "database_ok ((st_db s)\<lparr>mEntryCache := c\<rparr>)" "map_option trust_entry f = entries s (TrustLineKey a x)" "\<forall>g. f = Some g \<longrightarrow> \<not> mIsIssuer g" by blast
  let ?s = "s\<lparr>st_db := (st_db s)\<lparr>mEntryCache := c\<rparr>\<rparr>"
  have ok: "ledger_ok m ?s" by (rule ledger_ok_db [OF assms(1) f(2)]) simp
  have w: "withDB (loadTrustLine_db a x) s = Inr ((b, f), ?s)" by (simp add: withDB_def f(1))
  from ok have load: "loaded m s ?s" by (simp add: loaded_def same_run_def)
  show ?thesis
  proof (cases "f = None \<or> b")
    case True
    with f load show ?thesis
      by (intro exI [of _ f] exI [of _ ?s])
         (auto simp: loadTrustLine_def bindL_step [where m = "withDB _", OF w] split: option.split)
  next
    case False
    then obtain g where g: "f = Some g" "\<not> b" by auto
    from recordEntry_step [OF ok, of "trust_entry g"] obtain s1 where s1: "onDelta (recordEntry (trust_entry g)) ?s = Inr ((), s1)"
      "ledger_ok m s1" "st_db s1 = st_db ?s" "same_run ?s s1" by blast
    have "loaded m s s1" using s1 by (simp add: loaded_def same_run_def)
    with g f(3,4) s1(1) show ?thesis
      by (intro exI [of _ f] exI [of _ s1])
         (simp add: loadTrustLine_def bindL_step [where m = "withDB _", OF w] bindL_step [where m = "onDelta _"])
  qed
qed

lemma loadOffer_loaded:
  assumes "ledger_ok m s"
  shows "\<exists>f s1. loadOffer a i s = Inr (f, s1) \<and> loaded m s s1 \<and> map_option offer_entry f = entries s (OfferKey a i)"
proof -
  have "database_ok (st_db s)" using assms by (simp add: ledger_ok_def)
  from loadOffer_db_view [OF this, of a i] obtain f
    where f: "loadOffer_db a i (st_db s) = Inr f" "map_option offer_entry f = entries s (OfferKey a i)" by blast
  have w: "withDB (\<lambda>db. bindE (loadOffer_db a i db) (\<lambda>x. Inr (x, db))) s = Inr (f, s)"
    by (simp add: withDB_def f(1))
  show ?thesis
  proof (cases f)
    case None
    with f(2) assms show ?thesis
      by (intro exI [of _ None] exI [of _ s]) (simp add: loadOffer_def bindL_step [where m = "withDB _", OF w] loaded_refl)
  next
    case (Some g)
    from recordEntry_step [OF assms, of "offer_entry g"] obtain s1 where s1: "onDelta (recordEntry (offer_entry g)) s = Inr ((), s1)"
      "ledger_ok m s1" "st_db s1 = st_db s" "same_run s s1" by blast
    then have "loaded m s s1" by (simp add: loaded_def)
    with Some f(2) s1(1) show ?thesis
      by (intro exI [of _ f] exI [of _ s1])
         (simp add: loadOffer_def bindL_step [where m = "withDB _", OF w] bindL_step [where m = "onDelta _"])
  qed
qed

section \<open>Storing accounts\<close>

definition signers_ok :: "Database \<Rightarrow> AccountFrame \<Rightarrow> bool" where
  "signers_ok db f \<longleftrightarrow>
     (let new = a_signers (af_account f); old = signer_rows (account_getID f) (tb_signers db)
      in (a_numSubEntries (af_account f) = 0 \<longrightarrow> new = []) \<and>
         (if mUpdateSigners f then signers_sorted new \<and> types_kept new old else new = old))"

definition stamped :: "Ledger \<Rightarrow> AccountFrame \<Rightarrow> AccountFrame" where
  "stamped s f = f\<lparr>af_lastModified := stamp s (af_lastModified f)\<rparr>"

lemma stamped_simps [simp]:
  "af_account (stamped s f) = af_account f"
  "mUpdateSigners (stamped s f) = mUpdateSigners f"
  "account_getID (stamped s f) = account_getID f"
  by (simp_all add: stamped_def account_getID_def)

lemma account_of_row_of: "account_of_row (account_getID f) (row_of_account f) (a_signers (af_account f)) = af_account f"
  by (simp add: account_of_row_def row_of_account_def account_getID_def Let_def)

text \<open>The database after a store of an account.\<close>

lemma account_store_db:
  assumes db: "database_ok db" and i: "i = account_getID f" and valid: "account_isValid (af_account f)" "a_balance (af_account f) \<le> INT64_MAX"
    and signers: "signers_ok db f" and row: "ins \<longleftrightarrow> map_of (tb_accounts db) i = None"
  shows "\<exists>t c. (if mUpdateSigners f then applySigners ins f (flushCachedEntry (AccountKey i) db\<lparr>tb_accounts := map_put i (row_of_account f) (tb_accounts db)\<rparr>)
      else Inr ((), flushCachedEntry (AccountKey i) db\<lparr>tb_accounts := map_put i (row_of_account f) (tb_accounts db)\<rparr>)) =
      Inr ((), db\<lparr>tb_accounts := map_put i (row_of_account f) (tb_accounts db), tb_signers := t, mEntryCache := c\<rparr>) \<and>
    database_ok (db\<lparr>tb_accounts := map_put i (row_of_account f) (tb_accounts db), tb_signers := t, mEntryCache := c\<rparr>) \<and>
    db_view (db\<lparr>tb_accounts := map_put i (row_of_account f) (tb_accounts db), tb_signers := t, mEntryCache := c\<rparr>) =
      (db_view db)(AccountKey i \<mapsto> account_entry f)"
proof -
  let ?new = "a_signers (af_account f)" and ?acc = "map_put i (row_of_account f) (tb_accounts db)"
  let ?db1 = "flushCachedEntry (AccountKey i) db\<lparr>tb_accounts := ?acc\<rparr>"
  have ok: "tables_ok db" "cache_ok (db_view db) db" using db by (simp_all add: database_ok_def)
  have maps: "map_ok (tb_accounts db)" "map_ok (tb_signers db)" using ok(1) by (simp_all add: tables_ok_def)
  obtain t changed where t: "(if mUpdateSigners f then applySigners ins f ?db1 else Inr ((), ?db1)) =
      Inr ((), if changed then flushCachedEntry (AccountKey i) (?db1\<lparr>tb_signers := t\<rparr>) else ?db1\<lparr>tb_signers := t\<rparr>)"
    "map_ok t" "signer_rows i t = ?new" "\<And>a. a \<noteq> i \<Longrightarrow> signer_rows a t = signer_rows a (tb_signers db)"
  proof (cases "mUpdateSigners f")
    case True
    have same: "tb_signers ?db1 = tb_signers db" by (simp add: flushCachedEntry_def)
    have "\<exists>t changed. applySigners ins f ?db1 =
        Inr ((), if changed then flushCachedEntry (AccountKey i) (?db1\<lparr>tb_signers := t\<rparr>) else ?db1\<lparr>tb_signers := t\<rparr>) \<and>
      map_ok t \<and> signer_rows i t = ?new \<and> (\<forall>a. a \<noteq> i \<longrightarrow> signer_rows a t = signer_rows a (tb_signers ?db1))"
    proof (rule applySigners_rows [OF _ _ i])
      show "ins \<Longrightarrow> signer_rows i (tb_signers ?db1) = []"
        using row tables_okD(3) [OF ok(1), of i] by (simp add: same account_row_ok_def)
    qed (use True signers maps i in \<open>auto simp: same signers_ok_def Let_def\<close>)
    with True same that show thesis by auto
  next
    case False
    have "?db1 = ?db1\<lparr>tb_signers := tb_signers db\<rparr>" by (simp add: flushCachedEntry_def)
    with False signers i maps that [of False "tb_signers db"] show thesis by (simp add: signers_ok_def Let_def)
  qed
  define c where "c = (if changed then lru_erase_if_exists (AccountKey i) (lru_erase_if_exists (AccountKey i) (mEntryCache db))
     else lru_erase_if_exists (AccountKey i) (mEntryCache db))"
  let ?db2 = "db\<lparr>tb_accounts := ?acc, tb_signers := t, mEntryCache := c\<rparr>"
  have final: "(if changed then flushCachedEntry (AccountKey i) (?db1\<lparr>tb_signers := t\<rparr>) else ?db1\<lparr>tb_signers := t\<rparr>) = ?db2"
    by (simp add: flushCachedEntry_def c_def)
  have view: "db_view ?db2 = (db_view db)(AccountKey i \<mapsto> account_entry f)"
    using view_account [OF maps(1) t(4), where r = "row_of_account f"] account_of_row_of [of f] t(3) i
    by (simp add: account_entry_def row_of_account_def Let_def)
  have "cache_ok ((db_view db)(AccountKey i \<mapsto> account_entry f)) (flushCachedEntry (AccountKey i) db)"
    by (rule cache_ok_flush [OF ok(2)]) simp
  then have "cache_ok ((db_view db)(AccountKey i \<mapsto> account_entry f)) ?db2"
    by (simp add: distinct_map_erase cache_ok_def cache_of_def c_def flushCachedEntry_def lru_erase_if_exists_def del: fun_upd_apply map_of_eq_Some_iff)
  moreover have "tables_ok ?db2"
  proof -
    have "account_row_ok t a (map_of ?acc a)" for a
      using tables_okD(3) [OF ok(1), of a] valid signers t(3,4)
      by (cases "a = i") (auto simp: account_row_ok_def map_of_put [OF maps(1)] row_of_account_def Let_def account_isValid_def signers_ok_def split: option.splits)
    with ok(1) t(2) maps show ?thesis by (simp add: tables_ok_def map_ok_put)
  qed
  ultimately show ?thesis
    using t(1) final view by (intro exI [of _ t] exI [of _ c]) (simp add: database_ok_def)
qed

definition wrote :: "ledger_map \<Rightarrow> Ledger \<Rightarrow> Ledger \<Rightarrow> LedgerKey \<Rightarrow> LedgerEntry option \<Rightarrow> bool" where
  "wrote m s s1 k v \<longleftrightarrow> ledger_ok m s1 \<and> entries s1 = (entries s)(k := v) \<and> same_run s s1"

lemma stored_ok: "wrote m s s1 k v \<Longrightarrow> ledger_ok m s1"
  by (simp add: wrote_def)

text \<open>The last part of every store: the row is written and the change recorded in the delta.\<close>

lemma store_step:
  assumes s: "ledger_ok m s" and db: "database_ok db" and view: "db_view db = (entries s)(LedgerEntryKey e \<mapsto> e')"
    and e: "unstamped e = unstamped e'" and row: "ins \<longleftrightarrow> entries s (LedgerEntryKey e) = None"
  shows "\<exists>d. (if ins then addEntry e else modEntry e) (st_delta s) = Inr d \<and>
    wrote m s (s\<lparr>st_db := db, st_delta := d\<rparr>) (LedgerEntryKey e) (Some e')"
proof -
  let ?x = "if ins then Add e else Change e"
  have "op_legal ?x (entries s)" "agree (op_effect ?x (entries s)) (db_view db)"
    using row view e by (simp_all add: agree_upd agree_refl)
  then obtain d where "delta_step ?x (st_delta s) = Inr d" "ledger_ok m (s\<lparr>st_db := db, st_delta := d\<rparr>)"
      "same_run s (s\<lparr>st_db := db, st_delta := d\<rparr>)"
    using ledger_step [OF s _ db] by blast
  with view show ?thesis by (intro exI [of _ d]) (simp add: wrote_def split: if_splits)
qed

lemma delete_step:
  assumes s: "ledger_ok m s" and db: "database_ok db" and view: "db_view db = (entries s)(k := None)" and row: "entries s k \<noteq> None"
  shows "\<exists>d. deleteEntry k (st_delta s) = Inr d \<and> wrote m s (s\<lparr>st_db := db, st_delta := d\<rparr>) k None"
proof -
  have "op_legal (Remove k) (entries s)" "agree (op_effect (Remove k) (entries s)) (db_view db)"
    using row view by (simp_all add: agree_refl)
  from ledger_step [OF s this(1) db this(2)] view show ?thesis by (auto simp: wrote_def)
qed

lemma account_key: "LedgerEntryKey (account_entry f) = AccountKey (account_getID f)"
  by (simp add: LedgerEntryKey_def account_entry_def account_getID_def)

lemma account_stored:
  assumes s: "ledger_ok m s" and valid: "account_isValid (af_account f)" "a_balance (af_account f) \<le> INT64_MAX"
    and signers: "signers_ok (st_db s) f" and row: "ins \<longleftrightarrow> entries s (AccountKey (account_getID f)) = None"
  shows "\<exists>s1. account_storeUpdate ins f s = Inr (stamped s f, s1) \<and>
    wrote m s s1 (AccountKey (account_getID f)) (Some (account_entry (stamped s f))) \<and> tb_offers (st_db s1) = tb_offers (st_db s)"
proof -
  let ?f = "stamped s f" and ?i = "account_getID f" and ?db = "st_db s"
  let ?acc = "map_put ?i (row_of_account ?f) (tb_accounts ?db)"
  let ?db1 = "flushCachedEntry (AccountKey ?i) ?db\<lparr>tb_accounts := ?acc\<rparr>"
  have db: "database_ok ?db" using s by (simp add: ledger_ok_def)
  have row': "ins \<longleftrightarrow> map_of (tb_accounts ?db) ?i = None" using row by simp
  have sg: "signers_ok ?db ?f" using signers by (simp add: signers_ok_def)
  obtain t c where t: "(if mUpdateSigners ?f then applySigners ins ?f ?db1 else Inr ((), ?db1)) =
      Inr ((), ?db\<lparr>tb_accounts := ?acc, tb_signers := t, mEntryCache := c\<rparr>)"
    "database_ok (?db\<lparr>tb_accounts := ?acc, tb_signers := t, mEntryCache := c\<rparr>)"
    "db_view (?db\<lparr>tb_accounts := ?acc, tb_signers := t, mEntryCache := c\<rparr>) = (entries s)(AccountKey ?i \<mapsto> account_entry ?f)"
    using account_store_db [OF db, of ?i ?f ins] valid sg row' by auto
  have key: "LedgerEntryKey (account_entry ?f) = AccountKey ?i" by (simp add: account_key)
  obtain d where d: "(if ins then addEntry (account_entry ?f) else modEntry (account_entry ?f)) (st_delta s) = Inr d"
    "wrote m s (s\<lparr>st_db := ?db\<lparr>tb_accounts := ?acc, tb_signers := t, mEntryCache := c\<rparr>, st_delta := d\<rparr>) (AccountKey ?i) (Some (account_entry ?f))"
    using store_step [OF s t(2), of "account_entry ?f" "account_entry ?f" ins] t(3) row key by auto
  have sql: "(if ins then sql_insert ?i (row_of_account ?f) (tb_accounts ?db) else sql_update ?i (\<lambda>_. row_of_account ?f) (tb_accounts ?db)) = Inr ?acc"
    using row' by (auto simp: sql_insert_def sql_update_def)
  let ?s1 = "s\<lparr>st_db := ?db\<lparr>tb_accounts := ?acc, tb_signers := t, mEntryCache := c\<rparr>, st_delta := d\<rparr>"
  have "account_storeUpdate ins f s = Inr (?f, ?s1)"
  proof -
    have touch: "liftE (touch (st_delta s) (af_lastModified f)) = liftE (Inr (stamp s (af_lastModified f)))"
      by (simp add: touch_stamp [OF s])
    have assert: "liftE (assertE (account_isValid (af_account f))) = liftE (Inr ())"
      using valid by (simp add: assertE_def)
    have w1: "withDB (\<lambda>db. let db1 = flushCachedEntry (AccountKey ?i) db
        in bindE (if ins then sql_insert ?i (row_of_account ?f) (tb_accounts db1)
                  else sql_update ?i (\<lambda>_. row_of_account ?f) (tb_accounts db1)) (\<lambda>t. Inr ((), db1\<lparr>tb_accounts := t\<rparr>))) s =
      Inr ((), s\<lparr>st_db := ?db1\<rparr>)"
      unfolding withDB_def Let_def flush_tables sql by simp
    have w2: "onDelta (if ins then addEntry (account_entry ?f) else modEntry (account_entry ?f)) (s\<lparr>st_db := ?db1\<rparr>) =
      Inr ((), s\<lparr>st_db := ?db1, st_delta := d\<rparr>)"
      using d(1) by (simp add: onDelta_def)
    have w3: "(if mUpdateSigners ?f then withDB (applySigners ins ?f) else returnL ()) (s\<lparr>st_db := ?db1, st_delta := d\<rparr>) = Inr ((), ?s1)"
      using t(1) by (cases "mUpdateSigners f") (simp_all add: withDB_def)
    note steps = bindL_step [where m = "withDB _", OF w1 [unfolded Let_def]] bindL_step [where m = "onDelta _", OF w2]
      bindL_step [where m = "if _ then _ else _", OF w3 [unfolded stamped_simps]]
    show ?thesis
      by (simp only: account_storeUpdate_def assert touch bindL_simps Let_def stamped_def [symmetric] stamped_simps steps led_simps)
  qed
  with d(2) show ?thesis by (intro exI [of _ ?s1]) simp
qed

end
