(* ===== verification/Ledger_Rows.thy ===== *)
theory Ledger_Rows
  imports Ledger_Store
begin

text \<open>
  What storing and deleting trust lines, offers, account data and reversed payments, and deleting accounts,
  do to the ledger state: each keeps its invariant and changes the map of entries in one place.
\<close>

lemma db_view_tables:
  assumes "tb_accounts a = tb_accounts b" "tb_signers a = tb_signers b" "tb_trustlines a = tb_trustlines b"
    "tb_offers a = tb_offers b" "tb_accountdata a = tb_accountdata b" "tb_reversed a = tb_reversed b"
  shows "db_view a = db_view b"
proof
  fix k
  show "db_view a k = db_view b k"
    using assms by (cases k) (simp_all add: loadData_def loadReversedPayment_def)
qed

lemma tables_ok_trustlines:
  assumes "tables_ok db" "tb_accounts db' = tb_accounts db" "tb_signers db' = tb_signers db" "tb_offers db' = tb_offers db"
    "tb_accountdata db' = tb_accountdata db" "tb_reversed db' = tb_reversed db"
    and "map_ok (tb_trustlines db')" "\<And>k r. map_of (tb_trustlines db') k = Some r \<Longrightarrow> trust_row_ok k r"
  shows "tables_ok db'"
  using assms unfolding tables_ok_def by presburger

section \<open>Storing trust lines\<close>

definition trust_stamped :: "Ledger \<Rightarrow> TrustFrame \<Rightarrow> TrustFrame" where
  "trust_stamped s f = f\<lparr>tf_lastModified := stamp s (tf_lastModified f)\<rparr>"

lemma trust_stamped_simps [simp]:
  "tf_line (trust_stamped s f) = tf_line f"
  "tf_lastModified (trust_stamped s f) = stamp s (tf_lastModified f)"
  "mIsIssuer (trust_stamped s f) = mIsIssuer f"
  "trust_key (trust_stamped s f) = trust_key f"
  by (simp_all add: trust_stamped_def trust_key_def)

lemma trust_entry_key: "LedgerEntryKey (trust_entry f) = trust_key f"
  by (simp add: LedgerEntryKey_def trust_entry_def trust_key_def)

definition row_of_trust :: "TrustFrame \<Rightarrow> TrustRow" where
  "row_of_trust f =
     \<lparr>tr_assettype = assetType (t_asset (tf_line f)), tr_tlimit = t_limit (tf_line f), tr_balance = t_balance (tf_line f),
      tr_flags = t_flags (tf_line f), tr_lastmodified = tf_lastModified f\<rparr>"

lemma trust_of_row_of:
  assumes "asset_ok (t_asset (tf_line f))" "t_asset (tf_line f) \<noteq> AssetNative"
  shows "trust_of_row (getKeyFields (t_accountID (tf_line f)) (t_asset (tf_line f))) (row_of_trust f) = tf_line f"
  using asset_of_row_type [OF assms] by (simp add: trust_of_row_def row_of_trust_def getKeyFields_credit [OF assms(2)])

lemma trust_stored:
  assumes s: "ledger_ok m s" and valid: "trust_isValid (tf_line f)" "asset_ok (t_asset (tf_line f))" "is_int64 (t_balance (tf_line f))"
      "t_limit (tf_line f) \<le> INT64_MAX" "\<not> mIsIssuer f"
    and row: "ins \<longleftrightarrow> entries s (trust_key f) = None"
  shows "\<exists>s1. trust_store ins f s = Inr (trust_stamped s f, s1) \<and>
    wrote m s s1 (trust_key f) (Some (trust_entry (trust_stamped s f))) \<and> tb_offers (st_db s1) = tb_offers (st_db s)"
proof -
  let ?f = "trust_stamped s f" and ?db = "st_db s" and ?x = "t_asset (tf_line f)"
  let ?k = "getKeyFields (t_accountID (tf_line f)) ?x"
  let ?t = "map_put ?k (row_of_trust ?f) (tb_trustlines ?db)"
  let ?db1 = "flushCachedEntry (trust_key f) ?db"
  let ?db2 = "?db1\<lparr>tb_trustlines := ?t\<rparr>"
  have native: "?x \<noteq> AssetNative" using valid(1) by (simp add: trust_isValid_def)
  have ok: "tables_ok ?db" "cache_ok (db_view ?db) ?db" and map: "map_ok (tb_trustlines ?db)"
    using s by (simp_all add: ledger_ok_def database_ok_def tables_ok_def)
  have old: "entries s (trust_key f) = None \<longleftrightarrow> map_of (tb_trustlines ?db) ?k = None"
    using native valid(2) by (simp add: trust_key_def)
  have line: "trust_of_row ?k (row_of_trust ?f) = tf_line f"
    using trust_of_row_of [of ?f] valid(2) native by simp
  have "db_view ?db2 = db_view (?db\<lparr>tb_trustlines := ?t\<rparr>)" by (rule db_view_tables) simp_all
  then have view: "db_view ?db2 = (entries s)(trust_key f \<mapsto> trust_entry ?f)"
    using view_trust [OF map native valid(2), of "t_accountID (tf_line f)" "row_of_trust ?f"] line
    by (simp add: trust_entry_def trust_key_def row_of_trust_def)
  have "cache_ok ((entries s)(trust_key f \<mapsto> trust_entry ?f)) ?db1"
    by (rule cache_ok_flush [OF ok(2)]) simp
  then have "cache_ok (db_view ?db2) ?db2"
    unfolding view by (simp add: cache_ok_def cache_of_def del: fun_upd_apply)
  moreover have "trust_row_ok ?k (row_of_trust ?f)"
    unfolding trust_row_ok_def line using valid native
    by (auto simp: row_of_trust_def getKeyFields_credit intro!: exI [of _ ?x])
  then have "trust_row_ok k r" if "map_of ?t k = Some r" for k r
    using that tables_okD(1) [OF ok(1)] by (cases "k = ?k") (auto simp: map_of_put [OF map])
  then have "tables_ok ?db2"
    by (intro tables_ok_trustlines [OF ok(1)]) (simp_all add: map_ok_put [OF map])
  ultimately have db: "database_ok ?db2" by (simp add: database_ok_def)
  obtain d where d: "(if ins then addEntry (trust_entry ?f) else modEntry (trust_entry ?f)) (st_delta s) = Inr d"
    "wrote m s (s\<lparr>st_db := ?db2, st_delta := d\<rparr>) (trust_key f) (Some (trust_entry ?f))"
    using store_step [OF s db, of "trust_entry ?f" "trust_entry ?f" ins] view row by (auto simp: trust_entry_key)
  have sql: "(if ins then sql_insert ?k (row_of_trust ?f) (tb_trustlines ?db1)
      else sql_update ?k (\<lambda>r. (row_of_trust ?f)\<lparr>tr_assettype := tr_assettype r\<rparr>) (tb_trustlines ?db1)) = Inr ?t"
  proof (cases ins)
    case True
    with row old show ?thesis by (simp add: sql_insert_def)
  next
    case False
    with row old obtain r where r: "map_of (tb_trustlines ?db) ?k = Some r" by auto
    have "(row_of_trust ?f)\<lparr>tr_assettype := tr_assettype r\<rparr> = row_of_trust ?f"
      using trust_row_asset(2) [OF tables_okD(1) [OF ok(1) r] native valid(2)] by (simp add: row_of_trust_def)
    with False r show ?thesis by (simp add: sql_update_def)
  qed
  have "trust_store ins f s = Inr (?f, s\<lparr>st_db := ?db2, st_delta := d\<rparr>)"
    using valid(1,5) d(1) sql
    by (cases ins; simp add: trust_store_def bindL_def withDB_def touch_stamp [OF s] Let_def row_of_trust_def trust_stamped_def onDelta_def)
  with d(2) show ?thesis by (intro exI [of _ "s\<lparr>st_db := ?db2, st_delta := d\<rparr>"]) simp
qed

lemma trust_erase_db:
  fixes a :: AccountID
  assumes db: "database_ok db" and x: "x \<noteq> AssetNative" "asset_ok x"
  defines "db1 \<equiv> flushCachedEntry (TrustLineKey a x) db\<lparr>tb_trustlines := map_erase (getKeyFields a x) (tb_trustlines db)\<rparr>"
  shows "database_ok db1" "db_view db1 = (db_view db)(TrustLineKey a x := None)"
proof -
  have ok: "tables_ok db" "cache_ok (db_view db) db" and map: "map_ok (tb_trustlines db)"
    using db by (simp_all add: database_ok_def tables_ok_def)
  have "db_view db1 = db_view (db\<lparr>tb_trustlines := map_erase (getKeyFields a x) (tb_trustlines db)\<rparr>)"
    by (rule db_view_tables) (simp_all add: db1_def)
  then show view: "db_view db1 = (db_view db)(TrustLineKey a x := None)" using view_trust_erase [OF x] by simp
  have "cache_ok ((db_view db)(TrustLineKey a x := None)) (flushCachedEntry (TrustLineKey a x) db)"
    by (rule cache_ok_flush [OF ok(2)]) simp
  then have "cache_ok (db_view db1) db1"
    unfolding view by (simp add: db1_def cache_ok_def cache_of_def del: fun_upd_apply)
  moreover have "tables_ok db1"
    using tables_okD(1) [OF ok(1)]
    by (intro tables_ok_trustlines [OF ok(1)]) (auto simp: db1_def map_ok_erase [OF map] split: if_splits)
  ultimately show "database_ok db1" by (simp add: database_ok_def)
qed

lemma trust_deleted:
  assumes s: "ledger_ok m s" and x: "x \<noteq> AssetNative" "asset_ok x" and row: "entries s (TrustLineKey a x) \<noteq> None"
  shows "\<exists>s1. trust_storeDelete a x s = Inr ((), s1) \<and> wrote m s s1 (TrustLineKey a x) None \<and> tb_offers (st_db s1) = tb_offers (st_db s)"
proof -
  have "database_ok (st_db s)" using s by (simp add: ledger_ok_def)
  from delete_step [OF s trust_erase_db [OF this x] row] show ?thesis
    by (auto simp: trust_storeDelete_def bindL_def withDB_def Let_def onDelta_def)
qed

section \<open>Storing offers\<close>

definition offer_stamped :: "Ledger \<Rightarrow> OfferFrame \<Rightarrow> OfferFrame" where
  "offer_stamped s f = f\<lparr>of_lastModified := stamp s (of_lastModified f)\<rparr>"

lemma offer_stamped_simps [simp]:
  "of_offer (offer_stamped s f) = of_offer f"
  "of_lastModified (offer_stamped s f) = stamp s (of_lastModified f)"
  by (simp_all add: offer_stamped_def)

definition offer_key :: "OfferFrame \<Rightarrow> LedgerKey" where
  "offer_key f = OfferKey (o_sellerID (of_offer f)) (o_offerID (of_offer f))"

lemma offer_entry_key: "LedgerEntryKey (offer_entry f) = offer_key f"
  by (simp add: LedgerEntryKey_def offer_entry_def offer_key_def)

definition offer_ok :: "OfferEntry \<Rightarrow> bool" where
  "offer_ok x \<longleftrightarrow> asset_ok (o_selling x) \<and> asset_ok (o_buying x) \<and> 0 \<le> o_amount x \<and> o_amount x \<le> INT64_MAX"

lemma offer_of_row_of:
  assumes "offer_ok (of_offer f)"
  shows "offer_of_row (o_offerID (of_offer f), row_of_offer fdiv f) = Inr f" "offer_row_ok (row_of_offer fdiv f)"
  using assms by (auto simp: offer_of_row_def row_of_offer_def Let_def offer_ok_def asset_of_columns_of offer_isValid_def asset_ok_def offer_row_ok_def)

lemma tables_ok_offers:
  assumes "tables_ok db" "tb_accounts db' = tb_accounts db" "tb_signers db' = tb_signers db" "tb_trustlines db' = tb_trustlines db"
    "tb_accountdata db' = tb_accountdata db" "tb_reversed db' = tb_reversed db"
    and "map_ok (tb_offers db')" "\<And>k r. map_of (tb_offers db') k = Some r \<Longrightarrow> offer_row_ok r"
  shows "tables_ok db'"
  using assms unfolding tables_ok_def by presburger

lemma cache_ok_uncached:
  assumes "cache_ok v db" "mEntryCache db' = mEntryCache db" "\<And>k. cacheable k \<Longrightarrow> v' k = v k"
  shows "cache_ok v' db'"
  using assms by (auto simp: cache_ok_def cache_of_def)

lemma offer_stored:
  assumes s: "ledger_ok m s" and valid: "offer_ok (of_offer f)"
    and seller: "\<And>r. map_of (tb_offers (st_db s)) (o_offerID (of_offer f)) = Some r \<Longrightarrow> or_sellerid r = o_sellerID (of_offer f)"
    and row: "ins \<longleftrightarrow> map_of (tb_offers (st_db s)) (o_offerID (of_offer f)) = None"
  shows "\<exists>s1. offer_storeUpdateHelper fdiv ins f s = Inr (offer_stamped s f, s1) \<and>
    wrote m s s1 (offer_key f) (Some (offer_entry (offer_stamped s f))) \<and>
    tb_offers (st_db s1) = map_put (o_offerID (of_offer f)) (row_of_offer fdiv (offer_stamped s f)) (tb_offers (st_db s))"
proof -
  let ?f = "offer_stamped s f" and ?db = "st_db s" and ?i = "o_offerID (of_offer f)"
  let ?r = "row_of_offer fdiv ?f"
  let ?db1 = "?db\<lparr>tb_offers := map_put ?i ?r (tb_offers ?db)\<rparr>"
  have ok: "tables_ok ?db" "cache_ok (db_view ?db) ?db" and map: "map_ok (tb_offers ?db)"
    using s by (simp_all add: ledger_ok_def database_ok_def tables_ok_def)
  have of_row: "offer_of_row (?i, ?r) = Inr ?f" and r: "offer_row_ok ?r" using offer_of_row_of [of ?f] valid by simp_all
  have sid: "or_sellerid ?r = o_sellerID (of_offer f)" by (simp add: row_of_offer_def Let_def)
  have view: "db_view ?db1 = (entries s)(offer_key f \<mapsto> offer_entry ?f)"
    using view_offer [OF map _ of_row] seller by (simp add: sid offer_key_def)
  have "cache_ok (db_view ?db1) ?db1"
    by (rule cache_ok_uncached [OF ok(2)]) (auto simp: view offer_key_def)
  moreover have "tables_ok ?db1"
    using tables_okD(2) [OF ok(1)] r
    by (intro tables_ok_offers [OF ok(1)]) (auto simp: map_ok_put [OF map] map_of_put [OF map] split: if_splits)
  ultimately have db: "database_ok ?db1" by (simp add: database_ok_def)
  have "map_of (tb_offers ?db) ?i = None \<longleftrightarrow> entries s (offer_key f) = None"
  proof (cases "map_of (tb_offers ?db) ?i")
    case (Some r0)
    with seller tables_okD(2) [OF ok(1)] obtain g where "or_sellerid r0 = o_sellerID (of_offer f)" "offer_of_row (?i, r0) = Inr g"
      by (metis offer_of_row_ok)
    with Some show ?thesis by (simp add: offer_key_def)
  qed (simp add: offer_key_def)
  then obtain d where d: "(if ins then addEntry (offer_entry ?f) else modEntry (offer_entry ?f)) (st_delta s) = Inr d"
    "wrote m s (s\<lparr>st_db := ?db1, st_delta := d\<rparr>) (offer_key f) (Some (offer_entry ?f))"
    using store_step [OF s db, of "offer_entry ?f" "offer_entry ?f" ins] view row offer_entry_key [of ?f]
    by (auto simp: offer_key_def)
  have sql: "(if ins then sql_insert ?i ?r (tb_offers ?db) else sql_update ?i (\<lambda>r. ?r\<lparr>or_sellerid := or_sellerid r\<rparr>) (tb_offers ?db)) =
      Inr (map_put ?i ?r (tb_offers ?db))"
  proof (cases ins)
    case False
    with row obtain r0 where r0: "map_of (tb_offers ?db) ?i = Some r0" by auto
    have "?r\<lparr>or_sellerid := or_sellerid r0\<rparr> = ?r" using seller [OF r0] sid by simp
    with False r0 show ?thesis by (simp add: sql_update_def)
  qed (use row in \<open>simp add: sql_insert_def\<close>)
  have "offer_storeUpdateHelper fdiv ins f s = Inr (?f, s\<lparr>st_db := ?db1, st_delta := d\<rparr>)"
  proof -
    have "offer_isValid (of_offer f)" "\<not> o_amount (of_offer f) < 0"
      using valid by (simp_all add: offer_ok_def offer_isValid_def asset_ok_def)
    with d(1) sql show ?thesis
      unfolding offer_storeUpdateHelper_def bindL_def getDelta_def
      by (cases ins; simp add: withDB_def touch_stamp [OF s] Let_def offer_stamped_def [symmetric] onDelta_def)
  qed
  with d(2) show ?thesis by (intro exI [of _ "s\<lparr>st_db := ?db1, st_delta := d\<rparr>"]) simp
qed

lemma offer_erase_db:
  assumes db: "database_ok db" and seller: "\<And>r. map_of (tb_offers db) i = Some r \<Longrightarrow> or_sellerid r = a"
  shows "database_ok (db\<lparr>tb_offers := map_erase i (tb_offers db)\<rparr>)"
    "db_view (db\<lparr>tb_offers := map_erase i (tb_offers db)\<rparr>) = (db_view db)(OfferKey a i := None)"
proof -
  let ?db1 = "db\<lparr>tb_offers := map_erase i (tb_offers db)\<rparr>"
  have ok: "tables_ok db" "cache_ok (db_view db) db" and map: "map_ok (tb_offers db)"
    using db by (simp_all add: database_ok_def tables_ok_def)
  show view: "db_view ?db1 = (db_view db)(OfferKey a i := None)"
    using seller by (intro view_offer_erase)
  have "cache_ok (db_view ?db1) ?db1" by (rule cache_ok_uncached [OF ok(2)]) (auto simp: view)
  moreover have "tables_ok ?db1"
    using tables_okD(2) [OF ok(1)] by (intro tables_ok_offers [OF ok(1)]) (auto simp: map_ok_erase [OF map] split: if_splits)
  ultimately show "database_ok ?db1" by (simp add: database_ok_def)
qed

lemma offer_deleted:
  assumes s: "ledger_ok m s" and row: "entries s (OfferKey a i) \<noteq> None"
  shows "\<exists>s1. offer_storeDelete a i s = Inr ((), s1) \<and> wrote m s s1 (OfferKey a i) None \<and>
    tb_offers (st_db s1) = map_erase i (tb_offers (st_db s))"
proof -
  have db: "database_ok (st_db s)" using s by (simp add: ledger_ok_def)
  have "or_sellerid r = a" if "map_of (tb_offers (st_db s)) i = Some r" for r
    using that row by (auto split: if_splits)
  from delete_step [OF s offer_erase_db [OF db this] row] show ?thesis
    by (auto simp: offer_storeDelete_def bindL_def withDB_def onDelta_def)
qed

section \<open>Account data and reversed payments\<close>

text \<open>The entry that a later load returns has lost the ledger it was modified in.\<close>

lemma data_stored:
  assumes s: "ledger_ok m s" and k: "k = DataKey (d_accountID (df_data f)) (d_dataName (df_data f))" and row: "ins \<longleftrightarrow> entries s k = None"
  shows "\<exists>s1. data_storeUpdateHelper ins f s = Inr (f\<lparr>df_lastModified := stamp s (df_lastModified f)\<rparr>, s1) \<and>
    wrote m s s1 k (Some (data_entry (f\<lparr>df_lastModified := 0\<rparr>)))"
proof -
  let ?db = "st_db s" and ?f = "f\<lparr>df_lastModified := stamp s (df_lastModified f)\<rparr>"
  let ?n = "(d_accountID (df_data f), d_dataName (df_data f))" and ?v = "d_dataValue (df_data f)"
  let ?db1 = "?db\<lparr>tb_accountdata := map_put ?n ?v (tb_accountdata ?db)\<rparr>"
  have ok: "tables_ok ?db" "cache_ok (db_view ?db) ?db" and map: "map_ok (tb_accountdata ?db)"
    using s by (simp_all add: ledger_ok_def database_ok_def tables_ok_def)
  have f0: "data_of_row (?n, ?v) = f\<lparr>df_lastModified := 0\<rparr>" by (simp add: data_of_row_def)
  have view: "db_view ?db1 = (entries s)(k \<mapsto> data_entry (f\<lparr>df_lastModified := 0\<rparr>))"
    using view_data [OF map] f0 k by simp
  have "cache_ok (db_view ?db1) ?db1" by (rule cache_ok_uncached [OF ok(2)]) (auto simp: view k)
  moreover have "tables_ok ?db1" using ok(1) map_ok_put [OF map] by (simp add: tables_ok_def)
  ultimately have db: "database_ok ?db1" by (simp add: database_ok_def)
  have key: "LedgerEntryKey (data_entry ?f) = k" "unstamped (data_entry ?f) = unstamped (data_entry (f\<lparr>df_lastModified := 0\<rparr>))"
    using k by (simp_all add: LedgerEntryKey_def data_entry_def unstamped_def)
  have old: "entries s k = None \<longleftrightarrow> map_of (tb_accountdata ?db) ?n = None" by (simp add: k loadData_def)
  obtain d where d: "(if ins then addEntry (data_entry ?f) else modEntry (data_entry ?f)) (st_delta s) = Inr d"
    "wrote m s (s\<lparr>st_db := ?db1, st_delta := d\<rparr>) k (Some (data_entry (f\<lparr>df_lastModified := 0\<rparr>)))"
    using store_step [OF s db, of "data_entry ?f" "data_entry (f\<lparr>df_lastModified := 0\<rparr>)" ins] view row key by auto
  have "(if ins then sql_insert ?n ?v (tb_accountdata ?db) else sql_update ?n (\<lambda>_. ?v) (tb_accountdata ?db)) =
      Inr (map_put ?n ?v (tb_accountdata ?db))"
    using row old by (auto simp: sql_insert_def sql_update_def)
  with d show ?thesis
    unfolding data_storeUpdateHelper_def bindL_def getDelta_def
    by (intro exI [of _ "s\<lparr>st_db := ?db1, st_delta := d\<rparr>"], cases ins; simp add: withDB_def touch_stamp [OF s] Let_def onDelta_def)
qed

lemma data_erase_db:
  assumes "database_ok db"
  shows "database_ok (db\<lparr>tb_accountdata := map_erase (a, n) (tb_accountdata db)\<rparr>)"
proof -
  have ok: "tables_ok db" "cache_ok (db_view db) db" and map: "map_ok (tb_accountdata db)"
    using assms by (simp_all add: database_ok_def tables_ok_def)
  have "cache_ok (db_view (db\<lparr>tb_accountdata := map_erase (a, n) (tb_accountdata db)\<rparr>)) (db\<lparr>tb_accountdata := map_erase (a, n) (tb_accountdata db)\<rparr>)"
    by (rule cache_ok_uncached [OF ok(2)]) (auto simp: view_data_erase)
  with ok(1) map_ok_erase [OF map] show ?thesis by (simp add: database_ok_def tables_ok_def)
qed

lemma data_deleted:
  assumes s: "ledger_ok m s" and row: "entries s (DataKey a n) \<noteq> None"
  shows "\<exists>s1. data_storeDelete a n s = Inr ((), s1) \<and> wrote m s s1 (DataKey a n) None"
proof -
  have "database_ok (st_db s)" using s by (simp add: ledger_ok_def)
  from delete_step [OF s data_erase_db [OF this] view_data_erase row] show ?thesis
    by (auto simp: data_storeDelete_def bindL_def withDB_def onDelta_def)
qed

text \<open>A reversed payment can be added and deleted; a change of one does nothing.\<close>

lemma reversed_stored:
  assumes s: "ledger_ok m s" and k: "k = ReversedPaymentKey (r_rID (rf_payment f))" and row: "entries s k = None"
  shows "\<exists>s1. reversed_storeAdd f s = Inr (f\<lparr>rf_lastModified := stamp s (rf_lastModified f)\<rparr>, s1) \<and>
    wrote m s s1 k (Some (reversed_entry (f\<lparr>rf_lastModified := stamp s (rf_lastModified f)\<rparr>)))"
proof -
  let ?db = "st_db s" and ?f = "f\<lparr>rf_lastModified := stamp s (rf_lastModified f)\<rparr>" and ?i = "r_rID (rf_payment f)"
  let ?db1 = "?db\<lparr>tb_reversed := map_put ?i (stamp s (rf_lastModified f)) (tb_reversed ?db)\<rparr>"
  have ok: "tables_ok ?db" "cache_ok (db_view ?db) ?db" and map: "map_ok (tb_reversed ?db)"
    using s by (simp_all add: ledger_ok_def database_ok_def tables_ok_def)
  have entry: "reversed_entry ?f = \<lparr>lastModifiedLedgerSeq = stamp s (rf_lastModified f), edata = ReversedPaymentData \<lparr>r_rID = ?i\<rparr>\<rparr>"
    by (simp add: reversed_entry_def)
  have view: "db_view ?db1 = (entries s)(k \<mapsto> reversed_entry ?f)"
    using view_reversed [OF map] entry k by simp
  have "cache_ok (db_view ?db1) ?db1" by (rule cache_ok_uncached [OF ok(2)]) (auto simp: view k)
  moreover have "tables_ok ?db1" using ok(1) map_ok_put [OF map] by (simp add: tables_ok_def)
  ultimately have db: "database_ok ?db1" by (simp add: database_ok_def)
  have key: "LedgerEntryKey (reversed_entry ?f) = k" using k by (simp add: LedgerEntryKey_def reversed_entry_def)
  obtain d where d: "addEntry (reversed_entry ?f) (st_delta s) = Inr d" "wrote m s (s\<lparr>st_db := ?db1, st_delta := d\<rparr>) k (Some (reversed_entry ?f))"
    using store_step [OF s db, of "reversed_entry ?f" "reversed_entry ?f" True] view row key by auto
  have "map_of (tb_reversed ?db) ?i = None" using row k by (simp add: loadReversedPayment_def)
  with d show ?thesis
    unfolding reversed_storeAdd_def reversed_storeUpdateHelper_def bindL_def getDelta_def
    by (intro exI [of _ "s\<lparr>st_db := ?db1, st_delta := d\<rparr>"]) (simp add: withDB_def touch_stamp [OF s] Let_def onDelta_def sql_insert_def)
qed

lemma reversed_erase_db:
  assumes "database_ok db"
  shows "database_ok (db\<lparr>tb_reversed := map_erase i (tb_reversed db)\<rparr>)"
proof -
  have ok: "tables_ok db" "cache_ok (db_view db) db" and map: "map_ok (tb_reversed db)"
    using assms by (simp_all add: database_ok_def tables_ok_def)
  have "cache_ok (db_view (db\<lparr>tb_reversed := map_erase i (tb_reversed db)\<rparr>)) (db\<lparr>tb_reversed := map_erase i (tb_reversed db)\<rparr>)"
    by (rule cache_ok_uncached [OF ok(2)]) (auto simp: view_reversed_erase)
  with ok(1) map_ok_erase [OF map] show ?thesis by (simp add: database_ok_def tables_ok_def)
qed

lemma reversed_deleted:
  assumes s: "ledger_ok m s" and row: "entries s (ReversedPaymentKey i) \<noteq> None"
  shows "\<exists>s1. reversed_storeDelete i s = Inr ((), s1) \<and> wrote m s s1 (ReversedPaymentKey i) None"
proof -
  have "database_ok (st_db s)" using s by (simp add: ledger_ok_def)
  from delete_step [OF s reversed_erase_db [OF this] view_reversed_erase row] show ?thesis
    by (auto simp: reversed_storeDelete_def bindL_def withDB_def onDelta_def)
qed

section \<open>Deleting accounts\<close>

lemma account_erase_db:
  fixes i :: AccountID
  assumes db: "database_ok db"
  defines "db1 \<equiv> flushCachedEntry (AccountKey i) db\<lparr>tb_accounts := map_erase i (tb_accounts db),
    tb_signers := filter (\<lambda>((a, _), _). a \<noteq> i) (tb_signers db)\<rparr>"
  shows "database_ok db1" "db_view db1 = (db_view db)(AccountKey i := None)"
proof -
  let ?t = "filter (\<lambda>((a, _), _). a \<noteq> i) (tb_signers db)"
  have ok: "tables_ok db" "cache_ok (db_view db) db" and map: "map_ok (tb_accounts db)" "map_ok (tb_signers db)"
    using db by (simp_all add: database_ok_def tables_ok_def)
  have rows: "signer_rows a ?t = (if a = i then [] else signer_rows a (tb_signers db))" for a
    unfolding signer_rows_def filter_filter by (auto simp: split_def intro!: arg_cong [where f = "map _"] filter_cong)
  have sorted: "map_ok ?t"
    using map(2) by (induction "tb_signers db") (auto simp: sorted_wrt_map sorted_wrt_filter)
  have "db_view db1 = db_view (db\<lparr>tb_accounts := map_erase i (tb_accounts db), tb_signers := ?t\<rparr>)"
    by (rule db_view_tables) (simp_all add: db1_def)
  then show view: "db_view db1 = (db_view db)(AccountKey i := None)"
    using view_account_erase [of i ?t db] rows by simp
  have "cache_ok ((db_view db)(AccountKey i := None)) (flushCachedEntry (AccountKey i) db)"
    by (rule cache_ok_flush [OF ok(2)]) simp
  then have "cache_ok (db_view db1) db1"
    unfolding view by (simp add: db1_def cache_ok_def cache_of_def del: fun_upd_apply)
  moreover have "account_row_ok ?t a (map_of (map_erase i (tb_accounts db)) a)" for a
    using tables_okD(3) [OF ok(1), of a] rows [of a] by (cases "a = i") (auto simp: account_row_ok_def split: option.splits)
  then have "tables_ok db1"
    using ok(1) map_ok_erase [OF map(1)] sorted unfolding tables_ok_def db1_def by simp
  ultimately show "database_ok db1" by (simp add: database_ok_def)
qed

lemma account_deleted:
  assumes s: "ledger_ok m s" and row: "entries s (AccountKey i) \<noteq> None"
  shows "\<exists>s1. account_storeDelete i s = Inr ((), s1) \<and> wrote m s s1 (AccountKey i) None \<and> tb_offers (st_db s1) = tb_offers (st_db s)"
proof -
  have "database_ok (st_db s)" using s by (simp add: ledger_ok_def)
  from delete_step [OF s account_erase_db [OF this] row] show ?thesis
    by (auto simp: account_storeDelete_def bindL_def withDB_def Let_def onDelta_def)
qed

end
