(* ===== verification/EntryFrame.thy ===== *)
theory EntryFrame
  imports Ledger_Rows
begin

text \<open>
  \<^verbatim>\<open>src/ledger/EntryFrame.cpp\<close>: the operations common to all kinds of entries, which dispatch on the kind;
  and \<^verbatim>\<open>src/bucket/BucketApplicator.cpp\<close>, which writes the entries of a bucket into the database with them.
\<close>

section \<open>Dispatch\<close>

datatype EntryFrame =
    AccountF AccountFrame
  | TrustF TrustFrame
  | OfferF OfferFrame
  | DataF DataFrame
  | ReversedF ReversedPaymentFrame

fun frame_entry :: "EntryFrame \<Rightarrow> LedgerEntry" where
  "frame_entry (AccountF f) = account_entry f"
| "frame_entry (TrustF f) = trust_entry f"
| "frame_entry (OfferF f) = offer_entry f"
| "frame_entry (DataF f) = data_entry f"
| "frame_entry (ReversedF f) = reversed_entry f"

definition FromXDR :: "LedgerEntry \<Rightarrow> scp_error + EntryFrame" where
  "FromXDR from =
     (case edata from of
        AccountData _ \<Rightarrow> bindE (AccountFrame_entry from) (\<lambda>f. Inr (AccountF f))
      | TrustLineData _ \<Rightarrow> bindE (TrustFrame_entry from) (\<lambda>f. Inr (TrustF f))
      | OfferData _ \<Rightarrow> bindE (OfferFrame_entry from) (\<lambda>f. Inr (OfferF f))
      | DataData _ \<Rightarrow> bindE (DataFrame_entry from) (\<lambda>f. Inr (DataF f))
      | ReversedPaymentData _ \<Rightarrow> bindE (ReversedPaymentFrame_entry from) (\<lambda>f. Inr (ReversedF f)))"

definition storeLoad :: "LedgerKey \<Rightarrow> Database \<Rightarrow> scp_error + (EntryFrame option \<times> Database)" where
  "storeLoad key db =
     (case key of
        AccountKey i \<Rightarrow> bindE (loadAccount_db i db) (\<lambda>(f, db1). Inr (map_option AccountF f, db1))
      | TrustLineKey a x \<Rightarrow> bindE (loadTrustLine_db a x db) (\<lambda>((_, f), db1). Inr (map_option TrustF f, db1))
      | OfferKey a i \<Rightarrow> bindE (loadOffer_db a i db) (\<lambda>f. Inr (map_option OfferF f, db))
      | DataKey a n \<Rightarrow> Inr (map_option DataF (loadData a n db), db)
      | ReversedPaymentKey i \<Rightarrow> Inr (map_option ReversedF (loadReversedPayment i db), db))"

definition entry_exists :: "LedgerKey \<Rightarrow> Database \<Rightarrow> scp_error + (bool \<times> Database)" where
  "entry_exists key db =
     (case key of
        AccountKey i \<Rightarrow> account_exists i db
      | TrustLineKey a x \<Rightarrow> trust_exists a x db
      | OfferKey a i \<Rightarrow> Inr (offer_exists a i db, db)
      | DataKey a n \<Rightarrow> Inr (data_exists a n db, db)
      | ReversedPaymentKey i \<Rightarrow> Inr (reversed_exists i db, db))"

fun frame_storeAdd :: "(int32 \<Rightarrow> int32 \<Rightarrow> rat) \<Rightarrow> EntryFrame \<Rightarrow> unit led" where
  "frame_storeAdd fdiv (AccountF f) = bindL (account_storeAdd f) (\<lambda>_. returnL ())"
| "frame_storeAdd fdiv (TrustF f) = bindL (trust_storeAdd f) (\<lambda>_. returnL ())"
| "frame_storeAdd fdiv (OfferF f) = bindL (offer_storeAdd fdiv f) (\<lambda>_. returnL ())"
| "frame_storeAdd fdiv (DataF f) = bindL (data_storeAdd f) (\<lambda>_. returnL ())"
| "frame_storeAdd fdiv (ReversedF f) = bindL (reversed_storeAdd f) (\<lambda>_. returnL ())"

fun frame_storeChange :: "(int32 \<Rightarrow> int32 \<Rightarrow> rat) \<Rightarrow> EntryFrame \<Rightarrow> unit led" where
  "frame_storeChange fdiv (AccountF f) = bindL (account_storeChange f) (\<lambda>_. returnL ())"
| "frame_storeChange fdiv (TrustF f) = bindL (trust_storeChange f) (\<lambda>_. returnL ())"
| "frame_storeChange fdiv (OfferF f) = bindL (offer_storeChange fdiv f) (\<lambda>_. returnL ())"
| "frame_storeChange fdiv (DataF f) = bindL (data_storeChange f) (\<lambda>_. returnL ())"
| "frame_storeChange fdiv (ReversedF f) = bindL (reversed_storeChange f) (\<lambda>_. returnL ())"

definition storeAddOrChange :: "(int32 \<Rightarrow> int32 \<Rightarrow> rat) \<Rightarrow> EntryFrame \<Rightarrow> unit led" where
  "storeAddOrChange fdiv f =
     bindL (withDB (entry_exists (LedgerEntryKey (frame_entry f)))) (\<lambda>b.
       if b then frame_storeChange fdiv f else frame_storeAdd fdiv f)"

fun entry_storeDelete :: "LedgerKey \<Rightarrow> unit led" where
  "entry_storeDelete (AccountKey i) = account_storeDelete i"
| "entry_storeDelete (TrustLineKey a x) = trust_storeDelete a x"
| "entry_storeDelete (OfferKey a i) = offer_storeDelete a i"
| "entry_storeDelete (DataKey a n) = data_storeDelete a n"
| "entry_storeDelete (ReversedPaymentKey i) = reversed_storeDelete i"

section \<open>Applying a bucket\<close>

text \<open>A default-constructed ledger header, and a delta on it that leaves the stamps of entries alone.\<close>

definition empty_header :: LedgerHeader where
  "empty_header =
     \<lparr>lh_ledgerVersion = 0, lh_previousLedgerHash = replicate 32 0,
      lh_scpValue = \<lparr>sv_txSetHash = replicate 32 0, sv_closeTime = 0, sv_upgrades = []\<rparr>,
      lh_txSetResultHash = replicate 32 0, lh_bucketListHash = replicate 32 0, lh_ledgerSeq = 0, lh_totalCoins = 0,
      lh_feePool = 0, lh_inflationSeq = 0, lh_idPool = 0, lh_baseFee = 0, lh_baseReserve = 0, lh_maxTxSetSize = 0,
      lh_skipList = replicate 4 (replicate 32 0)\<rparr>"

definition applyEntry :: "(int32 \<Rightarrow> int32 \<Rightarrow> rat) \<Rightarrow> BucketEntry \<Rightarrow> Database \<Rightarrow> scp_error + Database" where
  "applyEntry fdiv entry db =
     (let s = \<lparr>st_db = db, st_delta = LedgerDelta_on empty_header False\<rparr>
      in bindE (case entry of
                  LIVEENTRY e \<Rightarrow> bindE (FromXDR e) (\<lambda>ep. storeAddOrChange fdiv ep s)
                | DEADENTRY k \<Rightarrow> entry_storeDelete k s) (\<lambda>(_, s1).
         bindE (commit_header empty_header (st_delta s1)) (\<lambda>_. Inr (st_db s1))))"

text \<open>
  An applicator is a stream of entries with the flag that it is still good: a stream turns bad when a read
  fails at its end, and an applicator without a file starts good as well. One call of \<^verbatim>\<open>advance\<close> stops when
  the number of entries applied so far ends in the bits \<open>ff\<close>; the entries that are left stay in the stream.
\<close>

record BucketApplicator =
  mIn_good :: bool
  mIn_rest :: "BucketEntry list"
  ba_mSize :: nat

definition BucketApplicator_on :: "Bucket \<Rightarrow> BucketApplicator" where
  "BucketApplicator_on b = \<lparr>mIn_good = True, mIn_rest = b, ba_mSize = 0\<rparr>"

fun advance_from :: "(int32 \<Rightarrow> int32 \<Rightarrow> rat) \<Rightarrow> BucketEntry list \<Rightarrow> nat \<Rightarrow> Database \<Rightarrow>
    scp_error + (BucketApplicator \<times> Database)" where
  "advance_from fdiv [] mSize db = Inr (\<lparr>mIn_good = False, mIn_rest = [], ba_mSize = mSize\<rparr>, db)"
| "advance_from fdiv (e # es) mSize db =
     bindE (applyEntry fdiv e db) (\<lambda>db1.
       if (mSize + 1) mod 256 = 255 then Inr (\<lparr>mIn_good = True, mIn_rest = es, ba_mSize = mSize + 1\<rparr>, db1)
       else advance_from fdiv es (mSize + 1) db1)"

definition advance :: "(int32 \<Rightarrow> int32 \<Rightarrow> rat) \<Rightarrow> BucketApplicator \<Rightarrow> Database \<Rightarrow> scp_error + (BucketApplicator \<times> Database)" where
  "advance fdiv ap db = (if mIn_good ap then advance_from fdiv (mIn_rest ap) (ba_mSize ap) db else Inr (ap, db))"

definition applicator_left :: "BucketApplicator \<Rightarrow> nat" where
  "applicator_left ap = (if mIn_good ap then Suc (length (mIn_rest ap)) else 0)"

lemma advance_from_shorter: "advance_from fdiv es n db = Inr (ap, db1) \<Longrightarrow> applicator_left ap \<le> length es"
proof (induction fdiv es n db rule: advance_from.induct)
  case (2 fdiv e es n db)
  then obtain db2 where db2: "applyEntry fdiv e db = Inr db2" by (auto simp: bindE_Inr_iff)
  with 2 show ?case by (fastforce simp: applicator_left_def split: if_splits)
qed (auto simp: applicator_left_def)

lemma advance_shorter: "advance fdiv ap db = Inr (ap1, db1) \<Longrightarrow> mIn_good ap \<Longrightarrow> applicator_left ap1 < applicator_left ap"
  using advance_from_shorter [of fdiv "mIn_rest ap" "ba_mSize ap" db ap1 db1] by (simp add: advance_def applicator_left_def)

lemma bindE_cong [fundef_cong]: "m = m' \<Longrightarrow> (\<And>x. m' = Inr x \<Longrightarrow> f x = g x) \<Longrightarrow> bindE m f = bindE m' g"
  by (cases m') simp_all

function applicator_loop :: "(int32 \<Rightarrow> int32 \<Rightarrow> rat) \<Rightarrow> BucketApplicator \<Rightarrow> Database \<Rightarrow> scp_error + Database" where
  "applicator_loop fdiv ap db =
     (if mIn_good ap then bindE (advance fdiv ap db) (\<lambda>(ap1, db1). applicator_loop fdiv ap1 db1) else Inr db)"
  by pat_completeness auto
termination
  by (relation "measure (\<lambda>(_, ap, _). applicator_left ap)") (auto dest: advance_shorter)

declare applicator_loop.simps [simp del]

definition Bucket_apply :: "(int32 \<Rightarrow> int32 \<Rightarrow> rat) \<Rightarrow> Bucket \<Rightarrow> Database \<Rightarrow> scp_error + Database" where
  "Bucket_apply fdiv b db = applicator_loop fdiv (BucketApplicator_on b) db"

text \<open>The batches do not matter: the entries are applied one after the other.\<close>

lemma foldE_append: "foldE f (xs @ ys) s = bindE (foldE f xs s) (foldE f ys)"
proof (induction xs arbitrary: s)
  case (Cons x xs)
  then show ?case by (cases "f x s") simp_all
qed simp

definition rest_of :: "BucketApplicator \<Rightarrow> BucketEntry list" where
  "rest_of ap = (if mIn_good ap then mIn_rest ap else [])"

lemma advance_from_rest:
  "bindE (advance_from fdiv es n db) (\<lambda>(ap, db1). foldE (applyEntry fdiv) (rest_of ap) db1) = foldE (applyEntry fdiv) es db"
proof (induction fdiv es n db rule: advance_from.induct)
  case (2 fdiv e es n db)
  then show ?case by (cases "applyEntry fdiv e db") (simp_all add: rest_of_def)
qed (simp add: rest_of_def)

lemma advance_rest:
  "bindE (advance fdiv ap db) (\<lambda>(ap1, db1). foldE (applyEntry fdiv) (rest_of ap1) db1) = foldE (applyEntry fdiv) (rest_of ap) db"
  using advance_from_rest [of fdiv "mIn_rest ap" "ba_mSize ap" db] by (simp add: advance_def rest_of_def)

lemma applicator_loop_fold: "applicator_loop fdiv ap db = foldE (applyEntry fdiv) (rest_of ap) db"
proof (induction fdiv ap db rule: applicator_loop.induct)
  case (1 fdiv ap db)
  show ?case
  proof (cases "mIn_good ap")
    case True
    then have "applicator_loop fdiv ap db = bindE (advance fdiv ap db) (\<lambda>(ap1, db1). foldE (applyEntry fdiv) (rest_of ap1) db1)"
      using 1 by (subst applicator_loop.simps) (auto intro: bindE_cong)
    then show ?thesis by (simp add: advance_rest)
  qed (simp add: applicator_loop.simps rest_of_def)
qed

lemma Bucket_apply_fold: "Bucket_apply fdiv b db = foldE (applyEntry fdiv) b db"
  by (simp add: Bucket_apply_def applicator_loop_fold rest_of_def BucketApplicator_on_def)

end
