(* ===== verification/Frame_Store.thy ===== *)
theory Frame_Store
  imports EntryFrame
begin

text \<open>
  The entries as a store with a contract: loads, stores and deletes through the frames, in any order, keep
  the database sound and the delta in step with it, and change the map of entries as they say. Also what a
  rollback leaves behind.
\<close>

section \<open>Existence\<close>

lemma entry_exists_view:
  assumes "database_ok db" "\<And>a x. k = TrustLineKey a x \<Longrightarrow> x \<noteq> AssetNative \<and> asset_ok x"
  shows "\<exists>c. entry_exists k db = Inr (db_view db k \<noteq> None, db\<lparr>mEntryCache := c\<rparr>) \<and> database_ok (db\<lparr>mEntryCache := c\<rparr>)"
proof -
  have t: "tables_ok db" and c: "cache_ok (db_view db) db" using assms(1) by (simp_all add: database_ok_def)
  have map: "map_ok (tb_offers db)" using t by (simp add: tables_ok_def)
  have same: "db = db\<lparr>mEntryCache := mEntryCache db\<rparr>" by simp
  show ?thesis
  proof (cases k)
    case (AccountKey i)
    show ?thesis
    proof (cases "cachedEntryExists k db")
      case True
      from cache_ok_get [OF c True] AccountKey True t show ?thesis
        by (auto simp: entry_exists_def account_exists_def database_ok_def)
    next
      case False
      with AccountKey assms(1) show ?thesis
        by (intro exI [of _ "mEntryCache db"]) (simp add: entry_exists_def account_exists_def)
    qed
  next
    case (TrustLineKey a x)
    show ?thesis
    proof (cases "cachedEntryExists k db")
      case True
      from cache_ok_get [OF c True] TrustLineKey True t assms(2) show ?thesis
        by (auto simp: entry_exists_def trust_exists_def database_ok_def)
    next
      case False
      with TrustLineKey assms show ?thesis
        by (intro exI [of _ "mEntryCache db"]) (simp add: entry_exists_def trust_exists_def)
    qed
  next
    case (OfferKey a i)
    have "offer_exists a i db \<longleftrightarrow> (\<exists>r. map_of (tb_offers db) i = Some r \<and> or_sellerid r = a)"
      using om.items_find [OF map, of i] by (auto simp: offer_exists_def)
    also have "\<dots> \<longleftrightarrow> db_view db k \<noteq> None"
    proof (cases "map_of (tb_offers db) i")
      case (Some r)
      with tables_okD(2) [OF t] obtain f where "offer_of_row (i, r) = Inr f" by (metis offer_of_row_ok)
      with Some OfferKey show ?thesis by simp
    qed (simp add: OfferKey)
    finally show ?thesis
      using OfferKey assms(1) by (intro exI [of _ "mEntryCache db"]) (simp add: entry_exists_def)
  next
    case (DataKey a n)
    with assms(1) show ?thesis
      by (intro exI [of _ "mEntryCache db"]) (simp add: entry_exists_def data_exists_def loadData_def)
  next
    case (ReversedPaymentKey i)
    with assms(1) show ?thesis
      by (intro exI [of _ "mEntryCache db"]) (simp add: entry_exists_def reversed_exists_def loadReversedPayment_def)
  qed
qed

section \<open>Storing a frame\<close>

fun frame_ok :: "Database \<Rightarrow> EntryFrame \<Rightarrow> bool" where
  "frame_ok db (AccountF f) \<longleftrightarrow> account_isValid (af_account f) \<and> a_balance (af_account f) \<le> INT64_MAX \<and> signers_ok db f"
| "frame_ok db (TrustF f) \<longleftrightarrow> trust_isValid (tf_line f) \<and> asset_ok (t_asset (tf_line f)) \<and> is_int64 (t_balance (tf_line f)) \<and>
     t_limit (tf_line f) \<le> INT64_MAX \<and> \<not> mIsIssuer f"
| "frame_ok db (OfferF f) \<longleftrightarrow> offer_ok (of_offer f) \<and>
     (\<forall>r. map_of (tb_offers db) (o_offerID (of_offer f)) = Some r \<longrightarrow> or_sellerid r = o_sellerID (of_offer f))"
| "frame_ok db (DataF f) \<longleftrightarrow> True"
| "frame_ok db (ReversedF f) \<longleftrightarrow> db_view db (ReversedPaymentKey (r_rID (rf_payment f))) = None"

fun frame_stamped :: "(uint32 \<Rightarrow> uint32) \<Rightarrow> EntryFrame \<Rightarrow> EntryFrame" where
  "frame_stamped st (AccountF f) = AccountF (f\<lparr>af_lastModified := st (af_lastModified f)\<rparr>)"
| "frame_stamped st (TrustF f) = TrustF (f\<lparr>tf_lastModified := st (tf_lastModified f)\<rparr>)"
| "frame_stamped st (OfferF f) = OfferF (f\<lparr>of_lastModified := st (of_lastModified f)\<rparr>)"
| "frame_stamped st (DataF f) = DataF (f\<lparr>df_lastModified := st (df_lastModified f)\<rparr>)"
| "frame_stamped st (ReversedF f) = ReversedF (f\<lparr>rf_lastModified := st (rf_lastModified f)\<rparr>)"

abbreviation frame_key :: "EntryFrame \<Rightarrow> LedgerKey" where
  "frame_key f \<equiv> LedgerEntryKey (frame_entry f)"

lemma data_key: "LedgerEntryKey (data_entry f) = DataKey (d_accountID (df_data f)) (d_dataName (df_data f))"
  by (simp add: LedgerEntryKey_def data_entry_def)

lemma reversed_key: "LedgerEntryKey (reversed_entry f) = ReversedPaymentKey (r_rID (rf_payment f))"
  by (simp add: LedgerEntryKey_def reversed_entry_def)

lemmas frame_keys = account_key trust_entry_key offer_entry_key data_key reversed_key

lemma frame_put:
  assumes s: "ledger_ok m s" and f: "frame_ok (st_db s) f" and b: "b \<longleftrightarrow> entries s (frame_key f) \<noteq> None"
  shows "\<exists>s1. (if b then frame_storeChange fdiv f else frame_storeAdd fdiv f) s = Inr ((), s1) \<and>
    wrote m s s1 (frame_key f) (Some (unstamped (frame_entry (frame_stamped (stamp s) f))))"
proof (cases f)
  case (AccountF g)
  obtain s1 where "account_storeUpdate (\<not> b) g s = Inr (stamped s g, s1)"
    "wrote m s s1 (AccountKey (account_getID g)) (Some (account_entry (stamped s g)))"
    using account_stored [OF s, of g "\<not> b"] f b AccountF by (auto simp: account_key)
  moreover have "unstamped (account_entry h) = account_entry h" for h by (simp add: unstamped_def account_entry_def)
  ultimately show ?thesis
    using AccountF by (auto simp: account_storeChange_def account_storeAdd_def bindL_def account_key stamped_def intro!: exI [of _ s1])
next
  case (TrustF g)
  obtain s1 where "trust_store (\<not> b) g s = Inr (trust_stamped s g, s1)" "wrote m s s1 (trust_key g) (Some (trust_entry (trust_stamped s g)))"
    using trust_stored [OF s, of g "\<not> b"] f b TrustF by (auto simp: trust_entry_key)
  moreover have "unstamped (trust_entry h) = trust_entry h" for h by (simp add: unstamped_def trust_entry_def)
  ultimately show ?thesis
    using TrustF by (auto simp: trust_storeChange_def trust_storeAdd_def bindL_def trust_entry_key trust_stamped_def intro!: exI [of _ s1])
next
  case (OfferF g)
  have db: "database_ok (st_db s)" using s by (simp add: ledger_ok_def)
  have seller: "or_sellerid r = o_sellerID (of_offer g)" if "map_of (tb_offers (st_db s)) (o_offerID (of_offer g)) = Some r" for r
    using that f OfferF by simp
  have row: "\<not> b \<longleftrightarrow> map_of (tb_offers (st_db s)) (o_offerID (of_offer g)) = None"
  proof (cases "map_of (tb_offers (st_db s)) (o_offerID (of_offer g))")
    case (Some r)
    with db obtain h where "offer_of_row (o_offerID (of_offer g), r) = Inr h" unfolding database_ok_def by (metis offer_of_row_ok tables_okD(2))
    with Some b OfferF seller [OF Some] show ?thesis by (simp add: offer_key_def offer_entry_key)
  qed (use b OfferF in \<open>simp add: offer_key_def offer_entry_key\<close>)
  have "\<exists>s1. offer_storeUpdateHelper fdiv (\<not> b) g s = Inr (offer_stamped s g, s1) \<and> wrote m s s1 (offer_key g) (Some (offer_entry (offer_stamped s g)))"
    using offer_stored [OF s _ seller row, of fdiv] f OfferF by auto
  moreover have "unstamped (offer_entry h) = offer_entry h" for h by (simp add: unstamped_def offer_entry_def)
  ultimately show ?thesis
    using OfferF by (auto simp: offer_storeChange_def offer_storeAdd_def bindL_def offer_entry_key offer_stamped_def)
next
  case (DataF g)
  have "\<exists>s1. data_storeUpdateHelper (\<not> b) g s = Inr (g\<lparr>df_lastModified := stamp s (df_lastModified g)\<rparr>, s1) \<and>
      wrote m s s1 (frame_key f) (Some (data_entry (g\<lparr>df_lastModified := 0\<rparr>)))"
    using data_stored [OF s, of "frame_key f" g "\<not> b"] b DataF by (simp add: data_key)
  moreover have "unstamped (data_entry (g\<lparr>df_lastModified := n\<rparr>)) = data_entry (g\<lparr>df_lastModified := 0\<rparr>)" for n
    by (simp add: unstamped_def data_entry_def)
  ultimately show ?thesis
    using DataF by (auto simp: data_storeChange_def data_storeAdd_def bindL_def)
next
  case (ReversedF g)
  have nb: "\<not> b" using f b ReversedF by (simp add: reversed_key del: db_view.simps)
  have "\<exists>s1. reversed_storeAdd g s = Inr (g\<lparr>rf_lastModified := stamp s (rf_lastModified g)\<rparr>, s1) \<and>
      wrote m s s1 (frame_key f) (Some (reversed_entry (g\<lparr>rf_lastModified := stamp s (rf_lastModified g)\<rparr>)))"
    using reversed_stored [OF s, of "frame_key f" g] f ReversedF by (simp add: reversed_key del: db_view.simps)
  moreover have "unstamped (reversed_entry h) = reversed_entry h" for h by (simp add: unstamped_def reversed_entry_def)
  ultimately show ?thesis using ReversedF nb by (auto simp: bindL_def)
qed

lemma entry_deleted:
  assumes s: "ledger_ok m s" and row: "entries s k \<noteq> None"
  shows "\<exists>s1. entry_storeDelete k s = Inr ((), s1) \<and> wrote m s s1 k None"
proof (cases k)
  case (AccountKey i)
  with account_deleted [OF s, of i] row show ?thesis by (auto simp del: db_view.simps)
next
  case (TrustLineKey a x)
  with row have "x \<noteq> AssetNative" "asset_ok x" by (auto split: if_splits)
  with trust_deleted [OF s, of x a] row TrustLineKey show ?thesis by (auto simp del: db_view.simps)
next
  case (OfferKey a i)
  with offer_deleted [OF s, of a i] row show ?thesis by (auto simp del: db_view.simps)
next
  case (DataKey a n)
  with data_deleted [OF s, of a n] row show ?thesis by (auto simp del: db_view.simps)
next
  case (ReversedPaymentKey i)
  with reversed_deleted [OF s, of i] row show ?thesis by (auto simp del: db_view.simps)
qed

section \<open>The contract\<close>

text \<open>
  A store of entries: in a state that is \<open>sound\<close> and shows the map \<open>holds\<close>, an operation that is \<open>allowed\<close>
  there succeeds, keeps the state sound and the context \<open>ctx\<close> of the run, and has its meaning on the map.
\<close>

locale entry_store =
  fixes run :: "'op \<Rightarrow> 's \<Rightarrow> 'e + unit \<times> 's"
    and allowed :: "'op \<Rightarrow> 's \<Rightarrow> bool"
    and sound :: "'s \<Rightarrow> bool"
    and holds :: "'s \<Rightarrow> 'm"
    and ctx :: "'s \<Rightarrow> 'c"
    and meaning :: "'c \<Rightarrow> 'op \<Rightarrow> 'm \<Rightarrow> 'm"
  assumes op_succeeds: "sound s \<Longrightarrow> allowed x s \<Longrightarrow>
    \<exists>s1. run x s = Inr ((), s1) \<and> sound s1 \<and> ctx s1 = ctx s \<and> holds s1 = meaning (ctx s) x (holds s)"
begin

text \<open>A sequence of operations each of which is allowed when its turn comes.\<close>

inductive session :: "'op list \<Rightarrow> 's \<Rightarrow> 's \<Rightarrow> bool" where
  session_nil: "session [] s s"
| session_step: "session xs s s1 \<Longrightarrow> allowed x s1 \<Longrightarrow> run x s1 = Inr ((), s2) \<Longrightarrow> session (xs @ [x]) s s2"

lemma session_sound: "session xs s s1 \<Longrightarrow> sound s \<Longrightarrow> sound s1 \<and> ctx s1 = ctx s \<and> holds s1 = fold (meaning (ctx s)) xs (holds s)"
proof (induction rule: session.induct)
  case (session_step xs s s1 x s2)
  then have "sound s1" "ctx s1 = ctx s" "holds s1 = fold (meaning (ctx s)) xs (holds s)" by simp_all
  with op_succeeds [OF this(1) session_step.hyps(2)] session_step.hyps(3) show ?case by auto
qed simp

lemma session_continues: "session xs s s1 \<Longrightarrow> sound s \<Longrightarrow> allowed x s1 \<Longrightarrow> \<exists>s2. run x s1 = Inr ((), s2) \<and> session (xs @ [x]) s s2"
  using session_sound op_succeeds session_step by metis

end

text \<open>The operations of the frames on the ledger state.\<close>

datatype frame_op = Load LedgerKey | Put EntryFrame | Delete LedgerKey

fun frame_load :: "LedgerKey \<Rightarrow> unit led" where
  "frame_load (AccountKey i) = bindL (loadAccount i) (\<lambda>_. returnL ())"
| "frame_load (TrustLineKey a x) = bindL (loadTrustLine a x) (\<lambda>_. returnL ())"
| "frame_load (OfferKey a i) = bindL (loadOffer a i) (\<lambda>_. returnL ())"
| "frame_load (DataKey a n) = returnL ()"
| "frame_load (ReversedPaymentKey i) = returnL ()"

fun frame_run :: "(int32 \<Rightarrow> int32 \<Rightarrow> rat) \<Rightarrow> frame_op \<Rightarrow> unit led" where
  "frame_run fdiv (Load k) = frame_load k"
| "frame_run fdiv (Put f) = storeAddOrChange fdiv f"
| "frame_run fdiv (Delete k) = entry_storeDelete k"

fun frame_allowed :: "frame_op \<Rightarrow> Ledger \<Rightarrow> bool" where
  "frame_allowed (Load k) s \<longleftrightarrow> (case k of TrustLineKey a x \<Rightarrow> x \<noteq> AssetNative \<and> asset_ok x | _ \<Rightarrow> True)"
| "frame_allowed (Put f) s \<longleftrightarrow> frame_ok (st_db s) f"
| "frame_allowed (Delete k) s \<longleftrightarrow> entries s k \<noteq> None"

fun frame_meaning :: "(uint32 \<Rightarrow> uint32) \<Rightarrow> frame_op \<Rightarrow> ledger_map \<Rightarrow> ledger_map" where
  "frame_meaning st (Load k) m = m"
| "frame_meaning st (Put f) m = m(frame_key f \<mapsto> unstamped (frame_entry (frame_stamped st f)))"
| "frame_meaning st (Delete k) m = m(k := None)"

lemma frame_loaded:
  assumes "ledger_ok m s" "frame_allowed (Load k) s"
  shows "\<exists>s1. frame_load k s = Inr ((), s1) \<and> loaded m s s1"
proof (cases k)
  case (AccountKey i)
  with loadAccount_loaded [OF assms(1), of i] show ?thesis by (auto simp: bindL_def)
next
  case (TrustLineKey a x)
  with assms(2) loadTrustLine_loaded [OF assms(1), of x a] show ?thesis by (auto simp: bindL_def)
next
  case (OfferKey a i)
  with loadOffer_loaded [OF assms(1), of a i] show ?thesis by (auto simp: bindL_def)
qed (use assms(1) loaded_refl in auto)

lemma frame_ok_cache: "frame_ok (db\<lparr>mEntryCache := c\<rparr>) f \<longleftrightarrow> frame_ok db f"
  by (cases f) (simp_all add: signers_ok_def del: db_view.simps)

lemma frame_ok_asset: "frame_ok db f \<Longrightarrow> frame_key f = TrustLineKey a x \<Longrightarrow> x \<noteq> AssetNative \<and> asset_ok x"
  by (cases f) (auto simp: frame_keys trust_key_def offer_key_def trust_isValid_def)

lemma storeAddOrChange_put:
  assumes s: "ledger_ok m s" and f: "frame_ok (st_db s) f"
  shows "\<exists>s1. storeAddOrChange fdiv f s = Inr ((), s1) \<and>
    wrote m s s1 (frame_key f) (Some (unstamped (frame_entry (frame_stamped (stamp s) f))))"
proof -
  have db: "database_ok (st_db s)" using s by (simp add: ledger_ok_def)
  obtain c where c: "entry_exists (frame_key f) (st_db s) = Inr (entries s (frame_key f) \<noteq> None, (st_db s)\<lparr>mEntryCache := c\<rparr>)"
    "database_ok ((st_db s)\<lparr>mEntryCache := c\<rparr>)"
    using entry_exists_view [OF db, of "frame_key f"] frame_ok_asset [OF f] by blast
  let ?s = "s\<lparr>st_db := (st_db s)\<lparr>mEntryCache := c\<rparr>\<rparr>"
  have ok: "ledger_ok m ?s" by (rule ledger_ok_db [OF s c(2)]) simp
  have same: "entries ?s = entries s" "stamp ?s = stamp s" "same_run s ?s" by (auto simp: stamp_def same_run_def)
  have "frame_ok (st_db ?s) f" using f by (simp add: frame_ok_cache)
  from frame_put [OF ok this, of "entries s (frame_key f) \<noteq> None" fdiv] same obtain s1 where
    s1: "(if entries s (frame_key f) \<noteq> None then frame_storeChange fdiv f else frame_storeAdd fdiv f) ?s = Inr ((), s1)"
    "wrote m ?s s1 (frame_key f) (Some (unstamped (frame_entry (frame_stamped (stamp s) f))))" by auto
  have "storeAddOrChange fdiv f s = Inr ((), s1)"
    using c(1) s1(1) by (simp add: storeAddOrChange_def bindL_def withDB_def)
  with s1(2) same show ?thesis by (auto simp: wrote_def intro: same_run_trans)
qed

interpretation fs: entry_store "frame_run fdiv" frame_allowed "ledger_ok m" entries stamp frame_meaning for fdiv m
proof
  fix s x
  assume s: "ledger_ok m s" and x: "frame_allowed x s"
  have st: "same_run s s1 \<Longrightarrow> stamp s1 = stamp s" for s1 by (rule ext) (rule same_run_stamp)
  show "\<exists>s1. frame_run fdiv x s = Inr ((), s1) \<and> ledger_ok m s1 \<and> stamp s1 = stamp s \<and> entries s1 = frame_meaning (stamp s) x (entries s)"
  proof (cases x)
    case (Load k)
    then have "frame_allowed (Load k) s" using x by simp
    from frame_loaded [OF s this] obtain s1 where "frame_load k s = Inr ((), s1)" "loaded m s s1" by blast
    with Load st [of s1] show ?thesis by (intro exI [of _ s1]) (simp add: loaded_def)
  next
    case (Put f)
    then have "frame_ok (st_db s) f" using x by simp
    from storeAddOrChange_put [OF s this, of fdiv] obtain s1 where "storeAddOrChange fdiv f s = Inr ((), s1)"
      "wrote m s s1 (frame_key f) (Some (unstamped (frame_entry (frame_stamped (stamp s) f))))" by blast
    with Put st [of s1] show ?thesis by (intro exI [of _ s1]) (simp add: wrote_def)
  next
    case (Delete k)
    then have "entries s k \<noteq> None" using x by simp
    from entry_deleted [OF s this] obtain s1 where "entry_storeDelete k s = Inr ((), s1)" "wrote m s s1 k None" by blast
    with Delete st [of s1] show ?thesis by (intro exI [of _ s1]) (simp add: wrote_def)
  qed
qed

section \<open>Rolling back\<close>

text \<open>
  The destructor of a delta that was not committed flushes its keys from the entry cache; the transaction
  of the database is rolled back by its own destructor, which brings the tables back.
\<close>

definition flush_all :: "LedgerKey list \<Rightarrow> Database \<Rightarrow> Database" where
  "flush_all ks db = fold flushCachedEntry ks db"

definition rolled_back :: "Database \<Rightarrow> Ledger \<Rightarrow> Database" where
  "rolled_back before s = flush_all (LedgerDelta_destroy (st_delta s)) (before\<lparr>mEntryCache := mEntryCache (st_db s)\<rparr>)"

lemma flush_all_tables:
  "tb_accounts (flush_all ks db) = tb_accounts db" "tb_signers (flush_all ks db) = tb_signers db"
  "tb_trustlines (flush_all ks db) = tb_trustlines db" "tb_offers (flush_all ks db) = tb_offers db"
  "tb_accountdata (flush_all ks db) = tb_accountdata db" "tb_reversed (flush_all ks db) = tb_reversed db"
  by (induction ks arbitrary: db) (simp_all add: flush_all_def)

lemma cache_ok_flush_all: "cache_ok view db \<Longrightarrow> \<forall>k. k \<notin> set ks \<longrightarrow> view' k = view k \<Longrightarrow> cache_ok view' (flush_all ks db)"
proof (induction ks arbitrary: view db)
  case Nil
  then have "view' = view" by auto
  with Nil show ?case by (simp add: flush_all_def)
next
  case (Cons a ks)
  have "cache_ok (view(a := view' a)) (flushCachedEntry a db)" by (rule cache_ok_flush [OF Cons.prems(1)]) simp
  from Cons.IH [OF this] Cons.prems(2) show ?case by (simp add: flush_all_def)
qed

lemma effect_untouched:
  assumes "k \<notin> set (mDelete d @ map fst (mNew d) @ map fst (mMod d))"
  shows "effect d m k = m k"
proof -
  have "map_of (mNew d) k = None" "map_of (mMod d) k = None" using assms by (auto simp: map_of_eq_None_iff)
  with assms show ?thesis by (simp add: effect_def)
qed

lemma cache_ok_cacheable: "cache_ok view db \<Longrightarrow> (\<And>k. cacheable k \<Longrightarrow> view' k = view k) \<Longrightarrow> cache_ok view' db"
  unfolding cache_ok_def by metis

lemma view_unstamped: "tables_ok db \<Longrightarrow> cacheable k \<Longrightarrow> map_option unstamped (db_view db k) = db_view db k"
  by (cases k) (auto simp: unstamped_def cacheable_def option.map_comp split: if_splits intro!: option.map_cong)

lemma rollback_sound:
  assumes db: "database_ok before" and s: "ledger_ok (db_view before) s"
  shows "database_ok (rolled_back before s)" "db_view (rolled_back before s) = db_view before"
proof -
  let ?d = "st_delta s" and ?b = "before\<lparr>mEntryCache := mEntryCache (st_db s)\<rparr>"
  let ?ks = "mDelete ?d @ map fst (mNew ?d) @ map fst (mMod ?d)"
  have ks: "LedgerDelta_destroy ?d = ?ks" and ag: "agree (effect ?d (db_view before)) (entries s)" and now: "database_ok (st_db s)"
    using s by (simp_all add: ledger_ok_def delta_ok_def LedgerDelta_destroy_def rollback_def delta_checkState_def)
  show view: "db_view (rolled_back before s) = db_view before"
    unfolding rolled_back_def by (rule db_view_tables) (simp_all add: flush_all_tables)
  have same: "db_view before k = entries s k" if "cacheable k" "k \<notin> set ?ks" for k
  proof -
    have "map_option unstamped (db_view before k) = map_option unstamped (entries s k)"
      using ag effect_untouched [OF that(2)] unfolding agree_def by metis
    with view_unstamped [OF _ that(1)] db now show ?thesis by (simp add: database_ok_def)
  qed
  let ?v = "\<lambda>k. if cacheable k then db_view before k else entries s k"
  have "cache_ok (entries s) ?b" using now by (simp add: database_ok_def cache_ok_def cache_of_def)
  then have "cache_ok ?v (flush_all ?ks ?b)" by (rule cache_ok_flush_all) (use same in auto)
  then have "cache_ok (db_view before) (flush_all ?ks ?b)" by (rule cache_ok_cacheable) simp
  moreover have "tables_ok (rolled_back before s)"
    using db by (simp add: database_ok_def tables_ok_def rolled_back_def flush_all_tables)
  ultimately show "database_ok (rolled_back before s)" using view ks by (simp add: database_ok_def rolled_back_def)
qed

end
