(* ===== verification/Database_Admin.thy ===== *)
theory Database_Admin
  imports EntryFrame BucketList_Check
begin

text \<open>
  The life of the tables: \<^verbatim>\<open>Database::initialize\<close> and the schema upgrades of \<^verbatim>\<open>src/database/Database.cpp\<close> with
  the \<^verbatim>\<open>dropAll\<close> of each kind of entry, the \<^verbatim>\<open>countObjects\<close> the consistency check compares with the buckets,
  and \<^verbatim>\<open>AccountFrame::checkDB\<close>. Tables of other components (headers, history, peers) are left out.
\<close>

section \<open>Creating the tables\<close>

definition account_dropAll :: "Database \<Rightarrow> Database" where
  "account_dropAll db = db\<lparr>tb_accounts := [], tb_signers := []\<rparr>"

definition offer_dropAll :: "Database \<Rightarrow> Database" where
  "offer_dropAll db = db\<lparr>tb_offers := []\<rparr>"

definition trust_dropAll :: "Database \<Rightarrow> Database" where
  "trust_dropAll db = db\<lparr>tb_trustlines := []\<rparr>"

definition data_dropAll :: "Database \<Rightarrow> Database" where
  "data_dropAll db = db\<lparr>tb_accountdata := []\<rparr>"

definition reversed_dropAll :: "Database \<Rightarrow> Database" where
  "reversed_dropAll db = db\<lparr>tb_reversed := []\<rparr>"

text \<open>The version of the schema is kept with the persistent state.\<close>

definition SCHEMA_VERSION :: nat where
  "SCHEMA_VERSION = 3"

definition Database_initialize :: "Database \<Rightarrow> nat \<times> Database" where
  "Database_initialize db = (1, reversed_dropAll (trust_dropAll (offer_dropAll (account_dropAll db))))"

definition applySchemaUpgrade :: "nat \<Rightarrow> Database \<Rightarrow> scp_error + Database" where
  "applySchemaUpgrade vers db =
     (if vers = 2 then Inr db
      else if vers = 3 then Inr (data_dropAll db)
      else Inl (Runtime_Error ''Unknown DB schema version''))"

function upgrade_loop :: "nat \<Rightarrow> Database \<Rightarrow> scp_error + (nat \<times> Database)" where
  "upgrade_loop vers db =
     (if vers < SCHEMA_VERSION
      then bindE (applySchemaUpgrade (vers + 1) db) (\<lambda>db1. upgrade_loop (vers + 1) db1)
      else Inr (vers, db))"
  by pat_completeness auto
termination
  by (relation "measure (\<lambda>(vers, _). SCHEMA_VERSION - vers)") auto

declare upgrade_loop.simps [simp del]

definition upgradeToCurrentSchema :: "nat \<Rightarrow> Database \<Rightarrow> scp_error + (nat \<times> Database)" where
  "upgradeToCurrentSchema vers db =
     (if vers = 0 then Inl (Runtime_Error ''No DB schema version found, try --newdb'')
      else if vers > SCHEMA_VERSION then Inl (Runtime_Error ''DB schema version is newer than application schema'')
      else bindE (upgrade_loop vers db) (\<lambda>(v, db1). bindE (assertE (v = SCHEMA_VERSION)) (\<lambda>_. Inr (v, db1))))"

text \<open>A new database, whatever the tables of an older one held; the cache starts empty.\<close>

definition new_database :: "Database \<Rightarrow> scp_error + (nat \<times> Database)" where
  "new_database old =
     (case Database_initialize (old\<lparr>mEntryCache := \<lparr>cache_items = [], cache_max = 4096\<rparr>\<rparr>) of
        (v, db) \<Rightarrow> upgradeToCurrentSchema v db)"

definition empty_tables :: Database where
  "empty_tables = \<lparr>tb_accounts = [], tb_signers = [], tb_trustlines = [], tb_offers = [], tb_accountdata = [], tb_reversed = [],
     mEntryCache = \<lparr>cache_items = [], cache_max = 4096\<rparr>\<rparr>"

lemma empty_tables_ok: "database_ok empty_tables" "db_view empty_tables = (\<lambda>_. None)"
proof -
  have v: "db_view empty_tables k = None" for k
    by (cases k) (simp_all add: empty_tables_def loadData_def loadReversedPayment_def)
  then show "db_view empty_tables = (\<lambda>_. None)" by auto
  show "database_ok empty_tables"
    by (auto simp: database_ok_def tables_ok_def account_row_ok_def cache_ok_def cache_of_def empty_tables_def signer_rows_def)
qed

lemma new_database_empty: "new_database old = Inr (SCHEMA_VERSION, empty_tables)"
  by (cases old)
     (simp add: new_database_def Database_initialize_def upgradeToCurrentSchema_def upgrade_loop.simps SCHEMA_VERSION_def
      applySchemaUpgrade_def account_dropAll_def offer_dropAll_def trust_dropAll_def data_dropAll_def reversed_dropAll_def
      empty_tables_def assertE_def)

section \<open>Counting\<close>

definition account_countObjects :: "Database \<Rightarrow> nat" where "account_countObjects db = length (tb_accounts db)"
definition trust_countObjects :: "Database \<Rightarrow> nat" where "trust_countObjects db = length (tb_trustlines db)"
definition offer_countObjects :: "Database \<Rightarrow> nat" where "offer_countObjects db = length (tb_offers db)"
definition data_countObjects :: "Database \<Rightarrow> nat" where "data_countObjects db = length (tb_accountdata db)"
definition reversed_countObjects :: "Database \<Rightarrow> nat" where "reversed_countObjects db = length (tb_reversed db)"

text \<open>By the number of the type of entry.\<close>

definition countObjects :: "Database \<Rightarrow> nat \<Rightarrow> nat" where
  "countObjects db t =
     (if t = 0 then account_countObjects db else if t = 1 then trust_countObjects db
      else if t = 2 then offer_countObjects db else if t = 3 then data_countObjects db
      else if t = 4 then reversed_countObjects db else 0)"

lemmas countObjects_defs = countObjects_def account_countObjects_def trust_countObjects_def offer_countObjects_def
  data_countObjects_def reversed_countObjects_def

text \<open>Every row of a table is an entry under a key of its own.\<close>

lemma card_rows:
  assumes "map_ok t" "{k. db k \<noteq> None \<and> P k} = f ` dom (map_of t)" "inj_on f (dom (map_of t))"
  shows "finite {k. db k \<noteq> None \<and> P k}" "length t = card {k. db k \<noteq> None \<and> P k}"
proof -
  have d: "dom (map_of t) = fst ` set t" by (simp add: dom_map_of_conv_image_fst)
  have "distinct (map fst t)" using assms(1) by (simp add: strict_sorted_iff)
  then have "card (fst ` set t) = length t" by (metis distinct_card length_map list.set_map)
  with assms d show "length t = card {k. db k \<noteq> None \<and> P k}" "finite {k. db k \<noteq> None \<and> P k}"
    by (simp_all add: card_image)
qed

definition offer_key_of :: "Database \<Rightarrow> uint64 \<Rightarrow> LedgerKey" where
  "offer_key_of db i = OfferKey (or_sellerid (the (map_of (tb_offers db) i))) i"

definition trust_key_of :: "Database \<Rightarrow> AccountID \<times> AccountID \<times> bytes \<Rightarrow> LedgerKey" where
  "trust_key_of db k = TrustLineKey (fst k) (t_asset (trust_of_row k (the (map_of (tb_trustlines db) k))))"

lemma rows_account: "{k. db_view db k \<noteq> None \<and> LedgerEntryType_of k = 0} = AccountKey ` dom (map_of (tb_accounts db))"
proof -
  have "k \<in> AccountKey ` dom (map_of (tb_accounts db)) \<longleftrightarrow> db_view db k \<noteq> None \<and> LedgerEntryType_of k = 0" for k
    by (cases k) auto
  then show ?thesis by (intro set_eqI) (simp only: mem_Collect_eq)
qed

lemma trust_row_key:
  assumes "tables_ok db" "map_of (tb_trustlines db) k = Some r"
  shows "\<exists>x. x \<noteq> AssetNative \<and> asset_ok x \<and> k = getKeyFields (fst k) x \<and> trust_key_of db k = TrustLineKey (fst k) x"
proof -
  have row: "trust_row_ok k r" using tables_okD(1) [OF assms(1)] assms(2) by blast
  then obtain x where x: "x \<noteq> AssetNative" "asset_ok x" "k = getKeyFields (fst k) x" unfolding trust_row_ok_def by blast
  from row have "trust_row_ok (getKeyFields (fst k) x) r" unfolding x(3) [symmetric] .
  from trust_row_asset(1) [OF this x(1,2)] have "t_asset (trust_of_row k r) = x" unfolding x(3) [symmetric] .
  then have "trust_key_of db k = TrustLineKey (fst k) x" using assms(2) by (simp add: trust_key_of_def)
  with x show ?thesis by blast
qed

lemma rows_trust:
  assumes "tables_ok db"
  shows "{k. db_view db k \<noteq> None \<and> LedgerEntryType_of k = 1} = trust_key_of db ` dom (map_of (tb_trustlines db))"
    "inj_on (trust_key_of db) (dom (map_of (tb_trustlines db)))"
proof -
  show "inj_on (trust_key_of db) (dom (map_of (tb_trustlines db)))"
    by (intro inj_onI) (metis LedgerKey.inject(2) domD trust_row_key [OF assms])
  have "k \<in> trust_key_of db ` dom (map_of (tb_trustlines db)) \<longleftrightarrow> db_view db k \<noteq> None \<and> LedgerEntryType_of k = 1" for k
  proof (cases k)
    case (TrustLineKey a x)
    show ?thesis
    proof
      assume "k \<in> trust_key_of db ` dom (map_of (tb_trustlines db))"
      then obtain f r where f: "map_of (tb_trustlines db) f = Some r" "k = trust_key_of db f" by auto
      obtain y where y: "y \<noteq> AssetNative" "asset_ok y" "f = getKeyFields (fst f) y" "trust_key_of db f = TrustLineKey (fst f) y"
        using trust_row_key [OF assms f(1)] by blast
      then have "map_of (tb_trustlines db) (getKeyFields (fst f) y) = Some r" using f(1) by metis
      with y(1,2,4) f(2) show "db_view db k \<noteq> None \<and> LedgerEntryType_of k = 1" by simp
    next
      assume "db_view db k \<noteq> None \<and> LedgerEntryType_of k = 1"
      then obtain r where r: "x \<noteq> AssetNative" "asset_ok x" "map_of (tb_trustlines db) (getKeyFields a x) = Some r"
        using TrustLineKey by (auto split: if_splits)
      then have "trust_key_of db (getKeyFields a x) = k"
        using trust_row_asset(1) [of a x r] tables_okD(1) [OF assms] TrustLineKey
        by (auto simp: trust_key_of_def getKeyFields_credit)
      with r(3) show "k \<in> trust_key_of db ` dom (map_of (tb_trustlines db))" by blast
    qed
  qed (use trust_row_key [OF assms] in \<open>force simp: trust_key_of_def\<close>)+
  then show "{k. db_view db k \<noteq> None \<and> LedgerEntryType_of k = 1} = trust_key_of db ` dom (map_of (tb_trustlines db))" by (intro set_eqI) (simp only: mem_Collect_eq)
qed

lemma rows_offer:
  assumes "tables_ok db"
  shows "{k. db_view db k \<noteq> None \<and> LedgerEntryType_of k = 2} = offer_key_of db ` dom (map_of (tb_offers db))"
    "inj_on (offer_key_of db) (dom (map_of (tb_offers db)))"
proof -
  show "inj_on (offer_key_of db) (dom (map_of (tb_offers db)))" by (auto simp: inj_on_def offer_key_of_def)
  have "k \<in> offer_key_of db ` dom (map_of (tb_offers db)) \<longleftrightarrow> db_view db k \<noteq> None \<and> LedgerEntryType_of k = 2" for k
  proof (cases k)
    case (OfferKey a i)
    show ?thesis
    proof (cases "map_of (tb_offers db) i")
      case (Some r)
      with tables_okD(2) [OF assms] obtain f where "offer_of_row (i, r) = Inr f" by (metis offer_of_row_ok)
      with Some OfferKey show ?thesis by (auto simp: offer_key_of_def intro!: image_eqI [of _ _ i])
    qed (auto simp: offer_key_of_def OfferKey)
  qed (auto simp: offer_key_of_def)
  then show "{k. db_view db k \<noteq> None \<and> LedgerEntryType_of k = 2} = offer_key_of db ` dom (map_of (tb_offers db))" by (intro set_eqI) (simp only: mem_Collect_eq)
qed

lemma rows_data: "{k. db_view db k \<noteq> None \<and> LedgerEntryType_of k = 3} = case_prod DataKey ` dom (map_of (tb_accountdata db))"
proof -
  have "k \<in> case_prod DataKey ` dom (map_of (tb_accountdata db)) \<longleftrightarrow> db_view db k \<noteq> None \<and> LedgerEntryType_of k = 3" for k
    by (cases k) (force simp: loadData_def)+
  then show ?thesis by (intro set_eqI) (simp only: mem_Collect_eq)
qed

lemma rows_reversed: "{k. db_view db k \<noteq> None \<and> LedgerEntryType_of k = 4} = ReversedPaymentKey ` dom (map_of (tb_reversed db))"
proof -
  have "k \<in> ReversedPaymentKey ` dom (map_of (tb_reversed db)) \<longleftrightarrow> db_view db k \<noteq> None \<and> LedgerEntryType_of k = 4" for k
    by (cases k) (auto simp: loadReversedPayment_def)
  then show ?thesis by (intro set_eqI) (simp only: mem_Collect_eq)
qed

text \<open>The tables satisfy what the consistency check relies on.\<close>

lemma tables_counted:
  assumes "tables_ok db"
  shows "db_ok (db_view db) (countObjects db)"
proof -
  have maps: "map_ok (tb_accounts db)" "map_ok (tb_trustlines db)" "map_ok (tb_offers db)" "map_ok (tb_accountdata db)" "map_ok (tb_reversed db)"
    using assms by (simp_all add: tables_ok_def)
  let ?S = "\<lambda>t. {k. db_view db k \<noteq> None \<and> LedgerEntryType_of k = t}"
  have inj: "inj_on AccountKey A" "inj_on (case_prod DataKey) B" "inj_on ReversedPaymentKey C" for A B C
    by (auto simp: inj_on_def)
  note counts = card_rows [OF maps(1) rows_account inj(1)] card_rows [OF maps(2) rows_trust [OF assms]]
    card_rows [OF maps(3) rows_offer [OF assms]] card_rows [OF maps(4) rows_data inj(2)] card_rows [OF maps(5) rows_reversed inj(3)]
  have five: "LedgerEntryType_of k < 5" for k by (cases k) simp_all
  then have S: "?S t = {}" if "\<not> t < 5" for t using that by auto
  have count: "finite (?S t) \<and> countObjects db t = card (?S t)" for t
  proof -
    consider "t = 0" | "t = 1" | "t = 2" | "t = 3" | "t = 4" | "\<not> t < 5" by linarith
    then show ?thesis
    proof cases
      case 6
      have "finite (?S t) \<and> card (?S t) = 0" unfolding S [OF 6] by simp
      with 6 show ?thesis by (simp add: countObjects_def)
    qed (use counts in \<open>simp_all add: countObjects_defs\<close>)
  qed
  have "dom (db_view db) = (\<Union>t < 5. ?S t)" using five by auto
  with count have "finite (dom (db_view db))" by simp
  moreover have "{k \<in> dom (db_view db). LedgerEntryType_of k = t} = ?S t" for t by auto
  ultimately show ?thesis using count db_view_key [OF assms] by (simp add: db_ok_def)
qed

section \<open>Loading by key\<close>

lemma storeLoad_view:
  assumes "database_ok db" "\<And>a x. k = TrustLineKey a x \<Longrightarrow> x \<noteq> AssetNative \<and> asset_ok x"
  shows "\<exists>f c. storeLoad k db = Inr (f, db\<lparr>mEntryCache := c\<rparr>) \<and> database_ok (db\<lparr>mEntryCache := c\<rparr>) \<and>
    map_option frame_entry f = db_view db k"
proof -
  have same: "db = db\<lparr>mEntryCache := mEntryCache db\<rparr>" by simp
  have comp: "frame_entry \<circ> AccountF = account_entry" "frame_entry \<circ> TrustF = trust_entry" "frame_entry \<circ> OfferF = offer_entry"
    "frame_entry \<circ> DataF = data_entry" "frame_entry \<circ> ReversedF = reversed_entry" by (simp_all add: fun_eq_iff)
  show ?thesis
  proof (cases k)
    case (AccountKey i)
    with loadAccount_db_view [OF assms(1), of i] show ?thesis
      by (auto simp: storeLoad_def option.map_comp comp simp del: db_view.simps)
  next
    case (TrustLineKey a x)
    with assms(2) loadTrustLine_db_view [OF assms(1), of x a] show ?thesis
      by (auto simp: storeLoad_def option.map_comp comp simp del: db_view.simps)
  next
    case (OfferKey a i)
    with loadOffer_db_view [OF assms(1), of a i] assms(1) show ?thesis
      by (auto simp: storeLoad_def option.map_comp comp simp del: db_view.simps intro!: exI [of _ "mEntryCache db"])
  next
    case (DataKey a n)
    with assms(1) show ?thesis by (auto simp: storeLoad_def option.map_comp comp intro!: exI [of _ "mEntryCache db"])
  next
    case (ReversedPaymentKey i)
    with assms(1) show ?thesis by (auto simp: storeLoad_def option.map_comp comp intro!: exI [of _ "mEntryCache db"])
  qed
qed

section \<open>The check of accounts and signers\<close>

fun loadAccounts :: "AccountID list \<Rightarrow> Database \<Rightarrow> scp_error + ((AccountID \<times> AccountFrame option) list \<times> Database)" where
  "loadAccounts [] db = Inr ([], db)"
| "loadAccounts (i # is) db =
     bindE (loadAccount_db i db) (\<lambda>(f, db1).
     bindE (loadAccounts is db1) (\<lambda>(rest, db2). Inr ((i, f) # rest, db2)))"

text \<open>\<^verbatim>\<open>SELECT count(*), accountid FROM signers GROUP BY accountid\<close>.\<close>

definition signer_groups :: "Database \<Rightarrow> (nat \<times> AccountID) list" where
  "signer_groups db = map (\<lambda>i. (length (signer_rows i (tb_signers db)), i)) (remdups (map (fst \<circ> fst) (tb_signers db)))"

definition check_group :: "(AccountID \<times> AccountFrame option) list \<Rightarrow> nat \<times> AccountID \<Rightarrow> unit \<Rightarrow> scp_error + unit" where
  "check_group state g _ =
     (case g of (n, i) \<Rightarrow>
        case map_of state i of
          None \<Rightarrow> Inl (Runtime_Error ''Found extra signers in database for account'')
        | Some p \<Rightarrow> bindE (deref p) (\<lambda>f.
            if n \<noteq> length (a_signers (af_account f)) then Inl (Runtime_Error ''Mismatch signers for account'') else Inr ()))"

definition account_checkDB :: "Database \<Rightarrow> scp_error + ((AccountID \<times> AccountFrame option) list \<times> Database)" where
  "account_checkDB db =
     bindE (loadAccounts (map fst (tb_accounts db)) db) (\<lambda>(state, db1).
     bindE (foldE (check_group state) (signer_groups db1) ()) (\<lambda>_. Inr (state, db1)))"

lemma loadAccounts_view:
  "database_ok db \<Longrightarrow> \<exists>st c. loadAccounts is db = Inr (st, db\<lparr>mEntryCache := c\<rparr>) \<and> database_ok (db\<lparr>mEntryCache := c\<rparr>) \<and>
     map fst st = is \<and> (\<forall>(i, f) \<in> set st. map_option account_entry f = db_view db (AccountKey i))"
proof (induction "is" arbitrary: db)
  case Nil
  then show ?case by (auto intro!: exI [of _ "mEntryCache db"])
next
  case (Cons i "is")
  obtain f c where f: "loadAccount_db i db = Inr (f, db\<lparr>mEntryCache := c\<rparr>)" "database_ok (db\<lparr>mEntryCache := c\<rparr>)"
    "map_option account_entry f = db_view db (AccountKey i)"
    using loadAccount_db_view [OF Cons.prems] by blast
  obtain st c' where "loadAccounts is (db\<lparr>mEntryCache := c\<rparr>) = Inr (st, db\<lparr>mEntryCache := c'\<rparr>)" "database_ok (db\<lparr>mEntryCache := c'\<rparr>)"
     "map fst st = is" "\<forall>(i, f) \<in> set st. map_option account_entry f = db_view db (AccountKey i)"
    using Cons.IH [OF f(2)] by auto
  with f show ?case by (intro exI [of _ "(i, f) # st"] exI [of _ c']) (simp del: db_view.simps)
qed

lemma foldE_all_ok: "\<forall>x \<in> set xs. f x () = Inr () \<Longrightarrow> foldE f xs () = Inr ()"
  by (induction xs) simp_all

lemma account_checkDB_ok:
  assumes "database_ok db"
  shows "\<exists>st c. account_checkDB db = Inr (st, db\<lparr>mEntryCache := c\<rparr>) \<and> database_ok (db\<lparr>mEntryCache := c\<rparr>) \<and>
    map fst st = map fst (tb_accounts db) \<and> (\<forall>(i, f) \<in> set st. map_option account_entry f = db_view db (AccountKey i))"
proof -
  have t: "tables_ok db" using assms by (simp add: database_ok_def)
  obtain st c where st: "loadAccounts (map fst (tb_accounts db)) db = Inr (st, db\<lparr>mEntryCache := c\<rparr>)" "database_ok (db\<lparr>mEntryCache := c\<rparr>)"
     "map fst st = map fst (tb_accounts db)" "\<forall>(i, f) \<in> set st. map_option account_entry f = db_view db (AccountKey i)"
    using loadAccounts_view [OF assms] by blast
  have "check_group st g () = Inr ()" if group: "g \<in> set (signer_groups db)" for g
  proof -
    obtain i p v where g: "g = (length (signer_rows i (tb_signers db)), i)" "((i, p), v) \<in> set (tb_signers db)"
      using group by (auto simp: signer_groups_def)
    then have "signer_rows i (tb_signers db) \<noteq> []"
      by (auto simp: signer_rows_def filter_empty_conv)
    then obtain r where r: "map_of (tb_accounts db) i = Some r"
      using tables_okD(3) [OF t, of i] by (auto simp: account_row_ok_def split: option.splits)
    then have "i \<in> fst ` set st" using st(3) by (metis list.set_map map_of_SomeD fst_conv image_eqI)
    then obtain f where f: "map_of st i = Some f" by (metis domD dom_map_of_conv_image_fst)
    then have "map_option account_entry f = db_view db (AccountKey i)" using st(4) map_of_SomeD by fastforce
    with r obtain a where "f = Some a" "account_entry a = \<lparr>lastModifiedLedgerSeq = ar_lastmodified r, edata = AccountData (account_of_row i r (signer_rows i (tb_signers db)))\<rparr>"
      by auto
    with f g(1) show ?thesis by (auto simp: check_group_def account_entry_def account_of_row_def)
  qed
  then have "foldE (check_group st) (signer_groups (db\<lparr>mEntryCache := c\<rparr>)) () = Inr ()"
    by (intro foldE_all_ok) (simp add: signer_groups_def)
  with st show ?thesis by (auto simp: account_checkDB_def)
qed

end
