(* ===== verification/Frame_Properties.thy ===== *)
theory Frame_Properties
  imports Frame_Store Database_Admin Ledger_Properties
begin

text \<open>
  What the frames guarantee to the operations that use them: database, cache and delta stay in step, a
  rollback leaves no stale entry in the cache, and the checks of the database agree with its contents.
\<close>

section \<open>Staying in step\<close>

abbreviation ledger_on :: "LedgerHeader \<Rightarrow> bool \<Rightarrow> Database \<Rightarrow> Ledger" where
  "ledger_on header update db \<equiv> \<lparr>st_db = db, st_delta = LedgerDelta_on header update\<rparr>"

lemma ledger_on_ok:
  "database_ok db \<Longrightarrow> (update \<longrightarrow> lh_ledgerSeq header \<noteq> 0) \<Longrightarrow> ledger_ok (db_view db) (ledger_on header update db)"
  using delta_ok_fresh [of "db_view db" header update] by (simp add: ledger_ok_def agree_refl LedgerDelta_on_def)

text \<open>
  C23. Start from a database whose tables and cache are sound and a fresh delta. After any sequence of loads,
  stores and deletes through the frames of the five kinds of entries, each allowed when its turn comes
  (valid entries, deletes only of what is there, no signer changing its type but not its weight), the tables and
  the cache are sound, the entries are those the sequence describes, stamped with the ledger, and the batch the
  delta hands to the bucket list, applied to the entries at the start, gives the entries of the database, account
  data apart from the ledger it was modified in. No allowed operation ever fails.
\<close>

theorem frames_in_step:
  assumes "database_ok db" "update \<longrightarrow> lh_ledgerSeq header \<noteq> 0" "fs.session fdiv xs (ledger_on header update db) s"
  shows "database_ok (st_db s) \<and>
    entries s = fold (frame_meaning (\<lambda>n. if update then lh_ledgerSeq header else n)) xs (db_view db) \<and>
    batch_ok (getLiveEntries (st_delta s)) (getDeadEntries (st_delta s)) \<and>
    agree (apply_batch (getLiveEntries (st_delta s)) (getDeadEntries (st_delta s)) (db_view db)) (entries s) \<and>
    (\<forall>x. frame_allowed x s \<longrightarrow> (\<exists>s1. frame_run fdiv x s = Inr ((), s1)))"
proof -
  let ?s = "ledger_on header update db"
  have start: "ledger_ok (db_view db) ?s" by (rule ledger_on_ok [OF assms(1,2)])
  have st: "stamp ?s = (\<lambda>n. if update then lh_ledgerSeq header else n)"
    by (auto simp: stamp_def LedgerDelta_on_def)
  have s: "ledger_ok (db_view db) s" "entries s = fold (frame_meaning (stamp ?s)) xs (db_view db)"
    using fs.session_sound [OF assms(3) start] by simp_all
  have b: "batch_ok (getLiveEntries (st_delta s)) (getDeadEntries (st_delta s))"
    "apply_batch (getLiveEntries (st_delta s)) (getDeadEntries (st_delta s)) (db_view db) = effect (st_delta s) (db_view db)"
    using delta_batch [of "db_view db" "st_delta s"] s(1) by (simp_all add: ledger_ok_def)
  have "\<exists>s1. frame_run fdiv x s = Inr ((), s1)" if "frame_allowed x s" for x
    using fs.session_continues [OF assms(3) start that] by blast
  with s b st show ?thesis by (auto simp: ledger_ok_def)
qed

definition alice_frame :: EntryFrame where
  "alice_frame = AccountF \<lparr>af_account =
     \<lparr>a_accountID = [1], a_balance = 100, a_seqNum = 1, a_numSubEntries = 0, a_inflationDest = None, a_flags = 0,
      a_homeDomain = [], a_accountType = 0, a_thresholds = [], a_signers = []\<rparr>, af_lastModified = 1, mUpdateSigners = True\<rparr>"

lemma alice_frame_simps: "frame_entry alice_frame = alice" "frame_ok empty_tables alice_frame"
  by (simp_all add: alice_frame_def alice_def account_entry_def account_isValid_def isString32Valid_def signers_ok_def
      account_getID_def empty_tables_def signer_rows_def types_kept_def)

theorem frames_in_step_witness:
  "\<exists>s1 s2. fs.session (\<lambda>_ _. 0) [Put alice_frame] (ledger_on genesis False empty_tables) s1 \<and> entries s1 = [AccountKey [1] \<mapsto> alice] \<and>
    fs.session (\<lambda>_ _. 0) [Put alice_frame, Delete (AccountKey [1])] (ledger_on genesis False empty_tables) s2 \<and> entries s2 = (\<lambda>_. None)"
proof -
  let ?s = "ledger_on genesis False empty_tables" and ?f = "\<lambda>_ _ :: int32. 0 :: rat"
  have ok: "ledger_ok (db_view empty_tables) ?s" by (rule ledger_on_ok [OF empty_tables_ok(1)]) simp
  have put: "frame_meaning st (Put alice_frame) (\<lambda>_. None) = [AccountKey [1] \<mapsto> alice]" if "\<And>n. st n = n" for st
    using that by (simp add: alice_frame_simps(1)) (simp add: alice_frame_def alice_def account_entry_def unstamped_def)
  obtain s1 where 1: "fs.session ?f ([] @ [Put alice_frame]) ?s s1"
    using fs.session_continues [OF fs.session_nil ok, of "Put alice_frame" ?f] alice_frame_simps(2) by auto
  then have e1: "entries s1 = [AccountKey [1] \<mapsto> alice]"
    using frames_in_step [OF empty_tables_ok(1), of False genesis ?f "[Put alice_frame]" s1] put by (simp add: empty_tables_ok(2))
  then have "frame_allowed (Delete (AccountKey [1])) s1" by (simp del: db_view.simps)
  from fs.session_continues [OF 1 ok this] obtain s2 where 2: "fs.session ?f (([] @ [Put alice_frame]) @ [Delete (AccountKey [1])]) ?s s2" by blast
  then have "entries s2 = fold (frame_meaning (\<lambda>n. n)) [Put alice_frame, Delete (AccountKey [1])] (\<lambda>_. None)"
    using frames_in_step [OF empty_tables_ok(1), of False genesis ?f "[Put alice_frame, Delete (AccountKey [1])]" s2]
    by (simp add: empty_tables_ok(2))
  then have "entries s2 = (\<lambda>_. None)" using put [of "\<lambda>n. n"] by auto
  with 1 2 e1 show ?thesis by auto
qed

text \<open>
  C25. When a delta is abandoned, its destructor flushes the keys it has touched and the tables are brought back by the
  transaction. Whatever was loaded, stored and deleted in between, the database is sound again: the entry cache,
  which is not part of the transaction, holds nothing that differs from the restored tables.
\<close>

theorem rollback_leaves_no_stale_cache:
  assumes "database_ok db" "update \<longrightarrow> lh_ledgerSeq header \<noteq> 0" "fs.session fdiv xs (ledger_on header update db) s"
  shows "database_ok (rolled_back db s) \<and> db_view (rolled_back db s) = db_view db"
  using rollback_sound [OF assms(1)] fs.session_sound [OF assms(3) ledger_on_ok [OF assms(1,2)]] by blast

theorem rollback_leaves_no_stale_cache_witness:
  "\<exists>s. fs.session (\<lambda>_ _. 0) [Put alice_frame, Load (AccountKey [1])] (ledger_on genesis False empty_tables) s \<and>
    db_view (rolled_back empty_tables s) = (\<lambda>_. None)"
proof -
  let ?s = "ledger_on genesis False empty_tables" and ?f = "\<lambda>_ _ :: int32. 0 :: rat"
  have ok: "ledger_ok (db_view empty_tables) ?s" by (rule ledger_on_ok [OF empty_tables_ok(1)]) simp
  obtain s1 where 1: "fs.session ?f ([] @ [Put alice_frame]) ?s s1"
    using fs.session_continues [OF fs.session_nil ok, of "Put alice_frame" ?f] alice_frame_simps(2) by auto
  obtain s2 where 2: "fs.session ?f (([] @ [Put alice_frame]) @ [Load (AccountKey [1])]) ?s s2"
    using fs.session_continues [OF 1 ok, of "Load (AccountKey [1])"] by auto
  from rollback_leaves_no_stale_cache [OF empty_tables_ok(1) _ 2] 2 show ?thesis by (auto simp: empty_tables_ok(2))
qed

section \<open>Checking the database\<close>

text \<open>
  C26. On sound tables, with the counts of their rows and loads by key, the consistency check against the bucket
  list succeeds exactly when the tables hold what the bucket list stores; loading an entry by its key gives what
  the tables hold. Since the table of account data has no column for the ledger an entry was modified in, the check
  fails as soon as the bucket list stores a data entry with a stamp.
\<close>

theorem check_against_tables:
  assumes "bucket_run H k ls m" "database_ok db"
  shows "((\<exists>ls'. checkDBAgainstBuckets H (db_view db) (countObjects db) ls = Inr ls') \<longleftrightarrow> db_view db = m) \<and>
    (\<forall>key. (case key of TrustLineKey a x \<Rightarrow> x \<noteq> AssetNative \<and> asset_ok x | _ \<Rightarrow> True) \<longrightarrow>
      (\<exists>f db1. storeLoad key db = Inr (f, db1) \<and> map_option frame_entry f = db_view db key)) \<and>
    ((\<exists>key e d. m key = Some e \<and> edata e = DataData d \<and> lastModifiedLedgerSeq e \<noteq> 0) \<longrightarrow>
      \<not> (\<exists>ls'. checkDBAgainstBuckets H (db_view db) (countObjects db) ls = Inr ls'))"
proof -
  have t: "tables_ok db" using assms(2) by (simp add: database_ok_def)
  have ok: "bucketlist_ok H k ls" "stored ls = m" using bucket_run_ok [OF assms(1)] by simp_all
  have check: "(\<exists>ls'. checkDBAgainstBuckets H (db_view db) (countObjects db) ls = Inr ls') \<longleftrightarrow> db_view db = m"
    using checkDB_iff(1) [OF ok(1) tables_counted [OF t]] ok(2) by simp
  have load: "\<exists>f db1. storeLoad key db = Inr (f, db1) \<and> map_option frame_entry f = db_view db key"
    if "case key of TrustLineKey a x \<Rightarrow> x \<noteq> AssetNative \<and> asset_ok x | _ \<Rightarrow> True" for key
    using storeLoad_view [OF assms(2), of key] that by (cases key) (auto simp del: db_view.simps)
  have stampless: "lastModifiedLedgerSeq e = 0" if "db_view db key = Some e" "edata e = DataData d" for key e d
    using that by (cases key) (auto simp: loadData_def data_entry_def data_of_row_def offer_entry_def reversed_entry_def loadReversedPayment_def
        split: if_splits option.splits sum.splits)
  with check have "db_view db \<noteq> m" if "m key = Some e" "edata e = DataData d" "lastModifiedLedgerSeq e \<noteq> 0" for key e d
    using that by metis
  with check load show ?thesis by blast
qed

definition memo :: LedgerEntry where
  "memo = \<lparr>lastModifiedLedgerSeq = 1, edata = DataData \<lparr>d_accountID = [1], d_dataName = [7], d_dataValue = [8]\<rparr>\<rparr>"

theorem check_against_tables_witness:
  "(\<exists>ls'. checkDBAgainstBuckets (\<lambda>_. []) (db_view empty_tables) (countObjects empty_tables) BucketList_init = Inr ls') \<and>
   (\<exists>ls. addBatch (\<lambda>_. []) 1 [memo] [] BucketList_init = Inr ls \<and>
     \<not> (\<exists>ls'. checkDBAgainstBuckets (\<lambda>_. []) (db_view empty_tables) (countObjects empty_tables) ls = Inr ls'))"
proof -
  let ?H = "\<lambda>_ :: Bucket. [] :: Hash"
  obtain ls where ls: "addBatch ?H 1 [memo] [] BucketList_init = Inr ls"
    using addBatch_refines [of ?H 0 BucketList_init 1 "[memo]" "[]"] bucketlist_ok_init by (auto simp: batch_ok_def)
  then have run: "bucket_run ?H (Suc 0) ls (apply_batch [memo] [] (\<lambda>_. None))"
    using run_batch [OF run_init [of ?H], of "[memo]" "[]" ls] by (simp add: batch_ok_def)
  have "apply_batch [memo] [] (\<lambda>_. None) (DataKey [1] [7]) = Some memo"
    by (simp add: apply_batch_def memo_def LedgerEntryKey_def)
  then have "\<exists>key e d. apply_batch [memo] [] (\<lambda>_. None) key = Some e \<and> edata e = DataData d \<and> lastModifiedLedgerSeq e \<noteq> 0"
    by (intro exI [of _ "DataKey [1] [7]"] exI [of _ memo] exI [of _ "\<lparr>d_accountID = [1], d_dataName = [7], d_dataValue = [8]\<rparr>"]) (simp add: memo_def)
  with check_against_tables [OF run empty_tables_ok(1)] check_against_tables [OF run_init [of ?H] empty_tables_ok(1)] ls
  show ?thesis by (auto simp: empty_tables_ok(2))
qed

text \<open>
  The sanity check of accounts and signers passes on every sound database: every account loads, every row of
  the table of signers belongs to an account, and the numbers of signers match.
\<close>

theorem checkDB_passes:
  assumes "database_ok db"
  shows "\<exists>state db1. account_checkDB db = Inr (state, db1) \<and> map fst state = map fst (tb_accounts db) \<and>
    db_view db1 = db_view db \<and> database_ok db1"
  using account_checkDB_ok [OF assms] by (auto simp del: db_view.simps)

theorem checkDB_passes_witness: "\<exists>db1. account_checkDB empty_tables = Inr ([], db1) \<and> database_ok db1"
  using checkDB_passes [OF empty_tables_ok(1)] by (auto simp: empty_tables_def)

section \<open>Assets in the tables\<close>

text \<open>
  An asset survives the way through the tables: the columns of an offer and the row of a trust line give
  the asset back that was stored, different assets have different columns, the query for the order book of a
  pair of assets matches exactly the offers for that pair although it compares codes and issuers only, and the
  key of a trust line (account, issuer and code, without the type of the asset) belongs to one line only.
\<close>

theorem asset_columns_roundtrip:
  assumes "asset_ok x" "asset_ok y"
  shows "asset_of_columns (columns_of_asset x) = Inr x \<and> (columns_of_asset x = columns_of_asset y \<longleftrightarrow> x = y) \<and>
    (asset_matches x (columns_of_asset y) \<longleftrightarrow> x = y) \<and>
    (x \<noteq> AssetNative \<longrightarrow> asset_of_row (assetType x) (issuer x) (codeStr x) = x \<and>
      (y \<noteq> AssetNative \<longrightarrow> (getKeyFields a x = getKeyFields b y \<longleftrightarrow> a = b \<and> x = y)))"
  using asset_of_columns_of columns_of_asset_inj asset_matches_columns asset_of_row_type getKeyFields_inj assms by metis

definition euro :: Asset where
  "euro = AlphaNum4 [69, 85, 82, 0] [9]"

theorem asset_columns_roundtrip_witness:
  "asset_of_columns (columns_of_asset euro) = Inr euro \<and> asset_of_row 1 [9] [69, 85, 82] = euro"
  using asset_columns_roundtrip [of euro euro]
  by (simp add: euro_def asset_ok_def isalnum_def codeStr_def)

section \<open>Signers\<close>

text \<open>Signers that differ from the stored ones in their type only are taken as unchanged: the new types are not written.\<close>

lemma signers_walk_same:
  "map (\<lambda>s. (sg_pubKey s, sg_weight s)) new = map (\<lambda>s. (sg_pubKey s, sg_weight s)) old \<Longrightarrow> signers_walk i new old changed t = Inr (changed, t)"
proof (induction new arbitrary: old)
  case (Cons s new)
  then obtain o' old' where "old = o' # old'" by (cases old) auto
  with Cons show ?case by simp
qed simp

theorem signer_type_change_lost:
  assumes "map (\<lambda>s. (sg_pubKey s, sg_weight s)) (a_signers (af_account f)) = map (\<lambda>s. (sg_pubKey s, sg_weight s)) (loadSigners (account_getID f) db)"
  shows "applySigners False f db = Inr ((), db)"
  using signers_walk_same [OF assms, of "account_getID f" False "tb_signers db"] by (simp add: applySigners_def)

text \<open>The minimum balance is a product of 32-bit numbers: it is right up to a multiple of \<open>2 ^ 32\<close>.\<close>

theorem min_balance_wraps:
  "getMinBalance lm n = ((2 + uint n) * uint (lh_baseReserve lm)) mod 2 ^ 32"
  by (simp add: getMinBalance_def uint_word_ariths mod_mult_left_eq)

end
