(* ===== verification/Bucket_Apply.thy ===== *)
theory Bucket_Apply
  imports Frame_Store BucketList_Refinement
begin

text \<open>
  Applying a bucket to the database has the effect of the entries of the bucket on the map of entries the
  database stands for, as long as every entry can be wrote over the one it replaces.
\<close>

section \<open>One entry\<close>

fun live_storable :: "ledger_map \<Rightarrow> LedgerEntryData \<Rightarrow> bool" where
  "live_storable m (AccountData a) =
     (account_isValid a \<and> a_balance a \<le> INT64_MAX \<and> (a_numSubEntries a = 0 \<longrightarrow> a_signers a = []) \<and> signers_sorted (a_signers a) \<and>
      (case m (AccountKey (a_accountID a)) of
         Some e \<Rightarrow> (case edata e of AccountData old \<Rightarrow> types_kept (a_signers a) (a_signers old) | _ \<Rightarrow> False)
       | None \<Rightarrow> True))"
| "live_storable m (TrustLineData t) =
     (trust_isValid t \<and> asset_ok (t_asset t) \<and> is_int64 (t_balance t) \<and> t_limit t \<le> INT64_MAX)"
| "live_storable m (OfferData x) = (offer_ok x \<and> (\<forall>a. m (OfferKey a (o_offerID x)) \<noteq> None \<longrightarrow> a = o_sellerID x))"
| "live_storable m (DataData d) = True"
| "live_storable m (ReversedPaymentData r) = True"

fun storable :: "ledger_map \<Rightarrow> BucketEntry \<Rightarrow> bool" where
  "storable m (LIVEENTRY e) =
     (live_storable m (edata e) \<and>
      (case edata e of ReversedPaymentData r \<Rightarrow> m (LedgerEntryKey e) = None \<or> m (LedgerEntryKey e) = Some e | _ \<Rightarrow> True))"
| "storable m (DEADENTRY k) =
     (case k of TrustLineKey a x \<Rightarrow> x \<noteq> AssetNative \<and> asset_ok x
      | OfferKey a i \<Rightarrow> (\<forall>b. m (OfferKey b i) \<noteq> None \<longrightarrow> b = a)
      | _ \<Rightarrow> True)"

fun applied_entry :: "BucketEntry \<Rightarrow> ledger_map \<Rightarrow> ledger_map" where
  "applied_entry (LIVEENTRY e) m = m(LedgerEntryKey e \<mapsto> unstamped e)"
| "applied_entry (DEADENTRY k) m = m(k := None)"

abbreviation on_fresh :: "Database \<Rightarrow> Ledger" where
  "on_fresh db \<equiv> \<lparr>st_db = db, st_delta = LedgerDelta_on empty_header False\<rparr>"

lemma fresh_ok: "database_ok db \<Longrightarrow> ledger_ok (db_view db) (on_fresh db)"
  using delta_ok_fresh [of "db_view db" empty_header False] by (simp add: ledger_ok_def agree_refl LedgerDelta_on_def)

lemma fresh_stamp [simp]: "stamp (on_fresh db) n = n"
  by (simp add: stamp_def LedgerDelta_on_def)

lemma fresh_commit:
  assumes "ledger_ok m s1" "same_run (on_fresh db) s1"
  shows "commit_header empty_header (st_delta s1) = Inr (mCurrentHeader (st_delta s1), (st_delta s1)\<lparr>mOpen := False\<rparr>)"
  using assms by (simp add: commit_header_def delta_checkState_def ledger_ok_def delta_ok_def same_run_def LedgerDelta_on_def)

lemma offer_row_seller:
  assumes "database_ok db" "\<And>b. db_view db (OfferKey b i) \<noteq> None \<Longrightarrow> b = a" "map_of (tb_offers db) i = Some r"
  shows "or_sellerid r = a"
proof -
  have "tables_ok db" using assms(1) by (simp add: database_ok_def)
  then obtain f where "offer_of_row (i, r) = Inr f" using tables_okD(2) assms(3) by (metis offer_of_row_ok)
  then have "db_view db (OfferKey (or_sellerid r) i) \<noteq> None" using assms(3) by simp
  then show ?thesis by (rule assms(2))
qed

text \<open>The frame of a live entry can be stored over what the database holds.\<close>

lemma FromXDR_ok:
  assumes db: "database_ok db" and e: "storable (db_view db) (LIVEENTRY e)"
    and new: "\<And>r. edata e = ReversedPaymentData r \<Longrightarrow> db_view db (LedgerEntryKey e) = None"
  shows "\<exists>f. FromXDR e = Inr f \<and> frame_entry f = e \<and> frame_ok db f"
proof (cases "edata e")
  case (AccountData a)
  let ?f = "\<lparr>af_account = a, af_lastModified = lastModifiedLedgerSeq e, mUpdateSigners = True\<rparr>"
  have "types_kept (a_signers a) (signer_rows (a_accountID a) (tb_signers db))"
    using e AccountData db
    by (cases "map_of (tb_accounts db) (a_accountID a)")
       (auto simp: account_of_row_def types_kept_def database_ok_def account_row_ok_def dest: tables_okD(3) [where a = "a_accountID a"])
  then have "signers_ok db ?f" using e AccountData by (simp add: signers_ok_def account_getID_def)
  with AccountData e show ?thesis
    by (intro exI [of _ "AccountF ?f"]) (simp add: FromXDR_def AccountFrame_entry_def account_entry_def)
next
  case (TrustLineData x)
  with e show ?thesis
    by (intro exI [of _ "TrustF \<lparr>tf_line = x, tf_lastModified = lastModifiedLedgerSeq e, mIsIssuer = False\<rparr>"])
       (simp add: FromXDR_def TrustFrame_entry_def assertE_def trust_entry_def)
next
  case (OfferData x)
  have "or_sellerid r = o_sellerID x" if "map_of (tb_offers db) (o_offerID x) = Some r" for r
    using offer_row_seller [OF db _ that, of "o_sellerID x"] e OfferData by simp
  moreover have "offer_ok x" using e OfferData by simp
  ultimately show ?thesis
    using OfferData by (intro exI [of _ "OfferF \<lparr>of_offer = x, of_lastModified = lastModifiedLedgerSeq e\<rparr>"])
       (simp add: FromXDR_def OfferFrame_entry_def offer_entry_def)
next
  case (DataData x)
  then show ?thesis
    by (intro exI [of _ "DataF \<lparr>df_data = x, df_lastModified = lastModifiedLedgerSeq e\<rparr>"])
       (simp add: FromXDR_def DataFrame_entry_def data_entry_def)
next
  case (ReversedPaymentData x)
  with new [OF ReversedPaymentData] show ?thesis
    by (intro exI [of _ "ReversedF \<lparr>rf_payment = x, rf_lastModified = lastModifiedLedgerSeq e\<rparr>"])
       (simp add: FromXDR_def ReversedPaymentFrame_entry_def reversed_entry_def LedgerEntryKey_def del: db_view.simps)
qed

lemma frame_stamped_fresh: "frame_stamped (stamp (on_fresh db)) f = f"
  by (cases f) simp_all

text \<open>A reversed payment that is there already stays as it is.\<close>

lemma reversed_again:
  assumes db: "database_ok db" and e: "edata e = ReversedPaymentData x" "db_view db (LedgerEntryKey e) = Some e"
  shows "\<exists>s1. bindE (FromXDR e) (\<lambda>f. storeAddOrChange fdiv f (on_fresh db)) = Inr ((), s1) \<and>
    ledger_ok (db_view db) s1 \<and> same_run (on_fresh db) s1 \<and> entries s1 = db_view db"
proof -
  let ?f = "\<lparr>rf_payment = x, rf_lastModified = lastModifiedLedgerSeq e\<rparr>"
  have key: "LedgerEntryKey e = ReversedPaymentKey (r_rID x)" and f: "FromXDR e = Inr (ReversedF ?f)" "frame_entry (ReversedF ?f) = e"
    using e(1) by (simp_all add: LedgerEntryKey_def FromXDR_def ReversedPaymentFrame_entry_def reversed_entry_def)
  have "entry_exists (LedgerEntryKey e) db = Inr (True, db)"
    using e(2) by (auto simp: key entry_exists_def reversed_exists_def loadReversedPayment_def)
  moreover have "frame_storeChange fdiv (ReversedF ?f) (on_fresh db) = Inr ((), on_fresh db)"
    using touch_stamp [OF fresh_ok [OF db], of "lastModifiedLedgerSeq e"]
    by (simp add: reversed_storeChange_def reversed_storeUpdateHelper_def bindL_def getDelta_def)
  ultimately have "storeAddOrChange fdiv (ReversedF ?f) (on_fresh db) = Inr ((), on_fresh db)"
    using f(2) by (simp add: storeAddOrChange_def bindL_def withDB_def)
  with f(1) fresh_ok [OF db] show ?thesis by (intro exI [of _ "on_fresh db"]) simp
qed

lemma live_stored:
  assumes db: "database_ok db" and e: "storable (db_view db) (LIVEENTRY e)"
  shows "\<exists>s1. bindE (FromXDR e) (\<lambda>f. storeAddOrChange fdiv f (on_fresh db)) = Inr ((), s1) \<and>
    ledger_ok (db_view db) s1 \<and> same_run (on_fresh db) s1 \<and> entries s1 = (db_view db)(LedgerEntryKey e \<mapsto> unstamped e)"
proof (cases "\<exists>r. edata e = ReversedPaymentData r \<and> db_view db (LedgerEntryKey e) \<noteq> None")
  case True
  then obtain r where r: "edata e = ReversedPaymentData r" "db_view db (LedgerEntryKey e) = Some e" using e by auto
  then have "(db_view db)(LedgerEntryKey e \<mapsto> unstamped e) = db_view db" by (simp add: unstamped_def fun_upd_idem)
  with reversed_again [OF db r] show ?thesis by simp
next
  case False
  then obtain f where f: "FromXDR e = Inr f" "frame_entry f = e" "frame_ok db f" using FromXDR_ok [OF db e] by blast
  have "frame_ok (st_db (on_fresh db)) f" using f(3) by simp
  from storeAddOrChange_put [OF fresh_ok [OF db] this, of fdiv] f show ?thesis
    unfolding frame_stamped_fresh by (auto simp: wrote_def)
qed

lemma fresh_delete:
  "\<exists>d. deleteEntry k (LedgerDelta_on empty_header False) = Inr d \<and> commit_header empty_header d = Inr (mCurrentHeader d, d\<lparr>mOpen := False\<rparr>)"
  by (simp add: deleteEntry_def commit_header_def delta_checkState_def LedgerDelta_on_def assertE_def)

lemma applyEntry_dead:
  assumes "\<exists>db1. entry_storeDelete k = bindL (withDB (\<lambda>db. Inr ((), db1 db))) (\<lambda>_. onDelta (deleteEntry k)) \<and> database_ok (db1 db) \<and>
      db_view (db1 db) = (db_view db)(k := None)"
  shows "\<exists>db'. applyEntry fdiv (DEADENTRY k) db = Inr db' \<and> database_ok db' \<and> db_view db' = (db_view db)(k := None)"
proof -
  from assms obtain db1 where db1: "entry_storeDelete k = bindL (withDB (\<lambda>db. Inr ((), db1 db))) (\<lambda>_. onDelta (deleteEntry k))"
    "database_ok (db1 db)" "db_view (db1 db) = (db_view db)(k := None)" by blast
  obtain d where "deleteEntry k (LedgerDelta_on empty_header False) = Inr d" "commit_header empty_header d = Inr (mCurrentHeader d, d\<lparr>mOpen := False\<rparr>)"
    using fresh_delete by blast
  with db1 show ?thesis
    by (intro exI [of _ "db1 db"]) (simp add: applyEntry_def bindL_def withDB_def onDelta_def)
qed

lemma applyEntry_view:
  assumes db: "database_ok db" and be: "storable (db_view db) be"
  shows "\<exists>db'. applyEntry fdiv be db = Inr db' \<and> database_ok db' \<and> db_view db' = applied_entry be (db_view db)"
proof (cases be)
  case (DEADENTRY k)
  show ?thesis
  proof (cases k)
    case (AccountKey i)
    show ?thesis unfolding DEADENTRY applied_entry.simps
      by (rule applyEntry_dead, rule exI, rule conjI, use AccountKey account_erase_db [OF db, of i] in
        \<open>simp_all add: account_storeDelete_def Let_def\<close>)
  next
    case (TrustLineKey a x)
    show ?thesis unfolding DEADENTRY applied_entry.simps
      by (rule applyEntry_dead, rule exI, rule conjI, use TrustLineKey trust_erase_db [OF db, of x a] be DEADENTRY in
        \<open>simp_all add: trust_storeDelete_def Let_def\<close>)
  next
    case (OfferKey a i)
    have "or_sellerid r = a" if "map_of (tb_offers db) i = Some r" for r
      using offer_row_seller [OF db _ that, of a] be DEADENTRY OfferKey by simp
    from offer_erase_db [OF db this] show ?thesis unfolding DEADENTRY applied_entry.simps
      by (intro applyEntry_dead, intro exI, intro conjI) (simp_all add: OfferKey offer_storeDelete_def)
  next
    case (DataKey a n)
    show ?thesis unfolding DEADENTRY applied_entry.simps
      by (rule applyEntry_dead, rule exI, rule conjI, use DataKey data_erase_db [OF db, of a n] view_data_erase [of a n db] in
        \<open>simp_all add: data_storeDelete_def\<close>)
  next
    case (ReversedPaymentKey i)
    show ?thesis unfolding DEADENTRY applied_entry.simps
      by (rule applyEntry_dead, rule exI, rule conjI, use ReversedPaymentKey reversed_erase_db [OF db, of i] view_reversed_erase [of i db] in
        \<open>simp_all add: reversed_storeDelete_def\<close>)
  qed
next
  case (LIVEENTRY e)
  obtain s1 where s1: "bindE (FromXDR e) (\<lambda>f. storeAddOrChange fdiv f (on_fresh db)) = Inr ((), s1)"
    "ledger_ok (db_view db) s1" "same_run (on_fresh db) s1" "entries s1 = (db_view db)(LedgerEntryKey e \<mapsto> unstamped e)"
    using live_stored [OF db, of e fdiv] be LIVEENTRY by blast
  with LIVEENTRY fresh_commit [OF s1(2,3)] show ?thesis
    by (intro exI [of _ "st_db s1"]) (simp add: applyEntry_def ledger_ok_def)
qed

section \<open>A bucket\<close>

fun bucket_storable :: "ledger_map \<Rightarrow> BucketEntry list \<Rightarrow> bool" where
  "bucket_storable m [] = True"
| "bucket_storable m (be # bes) = (storable m be \<and> bucket_storable (applied_entry be m) bes)"

lemma bucket_storable_append:
  "bucket_storable m (xs @ ys) \<longleftrightarrow> bucket_storable m xs \<and> bucket_storable (fold applied_entry xs m) ys"
  by (induction xs arbitrary: m) simp_all

lemma applyEntry_fold:
  "database_ok db \<Longrightarrow> bucket_storable (db_view db) bes \<Longrightarrow>
   \<exists>db'. foldE (applyEntry fdiv) bes db = Inr db' \<and> database_ok db' \<and> db_view db' = fold applied_entry bes (db_view db)"
proof (induction bes arbitrary: db)
  case (Cons be bes)
  then obtain db1 where db1: "applyEntry fdiv be db = Inr db1" "database_ok db1" "db_view db1 = applied_entry be (db_view db)"
    using applyEntry_view [of db be fdiv] by auto
  with Cons.IH [OF db1(2)] Cons.prems(2) show ?case by simp
qed simp

text \<open>What a bucket makes of a map: its live entries are there, its dead keys are not, and nothing else changes.\<close>

lemma fold_applied:
  "bucket_ok b \<Longrightarrow> fold applied_entry b m k = (case entry_of b k of None \<Rightarrow> m k | Some be \<Rightarrow> map_option unstamped (live_entry (Some be)))"
proof (induction b arbitrary: m)
  case (Cons be b)
  have key: "applied_entry be m k = (if bkey be = k then map_option unstamped (live_entry (Some be)) else m k)" for m
    by (cases be) auto
  have "bkey be = k \<Longrightarrow> entry_of b k = None"
    using Cons.prems by (auto simp: bucket_ok_Cons entry_of_def map_of_eq_None_iff bkeys_def image_image)
  with Cons key show ?case by (auto simp: bucket_ok_Cons split: option.splits)
qed simp

end
