(* ===== verification/ApplyBucketsWork.thy ===== *)
theory ApplyBucketsWork
  imports Bucket_Apply BucketList_Restart
begin

text \<open>
  \<^verbatim>\<open>ApplyBucketsWork\<close> of \<^verbatim>\<open>src/history/HistoryWork.cpp\<close>: the last stage of catching up writes the buckets of an
  archived bucket list into the database and into the node's own bucket list, from the oldest bucket to the
  newest, skipping the oldest ones the node already has. The work is driven by \<^verbatim>\<open>Work::run\<close> and
  \<^verbatim>\<open>Work::complete\<close> of \<^verbatim>\<open>src/work/Work.cpp\<close>, which the event loop calls in turn. The buckets that were
  downloaded and those the bucket manager holds are the parameters \<open>mBuckets\<close> and \<open>getBucketByHash\<close>; the
  hash function is \<open>H\<close>, and a hash in hexadecimal is the hash it encodes.
\<close>

datatype WorkState = WORK_PENDING | WORK_RUNNING | WORK_SUCCESS | WORK_FAILURE_RETRY | WORK_FAILURE_RAISE

text \<open>\<^verbatim>\<open>HistoryStateBucket\<close>, as it is in memory.\<close>

record ArchiveLevel =
  al_curr :: Hash
  al_next :: FutureBucket
  al_snap :: Hash

text \<open>\<^verbatim>\<open>HistoryArchiveState::fromString\<close>: \<open>unset\<close> is the value of \<^verbatim>\<open>mKeepDeadEntries\<close> in the futures read into.\<close>

fun readLevels :: "(Bucket \<Rightarrow> Hash) \<Rightarrow> bool \<Rightarrow> HistoryStateBucket list \<Rightarrow> scp_error + ArchiveLevel list" where
  "readLevels H unset [] = Inr []"
| "readLevels H unset (hs # has) =
     bindE (load H (hs_next hs) (FutureBucket_default unset)) (\<lambda>nx.
     bindE (readLevels H unset has) (\<lambda>rest. Inr (\<lparr>al_curr = hs_curr hs, al_next = nx, al_snap = hs_snap hs\<rparr> # rest)))"

definition futuresAllResolved :: "ArchiveLevel list \<Rightarrow> bool" where
  "futuresAllResolved st \<longleftrightarrow> list_all (\<lambda>level. \<not> isMerging (al_next level)) st"

definition loadState :: "(Bucket \<Rightarrow> Hash) \<Rightarrow> bool \<Rightarrow> HistoryStateBucket list \<Rightarrow> scp_error + ArchiveLevel list" where
  "loadState H unset has =
     bindE (readLevels H unset has) (\<lambda>st. bindE (assertE (futuresAllResolved st)) (\<lambda>_. Inr st))"

lemma load_not_merging: "load H sv fb = Inr fb1 \<Longrightarrow> \<not> isMerging fb1"
  by (auto simp: load_def Let_def bindE_Inr_iff isMerging_def clear_def clearOutput_def clearInputs_def split: SavedFuture.splits)

lemma loadState_levels: "readLevels H unset has = Inr st \<Longrightarrow> loadState H unset has = Inr st"
proof -
  have "readLevels H unset has = Inr st \<Longrightarrow> futuresAllResolved st"
    by (induction has arbitrary: st) (auto simp: futuresAllResolved_def bindE_Inr_iff dest: load_not_merging)
  then show "readLevels H unset has = Inr st \<Longrightarrow> loadState H unset has = Inr st"
    by (simp add: loadState_def assertE_def)
qed

record ApplyBuckets =
  aw_state :: WorkState
  aw_db :: Database
  aw_buckets :: BucketList
  aw_level :: nat
  mApplying :: bool
  mSnapBucket :: "Bucket option"
  mCurrBucket :: "Bucket option"
  mSnapApplicator :: "BucketApplicator option"
  mCurrApplicator :: "BucketApplicator option"

section \<open>Operations\<close>

definition zero_hash :: Hash where
  "zero_hash = replicate 32 0"

definition aw_getBucket :: "(Hash \<Rightarrow> Bucket option) \<Rightarrow> (Hash \<Rightarrow> Bucket option) \<Rightarrow> Hash \<Rightarrow> scp_error + Bucket" where
  "aw_getBucket mBuckets getBucketByHash h =
     (if h = zero_hash then Inr []
      else case mBuckets h of
        Some b \<Rightarrow> Inr b
      | None \<Rightarrow> bindE (assertE (getBucketByHash h \<noteq> None)) (\<lambda>_. deref (getBucketByHash h)))"

text \<open>The constructor: the last closed ledger must not be ahead of the state to apply.\<close>

definition ApplyBuckets_on :: "uint32 \<Rightarrow> uint32 \<Rightarrow> Database \<Rightarrow> BucketList \<Rightarrow> scp_error + ApplyBuckets" where
  "ApplyBuckets_on lcl firstVerified db buckets =
     (if firstVerified < lcl then Inl (Runtime_Error ''ApplyBucketsWork applying ledger earlier than local LCL'')
      else Inr \<lparr>aw_state = WORK_PENDING, aw_db = db, aw_buckets = buckets, aw_level = kNumLevels - 1, mApplying = False,
        mSnapBucket = None, mCurrBucket = None, mSnapApplicator = None, mCurrApplicator = None\<rparr>)"

definition aw_onReset :: "ApplyBuckets \<Rightarrow> ApplyBuckets" where
  "aw_onReset w = w\<lparr>aw_level := kNumLevels - 1, mApplying := False, mSnapBucket := None, mCurrBucket := None,
     mSnapApplicator := None, mCurrApplicator := None\<rparr>"

definition at_level :: "'a list \<Rightarrow> nat \<Rightarrow> scp_error + 'a" where
  "at_level xs i = (if i < length xs then Inr (xs ! i) else Inl (Runtime_Error ''out_of_range''))"

definition aw_onStart :: "(Bucket \<Rightarrow> Hash) \<Rightarrow> (Hash \<Rightarrow> scp_error + Bucket) \<Rightarrow> ArchiveLevel list \<Rightarrow> ApplyBuckets \<Rightarrow> scp_error + ApplyBuckets" where
  "aw_onStart H get mApplyState w =
     bindE (at_level (aw_buckets w) (aw_level w)) (\<lambda>level.
     bindE (at_level mApplyState (aw_level w)) (\<lambda>i.
     bindE (if mApplying w \<or> al_snap i \<noteq> H (mSnap level)
            then bindE (get (al_snap i)) (\<lambda>b.
                   Inr (w\<lparr>mSnapBucket := Some b, mSnapApplicator := Some (BucketApplicator_on b), mApplying := True\<rparr>))
            else Inr w) (\<lambda>w1.
       if mApplying w1 \<or> al_curr i \<noteq> H (mCurr level)
       then bindE (get (al_curr i)) (\<lambda>b.
              Inr (w1\<lparr>mCurrBucket := Some b, mCurrApplicator := Some (BucketApplicator_on b), mApplying := True\<rparr>))
       else Inr w1)))"

definition applicator_good :: "BucketApplicator option \<Rightarrow> bool" where
  "applicator_good a = (case a of None \<Rightarrow> False | Some ap \<Rightarrow> mIn_good ap)"

definition aw_onRun :: "(int32 \<Rightarrow> int32 \<Rightarrow> rat) \<Rightarrow> ApplyBuckets \<Rightarrow> scp_error + ApplyBuckets" where
  "aw_onRun fdiv w =
     (if applicator_good (mSnapApplicator w)
      then bindE (advance fdiv (the (mSnapApplicator w)) (aw_db w)) (\<lambda>(ap, db). Inr (w\<lparr>mSnapApplicator := Some ap, aw_db := db\<rparr>))
      else if applicator_good (mCurrApplicator w)
      then bindE (advance fdiv (the (mCurrApplicator w)) (aw_db w)) (\<lambda>(ap, db). Inr (w\<lparr>mCurrApplicator := Some ap, aw_db := db\<rparr>))
      else Inr w)"

definition aw_onSuccess ::
  "(Bucket \<Rightarrow> Hash) \<Rightarrow> (Hash \<Rightarrow> Bucket option) \<Rightarrow> ArchiveLevel list \<Rightarrow> ApplyBuckets \<Rightarrow> scp_error + (WorkState \<times> ApplyBuckets)"
where
  "aw_onSuccess H getBucketByHash mApplyState w =
     (if applicator_good (mSnapApplicator w) \<or> applicator_good (mCurrApplicator w) then Inr (WORK_RUNNING, w)
      else bindE (at_level (aw_buckets w) (aw_level w)) (\<lambda>level.
        let level1 = (case mSnapBucket w of Some b \<Rightarrow> setSnap b level | None \<Rightarrow> level);
            level2 = (case mCurrBucket w of Some b \<Rightarrow> setCurr b level1 | None \<Rightarrow> level1)
        in bindE (at_level mApplyState (aw_level w)) (\<lambda>i.
             let level3 = setNext (al_next i) level2;
                 w1 = w\<lparr>mSnapBucket := None, mCurrBucket := None, mSnapApplicator := None, mCurrApplicator := None,
                        aw_buckets := (aw_buckets w)[aw_level w := level3]\<rparr>
             in if aw_level w \<noteq> 0 then Inr (WORK_PENDING, w1\<lparr>aw_level := aw_level w - 1\<rparr>)
                else bindE (restartMerges H getBucketByHash (aw_buckets w1)) (\<lambda>ls. Inr (WORK_SUCCESS, w1\<lparr>aw_buckets := ls\<rparr>)))))"

text \<open>
  One round of the scheduler: \<^verbatim>\<open>Work::run\<close>, which starts a pending work, and \<^verbatim>\<open>Work::complete\<close> with the success
  that \<^verbatim>\<open>onRun\<close> schedules. A pending or running work is scheduled again.
\<close>

definition work_run ::
  "(int32 \<Rightarrow> int32 \<Rightarrow> rat) \<Rightarrow> (Bucket \<Rightarrow> Hash) \<Rightarrow> (Hash \<Rightarrow> scp_error + Bucket) \<Rightarrow> ArchiveLevel list \<Rightarrow> ApplyBuckets \<Rightarrow> scp_error + ApplyBuckets"
where
  "work_run fdiv H get mApplyState w =
     bindE (if aw_state w = WORK_PENDING then aw_onStart H get mApplyState w else Inr w) (\<lambda>w1.
       aw_onRun fdiv (w1\<lparr>aw_state := WORK_RUNNING\<rparr>))"

definition work_complete ::
  "(Bucket \<Rightarrow> Hash) \<Rightarrow> (Hash \<Rightarrow> Bucket option) \<Rightarrow> ArchiveLevel list \<Rightarrow> ApplyBuckets \<Rightarrow> scp_error + ApplyBuckets"
where
  "work_complete H getBucketByHash mApplyState w =
     bindE (aw_onSuccess H getBucketByHash mApplyState w) (\<lambda>(st, w1). Inr (w1\<lparr>aw_state := st\<rparr>))"

definition work_round ::
  "(int32 \<Rightarrow> int32 \<Rightarrow> rat) \<Rightarrow> (Bucket \<Rightarrow> Hash) \<Rightarrow> (Hash \<Rightarrow> Bucket option) \<Rightarrow> (Hash \<Rightarrow> Bucket option) \<Rightarrow> ArchiveLevel list \<Rightarrow>
    ApplyBuckets \<Rightarrow> scp_error + ApplyBuckets"
where
  "work_round fdiv H mBuckets getBucketByHash mApplyState w =
     bindE (work_run fdiv H (aw_getBucket mBuckets getBucketByHash) mApplyState w)
       (work_complete H getBucketByHash mApplyState)"

definition applicator_work :: "BucketApplicator option \<Rightarrow> nat" where
  "applicator_work a = (case a of None \<Rightarrow> 0 | Some ap \<Rightarrow> applicator_left ap)"

definition level_key :: "ApplyBuckets \<Rightarrow> nat \<times> nat \<times> nat" where
  "level_key w =
     (aw_level w, if aw_state w = WORK_PENDING then 1 else 0,
      applicator_work (mSnapApplicator w) + applicator_work (mCurrApplicator w))"

definition scheduled :: "ApplyBuckets \<Rightarrow> bool" where
  "scheduled w \<longleftrightarrow> aw_state w = WORK_PENDING \<or> aw_state w = WORK_RUNNING"

lemma bindE_keeps: "bindE m f = Inr y \<Longrightarrow> (\<And>x. m = Inr x \<Longrightarrow> f x = Inr y \<Longrightarrow> P) \<Longrightarrow> P"
  by (cases m) simp_all

lemma aw_onStart_level: "aw_onStart H get st w = Inr w1 \<Longrightarrow> aw_level w1 = aw_level w"
  unfolding aw_onStart_def
  by (elim bindE_keeps) (auto split: if_splits elim!: bindE_keeps)

lemma aw_onRun_left:
  assumes "aw_onRun fdiv w = Inr w1" "aw_state w \<noteq> WORK_PENDING"
  shows "aw_level w1 = aw_level w" "aw_state w1 = aw_state w"
    "applicator_good (mSnapApplicator w1) \<or> applicator_good (mCurrApplicator w1) \<Longrightarrow> (level_key w1, level_key w) \<in> less_than <*lex*> less_than <*lex*> less_than"
proof -
  consider (snap) ap ap1 db where "mSnapApplicator w = Some ap" "mIn_good ap" "advance fdiv ap (aw_db w) = Inr (ap1, db)"
      "w1 = w\<lparr>mSnapApplicator := Some ap1, aw_db := db\<rparr>"
    | (newer) ap ap1 db where "mCurrApplicator w = Some ap" "mIn_good ap" "advance fdiv ap (aw_db w) = Inr (ap1, db)"
      "w1 = w\<lparr>mCurrApplicator := Some ap1, aw_db := db\<rparr>"
    | (none) "w1 = w" "\<not> applicator_good (mSnapApplicator w)" "\<not> applicator_good (mCurrApplicator w)"
    using assms(1) unfolding aw_onRun_def applicator_good_def by (fastforce simp: bindE_Inr_iff split: if_splits option.splits)
  note parts = this
  show "aw_level w1 = aw_level w" "aw_state w1 = aw_state w" by (cases rule: parts; simp)+
  show "(level_key w1, level_key w) \<in> less_than <*lex*> less_than <*lex*> less_than"
    if good: "applicator_good (mSnapApplicator w1) \<or> applicator_good (mCurrApplicator w1)"
  proof (cases rule: parts)
    case snap
    then show ?thesis using advance_shorter [OF snap(3,2)] assms(2) by (simp add: level_key_def applicator_work_def)
  next
    case newer
    then show ?thesis using advance_shorter [OF newer(3,2)] assms(2) by (simp add: level_key_def applicator_work_def)
  next
    case none
    with good show ?thesis by simp
  qed
qed

lemma aw_onSuccess_level:
  assumes "aw_onSuccess H store st w = Inr (s, w1)" "s \<noteq> WORK_SUCCESS"
  shows "s = WORK_RUNNING \<and> w1 = w \<and> (applicator_good (mSnapApplicator w) \<or> applicator_good (mCurrApplicator w)) \<or> s = WORK_PENDING \<and> aw_level w1 < aw_level w"
  using assms unfolding aw_onSuccess_def Let_def by (auto split: if_splits elim!: bindE_keeps)

lemma work_round_less:
  assumes "work_round fdiv H mBuckets store st w = Inr w1" "scheduled w1"
  shows "(level_key w1, level_key w) \<in> less_than <*lex*> less_than <*lex*> less_than"
proof -
  from assms(1) obtain w0 w2 s w3 where
    w0: "if aw_state w = WORK_PENDING then aw_onStart H (aw_getBucket mBuckets store) st w = Inr w0 else w0 = w" and
    w2: "aw_onRun fdiv (w0\<lparr>aw_state := WORK_RUNNING\<rparr>) = Inr w2" and
    w3: "aw_onSuccess H store st w2 = Inr (s, w3)" "w1 = w3\<lparr>aw_state := s\<rparr>"
    unfolding work_round_def work_run_def work_complete_def by (force split: if_splits elim!: bindE_keeps)
  have lev: "aw_level w0 = aw_level w" using w0 aw_onStart_level by (auto split: if_splits)
  note run = aw_onRun_left [OF w2]
  have "s \<noteq> WORK_SUCCESS" using assms(2) w3(2) by (auto simp: scheduled_def)
  from aw_onSuccess_level [OF w3(1) this] show ?thesis
  proof
    assume a: "s = WORK_RUNNING \<and> w3 = w2 \<and> (applicator_good (mSnapApplicator w2) \<or> applicator_good (mCurrApplicator w2))"
    then have "w1 = w2" using w3(2) run(2) by simp
    moreover have "(level_key w2, level_key (w0\<lparr>aw_state := WORK_RUNNING\<rparr>)) \<in> less_than <*lex*> less_than <*lex*> less_than"
      using a run(3) by simp
    ultimately show ?thesis using w0 lev a run(2) by (auto simp: level_key_def split: if_splits)
  next
    assume "s = WORK_PENDING \<and> aw_level w3 < aw_level w2"
    then show ?thesis using w3(2) lev run(1) by (simp add: level_key_def)
  qed
qed

text \<open>The event loop.\<close>

function (sequential) work_loop ::
  "(int32 \<Rightarrow> int32 \<Rightarrow> rat) \<Rightarrow> (Bucket \<Rightarrow> Hash) \<Rightarrow> (Hash \<Rightarrow> Bucket option) \<Rightarrow> (Hash \<Rightarrow> Bucket option) \<Rightarrow> ArchiveLevel list \<Rightarrow>
    ApplyBuckets \<Rightarrow> scp_error + ApplyBuckets"
where
  "work_loop fdiv H mBuckets getBucketByHash mApplyState w =
     bindE (work_round fdiv H mBuckets getBucketByHash mApplyState w) (\<lambda>w1.
       if scheduled w1 then work_loop fdiv H mBuckets getBucketByHash mApplyState w1 else Inr w1)"
  by pat_completeness auto
termination
  by (relation "inv_image (less_than <*lex*> less_than <*lex*> less_than) (\<lambda>(_, _, _, _, _, w). level_key w)")
     (use work_round_less in \<open>auto intro!: wf_inv_image\<close>)

declare work_loop.simps [simp del]

end
