(* ===== verification/Catchup.thy ===== *)
theory Catchup
  imports ApplyBucketsWork
begin

text \<open>
  Applying an archived bucket list brings the database and the node's bucket list to the archived state.
\<close>

section \<open>Working through one level\<close>

definition rest_opt :: "BucketApplicator option \<Rightarrow> BucketEntry list" where
  "rest_opt a = (case a of None \<Rightarrow> [] | Some ap \<Rightarrow> rest_of ap)"

definition quiet :: "ApplyBuckets \<Rightarrow> Database \<Rightarrow> ApplyBuckets" where
  "quiet w db = w\<lparr>mSnapApplicator := None, mCurrApplicator := None, aw_db := db\<rparr>"

abbreviation proceed where
  "proceed fdiv H mBuckets store st r \<equiv>
     bindE r (\<lambda>w1. if scheduled w1 then work_loop fdiv H mBuckets store st w1 else Inr w1)"

lemma not_good_rest: "\<not> applicator_good a \<Longrightarrow> rest_opt a = []"
  by (simp add: applicator_good_def rest_opt_def rest_of_def split: option.splits)

lemma complete_quiet:
  assumes "\<not> applicator_good (mSnapApplicator w)" "\<not> applicator_good (mCurrApplicator w)"
  shows "work_complete H store st w = work_complete H store st (quiet w (aw_db w))"
  using assms by (cases w) (simp add: work_complete_def aw_onSuccess_def quiet_def applicator_good_def Let_def cong: if_cong)

lemma complete_running:
  assumes "applicator_good (mSnapApplicator w) \<or> applicator_good (mCurrApplicator w)" "aw_state w = WORK_RUNNING"
  shows "work_complete H store st w = Inr w"
  using assms by (cases w) (simp add: work_complete_def aw_onSuccess_def)

lemma loop_running:
  assumes "aw_state w = WORK_RUNNING"
  shows "work_loop fdiv H mBuckets store st w = proceed fdiv H mBuckets store st (bindE (aw_onRun fdiv w) (work_complete H store st))"
proof -
  have same: "w\<lparr>aw_state := WORK_RUNNING\<rparr> = w" using assms by (cases w) simp
  show ?thesis by (subst work_loop.simps) (simp add: work_round_def work_run_def assms same)
qed

lemma run_entries:
  assumes "aw_state w = WORK_RUNNING"
  shows "proceed fdiv H mBuckets store st (bindE (aw_onRun fdiv w) (work_complete H store st)) =
    bindE (foldE (applyEntry fdiv) (rest_opt (mSnapApplicator w) @ rest_opt (mCurrApplicator w)) (aw_db w)) (\<lambda>db.
      proceed fdiv H mBuckets store st (work_complete H store st (quiet w db)))"
  using assms
proof (induction "applicator_work (mSnapApplicator w) + applicator_work (mCurrApplicator w)" arbitrary: w rule: less_induct)
  case less
  have step: "proceed fdiv H mBuckets store st (work_complete H store st w1) =
      bindE (foldE (applyEntry fdiv) (rest_opt (mSnapApplicator w1) @ rest_opt (mCurrApplicator w1)) (aw_db w1)) (\<lambda>db.
        proceed fdiv H mBuckets store st (work_complete H store st (quiet w1 db)))"
    if "aw_state w1 = WORK_RUNNING"
      "applicator_work (mSnapApplicator w1) + applicator_work (mCurrApplicator w1) < applicator_work (mSnapApplicator w) + applicator_work (mCurrApplicator w)"
    for w1
  proof (cases "applicator_good (mSnapApplicator w1) \<or> applicator_good (mCurrApplicator w1)")
    case True
    have "proceed fdiv H mBuckets store st (work_complete H store st w1) = work_loop fdiv H mBuckets store st w1"
      using complete_running [OF True that(1)] that(1) by (simp add: scheduled_def)
    with less.hyps [OF that(2,1)] show ?thesis by (simp add: loop_running [OF that(1)])
  next
    case False
    then show ?thesis using complete_quiet [of w1 H store st] by (simp add: not_good_rest)
  qed
  show ?case
  proof (cases "applicator_good (mSnapApplicator w)")
    case True
    then obtain ap where ap: "mSnapApplicator w = Some ap" "mIn_good ap"
      by (auto simp: applicator_good_def split: option.splits)
    show ?thesis
    proof (cases "advance fdiv ap (aw_db w)")
      case (Inl e)
      then have "foldE (applyEntry fdiv) (rest_of ap) (aw_db w) = Inl e" using advance_rest [of fdiv ap "aw_db w"] by simp
      with Inl True ap show ?thesis by (simp add: aw_onRun_def rest_opt_def foldE_append)
    next
      case (Inr p)
      then obtain ap1 db1 where adv: "advance fdiv ap (aw_db w) = Inr (ap1, db1)" by (cases p) auto
      let ?w = "w\<lparr>mSnapApplicator := Some ap1, aw_db := db1\<rparr>"
      have "aw_onRun fdiv w = Inr ?w" using True ap adv by (simp add: aw_onRun_def)
      moreover have "foldE (applyEntry fdiv) (rest_of ap1) db1 = foldE (applyEntry fdiv) (rest_of ap) (aw_db w)"
        using advance_rest [of fdiv ap "aw_db w"] adv by simp
      moreover have "quiet ?w db = quiet w db" for db by (simp add: quiet_def)
      ultimately show ?thesis
        using step [of ?w] advance_shorter [OF adv ap(2)] less.prems ap(1)
        by (simp add: applicator_work_def rest_opt_def foldE_append)
    qed
  next
    case snap: False
    show ?thesis
    proof (cases "applicator_good (mCurrApplicator w)")
      case True
      then obtain ap where ap: "mCurrApplicator w = Some ap" "mIn_good ap"
        by (auto simp: applicator_good_def split: option.splits)
      show ?thesis
      proof (cases "advance fdiv ap (aw_db w)")
        case (Inl e)
        then have "foldE (applyEntry fdiv) (rest_of ap) (aw_db w) = Inl e" using advance_rest [of fdiv ap "aw_db w"] by simp
        with Inl True ap snap show ?thesis by (simp add: aw_onRun_def not_good_rest) (simp add: rest_opt_def)
      next
        case (Inr p)
        then obtain ap1 db1 where adv: "advance fdiv ap (aw_db w) = Inr (ap1, db1)" by (cases p) auto
        let ?w = "w\<lparr>mCurrApplicator := Some ap1, aw_db := db1\<rparr>"
        have "aw_onRun fdiv w = Inr ?w" using True ap adv snap by (simp add: aw_onRun_def)
        moreover have "foldE (applyEntry fdiv) (rest_of ap1) db1 = foldE (applyEntry fdiv) (rest_of ap) (aw_db w)"
          using advance_rest [of fdiv ap "aw_db w"] adv by simp
        moreover have "quiet ?w db = quiet w db" for db by (simp add: quiet_def)
        ultimately show ?thesis
          using step [of ?w] advance_shorter [OF adv ap(2)] less.prems ap(1) not_good_rest [OF snap]
          by (simp add: applicator_work_def) (simp add: rest_opt_def)
      qed
    next
      case False
      with snap show ?thesis using complete_quiet [of w H store st]
        by (simp add: aw_onRun_def not_good_rest)
    qed
  qed
qed

section \<open>All levels\<close>

text \<open>The buckets to apply, oldest first: everything from the first bucket that differs.\<close>

fun to_apply :: "bool \<Rightarrow> Bucket list \<Rightarrow> Bucket list \<Rightarrow> Bucket list" where
  "to_apply applying (a # as) (b # bs) =
     (if applying \<or> a \<noteq> b then b # to_apply True as bs else to_apply False as bs)"
| "to_apply applying _ _ = []"

definition assumed :: "ArchiveLevel \<Rightarrow> BucketLevel \<Rightarrow> BucketLevel \<Rightarrow> BucketLevel" where
  "assumed hs t l = l\<lparr>mNextCurr := al_next hs, mCurr := mCurr t, mSnap := mSnap t\<rparr>"

definition names :: "(Bucket \<Rightarrow> Hash) \<Rightarrow> (Hash \<Rightarrow> scp_error + Bucket) \<Rightarrow> ArchiveLevel \<Rightarrow> BucketLevel \<Rightarrow> bool" where
  "names H get hs t \<longleftrightarrow> al_curr hs = H (mCurr t) \<and> al_snap hs = H (mSnap t) \<and> get (H (mCurr t)) = Inr (mCurr t) \<and> get (H (mSnap t)) = Inr (mSnap t)"

definition told_apart :: "(Bucket \<Rightarrow> Hash) \<Rightarrow> BucketLevel \<Rightarrow> BucketLevel \<Rightarrow> bool" where
  "told_apart H l t \<longleftrightarrow> (H (mSnap l) = H (mSnap t) \<longrightarrow> mSnap l = mSnap t) \<and> (H (mCurr l) = H (mCurr t) \<longrightarrow> mCurr l = mCurr t)"

text \<open>Starting a level fetches what is to be applied of it.\<close>

definition started :: "BucketLevel \<Rightarrow> BucketLevel \<Rightarrow> ApplyBuckets \<Rightarrow> ApplyBuckets" where
  "started l t w =
     (let s = mApplying w \<or> mSnap l \<noteq> mSnap t; c = s \<or> mCurr l \<noteq> mCurr t
      in w\<lparr>mApplying := c,
           mSnapBucket := (if s then Some (mSnap t) else None), mSnapApplicator := (if s then Some (BucketApplicator_on (mSnap t)) else None),
           mCurrBucket := (if c then Some (mCurr t) else None), mCurrApplicator := (if c then Some (BucketApplicator_on (mCurr t)) else None)\<rparr>)"

definition idle :: "ApplyBuckets \<Rightarrow> bool" where
  "idle w \<longleftrightarrow> mSnapBucket w = None \<and> mCurrBucket w = None \<and> mSnapApplicator w = None \<and> mCurrApplicator w = None"

lemma aw_onStart_started:
  assumes "idle w" "aw_level w < length (aw_buckets w)" "aw_level w < length st"
    "names H get (st ! aw_level w) t" "told_apart H (aw_buckets w ! aw_level w) t"
  shows "aw_onStart H get st w = Inr (started (aw_buckets w ! aw_level w) t w)"
  using assms
  by (cases w) (auto simp: aw_onStart_def at_level_def names_def told_apart_def started_def idle_def Let_def)

lemma assumed_cases:
  "mSnap l = mSnap t \<Longrightarrow> mCurr l = mCurr t \<Longrightarrow> setNext (al_next hs) l = assumed hs t l"
  "mSnap l = mSnap t \<Longrightarrow> setNext (al_next hs) (setCurr (mCurr t) l) = assumed hs t l"
  "setNext (al_next hs) (setCurr (mCurr t) (setSnap (mSnap t) l)) = assumed hs t l"
  by (cases l; simp add: assumed_def setNext_def setSnap_def setCurr_def)+

lemma aw_onSuccess_started:
  fixes t :: BucketLevel and db :: Database
  assumes "idle w" "aw_level w < length (aw_buckets w)" "aw_level w < length st"
  defines "l \<equiv> aw_buckets w ! aw_level w"
  defines "w1 \<equiv> w\<lparr>mApplying := mApplying (started l t w), aw_db := db, aw_state := WORK_RUNNING,
    aw_buckets := (aw_buckets w)[aw_level w := assumed (st ! aw_level w) t l]\<rparr>"
  shows "work_complete H store st (quiet ((started l t w)\<lparr>aw_state := WORK_RUNNING\<rparr>) db) =
    (if aw_level w \<noteq> 0 then Inr (w1\<lparr>aw_state := WORK_PENDING, aw_level := aw_level w - 1\<rparr>)
     else bindE (restartMerges H store (aw_buckets w1)) (\<lambda>ls. Inr (w1\<lparr>aw_state := WORK_SUCCESS, aw_buckets := ls\<rparr>)))"
proof -
  note defs = work_complete_def aw_onSuccess_def at_level_def applicator_good_def quiet_def Let_def bindE_assoc started_def idle_def
  consider "mApplying w \<or> mSnap l \<noteq> mSnap t" | "\<not> mApplying w" "mSnap l = mSnap t" "mCurr l \<noteq> mCurr t"
    | "\<not> mApplying w" "mSnap l = mSnap t" "mCurr l = mCurr t" by blast
  then show ?thesis
  proof cases
    case 1
    with assms(1-3) show ?thesis unfolding w1_def l_def by (cases w) (simp add: defs assumed_cases(3) [where t = t] cong: if_cong)
  next
    case 2
    with assms(1-3) show ?thesis unfolding w1_def l_def by (cases w) (simp add: defs assumed_cases(2) [where t = t] cong: if_cong)
  next
    case 3
    with assms(1-3) show ?thesis unfolding w1_def l_def by (cases w) (simp add: defs assumed_cases(1) [where t = t] cong: if_cong)
  qed
qed

lemma loop_level:
  assumes "aw_state w = WORK_PENDING" "idle w" "aw_level w < length (aw_buckets w)" "aw_level w < length st"
    "names H (aw_getBucket mBuckets store) (st ! aw_level w) t" "told_apart H (aw_buckets w ! aw_level w) t"
  shows "work_loop fdiv H mBuckets store st w =
    bindE (foldE (applyEntry fdiv) (rest_opt (mSnapApplicator (started (aw_buckets w ! aw_level w) t w)) @
      rest_opt (mCurrApplicator (started (aw_buckets w ! aw_level w) t w))) (aw_db w)) (\<lambda>db.
      proceed fdiv H mBuckets store st
        (work_complete H store st (quiet ((started (aw_buckets w ! aw_level w) t w)\<lparr>aw_state := WORK_RUNNING\<rparr>) db)))"
proof -
  let ?s = "started (aw_buckets w ! aw_level w) t w"
  have "work_loop fdiv H mBuckets store st w =
      proceed fdiv H mBuckets store st (bindE (aw_onRun fdiv (?s\<lparr>aw_state := WORK_RUNNING\<rparr>)) (work_complete H store st))"
    by (subst work_loop.simps) (simp add: work_round_def work_run_def assms(1) aw_onStart_started [OF assms(2-6)])
  also have "\<dots> = bindE (foldE (applyEntry fdiv) (rest_opt (mSnapApplicator ?s) @ rest_opt (mCurrApplicator ?s)) (aw_db ?s)) (\<lambda>db.
      proceed fdiv H mBuckets store st (work_complete H store st (quiet (?s\<lparr>aw_state := WORK_RUNNING\<rparr>) db)))"
    by (subst run_entries) simp_all
  also have "aw_db ?s = aw_db w" by (simp add: started_def Let_def)
  finally show ?thesis .
qed

lemma started_rest:
  "to_apply (mApplying w) (mSnap l # mCurr l # as) (mSnap t # mCurr t # bs) =
     (if mApplying w \<or> mSnap l \<noteq> mSnap t then [mSnap t, mCurr t] else if mCurr l \<noteq> mCurr t then [mCurr t] else []) @
     to_apply (mApplying (started l t w)) as bs"
  "rest_opt (mSnapApplicator (started l t w)) @ rest_opt (mCurrApplicator (started l t w)) =
     concat (if mApplying w \<or> mSnap l \<noteq> mSnap t then [mSnap t, mCurr t] else if mCurr l \<noteq> mCurr t then [mCurr t] else [])"
  by (simp_all add: started_def Let_def rest_opt_def rest_of_def BucketApplicator_on_def)

definition oldest_first :: "BucketList \<Rightarrow> Bucket list" where
  "oldest_first ls = rev (buckets_of ls)"

lemma oldest_first_take:
  "n < length ls \<Longrightarrow> oldest_first (take (Suc n) ls) = mSnap (ls ! n) # mCurr (ls ! n) # oldest_first (take n ls)"
  by (simp add: oldest_first_def take_Suc_conv_app_nth buckets_of_def)

definition assumed_upto :: "nat \<Rightarrow> ArchiveLevel list \<Rightarrow> BucketList \<Rightarrow> BucketList \<Rightarrow> BucketList" where
  "assumed_upto n st ts ls = map (\<lambda>i. if i \<le> n then assumed (st ! i) (ts ! i) (ls ! i) else ls ! i) [0..<length ls]"

lemma assumed_upto_step:
  "n < length ls \<Longrightarrow> 0 < n \<Longrightarrow> assumed_upto (n - 1) st ts (ls[n := assumed (st ! n) (ts ! n) (ls ! n)]) = assumed_upto n st ts ls"
  "0 < length ls \<Longrightarrow> ls[0 := assumed (st ! 0) (ts ! 0) (ls ! 0)] = assumed_upto 0 st ts ls"
proof -
  show "0 < length ls \<Longrightarrow> ls[0 := assumed (st ! 0) (ts ! 0) (ls ! 0)] = assumed_upto 0 st ts ls"
    by (rule nth_equalityI) (auto simp: assumed_upto_def nth_list_update)
  show "assumed_upto (n - 1) st ts (ls[n := assumed (st ! n) (ts ! n) (ls ! n)]) = assumed_upto n st ts ls" if "n < length ls" "0 < n"
  proof (rule nth_equalityI)
    fix i
    assume i: "i < length (assumed_upto (n - 1) st ts (ls[n := assumed (st ! n) (ts ! n) (ls ! n)]))"
    consider "i < n" | "i = n" | "n < i" by linarith
    then show "assumed_upto (n - 1) st ts (ls[n := assumed (st ! n) (ts ! n) (ls ! n)]) ! i = assumed_upto n st ts ls ! i"
      using that i by cases (simp_all add: assumed_upto_def)
  qed (simp add: assumed_upto_def)
qed

definition level_done :: "ArchiveLevel list \<Rightarrow> BucketList \<Rightarrow> Database \<Rightarrow> ApplyBuckets \<Rightarrow> ApplyBuckets" where
  "level_done st ts db w = w\<lparr>mApplying := mApplying (started (aw_buckets w ! aw_level w) (ts ! aw_level w) w), aw_db := db, aw_state := WORK_RUNNING,
     aw_buckets := (aw_buckets w)[aw_level w := assumed (st ! aw_level w) (ts ! aw_level w) (aw_buckets w ! aw_level w)]\<rparr>"

definition remaining :: "BucketList \<Rightarrow> ApplyBuckets \<Rightarrow> Bucket list" where
  "remaining ts w = to_apply (mApplying w) (oldest_first (take (Suc (aw_level w)) (aw_buckets w))) (oldest_first (take (Suc (aw_level w)) ts))"

text \<open>A work that is about to start a level, with what it needs to get through.\<close>

definition can_apply ::
  "(Bucket \<Rightarrow> Hash) \<Rightarrow> (Hash \<Rightarrow> scp_error + Bucket) \<Rightarrow> ArchiveLevel list \<Rightarrow> BucketList \<Rightarrow> ApplyBuckets \<Rightarrow> bool"
where
  "can_apply H get st ts w \<longleftrightarrow>
     aw_state w = WORK_PENDING \<and> idle w \<and> aw_level w < length (aw_buckets w) \<and>
     length st = length (aw_buckets w) \<and> length ts = length (aw_buckets w) \<and>
     (\<forall>i \<le> aw_level w. names H get (st ! i) (ts ! i) \<and> told_apart H (aw_buckets w ! i) (ts ! i)) \<and>
     database_ok (aw_db w) \<and> bucket_storable (db_view (aw_db w)) (concat (remaining ts w))"

lemma can_applyD:
  assumes "can_apply H get st ts w"
  shows "aw_state w = WORK_PENDING" "idle w" "aw_level w < length (aw_buckets w)" "aw_level w < length st"
    "length st = length (aw_buckets w)" "length ts = length (aw_buckets w)"
    "i \<le> aw_level w \<Longrightarrow> names H get (st ! i) (ts ! i)" "i \<le> aw_level w \<Longrightarrow> told_apart H (aw_buckets w ! i) (ts ! i)"
    "database_ok (aw_db w)" "bucket_storable (db_view (aw_db w)) (concat (remaining ts w))"
  using assms by (auto simp: can_apply_def)

lemma loop_one_level:
  assumes w: "can_apply H (aw_getBucket mBuckets store) st ts w"
  defines "ys \<equiv> to_apply (mApplying (started (aw_buckets w ! aw_level w) (ts ! aw_level w) w))
    (oldest_first (take (aw_level w) (aw_buckets w))) (oldest_first (take (aw_level w) ts))"
  shows "\<exists>db xs. work_loop fdiv H mBuckets store st w =
      proceed fdiv H mBuckets store st
        (if aw_level w \<noteq> 0 then Inr ((level_done st ts db w)\<lparr>aw_state := WORK_PENDING, aw_level := aw_level w - 1\<rparr>)
         else bindE (restartMerges H store (aw_buckets (level_done st ts db w))) (\<lambda>ls.
           Inr ((level_done st ts db w)\<lparr>aw_state := WORK_SUCCESS, aw_buckets := ls\<rparr>))) \<and>
    database_ok db \<and> concat (remaining ts w) = xs @ concat ys \<and> db_view db = fold applied_entry xs (db_view (aw_db w)) \<and>
    bucket_storable (db_view db) (concat ys)"
proof -
  let ?t = "ts ! aw_level w" and ?l = "aw_buckets w ! aw_level w"
  let ?s = "started ?l ?t w"
  let ?xs = "rest_opt (mSnapApplicator ?s) @ rest_opt (mCurrApplicator ?s)"
  note W = can_applyD [OF w]
  have A: "concat (remaining ts w) = ?xs @ concat ys"
    using W(3,6) started_rest(1) [of w ?l _ ?t] started_rest(2) [of ?l ?t w] by (simp add: remaining_def ys_def oldest_first_take)
  with W(9,10) obtain db where db: "foldE (applyEntry fdiv) ?xs (aw_db w) = Inr db" "database_ok db"
    "db_view db = fold applied_entry ?xs (db_view (aw_db w))" "bucket_storable (db_view db) (concat ys)"
    using applyEntry_fold [of "aw_db w" ?xs fdiv] by (auto simp: bucket_storable_append)
  have "work_loop fdiv H mBuckets store st w =
      proceed fdiv H mBuckets store st (work_complete H store st (quiet (?s\<lparr>aw_state := WORK_RUNNING\<rparr>) db))"
    using loop_level [OF W(1-4) W(7,8) [OF order_refl]] db(1) by simp
  then show ?thesis
    using A db(2-4) aw_onSuccess_started [OF W(2-4)] unfolding level_done_def by (intro exI [of _ db] exI [of _ ?xs]) simp
qed

lemma loop_levels:
  "can_apply H (aw_getBucket mBuckets store) st ts w \<Longrightarrow> restartMerges H store (assumed_upto (aw_level w) st ts (aw_buckets w)) = Inr ls \<Longrightarrow>
   \<exists>w1. work_loop fdiv H mBuckets store st w = Inr w1 \<and> aw_state w1 = WORK_SUCCESS \<and> aw_buckets w1 = ls \<and> database_ok (aw_db w1) \<and>
     db_view (aw_db w1) = fold applied_entry (concat (remaining ts w)) (db_view (aw_db w))"
proof (induction "aw_level w" arbitrary: w)
  case 0
  note W = can_applyD [OF 0(2)]
  obtain db xs where db: "work_loop fdiv H mBuckets store st w = proceed fdiv H mBuckets store st
      (bindE (restartMerges H store (aw_buckets (level_done st ts db w))) (\<lambda>ls. Inr ((level_done st ts db w)\<lparr>aw_state := WORK_SUCCESS, aw_buckets := ls\<rparr>)))"
    "database_ok db" "concat (remaining ts w) = xs" "db_view db = fold applied_entry xs (db_view (aw_db w))"
    using loop_one_level [OF 0(2), of fdiv] 0(1) by (auto simp: oldest_first_def)
  have "aw_buckets (level_done st ts db w) = assumed_upto 0 st ts (aw_buckets w)"
    using W(3) 0(1) assumed_upto_step(2) [of "aw_buckets w" st ts] by (simp add: level_done_def)
  with db 0(1,3) show ?case by (simp add: scheduled_def level_done_def)
next
  case (Suc n)
  note W = can_applyD [OF Suc(3)]
  let ?l = "aw_buckets w ! aw_level w" and ?t = "ts ! aw_level w"
  define ys where "ys = to_apply (mApplying (started ?l ?t w)) (oldest_first (take (aw_level w) (aw_buckets w))) (oldest_first (take (aw_level w) ts))"
  obtain db xs where db: "work_loop fdiv H mBuckets store st w = proceed fdiv H mBuckets store st
      (Inr ((level_done st ts db w)\<lparr>aw_state := WORK_PENDING, aw_level := n\<rparr>))"
    "database_ok db" "concat (remaining ts w) = xs @ concat ys" "db_view db = fold applied_entry xs (db_view (aw_db w))"
    "bucket_storable (db_view db) (concat ys)"
    using loop_one_level [OF Suc(3), of fdiv] unfolding ys_def Suc(2) [symmetric] diff_Suc_1 if_P [OF nat.distinct(2)] by blast
  let ?w = "(level_done st ts db w)\<lparr>aw_state := WORK_PENDING, aw_level := n\<rparr>"
  have n: "aw_level w = Suc n" using Suc(2) by simp
  have rem: "remaining ts ?w = ys" "aw_db ?w = db" "scheduled ?w"
    using n by (simp_all add: remaining_def level_done_def scheduled_def ys_def)
  have "can_apply H (aw_getBucket mBuckets store) st ts ?w"
    using W n rem db(2,5) unfolding can_apply_def by (auto simp: level_done_def idle_def)
  moreover have "assumed_upto n st ts (aw_buckets ?w) = assumed_upto (Suc n) st ts (aw_buckets w)"
    using assumed_upto_step(1) [of "Suc n" "aw_buckets w" st ts] W(3) n by (simp add: level_done_def)
  ultimately show ?case
    using Suc(1) [of ?w] Suc(4) n rem db(1,3,4) by simp
qed

end
