(* ===== verification/Catchup_Properties.thy ===== *)
theory Catchup_Properties
  imports Catchup Database_Admin Bucket_Properties
begin

text \<open>
  What applying buckets guarantees: a bucket changes the map of entries as its entries say, and catching up
  brings database and bucket list to the archived state.
\<close>

section \<open>The newest entry of a list of buckets\<close>












section \<open>The archived merges\<close>



section \<open>Properties\<close>

lemma alice_storable: "bucket_storable (\<lambda>_. None) [LIVEENTRY alice]"
  by (simp add: alice_def account_isValid_def isString32Valid_def)

text \<open>
  C24. Applying a bucket to a database whose tables, cache and entries are sound, when every entry can be stored
  over the one it replaces, goes through whatever the batches, keeps the database sound, and changes the entries
  exactly as the bucket says: its live entries are there (account data without the ledger it was modified in),
  its dead ones are gone, everything else is as before.
\<close>

theorem bucket_apply_effect:
  assumes "database_ok db" "bucket_ok b" "bucket_storable (db_view db) b"
  shows "\<exists>db'. Bucket_apply fdiv b db = Inr db' \<and> database_ok db' \<and>
    db_view db' = (\<lambda>k. case entry_of b k of None \<Rightarrow> db_view db k | Some (LIVEENTRY e) \<Rightarrow> Some (unstamped e) | Some (DEADENTRY _) \<Rightarrow> None)"
proof -
  obtain db' where "Bucket_apply fdiv b db = Inr db'" "database_ok db'" "db_view db' = fold applied_entry b (db_view db)"
    using applyEntry_fold [OF assms(1,3), of fdiv] by (auto simp: Bucket_apply_fold)
  moreover have "fold applied_entry b (db_view db) k =
      (case entry_of b k of None \<Rightarrow> db_view db k | Some (LIVEENTRY e) \<Rightarrow> Some (unstamped e) | Some (DEADENTRY _) \<Rightarrow> None)" for k
    using fold_applied [OF assms(2)] by (simp split: option.split BucketEntry.split)
  ultimately show ?thesis by (intro exI [of _ db']) auto
qed

theorem bucket_apply_effect_witness:
  "\<exists>db db'. Bucket_apply (\<lambda>_ _. 0) [LIVEENTRY alice] empty_tables = Inr db \<and> db_view db (AccountKey [1]) = Some alice \<and>
    Bucket_apply (\<lambda>_ _. 0) [DEADENTRY (AccountKey [1])] db = Inr db' \<and> db_view db' (AccountKey [1]) = None"
proof -
  let ?in = "\<lambda>b m k. case entry_of b k of None \<Rightarrow> m k | Some (LIVEENTRY e) \<Rightarrow> Some (unstamped e) | Some (DEADENTRY _) \<Rightarrow> None"
  have ok: "bucket_ok [x]" "bucket_storable m [DEADENTRY (AccountKey [1])]" for x m by simp_all
  have "bucket_storable (db_view empty_tables) [LIVEENTRY alice]"
    unfolding empty_tables_ok(2) by (rule alice_storable)
  from bucket_apply_effect [OF empty_tables_ok(1) ok(1) this, of "\<lambda>_ _. 0"]
  obtain db where db: "Bucket_apply (\<lambda>_ _. 0) [LIVEENTRY alice] empty_tables = Inr db" "database_ok db"
    "db_view db = ?in [LIVEENTRY alice] (db_view empty_tables)" by blast
  from bucket_apply_effect [OF db(2) ok, of "\<lambda>_ _. 0"]
  obtain db' where db': "Bucket_apply (\<lambda>_ _. 0) [DEADENTRY (AccountKey [1])] db = Inr db'"
    "db_view db' = ?in [DEADENTRY (AccountKey [1])] (db_view db)" by blast
  have "db_view db (AccountKey [1]) = Some alice" unfolding db(3) by (simp add: alice_def unstamped_def LedgerEntryKey_def)
  moreover have "db_view db' (AccountKey [1]) = None" unfolding db'(2) by simp
  ultimately show ?thesis using db(1) db'(1) by blast
qed





end
