(* ===== verification/Ledger_Programs.thy ===== *)
theory Ledger_Programs
  imports Frame_Store
begin

text \<open>
  Reasoning about programs that load and store several entries: what an entry of the map says about the frame
  that was loaded from it, total-correctness rules for the loads and stores of the frames, and the amount of
  an asset an account holds.
\<close>

section \<open>Entries and frames\<close>

lemma account_entry_inj: "account_entry f = account_entry g \<longleftrightarrow> af_account f = af_account g \<and> af_lastModified f = af_lastModified g"
  by (auto simp: account_entry_def)

lemma account_held:
  assumes "ledger_ok m s" "entries s (AccountKey i) = Some (account_entry f)"
  shows "account_getID f = i" "account_isValid (af_account f)" "0 \<le> a_balance (af_account f)" "a_balance (af_account f) \<le> INT64_MAX"
    "a_signers (af_account f) = signer_rows i (tb_signers (st_db s))" "signers_sorted (a_signers (af_account f))"
    "a_numSubEntries (af_account f) = 0 \<Longrightarrow> a_signers (af_account f) = []"
proof -
  have t: "tables_ok (st_db s)" and ok: "map_ok (tb_signers (st_db s))"
    using assms(1) by (simp_all add: ledger_ok_def database_ok_def tables_ok_def)
  obtain r where r: "map_of (tb_accounts (st_db s)) i = Some r" "af_account f = account_of_row i r (signer_rows i (tb_signers (st_db s)))"
    using assms(2) by (auto simp: account_entry_def)
  from tables_okD(3) [OF t, of i] r(1) have row: "isString32Valid (ar_homedomain r)" "0 \<le> ar_balance r" "ar_balance r \<le> INT64_MAX"
    "ar_numsubentries r = 0 \<Longrightarrow> signer_rows i (tb_signers (st_db s)) = []" by (simp_all add: account_row_ok_def)
  show "account_getID f = i" "0 \<le> a_balance (af_account f)" "a_balance (af_account f) \<le> INT64_MAX"
    "a_numSubEntries (af_account f) = 0 \<Longrightarrow> a_signers (af_account f) = []"
    "a_signers (af_account f) = signer_rows i (tb_signers (st_db s))" "signers_sorted (a_signers (af_account f))"
    using row signer_rows_sorted [OF ok, of i] by (simp_all add: r(2) account_getID_def account_of_row_def)
  show "account_isValid (af_account f)"
    using row is_sorted_by_strict [OF signer_rows_sorted [OF ok, of i]] by (simp add: r(2) account_isValid_def account_of_row_def)
qed

lemma trust_held:
  assumes "ledger_ok m s" "entries s (TrustLineKey a x) = Some (trust_entry f)"
  shows "x \<noteq> AssetNative" "asset_ok x" "t_accountID (tf_line f) = a" "t_asset (tf_line f) = x" "trust_isValid (tf_line f)"
    "is_int64 (t_balance (tf_line f))" "t_limit (tf_line f) \<le> INT64_MAX"
proof -
  have t: "tables_ok (st_db s)" using assms(1) by (simp add: ledger_ok_def database_ok_def)
  obtain r where x: "x \<noteq> AssetNative" "asset_ok x" and r: "map_of (tb_trustlines (st_db s)) (getKeyFields a x) = Some r"
    "tf_line f = trust_of_row (getKeyFields a x) r"
    using assms(2) by (auto simp: trust_entry_def split: if_splits)
  from tables_okD(1) [OF t r(1)] have row: "trust_row_ok (getKeyFields a x) r" .
  with x show "x \<noteq> AssetNative" "asset_ok x" "trust_isValid (tf_line f)" by (simp_all add: r(2) trust_row_ok_def)
  show "t_asset (tf_line f) = x" using trust_row_asset [OF row x] r(2) by simp
  show "t_accountID (tf_line f) = a" by (simp add: r(2) trust_of_row_def getKeyFields_credit [OF x(1)])
  show "is_int64 (t_balance (tf_line f))" "t_limit (tf_line f) \<le> INT64_MAX"
    using row by (simp_all add: trust_row_ok_def r(2) trust_of_row_def getKeyFields_credit [OF x(1)])
qed

lemma offer_held:
  assumes "ledger_ok m s" "entries s (OfferKey a i) = Some (offer_entry f)"
  shows "o_sellerID (of_offer f) = a" "o_offerID (of_offer f) = i" "offer_ok (of_offer f)"
    "\<exists>r. map_of (tb_offers (st_db s)) i = Some r \<and> or_sellerid r = a \<and> offer_of_row (i, r) = Inr f"
proof -
  have t: "tables_ok (st_db s)" using assms(1) by (simp add: ledger_ok_def database_ok_def)
  obtain r where r: "map_of (tb_offers (st_db s)) i = Some r" "or_sellerid r = a"
    "case_sum (\<lambda>_. None) (Some \<circ> offer_entry) (offer_of_row (i, r)) = Some (offer_entry f)"
    using assms(2) by (auto split: option.splits if_splits)
  have row: "offer_row_ok r" by (rule tables_okD(2) [OF t r(1)])
  obtain g where g: "offer_of_row (i, r) = Inr g" "asset_ok (o_selling (of_offer g))" "asset_ok (o_buying (of_offer g))"
    "o_sellerID (of_offer g) = or_sellerid r" "o_offerID (of_offer g) = i" "o_amount (of_offer g) = or_amount r"
    by (rule offer_of_row_ok [OF row, of i]) blast
  from r(3) g(1) have "g = f" by (cases g, cases f) (simp add: offer_entry_def)
  with g r row show "o_sellerID (of_offer f) = a" "o_offerID (of_offer f) = i" "offer_ok (of_offer f)"
    "\<exists>r. map_of (tb_offers (st_db s)) i = Some r \<and> or_sellerid r = a \<and> offer_of_row (i, r) = Inr f"
    by (auto simp: offer_ok_def offer_row_ok_def)
qed

section \<open>Rules for loads and stores\<close>

lemma wpL_return [wp_simps]: "wpL (returnL x) Q = Q x"
  by (simp add: fun_eq_iff)

lemma wp_loadAccount:
  assumes "ledger_ok m s" "\<And>f s1. loaded m s s1 \<Longrightarrow> map_option account_entry f = entries s (AccountKey i) \<Longrightarrow> Q f s1"
  shows "wpL (loadAccount i) Q s"
  using loadAccount_loaded [OF assms(1), of i] assms(2) by (auto simp del: db_view.simps intro: wpLI)

lemma wp_loadTrustLine:
  assumes "ledger_ok m s" "x \<noteq> AssetNative" "asset_ok x"
    "\<And>f s1. loaded m s s1 \<Longrightarrow> map_option trust_entry f = entries s (TrustLineKey a x) \<Longrightarrow> \<forall>g. f = Some g \<longrightarrow> \<not> mIsIssuer g \<Longrightarrow> Q f s1"
  shows "wpL (loadTrustLine a x) Q s"
  using loadTrustLine_loaded [OF assms(1-3), of a] assms(4) by (auto simp del: db_view.simps intro: wpLI)

lemma wp_recordEntry:
  assumes "ledger_ok m s" "\<And>s1. loaded m s s1 \<Longrightarrow> Q () s1"
  shows "wpL (onDelta (recordEntry e)) Q s"
  using recordEntry_step [OF assms(1), of e] assms(2) by (auto simp: loaded_def intro: wpLI)

text \<open>Changes of an account that keep its signers, of a trust line and of an offer.\<close>

lemma types_kept_refl: "signers_sorted xs \<Longrightarrow> types_kept xs xs"
proof -
  assume "signers_sorted xs"
  then have "strict_sorted (map sg_pubKey xs)" by (simp add: sorted_wrt_map)
  then have "inj_on sg_pubKey (set xs)" using strict_sorted_distinct distinct_map by blast
  then show ?thesis by (auto simp: types_kept_def dest: inj_onD)
qed

lemma wp_account_change:
  assumes s: "ledger_ok m s" and g: "entries s (AccountKey (account_getID f)) = Some (account_entry g)"
    and f: "a_signers (af_account f) = a_signers (af_account g)" "a_homeDomain (af_account f) = a_homeDomain (af_account g)"
      "0 \<le> a_balance (af_account f)" "a_balance (af_account f) \<le> INT64_MAX"
      "a_numSubEntries (af_account f) = 0 \<Longrightarrow> a_signers (af_account f) = []"
    and Q: "\<And>s1. wrote m s s1 (AccountKey (account_getID f)) (Some (account_entry (stamped s f))) \<Longrightarrow>
      tb_offers (st_db s1) = tb_offers (st_db s) \<Longrightarrow> Q (stamped s f) s1"
  shows "wpL (account_storeChange f) Q s"
proof -
  note held = account_held [OF s g]
  have "account_isValid (af_account f)" using held(2) f by (simp add: account_isValid_def)
  moreover have "signers_ok (st_db s) f"
    using f(5) held(5,6) types_kept_refl [OF held(6)] by (auto simp: signers_ok_def Let_def f(1))
  ultimately show ?thesis
    using account_stored [OF s, of f False] f(4) g Q by (auto simp: account_storeChange_def simp del: db_view.simps intro: wpLI)
qed

lemma wp_trust_change:
  assumes s: "ledger_ok m s" and g: "entries s (trust_key f) = Some (trust_entry g)"
    and f: "trust_isValid (tf_line f)" "is_int64 (t_balance (tf_line f))" "t_limit (tf_line f) \<le> INT64_MAX" "\<not> mIsIssuer f"
    and Q: "\<And>s1. wrote m s s1 (trust_key f) (Some (trust_entry (trust_stamped s f))) \<Longrightarrow>
      tb_offers (st_db s1) = tb_offers (st_db s) \<Longrightarrow> Q (trust_stamped s f) s1"
  shows "wpL (trust_storeChange f) Q s"
  using trust_stored [OF s f(1) _ f(2-4), of False] trust_held(2) [OF s g [unfolded trust_key_def]] g Q
  by (auto simp: trust_storeChange_def simp del: db_view.simps intro: wpLI)

lemma wp_offer_change:
  assumes s: "ledger_ok m s" and g: "entries s (offer_key f) = Some (offer_entry g)" and f: "offer_ok (of_offer f)"
    and Q: "\<And>s1. wrote m s s1 (offer_key f) (Some (offer_entry (offer_stamped s f))) \<Longrightarrow>
      tb_offers (st_db s1) = map_put (o_offerID (of_offer f)) (row_of_offer fdiv (offer_stamped s f)) (tb_offers (st_db s)) \<Longrightarrow>
      Q (offer_stamped s f) s1"
  shows "wpL (offer_storeChange fdiv f) Q s"
proof -
  obtain r where r: "map_of (tb_offers (st_db s)) (o_offerID (of_offer f)) = Some r" "or_sellerid r = o_sellerID (of_offer f)"
    using offer_held(4) [OF s g [unfolded offer_key_def]] by blast
  from offer_stored [OF s f, of False fdiv] r Q show ?thesis
    by (auto simp: wpL_def offer_storeChange_def simp del: db_view.simps)
qed

lemma wp_offer_delete:
  assumes s: "ledger_ok m s" and g: "entries s (OfferKey a i) \<noteq> None"
    and Q: "\<And>s1. wrote m s s1 (OfferKey a i) None \<Longrightarrow> tb_offers (st_db s1) = map_erase i (tb_offers (st_db s)) \<Longrightarrow> Q () s1"
  shows "wpL (offer_storeDelete a i) Q s"
  using offer_deleted [OF s g] Q by (auto simp del: db_view.simps intro: wpLI)

text \<open>From here on an entry is what the map says, not how it is read from the tables.\<close>

declare db_view.simps [simp del]

section \<open>Holdings\<close>

text \<open>The amount of an asset an account holds: its balance, or that of its trust line, and nothing without one.\<close>

definition holding :: "ledger_map \<Rightarrow> AccountID \<Rightarrow> Asset \<Rightarrow> int64" where
  "holding m a x =
     (if x = AssetNative then case m (AccountKey a) of Some e \<Rightarrow> (case edata e of AccountData b \<Rightarrow> a_balance b | _ \<Rightarrow> 0) | None \<Rightarrow> 0
      else case m (TrustLineKey a x) of Some e \<Rightarrow> (case edata e of TrustLineData t \<Rightarrow> t_balance t | _ \<Rightarrow> 0) | None \<Rightarrow> 0)"

definition balance_key :: "AccountID \<Rightarrow> Asset \<Rightarrow> LedgerKey" where
  "balance_key a x = (if x = AssetNative then AccountKey a else TrustLineKey a x)"

lemma holding_cong: "m1 (balance_key a x) = m (balance_key a x) \<Longrightarrow> holding m1 a x = holding m a x"
  by (auto simp: holding_def balance_key_def)

lemma balance_key_inj: "balance_key a x = balance_key b y \<longleftrightarrow> a = b \<and> x = y"
  by (auto simp: balance_key_def)

lemma holding_account: "m (AccountKey a) = Some (account_entry f) \<Longrightarrow> holding m a AssetNative = a_balance (af_account f)"
  by (simp add: holding_def account_entry_def)

lemma holding_trust: "m (TrustLineKey a x) = Some (trust_entry f) \<Longrightarrow> x \<noteq> AssetNative \<Longrightarrow> holding m a x = t_balance (tf_line f)"
  by (simp add: holding_def trust_entry_def)

end
