(* ===== verification/OfferExchange.thy ===== *)
theory OfferExchange
  imports Ledger_Programs
begin

text \<open>
  \<^verbatim>\<open>src/transactions/OfferExchange.cpp\<close>: buying one asset (wheat) with another (sheep) from the offers of the
  order book. The header of the current ledger, from which the ledger manager takes the base reserve, is the
  argument \<open>lm\<close>. The output parameters of the C++ functions are results; the trail of claimed offers is what a
  call appends to it.
\<close>

record ClaimOfferAtom =
  ca_sellerID :: AccountID
  ca_offerID :: uint64
  ca_assetSold :: Asset
  ca_amountSold :: int64
  ca_assetBought :: Asset
  ca_amountBought :: int64

datatype CrossOfferResult = eOfferPartial | eOfferTaken | eOfferCantConvert

datatype OfferFilterResult = eKeep | eStop | eSkip

datatype ConvertResult = eOK | ePartial | eFilterStop

section \<open>Crossing one offer\<close>

text \<open>What the seller can take in, as an amount of wheat.\<close>

definition sellerMaxWheat :: "Price \<Rightarrow> TrustFrame option \<Rightarrow> scp_error + int64" where
  "sellerMaxWheat price sheepLine =
     bindE (case sheepLine of None \<Rightarrow> Inr 0 | Some l \<Rightarrow> getMaxAmountReceive l) (\<lambda>sellerMaxSheep.
     bindE (bigDivide sellerMaxSheep (price_d price) (price_n price)) (\<lambda>r.
       Inr (case r of Some x \<Rightarrow> x | None \<Rightarrow> INT64_MAX)))"

definition wheatCanSell :: "LedgerHeader \<Rightarrow> Asset \<Rightarrow> AccountFrame \<Rightarrow> TrustFrame option \<Rightarrow> scp_error + int64" where
  "wheatCanSell lm wheat accountB wheatLine =
     (if wheat = AssetNative then getBalanceAboveReserve lm accountB
      else case wheatLine of
             None \<Rightarrow> Inr 0
           | Some l \<Rightarrow> if isAuthorized l then trust_getBalance l else Inr 0)"

text \<open>
  The amounts exchanged: from what the seller can take in (\<open>numWheat\<close>) and sell, the amount of the offer and the
  limits of the buyer, the wheat and sheep exchanged, the amount of the offer as adjusted to the balance, and
  whether a limit of the buyer reduced the offer.
\<close>

definition cross_amounts ::
  "Price \<Rightarrow> int64 \<Rightarrow> int64 \<Rightarrow> int64 \<Rightarrow> int64 \<Rightarrow> int64 \<Rightarrow> scp_error + (int64 \<times> int64 \<times> int64 \<times> bool)"
where
  "cross_amounts price amount numWheat canSell maxWheatReceived maxSheepSend =
     (let w1 = (if numWheat > canSell then canSell else numWheat);
          w2 = (if w1 \<ge> amount then amount else w1);
          amount2 = (if w1 \<ge> amount then amount else w1);
          w3 = (if w2 > maxWheatReceived then maxWheatReceived else w2);
          reduced3 = (w2 > maxWheatReceived)
      in bindE (bigDivide w3 (price_n price) (price_d price)) (\<lambda>r.
           let s3 = (case r of Some x \<Rightarrow> x | None \<Rightarrow> INT64_MAX);
               s4 = (if s3 > maxSheepSend then maxSheepSend else s3);
               reduced4 = (reduced3 \<or> s3 > maxSheepSend)
           in bindE (bigDivide_throw s4 (price_d price) (price_n price)) (\<lambda>w4.
                Inr (w4, s4, amount2, reduced4))))"

text \<open>
  A change of a balance of the seller, written back at once: the frame of the account afterwards, or \<open>None\<close> when
  the trust line refuses the change.
\<close>

definition adjustBalance :: "Asset \<Rightarrow> int64 \<Rightarrow> TrustFrame option \<Rightarrow> AccountFrame \<Rightarrow> AccountFrame option led" where
  "adjustBalance asset n line accountB =
     (if n = 0 then returnL (Some accountB)
      else if asset = AssetNative
      then bindL (liftE (i64 (a_balance (af_account accountB) + n))) (\<lambda>b.
           bindL (account_storeChange (accountB\<lparr>af_account := (af_account accountB)\<lparr>a_balance := b\<rparr>\<rparr>)) (\<lambda>a.
             returnL (Some a)))
      else bindL (liftE (deref line)) (\<lambda>l.
           bindL (liftE (addBalance n l)) (\<lambda>(ok, l1).
             if \<not> ok then returnL None
             else bindL (trust_storeChange l1) (\<lambda>_. returnL (Some accountB)))))"

text \<open>The offer is deleted when it is used up, and written back with the rest otherwise.\<close>

definition updateOffer ::
  "(int32 \<Rightarrow> int32 \<Rightarrow> rat) \<Rightarrow> LedgerHeader \<Rightarrow> OfferFrame \<Rightarrow> bool \<Rightarrow> int64 \<Rightarrow> AccountFrame \<Rightarrow> AccountFrame led"
where
  "updateOffer fdiv lm offer offerTaken rest accountB =
     (if offerTaken
      then bindL (offer_storeDelete (o_sellerID (of_offer offer)) (o_offerID (of_offer offer))) (\<lambda>_.
           bindL (liftE (addNumEntries lm (-1) accountB)) (\<lambda>(_, a1).
             account_storeChange a1))
      else bindL (offer_storeChange fdiv (offer\<lparr>of_offer := (of_offer offer)\<lparr>o_amount := rest\<rparr>\<rparr>)) (\<lambda>_.
             returnL accountB))"

text \<open>
  The second half of \<^verbatim>\<open>crossOffer\<close>, from the amounts exchanged on; \<open>bogus\<close> forces the offer to be deleted. When the
  function returns without exchanging, the amounts in its output parameters are not read by its callers.
\<close>

definition settleOffer ::
  "(int32 \<Rightarrow> int32 \<Rightarrow> rat) \<Rightarrow> LedgerHeader \<Rightarrow> OfferFrame \<Rightarrow> bool \<Rightarrow> int64 \<Rightarrow> int64 \<Rightarrow> int64 \<Rightarrow>
    AccountFrame \<Rightarrow> TrustFrame option \<Rightarrow> TrustFrame option \<Rightarrow> (CrossOfferResult \<times> int64 \<times> int64 \<times> ClaimOfferAtom list) led"
where
  "settleOffer fdiv lm offer bogus numWheatReceived numSheepSend amount accountB wheatLine sheepLine =
     (let x = of_offer offer; offerTaken = (bogus \<or> amount \<le> numWheatReceived) in
      bindL (updateOffer fdiv lm offer offerTaken (amount - numWheatReceived) accountB) (\<lambda>accountB1.
      bindL (adjustBalance (o_buying x) numSheepSend sheepLine accountB1) (\<lambda>a2. case a2 of
        None \<Rightarrow> returnL (eOfferCantConvert, numWheatReceived, numSheepSend, [])
      | Some accountB2 \<Rightarrow>
      bindL (adjustBalance (o_selling x) (- numWheatReceived) wheatLine accountB2) (\<lambda>a3. case a3 of
        None \<Rightarrow> returnL (eOfferCantConvert, numWheatReceived, numSheepSend, [])
      | Some accountB3 \<Rightarrow>
        returnL (if offerTaken then eOfferTaken else eOfferPartial, numWheatReceived, numSheepSend,
          [\<lparr>ca_sellerID = account_getID accountB3, ca_offerID = o_offerID x, ca_assetSold = o_selling x,
            ca_amountSold = numWheatReceived, ca_assetBought = o_buying x, ca_amountBought = numSheepSend\<rparr>])))))"

definition crossOffer ::
  "(int32 \<Rightarrow> int32 \<Rightarrow> rat) \<Rightarrow> LedgerHeader \<Rightarrow> OfferFrame \<Rightarrow> int64 \<Rightarrow> int64 \<Rightarrow>
    (CrossOfferResult \<times> int64 \<times> int64 \<times> ClaimOfferAtom list) led"
where
  "crossOffer fdiv lm offer maxWheatReceived maxSheepSend =
     (let x = of_offer offer; sheep = o_buying x; wheat = o_selling x; accountBID = o_sellerID x in
      bindL (onDelta (recordEntry (offer_entry offer))) (\<lambda>_.
      bindL (loadAccount accountBID) (\<lambda>acc. case acc of
        None \<Rightarrow> throwL (Runtime_Error ''invalid database state: offer must have matching account'')
      | Some accountB \<Rightarrow>
      bindL (if wheat \<noteq> AssetNative then loadTrustLine accountBID wheat else returnL None) (\<lambda>wheatLine.
      bindL (if sheep \<noteq> AssetNative then loadTrustLine accountBID sheep else returnL None) (\<lambda>sheepLine.
      bindL (liftE (if sheep = AssetNative then Inr INT64_MAX else sellerMaxWheat (o_price x) sheepLine)) (\<lambda>numWheat.
      bindL (liftE (wheatCanSell lm wheat accountB wheatLine)) (\<lambda>canSell.
      bindL (liftE (cross_amounts (o_price x) (o_amount x) numWheat canSell maxWheatReceived maxSheepSend))
        (\<lambda>(numWheatReceived, numSheepSend, amount, reducedOffer).
      if numWheatReceived = 0 \<or> numSheepSend = 0
      then if reducedOffer then returnL (eOfferCantConvert, numWheatReceived, numSheepSend, [])
           else settleOffer fdiv lm offer True 0 0 amount accountB wheatLine sheepLine
      else settleOffer fdiv lm offer False numWheatReceived numSheepSend amount accountB wheatLine sheepLine))))))))"

section \<open>Crossing the book\<close>

text \<open>
  The state of the loops. A filter may have a side effect that tells its caller why it stopped: \<open>ex_stoppedAt\<close> is the
  offer at which it did.
\<close>

record Exchange =
  ex_offerOffset :: nat
  ex_maxSheepSend :: int64
  ex_sheepSend :: int64
  ex_maxWheatReceive :: int64
  ex_wheatReceived :: int64
  mOfferTrail :: "ClaimOfferAtom list"
  ex_stoppedAt :: "OfferFrame option"

definition needMore :: "Exchange \<Rightarrow> bool" where
  "needMore ex \<longleftrightarrow> ex_maxWheatReceive ex > 0 \<and> ex_maxSheepSend ex > 0"

definition exchanged :: "CrossOfferResult \<Rightarrow> int64 \<Rightarrow> int64 \<Rightarrow> ClaimOfferAtom list \<Rightarrow> Exchange \<Rightarrow> scp_error + Exchange" where
  "exchanged cor w sh trail ex =
     bindE (if cor = eOfferTaken then bindE (assertE (0 < ex_offerOffset ex)) (\<lambda>_. Inr (ex_offerOffset ex - 1))
            else Inr (ex_offerOffset ex)) (\<lambda>off.
     bindE (i64 (ex_sheepSend ex + sh)) (\<lambda>ss.
     bindE (i64 (ex_wheatReceived ex + w)) (\<lambda>wr.
       Inr \<lparr>ex_offerOffset = off, ex_maxSheepSend = ex_maxSheepSend ex - sh, ex_sheepSend = ss,
            ex_maxWheatReceive = ex_maxWheatReceive ex - w, ex_wheatReceived = wr, mOfferTrail = mOfferTrail ex @ trail,
            ex_stoppedAt = ex_stoppedAt ex\<rparr>)))"

text \<open>The loop over the offers of one query; the result is given when the function returns from within the loop.\<close>

fun crossOffers ::
  "(int32 \<Rightarrow> int32 \<Rightarrow> rat) \<Rightarrow> LedgerHeader \<Rightarrow> (OfferFrame \<Rightarrow> OfferFilterResult) \<Rightarrow> OfferFrame list \<Rightarrow> Exchange \<Rightarrow>
    (ConvertResult option \<times> Exchange) led"
where
  "crossOffers fdiv lm keep [] ex = returnL (None, ex)"
| "crossOffers fdiv lm keep (wheatOffer # retList) ex =
     (case keep wheatOffer of
        eStop \<Rightarrow> returnL (Some eFilterStop, ex\<lparr>ex_stoppedAt := Some wheatOffer\<rparr>)
      | eSkip \<Rightarrow> crossOffers fdiv lm keep retList ex
      | eKeep \<Rightarrow>
          bindL (crossOffer fdiv lm wheatOffer (ex_maxWheatReceive ex) (ex_maxSheepSend ex)) (\<lambda>(cor, w, sh, trail).
            if cor = eOfferCantConvert then returnL (Some ePartial, ex)
            else bindL (liftE (exchanged cor w sh trail ex)) (\<lambda>ex1.
                   if \<not> needMore ex1 then returnL (Some eOK, ex1)
                   else if cor = eOfferPartial then returnL (Some ePartial, ex1)
                   else crossOffers fdiv lm keep retList ex1)))"

text \<open>The loop over the queries, five offers at a time, with fuel for the number of queries.\<close>

fun convert_loop ::
  "nat \<Rightarrow> (int32 \<Rightarrow> int32 \<Rightarrow> rat) \<Rightarrow> LedgerHeader \<Rightarrow> Asset \<Rightarrow> Asset \<Rightarrow> (OfferFrame \<Rightarrow> OfferFilterResult) \<Rightarrow> Exchange \<Rightarrow>
    (ConvertResult \<times> Exchange) led"
where
  "convert_loop 0 fdiv lm sheep wheat keep ex = throwL Out_Of_Fuel"
| "convert_loop (Suc n) fdiv lm sheep wheat keep ex =
     (if \<not> needMore ex then returnL (eOK, ex)
      else bindL (withDB (\<lambda>db. bindE (loadBestOffers 5 (ex_offerOffset ex) wheat sheep db) (\<lambda>fs. Inr (fs, db)))) (\<lambda>retList.
           bindL (crossOffers fdiv lm keep retList (ex\<lparr>ex_offerOffset := ex_offerOffset ex + length retList\<rparr>)) (\<lambda>(res, ex1).
             case res of
               Some r \<Rightarrow> returnL (r, ex1)
             | None \<Rightarrow> if needMore ex1 \<and> length retList < 5 then returnL (eOK, ex1)
                       else convert_loop n fdiv lm sheep wheat keep ex1)))"

definition convertWithOffers ::
  "nat \<Rightarrow> (int32 \<Rightarrow> int32 \<Rightarrow> rat) \<Rightarrow> LedgerHeader \<Rightarrow> Asset \<Rightarrow> int64 \<Rightarrow> Asset \<Rightarrow> int64 \<Rightarrow> (OfferFrame \<Rightarrow> OfferFilterResult) \<Rightarrow>
    (ConvertResult \<times> Exchange) led"
where
  "convertWithOffers fuel fdiv lm sheep maxSheepSend wheat maxWheatReceive keep =
     convert_loop fuel fdiv lm sheep wheat keep
       \<lparr>ex_offerOffset = 0, ex_maxSheepSend = maxSheepSend, ex_sheepSend = 0,
        ex_maxWheatReceive = maxWheatReceive, ex_wheatReceived = 0, mOfferTrail = [], ex_stoppedAt = None\<rparr>"

section \<open>The amounts\<close>

text \<open>
  The amounts are the largest the limits allow at the price of the offer, rounded in favour of the seller, and no
  product in between overflows.
\<close>

lemma cross_amounts_result:
  assumes p: "price_ok p" and r: "0 \<le> amount" "0 \<le> numWheat" "0 \<le> canSell" "0 \<le> maxW" "0 \<le> maxS"
    "amount \<le> INT64_MAX" "numWheat \<le> INT64_MAX" "canSell \<le> INT64_MAX" "maxW \<le> INT64_MAX" "maxS \<le> INT64_MAX"
  defines "w3 \<equiv> min (min (min numWheat canSell) amount) maxW"
  defines "s \<equiv> min (min (w3 * price_n p div price_d p) INT64_MAX) maxS"
  shows "cross_amounts p amount numWheat canSell maxW maxS =
      Inr (s * price_d p div price_n p, s, min (min numWheat canSell) amount,
        maxW < min (min numWheat canSell) amount \<or> maxS < min (w3 * price_n p div price_d p) INT64_MAX)"
    "0 \<le> s" "s \<le> maxS" "s * price_d p div price_n p \<le> w3" "(s * price_d p div price_n p) * price_n p \<le> s * price_d p"
proof -
  have pn: "0 < price_n p" "price_n p \<le> INT64_MAX" "0 < price_d p" "price_d p \<le> INT64_MAX" using p by (auto simp: price_ok_def)
  have w3: "0 \<le> w3" "w3 \<le> INT64_MAX" using r by (auto simp: w3_def)
  have q: "0 \<le> w3 * price_n p div price_d p" using w3 pn by (simp add: pos_imp_zdiv_nonneg_iff)
  then show s: "0 \<le> s" "s \<le> maxS" using r by (auto simp: s_def)
  have "s * price_d p \<le> (w3 * price_n p div price_d p) * price_d p"
    using pn by (intro mult_right_mono) (auto simp: s_def)
  also have "\<dots> \<le> w3 * price_n p"
    using div_mult_mod_eq [of "w3 * price_n p" "price_d p"] pn(3) pos_mod_sign [of "price_d p" "w3 * price_n p"] by linarith
  finally have sp: "s * price_d p \<le> w3 * price_n p" .
  then have "s * price_d p div price_n p \<le> w3 * price_n p div price_n p" using pn by (intro zdiv_mono1)
  then show le: "s * price_d p div price_n p \<le> w3" using pn by simp
  show "(s * price_d p div price_n p) * price_n p \<le> s * price_d p"
    using div_mult_mod_eq [of "s * price_d p" "price_n p"] pn(1) pos_mod_sign [of "price_n p" "s * price_d p"] by linarith
  have d1: "bigDivide w3 (price_n p) (price_d p) = Inr (if w3 * price_n p div price_d p \<le> INT64_MAX then Some (w3 * price_n p div price_d p) else None)"
    using bigDivide_signed [of w3 "price_n p" "price_d p"] w3 pn by simp
  have sm: "s \<le> INT64_MAX" using r(10) s(2) by linarith
  have d2: "bigDivide_throw s (price_d p) (price_n p) = Inr (s * price_d p div price_n p)"
    using bigDivide_signed [of s "price_d p" "price_n p"] s sm pn le w3 by (simp add: bigDivide_throw_def)
  have w1: "(if numWheat > canSell then canSell else numWheat) = min numWheat canSell"
    "(if min numWheat canSell \<ge> amount then amount else min numWheat canSell) = min (min numWheat canSell) amount"
    "(if min (min numWheat canSell) amount > maxW then maxW else min (min numWheat canSell) amount) = w3"
    by (auto simp: w3_def)
  have s3: "(case (if w3 * price_n p div price_d p \<le> INT64_MAX then Some (w3 * price_n p div price_d p) else None) of Some x \<Rightarrow> x | None \<Rightarrow> INT64_MAX) =
      min (w3 * price_n p div price_d p) INT64_MAX" by auto
  have s4: "(if min (w3 * price_n p div price_d p) INT64_MAX > maxS then maxS else min (w3 * price_n p div price_d p) INT64_MAX) = s"
    by (auto simp: s_def)
  show "cross_amounts p amount numWheat canSell maxW maxS =
      Inr (s * price_d p div price_n p, s, min (min numWheat canSell) amount,
        maxW < min (min numWheat canSell) amount \<or> maxS < min (w3 * price_n p div price_d p) INT64_MAX)"
    unfolding cross_amounts_def Let_def w1 d1 bindE_simps s3 s4 d2 ..
qed

end
