(* ===== verification/Transaction_Types.thy ===== *)
theory Transaction_Types
  imports OfferExchange
begin

text \<open>
  Transactions, operations and their results, after \<^verbatim>\<open>src/xdr/Stellar-transaction.x\<close>. The memo of a transaction, the
  reserved fields and the parts of a fee that are only informative are left out. Enumerations of account and
  signer types keep their numbers, as the ledger entries hold them.
\<close>

section \<open>Numbered enumerations\<close>

abbreviation (input) ACCOUNT_ANONYMOUS_USER :: uint32 where "ACCOUNT_ANONYMOUS_USER \<equiv> 0"
abbreviation (input) ACCOUNT_REGISTERED_USER :: uint32 where "ACCOUNT_REGISTERED_USER \<equiv> 1"
abbreviation (input) ACCOUNT_MERCHANT :: uint32 where "ACCOUNT_MERCHANT \<equiv> 2"
abbreviation (input) ACCOUNT_DISTRIBUTION_AGENT :: uint32 where "ACCOUNT_DISTRIBUTION_AGENT \<equiv> 3"
abbreviation (input) ACCOUNT_SETTLEMENT_AGENT :: uint32 where "ACCOUNT_SETTLEMENT_AGENT \<equiv> 4"
abbreviation (input) ACCOUNT_EXCHANGE_AGENT :: uint32 where "ACCOUNT_EXCHANGE_AGENT \<equiv> 5"
abbreviation (input) ACCOUNT_BANK :: uint32 where "ACCOUNT_BANK \<equiv> 6"
abbreviation (input) ACCOUNT_SCRATCH_CARD :: uint32 where "ACCOUNT_SCRATCH_CARD \<equiv> 7"

abbreviation (input) SIGNER_GENERAL :: uint32 where "SIGNER_GENERAL \<equiv> 0"
abbreviation (input) SIGNER_ADMIN :: uint32 where "SIGNER_ADMIN \<equiv> 1"
abbreviation (input) SIGNER_EMISSION :: uint32 where "SIGNER_EMISSION \<equiv> 2"

section \<open>Operations\<close>

record ScratchCard =
  sc_asset :: Asset
  sc_amount :: int64

text \<open>The body of a \<^verbatim>\<open>CreateAccountOp\<close> is a union over the type of the account.\<close>

datatype CreateAccountBody = ScratchCardBody ScratchCard | AccountBody uint32

fun body_accountType :: "CreateAccountBody \<Rightarrow> uint32" where
  "body_accountType (ScratchCardBody _) = ACCOUNT_SCRATCH_CARD"
| "body_accountType (AccountBody t) = t"

record CreateAccountOp =
  cr_destination :: AccountID
  cr_body :: CreateAccountBody

record PaymentOp =
  pay_destination :: AccountID
  pay_asset :: Asset
  pay_amount :: int64

record ExternalPaymentOp =
  ext_exchangeAgent :: AccountID
  ext_destinationBank :: AccountID
  ext_destinationAccount :: AccountID
  ext_asset :: Asset
  ext_amount :: int64

record PathPaymentOp =
  pp_sendAsset :: Asset
  pp_sendMax :: int64
  pp_destination :: AccountID
  pp_destAsset :: Asset
  pp_destAmount :: int64
  pp_path :: "Asset list"

record ManageOfferOp =
  mo_selling :: Asset
  mo_buying :: Asset
  mo_amount :: int64
  mo_price :: Price
  mo_offerID :: uint64

record CreatePassiveOfferOp =
  cp_selling :: Asset
  cp_buying :: Asset
  cp_amount :: int64
  cp_price :: Price

record SetOptionsOp =
  so_inflationDest :: "AccountID option"
  so_clearFlags :: "uint32 option"
  so_setFlags :: "uint32 option"
  so_masterWeight :: "uint32 option"
  so_lowThreshold :: "uint32 option"
  so_medThreshold :: "uint32 option"
  so_highThreshold :: "uint32 option"
  so_homeDomain :: "bytes option"
  so_signer :: "Signer option"

record ChangeTrustOp =
  ct_line :: Asset
  ct_limit :: int64

text \<open>The asset of an \<^verbatim>\<open>AllowTrustOp\<close> has no issuer: the source of the operation is the issuer.\<close>

datatype AllowTrustAsset = AllowNative | AllowCode4 bytes | AllowCode12 bytes

record AllowTrustOp =
  at_trustor :: AccountID
  at_asset :: AllowTrustAsset
  at_authorize :: bool

record ManageDataOp =
  md_dataName :: bytes
  md_dataValue :: "bytes option"

record PaymentReversalOp =
  pr_paymentSource :: AccountID
  pr_asset :: Asset
  pr_amount :: int64
  pr_commissionAmount :: int64
  pr_paymentID :: int64

datatype OperationBody =
    CREATE_ACCOUNT CreateAccountOp
  | PAYMENT PaymentOp
  | PATH_PAYMENT PathPaymentOp
  | MANAGE_OFFER ManageOfferOp
  | CREATE_PASSIVE_OFFER CreatePassiveOfferOp
  | SET_OPTIONS SetOptionsOp
  | CHANGE_TRUST ChangeTrustOp
  | ALLOW_TRUST AllowTrustOp
  | ACCOUNT_MERGE AccountID
  | INFLATION
  | MANAGE_DATA ManageDataOp
  | ADMINISTRATIVE bytes
  | PAYMENT_REVERSAL PaymentReversalOp
  | EXTERNAL_PAYMENT ExternalPaymentOp

record Operation =
  op_sourceAccount :: "AccountID option"
  op_body :: OperationBody

datatype OperationFee = opFEE_NONE | opFEE_CHARGED Asset int64

record Transaction =
  tx_sourceAccount :: AccountID
  tx_fee :: uint32
  tx_seqNum :: uint64
  tx_timeBounds :: "(uint64 \<times> uint64) option"
  tx_operations :: "Operation list"

record DecoratedSignature =
  ds_hint :: bytes
  ds_signature :: bytes

record TransactionEnvelope =
  env_tx :: Transaction
  env_signatures :: "DecoratedSignature list"
  env_operationFees :: "OperationFee list"

section \<open>Results\<close>

datatype CreateAccountResult =
    CREATE_ACCOUNT_SUCCESS | CREATE_ACCOUNT_MALFORMED | CREATE_ACCOUNT_UNDERFUNDED | CREATE_ACCOUNT_LOW_RESERVE
  | CREATE_ACCOUNT_ALREADY_EXIST | CREATE_ACCOUNT_NOT_AUTHORIZED_TYPE | CREATE_ACCOUNT_WRONG_TYPE
  | CREATE_ACCOUNT_LINE_FULL | CREATE_ACCOUNT_NO_ISSUER

datatype PaymentResult =
    PAYMENT_SUCCESS | PAYMENT_MALFORMED | PAYMENT_UNDERFUNDED | PAYMENT_SRC_NO_TRUST | PAYMENT_SRC_NOT_AUTHORIZED
  | PAYMENT_NO_DESTINATION | PAYMENT_NO_TRUST | PAYMENT_NOT_AUTHORIZED | PAYMENT_LINE_FULL | PAYMENT_NO_ISSUER

text \<open>On success the claimed offers and the last payment: destination, asset and amount.\<close>

datatype PathPaymentResult =
    PATH_PAYMENT_SUCCESS "ClaimOfferAtom list" "AccountID \<times> Asset \<times> int64"
  | PATH_PAYMENT_MALFORMED | PATH_PAYMENT_UNDERFUNDED | PATH_PAYMENT_SRC_NO_TRUST | PATH_PAYMENT_SRC_NOT_AUTHORIZED
  | PATH_PAYMENT_NO_DESTINATION | PATH_PAYMENT_NO_TRUST | PATH_PAYMENT_NOT_AUTHORIZED | PATH_PAYMENT_LINE_FULL
  | PATH_PAYMENT_NO_ISSUER Asset | PATH_PAYMENT_TOO_FEW_OFFERS | PATH_PAYMENT_OFFER_CROSS_SELF | PATH_PAYMENT_OVER_SENDMAX

datatype ManageOfferEffect = MANAGE_OFFER_CREATED OfferEntry | MANAGE_OFFER_UPDATED OfferEntry | MANAGE_OFFER_DELETED

datatype ManageOfferResult =
    MANAGE_OFFER_SUCCESS "ClaimOfferAtom list" ManageOfferEffect
  | MANAGE_OFFER_MALFORMED | MANAGE_OFFER_SELL_NO_TRUST | MANAGE_OFFER_BUY_NO_TRUST | MANAGE_OFFER_SELL_NOT_AUTHORIZED
  | MANAGE_OFFER_BUY_NOT_AUTHORIZED | MANAGE_OFFER_LINE_FULL | MANAGE_OFFER_UNDERFUNDED | MANAGE_OFFER_CROSS_SELF
  | MANAGE_OFFER_SELL_NO_ISSUER | MANAGE_OFFER_BUY_NO_ISSUER | MANAGE_OFFER_NOT_FOUND | MANAGE_OFFER_LOW_RESERVE

datatype SetOptionsResult =
    SET_OPTIONS_SUCCESS | SET_OPTIONS_LOW_RESERVE | SET_OPTIONS_TOO_MANY_SIGNERS | SET_OPTIONS_BAD_FLAGS
  | SET_OPTIONS_INVALID_INFLATION | SET_OPTIONS_CANT_CHANGE | SET_OPTIONS_UNKNOWN_FLAG
  | SET_OPTIONS_THRESHOLD_OUT_OF_RANGE | SET_OPTIONS_BAD_SIGNER | SET_OPTIONS_INVALID_HOME_DOMAIN
  | SET_OPTIONS_BAD_SIGNER_TYPE

datatype ChangeTrustResult =
    CHANGE_TRUST_SUCCESS | CHANGE_TRUST_MALFORMED | CHANGE_TRUST_NO_ISSUER | CHANGE_TRUST_INVALID_LIMIT | CHANGE_TRUST_LOW_RESERVE

datatype AllowTrustResult =
    ALLOW_TRUST_SUCCESS | ALLOW_TRUST_MALFORMED | ALLOW_TRUST_NO_TRUST_LINE | ALLOW_TRUST_TRUST_NOT_REQUIRED | ALLOW_TRUST_CANT_REVOKE

datatype AccountMergeResult =
    ACCOUNT_MERGE_SUCCESS int64
  | ACCOUNT_MERGE_MALFORMED | ACCOUNT_MERGE_NO_ACCOUNT | ACCOUNT_MERGE_IMMUTABLE_SET | ACCOUNT_MERGE_HAS_SUB_ENTRIES

datatype InflationResult = INFLATION_SUCCESS "(AccountID \<times> int64) list" | INFLATION_NOT_TIME

datatype ManageDataResult =
    MANAGE_DATA_SUCCESS | MANAGE_DATA_NOT_SUPPORTED_YET | MANAGE_DATA_NAME_NOT_FOUND | MANAGE_DATA_LOW_RESERVE | MANAGE_DATA_INVALID_NAME

datatype AdministrativeResult = ADMINISTRATIVE_SUCCESS | ADMINISTRATIVE_MALFORMED | ADMINISTRATIVE_NOT_AUTHORIZED

datatype PaymentReversalResult =
    PAYMENT_REVERSAL_SUCCESS | PAYMENT_REVERSAL_UNDERFUNDED | PAYMENT_REVERSAL_SRC_NO_TRUST
  | PAYMENT_REVERSAL_SRC_NOT_AUTHORIZED | PAYMENT_REVERSAL_NO_PAYMENT_SENDER | PAYMENT_REVERSAL_NO_PAYMENT_SENDER_TRUST
  | PAYMENT_REVERSAL_PAYMENT_SENDER_NOT_AUTHORIZED | PAYMENT_REVERSAL_PAYMENT_SENDER_LINE_FULL
  | PAYMENT_REVERSAL_NO_ISSUER | PAYMENT_REVERSAL_COMMISSION_UNDERFUNDED | PAYMENT_REVERSAL_MALFORMED
  | PAYMENT_REVERSAL_NOT_ALLOWED | PAYMENT_REVERSAL_ALREADY_REVERSED

datatype InnerResult =
    CreateAccountRes CreateAccountResult
  | PaymentRes PaymentResult
  | PathPaymentRes PathPaymentResult
  | ManageOfferRes ManageOfferResult
  | SetOptionsRes SetOptionsResult
  | ChangeTrustRes ChangeTrustResult
  | AllowTrustRes AllowTrustResult
  | AccountMergeRes AccountMergeResult
  | InflationRes InflationResult
  | ManageDataRes ManageDataResult
  | AdministrativeRes AdministrativeResult
  | PaymentReversalRes PaymentReversalResult

datatype OperationResult = opINNER InnerResult | opBAD_AUTH | opNO_ACCOUNT

text \<open>
  The operations return whether they set a success code, so the model returns the code only. \<open>succeeded\<close> is the
  boolean of the program.
\<close>

fun inner_succeeded :: "InnerResult \<Rightarrow> bool" where
  "inner_succeeded (CreateAccountRes r) \<longleftrightarrow> r = CREATE_ACCOUNT_SUCCESS"
| "inner_succeeded (PaymentRes r) \<longleftrightarrow> r = PAYMENT_SUCCESS"
| "inner_succeeded (PathPaymentRes r) \<longleftrightarrow> (case r of PATH_PAYMENT_SUCCESS _ _ \<Rightarrow> True | _ \<Rightarrow> False)"
| "inner_succeeded (ManageOfferRes r) \<longleftrightarrow> (case r of MANAGE_OFFER_SUCCESS _ _ \<Rightarrow> True | _ \<Rightarrow> False)"
| "inner_succeeded (SetOptionsRes r) \<longleftrightarrow> r = SET_OPTIONS_SUCCESS"
| "inner_succeeded (ChangeTrustRes r) \<longleftrightarrow> r = CHANGE_TRUST_SUCCESS"
| "inner_succeeded (AllowTrustRes r) \<longleftrightarrow> r = ALLOW_TRUST_SUCCESS"
| "inner_succeeded (AccountMergeRes r) \<longleftrightarrow> (case r of ACCOUNT_MERGE_SUCCESS _ \<Rightarrow> True | _ \<Rightarrow> False)"
| "inner_succeeded (InflationRes r) \<longleftrightarrow> (case r of INFLATION_SUCCESS _ \<Rightarrow> True | _ \<Rightarrow> False)"
| "inner_succeeded (ManageDataRes r) \<longleftrightarrow> r = MANAGE_DATA_SUCCESS"
| "inner_succeeded (AdministrativeRes r) \<longleftrightarrow> r = ADMINISTRATIVE_SUCCESS"
| "inner_succeeded (PaymentReversalRes r) \<longleftrightarrow> r = PAYMENT_REVERSAL_SUCCESS"

fun succeeded :: "OperationResult \<Rightarrow> bool" where
  "succeeded (opINNER r) = inner_succeeded r"
| "succeeded _ = False"

datatype TransactionResultCode =
    txSUCCESS | txFAILED | txTOO_EARLY | txTOO_LATE | txMISSING_OPERATION | txBAD_SEQ | txBAD_AUTH
  | txINSUFFICIENT_BALANCE | txNO_ACCOUNT | txINSUFFICIENT_FEE | txBAD_AUTH_EXTRA | txINTERNAL_ERROR

end
