(* ===== verification/Operations.thy ===== *)
theory Operations
  imports Transaction_Types
begin

text \<open>
  The operations that change trust lines, data, options and accounts: \<^verbatim>\<open>doCheckValid\<close> and \<^verbatim>\<open>doApply\<close> of the
  classes derived from \<^verbatim>\<open>OperationFrame\<close> under \<^verbatim>\<open>src/transactions\<close>. An operation is given its source: the identifier
  \<^verbatim>\<open>getSourceID()\<close> and the frame \<^verbatim>\<open>mSourceAccount\<close>. The frame is shared with the transaction, so \<^verbatim>\<open>doApply\<close> returns
  it as it left it; other frames are copies of their own. \<^verbatim>\<open>doCheckValid\<close> returns the error it sets, if any.
\<close>

section \<open>The application\<close>

text \<open>
  What operations and transactions read of the application: the two keys of the configuration, the header of
  the current ledger, and as parameters the division of \<^verbatim>\<open>double\<close>s, the number of queries of the order book,
  the verification of a signature, the hash of the contents of a transaction and the text of a key.
\<close>

record App =
  BANK_MASTER_KEY :: AccountID
  BANK_COMMISSION_KEY :: AccountID
  ledgerHeader :: LedgerHeader
  app_fdiv :: "int32 \<Rightarrow> int32 \<Rightarrow> rat"
  app_fuel :: nat
  verifySig :: "AccountID \<Rightarrow> bytes \<Rightarrow> Hash \<Rightarrow> bool"
  contentsHash :: "Transaction \<Rightarrow> Hash"
  toStrKey :: "AccountID \<Rightarrow> bytes"

definition app_getIssuer :: "App \<Rightarrow> AccountID" where
  "app_getIssuer app = BANK_MASTER_KEY app"

section \<open>Nested deltas\<close>

text \<open>
  A program on a delta nested in the current one, which is committed at its end. A program in a transaction of the
  database and on a nested delta, which is given the outer one and returns it: success commits both, any other result
  rolls the nested delta and the tables back. A program on the outer delta, while a nested one is current.
\<close>

definition nestedL :: "'a led \<Rightarrow> 'a led" where
  "nestedL m s =
     bindE (m (s\<lparr>st_delta := LedgerDelta_nested (st_delta s)\<rparr>)) (\<lambda>(x, s1).
     bindE (commit_outer (st_delta s) (st_delta s1)) (\<lambda>(outer, _). Inr (x, s1\<lparr>st_delta := outer\<rparr>)))"

definition tempDelta :: "('a \<Rightarrow> bool) \<Rightarrow> (LedgerDelta \<Rightarrow> ('a \<times> LedgerDelta) led) \<Rightarrow> 'a led" where
  "tempDelta ok m s =
     bindE (m (st_delta s) (s\<lparr>st_delta := LedgerDelta_nested (st_delta s)\<rparr>)) (\<lambda>((x, outer), s1).
       if ok x then bindE (commit_outer outer (st_delta s1)) (\<lambda>(outer1, _). Inr (x, s1\<lparr>st_delta := outer1\<rparr>))
       else Inr (x, \<lparr>st_db = rolled_back (st_db s) s1, st_delta = outer\<rparr>))"

definition onOuter :: "LedgerDelta \<Rightarrow> 'a led \<Rightarrow> ('a \<times> LedgerDelta) led" where
  "onOuter outer m s = bindE (m (s\<lparr>st_delta := outer\<rparr>)) (\<lambda>(x, s1). Inr ((x, st_delta s1), s1\<lparr>st_delta := st_delta s\<rparr>))"

definition inHeader :: "(LedgerHeader \<Rightarrow> scp_error + LedgerHeader) \<Rightarrow> unit led" where
  "inHeader f = onDelta (\<lambda>d. bindE (f (mCurrentHeader d)) (\<lambda>h. Inr (d\<lparr>mCurrentHeader := h\<rparr>)))"

section \<open>Change trust\<close>

definition ChangeTrust_doCheckValid :: "App \<Rightarrow> ChangeTrustOp \<Rightarrow> ChangeTrustResult option" where
  "ChangeTrust_doCheckValid app x =
     (if ct_limit x < 0 then Some CHANGE_TRUST_MALFORMED
      else if \<not> isAssetValid_issuer (app_getIssuer app) (ct_line x) then Some CHANGE_TRUST_MALFORMED
      else None)"

text \<open>The second result is \<^verbatim>\<open>mTrustLine\<close>, which \<^verbatim>\<open>getTrustLine\<close> returns to \<^verbatim>\<open>createTrustLine\<close>.\<close>

definition ChangeTrust_modify ::
  "App \<Rightarrow> ChangeTrustOp \<Rightarrow> TrustFrame \<Rightarrow> AccountFrame option \<Rightarrow> AccountFrame \<Rightarrow>
    (ChangeTrustResult \<times> TrustFrame option \<times> AccountFrame) led"
where
  "ChangeTrust_modify app x line issuerAccount src =
     bindL (liftE (trust_getBalance line)) (\<lambda>balance.
     if ct_limit x < balance then returnL (CHANGE_TRUST_INVALID_LIMIT, Some line, src)
     else if ct_limit x = 0
     then bindL (trust_storeDelete (t_accountID (tf_line line)) (t_asset (tf_line line))) (\<lambda>_.
          bindL (liftE (addNumEntries (ledgerHeader app) (-1) src)) (\<lambda>(_, src1).
          bindL (account_storeChange src1) (\<lambda>src2.
            returnL (CHANGE_TRUST_SUCCESS, Some line, src2))))
     else if issuerAccount = None then returnL (CHANGE_TRUST_NO_ISSUER, Some line, src)
     else bindL (trust_storeChange (line\<lparr>tf_line := (tf_line line)\<lparr>t_limit := ct_limit x\<rparr>\<rparr>)) (\<lambda>line1.
            returnL (CHANGE_TRUST_SUCCESS, Some line1, src)))"

definition ChangeTrust_create ::
  "App \<Rightarrow> AccountID \<Rightarrow> ChangeTrustOp \<Rightarrow> AccountFrame option \<Rightarrow> AccountFrame \<Rightarrow>
    (ChangeTrustResult \<times> TrustFrame option \<times> AccountFrame) led"
where
  "ChangeTrust_create app sourceID x issuerAccount src =
     (if ct_limit x = 0 then returnL (CHANGE_TRUST_INVALID_LIMIT, None, src)
      else case issuerAccount of
        None \<Rightarrow> returnL (CHANGE_TRUST_NO_ISSUER, None, src)
      | Some iss \<Rightarrow>
          bindL (liftE (if \<not> isAuthRequired iss then Inr True
                        else bindE (getIssuer (ct_line x)) (\<lambda>i. Inr (sourceID = i)))) (\<lambda>authorized.
          let line = setAuthorized authorized (TrustFrame_new sourceID (ct_line x) (ct_limit x)) in
          bindL (liftE (addNumEntries (ledgerHeader app) 1 src)) (\<lambda>(ok, src1).
            if \<not> ok then returnL (CHANGE_TRUST_LOW_RESERVE, Some line, src1)
            else bindL (account_storeChange src1) (\<lambda>src2.
                 bindL (trust_storeAdd line) (\<lambda>line1.
                   returnL (CHANGE_TRUST_SUCCESS, Some line1, src2))))))"

definition ChangeTrust_doApply ::
  "App \<Rightarrow> AccountID \<Rightarrow> ChangeTrustOp \<Rightarrow> AccountFrame \<Rightarrow> (ChangeTrustResult \<times> TrustFrame option \<times> AccountFrame) led"
where
  "ChangeTrust_doApply app sourceID x src =
     bindL (loadTrustLineIssuer sourceID (ct_line x)) (\<lambda>(tl, issuerAccount). case tl of
       Some line \<Rightarrow> ChangeTrust_modify app x line issuerAccount src
     | None \<Rightarrow> ChangeTrust_create app sourceID x issuerAccount src)"

text \<open>\<^verbatim>\<open>OperationFrame::createTrustLine\<close>, for the account whose frame is given.\<close>

definition createTrustLine :: "App \<Rightarrow> AccountFrame \<Rightarrow> Asset \<Rightarrow> (TrustFrame option \<times> AccountFrame) led" where
  "createTrustLine app account asset =
     (let x = \<lparr>ct_line = asset, ct_limit = INT64_MAX\<rparr> in
      bindL (case ChangeTrust_doCheckValid app x of
               Some e \<Rightarrow> returnL (e, None, account)
             | None \<Rightarrow> ChangeTrust_doApply app (account_getID account) x account) (\<lambda>(r, line, account1).
        case r of
          CHANGE_TRUST_SUCCESS \<Rightarrow> returnL (line, account1)
        | CHANGE_TRUST_NO_ISSUER \<Rightarrow> returnL (None, account1)
        | CHANGE_TRUST_LOW_RESERVE \<Rightarrow> returnL (None, account1)
        | CHANGE_TRUST_MALFORMED \<Rightarrow>
            throwL (Runtime_Error ''Failed to create trust line - change trust line op is malformed'')
        | CHANGE_TRUST_INVALID_LIMIT \<Rightarrow> throwL (Runtime_Error ''Failed to create trust line - invalid limit'')))"

section \<open>Allow trust\<close>

fun allowed_asset :: "AccountID \<Rightarrow> AllowTrustAsset \<Rightarrow> Asset" where
  "allowed_asset sourceID AllowNative = AssetNative"
| "allowed_asset sourceID (AllowCode4 c) = AlphaNum4 c sourceID"
| "allowed_asset sourceID (AllowCode12 c) = AlphaNum12 c sourceID"

definition AllowTrust_doCheckValid :: "App \<Rightarrow> AccountID \<Rightarrow> AllowTrustOp \<Rightarrow> AllowTrustResult option" where
  "AllowTrust_doCheckValid app sourceID x =
     (if at_asset x = AllowNative then Some ALLOW_TRUST_MALFORMED
      else if \<not> isAssetValid_issuer (app_getIssuer app) (allowed_asset sourceID (at_asset x)) then Some ALLOW_TRUST_MALFORMED
      else None)"

definition AllowTrust_doApply :: "AccountID \<Rightarrow> AllowTrustOp \<Rightarrow> AccountFrame \<Rightarrow> AllowTrustResult led" where
  "AllowTrust_doApply sourceID x src =
     (if a_flags (af_account src) AND 1 = 0 then returnL ALLOW_TRUST_TRUST_NOT_REQUIRED
      else if a_flags (af_account src) AND 2 = 0 \<and> \<not> at_authorize x then returnL ALLOW_TRUST_CANT_REVOKE
      else bindL (loadTrustLine (at_trustor x) (allowed_asset sourceID (at_asset x))) (\<lambda>tl. case tl of
             None \<Rightarrow> returnL ALLOW_TRUST_NO_TRUST_LINE
           | Some trustLine \<Rightarrow>
               bindL (trust_storeChange (setAuthorized (at_authorize x) trustLine)) (\<lambda>_. returnL ALLOW_TRUST_SUCCESS)))"

section \<open>Manage data\<close>

definition ManageData_doCheckValid :: "App \<Rightarrow> ManageDataOp \<Rightarrow> ManageDataResult option" where
  "ManageData_doCheckValid app x =
     (if lh_ledgerVersion (ledgerHeader app) < 2 then Some MANAGE_DATA_NOT_SUPPORTED_YET
      else if length (md_dataName x) < 1 \<or> \<not> isString32Valid (md_dataName x) then Some MANAGE_DATA_INVALID_NAME
      else None)"

definition ManageData_doApply :: "App \<Rightarrow> ManageDataOp \<Rightarrow> AccountFrame \<Rightarrow> (ManageDataResult \<times> AccountFrame) led" where
  "ManageData_doApply app x src =
     bindL (withDB (\<lambda>db. Inr (loadData (account_getID src) (md_dataName x) db, db))) (\<lambda>dataFrame.
     case md_dataValue x of
       Some v \<Rightarrow>
         (case dataFrame of
            None \<Rightarrow>
              bindL (liftE (addNumEntries (ledgerHeader app) 1 src)) (\<lambda>(ok, src1).
                if \<not> ok then returnL (MANAGE_DATA_LOW_RESERVE, src1)
                else bindL (data_storeAdd
                       \<lparr>df_data = \<lparr>d_accountID = account_getID src, d_dataName = md_dataName x, d_dataValue = v\<rparr>,
                        df_lastModified = 0\<rparr>) (\<lambda>_.
                     bindL (account_storeChange src1) (\<lambda>src2. returnL (MANAGE_DATA_SUCCESS, src2))))
          | Some f \<Rightarrow>
              bindL (data_storeChange (f\<lparr>df_data := (df_data f)\<lparr>d_dataValue := v\<rparr>\<rparr>)) (\<lambda>_.
                returnL (MANAGE_DATA_SUCCESS, src)))
     | None \<Rightarrow>
         (case dataFrame of
            None \<Rightarrow> returnL (MANAGE_DATA_NAME_NOT_FOUND, src)
          | Some f \<Rightarrow>
              bindL (liftE (addNumEntries (ledgerHeader app) (-1) src)) (\<lambda>(_, src1).
              bindL (account_storeChange src1) (\<lambda>src2.
              bindL (data_storeDelete (d_accountID (df_data f)) (d_dataName (df_data f))) (\<lambda>_.
                returnL (MANAGE_DATA_SUCCESS, src2))))))"

section \<open>Set options\<close>

abbreviation (input) MAX_SIGNERS :: nat where "MAX_SIGNERS \<equiv> 200"

definition SetOptions_doCheckValid :: "AccountID \<Rightarrow> SetOptionsOp \<Rightarrow> SetOptionsResult option" where
  "SetOptions_doCheckValid sourceID x =
     (let unknown = (\<lambda>fl. case fl of Some w \<Rightarrow> w AND NOT 7 \<noteq> 0 | None \<Rightarrow> False);
          outOfRange = (\<lambda>t. case t of Some w \<Rightarrow> w > 255 | None \<Rightarrow> False)
      in if unknown (so_setFlags x) then Some SET_OPTIONS_UNKNOWN_FLAG
         else if unknown (so_clearFlags x) then Some SET_OPTIONS_UNKNOWN_FLAG
         else if (case (so_setFlags x, so_clearFlags x) of (Some w, Some c) \<Rightarrow> w AND c \<noteq> 0 | _ \<Rightarrow> False) then Some SET_OPTIONS_BAD_FLAGS
         else if outOfRange (so_masterWeight x) then Some SET_OPTIONS_THRESHOLD_OUT_OF_RANGE
         else if outOfRange (so_lowThreshold x) then Some SET_OPTIONS_THRESHOLD_OUT_OF_RANGE
         else if outOfRange (so_medThreshold x) then Some SET_OPTIONS_THRESHOLD_OUT_OF_RANGE
         else if outOfRange (so_highThreshold x) then Some SET_OPTIONS_THRESHOLD_OUT_OF_RANGE
         else if (case so_signer x of Some sg \<Rightarrow> sg_pubKey sg = sourceID | None \<Rightarrow> False) then Some SET_OPTIONS_BAD_SIGNER
         else if (case so_homeDomain x of Some h \<Rightarrow> \<not> isString32Valid h | None \<Rightarrow> False) then Some SET_OPTIONS_INVALID_HOME_DOMAIN
         else None)"

definition put_threshold :: "nat \<Rightarrow> uint32 option \<Rightarrow> AccountFrame \<Rightarrow> AccountFrame" where
  "put_threshold i t f =
     (case t of None \<Rightarrow> f
      | Some w \<Rightarrow> f\<lparr>af_account := (af_account f)\<lparr>a_thresholds := (a_thresholds (af_account f))[i := ucast (w AND 255)]\<rparr>\<rparr>)"

text \<open>
  The flags: cleared, then set; neither may change the authorisation flags of an account that is immutable. On
  an error the frame keeps what was changed before.
\<close>

definition SetOptions_flags :: "SetOptionsOp \<Rightarrow> AccountFrame \<Rightarrow> SetOptionsResult option \<times> AccountFrame" where
  "SetOptions_flags x f =
     (let forbidden = (\<lambda>fl g. case fl of Some w \<Rightarrow> w AND 7 \<noteq> 0 \<and> isImmutableAuth g | None \<Rightarrow> False) in
      if forbidden (so_clearFlags x) f then (Some SET_OPTIONS_CANT_CHANGE, f)
      else let f1 = (case so_clearFlags x of None \<Rightarrow> f
                     | Some w \<Rightarrow> f\<lparr>af_account := (af_account f)\<lparr>a_flags := a_flags (af_account f) AND NOT w\<rparr>\<rparr>)
           in if forbidden (so_setFlags x) f1 then (Some SET_OPTIONS_CANT_CHANGE, f1)
              else (None, case so_setFlags x of None \<Rightarrow> f1
                          | Some w \<Rightarrow> f1\<lparr>af_account := (af_account f1)\<lparr>a_flags := a_flags (af_account f1) OR w\<rparr>\<rparr>))"

text \<open>
  An emission or administration signer is for the account of a bank only, and only when the first signer used
  for the operation is the account itself: the loop over the used signers ends after its first round.
\<close>

definition signerTypeAllowed :: "Signer list \<Rightarrow> Signer \<Rightarrow> AccountFrame \<Rightarrow> bool" where
  "signerTypeAllowed usedSigners sg f \<longleftrightarrow>
     sg_signerType sg = SIGNER_GENERAL \<or>
     (sg_signerType sg = SIGNER_EMISSION \<or> sg_signerType sg = SIGNER_ADMIN) \<and> a_accountType (af_account f) = ACCOUNT_BANK \<and>
       (case usedSigners of [] \<Rightarrow> False | u # _ \<Rightarrow> sg_pubKey u = account_getID f)"

text \<open>The loop that deletes a signer counts one entry less for each it removes.\<close>

fun erase_signer :: "LedgerHeader \<Rightarrow> AccountID \<Rightarrow> Signer list \<Rightarrow> AccountFrame \<Rightarrow> scp_error + (Signer list \<times> AccountFrame)" where
  "erase_signer lm k [] f = Inr ([], f)"
| "erase_signer lm k (s # ss) f =
     (if sg_pubKey s = k then bindE (addNumEntries lm (-1) f) (\<lambda>(_, f1). erase_signer lm k ss f1)
      else bindE (erase_signer lm k ss f) (\<lambda>(ss1, f1). Inr (s # ss1, f1)))"

definition SetOptions_signer ::
  "App \<Rightarrow> Signer list \<Rightarrow> Signer \<Rightarrow> AccountFrame \<Rightarrow> scp_error + (SetOptionsResult option \<times> AccountFrame)"
where
  "SetOptions_signer app usedSigners sg f =
     (let signers = a_signers (af_account f) in
      if \<not> signerTypeAllowed usedSigners sg f then Inr (Some SET_OPTIONS_BAD_SIGNER_TYPE, f)
      else if sg_weight sg \<noteq> 0
      then if \<exists>s \<in> set signers. sg_pubKey s = sg_pubKey sg
           then Inr (None, setUpdateSigners (f\<lparr>af_account := (af_account f)\<lparr>a_signers :=
                  map (\<lambda>s. if sg_pubKey s = sg_pubKey sg then s\<lparr>sg_weight := sg_weight sg\<rparr> else s) signers\<rparr>\<rparr>))
           else if length signers = MAX_SIGNERS then Inr (Some SET_OPTIONS_TOO_MANY_SIGNERS, f)
           else bindE (addNumEntries (ledgerHeader app) 1 f) (\<lambda>(ok, f1).
                  if \<not> ok then Inr (Some SET_OPTIONS_LOW_RESERVE, f1)
                  else Inr (None, setUpdateSigners (f1\<lparr>af_account := (af_account f1)\<lparr>a_signers := signers @ [sg]\<rparr>\<rparr>)))
      else bindE (erase_signer (ledgerHeader app) (sg_pubKey sg) signers f) (\<lambda>(signers1, f1).
             Inr (None, setUpdateSigners (f1\<lparr>af_account := (af_account f1)\<lparr>a_signers := signers1\<rparr>\<rparr>))))"

definition SetOptions_doApply ::
  "App \<Rightarrow> Signer list \<Rightarrow> SetOptionsOp \<Rightarrow> AccountFrame \<Rightarrow> (SetOptionsResult \<times> AccountFrame) led"
where
  "SetOptions_doApply app usedSigners x src =
     bindL (case so_inflationDest x of
              None \<Rightarrow> returnL (Some src)
            | Some i \<Rightarrow> bindL (loadAccount i) (\<lambda>a.
                returnL (if a = None then None else Some (src\<lparr>af_account := (af_account src)\<lparr>a_inflationDest := Some i\<rparr>\<rparr>)))) (\<lambda>s1.
     case s1 of
       None \<Rightarrow> returnL (SET_OPTIONS_INVALID_INFLATION, src)
     | Some src1 \<Rightarrow>
         (case SetOptions_flags x src1 of
            (Some e, src2) \<Rightarrow> returnL (e, src2)
          | (None, src2) \<Rightarrow>
              let src3 = (case so_homeDomain x of None \<Rightarrow> src2 | Some h \<Rightarrow> src2\<lparr>af_account := (af_account src2)\<lparr>a_homeDomain := h\<rparr>\<rparr>);
                  src4 = put_threshold 3 (so_highThreshold x) (put_threshold 2 (so_medThreshold x)
                           (put_threshold 1 (so_lowThreshold x) (put_threshold 0 (so_masterWeight x) src3)))
              in bindL (liftE (case so_signer x of None \<Rightarrow> Inr (None, src4) | Some sg \<Rightarrow> SetOptions_signer app usedSigners sg src4)) (\<lambda>(e, src5).
                   case e of
                     Some e \<Rightarrow> returnL (e, src5)
                   | None \<Rightarrow> bindL (account_storeChange src5) (\<lambda>src6. returnL (SET_OPTIONS_SUCCESS, src6)))))"

section \<open>Account merge\<close>

definition Merge_doCheckValid :: "App \<Rightarrow> AccountID option \<Rightarrow> AccountID \<Rightarrow> AccountMergeResult option" where
  "Merge_doCheckValid app sourceAccount destination =
     (case sourceAccount of
        None \<Rightarrow> Some ACCOUNT_MERGE_MALFORMED
      | Some i \<Rightarrow> if i = destination then Some ACCOUNT_MERGE_MALFORMED
                  else if i = BANK_MASTER_KEY app then Some ACCOUNT_MERGE_MALFORMED
                  else None)"

definition Merge_doApply :: "AccountID \<Rightarrow> AccountFrame \<Rightarrow> AccountMergeResult led" where
  "Merge_doApply destination src =
     bindL (loadAccount destination) (\<lambda>acc. case acc of
       None \<Rightarrow> returnL ACCOUNT_MERGE_NO_ACCOUNT
     | Some otherAccount \<Rightarrow>
         if isImmutableAuth src then returnL ACCOUNT_MERGE_IMMUTABLE_SET
         else if unat (a_numSubEntries (af_account src)) \<noteq> length (a_signers (af_account src))
         then returnL ACCOUNT_MERGE_HAS_SUB_ENTRIES
         else let sourceBalance = a_balance (af_account src) in
              bindL (liftE (i64 (a_balance (af_account otherAccount) + sourceBalance))) (\<lambda>b.
              bindL (account_storeChange (otherAccount\<lparr>af_account := (af_account otherAccount)\<lparr>a_balance := b\<rparr>\<rparr>)) (\<lambda>_.
              bindL (account_storeDelete (account_getID src)) (\<lambda>_.
                returnL (ACCOUNT_MERGE_SUCCESS sourceBalance)))))"

section \<open>Administrative operations\<close>

definition Administrative_doCheckValid :: "App \<Rightarrow> AccountID \<Rightarrow> Signer list \<Rightarrow> bytes \<Rightarrow> AdministrativeResult option" where
  "Administrative_doCheckValid app sourceID usedSigners opData =
     (if opData = [] then Some ADMINISTRATIVE_MALFORMED
      else if sourceID \<noteq> BANK_MASTER_KEY app then Some ADMINISTRATIVE_NOT_AUTHORIZED
      else if \<not> (usedSigners \<noteq> [] \<and> list_all (\<lambda>s. sg_signerType s = SIGNER_ADMIN) usedSigners) then Some ADMINISTRATIVE_NOT_AUTHORIZED
      else None)"

section \<open>Inflation\<close>

text \<open>
  The query of \<^verbatim>\<open>processForInflation\<close>: for every destination the sum of the balances that vote for it, in the order
  of the votes and then of the text of the key, both descending.
\<close>

definition inflation_votes :: "Database \<Rightarrow> AccountID \<Rightarrow> int" where
  "inflation_votes db dest =
     sum_list (map (\<lambda>(_, r). ar_balance r)
       (filter (\<lambda>(_, r). ar_inflationdest r = Some dest \<and> ar_balance r \<ge> 1000000000) (tb_accounts db)))"

definition inflation_dests :: "Database \<Rightarrow> AccountID list" where
  "inflation_dests db =
     remdups (List.map_filter (\<lambda>(_, r). if ar_balance r \<ge> 1000000000 then ar_inflationdest r else None) (tb_accounts db))"

definition processForInflation :: "(AccountID \<Rightarrow> bytes) \<Rightarrow> nat \<Rightarrow> Database \<Rightarrow> scp_error + (AccountID \<times> int64) list" where
  "processForInflation strkey maxWinners db =
     bindE (mapE (\<lambda>i. bindE (i64 (inflation_votes db i)) (\<lambda>v. Inr (i, v))) (inflation_dests db)) (\<lambda>rows.
       Inr (take maxWinners (rev (sort_key (\<lambda>(i, v). (v, strkey i)) rows))))"

text \<open>The loop over the winners; the header of the nested delta is updated as it goes.\<close>

fun doleWinners :: "int64 \<Rightarrow> int64 \<Rightarrow> (AccountID \<times> int64) list \<Rightarrow> int64 \<Rightarrow> ((AccountID \<times> int64) list \<times> int64) led" where
  "doleWinners amountToDole totalVotes [] left = returnL ([], left)"
| "doleWinners amountToDole totalVotes ((dest, votes) # ws) left =
     bindL (liftE (bigDivide_throw amountToDole votes totalVotes)) (\<lambda>n.
     if n = 0 then doleWinners amountToDole totalVotes ws left
     else bindL (loadAccount dest) (\<lambda>acc. case acc of
            None \<Rightarrow> doleWinners amountToDole totalVotes ws left
          | Some winner \<Rightarrow>
              bindL (liftE (i64 (left - n))) (\<lambda>left1.
              bindL (inHeader (\<lambda>h. bindE (i64 (lh_totalCoins h + n)) (\<lambda>c. Inr (h\<lparr>lh_totalCoins := c\<rparr>)))) (\<lambda>_.
              bindL (liftE (i64 (a_balance (af_account winner) + n))) (\<lambda>b.
              bindL (account_storeChange (winner\<lparr>af_account := (af_account winner)\<lparr>a_balance := b\<rparr>\<rparr>)) (\<lambda>_.
              bindL (doleWinners amountToDole totalVotes ws left1) (\<lambda>(payouts, left2).
                returnL ((dest, n) # payouts, left2))))))))"

definition Inflation_doApply :: "App \<Rightarrow> InflationResult led" where
  "Inflation_doApply app =
     bindL getDelta (\<lambda>d.
     let lcl = mCurrentHeader d;
         inflationTime = sint (1404172800 + ucast (lh_inflationSeq lcl) * 604800 :: uint64)
     in if sint (sv_closeTime (lh_scpValue lcl)) < inflationTime then returnL INFLATION_NOT_TIME
        else nestedL (
          bindL (liftE (bigDivide_throw (lh_totalCoins lcl) 500000000 1000000000000)) (\<lambda>minBalance.
          bindL (withDB (\<lambda>db. bindE (processForInflation (toStrKey app) 2000 db) (\<lambda>rows. Inr (rows, db)))) (\<lambda>rows.
          bindL (liftE (bigDivide_throw (lh_totalCoins lcl) 190721000 1000000000000)) (\<lambda>dole.
          bindL (liftE (i64 (dole + lh_feePool lcl))) (\<lambda>amountToDole.
          bindL (inHeader (\<lambda>h. Inr (h\<lparr>lh_feePool := 0, lh_inflationSeq := lh_inflationSeq h + 1\<rparr>))) (\<lambda>_.
          bindL (doleWinners amountToDole (lh_totalCoins lcl) (takeWhile (\<lambda>(_, v). v \<ge> minBalance) rows) amountToDole) (\<lambda>(payouts, left).
          bindL (inHeader (\<lambda>h. bindE (i64 (lh_feePool h + left)) (\<lambda>p. Inr (h\<lparr>lh_feePool := p\<rparr>)))) (\<lambda>_.
            returnL (INFLATION_SUCCESS payouts))))))))))"

end
