(* ===== verification/Payments.thy ===== *)
theory Payments
  imports Operations
begin

text \<open>
  Creating accounts and paying: \<^verbatim>\<open>CreateAccountOpFrame\<close>, \<^verbatim>\<open>PathPaymentOpFrame\<close>, \<^verbatim>\<open>PaymentOpFrame\<close>,
  \<^verbatim>\<open>PaymentExternalOpFrame\<close> and \<^verbatim>\<open>PaymentReversalOpFrame\<close>. A payment of any kind is a path payment, and a commission
  that the fee of the operation names goes to the commission account of the bank.
\<close>

section \<open>Create account\<close>

definition CreateAccount_doCheckValid :: "App \<Rightarrow> AccountID \<Rightarrow> CreateAccountOp \<Rightarrow> CreateAccountResult option" where
  "CreateAccount_doCheckValid app sourceID x =
     (let bad = (case cr_body x of
                   ScratchCardBody scratchCard \<Rightarrow>
                     if sc_amount scratchCard \<le> 0 then Some CREATE_ACCOUNT_MALFORMED
                     else if \<not> isAssetValid_issuer (app_getIssuer app) (sc_asset scratchCard) then Some CREATE_ACCOUNT_MALFORMED
                     else None
                 | AccountBody t \<Rightarrow>
                     if t = ACCOUNT_ANONYMOUS_USER then None
                     else if t \<in> {ACCOUNT_REGISTERED_USER, ACCOUNT_MERCHANT, ACCOUNT_DISTRIBUTION_AGENT, ACCOUNT_SETTLEMENT_AGENT,
                                  ACCOUNT_EXCHANGE_AGENT}
                     then if sourceID = BANK_MASTER_KEY app then None else Some CREATE_ACCOUNT_NOT_AUTHORIZED_TYPE
                     else Some CREATE_ACCOUNT_WRONG_TYPE)
      in case bad of
           Some e \<Rightarrow> Some e
         | None \<Rightarrow> if cr_destination x = sourceID then Some CREATE_ACCOUNT_MALFORMED else None)"

text \<open>
  \<^verbatim>\<open>doApply\<close> up to the payment that fills a scratch card, with the frame \<^verbatim>\<open>mDestAccount\<close>. For other accounts it is
  the whole of \<^verbatim>\<open>doApply\<close>.
\<close>

definition CreateAccount_add :: "CreateAccountOp \<Rightarrow> AccountFrame \<Rightarrow> (CreateAccountResult \<times> AccountFrame option) led" where
  "CreateAccount_add x src =
     bindL (loadAccount (cr_destination x)) (\<lambda>dest.
     if body_accountType (cr_body x) = ACCOUNT_SCRATCH_CARD \<and> a_accountType (af_account src) \<noteq> ACCOUNT_DISTRIBUTION_AGENT
     then returnL (CREATE_ACCOUNT_WRONG_TYPE, dest)
     else case dest of
            Some d \<Rightarrow> returnL (CREATE_ACCOUNT_ALREADY_EXIST, dest)
          | None \<Rightarrow>
              let f = AccountFrame_id (cr_destination x) in
              bindL (account_storeAdd (f\<lparr>af_account := (af_account f)\<lparr>a_seqNum := 0, a_accountType := body_accountType (cr_body x)\<rparr>\<rparr>)) (\<lambda>f1.
                returnL (CREATE_ACCOUNT_SUCCESS, Some f1)))"

section \<open>Path payment\<close>

definition commission :: "OperationFee \<Rightarrow> int64" where
  "commission fee = (case fee of opFEE_NONE \<Rightarrow> 0 | opFEE_CHARGED _ amount \<Rightarrow> amount)"

definition fee_malformed :: "OperationFee \<Rightarrow> Asset \<Rightarrow> bool" where
  "fee_malformed fee asset = (case fee of opFEE_NONE \<Rightarrow> False | opFEE_CHARGED a amount \<Rightarrow> a \<noteq> asset \<or> amount < 0)"

definition PathPayment_doCheckValid :: "App \<Rightarrow> OperationFee \<Rightarrow> PathPaymentOp \<Rightarrow> scp_error + PathPaymentResult option" where
  "PathPayment_doCheckValid app fee x =
     (if fee_malformed fee (pp_destAsset x) then Inr (Some PATH_PAYMENT_MALFORMED)
      else bindE (i64 (pp_destAmount x - commission fee)) (\<lambda>n.
        Inr (if n \<le> 0 \<or> pp_sendMax x \<le> 0 then Some PATH_PAYMENT_MALFORMED
             else if \<not> isAssetValid_issuer (app_getIssuer app) (pp_sendAsset x) \<or>
                     \<not> isAssetValid_issuer (app_getIssuer app) (pp_destAsset x) then Some PATH_PAYMENT_MALFORMED
             else if \<not> list_all (isAssetValid_issuer (app_getIssuer app)) (pp_path x) then Some PATH_PAYMENT_MALFORMED
             else None)))"

text \<open>The line of the commission account in an asset, created when there is none.\<close>

definition getCommissionDest :: "App \<Rightarrow> AccountFrame \<Rightarrow> Asset \<Rightarrow> TrustFrame option led" where
  "getCommissionDest app commissionDest asset =
     bindL (loadTrustLine (account_getID commissionDest) asset) (\<lambda>line. case line of
       Some l \<Rightarrow> returnL (Some l)
     | None \<Rightarrow>
         bindL (liftE (getIssuer asset)) (\<lambda>i.
         bindL (loadAccount i) (\<lambda>acc.
         bindL (liftE (assertE (acc \<noteq> None))) (\<lambda>_.
         bindL (liftE (deref acc)) (\<lambda>iss.
         bindL (liftE (addNumEntries (ledgerHeader app) 1 commissionDest)) (\<lambda>(ok, commissionDest1).
           if \<not> ok then returnL None
           else bindL (account_storeChange commissionDest1) (\<lambda>_.
                bindL (trust_storeAdd (setAuthorized (\<not> isAuthRequired iss)
                         (TrustFrame_new (account_getID commissionDest) asset INT64_MAX))) (\<lambda>l.
                  returnL (Some l)))))))))"

definition createDestination :: "App \<Rightarrow> AccountID \<Rightarrow> AccountID \<Rightarrow> AccountFrame \<Rightarrow> AccountFrame option led" where
  "createDestination app sourceID destination src =
     (let x = \<lparr>cr_destination = destination, cr_body = AccountBody ACCOUNT_ANONYMOUS_USER\<rparr> in
      bindL (case CreateAccount_doCheckValid app sourceID x of
               Some e \<Rightarrow> returnL (e, None)
             | None \<Rightarrow> CreateAccount_add x src) (\<lambda>(r, dest).
        case r of
          CREATE_ACCOUNT_SUCCESS \<Rightarrow> returnL dest
        | CREATE_ACCOUNT_UNDERFUNDED \<Rightarrow> returnL None
        | CREATE_ACCOUNT_LOW_RESERVE \<Rightarrow> returnL None
        | CREATE_ACCOUNT_NOT_AUTHORIZED_TYPE \<Rightarrow> returnL None
        | CREATE_ACCOUNT_MALFORMED \<Rightarrow> throwL (Runtime_Error ''Failed to create account - create account op is malformed'')
        | CREATE_ACCOUNT_ALREADY_EXIST \<Rightarrow> throwL (Runtime_Error ''Failed to create account - already exists'')
        | CREATE_ACCOUNT_WRONG_TYPE \<Rightarrow> throwL (Runtime_Error ''Failed to create account - wrong type'')
        | _ \<Rightarrow> throwL (Runtime_Error ''Unexpected error code from createAccount'')))"

text \<open>The destination: loaded, or created together with its trust line. \<open>None\<close> stands for the error \<^verbatim>\<open>NO_DESTINATION\<close>.\<close>

definition PathPayment_destination :: "App \<Rightarrow> AccountID \<Rightarrow> PathPaymentOp \<Rightarrow> AccountFrame \<Rightarrow> AccountFrame option led" where
  "PathPayment_destination app sourceID x src =
     bindL (loadAccount (pp_destination x)) (\<lambda>acc. case acc of
       Some d \<Rightarrow> returnL (Some d)
     | None \<Rightarrow>
         bindL (createDestination app sourceID (pp_destination x) src) (\<lambda>dest. case dest of
           None \<Rightarrow> returnL None
         | Some d \<Rightarrow>
             if pp_destAsset x = AssetNative then returnL (Some d)
             else bindL (createTrustLine app d (pp_destAsset x)) (\<lambda>(line, d1).
                    returnL (if line = None then None else Some d1))))"

text \<open>The last balance of the chain: the destination and the commission account get their shares of the last asset.\<close>

definition PathPayment_credit_native ::
  "int64 \<Rightarrow> int64 \<Rightarrow> AccountFrame \<Rightarrow> AccountFrame \<Rightarrow> PathPaymentResult option led"
where
  "PathPayment_credit_native received charged destination commissionDestination =
     (if a_accountType (af_account destination) = ACCOUNT_SCRATCH_CARD then returnL (Some PATH_PAYMENT_NO_DESTINATION)
      else bindL (liftE (i64 (a_balance (af_account destination) + received))) (\<lambda>b1.
           bindL (liftE (i64 (a_balance (af_account commissionDestination) + charged))) (\<lambda>b2.
           bindL (account_storeChange (destination\<lparr>af_account := (af_account destination)\<lparr>a_balance := b1\<rparr>\<rparr>)) (\<lambda>_.
           bindL (account_storeChange (commissionDestination\<lparr>af_account := (af_account commissionDestination)\<lparr>a_balance := b2\<rparr>\<rparr>)) (\<lambda>_.
             returnL None)))))"

definition PathPayment_credit_line ::
  "App \<Rightarrow> bool \<Rightarrow> PathPaymentOp \<Rightarrow> int64 \<Rightarrow> int64 \<Rightarrow> AccountFrame \<Rightarrow> AccountFrame \<Rightarrow> PathPaymentResult option led"
where
  "PathPayment_credit_line app isCreate x received charged destination commissionDestination =
     (let curB = pp_destAsset x in
      bindL (loadTrustLineIssuer (pp_destination x) curB) (\<lambda>(tl, iss).
      if iss = None then returnL (Some (PATH_PAYMENT_NO_ISSUER curB))
      else bindL (case tl of Some l \<Rightarrow> returnL (Some l)
                  | None \<Rightarrow> bindL (createTrustLine app destination curB) (\<lambda>(l, _). returnL l)) (\<lambda>line.
      bindL (liftE (deref line)) (\<lambda>destLine.
      if \<not> isAuthorized destLine then returnL (Some PATH_PAYMENT_NOT_AUTHORIZED)
      else if a_accountType (af_account destination) = ACCOUNT_SCRATCH_CARD \<and> \<not> isCreate
      then returnL (Some PATH_PAYMENT_NO_DESTINATION)
      else bindL (liftE (addBalance received destLine)) (\<lambda>(ok, destLine1).
      if \<not> ok then returnL (Some PATH_PAYMENT_LINE_FULL)
      else bindL (getCommissionDest app commissionDestination curB) (\<lambda>cline. case cline of
        None \<Rightarrow> returnL (Some PATH_PAYMENT_NO_DESTINATION)
      | Some commissionDestLine \<Rightarrow>
      bindL (liftE (addBalance charged commissionDestLine)) (\<lambda>(ok2, commissionDestLine1).
      if \<not> ok2 then returnL (Some PATH_PAYMENT_LINE_FULL)
      else bindL (trust_storeChange commissionDestLine1) (\<lambda>_.
           bindL (trust_storeChange destLine1) (\<lambda>_.
             returnL None)))))))))"

text \<open>
  The walk over the path, which is given from its end: the asset and amount that are needed and the offers taken
  so far are carried along. The first result is the error, if any.
\<close>

fun walkPath ::
  "App \<Rightarrow> AccountID \<Rightarrow> Asset list \<Rightarrow> Asset \<Rightarrow> int64 \<Rightarrow> ClaimOfferAtom list \<Rightarrow>
    (PathPaymentResult option \<times> Asset \<times> int64 \<times> ClaimOfferAtom list) led"
where
  "walkPath app sourceID [] curB need offers = returnL (None, curB, need, offers)"
| "walkPath app sourceID (curA # path) curB need offers =
     (if curA = curB then walkPath app sourceID path curB need offers
      else bindL (if curA = AssetNative then returnL True
                  else bindL (liftE (getIssuer curA)) (\<lambda>i. bindL (loadAccount i) (\<lambda>a. returnL (a \<noteq> None)))) (\<lambda>hasIssuer.
      if \<not> hasIssuer then returnL (Some (PATH_PAYMENT_NO_ISSUER curA), curB, need, offers)
      else bindL (convertWithOffers (app_fuel app) (app_fdiv app) (ledgerHeader app) curA INT64_MAX curB need
                   (\<lambda>ofr. if o_sellerID (of_offer ofr) = sourceID then eStop else eKeep)) (\<lambda>(r, ex).
           if r = eFilterStop then returnL (Some PATH_PAYMENT_OFFER_CROSS_SELF, curB, need, offers)
           else if r = eOK \<and> need = ex_wheatReceived ex
           then walkPath app sourceID path curA (ex_sheepSend ex) (mOfferTrail ex @ offers)
           else returnL (Some PATH_PAYMENT_TOO_FEW_OFFERS, curB, need, offers))))"

text \<open>The last step: the source sends the first asset.\<close>

definition PathPayment_debit ::
  "App \<Rightarrow> AccountID \<Rightarrow> Asset \<Rightarrow> int64 \<Rightarrow> AccountFrame \<Rightarrow> (PathPaymentResult option \<times> AccountFrame) led"
where
  "PathPayment_debit app sourceID curB curBSent src =
     (if curB = AssetNative
      then bindL (liftE (i64 (a_balance (af_account src) - curBSent))) (\<lambda>b.
           if b < getMinimumBalance (ledgerHeader app) src then returnL (Some PATH_PAYMENT_UNDERFUNDED, src)
           else bindL (account_storeChange (src\<lparr>af_account := (af_account src)\<lparr>a_balance := b\<rparr>\<rparr>)) (\<lambda>src1.
                  returnL (None, src1)))
      else bindL (loadTrustLineIssuer sourceID curB) (\<lambda>(tl, iss).
           if iss = None then returnL (Some (PATH_PAYMENT_NO_ISSUER curB), src)
           else bindL (case tl of
                         Some l \<Rightarrow> returnL (Some l, src)
                       | None \<Rightarrow> bindL (liftE (getIssuer curB)) (\<lambda>i.
                                   if sourceID = i then createTrustLine app src curB else returnL (None, src))) (\<lambda>(line, src1).
           case line of
             None \<Rightarrow> returnL (Some PATH_PAYMENT_SRC_NO_TRUST, src1)
           | Some sourceLine \<Rightarrow>
               if \<not> isAuthorized sourceLine then returnL (Some PATH_PAYMENT_SRC_NOT_AUTHORIZED, src1)
               else bindL (liftE (addBalance (- curBSent) sourceLine)) (\<lambda>(ok, sourceLine1).
                    if \<not> ok then returnL (Some PATH_PAYMENT_UNDERFUNDED, src1)
                    else bindL (trust_storeChange sourceLine1) (\<lambda>_. returnL (None, src1))))))"

definition PathPayment_doApply ::
  "App \<Rightarrow> AccountID \<Rightarrow> OperationFee \<Rightarrow> bool \<Rightarrow> PathPaymentOp \<Rightarrow> AccountFrame \<Rightarrow> (PathPaymentResult \<times> AccountFrame) led"
where
  "PathPayment_doApply app sourceID fee isCreate x src =
     bindL (liftE (i64 (pp_destAmount x - commission fee))) (\<lambda>received.
     bindL (loadAccount (BANK_COMMISSION_KEY app)) (\<lambda>cacc.
     bindL (liftE (assertE (cacc \<noteq> None))) (\<lambda>_.
     bindL (liftE (deref cacc)) (\<lambda>commissionDestination.
     bindL (PathPayment_destination app sourceID x src) (\<lambda>dacc. case dacc of
       None \<Rightarrow> returnL (PATH_PAYMENT_NO_DESTINATION, src)
     | Some destination \<Rightarrow>
     bindL (if pp_destAsset x = AssetNative
            then PathPayment_credit_native received (commission fee) destination commissionDestination
            else PathPayment_credit_line app isCreate x received (commission fee) destination commissionDestination) (\<lambda>e1. case e1 of
       Some e \<Rightarrow> returnL (e, src)
     | None \<Rightarrow>
     bindL (walkPath app sourceID (rev (pp_sendAsset x # pp_path x)) (pp_destAsset x) (pp_destAmount x) []) (\<lambda>(e2, curB, curBSent, offers).
     case e2 of
       Some e \<Rightarrow> returnL (e, src)
     | None \<Rightarrow>
     if curBSent > pp_sendMax x then returnL (PATH_PAYMENT_OVER_SENDMAX, src)
     else bindL (PathPayment_debit app sourceID curB curBSent src) (\<lambda>(e3, src1).
            returnL (case e3 of
                       Some e \<Rightarrow> e
                     | None \<Rightarrow> PATH_PAYMENT_SUCCESS offers (pp_destination x, pp_destAsset x, received), src1)))))))))"

text \<open>\<^verbatim>\<open>doCheckValid\<close> followed by \<^verbatim>\<open>doApply\<close>, as the operations built on a path payment call them.\<close>

definition PathPayment_run ::
  "App \<Rightarrow> AccountID \<Rightarrow> OperationFee \<Rightarrow> bool \<Rightarrow> PathPaymentOp \<Rightarrow> AccountFrame \<Rightarrow> (PathPaymentResult \<times> AccountFrame) led"
where
  "PathPayment_run app sourceID fee isCreate x src =
     bindL (liftE (PathPayment_doCheckValid app fee x)) (\<lambda>e. case e of
       Some e \<Rightarrow> returnL (e, src)
     | None \<Rightarrow> PathPayment_doApply app sourceID fee isCreate x src)"

definition directPayment :: "AccountID \<Rightarrow> Asset \<Rightarrow> int64 \<Rightarrow> PathPaymentOp" where
  "directPayment destination asset amount =
     \<lparr>pp_sendAsset = asset, pp_sendMax = amount, pp_destination = destination, pp_destAsset = asset, pp_destAmount = amount, pp_path = []\<rparr>"

section \<open>Payment\<close>

fun payment_code :: "PathPaymentResult \<Rightarrow> scp_error + PaymentResult" where
  "payment_code (PATH_PAYMENT_SUCCESS _ _) = Inr PAYMENT_SUCCESS"
| "payment_code PATH_PAYMENT_UNDERFUNDED = Inr PAYMENT_UNDERFUNDED"
| "payment_code PATH_PAYMENT_SRC_NOT_AUTHORIZED = Inr PAYMENT_SRC_NOT_AUTHORIZED"
| "payment_code PATH_PAYMENT_SRC_NO_TRUST = Inr PAYMENT_SRC_NO_TRUST"
| "payment_code PATH_PAYMENT_NO_DESTINATION = Inr PAYMENT_NO_DESTINATION"
| "payment_code PATH_PAYMENT_NO_TRUST = Inr PAYMENT_NO_TRUST"
| "payment_code PATH_PAYMENT_NOT_AUTHORIZED = Inr PAYMENT_NOT_AUTHORIZED"
| "payment_code PATH_PAYMENT_LINE_FULL = Inr PAYMENT_LINE_FULL"
| "payment_code (PATH_PAYMENT_NO_ISSUER _) = Inr PAYMENT_NO_ISSUER"
| "payment_code _ = Inl (Runtime_Error ''Unexpected error code from pathPayment'')"

definition payment_malformed :: "App \<Rightarrow> OperationFee \<Rightarrow> Asset \<Rightarrow> int64 \<Rightarrow> scp_error + bool" where
  "payment_malformed app fee asset amount =
     (if fee_malformed fee asset then Inr True
      else bindE (i64 (amount - commission fee)) (\<lambda>n.
        Inr (n \<le> 0 \<or> \<not> isAssetValid_issuer (app_getIssuer app) asset)))"

definition Payment_doCheckValid :: "App \<Rightarrow> OperationFee \<Rightarrow> PaymentOp \<Rightarrow> scp_error + PaymentResult option" where
  "Payment_doCheckValid app fee x =
     bindE (payment_malformed app fee (pay_asset x) (pay_amount x)) (\<lambda>b. Inr (if b then Some PAYMENT_MALFORMED else None))"

definition Payment_doApply ::
  "App \<Rightarrow> AccountID \<Rightarrow> OperationFee \<Rightarrow> PaymentOp \<Rightarrow> AccountFrame \<Rightarrow> (PaymentResult \<times> AccountFrame) led"
where
  "Payment_doApply app sourceID fee x src =
     (if pay_destination x = sourceID then returnL (PAYMENT_SUCCESS, src)
      else bindL (PathPayment_run app sourceID fee False (directPayment (pay_destination x) (pay_asset x) (pay_amount x)) src) (\<lambda>(r, src1).
           bindL (liftE (payment_code r)) (\<lambda>c. returnL (c, src1))))"

definition PaymentExternal_doCheckValid :: "App \<Rightarrow> OperationFee \<Rightarrow> ExternalPaymentOp \<Rightarrow> scp_error + PaymentResult option" where
  "PaymentExternal_doCheckValid app fee x =
     bindE (payment_malformed app fee (ext_asset x) (ext_amount x)) (\<lambda>b. Inr (if b then Some PAYMENT_MALFORMED else None))"

definition PaymentExternal_doApply ::
  "App \<Rightarrow> AccountID \<Rightarrow> OperationFee \<Rightarrow> ExternalPaymentOp \<Rightarrow> AccountFrame \<Rightarrow> (PaymentResult \<times> AccountFrame) led"
where
  "PaymentExternal_doApply app sourceID fee x src =
     bindL (PathPayment_run app sourceID fee False (directPayment (ext_exchangeAgent x) (ext_asset x) (ext_amount x)) src) (\<lambda>(r, src1).
     bindL (liftE (payment_code r)) (\<lambda>c. returnL (c, src1)))"

section \<open>Scratch cards\<close>

fun scratch_code :: "PathPaymentResult \<Rightarrow> scp_error + CreateAccountResult" where
  "scratch_code (PATH_PAYMENT_SUCCESS _ _) = Inr CREATE_ACCOUNT_SUCCESS"
| "scratch_code PATH_PAYMENT_UNDERFUNDED = Inr CREATE_ACCOUNT_UNDERFUNDED"
| "scratch_code PATH_PAYMENT_SRC_NO_TRUST = Inr CREATE_ACCOUNT_UNDERFUNDED"
| "scratch_code PATH_PAYMENT_SRC_NOT_AUTHORIZED = Inr CREATE_ACCOUNT_NOT_AUTHORIZED_TYPE"
| "scratch_code PATH_PAYMENT_LINE_FULL = Inr CREATE_ACCOUNT_LINE_FULL"
| "scratch_code (PATH_PAYMENT_NO_ISSUER _) = Inr CREATE_ACCOUNT_NO_ISSUER"
| "scratch_code _ = Inl (Runtime_Error ''Unexpected error code from pathPayment'')"

definition doApplyCreateScratch ::
  "App \<Rightarrow> AccountID \<Rightarrow> OperationFee \<Rightarrow> AccountID \<Rightarrow> ScratchCard \<Rightarrow> AccountFrame \<Rightarrow> (CreateAccountResult \<times> AccountFrame) led"
where
  "doApplyCreateScratch app sourceID fee destination scratchCard src =
     bindL (PathPayment_run app sourceID fee True (directPayment destination (sc_asset scratchCard) (sc_amount scratchCard)) src) (\<lambda>(r, src1).
     bindL (liftE (scratch_code r)) (\<lambda>c. returnL (c, src1)))"

definition CreateAccount_doApply ::
  "App \<Rightarrow> AccountID \<Rightarrow> OperationFee option \<Rightarrow> CreateAccountOp \<Rightarrow> AccountFrame \<Rightarrow> (CreateAccountResult \<times> AccountFrame) led"
where
  "CreateAccount_doApply app sourceID fee x src =
     bindL (CreateAccount_add x src) (\<lambda>(r, _).
       case cr_body x of
         ScratchCardBody scratchCard \<Rightarrow>
           if r = CREATE_ACCOUNT_SUCCESS
           then bindL (liftE (deref fee)) (\<lambda>fee. doApplyCreateScratch app sourceID fee (cr_destination x) scratchCard src)
           else returnL (r, src)
       | AccountBody _ \<Rightarrow> returnL (r, src))"

section \<open>Reversing a payment\<close>

definition PaymentReversal_doCheckValid :: "App \<Rightarrow> PaymentReversalOp \<Rightarrow> PaymentReversalResult option" where
  "PaymentReversal_doCheckValid app x =
     (if pr_amount x \<le> 0 then Some PAYMENT_REVERSAL_MALFORMED
      else if pr_commissionAmount x < 0 then Some PAYMENT_REVERSAL_MALFORMED
      else if \<not> isAssetValid_issuer (app_getIssuer app) (pr_asset x) \<or> pr_asset x = AssetNative then Some PAYMENT_REVERSAL_MALFORMED
      else None)"

text \<open>\<open>False\<close> when the payment was reversed before; otherwise the reversal is noted.\<close>

definition checkAlreadyReversed :: "int64 \<Rightarrow> bool led" where
  "checkAlreadyReversed paymentID =
     bindL (withDB (\<lambda>db. Inr (reversed_exists paymentID db, db))) (\<lambda>alreadyReversed.
       if alreadyReversed then returnL False
       else bindL (reversed_storeAdd \<lparr>rf_payment = \<lparr>r_rID = paymentID\<rparr>, rf_lastModified = 0\<rparr>) (\<lambda>_. returnL True))"

text \<open>The share of the commission account, and that of the source of the reversal, who received the payment.\<close>

definition reverse_commission :: "App \<Rightarrow> PaymentReversalOp \<Rightarrow> bool led" where
  "reverse_commission app x =
     bindL (loadTrustLine (BANK_COMMISSION_KEY app) (pr_asset x)) (\<lambda>cline. case cline of
       None \<Rightarrow> returnL False
     | Some l \<Rightarrow>
         bindL (liftE (addBalance (- pr_commissionAmount x) l)) (\<lambda>(ok, l1).
           if \<not> ok then returnL False else bindL (trust_storeChange l1) (\<lambda>_. returnL True)))"

definition reverse_source :: "App \<Rightarrow> AccountID \<Rightarrow> PaymentReversalOp \<Rightarrow> AccountFrame \<Rightarrow> (PaymentReversalResult option \<times> AccountFrame) led" where
  "reverse_source app sourceID x src =
     bindL (loadTrustLineIssuer sourceID (pr_asset x)) (\<lambda>(tl, iss).
     if iss = None then returnL (Some PAYMENT_REVERSAL_NO_ISSUER, src)
     else bindL (case tl of
                   Some l \<Rightarrow> returnL (Some l, src)
                 | None \<Rightarrow> bindL (liftE (getIssuer (pr_asset x))) (\<lambda>i.
                             if sourceID = i then createTrustLine app src (pr_asset x) else returnL (None, src))) (\<lambda>(line, src1).
     case line of
       None \<Rightarrow> returnL (Some PAYMENT_REVERSAL_SRC_NO_TRUST, src1)
     | Some sourceLine \<Rightarrow>
         if \<not> isAuthorized sourceLine then returnL (Some PAYMENT_REVERSAL_SRC_NOT_AUTHORIZED, src1)
         else bindL (liftE (i64 (pr_amount x - pr_commissionAmount x))) (\<lambda>received.
              bindL (liftE (addBalance (- received) sourceLine)) (\<lambda>(ok, l1).
              if \<not> ok then returnL (Some PAYMENT_REVERSAL_UNDERFUNDED, src1)
              else bindL (trust_storeChange l1) (\<lambda>_. returnL (None, src1))))))"

definition reverse_dest :: "App \<Rightarrow> PaymentReversalOp \<Rightarrow> PaymentReversalResult led" where
  "reverse_dest app x =
     bindL (loadTrustLineIssuer (pr_paymentSource x) (pr_asset x)) (\<lambda>(tl, iss).
     if iss = None then returnL PAYMENT_REVERSAL_NO_ISSUER
     else bindL (case tl of
                   Some l \<Rightarrow> returnL (Some (Some l))
                 | None \<Rightarrow> bindL (loadAccount (pr_paymentSource x)) (\<lambda>acc. case acc of
                             None \<Rightarrow> returnL None
                           | Some d \<Rightarrow> bindL (createTrustLine app d (pr_asset x)) (\<lambda>(l, _). returnL (Some l)))) (\<lambda>found.
     case found of
       None \<Rightarrow> returnL PAYMENT_REVERSAL_NO_PAYMENT_SENDER
     | Some None \<Rightarrow> returnL PAYMENT_REVERSAL_NO_PAYMENT_SENDER_TRUST
     | Some (Some destLine) \<Rightarrow>
         if \<not> isAuthorized destLine then returnL PAYMENT_REVERSAL_PAYMENT_SENDER_NOT_AUTHORIZED
         else bindL (liftE (addBalance (pr_amount x) destLine)) (\<lambda>(ok, l1).
              if \<not> ok then returnL PAYMENT_REVERSAL_PAYMENT_SENDER_LINE_FULL
              else bindL (trust_storeChange l1) (\<lambda>_. returnL PAYMENT_REVERSAL_SUCCESS))))"

text \<open>\<^verbatim>\<open>checkAllowed\<close> always answers yes.\<close>

definition PaymentReversal_doApply ::
  "App \<Rightarrow> AccountID \<Rightarrow> PaymentReversalOp \<Rightarrow> AccountFrame \<Rightarrow> (PaymentReversalResult \<times> AccountFrame) led"
where
  "PaymentReversal_doApply app sourceID x src =
     bindL (checkAlreadyReversed (pr_paymentID x)) (\<lambda>fresh.
     if \<not> fresh then returnL (PAYMENT_REVERSAL_ALREADY_REVERSED, src)
     else bindL (reverse_commission app x) (\<lambda>paid.
     if \<not> paid then returnL (PAYMENT_REVERSAL_COMMISSION_UNDERFUNDED, src)
     else bindL (reverse_source app sourceID x src) (\<lambda>(e, src1).
     case e of
       Some e \<Rightarrow> returnL (e, src1)
     | None \<Rightarrow> bindL (reverse_dest app x) (\<lambda>r. returnL (r, src1)))))"

end
