(* ===== verification/ManageOffer.thy ===== *)
theory ManageOffer
  imports Operations
begin

text \<open>
  \<^verbatim>\<open>ManageOfferOpFrame\<close> and \<^verbatim>\<open>CreatePassiveOfferOpFrame\<close>: an offer to sell one asset (sheep) for another (wheat) is created,
  changed or deleted, after it has taken the offers of the book that cross it. The exchange runs in a transaction of
  the database and on a delta of its own, while the balances of the source are written on the outer delta.
\<close>

section \<open>Validity\<close>

definition ManageOffer_doCheckValid :: "App \<Rightarrow> ManageOfferOp \<Rightarrow> ManageOfferResult option" where
  "ManageOffer_doCheckValid app x =
     (if \<not> isAssetValid_issuer (app_getIssuer app) (mo_selling x) \<or> \<not> isAssetValid_issuer (app_getIssuer app) (mo_buying x)
      then Some MANAGE_OFFER_MALFORMED
      else if compareAsset (mo_selling x) (mo_buying x) then Some MANAGE_OFFER_MALFORMED
      else if mo_amount x < 0 \<or> price_d (mo_price x) \<le> 0 \<or> price_n (mo_price x) \<le> 0 then Some MANAGE_OFFER_MALFORMED
      else None)"

text \<open>\<^verbatim>\<open>checkOfferValid\<close>: the error, if any, and the lines \<^verbatim>\<open>mSheepLineA\<close> and \<^verbatim>\<open>mWheatLineA\<close>.\<close>

definition checkSheep :: "AccountID \<Rightarrow> Asset \<Rightarrow> (ManageOfferResult option \<times> TrustFrame option) led" where
  "checkSheep sourceID sheep =
     (if sheep = AssetNative then returnL (None, None)
      else bindL (loadTrustLineIssuer sourceID sheep) (\<lambda>(line, iss).
        if iss = None then returnL (Some MANAGE_OFFER_SELL_NO_ISSUER, line)
        else case line of
          None \<Rightarrow> returnL (Some MANAGE_OFFER_SELL_NO_TRUST, line)
        | Some l \<Rightarrow> bindL (liftE (trust_getBalance l)) (\<lambda>b.
            returnL (if b = 0 then Some MANAGE_OFFER_UNDERFUNDED
                     else if \<not> isAuthorized l then Some MANAGE_OFFER_SELL_NOT_AUTHORIZED
                     else None, line))))"

definition checkWheat :: "AccountID \<Rightarrow> Asset \<Rightarrow> (ManageOfferResult option \<times> TrustFrame option) led" where
  "checkWheat sourceID wheat =
     (if wheat = AssetNative then returnL (None, None)
      else bindL (loadTrustLineIssuer sourceID wheat) (\<lambda>(line, iss).
        returnL (if iss = None then Some MANAGE_OFFER_BUY_NO_ISSUER
                 else case line of
                   None \<Rightarrow> Some MANAGE_OFFER_BUY_NO_TRUST
                 | Some l \<Rightarrow> if \<not> isAuthorized l then Some MANAGE_OFFER_BUY_NOT_AUTHORIZED else None, line)))"

definition checkOfferValid ::
  "AccountID \<Rightarrow> ManageOfferOp \<Rightarrow> (ManageOfferResult option \<times> TrustFrame option \<times> TrustFrame option) led"
where
  "checkOfferValid sourceID x =
     (if mo_amount x = 0 then returnL (None, None, None)
      else bindL (checkSheep sourceID (mo_selling x)) (\<lambda>(e1, sheepLine).
        if e1 \<noteq> None then returnL (e1, sheepLine, None)
        else bindL (checkWheat sourceID (mo_buying x)) (\<lambda>(e2, wheatLine).
          returnL (e2, sheepLine, wheatLine))))"

definition buildOffer :: "AccountID \<Rightarrow> ManageOfferOp \<Rightarrow> uint32 \<Rightarrow> OfferEntry" where
  "buildOffer account x flags =
     \<lparr>o_sellerID = account, o_offerID = mo_offerID x, o_selling = mo_selling x, o_buying = mo_buying x,
      o_amount = mo_amount x, o_price = mo_price x, o_flags = flags\<rparr>"

section \<open>The exchange\<close>

text \<open>How much sheep can be sold, by the balance; and how much is, by the wheat that can be taken in and by the offer.\<close>

definition sheepCanSell :: "App \<Rightarrow> ManageOfferOp \<Rightarrow> TrustFrame option \<Rightarrow> AccountFrame \<Rightarrow> scp_error + int64" where
  "sheepCanSell app x sheepLine src =
     (if mo_selling x = AssetNative then getBalanceAboveReserve (ledgerHeader app) src
      else bindE (deref sheepLine) trust_getBalance)"

definition sheepToSend :: "ManageOfferOp \<Rightarrow> int64 \<Rightarrow> int64 \<Rightarrow> scp_error + int64" where
  "sheepToSend x canSell maxWheat =
     bindE (bigDivide maxWheat (price_d (mo_price x)) (price_n (mo_price x))) (\<lambda>r.
       let basedOnWheat = (case r of Some n \<Rightarrow> n | None \<Rightarrow> INT64_MAX);
           canSell1 = (if canSell > basedOnWheat then basedOnWheat else canSell)
       in Inr (if canSell1 < mo_amount x then canSell1 else mo_amount x))"

text \<open>The filter of the exchange; the source's own offers are recognised after the test of the price.\<close>

definition crosses_self :: "AccountID \<Rightarrow> bool \<Rightarrow> OfferEntry \<Rightarrow> OfferFrame \<Rightarrow> bool" where
  "crosses_self sourceID passive sell ofr \<longleftrightarrow>
     (let maxWheatPrice = \<lparr>price_n = price_d (o_price sell), price_d = price_n (o_price sell)\<rparr>; p = o_price (of_offer ofr) in
      \<not> (passive \<and> price_ge p maxWheatPrice \<or> price_gt p maxWheatPrice) \<and> o_sellerID (of_offer ofr) = sourceID)"

definition offer_filter :: "AccountID \<Rightarrow> bool \<Rightarrow> OfferEntry \<Rightarrow> OfferFrame \<Rightarrow> OfferFilterResult" where
  "offer_filter sourceID passive sell ofr =
     (let maxWheatPrice = \<lparr>price_n = price_d (o_price sell), price_d = price_n (o_price sell)\<rparr>; p = o_price (of_offer ofr) in
      if o_offerID (of_offer ofr) = o_offerID sell then eSkip
      else if passive \<and> price_ge p maxWheatPrice \<or> price_gt p maxWheatPrice then eStop
      else if o_sellerID (of_offer ofr) = sourceID then eStop
      else eKeep)"

text \<open>What was exchanged is written to the balances of the source, on the outer delta.\<close>

definition settle_line :: "string \<Rightarrow> int64 \<Rightarrow> TrustFrame option \<Rightarrow> unit led" where
  "settle_line message n line =
     bindL (liftE (deref line)) (\<lambda>l.
     bindL (liftE (addBalance n l)) (\<lambda>(ok, l1).
       if \<not> ok then throwL (Runtime_Error message) else bindL (trust_storeChange l1) (\<lambda>_. returnL ())))"

definition settle_native :: "int64 \<Rightarrow> AccountFrame \<Rightarrow> AccountFrame led" where
  "settle_native n src =
     bindL (liftE (i64 (a_balance (af_account src) + n))) (\<lambda>b.
       account_storeChange (src\<lparr>af_account := (af_account src)\<lparr>a_balance := b\<rparr>\<rparr>))"

definition settle_source ::
  "ManageOfferOp \<Rightarrow> int64 \<Rightarrow> int64 \<Rightarrow> TrustFrame option \<Rightarrow> TrustFrame option \<Rightarrow> AccountFrame \<Rightarrow> AccountFrame led"
where
  "settle_source x wheatReceived sheepSent sheepLine wheatLine src =
     bindL (if mo_buying x = AssetNative then settle_native wheatReceived src
            else bindL (settle_line ''offer claimed over limit'' wheatReceived wheatLine) (\<lambda>_. returnL src)) (\<lambda>src1.
       if mo_selling x = AssetNative then settle_native (- sheepSent) src1
       else bindL (settle_line ''offer sold more than balance'' (- sheepSent) sheepLine) (\<lambda>_. returnL src1))"

section \<open>The offer that is left\<close>

definition leaveOffer ::
  "App \<Rightarrow> bool \<Rightarrow> OfferFrame \<Rightarrow> ClaimOfferAtom list \<Rightarrow> AccountFrame \<Rightarrow> (ManageOfferResult \<times> AccountFrame) led"
where
  "leaveOffer app creating offer claims src =
     (if o_amount (of_offer offer) > 0
      then if creating
           then bindL (liftE (addNumEntries (ledgerHeader app) 1 src)) (\<lambda>(ok, src1).
                if \<not> ok then returnL (MANAGE_OFFER_LOW_RESERVE, src1)
                else bindL getDelta (\<lambda>d.
                     let (i, h) = generateID (mCurrentHeader d) in
                     bindL (inHeader (\<lambda>_. Inr h)) (\<lambda>_.
                     bindL (offer_storeAdd (app_fdiv app) (offer\<lparr>of_offer := (of_offer offer)\<lparr>o_offerID := i\<rparr>\<rparr>)) (\<lambda>offer1.
                     bindL (account_storeChange src1) (\<lambda>src2.
                       returnL (MANAGE_OFFER_SUCCESS claims (MANAGE_OFFER_CREATED (of_offer offer1)), src2))))))
           else bindL (offer_storeChange (app_fdiv app) offer) (\<lambda>offer1.
                  returnL (MANAGE_OFFER_SUCCESS claims (MANAGE_OFFER_UPDATED (of_offer offer1)), src))
      else if creating then returnL (MANAGE_OFFER_SUCCESS claims MANAGE_OFFER_DELETED, src)
      else bindL (offer_storeDelete (o_sellerID (of_offer offer)) (o_offerID (of_offer offer))) (\<lambda>_.
           bindL (liftE (addNumEntries (ledgerHeader app) (-1) src)) (\<lambda>(_, src1).
           bindL (account_storeChange src1) (\<lambda>src2.
             returnL (MANAGE_OFFER_SUCCESS claims MANAGE_OFFER_DELETED, src2)))))"

definition exchangeAndLeave ::
  "App \<Rightarrow> AccountID \<Rightarrow> bool \<Rightarrow> bool \<Rightarrow> ManageOfferOp \<Rightarrow> OfferFrame \<Rightarrow> TrustFrame option \<Rightarrow> TrustFrame option \<Rightarrow> AccountFrame \<Rightarrow>
    LedgerDelta \<Rightarrow> ((ManageOfferResult \<times> AccountFrame) \<times> LedgerDelta) led"
where
  "exchangeAndLeave app sourceID passive creating x offer sheepLine wheatLine src outer =
     bindL (liftE (sheepCanSell app x sheepLine src)) (\<lambda>canSell.
     bindL (liftE (if mo_buying x = AssetNative then Inr INT64_MAX else bindE (deref wheatLine) getMaxAmountReceive)) (\<lambda>maxWheat.
     if mo_buying x \<noteq> AssetNative \<and> maxWheat = 0 then returnL ((MANAGE_OFFER_LINE_FULL, src), outer)
     else bindL (liftE (sheepToSend x canSell maxWheat)) (\<lambda>maxSheepSend.
     bindL (convertWithOffers (app_fuel app) (app_fdiv app) (ledgerHeader app) (mo_selling x) maxSheepSend (mo_buying x) maxWheat
              (offer_filter sourceID passive (of_offer offer))) (\<lambda>(r, ex).
     if r = eFilterStop \<and> (case ex_stoppedAt ex of Some ofr \<Rightarrow> crosses_self sourceID passive (of_offer offer) ofr | None \<Rightarrow> False)
     then returnL ((MANAGE_OFFER_CROSS_SELF, src), outer)
     else bindL (if ex_wheatReceived ex > 0
                 then onOuter outer (settle_source x (ex_wheatReceived ex) (ex_sheepSend ex) sheepLine wheatLine src)
                 else returnL (src, outer)) (\<lambda>(src1, outer1).
     bindL (leaveOffer app creating (offer\<lparr>of_offer := (of_offer offer)\<lparr>o_amount := maxSheepSend - ex_sheepSend ex\<rparr>\<rparr>)
              (mOfferTrail ex) src1) (\<lambda>res.
       returnL (res, outer1)))))))"

definition offer_done :: "ManageOfferResult \<times> AccountFrame \<Rightarrow> bool" where
  "offer_done r = inner_succeeded (ManageOfferRes (fst r))"

definition ManageOffer_doApply ::
  "App \<Rightarrow> AccountID \<Rightarrow> bool \<Rightarrow> ManageOfferOp \<Rightarrow> AccountFrame \<Rightarrow> (ManageOfferResult \<times> AccountFrame) led"
where
  "ManageOffer_doApply app sourceID mPassive x src =
     bindL (checkOfferValid sourceID x) (\<lambda>(e, sheepLine, wheatLine). case e of
       Some e \<Rightarrow> returnL (e, src)
     | None \<Rightarrow>
     bindL (if mo_offerID x \<noteq> 0
            then bindL (loadOffer sourceID (mo_offerID x)) (\<lambda>old.
                   returnL (map_option (\<lambda>f. f\<lparr>of_offer := buildOffer sourceID x (o_flags (of_offer f))\<rparr>) old))
            else returnL (Some \<lparr>of_offer = buildOffer sourceID x (if mPassive then 1 else 0), of_lastModified = 0\<rparr>)) (\<lambda>found. case found of
       None \<Rightarrow> returnL (MANAGE_OFFER_NOT_FOUND, src)
     | Some offer \<Rightarrow>
         let passive = (if mo_offerID x \<noteq> 0 then o_flags (of_offer offer) AND 1 \<noteq> 0 else mPassive);
             creating = (mo_offerID x = 0)
         in tempDelta offer_done (\<lambda>outer.
              if mo_amount x = 0
              then bindL (leaveOffer app creating (offer\<lparr>of_offer := (of_offer offer)\<lparr>o_amount := 0\<rparr>\<rparr>) [] src) (\<lambda>res. returnL (res, outer))
              else exchangeAndLeave app sourceID passive creating x offer sheepLine wheatLine src outer)))"

text \<open>A passive offer is managed as a new offer that is passive.\<close>

definition passive_op :: "CreatePassiveOfferOp \<Rightarrow> ManageOfferOp" where
  "passive_op x = \<lparr>mo_selling = cp_selling x, mo_buying = cp_buying x, mo_amount = cp_amount x, mo_price = cp_price x, mo_offerID = 0\<rparr>"

end
