(* ===== verification/Transactions.thy ===== *)
theory Transactions
  imports Payments ManageOffer
begin

text \<open>
  \<^verbatim>\<open>src/transactions/TransactionFrame.cpp\<close> and \<^verbatim>\<open>src/transactions/OperationFrame.cpp\<close>: the validity and the signatures of a
  transaction and of its operations, and how a transaction is applied. Functions that set the code of the result
  return it; \<^verbatim>\<open>txSUCCESS\<close> stands for the value \<^verbatim>\<open>true\<close>.
\<close>

section \<open>The frame\<close>

record TxFrame =
  mEnvelope :: TransactionEnvelope
  mOperations :: "(Operation \<times> OperationFee option) list"
  mSigningAccount :: "AccountFrame option"
  mUsedSignatures :: "bool list"

definition TxFrame_new :: "TransactionEnvelope \<Rightarrow> TxFrame" where
  "TxFrame_new env = \<lparr>mEnvelope = env, mOperations = [], mSigningAccount = None, mUsedSignatures = []\<rparr>"

definition resetSignatureTracker :: "TxFrame \<Rightarrow> TxFrame" where
  "resetSignatureTracker tx =
     tx\<lparr>mSigningAccount := None, mUsedSignatures := replicate (length (env_signatures (mEnvelope tx))) False\<rparr>"

text \<open>An operation without a fee keeps a null pointer.\<close>

definition resetResults :: "TxFrame \<Rightarrow> TxFrame" where
  "resetResults tx =
     (let ops = tx_operations (env_tx (mEnvelope tx)); fees = env_operationFees (mEnvelope tx) in
      tx\<lparr>mOperations := zip ops (map Some (take (length ops) fees) @ replicate (length ops - length fees) None)\<rparr>)"

definition tx_getSourceID :: "TxFrame \<Rightarrow> AccountID" where
  "tx_getSourceID tx = tx_sourceAccount (env_tx (mEnvelope tx))"

definition op_getSourceID :: "TxFrame \<Rightarrow> Operation \<Rightarrow> AccountID" where
  "op_getSourceID tx op = (case op_sourceAccount op of Some i \<Rightarrow> i | None \<Rightarrow> tx_getSourceID tx)"

definition getMinFee :: "App \<Rightarrow> TxFrame \<Rightarrow> int64" where
  "getMinFee app tx = uint (lh_baseFee (ledgerHeader app)) * int (if length (mOperations tx) = 0 then 1 else length (mOperations tx))"

text \<open>\<open>applying\<close> says whether there is a delta. An account that is the signing account is that frame.\<close>

definition tx_loadAccount :: "bool \<Rightarrow> TxFrame \<Rightarrow> AccountID \<Rightarrow> AccountFrame option led" where
  "tx_loadAccount applying tx i =
     (case mSigningAccount tx of
        Some a \<Rightarrow> if account_getID a = i then returnL (Some a) else if applying then loadAccount i else withDB (loadAccount_db i)
      | None \<Rightarrow> if applying then loadAccount i else withDB (loadAccount_db i))"

section \<open>Signatures\<close>

definition hasHint :: "AccountID \<Rightarrow> bytes \<Rightarrow> bool" where
  "hasHint pk hint \<longleftrightarrow> drop (length pk - length hint) pk = hint"

definition is_set_options :: "OperationBody \<Rightarrow> bool" where
  "is_set_options b = (case b of SET_OPTIONS _ \<Rightarrow> True | _ \<Rightarrow> False)"

text \<open>The signers of an account; a bank does not sign for itself, unless all operations set options.\<close>

definition keyWeights :: "TxFrame \<Rightarrow> AccountFrame \<Rightarrow> Signer list" where
  "keyWeights tx f =
     (let a = af_account f;
          skipAccountAsSigner = (a_accountType a = ACCOUNT_BANK \<and> \<not> list_all (\<lambda>(op, _). is_set_options (op_body op)) (mOperations tx))
      in (if \<not> skipAccountAsSigner \<and> a_thresholds a ! 0 \<noteq> 0
          then [\<lparr>sg_pubKey = a_accountID a, sg_weight = ucast (a_thresholds a ! 0), sg_signerType = SIGNER_GENERAL\<rparr>] else []) @ a_signers a)"

definition signed_by :: "App \<Rightarrow> Hash \<Rightarrow> DecoratedSignature \<Rightarrow> Signer \<Rightarrow> bool" where
  "signed_by app h sig s \<longleftrightarrow> hasHint (sg_pubKey s) (ds_hint sig) \<and> verifySig app (sg_pubKey s) (ds_signature sig) h"

text \<open>The inner loop: the first signer that made the signature, and the others.\<close>

fun take_signer :: "(Signer \<Rightarrow> bool) \<Rightarrow> Signer list \<Rightarrow> (Signer \<times> Signer list) option" where
  "take_signer p [] = None"
| "take_signer p (s # ss) = (if p s then Some (s, ss) else map_option (\<lambda>(t, ts). (t, s # ts)) (take_signer p ss))"

text \<open>
  The outer loop over the signatures from position \<open>i\<close> on. The weight is an \<^verbatim>\<open>int\<close> to which an unsigned number is added,
  and it is compared as a signed number. The results are the verdict, the signers used and the marks of the signatures.
\<close>

fun signature_loop ::
  "App \<Rightarrow> Hash \<Rightarrow> uint32 \<Rightarrow> nat \<Rightarrow> DecoratedSignature list \<Rightarrow> Signer list \<Rightarrow> uint32 \<Rightarrow> Signer list \<Rightarrow> bool list \<Rightarrow>
    bool \<times> Signer list \<times> bool list"
where
  "signature_loop app h needed i [] keys weight used marks = (False, used, marks)"
| "signature_loop app h needed i (sig # sigs) keys weight used marks =
     (case take_signer (signed_by app h sig) keys of
        None \<Rightarrow> signature_loop app h needed (i + 1) sigs keys weight used marks
      | Some (s, keys1) \<Rightarrow>
          if sint (weight + sg_weight s) \<ge> sint needed then (True, used @ [s], marks[i := True])
          else signature_loop app h needed (i + 1) sigs keys1 (weight + sg_weight s) (used @ [s]) (marks[i := True]))"

definition checkSignature :: "App \<Rightarrow> TxFrame \<Rightarrow> AccountFrame \<Rightarrow> uint32 \<Rightarrow> bool \<times> Signer list \<times> TxFrame" where
  "checkSignature app tx account neededWeight =
     (case signature_loop app (contentsHash app (env_tx (mEnvelope tx))) neededWeight 0 (env_signatures (mEnvelope tx))
             (keyWeights tx account) 0 [] (mUsedSignatures tx) of
        (ok, used, marks) \<Rightarrow> (ok, used, tx\<lparr>mUsedSignatures := marks\<rparr>))"

definition checkAllSignaturesUsed :: "TxFrame \<Rightarrow> bool" where
  "checkAllSignaturesUsed tx = list_all id (mUsedSignatures tx)"

section \<open>Operations\<close>

text \<open>\<^verbatim>\<open>getNeededThreshold\<close> of the classes.\<close>

fun getNeededThreshold :: "OperationBody \<Rightarrow> AccountFrame \<Rightarrow> uint32" where
  "getNeededThreshold (ALLOW_TRUST _) f = getLowThreshold f"
| "getNeededThreshold INFLATION f = getLowThreshold f"
| "getNeededThreshold (ACCOUNT_MERGE _) f = getHighThreshold f"
| "getNeededThreshold (SET_OPTIONS x) f =
     (if so_masterWeight x \<noteq> None \<or> so_lowThreshold x \<noteq> None \<or> so_medThreshold x \<noteq> None \<or> so_highThreshold x \<noteq> None \<or> so_signer x \<noteq> None
      then getHighThreshold f else getMediumThreshold f)"
| "getNeededThreshold _ f = getMediumThreshold f"

text \<open>
  The check of a merge in \<^verbatim>\<open>MergeOpFrame::checkValid\<close>, which replaces that of the signatures: for the account of the bank an
  administrator must be among the used signers, and no signature is checked for any other account.
\<close>

definition Merge_authorized :: "App \<Rightarrow> AccountID \<Rightarrow> Signer list \<Rightarrow> bool" where
  "Merge_authorized app sourceID usedSigners \<longleftrightarrow>
     (sourceID = BANK_MASTER_KEY app \<longrightarrow> list_ex (\<lambda>s. sg_signerType s = SIGNER_ADMIN) usedSigners)"

definition op_authorized :: "App \<Rightarrow> TxFrame \<Rightarrow> Operation \<Rightarrow> AccountFrame \<Rightarrow> bool \<times> Signer list \<times> TxFrame" where
  "op_authorized app tx op src =
     (case op_body op of
        ACCOUNT_MERGE _ \<Rightarrow> (Merge_authorized app (op_getSourceID tx op) [], [], tx)
      | b \<Rightarrow> checkSignature app tx src (getNeededThreshold b src))"

text \<open>\<^verbatim>\<open>doCheckValid\<close> and \<^verbatim>\<open>doApply\<close>, by the class \<^verbatim>\<open>makeHelper\<close> chooses. The payments read the fee through its pointer.\<close>

fun doCheckValid ::
  "App \<Rightarrow> AccountID \<Rightarrow> AccountID option \<Rightarrow> OperationFee option \<Rightarrow> Signer list \<Rightarrow> OperationBody \<Rightarrow> scp_error + InnerResult option"
where
  "doCheckValid app sourceID sa fee used (CREATE_ACCOUNT x) = Inr (map_option CreateAccountRes (CreateAccount_doCheckValid app sourceID x))"
| "doCheckValid app sourceID sa fee used (PAYMENT x) =
     bindE (assertE (fee \<noteq> None)) (\<lambda>_. bindE (deref fee) (\<lambda>fee. bindE (Payment_doCheckValid app fee x) (\<lambda>e. Inr (map_option PaymentRes e))))"
| "doCheckValid app sourceID sa fee used (PATH_PAYMENT x) =
     bindE (assertE (fee \<noteq> None)) (\<lambda>_. bindE (deref fee) (\<lambda>fee. bindE (PathPayment_doCheckValid app fee x) (\<lambda>e. Inr (map_option PathPaymentRes e))))"
| "doCheckValid app sourceID sa fee used (MANAGE_OFFER x) = Inr (map_option ManageOfferRes (ManageOffer_doCheckValid app x))"
| "doCheckValid app sourceID sa fee used (CREATE_PASSIVE_OFFER x) = Inr (map_option ManageOfferRes (ManageOffer_doCheckValid app (passive_op x)))"
| "doCheckValid app sourceID sa fee used (SET_OPTIONS x) = Inr (map_option SetOptionsRes (SetOptions_doCheckValid sourceID x))"
| "doCheckValid app sourceID sa fee used (CHANGE_TRUST x) = Inr (map_option ChangeTrustRes (ChangeTrust_doCheckValid app x))"
| "doCheckValid app sourceID sa fee used (ALLOW_TRUST x) = Inr (map_option AllowTrustRes (AllowTrust_doCheckValid app sourceID x))"
| "doCheckValid app sourceID sa fee used (ACCOUNT_MERGE d) = Inr (map_option AccountMergeRes (Merge_doCheckValid app sa d))"
| "doCheckValid app sourceID sa fee used INFLATION = Inr None"
| "doCheckValid app sourceID sa fee used (MANAGE_DATA x) = Inr (map_option ManageDataRes (ManageData_doCheckValid app x))"
| "doCheckValid app sourceID sa fee used (ADMINISTRATIVE x) = Inr (map_option AdministrativeRes (Administrative_doCheckValid app sourceID used x))"
| "doCheckValid app sourceID sa fee used (PAYMENT_REVERSAL x) = Inr (map_option PaymentReversalRes (PaymentReversal_doCheckValid app x))"
| "doCheckValid app sourceID sa fee used (EXTERNAL_PAYMENT x) =
     bindE (assertE (fee \<noteq> None)) (\<lambda>_. bindE (deref fee) (\<lambda>fee. bindE (PaymentExternal_doCheckValid app fee x) (\<lambda>e. Inr (map_option PaymentRes e))))"

definition resultL :: "('r \<Rightarrow> InnerResult) \<Rightarrow> ('r \<times> AccountFrame) led \<Rightarrow> (InnerResult \<times> AccountFrame) led" where
  "resultL res m = bindL m (\<lambda>(r, src). returnL (res r, src))"

fun doApply ::
  "App \<Rightarrow> AccountID \<Rightarrow> OperationFee option \<Rightarrow> Signer list \<Rightarrow> OperationBody \<Rightarrow> AccountFrame \<Rightarrow> (InnerResult \<times> AccountFrame) led"
where
  "doApply app sourceID fee used (CREATE_ACCOUNT x) src = resultL CreateAccountRes (CreateAccount_doApply app sourceID fee x src)"
| "doApply app sourceID fee used (PAYMENT x) src =
     bindL (liftE (deref fee)) (\<lambda>fee. resultL PaymentRes (Payment_doApply app sourceID fee x src))"
| "doApply app sourceID fee used (PATH_PAYMENT x) src =
     bindL (liftE (deref fee)) (\<lambda>fee. resultL PathPaymentRes (PathPayment_doApply app sourceID fee False x src))"
| "doApply app sourceID fee used (MANAGE_OFFER x) src = resultL ManageOfferRes (ManageOffer_doApply app sourceID False x src)"
| "doApply app sourceID fee used (CREATE_PASSIVE_OFFER x) src = resultL ManageOfferRes (ManageOffer_doApply app sourceID True (passive_op x) src)"
| "doApply app sourceID fee used (SET_OPTIONS x) src = resultL SetOptionsRes (SetOptions_doApply app used x src)"
| "doApply app sourceID fee used (CHANGE_TRUST x) src =
     resultL ChangeTrustRes (bindL (ChangeTrust_doApply app sourceID x src) (\<lambda>(r, _, src1). returnL (r, src1)))"
| "doApply app sourceID fee used (ALLOW_TRUST x) src =
     resultL AllowTrustRes (bindL (AllowTrust_doApply sourceID x src) (\<lambda>r. returnL (r, src)))"
| "doApply app sourceID fee used (ACCOUNT_MERGE d) src =
     resultL AccountMergeRes (bindL (Merge_doApply d src) (\<lambda>r. returnL (r, src)))"
| "doApply app sourceID fee used INFLATION src = resultL InflationRes (bindL (Inflation_doApply app) (\<lambda>r. returnL (r, src)))"
| "doApply app sourceID fee used (MANAGE_DATA x) src = resultL ManageDataRes (ManageData_doApply app x src)"
| "doApply app sourceID fee used (ADMINISTRATIVE _) src = returnL (AdministrativeRes ADMINISTRATIVE_SUCCESS, src)"
| "doApply app sourceID fee used (PAYMENT_REVERSAL x) src = resultL PaymentReversalRes (PaymentReversal_doApply app sourceID x src)"
| "doApply app sourceID fee used (EXTERNAL_PAYMENT x) src =
     bindL (liftE (deref fee)) (\<lambda>fee. resultL PaymentRes (PaymentExternal_doApply app sourceID fee x src))"

text \<open>
  \<^verbatim>\<open>checkValid\<close>: the error, if any, the used signers and the source. When not applying, the account of an explicit source may
  be missing; a stand-in without signers is checked instead.
\<close>

definition op_checkValid ::
  "App \<Rightarrow> bool \<Rightarrow> Operation \<Rightarrow> OperationFee option \<Rightarrow> TxFrame \<Rightarrow>
    (OperationResult option \<times> Signer list \<times> AccountFrame option \<times> TxFrame) led"
where
  "op_checkValid app applying op fee tx =
     bindL (tx_loadAccount applying tx (op_getSourceID tx op)) (\<lambda>acc.
     case (if acc = None \<and> \<not> applying then map_option makeAuthOnlyAccount (op_sourceAccount op) else acc) of
       None \<Rightarrow> returnL (Some opNO_ACCOUNT, [], None, tx)
     | Some src \<Rightarrow>
         (case op_authorized app tx op src of (ok, used, tx1) \<Rightarrow>
            if \<not> ok then returnL (Some opBAD_AUTH, used, Some src, tx1)
            else bindL (liftE (doCheckValid app (op_getSourceID tx op) (op_sourceAccount op) fee used (op_body op))) (\<lambda>e.
                   returnL (map_option opINNER e, used, Some src, tx1))))"

text \<open>When the source is the signing account, the frame the operation changed is that of the transaction.\<close>

definition share_source :: "AccountFrame \<Rightarrow> TxFrame \<Rightarrow> TxFrame" where
  "share_source src tx =
     (case mSigningAccount tx of
        Some a \<Rightarrow> if account_getID a = account_getID src then tx\<lparr>mSigningAccount := Some src\<rparr> else tx
      | None \<Rightarrow> tx)"

definition op_apply :: "App \<Rightarrow> Operation \<Rightarrow> OperationFee option \<Rightarrow> TxFrame \<Rightarrow> (OperationResult \<times> TxFrame) led" where
  "op_apply app op fee tx =
     bindL (op_checkValid app True op fee tx) (\<lambda>(e, used, acc, tx1). case e of
       Some r \<Rightarrow> returnL (r, tx1)
     | None \<Rightarrow>
         bindL (liftE (deref acc)) (\<lambda>src.
         bindL (doApply app (op_getSourceID tx op) fee used (op_body op) src) (\<lambda>(r, src1).
           returnL (opINNER r, share_source src1 tx1))))"

section \<open>The transaction\<close>

definition out_of_time :: "App \<Rightarrow> TxFrame \<Rightarrow> TransactionResultCode option" where
  "out_of_time app tx =
     (let closeTime = sv_closeTime (lh_scpValue (ledgerHeader app)) in
      case tx_timeBounds (env_tx (mEnvelope tx)) of
        None \<Rightarrow> None
      | Some (minTime, maxTime) \<Rightarrow>
          if minTime > closeTime then Some txTOO_EARLY
          else if maxTime \<noteq> 0 \<and> maxTime < closeTime then Some txTOO_LATE
          else None)"

definition commonValid :: "App \<Rightarrow> bool \<Rightarrow> uint64 \<Rightarrow> TxFrame \<Rightarrow> (TransactionResultCode \<times> TxFrame) led" where
  "commonValid app applying current tx =
     (if mOperations tx = [] then returnL (txMISSING_OPERATION, tx)
      else if length (mOperations tx) \<noteq> length (env_operationFees (mEnvelope tx)) then returnL (txINTERNAL_ERROR, tx)
      else case out_of_time app tx of
        Some e \<Rightarrow> returnL (e, tx)
      | None \<Rightarrow>
      if uint (tx_fee (env_tx (mEnvelope tx))) < getMinFee app tx then returnL (txINSUFFICIENT_FEE, tx)
      else bindL (tx_loadAccount applying tx (tx_getSourceID tx)) (\<lambda>acc.
      let tx1 = tx\<lparr>mSigningAccount := acc\<rparr> in
      case acc of
        None \<Rightarrow> returnL (txNO_ACCOUNT, tx1)
      | Some f \<Rightarrow>
      if \<not> applying \<and> (if current = 0 then a_seqNum (af_account f) else current) + 1 \<noteq> tx_seqNum (env_tx (mEnvelope tx))
      then returnL (txBAD_SEQ, tx1)
      else case checkSignature app tx1 f (getLowThreshold f) of (ok, _, tx2) \<Rightarrow>
        if \<not> ok then returnL (txBAD_AUTH, tx2)
        else bindL (liftE (i64 (a_balance (af_account f) - uint (tx_fee (env_tx (mEnvelope tx)))))) (\<lambda>b.
          returnL (if b < getMinimumBalance (ledgerHeader app) f then txINSUFFICIENT_BALANCE else txSUCCESS, tx2))))"

text \<open>The fee is no longer collected here; the sequence number is consumed.\<close>

definition processFeeSeqNum :: "TxFrame \<Rightarrow> TxFrame led" where
  "processFeeSeqNum tx =
     (let tx1 = resetResults (resetSignatureTracker tx) in
      bindL (tx_loadAccount True tx1 (tx_getSourceID tx1)) (\<lambda>acc. case acc of
        None \<Rightarrow> throwL (Runtime_Error ''Unexpected database state'')
      | Some f \<Rightarrow>
          if a_seqNum (af_account f) + 1 \<noteq> tx_seqNum (env_tx (mEnvelope tx1))
          then throwL (Runtime_Error ''Unexpected account state'')
          else bindL (account_storeChange (f\<lparr>af_account := (af_account f)\<lparr>a_seqNum := tx_seqNum (env_tx (mEnvelope tx1))\<rparr>\<rparr>)) (\<lambda>f1.
                 returnL (tx1\<lparr>mSigningAccount := Some f1\<rparr>))))"

text \<open>The check of a transaction: the code and the result of the first operation that is not valid.\<close>

fun checkOps ::
  "App \<Rightarrow> (Operation \<times> OperationFee option) list \<Rightarrow> TxFrame \<Rightarrow> (OperationResult option \<times> TxFrame) led"
where
  "checkOps app [] tx = returnL (None, tx)"
| "checkOps app ((op, fee) # ops) tx =
     bindL (op_checkValid app False op fee tx) (\<lambda>(e, _, _, tx1).
       if e \<noteq> None then returnL (e, tx1) else checkOps app ops tx1)"

definition tx_checkValid :: "App \<Rightarrow> uint64 \<Rightarrow> TxFrame \<Rightarrow> (TransactionResultCode \<times> OperationResult option \<times> TxFrame) led" where
  "tx_checkValid app current tx =
     bindL (commonValid app False current (resetResults (resetSignatureTracker tx))) (\<lambda>(code, tx1).
     if code \<noteq> txSUCCESS then returnL (code, None, tx1)
     else bindL (checkOps app (mOperations tx1) tx1) (\<lambda>(e, tx2).
       if e \<noteq> None then returnL (txFAILED, e, tx2)
       else returnL (if checkAllSignaturesUsed tx2 then txSUCCESS else txBAD_AUTH_EXTRA, None, tx2)))"

text \<open>
  All operations are applied, each on a delta of its own, even after one has failed; the results are theirs and the
  changes they made.
\<close>

fun applyOps ::
  "App \<Rightarrow> (Operation \<times> OperationFee option) list \<Rightarrow> TxFrame \<Rightarrow> (OperationResult list \<times> LedgerEntryChange list list \<times> TxFrame) led"
where
  "applyOps app [] tx = returnL ([], [], tx)"
| "applyOps app ((op, fee) # ops) tx =
     bindL (nestedL (bindL (op_apply app op fee tx) (\<lambda>(r, tx1). bindL getDelta (\<lambda>d. returnL (r, getChanges d, tx1))))) (\<lambda>(r, cs, tx1).
     bindL (applyOps app ops tx1) (\<lambda>(rs, css, tx2). returnL (r # rs, cs # css, tx2)))"

definition apply_code :: "OperationResult list \<Rightarrow> TxFrame \<Rightarrow> TransactionResultCode" where
  "apply_code rs tx =
     (if \<not> list_all succeeded rs then txFAILED
      else if \<not> checkAllSignaturesUsed tx then txBAD_AUTH_EXTRA
      else txSUCCESS)"

definition tx_apply ::
  "App \<Rightarrow> TxFrame \<Rightarrow> (TransactionResultCode \<times> OperationResult list \<times> LedgerEntryChange list list \<times> TxFrame) led"
where
  "tx_apply app tx =
     bindL (commonValid app True 0 (resetSignatureTracker tx)) (\<lambda>(code, tx1).
     if code \<noteq> txSUCCESS then returnL (code, [], [], tx1)
     else tempDelta (\<lambda>(code, _). code = txSUCCESS) (\<lambda>outer.
            bindL (applyOps app (mOperations tx1) tx1) (\<lambda>(rs, meta, tx2).
              returnL ((apply_code rs tx2,
                        if apply_code rs tx2 = txBAD_AUTH_EXTRA then [] else rs,
                        if apply_code rs tx2 = txFAILED then [] else meta, tx2), outer))))"

end
