(* ===== verification/LedgerManager.thy ===== *)
theory LedgerManager
  imports Transactions TxSetFrame
begin

text \<open>
  \<^verbatim>\<open>src/ledger/LedgerManagerImpl.cpp\<close>: closing a ledger (sequence numbers, transactions, upgrades, the batch for the
  bucket list, the new header), starting and restarting, and following the network: closing what consensus decides,
  buffering while catching up, and knitting the buffer to the history that was caught up with. With it the parts of
  \<^verbatim>\<open>LedgerHeaderFrame.cpp\<close>, \<^verbatim>\<open>BucketManagerImpl.cpp\<close> and \<^verbatim>\<open>TransactionFrame.cpp\<close> it calls. A frame of a header is the header:
  its cached hash is never read after a change. The queue of history checkpoints, their publication and the
  collection of unused bucket files belong to the history and are left out.
\<close>

section \<open>Data\<close>

record LedgerHeaderHistoryEntry =
  he_hash :: Hash
  he_header :: LedgerHeader

record LedgerCloseData =
  lcd_ledgerSeq :: uint32
  lcd_txSet :: TxSetFrame
  lcd_value :: StellarValue

datatype LedgerUpgrade = LEDGER_UPGRADE_VERSION uint32 | LEDGER_UPGRADE_MAX_TX_SET_SIZE uint32

datatype LMState = LM_BOOTING_STATE | LM_SYNCED_STATE | LM_CATCHING_UP_STATE

datatype CatchupMode = CATCHUP_COMPLETE | CATCHUP_MINIMAL | CATCHUP_RECENT | CATCHUP_BUCKET_REPAIR

datatype VerifyHashStatus = VERIFY_HASH_OK | VERIFY_HASH_BAD | VERIFY_HASH_UNKNOWN

type_synonym TransactionResult = "TransactionResultCode \<times> OperationResult list"
type_synonym TransactionMeta = "LedgerEntryChange list list"

text \<open>
  The tables of the history: headers, and per ledger and index the transactions with their results and changes, and the
  changes of the fee stage. The persistent state: the hash of the last closed ledger and the saved bucket list.
\<close>

type_synonym TxTable = "((uint32 \<times> nat) \<times> (Hash \<times> TransactionEnvelope \<times> TransactionResult \<times> TransactionMeta)) list"
type_synonym FeeTable = "((uint32 \<times> nat) \<times> (Hash \<times> LedgerEntryChange list)) list"

record LedgerManager =
  lm_state :: LMState
  lm_lastClosed :: LedgerHeaderHistoryEntry
  lm_current :: LedgerHeader
  lm_syncing :: "LedgerCloseData list"
  lm_db :: Database
  lm_buckets :: BucketList
  lm_headers :: "(Hash \<times> LedgerHeader) list"
  lm_txs :: TxTable
  lm_fees :: FeeTable
  lm_lastHash :: "Hash option"
  lm_archive :: "HistoryStateBucket list"
  lm_catchups :: "(uint32 \<times> CatchupMode) list"

text \<open>
  The surroundings: the application, the settings, SHA256 over headers, results, envelopes, buckets and hashes, the
  envelope a frame of the transaction set was made from, the decoding of an upgrade, and where an exception stops a
  transaction, which the errors of the model do not carry: the changes of the operations before it, and the tables, the
  cache and the deltas (as one, for all that are destroyed) at that point.
\<close>

record LedgerEnv =
  le_app :: App
  PARANOID_MODE :: bool
  PESSIMIZE_MERGES :: bool
  CATCHUP_COMPLETE_SET :: bool
  CATCHUP_RECENT_COUNT :: uint32
  hashHeader :: "LedgerHeader \<Rightarrow> Hash"
  hashResults :: "(Hash \<times> TransactionResult) list \<Rightarrow> Hash"
  hashTxSet :: "bytes list \<Rightarrow> Hash"
  hashBucket :: "Bucket \<Rightarrow> Hash"
  hashHashes :: "Hash list \<Rightarrow> Hash"
  envelopeOf :: "TransactionFrame \<Rightarrow> TransactionEnvelope"
  decodeUpgrade :: "bytes \<Rightarrow> LedgerUpgrade option"
  atThrow :: "TxFrame \<Rightarrow> Ledger \<Rightarrow> TransactionMeta \<times> Ledger"

section \<open>Headers\<close>

definition header_getHash :: "LedgerEnv \<Rightarrow> LedgerHeader \<Rightarrow> scp_error + Hash" where
  "header_getHash C h = bindE (assertE (\<not> list_all (\<lambda>b. b = 0) (hashHeader C h))) (\<lambda>_. Inr (hashHeader C h))"

text \<open>The header that follows a closed one: \<^verbatim>\<open>LedgerHeaderFrame(LedgerHeaderHistoryEntry const&)\<close>.\<close>

definition LedgerHeaderFrame_next :: "LedgerEnv \<Rightarrow> LedgerHeaderHistoryEntry \<Rightarrow> scp_error + LedgerHeader" where
  "LedgerHeaderFrame_next C he =
     bindE (header_getHash C (he_header he)) (\<lambda>h.
       if h \<noteq> he_hash he then Inl (Runtime_Error ''provided ledger header is invalid'')
       else Inr ((he_header he)\<lparr>lh_ledgerSeq := lh_ledgerSeq (he_header he) + 1, lh_previousLedgerHash := he_hash he\<rparr>))"

text \<open>The table has the hash as its key, and the sequence number is unique.\<close>

definition header_storeInsert :: "LedgerEnv \<Rightarrow> LedgerHeader \<Rightarrow> (Hash \<times> LedgerHeader) list \<Rightarrow> scp_error + (Hash \<times> LedgerHeader) list" where
  "header_storeInsert C h t =
     bindE (header_getHash C h) (\<lambda>x.
       if map_of t x \<noteq> None \<or> lh_ledgerSeq h \<in> (lh_ledgerSeq \<circ> snd) ` set t then Inl (Runtime_Error ''constraint failed'')
       else Inr (map_put x h t))"

definition loadByHash :: "LedgerEnv \<Rightarrow> Hash \<Rightarrow> (Hash \<times> LedgerHeader) list \<Rightarrow> scp_error + LedgerHeader option" where
  "loadByHash C x t =
     (case map_of t x of
        None \<Rightarrow> Inr None
      | Some h \<Rightarrow> bindE (header_getHash C h) (\<lambda>y. Inr (if y \<noteq> x then None else Some h)))"

definition loadBySequence :: "uint32 \<Rightarrow> (Hash \<times> LedgerHeader) list \<Rightarrow> LedgerHeader option" where
  "loadBySequence n t = find (\<lambda>h. lh_ledgerSeq h = n) (map snd t)"

definition header_deleteOldEntries :: "uint32 \<Rightarrow> (Hash \<times> LedgerHeader) list \<Rightarrow> (Hash \<times> LedgerHeader) list" where
  "header_deleteOldEntries n t = filter (\<lambda>(_, h). \<not> lh_ledgerSeq h \<le> n) t"

text \<open>\<^verbatim>\<open>calculateSkipValues\<close>: the differences are unsigned and then read as an \<^verbatim>\<open>int\<close>. \<^verbatim>\<open>snapshotLedger\<close>.\<close>

definition calculateSkipValues :: "LedgerHeader \<Rightarrow> LedgerHeader" where
  "calculateSkipValues h =
     (let seq = lh_ledgerSeq h; sk = lh_skipList h; due = (\<lambda>back step. sint (seq - back) > 0 \<and> sint (seq - back) mod step = 0)
      in if seq mod 50 \<noteq> 0 then h
         else let sk1 = (if due 50 5000
                         then let sk2 = (if due 5050 50000
                                         then let sk3 = (if due 55050 500000 then sk[3 := sk ! 2] else sk)
                                              in sk3[2 := sk3 ! 1]
                                         else sk)
                              in sk2[1 := sk2 ! 0]
                         else sk)
              in h\<lparr>lh_skipList := sk1[0 := lh_bucketListHash h]\<rparr>)"

definition snapshotLedger :: "LedgerEnv \<Rightarrow> BucketList \<Rightarrow> LedgerHeader \<Rightarrow> LedgerHeader" where
  "snapshotLedger C buckets h = calculateSkipValues (h\<lparr>lh_bucketListHash := BucketList_getHash (hashHashes C) (hashBucket C) buckets\<rparr>)"

section \<open>Applying the transactions of a ledger\<close>

text \<open>\<^verbatim>\<open>storeTransaction\<close> and \<^verbatim>\<open>storeTransactionFee\<close>: one row per ledger and index.\<close>

definition storeRow :: "uint32 \<Rightarrow> nat \<Rightarrow> 'r \<Rightarrow> ((uint32 \<times> nat) \<times> 'r) list \<Rightarrow> scp_error + ((uint32 \<times> nat) \<times> 'r) list" where
  "storeRow seq i r t = (if map_of t (seq, i) \<noteq> None then Inl (Runtime_Error ''constraint failed'') else Inr (map_put (seq, i) r t))"

definition txHash :: "App \<Rightarrow> TxFrame \<Rightarrow> Hash" where
  "txHash app tx = contentsHash app (env_tx (mEnvelope tx))"

definition storeTransaction :: "App \<Rightarrow> TxFrame \<Rightarrow> TransactionResult \<Rightarrow> TransactionMeta \<Rightarrow> nat \<Rightarrow> TxTable \<Rightarrow> scp_error + TxTable" where
  "storeTransaction app tx r tm i t = storeRow (lh_ledgerSeq (ledgerHeader app)) i (txHash app tx, mEnvelope tx, r, tm) t"

definition storeTransactionFee :: "App \<Rightarrow> TxFrame \<Rightarrow> LedgerEntryChange list \<Rightarrow> nat \<Rightarrow> FeeTable \<Rightarrow> scp_error + FeeTable" where
  "storeTransactionFee app tx changes i t = storeRow (lh_ledgerSeq (ledgerHeader app)) i (txHash app tx, changes) t"

fun processFeesSeqNums :: "App \<Rightarrow> TxFrame list \<Rightarrow> nat \<Rightarrow> FeeTable \<Rightarrow> (TxFrame list \<times> FeeTable) led" where
  "processFeesSeqNums app [] i t = returnL ([], t)"
| "processFeesSeqNums app (tx # txs) i t =
     bindL (nestedL (bindL (processFeeSeqNum tx) (\<lambda>tx1. bindL getDelta (\<lambda>d.
              bindL (liftE (storeTransactionFee app tx1 (getChanges d) (i + 1) t)) (\<lambda>t1. returnL (tx1, t1)))))) (\<lambda>(tx1, t1).
     bindL (processFeesSeqNums app txs (i + 1) t1) (\<lambda>(rest, t2). returnL (tx1 # rest, t2)))"

text \<open>
  One round of \<^verbatim>\<open>applyTransactions\<close>. An exception unwinds \<^verbatim>\<open>TransactionFrame::apply\<close>: its \<^verbatim>\<open>soci::transaction\<close> brings the
  tables back and the destructors of the deltas flush the keys they hold from the cache (\<open>rolled_back\<close>), whatever had been
  done by then. An exception of the commit comes after the tables have been written. Assertions that fail and undefined
  behaviour stop the program.
\<close>

definition commitTransaction ::
  "LedgerDelta \<Rightarrow> Ledger \<Rightarrow> TransactionResult \<Rightarrow> TransactionMeta \<Rightarrow> scp_error + (TransactionResult \<times> TransactionMeta) \<times> Ledger"
where
  "commitTransaction outer s r tm =
     (case commit_outer outer (st_delta s) of
        Inr (outer1, _) \<Rightarrow> Inr ((r, tm), s\<lparr>st_delta := outer1\<rparr>)
      | Inl (Runtime_Error _) \<Rightarrow>
          Inr (((txINTERNAL_ERROR, []), tm), \<lparr>st_db = flush_all (LedgerDelta_destroy (st_delta s)) (st_db s), st_delta = outer\<rparr>)
      | Inl e \<Rightarrow> Inl e)"

definition applyTransaction :: "LedgerEnv \<Rightarrow> App \<Rightarrow> TxFrame \<Rightarrow> (TransactionResult \<times> TransactionMeta) led" where
  "applyTransaction C app tx s =
     (case tx_apply app tx (s\<lparr>st_delta := LedgerDelta_nested (st_delta s)\<rparr>) of
        Inr ((code, rs, tm, _), s1) \<Rightarrow>
          if code = txSUCCESS then commitTransaction (st_delta s) s1 (code, rs) tm
          else bindE (assertE (getChanges (st_delta s1) = [])) (\<lambda>_.
               bindE (assertE (mCurrentHeader (st_delta s1) = mCurrentHeader (st_delta s))) (\<lambda>_.
                 Inr (((code, rs), tm), \<lparr>st_db = flush_all (LedgerDelta_destroy (st_delta s1)) (st_db s1), st_delta = st_delta s\<rparr>)))
      | Inl (Runtime_Error _) \<Rightarrow>
          (case atThrow C tx s of (tm, s1) \<Rightarrow> Inr (((txINTERNAL_ERROR, []), tm), \<lparr>st_db = rolled_back (st_db s) s1, st_delta = st_delta s\<rparr>))
      | Inl e \<Rightarrow> Inl e)"

fun applyTransactions :: "LedgerEnv \<Rightarrow> App \<Rightarrow> TxFrame list \<Rightarrow> nat \<Rightarrow> TxTable \<Rightarrow> ((Hash \<times> TransactionResult) list \<times> TxTable) led" where
  "applyTransactions C app [] i t = returnL ([], t)"
| "applyTransactions C app (tx # txs) i t =
     bindL (applyTransaction C app tx) (\<lambda>(r, tm).
     bindL (liftE (storeTransaction app tx r tm (i + 1) t)) (\<lambda>t1.
     bindL (applyTransactions C app txs (i + 1) t1) (\<lambda>(rs, t2). returnL ((txHash app tx, r) # rs, t2))))"

fun applyUpgrades :: "LedgerEnv \<Rightarrow> bytes list \<Rightarrow> LedgerHeader \<Rightarrow> scp_error + LedgerHeader" where
  "applyUpgrades C [] h = Inr h"
| "applyUpgrades C (u # us) h =
     (case decodeUpgrade C u of
        None \<Rightarrow> Inl (Runtime_Error ''xdr_runtime_error'')
      | Some (LEDGER_UPGRADE_VERSION v) \<Rightarrow> applyUpgrades C us (h\<lparr>lh_ledgerVersion := v\<rparr>)
      | Some (LEDGER_UPGRADE_MAX_TX_SET_SIZE n) \<Rightarrow> applyUpgrades C us (h\<lparr>lh_maxTxSetSize := n\<rparr>))"

text \<open>\<^verbatim>\<open>LedgerDelta::checkAgainstDatabase\<close> with the loads of the frames.\<close>

definition checkLiveEntry :: "LedgerEntry \<Rightarrow> unit led" where
  "checkLiveEntry e =
     bindL (withDB (\<lambda>db. storeLoad (LedgerEntryKey e) (flushCachedEntry (LedgerEntryKey e) db))) (\<lambda>f.
     bindL (liftE (deref f)) (\<lambda>fromDb.
       if frame_entry fromDb \<noteq> e then throwL (Runtime_Error ''Inconsistent state between objects'') else returnL ()))"

definition checkDeadEntry :: "LedgerKey \<Rightarrow> unit led" where
  "checkDeadEntry k =
     bindL (withDB (entry_exists k)) (\<lambda>b.
       if b then throwL (Runtime_Error ''Inconsistent state ; entry should not exist in database'') else returnL ())"

fun forL :: "('x \<Rightarrow> unit led) \<Rightarrow> 'x list \<Rightarrow> unit led" where
  "forL f [] = returnL ()"
| "forL f (x # xs) = bindL (f x) (\<lambda>_. forL f xs)"

definition checkDelta :: "LedgerEnv \<Rightarrow> unit led" where
  "checkDelta C =
     (if \<not> PARANOID_MODE C then returnL ()
      else bindL getDelta (\<lambda>d. bindL (forL checkLiveEntry (getLiveEntries d)) (\<lambda>_. forL checkDeadEntry (getDeadEntries d))))"

section \<open>Closing a ledger\<close>

definition advanceLedgerPointers :: "LedgerEnv \<Rightarrow> LedgerManager \<Rightarrow> scp_error + LedgerManager" where
  "advanceLedgerPointers C M =
     bindE (header_getHash C (lm_current M)) (\<lambda>h.
       let he = \<lparr>he_hash = h, he_header = lm_current M\<rparr>
       in bindE (LedgerHeaderFrame_next C he) (\<lambda>c. Inr (M\<lparr>lm_lastClosed := he, lm_current := c\<rparr>)))"

fun resolveAnyReadyFutures :: "(Bucket \<Rightarrow> Hash) \<Rightarrow> BucketList \<Rightarrow> scp_error + BucketList" where
  "resolveAnyReadyFutures H [] = Inr []"
| "resolveAnyReadyFutures H (lev # levels) =
     bindE (if isMerging (mNextCurr lev) then mergeComplete (mNextCurr lev) else Inr False) (\<lambda>ready.
     bindE (if ready then bindE (resolve H (mNextCurr lev)) (\<lambda>(_, fb). Inr (setNext fb lev)) else Inr lev) (\<lambda>lev1.
     bindE (resolveAnyReadyFutures H levels) (\<lambda>levels1. Inr (lev1 # levels1))))"

text \<open>The archive state is a copy, so merges that are ready are resolved in it only.\<close>

definition closeLedgerHelper :: "LedgerEnv \<Rightarrow> LedgerDelta \<Rightarrow> LedgerManager \<Rightarrow> scp_error + LedgerManager" where
  "closeLedgerHelper C d M =
     bindE (addBatch (hashBucket C) (lh_ledgerSeq (lm_current M)) (getLiveEntries d) (getDeadEntries d) (lm_buckets M)) (\<lambda>buckets.
     let header = snapshotLedger C buckets (lm_current M) in
     bindE (header_storeInsert C header (lm_headers M)) (\<lambda>headers.
     bindE (header_getHash C header) (\<lambda>h.
     bindE (if PESSIMIZE_MERGES C then Inr buckets else resolveAnyReadyFutures (hashBucket C) buckets) (\<lambda>copy.
     bindE (saveState (hashBucket C) copy) (\<lambda>has.
       advanceLedgerPointers C (M\<lparr>lm_current := header, lm_buckets := buckets, lm_headers := headers, lm_lastHash := Some h, lm_archive := has\<rparr>))))))"

text \<open>The part of \<^verbatim>\<open>closeLedger\<close> that works on the delta of the ledger: the tables of the history are its result.\<close>

definition applyLedger :: "LedgerEnv \<Rightarrow> App \<Rightarrow> TxFrame list \<Rightarrow> StellarValue \<Rightarrow> FeeTable \<Rightarrow> TxTable \<Rightarrow> (FeeTable \<times> TxTable) led" where
  "applyLedger C app txs sv fees table =
     bindL (processFeesSeqNums app txs 0 fees) (\<lambda>(txs1, fees1).
     bindL (applyTransactions C app txs1 0 table) (\<lambda>(results, table1).
     bindL (inHeader (\<lambda>h. Inr (h\<lparr>lh_txSetResultHash := hashResults C results\<rparr>))) (\<lambda>_.
     bindL (inHeader (applyUpgrades C (sv_upgrades sv))) (\<lambda>_.
     bindL (checkDelta C) (\<lambda>_. returnL (fees1, table1))))))"

definition closeLedger :: "LedgerEnv \<Rightarrow> LedgerCloseData \<Rightarrow> LedgerManager \<Rightarrow> scp_error + LedgerManager" where
  "closeLedger C lcd M =
     (case previousLedgerHash (lcd_txSet lcd) of (prev, txSet0) \<Rightarrow>
      if prev \<noteq> he_hash (lm_lastClosed M) then Inl (Runtime_Error ''txset mismatch'')
      else case getContentsHash (hashTxSet C) txSet0 of (h, txSet) \<Rightarrow>
      if h \<noteq> sv_txSetHash (lcd_value lcd) then Inl (Runtime_Error ''corrupt transaction set'')
      else let header = (lm_current M)\<lparr>lh_scpValue := lcd_value lcd\<rparr>;
               app = (le_app C)\<lparr>ledgerHeader := header\<rparr>;
               txs = map (\<lambda>tx. TxFrame_new (envelopeOf C tx)) (fst (sortForApply (hashTxSet C) txSet))
           in bindE (applyLedger C app txs (lcd_value lcd) (lm_fees M) (lm_txs M) \<lparr>st_db = lm_db M, st_delta = LedgerDelta_on header True\<rparr>)
                (\<lambda>((fees, table), s).
              bindE (commit_header header (st_delta s)) (\<lambda>(header1, d).
                closeLedgerHelper C d (M\<lparr>lm_current := header1, lm_db := st_db s, lm_fees := fees, lm_txs := table\<rparr>))))"

section \<open>Starting\<close>

text \<open>\<^verbatim>\<open>startNewLedger\<close>: the accounts of the bank and of the commissions, in a ledger of their own.\<close>

definition genesisHeader :: LedgerHeader where
  "genesisHeader =
     \<lparr>lh_ledgerVersion = 0, lh_previousLedgerHash = replicate 32 0, lh_scpValue = \<lparr>sv_txSetHash = replicate 32 0, sv_closeTime = 0, sv_upgrades = []\<rparr>,
      lh_txSetResultHash = replicate 32 0, lh_bucketListHash = replicate 32 0, lh_ledgerSeq = 1, lh_totalCoins = 0, lh_feePool = 0,
      lh_inflationSeq = 0, lh_idPool = 0, lh_baseFee = 0, lh_baseReserve = 0, lh_maxTxSetSize = 100, lh_skipList = replicate 4 (replicate 32 0)\<rparr>"

abbreviation (input) ACCOUNT_COMMISSION :: uint32 where "ACCOUNT_COMMISSION \<equiv> 9"

definition new_account :: "AccountID \<Rightarrow> uint32 \<Rightarrow> AccountFrame" where
  "new_account i t = (AccountFrame_id i)\<lparr>af_account := (af_account (AccountFrame_id i))\<lparr>a_accountType := t\<rparr>\<rparr>"

definition genesisAccounts :: "App \<Rightarrow> unit led" where
  "genesisAccounts app =
     bindL (account_storeAdd (new_account (BANK_MASTER_KEY app) ACCOUNT_BANK)) (\<lambda>_.
       if BANK_MASTER_KEY app \<noteq> BANK_COMMISSION_KEY app
       then bindL (account_storeAdd (new_account (BANK_COMMISSION_KEY app) ACCOUNT_COMMISSION)) (\<lambda>_. returnL ())
       else returnL ())"

definition startNewLedger :: "LedgerEnv \<Rightarrow> LedgerManager \<Rightarrow> scp_error + LedgerManager" where
  "startNewLedger C M =
     bindE (genesisAccounts (le_app C) \<lparr>st_db = lm_db M, st_delta = LedgerDelta_on genesisHeader True\<rparr>) (\<lambda>(_, s).
     bindE (commit_header genesisHeader (st_delta s)) (\<lambda>(header, d).
       closeLedgerHelper C d (M\<lparr>lm_current := header, lm_db := st_db s\<rparr>)))"

text \<open>
  \<^verbatim>\<open>loadLastKnownLedger\<close> with a handler, once all bucket files are there: \<open>store\<close> holds them, and \<open>unset\<close> is the value of a flag that the
  saved state does not have.
\<close>

definition loadLastKnownLedger :: "LedgerEnv \<Rightarrow> (Hash \<Rightarrow> Bucket option) \<Rightarrow> bool \<Rightarrow> LedgerManager \<Rightarrow> scp_error + LedgerManager" where
  "loadLastKnownLedger C store unset M =
     (case lm_lastHash M of
        None \<Rightarrow> Inl (Runtime_Error ''No ledger in the DB'')
      | Some lastLedger \<Rightarrow>
          bindE (loadByHash C lastLedger (lm_headers M)) (\<lambda>found. case found of
            None \<Rightarrow> Inl (Runtime_Error ''Could not load ledger from database'')
          | Some header \<Rightarrow>
              bindE (assumeState (hashBucket C) store unset (lm_archive M) (lm_buckets M)) (\<lambda>buckets.
                advanceLedgerPointers C (M\<lparr>lm_current := header, lm_buckets := buckets\<rparr>))))"

text \<open>\<^verbatim>\<open>deleteOldEntries\<close>, less the tables of SCP messages, which belong to the herder.\<close>

definition deleteOldEntries :: "uint32 \<Rightarrow> LedgerManager \<Rightarrow> LedgerManager" where
  "deleteOldEntries n M =
     M\<lparr>lm_headers := header_deleteOldEntries n (lm_headers M),
       lm_txs := filter (\<lambda>((seq, _), _). \<not> seq \<le> n) (lm_txs M), lm_fees := filter (\<lambda>((seq, _), _). \<not> seq \<le> n) (lm_fees M)\<rparr>"

section \<open>Following the network\<close>

definition getCatchupMode :: "LedgerEnv \<Rightarrow> CatchupMode" where
  "getCatchupMode C =
     (if CATCHUP_COMPLETE_SET C then CATCHUP_COMPLETE
      else if CATCHUP_RECENT_COUNT C = 0 then CATCHUP_MINIMAL else CATCHUP_RECENT)"

definition lcl_seq :: "LedgerManager \<Rightarrow> uint32" where
  "lcl_seq M = lh_ledgerSeq (he_header (lm_lastClosed M))"

text \<open>Catching up is asked of the history manager, which answers later.\<close>

definition startCatchUp :: "uint32 \<Rightarrow> CatchupMode \<Rightarrow> LedgerManager \<Rightarrow> LedgerManager" where
  "startCatchUp initLedger mode M =
     M\<lparr>lm_state := LM_CATCHING_UP_STATE, lm_catchups := lm_catchups M @ [(initLedger, mode)]\<rparr>"

definition externalizeValue :: "LedgerEnv \<Rightarrow> LedgerCloseData \<Rightarrow> LedgerManager \<Rightarrow> scp_error + LedgerManager" where
  "externalizeValue C lcd M =
     (if lm_state M \<noteq> LM_CATCHING_UP_STATE
      then if lcl_seq M + 1 = lcd_ledgerSeq lcd
           then if he_hash (lm_lastClosed M) = mPreviousLedgerHash (lcd_txSet lcd)
                then closeLedger C lcd (M\<lparr>lm_state := LM_SYNCED_STATE\<rparr>)
                else Inl (Runtime_Error ''Network consensus inconsistency'')
           else if lcd_ledgerSeq lcd \<le> lcl_seq M then Inr M
           else bindE (assertE (length (lm_syncing M) = 0)) (\<lambda>_.
                  Inr (startCatchUp (lcd_ledgerSeq lcd) (getCatchupMode C) (M\<lparr>lm_syncing := lm_syncing M @ [lcd]\<rparr>)))
      else if lm_syncing M = [] \<or> lcd_ledgerSeq (last (lm_syncing M)) + 1 = lcd_ledgerSeq lcd
           then Inr (M\<lparr>lm_syncing := lm_syncing M @ [lcd]\<rparr>)
           else Inr M)"

text \<open>
  The verdict on a ledger that the history proposes: \<open>checkPairs\<close> is the sequence of \<^verbatim>\<open>CHECK_PAIR\<close>s. (That asking the buffered
  sets for the previous ledger makes them forget a cached hash is left out here; they compute it again when asked.)
\<close>

fun checkPairs :: "(uint32 \<times> uint32 \<times> Hash \<times> Hash) list \<Rightarrow> VerifyHashStatus" where
  "checkPairs [] = VERIFY_HASH_UNKNOWN"
| "checkPairs ((aseq, bseq, ahash, bhash) # ps) =
     (if aseq = bseq then if ahash = bhash then VERIFY_HASH_OK else VERIFY_HASH_BAD else checkPairs ps)"

definition verifyCatchupCandidate :: "LedgerHeaderHistoryEntry \<Rightarrow> LedgerManager \<Rightarrow> VerifyHashStatus" where
  "verifyCatchupCandidate candidate M =
     (let seq = lh_ledgerSeq (he_header candidate); h = he_hash candidate; lcl = lm_lastClosed M
      in checkPairs
        ([(lcl_seq M, seq, he_hash lcl, h),
          (lcl_seq M, seq + 1, lh_previousLedgerHash (he_header lcl), h),
          (lh_ledgerSeq (lm_current M), seq + 1, lh_previousLedgerHash (lm_current M), h)] @
         map (\<lambda>ld. (lcd_ledgerSeq ld, seq + 1, mPreviousLedgerHash (lcd_txSet ld), h)) (lm_syncing M)))"

text \<open>
  The loop of \<^verbatim>\<open>historyCaughtup\<close> over the buffered ledgers. When the buffer leaves a gap, the code takes a reference to the last
  buffered ledger, clears the buffer and starts catching up anew from the number it reads through the reference: by then the
  element has been destroyed, and what happens is undefined (\<open>Null_Deref\<close>).
\<close>

fun replayBuffered :: "LedgerEnv \<Rightarrow> LedgerCloseData list \<Rightarrow> LedgerManager \<Rightarrow> scp_error + LedgerManager" where
  "replayBuffered C [] M = Inr M"
| "replayBuffered C (lcd # lcds) M =
     (if lcd_ledgerSeq lcd < lcl_seq M + 1
      then bindE (if lcd_ledgerSeq lcd = lcl_seq M
                  then bindE (assertE (fst (getContentsHash (hashTxSet C) (lcd_txSet lcd)) = sv_txSetHash (lcd_value lcd))) (\<lambda>_.
                         assertE (lcd_value lcd = lh_scpValue (he_header (lm_lastClosed M))))
                  else Inr ()) (\<lambda>_. replayBuffered C lcds M)
      else if lcd_ledgerSeq lcd = lcl_seq M + 1
      then bindE (closeLedger C lcd M) (\<lambda>M1. replayBuffered C lcds M1)
      else bindE (assertE (lcd_ledgerSeq lcd > lcl_seq M + 1)) (\<lambda>_. Inl Null_Deref))"

definition knitUp :: "LedgerEnv \<Rightarrow> LedgerManager \<Rightarrow> scp_error + LedgerManager" where
  "knitUp C M = bindE (replayBuffered C (lm_syncing M) M) (\<lambda>M1. Inr (M1\<lparr>lm_state := LM_SYNCED_STATE, lm_syncing := []\<rparr>))"

definition historyCaughtup ::
  "LedgerEnv \<Rightarrow> bool \<Rightarrow> CatchupMode \<Rightarrow> LedgerHeaderHistoryEntry \<Rightarrow> LedgerManager \<Rightarrow> scp_error + LedgerManager"
where
  "historyCaughtup C failed mode lastClosed M =
     (if failed then Inr (M\<lparr>lm_state := LM_BOOTING_STATE, lm_syncing := []\<rparr>)
      else case mode of
        CATCHUP_RECENT \<Rightarrow> bindE (LedgerHeaderFrame_next C lastClosed) (\<lambda>c. Inr (M\<lparr>lm_lastClosed := lastClosed, lm_current := c\<rparr>))
      | CATCHUP_MINIMAL \<Rightarrow> bindE (LedgerHeaderFrame_next C lastClosed) (\<lambda>c. knitUp C (M\<lparr>lm_lastClosed := lastClosed, lm_current := c\<rparr>))
      | _ \<Rightarrow> bindE (assertE (mode = CATCHUP_COMPLETE)) (\<lambda>_. bindE (assertE (lastClosed = lm_lastClosed M)) (\<lambda>_. knitUp C M)))"

end
