(* ===== verification/Ledger_Steady.thy ===== *)
theory Ledger_Steady
  imports LedgerManager
begin

text \<open>
  What no transaction can touch: of the header of a ledger, operations change the four counters of coins, fees,
  inflation rounds and identifiers only. The rules follow the structure of the programs; nested deltas hand the
  header on.
\<close>

section \<open>Steady programs\<close>

definition fixed_fields :: "LedgerHeader \<Rightarrow> LedgerHeader" where
  "fixed_fields h = h\<lparr>lh_totalCoins := 0, lh_feePool := 0, lh_inflationSeq := 0, lh_idPool := 0\<rparr>"

definition delta_frame :: "LedgerDelta \<Rightarrow> LedgerHeader \<times> LedgerHeader \<times> bool \<times> bool" where
  "delta_frame d = (fixed_fields (mCurrentHeader d), mPreviousHeaderValue d, mOpen d, mUpdateLastModified d)"

definition steady :: "'a led \<Rightarrow> bool" where
  "steady m \<longleftrightarrow> (\<forall>s x s1. m s = Inr (x, s1) \<longrightarrow> delta_frame (st_delta s1) = delta_frame (st_delta s))"

text \<open>Programs on a nested delta that hand the outer one along.\<close>

definition steady_outer :: "LedgerDelta \<Rightarrow> ('a \<times> LedgerDelta) led \<Rightarrow> bool" where
  "steady_outer d m \<longleftrightarrow>
     (\<forall>s x d1 s1. m s = Inr ((x, d1), s1) \<longrightarrow> delta_frame (st_delta s1) = delta_frame (st_delta s) \<and> delta_frame d1 = delta_frame d)"

named_theorems steady_intros

lemma steadyD: "steady m \<Longrightarrow> m s = Inr (x, s1) \<Longrightarrow> delta_frame (st_delta s1) = delta_frame (st_delta s)"
  by (auto simp: steady_def)

lemma steady_return [steady_intros]: "steady (returnL x)"
  by (simp add: steady_def returnL_def)

lemma steady_throw [steady_intros]: "steady (throwL e)"
  by (simp add: steady_def throwL_def)

lemma steady_lift [steady_intros]: "steady (liftE m)"
  by (auto simp: steady_def liftE_def bindE_Inr_iff)

lemma steady_getDelta [steady_intros]: "steady getDelta"
  by (simp add: steady_def getDelta_def)

lemma steady_withDB [steady_intros]: "steady (withDB f)"
  by (auto simp: steady_def withDB_def bindE_Inr_iff)

lemma steady_bind [steady_intros]: "steady m \<Longrightarrow> (\<And>x. steady (f x)) \<Longrightarrow> steady (bindL m f)"
  unfolding steady_def bindL_Inr_iff by metis

lemma steady_if [steady_intros]: "(b \<Longrightarrow> steady m) \<Longrightarrow> (\<not> b \<Longrightarrow> steady n) \<Longrightarrow> steady (if b then m else n)"
  by simp

lemma steady_option [steady_intros]: "steady m \<Longrightarrow> (\<And>x. steady (f x)) \<Longrightarrow> steady (case p of None \<Rightarrow> m | Some x \<Rightarrow> f x)"
  by (simp split: option.split)

lemma steady_prod [steady_intros]: "(\<And>x y. steady (f x y)) \<Longrightarrow> steady (case p of (x, y) \<Rightarrow> f x y)"
  by (simp split: prod.split)

lemma steady_onDelta:
  assumes "\<And>d d1. f d = Inr d1 \<Longrightarrow> delta_frame d1 = delta_frame d"
  shows "steady (onDelta f)"
  using assms by (auto simp: steady_def onDelta_def bindE_Inr_iff)

lemma addEntry_frame: "addEntry e d = Inr d1 \<Longrightarrow> delta_frame d1 = delta_frame d"
  by (auto simp: addEntry_def bindE_Inr_iff Let_def delta_frame_def split: if_splits)

lemma modEntry_frame: "modEntry e d = Inr d1 \<Longrightarrow> delta_frame d1 = delta_frame d"
  by (auto simp: modEntry_def bindE_Inr_iff Let_def delta_frame_def split: if_splits)

lemma deleteEntry_frame: "deleteEntry k d = Inr d1 \<Longrightarrow> delta_frame d1 = delta_frame d"
  by (auto simp: deleteEntry_def bindE_Inr_iff delta_frame_def split: if_splits)

lemma recordEntry_frame: "recordEntry e d = Inr d1 \<Longrightarrow> delta_frame d1 = delta_frame d"
  by (auto simp: recordEntry_def bindE_Inr_iff delta_frame_def)

lemma steady_entries [steady_intros]:
  "steady (onDelta (addEntry e))" "steady (onDelta (modEntry e))" "steady (onDelta (deleteEntry k))" "steady (onDelta (recordEntry e))"
  "steady (onDelta (if b then addEntry e else modEntry e))"
  by (auto intro: steady_onDelta addEntry_frame modEntry_frame deleteEntry_frame recordEntry_frame)

lemma steady_inHeader:
  assumes "\<And>h h1. f h = Inr h1 \<Longrightarrow> fixed_fields h1 = fixed_fields h"
  shows "steady (inHeader f)"
  unfolding inHeader_def by (rule steady_onDelta) (use assms in \<open>auto simp: bindE_Inr_iff delta_frame_def\<close>)

section \<open>Nested deltas\<close>

lemma foldE_frame:
  assumes "\<And>x d d1. f x d = Inr d1 \<Longrightarrow> delta_frame d1 = delta_frame d"
  shows "foldE f xs d = Inr d1 \<Longrightarrow> delta_frame d1 = delta_frame d"
  by (induction xs arbitrary: d) (use assms in \<open>auto simp: bindE_Inr_iff\<close>)

lemma recordFrom_frame: "recordFrom other k d = Inr d1 \<Longrightarrow> delta_frame d1 = delta_frame d"
  by (auto simp: recordFrom_def recordEntry_frame split: option.splits)

lemma mergeEntries_frame: "mergeEntries other d = Inr d1 \<Longrightarrow> delta_frame d1 = delta_frame d"
proof -
  assume "mergeEntries other d = Inr d1"
  then obtain d2 d3 where "foldE (\<lambda>k d. bindE (deleteEntry k d) (recordFrom other k)) (mDelete other) d = Inr d2"
    "foldE (\<lambda>(_, e). addEntry e) (mNew other) d2 = Inr d3" "foldE (\<lambda>(k, e) d. bindE (modEntry e d) (recordFrom other k)) (mMod other) d3 = Inr d1"
    by (auto simp: mergeEntries_def bindE_Inr_iff)
  then have "delta_frame d2 = delta_frame d" "delta_frame d3 = delta_frame d2" "delta_frame d1 = delta_frame d3"
    by (auto elim!: foldE_frame [rotated] simp: bindE_Inr_iff addEntry_frame modEntry_frame deleteEntry_frame dest!: recordFrom_frame)
  then show ?thesis by simp
qed

lemma commit_outer_frame:
  assumes "commit_outer outer d = Inr (outer1, d1)"
  shows "mCurrentHeader outer1 = mCurrentHeader d" "mPreviousHeaderValue outer1 = mPreviousHeaderValue outer" "mOpen outer1 = mOpen outer"
    "mUpdateLastModified outer1 = mUpdateLastModified outer"
proof -
  obtain o2 where o2: "mergeEntries d outer = Inr o2" "outer1 = o2\<lparr>mCurrentHeader := mCurrentHeader d\<rparr>"
    using assms by (auto simp: commit_outer_def bindE_Inr_iff split: if_splits)
  show "mCurrentHeader outer1 = mCurrentHeader d" "mPreviousHeaderValue outer1 = mPreviousHeaderValue outer" "mOpen outer1 = mOpen outer"
    "mUpdateLastModified outer1 = mUpdateLastModified outer"
    using o2 mergeEntries_frame [OF o2(1)] by (simp_all add: delta_frame_def)
qed

lemma nested_frame: "delta_frame d1 = delta_frame (LedgerDelta_nested d) \<Longrightarrow> fixed_fields (mCurrentHeader d1) = fixed_fields (mCurrentHeader d)"
  by (simp add: delta_frame_def LedgerDelta_nested_def LedgerDelta_on_def)

lemma steady_nested [steady_intros]:
  assumes "steady m"
  shows "steady (nestedL m)"
  unfolding steady_def
proof (intro allI impI)
  fix s x s1
  assume "nestedL m s = Inr (x, s1)"
  then obtain s2 outer d1 where m: "m (s\<lparr>st_delta := LedgerDelta_nested (st_delta s)\<rparr>) = Inr (x, s2)"
    and c: "commit_outer (st_delta s) (st_delta s2) = Inr (outer, d1)" "s1 = s2\<lparr>st_delta := outer\<rparr>"
    by (auto simp: nestedL_def bindE_Inr_iff)
  from steadyD [OF assms m] have "delta_frame (st_delta s2) = delta_frame (LedgerDelta_nested (st_delta s))" by simp
  with nested_frame [OF this] commit_outer_frame [OF c(1)] c(2) show "delta_frame (st_delta s1) = delta_frame (st_delta s)"
    by (simp add: delta_frame_def)
qed

lemma steady_temp [steady_intros]:
  assumes "\<And>d. steady_outer d (m d)"
  shows "steady (tempDelta ok m)"
  unfolding steady_def
proof (intro allI impI)
  fix s x s1
  assume t: "tempDelta ok m s = Inr (x, s1)"
  then obtain outer s2 where m: "m (st_delta s) (s\<lparr>st_delta := LedgerDelta_nested (st_delta s)\<rparr>) = Inr ((x, outer), s2)"
    by (auto simp: tempDelta_def bindE_Inr_iff split: if_splits)
  from assms [of "st_delta s"] m have "delta_frame (st_delta s2) = delta_frame (LedgerDelta_nested (st_delta s))"
    and o: "delta_frame outer = delta_frame (st_delta s)"
    unfolding steady_outer_def by fastforce+
  from nested_frame [OF this(1)] have h: "fixed_fields (mCurrentHeader (st_delta s2)) = fixed_fields (mCurrentHeader (st_delta s))" .
  show "delta_frame (st_delta s1) = delta_frame (st_delta s)"
  proof (cases "ok x")
    case True
    with t m obtain outer1 d1 where "commit_outer outer (st_delta s2) = Inr (outer1, d1)" "s1 = s2\<lparr>st_delta := outer1\<rparr>"
      by (auto simp: tempDelta_def bindE_Inr_iff)
    with commit_outer_frame [OF this(1)] h o show ?thesis by (simp add: delta_frame_def)
  next
    case False
    with t m o show ?thesis by (auto simp: tempDelta_def)
  qed
qed

lemma outer_return [steady_intros]: "delta_frame d1 = delta_frame d \<Longrightarrow> steady_outer d (returnL (x, d1))"
  by (simp add: steady_outer_def returnL_def)

lemma outer_bind: "steady m \<Longrightarrow> (\<And>x. steady_outer d (f x)) \<Longrightarrow> steady_outer d (bindL m f)"
  unfolding steady_def steady_outer_def bindL_Inr_iff by metis

lemma outer_bind_outer:
  assumes "steady_outer d m" "\<And>x d1. delta_frame d1 = delta_frame d \<Longrightarrow> steady_outer d (f (x, d1))"
  shows "steady_outer d (bindL m f)"
  unfolding steady_outer_def
proof (intro allI impI)
  fix s x d2 s2
  assume "bindL m f s = Inr ((x, d2), s2)"
  then obtain y d1 s1 where m: "m s = Inr ((y, d1), s1)" and f: "f (y, d1) s1 = Inr ((x, d2), s2)" by (auto simp: bindL_Inr_iff)
  have "delta_frame (st_delta s1) = delta_frame (st_delta s)" "delta_frame d1 = delta_frame d"
    using assms(1) m unfolding steady_outer_def by blast+
  with assms(2) [OF this(2), of y] f show "delta_frame (st_delta s2) = delta_frame (st_delta s) \<and> delta_frame d2 = delta_frame d"
    unfolding steady_outer_def by metis
qed

lemma outer_if [steady_intros]: "(b \<Longrightarrow> steady_outer d m) \<Longrightarrow> (\<not> b \<Longrightarrow> steady_outer d n) \<Longrightarrow> steady_outer d (if b then m else n)"
  by simp

lemma outer_prod [steady_intros]: "(\<And>x y. steady_outer d (f x y)) \<Longrightarrow> steady_outer d (case p of (x, y) \<Rightarrow> f x y)"
  by (simp split: prod.split)

lemma outer_onOuter: "steady m \<Longrightarrow> steady_outer d (onOuter d m)"
  by (force simp: steady_outer_def steady_def onOuter_def bindE_Inr_iff)

section \<open>Frames\<close>

lemma steady_accounts [steady_intros]:
  "steady (loadAccount i)" "steady (account_storeChange f)" "steady (account_storeAdd f)" "steady (account_storeDelete i)"
  unfolding loadAccount_def account_storeChange_def account_storeAdd_def account_storeDelete_def account_storeUpdate_def Let_def
  by (intro steady_intros)+

lemma steady_lines [steady_intros]:
  "steady (loadTrustLine a x)" "steady (trust_storeChange f)" "steady (trust_storeAdd f)" "steady (trust_storeDelete a x)" 
  unfolding loadTrustLine_def trust_storeChange_def trust_storeAdd_def trust_storeDelete_def trust_store_def Let_def
  by (intro steady_intros)+

lemma steady_issuer [steady_intros]: "steady (loadTrustLineIssuer a x)"
  unfolding loadTrustLineIssuer_def by (intro steady_intros)

lemma steady_offers [steady_intros]:
  "steady (loadOffer a i)" "steady (offer_storeChange fdiv g)" "steady (offer_storeAdd fdiv g)" "steady (offer_storeDelete a i)"
  unfolding loadOffer_def offer_storeChange_def offer_storeAdd_def offer_storeDelete_def offer_storeUpdateHelper_def Let_def
  by (intro steady_intros)+

lemma steady_data [steady_intros]:
  "steady (data_storeChange df)" "steady (data_storeAdd df)" "steady (data_storeDelete a n)"
  "steady (reversed_storeChange rf)" "steady (reversed_storeAdd rf)" "steady (reversed_storeDelete j)"
  unfolding data_storeChange_def data_storeAdd_def data_storeDelete_def data_storeUpdateHelper_def
    reversed_storeChange_def reversed_storeAdd_def reversed_storeDelete_def reversed_storeUpdateHelper_def Let_def
  by (intro steady_intros)+

section \<open>Operations\<close>

lemma steady_exchange [steady_intros]:
  "steady (adjustBalance y n line g)" "steady (updateOffer fdiv lm off tk r g)"
  unfolding adjustBalance_def updateOffer_def by (intro steady_intros)+

lemma steady_crossOffer [steady_intros]: "steady (crossOffer fdiv lm off w sh)"
  unfolding crossOffer_def settleOffer_def Let_def by (intro steady_intros)

lemma steady_crossOffers [steady_intros]: "steady (crossOffers fdiv lm keep fs ex)"
  by (induction fs arbitrary: ex) (auto intro!: steady_intros split: OfferFilterResult.split)

lemma steady_convert_loop: "steady (convert_loop n fdiv lm sheep wheat keep ex)"
  by (induction n arbitrary: ex) (auto intro!: steady_intros)

lemma steady_convert [steady_intros]: "steady (convertWithOffers n fdiv lm sheep ms wheat mw keep)"
  unfolding convertWithOffers_def by (rule steady_convert_loop)

lemma steady_ChangeTrust [steady_intros]: "steady (ChangeTrust_doApply app i ct src)"
  unfolding ChangeTrust_doApply_def ChangeTrust_modify_def ChangeTrust_create_def Let_def by (intro steady_intros)

lemma steady_ChangeTrust_case [steady_intros]:
  "steady a \<Longrightarrow> steady b \<Longrightarrow> steady c \<Longrightarrow> steady d \<Longrightarrow> steady e \<Longrightarrow>
   steady (case r of CHANGE_TRUST_SUCCESS \<Rightarrow> a | CHANGE_TRUST_MALFORMED \<Rightarrow> b | CHANGE_TRUST_NO_ISSUER \<Rightarrow> c
     | CHANGE_TRUST_INVALID_LIMIT \<Rightarrow> d | CHANGE_TRUST_LOW_RESERVE \<Rightarrow> e)"
  by (simp split: ChangeTrustResult.split)

lemma steady_createTrustLine [steady_intros]: "steady (createTrustLine app g y)"
  unfolding createTrustLine_def Let_def by (intro steady_intros)

lemma steady_operations [steady_intros]:
  "steady (AllowTrust_doApply i x1 src)" "steady (ManageData_doApply app x2 src)" "steady (SetOptions_doApply app used x3 src)"
  "steady (Merge_doApply j src)"
  unfolding AllowTrust_doApply_def ManageData_doApply_def SetOptions_doApply_def Merge_doApply_def Let_def by (intro steady_intros)+

lemma steady_doleWinners [steady_intros]: "steady (doleWinners am tv ws l)"
proof (induction am tv ws l rule: doleWinners.induct)
  case (2 am tv dest votes ws l)
  have "steady (inHeader (\<lambda>h. bindE (i64 (lh_totalCoins h + n)) (\<lambda>c. Inr (h\<lparr>lh_totalCoins := c\<rparr>))))" for n
    by (rule steady_inHeader) (auto simp: bindE_Inr_iff fixed_fields_def)
  with 2 show ?case by (auto intro!: steady_intros)
qed (simp only: doleWinners.simps, intro steady_intros)

lemma steady_Inflation [steady_intros]: "steady (Inflation_doApply app)"
proof -
  have "steady (inHeader (\<lambda>h. Inr (h\<lparr>lh_feePool := 0, lh_inflationSeq := lh_inflationSeq h + 1\<rparr>)))"
    "steady (inHeader (\<lambda>h. bindE (i64 (lh_feePool h + l)) (\<lambda>p. Inr (h\<lparr>lh_feePool := p\<rparr>))))" for l
    by (rule steady_inHeader; auto simp: bindE_Inr_iff fixed_fields_def)+
  then show ?thesis unfolding Inflation_doApply_def Let_def by (auto intro!: steady_intros)
qed

lemma steady_createDestination [steady_intros]: "steady (createDestination app i j src)"
  unfolding createDestination_def CreateAccount_add_def Let_def
  by (intro steady_bind steady_option steady_prod) (auto intro!: steady_intros split: CreateAccountResult.split)

lemma steady_getCommissionDest [steady_intros]: "steady (getCommissionDest app g y)"
  unfolding getCommissionDest_def by (intro steady_intros)

lemma steady_credit [steady_intros]:
  "steady (PathPayment_destination app i x src)" "steady (PathPayment_credit_native n1 n2 g1 g2)"
  "steady (PathPayment_credit_line app b x n1 n2 g1 g2)" "steady (PathPayment_debit app i y n1 src)"
  unfolding PathPayment_destination_def PathPayment_credit_native_def PathPayment_credit_line_def PathPayment_debit_def Let_def
  by (intro steady_intros)+

lemma steady_walkPath [steady_intros]: "steady (walkPath app i path y n offers)"
  by (induction path arbitrary: y n offers) (auto intro!: steady_intros)

lemma steady_PathPayment [steady_intros]: "steady (PathPayment_doApply app i fee b x src)" "steady (PathPayment_run app i fee b x src)"
proof -
  show p: "steady (PathPayment_doApply app i fee b x src)" unfolding PathPayment_doApply_def by (intro steady_intros)
  show "steady (PathPayment_run app i fee b x src)" unfolding PathPayment_run_def by (intro steady_intros p)
qed

lemma steady_payments [steady_intros]:
  "steady (Payment_doApply app i fee p src)" "steady (PaymentExternal_doApply app i fee e src)"
  unfolding Payment_doApply_def PaymentExternal_doApply_def by (intro steady_intros)+

lemma steady_CreateAccount [steady_intros]: "steady (CreateAccount_doApply app i f x src)"
  unfolding CreateAccount_doApply_def CreateAccount_add_def doApplyCreateScratch_def Let_def
  by (intro steady_bind steady_prod) (auto intro!: steady_intros split: CreateAccountBody.split)

lemma steady_PaymentReversal [steady_intros]: "steady (PaymentReversal_doApply app i x src)"
proof -
  have "steady (reverse_dest app x)"
    unfolding reverse_dest_def by (intro steady_intros)
  then show ?thesis
    unfolding PaymentReversal_doApply_def checkAlreadyReversed_def reverse_commission_def reverse_source_def by (intro steady_intros)
qed

section \<open>Offers\<close>

lemma steady_checkOfferValid [steady_intros]: "steady (checkOfferValid i x)"
  unfolding checkOfferValid_def checkSheep_def checkWheat_def by (intro steady_intros)

lemma steady_settle_source [steady_intros]: "steady (settle_source x w sh l1 l2 src)"
  unfolding settle_source_def settle_line_def settle_native_def by (intro steady_intros)

lemma steady_generateID:
  assumes "\<And>d. steady (f d)"
  shows "steady (bindL getDelta (\<lambda>d. bindL (inHeader (\<lambda>_. Inr (snd (generateID (mCurrentHeader d))))) (\<lambda>_. f d)))"
  unfolding steady_def
proof (intro allI impI)
  fix s x s1
  assume "bindL getDelta (\<lambda>d. bindL (inHeader (\<lambda>_. Inr (snd (generateID (mCurrentHeader d))))) (\<lambda>_. f d)) s = Inr (x, s1)"
  then have "f (st_delta s) (s\<lparr>st_delta := (st_delta s)\<lparr>mCurrentHeader := snd (generateID (mCurrentHeader (st_delta s)))\<rparr>\<rparr>) = Inr (x, s1)"
    by (simp add: bindL_def getDelta_def inHeader_def onDelta_def)
  from steadyD [OF assms this] show "delta_frame (st_delta s1) = delta_frame (st_delta s)"
    by (simp add: delta_frame_def generateID_def fixed_fields_def)
qed

lemma steady_leaveOffer [steady_intros]: "steady (leaveOffer app b off claims src)"
  unfolding leaveOffer_def Let_def split_beta by (rule steady_generateID | rule steady_intros)+

lemma steady_exchangeAndLeave: "steady_outer d (exchangeAndLeave app i b1 b2 x off l1 l2 src d)"
proof -
  have o: "steady_outer d (if b then onOuter d m else returnL (src, d))" if "steady m" for b m
    using outer_onOuter [OF that] by (simp add: outer_return)
  show ?thesis
    unfolding exchangeAndLeave_def
    by (rule outer_if refl | assumption | simp only: prod.case | rule outer_prod | rule outer_bind_outer [OF o] | rule outer_bind | rule outer_return steady_intros)+
qed

lemma steady_ManageOffer [steady_intros]: "steady (ManageOffer_doApply app i b x src)"
  unfolding ManageOffer_doApply_def Let_def
  by (intro steady_intros steady_exchangeAndLeave outer_bind refl)

section \<open>Transactions\<close>

lemma steady_resultL [steady_intros]: "steady m \<Longrightarrow> steady (resultL f m)"
  unfolding resultL_def by (intro steady_intros)

lemma steady_doApply [steady_intros]: "steady (doApply app i fee used b src)"
  by (cases b) (simp_all only: doApply.simps, (intro steady_intros)+)

lemma steady_tx_loadAccount [steady_intros]: "steady (tx_loadAccount b tx i)"
  unfolding tx_loadAccount_def by (intro steady_intros)

lemma steady_op_apply [steady_intros]: "steady (op_apply app op fee tx)"
  unfolding op_apply_def op_checkValid_def by (intro steady_intros)

lemma steady_applyOps [steady_intros]: "steady (applyOps app ops tx)"
  by (induction app ops tx rule: applyOps.induct) (simp_all only: applyOps.simps, (intro steady_intros | assumption)+)

lemma steady_commonValid [steady_intros]: "steady (commonValid app b n tx)"
  unfolding commonValid_def Let_def by (intro steady_intros)

lemma steady_tx_apply [steady_intros]: "steady (tx_apply app tx)"
  unfolding tx_apply_def by (intro steady_intros outer_bind refl)

lemma steady_processFee [steady_intros]: "steady (processFeeSeqNum tx)"
  unfolding processFeeSeqNum_def Let_def by (intro steady_intros)

lemma steady_processFeesSeqNums [steady_intros]: "steady (processFeesSeqNums app txs n t)"
  by (induction txs arbitrary: n t) (simp_all only: processFeesSeqNums.simps, (intro steady_intros | assumption)+)

lemma steady_applyTransaction [steady_intros]: "steady (applyTransaction C app tx)"
  unfolding steady_def
proof (intro allI impI)
  fix s x s1
  assume a: "applyTransaction C app tx s = Inr (x, s1)"
  let ?s = "s\<lparr>st_delta := LedgerDelta_nested (st_delta s)\<rparr>"
  show "delta_frame (st_delta s1) = delta_frame (st_delta s)"
  proof (cases "tx_apply app tx ?s")
    case (Inl e)
    with a show ?thesis by (auto simp: applyTransaction_def split: scp_error.splits prod.splits)
  next
    case (Inr r)
    obtain code rs tm tx1 s2 where r: "r = ((code, rs, tm, tx1), s2)" using prod_cases5 by (metis (no_types) surj_pair)
    have "delta_frame (st_delta s2) = delta_frame (LedgerDelta_nested (st_delta s))"
      using steadyD [OF steady_tx_apply Inr [unfolded r]] by simp
    from nested_frame [OF this] have h: "fixed_fields (mCurrentHeader (st_delta s2)) = fixed_fields (mCurrentHeader (st_delta s))" .
    show ?thesis
    proof (cases "code = txSUCCESS")
      case False
      with a Inr r show ?thesis by (auto simp: applyTransaction_def bindE_Inr_iff)
    next
      case True
      with a Inr r have c: "commitTransaction (st_delta s) s2 (code, rs) tm = Inr (x, s1)" by (simp add: applyTransaction_def)
      show ?thesis
      proof (cases "commit_outer (st_delta s) (st_delta s2)")
        case (Inl e)
        with c show ?thesis by (auto simp: commitTransaction_def split: scp_error.splits)
      next
        case (Inr o1)
        obtain outer1 d1 where o1: "o1 = (outer1, d1)" by (cases o1)
        with c Inr commit_outer_frame [OF Inr [unfolded o1]] h show ?thesis by (auto simp: commitTransaction_def delta_frame_def)
      qed
    qed
  qed
qed

lemma steady_applyTransactions [steady_intros]: "steady (applyTransactions C app txs n t)"
  by (induction txs arbitrary: n t) (simp_all only: applyTransactions.simps, (intro steady_intros | assumption)+)

lemma steady_forL: "(\<And>x. steady (f x)) \<Longrightarrow> steady (forL f xs)"
  by (induction xs) (simp_all only: forL.simps, (intro steady_intros | assumption | simp)+)

lemma steady_checkDelta [steady_intros]: "steady (checkDelta C)"
  unfolding checkDelta_def checkLiveEntry_def checkDeadEntry_def by (intro steady_intros steady_forL)

end
