(* ===== verification/Exchange_Effect.thy ===== *)
theory Exchange_Effect
  imports OfferExchange
begin

text \<open>
  What crossing one offer does to the ledger: the seller gives the wheat, takes the sheep and nothing else, at no
  less than the price of the offer, and the offer is deleted or keeps the rest.
\<close>

section \<open>Changing a balance\<close>

definition moved :: "ledger_map \<Rightarrow> Ledger \<Rightarrow> Ledger \<Rightarrow> AccountID \<Rightarrow> Asset \<Rightarrow> int64 \<Rightarrow> bool" where
  "moved m s s1 a x n \<longleftrightarrow>
     ledger_ok m s1 \<and> same_run s s1 \<and> tb_offers (st_db s1) = tb_offers (st_db s) \<and>
     (\<forall>k. k \<noteq> balance_key a x \<longrightarrow> entries s1 k = entries s k) \<and>
     holding (entries s1) a x = holding (entries s) a x + n"

lemma moved_refl: "ledger_ok m s \<Longrightarrow> moved m s s a x 0"
  by (simp add: moved_def)

lemma moved_wrote:
  assumes "wrote m s s1 k (Some e)" "tb_offers (st_db s1) = tb_offers (st_db s)" "k = balance_key a x"
    "holding ((entries s)(k \<mapsto> e)) a x = holding (entries s) a x + n"
  shows "moved m s s1 a x n"
  using assms by (simp add: moved_def wrote_def)

definition with_balance :: "Asset \<Rightarrow> int64 \<Rightarrow> AccountEntry \<Rightarrow> AccountEntry" where
  "with_balance x n b = (if x = AssetNative then b\<lparr>a_balance := a_balance b + n\<rparr> else b)"

lemma with_balance_simps [simp]:
  "a_accountID (with_balance x n b) = a_accountID b" "a_signers (with_balance x n b) = a_signers b"
  "a_numSubEntries (with_balance x n b) = a_numSubEntries b" "with_balance x 0 b = b"
  by (simp_all add: with_balance_def)

lemma addBalance_moves:
  assumes "isAuthorized l" "is_int64 (t_balance (tf_line l))" "0 \<le> t_balance (tf_line l) + n" "t_balance (tf_line l) + n \<le> t_limit (tf_line l)"
    "t_limit (tf_line l) \<le> INT64_MAX"
  shows "addBalance n l = Inr (True, l\<lparr>tf_line := (tf_line l)\<lparr>t_balance := t_balance (tf_line l) + n\<rparr>\<rparr>)"
proof (cases "n = 0")
  case True
  then show ?thesis by (simp add: addBalance_def)
next
  case False
  have "is_int64 (n + t_balance (tf_line l))" using assms by (simp add: is_int64_def add.commute)
  with False assms show ?thesis by (simp add: addBalance_def Let_def add.commute)
qed

text \<open>The trust line that backs a change of a balance: loaded, authorized, and with room for it.\<close>

definition line_for :: "Ledger \<Rightarrow> AccountID \<Rightarrow> Asset \<Rightarrow> int64 \<Rightarrow> TrustFrame option \<Rightarrow> bool" where
  "line_for s a x n line \<longleftrightarrow>
     (\<exists>l. line = Some l \<and> entries s (TrustLineKey a x) = Some (trust_entry l) \<and> isAuthorized l \<and> \<not> mIsIssuer l \<and>
          t_balance (tf_line l) + n \<le> t_limit (tf_line l))"

lemma wp_adjustBalance:
  assumes s: "ledger_ok m s" and a: "entries s (AccountKey a) = Some (account_entry acc)"
    and n: "n \<noteq> 0 \<Longrightarrow> 0 \<le> holding (entries s) a x + n"
    and native: "n \<noteq> 0 \<Longrightarrow> x = AssetNative \<Longrightarrow> holding (entries s) a x + n \<le> INT64_MAX"
    and line: "n \<noteq> 0 \<Longrightarrow> x \<noteq> AssetNative \<Longrightarrow> line_for s a x n line"
    and Q: "\<And>acc1 s1. moved m s s1 a x n \<Longrightarrow> entries s1 (AccountKey a) = Some (account_entry acc1) \<Longrightarrow>
      af_account acc1 = with_balance x n (af_account acc) \<Longrightarrow> Q (Some acc1) s1"
  shows "wpL (adjustBalance x n line acc) Q s"
proof -
  note held = account_held [OF s a]
  consider "n = 0" | "n \<noteq> 0" "x = AssetNative" | l where "n \<noteq> 0" "x \<noteq> AssetNative" "line = Some l"
      "entries s (TrustLineKey a x) = Some (trust_entry l)" "isAuthorized l" "\<not> mIsIssuer l" "t_balance (tf_line l) + n \<le> t_limit (tf_line l)"
    using line by (auto simp: line_for_def)
  then show ?thesis
  proof cases
    case 1
    then have "moved m s s a x n" using moved_refl [OF s] by simp
    from Q [OF this a] 1 show ?thesis by (simp add: adjustBalance_def)
  next
    case 2
    let ?b = "a_balance (af_account acc) + n" and ?acc = "acc\<lparr>af_account := (af_account acc)\<lparr>a_balance := a_balance (af_account acc) + n\<rparr>\<rparr>"
    have b: "0 \<le> ?b" "?b \<le> INT64_MAX" using n native 2 holding_account [of "entries s", OF a] by simp_all
    then have i: "i64 ?b = Inr ?b" by (simp add: is_int64_def)
    have id: "account_getID ?acc = a" using held(1) by (simp add: account_getID_def)
    have "wpL (account_storeChange ?acc) (\<lambda>acc1. Q (Some acc1)) s"
    proof (rule wp_account_change [OF s, where g = acc])
      fix s1
      assume w: "wrote m s s1 (AccountKey (account_getID ?acc)) (Some (account_entry (stamped s ?acc)))"
        and t: "tb_offers (st_db s1) = tb_offers (st_db s)"
      have "moved m s s1 a x n"
        using moved_wrote [OF w t, of a x n] 2 id holding_account [of "entries s", OF a]
        by (simp add: balance_key_def holding_account)
      then show "Q (Some (stamped s ?acc)) s1"
        using w 2 id by (intro Q) (simp_all add: wrote_def with_balance_def)
    qed (use a b id held in auto)
    with 2 i show ?thesis by (simp add: adjustBalance_def wp_simps)
  next
    case 3
    note th = trust_held [OF s 3(4)]
    let ?l = "l\<lparr>tf_line := (tf_line l)\<lparr>t_balance := t_balance (tf_line l) + n\<rparr>\<rparr>"
    have b: "0 \<le> t_balance (tf_line l) + n" using n 3 holding_trust [of "entries s", OF 3(4)] by simp
    from addBalance_moves [OF 3(5) th(6) b 3(7) th(7)] have add: "addBalance n l = Inr (True, ?l)" .
    have key: "trust_key ?l = TrustLineKey a x" using th by (simp add: trust_key_def)
    have valid: "trust_isValid (tf_line ?l)" "is_int64 (t_balance (tf_line ?l))" using th b 3(7) by (simp_all add: trust_isValid_def is_int64_def)
    have "wpL (trust_storeChange ?l) (\<lambda>_. Q (Some acc)) s"
    proof (rule wp_trust_change [OF s, where g = l])
      fix s1
      assume w: "wrote m s s1 (trust_key ?l) (Some (trust_entry (trust_stamped s ?l)))"
        and t: "tb_offers (st_db s1) = tb_offers (st_db s)"
      have "moved m s s1 a x n"
        using moved_wrote [OF w t, of a x n] 3 key holding_trust [of "entries s", OF 3(4)]
        by (simp add: balance_key_def holding_trust)
      then show "Q (Some acc) s1"
        using w 3 key a by (intro Q) (simp_all add: wrote_def with_balance_def)
    qed (use 3 key valid th in auto)
    with 3 add show ?thesis by (simp add: adjustBalance_def wp_simps)
  qed
qed

section \<open>Deleting or reducing the offer\<close>

lemma addNumEntries_decrement:
  assumes "0 < unat (a_numSubEntries (af_account acc))" "unat (a_numSubEntries (af_account acc)) < 2 ^ 31"
  shows "addNumEntries lm (-1) acc = Inr (True, acc\<lparr>af_account := (af_account acc)\<lparr>a_numSubEntries := a_numSubEntries (af_account acc) - 1\<rparr>\<rparr>)"
proof -
  let ?n = "a_numSubEntries (af_account acc)"
  have "int 0 < int (unat ?n)" "int (unat ?n) < int (2 ^ 31)" using assms by (simp_all only: of_nat_less_iff)
  then have n: "0 < uint ?n" "uint ?n < 2 ^ 31" by simp_all
  then have "1 \<le> ?n" by (simp add: word_le_def)
  then have u: "uint (?n - 1) = uint ?n - 1" using uint_sub_lem [of 1 ?n] by (simp add: word_le_def)
  have "sint (?n - 1) = signed_take_bit 31 (uint (?n - 1))" by (simp add: sint_uint)
  also have "\<dots> = uint ?n - 1" unfolding u using n by (intro signed_take_bit_int_eq_self) simp_all
  finally have "sint (?n + word_of_int (-1)) = uint ?n - 1" by simp
  moreover have "word_of_int (uint ?n - 1) = ?n - 1" using u by (metis word_of_int_uint)
  moreover have "0 \<le> uint ?n - 1" using n by simp
  ultimately show ?thesis unfolding addNumEntries_def by (simp add: Let_def)
qed

definition reduced :: "Ledger \<Rightarrow> OfferFrame \<Rightarrow> int64 \<Rightarrow> OfferFrame" where
  "reduced s f rest = offer_stamped s (f\<lparr>of_offer := (of_offer f)\<lparr>o_amount := rest\<rparr>\<rparr>)"

text \<open>The entry, the row and the account of the seller after the offer was taken, or reduced to the rest.\<close>

definition offer_updated :: "ledger_map \<Rightarrow> (int32 \<Rightarrow> int32 \<Rightarrow> rat) \<Rightarrow> Ledger \<Rightarrow> Ledger \<Rightarrow> OfferFrame \<Rightarrow> bool \<Rightarrow> int64 \<Rightarrow> bool" where
  "offer_updated m fdiv s s1 f taken rest \<longleftrightarrow>
     ledger_ok m s1 \<and> same_run s s1 \<and>
     entries s1 (offer_key f) = (if taken then None else Some (offer_entry (reduced s f rest))) \<and>
     (\<forall>k. k \<noteq> offer_key f \<and> k \<noteq> AccountKey (o_sellerID (of_offer f)) \<longrightarrow> entries s1 k = entries s k) \<and>
     tb_offers (st_db s1) =
       (if taken then map_erase (o_offerID (of_offer f)) (tb_offers (st_db s))
        else map_put (o_offerID (of_offer f)) (row_of_offer fdiv (reduced s f rest)) (tb_offers (st_db s)))"

definition without_entry :: "bool \<Rightarrow> AccountEntry \<Rightarrow> AccountEntry" where
  "without_entry taken b = (if taken then b\<lparr>a_numSubEntries := a_numSubEntries b - 1\<rparr> else b)"

lemma without_entry_simps [simp]:
  "a_accountID (without_entry t b) = a_accountID b" "a_signers (without_entry t b) = a_signers b" "a_balance (without_entry t b) = a_balance b"
  by (simp_all add: without_entry_def)

lemma wp_updateOffer:
  assumes s: "ledger_ok m s" and f: "entries s (offer_key f) = Some (offer_entry f)"
    and a: "entries s (AccountKey (o_sellerID (of_offer f))) = Some (account_entry acc)"
    and n: "length (a_signers (af_account acc)) < unat (a_numSubEntries (af_account acc))" "unat (a_numSubEntries (af_account acc)) < 2 ^ 31"
    and rest: "0 \<le> rest" "rest \<le> INT64_MAX"
    and Q: "\<And>acc1 s1. offer_updated m fdiv s s1 f taken rest \<Longrightarrow>
      entries s1 (AccountKey (o_sellerID (of_offer f))) = Some (account_entry acc1) \<Longrightarrow>
      af_account acc1 = without_entry taken (af_account acc) \<Longrightarrow> Q acc1 s1"
  shows "wpL (updateOffer fdiv lm f taken rest acc) Q s"
proof (cases taken)
  case True
  let ?acc = "acc\<lparr>af_account := (af_account acc)\<lparr>a_numSubEntries := a_numSubEntries (af_account acc) - 1\<rparr>\<rparr>"
  have id: "account_getID ?acc = o_sellerID (of_offer f)" using account_held(1) [OF s a] by (simp add: account_getID_def)
  have "wpL (offer_storeDelete (o_sellerID (of_offer f)) (o_offerID (of_offer f))) (\<lambda>_. wpL (account_storeChange ?acc) Q) s"
  proof (rule wp_offer_delete [OF s])
    show "entries s (OfferKey (o_sellerID (of_offer f)) (o_offerID (of_offer f))) \<noteq> None" using f by (simp add: offer_key_def)
    fix s1
    assume w1: "wrote m s s1 (OfferKey (o_sellerID (of_offer f)) (o_offerID (of_offer f))) None"
      and t1: "tb_offers (st_db s1) = map_erase (o_offerID (of_offer f)) (tb_offers (st_db s))"
    have s1: "ledger_ok m s1" by (rule stored_ok [OF w1])
    have a1: "entries s1 (AccountKey (o_sellerID (of_offer f))) = Some (account_entry acc)" using w1 a by (simp add: wrote_def)
    show "wpL (account_storeChange ?acc) Q s1"
    proof (rule wp_account_change [OF s1, where g = acc])
      fix s2
      assume w2: "wrote m s1 s2 (AccountKey (account_getID ?acc)) (Some (account_entry (stamped s1 ?acc)))"
        and t2: "tb_offers (st_db s2) = tb_offers (st_db s1)"
      show "Q (stamped s1 ?acc) s2"
      proof (rule Q)
        show "offer_updated m fdiv s s2 f taken rest"
          using w1 w2 t1 t2 True id same_run_trans [of s s1 s2] by (simp add: offer_updated_def wrote_def offer_key_def)
      qed (use w2 id True in \<open>simp_all add: wrote_def without_entry_def\<close>)
    next
      assume "a_numSubEntries (af_account ?acc) = 0"
      then have "a_numSubEntries (af_account acc) = 1" by simp
      with n(1) show "a_signers (af_account ?acc) = []" by simp
    qed (use a1 id account_held(3,4) [OF s a] in simp_all)
  qed
  with True n show ?thesis by (simp add: updateOffer_def wp_simps addNumEntries_decrement)
next
  case False
  let ?f = "f\<lparr>of_offer := (of_offer f)\<lparr>o_amount := rest\<rparr>\<rparr>"
  have key: "offer_key ?f = offer_key f" by (simp add: offer_key_def)
  have "wpL (offer_storeChange fdiv ?f) (\<lambda>_. Q acc) s"
  proof (rule wp_offer_change [OF s, where g = f])
    fix s1
    assume w: "wrote m s s1 (offer_key ?f) (Some (offer_entry (offer_stamped s ?f)))"
      and t: "tb_offers (st_db s1) = map_put (o_offerID (of_offer ?f)) (row_of_offer fdiv (offer_stamped s ?f)) (tb_offers (st_db s))"
    show "Q acc s1"
    proof (rule Q)
      show "offer_updated m fdiv s s1 f taken rest"
        using w t False key by (simp add: offer_updated_def wrote_def reduced_def)
    qed (use w a key False in \<open>simp_all add: wrote_def without_entry_def offer_key_def\<close>)
  qed (use f key rest offer_held(3) [OF s f [unfolded offer_key_def]] in \<open>simp_all add: offer_ok_def\<close>)
  with False show ?thesis by (simp add: updateOffer_def wp_simps)
qed

section \<open>The amounts against the balances\<close>

lemma price_bounds: "price_ok p \<Longrightarrow> 0 < price_n p \<and> price_n p \<le> INT64_MAX \<and> 0 < price_d p \<and> price_d p \<le> INT64_MAX"
  by (simp add: price_ok_def)

lemma sellerMaxWheat_room:
  assumes s: "ledger_ok m s" and line: "map_option trust_entry line = entries s (TrustLineKey a x)" and p: "price_ok p"
    and x: "x \<noteq> AssetNative" "0 \<le> holding (entries s) a x"
  obtains n where "sellerMaxWheat p line = Inr n" "0 \<le> n" "n \<le> INT64_MAX"
    "\<And>w. 0 < w \<Longrightarrow> w \<le> n \<Longrightarrow> \<exists>l. line = Some l \<and> isAuthorized l \<and> t_balance (tf_line l) + w * price_n p div price_d p \<le> t_limit (tf_line l)"
proof (cases "\<exists>l. line = Some l \<and> isAuthorized l")
  case False
  have "bigDivide 0 (price_d p) (price_n p) = Inr (Some 0)" using bigDivide_signed [of 0 "price_d p" "price_n p"] price_bounds [OF p] by simp
  then have "sellerMaxWheat p line = Inr 0"
    using False by (cases line) (simp_all add: sellerMaxWheat_def getMaxAmountReceive_def)
  then show thesis by (intro that [of 0]) simp_all
next
  case True
  then obtain l where l: "line = Some l" "isAuthorized l" by blast
  with line have e: "entries s (TrustLineKey a x) = Some (trust_entry l)" by simp
  note th = trust_held [OF s e]
  let ?room = "t_limit (tf_line l) - t_balance (tf_line l)" and ?n = "price_n p" and ?d = "price_d p"
  have b: "0 \<le> t_balance (tf_line l)" using x holding_trust [of "entries s", OF e] by simp
  have room: "0 \<le> ?room" "?room \<le> INT64_MAX" using th b by (simp_all add: trust_isValid_def)
  let ?q = "?room * ?d div ?n"
  have big: "bigDivide ?room ?d ?n = Inr (if ?q \<le> INT64_MAX then Some ?q else None)"
    using price_bounds [OF p] by (intro bigDivide_signed [OF room]) auto
  have q: "0 \<le> ?q" using room price_bounds [OF p] by (simp add: pos_imp_zdiv_nonneg_iff)
  show thesis
  proof (rule that [of "min ?q INT64_MAX"])
    show "sellerMaxWheat p line = Inr (min ?q INT64_MAX)"
      using l room big by (simp add: sellerMaxWheat_def getMaxAmountReceive_def is_int64_def)
    fix w :: int
    assume "0 < w" "w \<le> min ?q INT64_MAX"
    then have "w * ?n \<le> ?q * ?n" using price_bounds [OF p] by (intro mult_right_mono) auto
    also have "\<dots> \<le> ?room * ?d"
      using div_mult_mod_eq [of "?room * ?d" ?n] pos_mod_sign [of ?n "?room * ?d"] price_bounds [OF p] by linarith
    finally have "w * ?n div ?d \<le> ?room * ?d div ?d" using price_bounds [OF p] by (intro zdiv_mono1) auto
    then have "w * ?n div ?d \<le> ?room" using price_bounds [OF p] by simp
    with l show "\<exists>l. line = Some l \<and> isAuthorized l \<and> t_balance (tf_line l) + w * ?n div ?d \<le> t_limit (tf_line l)" by simp
  qed (use q in simp_all)
qed

lemma wheatCanSell_held:
  assumes s: "ledger_ok m s" and acc: "entries s (AccountKey a) = Some (account_entry acc)"
    and line: "x \<noteq> AssetNative \<Longrightarrow> map_option trust_entry line = entries s (TrustLineKey a x)" and x: "0 \<le> holding (entries s) a x"
  obtains n where "wheatCanSell lm x acc line = Inr n" "0 \<le> n" "n \<le> INT64_MAX" "n \<le> holding (entries s) a x"
    "\<And>w. 0 < w \<Longrightarrow> w \<le> n \<Longrightarrow> x \<noteq> AssetNative \<Longrightarrow> \<exists>l. line = Some l \<and> isAuthorized l"
proof (cases "x = AssetNative")
  case True
  let ?b = "a_balance (af_account acc)" and ?r = "getMinBalance lm (a_numSubEntries (af_account acc))"
  have h: "holding (entries s) a x = ?b" using True holding_account [of "entries s", OF acc] by simp
  have b: "0 \<le> ?b" "?b \<le> INT64_MAX" by (rule account_held [OF s acc])+
  have "0 \<le> ?r" "?r < 2 ^ 32" using uint_lt2p [of "(2 + a_numSubEntries (af_account acc)) * lh_baseReserve lm"] by (simp_all add: getMinBalance_def)
  with b have "is_int64 (?b - ?r)" by (simp add: is_int64_def)
  then have "wheatCanSell lm x acc line = Inr (max 0 (?b - ?r))"
    using True by (simp add: wheatCanSell_def getBalanceAboveReserve_def max_def)
  with True h b \<open>0 \<le> ?r\<close> show thesis by (intro that [of "max 0 (?b - ?r)"]) auto
next
  case False
  show thesis
  proof (cases "\<exists>l. line = Some l \<and> isAuthorized l")
    case True
    then obtain l where l: "line = Some l" "isAuthorized l" by blast
    with line False have e: "entries s (TrustLineKey a x) = Some (trust_entry l)" by simp
    note th = trust_held [OF s e]
    have h: "holding (entries s) a x = t_balance (tf_line l)" using holding_trust [of "entries s", OF e False] .
    with False l th x show thesis
      by (intro that [of "t_balance (tf_line l)"]) (simp_all add: wheatCanSell_def trust_getBalance_def assertE_def is_int64_def)
  next
    case nol: False
    then have "wheatCanSell lm x acc line = Inr 0" using False by (cases line) (simp_all add: wheatCanSell_def)
    with x show thesis by (intro that [of 0]) simp_all
  qed
qed

section \<open>Crossing an offer\<close>

definition offers_of :: "AccountID \<Rightarrow> (uint64 \<times> OfferRow) list \<Rightarrow> nat" where
  "offers_of a t = length (filter (\<lambda>(_, r). or_sellerid r = a) t)"

text \<open>
  What an offer of the book relies on: a positive price, two assets that differ, a seller who exists, owes nothing
  of them and counts his offers and signers among his sub-entries.
\<close>

definition seller_ok :: "Ledger \<Rightarrow> OfferEntry \<Rightarrow> bool" where
  "seller_ok s x \<longleftrightarrow>
     price_ok (o_price x) \<and> o_selling x \<noteq> o_buying x \<and>
     0 \<le> holding (entries s) (o_sellerID x) (o_selling x) \<and> 0 \<le> holding (entries s) (o_sellerID x) (o_buying x) \<and>
     (\<exists>acc. entries s (AccountKey (o_sellerID x)) = Some (account_entry acc) \<and>
        length (a_signers (af_account acc)) + offers_of (o_sellerID x) (tb_offers (st_db s)) \<le> unat (a_numSubEntries (af_account acc)) \<and>
        unat (a_numSubEntries (af_account acc)) < 2 ^ 31)"

definition gain :: "OfferEntry \<Rightarrow> int64 \<Rightarrow> int64 \<Rightarrow> AccountID \<Rightarrow> Asset \<Rightarrow> int64" where
  "gain x w sh a y = (if a = o_sellerID x then (if y = o_buying x then sh else 0) - (if y = o_selling x then w else 0) else 0)"

text \<open>The exchange of \<open>w\<close> wheat for \<open>sh\<close> sheep with the seller of the offer.\<close>

definition crossed :: "ledger_map \<Rightarrow> (int32 \<Rightarrow> int32 \<Rightarrow> rat) \<Rightarrow> Ledger \<Rightarrow> Ledger \<Rightarrow> OfferFrame \<Rightarrow> bool \<Rightarrow> int64 \<Rightarrow> int64 \<Rightarrow> int64 \<Rightarrow> bool" where
  "crossed m fdiv s s1 f taken rest w sh \<longleftrightarrow>
     ledger_ok m s1 \<and> same_run s s1 \<and>
     (\<forall>a y. holding (entries s1) a y = holding (entries s) a y + gain (of_offer f) w sh a y) \<and>
     entries s1 (offer_key f) = (if taken then None else Some (offer_entry (reduced s f rest))) \<and>
     (\<forall>k. k \<noteq> offer_key f \<and> k \<noteq> AccountKey (o_sellerID (of_offer f)) \<and>
        k \<noteq> balance_key (o_sellerID (of_offer f)) (o_buying (of_offer f)) \<and>
        k \<noteq> balance_key (o_sellerID (of_offer f)) (o_selling (of_offer f)) \<longrightarrow> entries s1 k = entries s k) \<and>
     (\<exists>acc acc1. entries s (AccountKey (o_sellerID (of_offer f))) = Some (account_entry acc) \<and>
        entries s1 (AccountKey (o_sellerID (of_offer f))) = Some (account_entry acc1) \<and>
        a_signers (af_account acc1) = a_signers (af_account acc) \<and>
        a_numSubEntries (af_account acc1) = a_numSubEntries (af_account acc) - (if taken then 1 else 0)) \<and>
     tb_offers (st_db s1) =
       (if taken then map_erase (o_offerID (of_offer f)) (tb_offers (st_db s))
        else map_put (o_offerID (of_offer f)) (row_of_offer fdiv (reduced s f rest)) (tb_offers (st_db s)))"

definition claim_of :: "OfferEntry \<Rightarrow> int64 \<Rightarrow> int64 \<Rightarrow> ClaimOfferAtom" where
  "claim_of x w sh = \<lparr>ca_sellerID = o_sellerID x, ca_offerID = o_offerID x, ca_assetSold = o_selling x, ca_amountSold = w,
     ca_assetBought = o_buying x, ca_amountBought = sh\<rparr>"

lemma holding_updated:
  assumes "offer_updated m fdiv s s1 f taken rest" "entries s (AccountKey (o_sellerID (of_offer f))) = Some (account_entry acc)"
    "entries s1 (AccountKey (o_sellerID (of_offer f))) = Some (account_entry acc1)" "a_balance (af_account acc1) = a_balance (af_account acc)"
  shows "holding (entries s1) a y = holding (entries s) a y"
proof (cases "a = o_sellerID (of_offer f) \<and> y = AssetNative")
  case True
  with assms(4) show ?thesis using holding_account [of "entries s", OF assms(2)] holding_account [of "entries s1", OF assms(3)] by simp
next
  case False
  then show ?thesis using assms(1) by (intro holding_cong) (auto simp: offer_updated_def balance_key_def offer_key_def)
qed

lemma holding_moved: "moved m s s1 a x n \<Longrightarrow> holding (entries s1) b y = holding (entries s) b y + (if b = a \<and> y = x then n else 0)"
  by (cases "b = a \<and> y = x") (auto simp: moved_def balance_key_inj intro!: holding_cong)

lemma line_for_same: "entries s1 (TrustLineKey a x) = entries s (TrustLineKey a x) \<Longrightarrow> line_for s1 a x n line = line_for s a x n line"
  by (simp add: line_for_def)

lemma wp_settleOffer:
  assumes s: "ledger_ok m s" and f: "entries s (offer_key f) = Some (offer_entry f)"
    and a: "entries s (AccountKey (o_sellerID (of_offer f))) = Some (account_entry acc)"
    and n: "length (a_signers (af_account acc)) < unat (a_numSubEntries (af_account acc))" "unat (a_numSubEntries (af_account acc)) < 2 ^ 31"
    and ne: "o_selling (of_offer f) \<noteq> o_buying (of_offer f)"
    and w: "0 \<le> w" "w \<le> amount" "amount \<le> INT64_MAX" "w \<le> holding (entries s) (o_sellerID (of_offer f)) (o_selling (of_offer f))"
      "w \<noteq> 0 \<Longrightarrow> o_selling (of_offer f) \<noteq> AssetNative \<Longrightarrow> line_for s (o_sellerID (of_offer f)) (o_selling (of_offer f)) (- w) wline"
    and sh: "0 \<le> sh" "0 \<le> holding (entries s) (o_sellerID (of_offer f)) (o_buying (of_offer f))"
      "sh \<noteq> 0 \<Longrightarrow> o_buying (of_offer f) = AssetNative \<Longrightarrow> holding (entries s) (o_sellerID (of_offer f)) AssetNative + sh \<le> INT64_MAX"
      "sh \<noteq> 0 \<Longrightarrow> o_buying (of_offer f) \<noteq> AssetNative \<Longrightarrow> line_for s (o_sellerID (of_offer f)) (o_buying (of_offer f)) sh sline"
    and t: "taken \<longleftrightarrow> bogus \<or> amount \<le> w"
    and Q: "\<And>s1. crossed m fdiv s s1 f taken (amount - w) w sh \<Longrightarrow>
      Q (if taken then eOfferTaken else eOfferPartial, w, sh, [claim_of (of_offer f) w sh]) s1"
  shows "wpL (settleOffer fdiv lm f bogus w sh amount acc wline sline) Q s"
proof -
  let ?a = "o_sellerID (of_offer f)" and ?y = "o_buying (of_offer f)" and ?x = "o_selling (of_offer f)"
  have rest: "0 \<le> amount - w" "amount - w \<le> INT64_MAX" using w by simp_all
  have "wpL (updateOffer fdiv lm f taken (amount - w) acc) (\<lambda>acc1.
      wpL (adjustBalance ?y sh sline acc1) (\<lambda>a2. wpL (case a2 of None \<Rightarrow> returnL (eOfferCantConvert, w, sh, [])
        | Some acc2 \<Rightarrow> bindL (adjustBalance ?x (- w) wline acc2) (\<lambda>a3. case a3 of None \<Rightarrow> returnL (eOfferCantConvert, w, sh, [])
          | Some acc3 \<Rightarrow> returnL (if taken then eOfferTaken else eOfferPartial, w, sh,
              [(claim_of (of_offer f) w sh)\<lparr>ca_sellerID := account_getID acc3\<rparr>]))) Q)) s"
  proof (rule wp_updateOffer [OF s f a n rest])
    fix acc1 s1
    assume u: "offer_updated m fdiv s s1 f taken (amount - w)" and a1: "entries s1 (AccountKey ?a) = Some (account_entry acc1)"
      and e1: "af_account acc1 = without_entry taken (af_account acc)"
    have s1: "ledger_ok m s1" using u by (simp add: offer_updated_def)
    have h1: "holding (entries s1) b z = holding (entries s) b z" for b z
      using holding_updated [OF u a a1] e1 by simp
    have l1: "entries s1 (TrustLineKey b z) = entries s (TrustLineKey b z)" for b z
      using u by (simp add: offer_updated_def offer_key_def)
    show "wpL (adjustBalance ?y sh sline acc1) (\<lambda>a2. wpL (case a2 of None \<Rightarrow> returnL (eOfferCantConvert, w, sh, [])
        | Some acc2 \<Rightarrow> bindL (adjustBalance ?x (- w) wline acc2) (\<lambda>a3. case a3 of None \<Rightarrow> returnL (eOfferCantConvert, w, sh, [])
          | Some acc3 \<Rightarrow> returnL (if taken then eOfferTaken else eOfferPartial, w, sh,
              [(claim_of (of_offer f) w sh)\<lparr>ca_sellerID := account_getID acc3\<rparr>]))) Q) s1"
    proof (rule wp_adjustBalance [OF s1 a1])
      show "sh \<noteq> 0 \<Longrightarrow> ?y \<noteq> AssetNative \<Longrightarrow> line_for s1 ?a ?y sh sline" using sh(4) line_for_same [OF l1] by simp
      fix acc2 s2
      assume v: "moved m s1 s2 ?a ?y sh" and a2: "entries s2 (AccountKey ?a) = Some (account_entry acc2)"
        and e2: "af_account acc2 = with_balance ?y sh (af_account acc1)"
      have s2: "ledger_ok m s2" using v by (simp add: moved_def)
      have l2: "?x \<noteq> AssetNative \<Longrightarrow> entries s2 (TrustLineKey ?a ?x) = entries s (TrustLineKey ?a ?x)"
        using v ne l1 by (simp add: moved_def balance_key_def)
      have h2: "holding (entries s2) ?a ?x = holding (entries s) ?a ?x" using holding_moved [OF v, of ?a ?x] h1 ne by simp
      have "wpL (adjustBalance ?x (- w) wline acc2) (\<lambda>a3. wpL (case a3 of None \<Rightarrow> returnL (eOfferCantConvert, w, sh, [])
          | Some acc3 \<Rightarrow> returnL (if taken then eOfferTaken else eOfferPartial, w, sh,
              [(claim_of (of_offer f) w sh)\<lparr>ca_sellerID := account_getID acc3\<rparr>])) Q) s2"
      proof (rule wp_adjustBalance [OF s2 a2])
        show "- w \<noteq> 0 \<Longrightarrow> ?x \<noteq> AssetNative \<Longrightarrow> line_for s2 ?a ?x (- w) wline" using w(5) line_for_same [OF l2] by simp
        show "- w \<noteq> 0 \<Longrightarrow> ?x = AssetNative \<Longrightarrow> holding (entries s2) ?a ?x + - w \<le> INT64_MAX"
          using w(1) h2 holding_account [of "entries s", OF a] account_held(4) [OF s a] by simp
        fix acc3 s3
        assume z: "moved m s2 s3 ?a ?x (- w)" and a3: "entries s3 (AccountKey ?a) = Some (account_entry acc3)"
          and e3: "af_account acc3 = with_balance ?x (- w) (af_account acc2)"
        have id: "account_getID acc3 = ?a" using account_held(1) [OF _ a3, of m] z by (simp add: moved_def)
        have h3: "holding (entries s3) b c = holding (entries s) b c + gain (of_offer f) w sh b c" for b c
          using holding_moved [OF z, of b c] holding_moved [OF v, of b c] h1 [of b c] by (auto simp: gain_def)
        have "crossed m fdiv s s3 f taken (amount - w) w sh"
          unfolding crossed_def
        proof (intro conjI)
          show "same_run s s3" using u v z by (auto simp: offer_updated_def moved_def intro: same_run_trans)
          show "\<exists>acc acc1. entries s (AccountKey ?a) = Some (account_entry acc) \<and> entries s3 (AccountKey ?a) = Some (account_entry acc1) \<and>
              a_signers (af_account acc1) = a_signers (af_account acc) \<and>
              a_numSubEntries (af_account acc1) = a_numSubEntries (af_account acc) - (if taken then 1 else 0)"
            using a a3 e1 e2 e3 by (intro exI [of _ acc] exI [of _ acc3]) (simp add: without_entry_def)
          show "entries s3 (offer_key f) = (if taken then None else Some (offer_entry (reduced s f (amount - w))))"
            using u v z by (simp add: offer_updated_def moved_def balance_key_def offer_key_def)
        qed (use u v z h3 in \<open>auto simp: offer_updated_def moved_def\<close>)
        from Q [OF this] show "wpL (case Some acc3 of None \<Rightarrow> returnL (eOfferCantConvert, w, sh, [])
          | Some acc3 \<Rightarrow> returnL (if taken then eOfferTaken else eOfferPartial, w, sh,
              [(claim_of (of_offer f) w sh)\<lparr>ca_sellerID := account_getID acc3\<rparr>])) Q s3"
          using id by (simp add: claim_of_def)
      qed (use w h2 in simp_all)
      then show "wpL (case Some acc2 of None \<Rightarrow> returnL (eOfferCantConvert, w, sh, [])
        | Some acc2 \<Rightarrow> bindL (adjustBalance ?x (- w) wline acc2) (\<lambda>a3. case a3 of None \<Rightarrow> returnL (eOfferCantConvert, w, sh, [])
          | Some acc3 \<Rightarrow> returnL (if taken then eOfferTaken else eOfferPartial, w, sh,
              [(claim_of (of_offer f) w sh)\<lparr>ca_sellerID := account_getID acc3\<rparr>]))) Q s2"
        by (simp add: wp_simps)
    qed (use sh h1 in simp_all)
  qed
  then show ?thesis unfolding settleOffer_def Let_def t [symmetric] wpL_bindL claim_of_def ClaimOfferAtom.update_convs .
qed

lemma offers_of_held:
  assumes "ledger_ok m s" "entries s (offer_key f) = Some (offer_entry f)"
  shows "0 < offers_of (o_sellerID (of_offer f)) (tb_offers (st_db s))"
proof -
  obtain r where "map_of (tb_offers (st_db s)) (o_offerID (of_offer f)) = Some r" "or_sellerid r = o_sellerID (of_offer f)"
    using offer_held(4) [OF assms(1) assms(2) [unfolded offer_key_def]] by blast
  then have "(o_offerID (of_offer f), r) \<in> set (filter (\<lambda>(_, r). or_sellerid r = o_sellerID (of_offer f)) (tb_offers (st_db s)))"
    by (auto dest: map_of_SomeD)
  then show ?thesis unfolding offers_of_def by (rule length_pos_if_in_set)
qed

lemma loaded_entry: "loaded m s s1 \<Longrightarrow> entries s1 k = entries s k"
  by (simp add: loaded_def)

text \<open>What loading the seller gives.\<close>

lemma wp_load_optional:
  assumes "ledger_ok m s" "asset_ok x"
    "\<And>line s1. loaded m s s1 \<Longrightarrow> x \<noteq> AssetNative \<Longrightarrow> map_option trust_entry line = entries s (TrustLineKey a x) \<Longrightarrow>
       \<forall>l. line = Some l \<longrightarrow> \<not> mIsIssuer l \<Longrightarrow> Q line s1"
    "x = AssetNative \<Longrightarrow> Q None s"
  shows "wpL (if x \<noteq> AssetNative then loadTrustLine a x else returnL None) Q s"
  using assms by (auto simp: wp_simps intro: wp_loadTrustLine)

definition fair :: "OfferEntry \<Rightarrow> int64 \<Rightarrow> int64 \<Rightarrow> bool" where
  "fair x w sh \<longleftrightarrow> 0 \<le> w \<and> w \<le> o_amount x \<and> 0 \<le> sh \<and> w * price_n (o_price x) \<le> sh * price_d (o_price x)"

text \<open>From the loaded account and lines to the result.\<close>

definition line_loaded :: "Ledger \<Rightarrow> AccountID \<Rightarrow> Asset \<Rightarrow> TrustFrame option \<Rightarrow> bool" where
  "line_loaded s a x line \<longleftrightarrow>
     (x \<noteq> AssetNative \<longrightarrow> map_option trust_entry line = entries s (TrustLineKey a x) \<and> (\<forall>l. line = Some l \<longrightarrow> \<not> mIsIssuer l))"

lemma line_forI:
  assumes "line_loaded s a x line" "x \<noteq> AssetNative" "\<exists>l. line = Some l \<and> isAuthorized l \<and> t_balance (tf_line l) + n \<le> t_limit (tf_line l)"
  shows "line_for s a x n line"
  using assms by (auto simp: line_loaded_def line_for_def)

lemma wp_exchange:
  fixes f :: OfferFrame
  defines "x \<equiv> of_offer f"
  assumes s: "ledger_ok m s" and f: "entries s (offer_key f) = Some (offer_entry f)" and ok: "seller_ok s x"
    and a: "entries s (AccountKey (o_sellerID x)) = Some (account_entry acc)"
      "length (a_signers (af_account acc)) < unat (a_numSubEntries (af_account acc))" "unat (a_numSubEntries (af_account acc)) < 2 ^ 31"
    and lim: "0 \<le> maxW" "maxW \<le> INT64_MAX" "0 \<le> maxS" "maxS \<le> INT64_MAX"
    and native: "o_buying x = AssetNative \<Longrightarrow> holding (entries s) (o_sellerID x) AssetNative + maxS \<le> INT64_MAX"
    and lines: "line_loaded s (o_sellerID x) (o_selling x) wline" "line_loaded s (o_sellerID x) (o_buying x) sline"
    and cant: "\<And>w sh. Q (eOfferCantConvert, w, sh, []) s"
    and Q: "\<And>s1 taken amount w sh. crossed m fdiv s s1 f taken (amount - w) w sh \<Longrightarrow> fair x w sh \<Longrightarrow>
      w \<le> holding (entries s) (o_sellerID x) (o_selling x) \<Longrightarrow> w \<le> maxW \<Longrightarrow> sh \<le> maxS \<Longrightarrow> Q (if taken then eOfferTaken else eOfferPartial, w, sh, [claim_of x w sh]) s1"
  shows "wpL (bindL (liftE (if o_buying x = AssetNative then Inr INT64_MAX else sellerMaxWheat (o_price x) sline)) (\<lambda>numWheat.
      bindL (liftE (wheatCanSell lm (o_selling x) acc wline)) (\<lambda>canSell.
      bindL (liftE (cross_amounts (o_price x) (o_amount x) numWheat canSell maxW maxS)) (\<lambda>(w, sh, amount, reducedOffer).
      if w = 0 \<or> sh = 0
      then if reducedOffer then returnL (eOfferCantConvert, w, sh, []) else settleOffer fdiv lm f True 0 0 amount acc wline sline
      else settleOffer fdiv lm f False w sh amount acc wline sline)))) Q s"
proof -
  let ?a = "o_sellerID x" and ?p = "o_price x"
  have p: "price_ok ?p" and ne: "o_selling x \<noteq> o_buying x"
    and h: "0 \<le> holding (entries s) ?a (o_selling x)" "0 \<le> holding (entries s) ?a (o_buying x)"
    using ok by (simp_all add: seller_ok_def)
  have amount: "0 \<le> o_amount x" "o_amount x \<le> INT64_MAX"
    using offer_held(3) [OF s f [unfolded offer_key_def]] by (simp_all add: offer_ok_def x_def)
  obtain nw where nw: "(if o_buying x = AssetNative then Inr INT64_MAX else sellerMaxWheat ?p sline) = Inr nw" "0 \<le> nw" "nw \<le> INT64_MAX"
    "\<And>w. o_buying x \<noteq> AssetNative \<Longrightarrow> 0 < w \<Longrightarrow> w \<le> nw \<Longrightarrow>
      \<exists>l. sline = Some l \<and> isAuthorized l \<and> t_balance (tf_line l) + w * price_n ?p div price_d ?p \<le> t_limit (tf_line l)"
  proof (cases "o_buying x = AssetNative")
    case True
    then show thesis by (intro that [of INT64_MAX]) simp_all
  next
    case False
    then obtain n where "sellerMaxWheat ?p sline = Inr n" "0 \<le> n" "n \<le> INT64_MAX" "\<And>w. 0 < w \<Longrightarrow> w \<le> n \<Longrightarrow>
        \<exists>l. sline = Some l \<and> isAuthorized l \<and> t_balance (tf_line l) + w * price_n ?p div price_d ?p \<le> t_limit (tf_line l)"
      using sellerMaxWheat_room [OF s _ p False h(2), of sline] lines(2) by (auto simp: line_loaded_def)
    with False show thesis by (intro that [of n]) simp_all
  qed
  obtain cs where cs: "wheatCanSell lm (o_selling x) acc wline = Inr cs" "0 \<le> cs" "cs \<le> INT64_MAX" "cs \<le> holding (entries s) ?a (o_selling x)"
    "\<And>w. 0 < w \<Longrightarrow> w \<le> cs \<Longrightarrow> o_selling x \<noteq> AssetNative \<Longrightarrow> \<exists>l. wline = Some l \<and> isAuthorized l"
    using wheatCanSell_held [OF s a(1) _ h(1), of wline lm] lines(1) by (auto simp: line_loaded_def)
  define w3 where "w3 = min (min (min nw cs) (o_amount x)) maxW"
  define sh where "sh = min (min (w3 * price_n ?p div price_d ?p) INT64_MAX) maxS"
  define w where "w = sh * price_d ?p div price_n ?p"
  define am where "am = min (min nw cs) (o_amount x)"
  note ca = cross_amounts_result [OF p amount(1) nw(2) cs(2) lim(1,3) amount(2) nw(3) cs(3) lim(2,4), folded w3_def, folded sh_def, folded w_def, folded am_def]
  have w: "0 \<le> w" "w \<le> am" "w \<le> maxW" "am \<le> INT64_MAX" "am \<le> o_amount x" "am \<le> cs" "0 \<le> am"
    using ca(2,4) price_bounds [OF p] amount nw(2) cs(2) by (auto simp: w_def w3_def am_def pos_imp_zdiv_nonneg_iff)
  have fair: "fair x w sh" using w ca by (auto simp: fair_def w_def)
  have settle: "wpL (settleOffer fdiv lm f bogus w' sh' am acc wline sline) Q s"
    if w': "w' = 0 \<and> sh' = 0 \<or> w' = w \<and> sh' = sh \<and> 0 < w" for bogus w' sh'
  proof (rule wp_settleOffer [OF s f a [unfolded x_def] ne [unfolded x_def], folded x_def])
    show "0 \<le> w'" "w' \<le> am" "am \<le> INT64_MAX" "0 \<le> sh'" using w w' ca(2) by auto
    show "w' \<le> holding (entries s) ?a (o_selling x)" using w w' cs(4) h(1) by auto
    show "0 \<le> holding (entries s) ?a (o_buying x)" by (rule h)
    show "holding (entries s) ?a AssetNative + sh' \<le> INT64_MAX" if "sh' \<noteq> 0" "o_buying x = AssetNative"
      using that w' native ca(3) by auto
    show "line_for s ?a (o_selling x) (- w') wline" if nz: "w' \<noteq> 0" "o_selling x \<noteq> AssetNative"
    proof (rule line_forI [OF lines(1) nz(2)])
      obtain l where l: "wline = Some l" "isAuthorized l" using cs(5) [of w'] nz w w' by auto
      with lines(1) nz(2) have "entries s (TrustLineKey ?a (o_selling x)) = Some (trust_entry l)" by (simp add: line_loaded_def)
      from trust_held(5) [OF s this] have "t_balance (tf_line l) \<le> t_limit (tf_line l)" by (simp add: trust_isValid_def)
      with l w w' show "\<exists>l. wline = Some l \<and> isAuthorized l \<and> t_balance (tf_line l) + - w' \<le> t_limit (tf_line l)" by auto
    qed
    show "line_for s ?a (o_buying x) sh' sline" if nz: "sh' \<noteq> 0" "o_buying x \<noteq> AssetNative"
    proof (rule line_forI [OF lines(2) nz(2)])
      have "0 < w3" "w3 \<le> nw" using nz w w' ca(4) by (auto simp: w3_def)
      from nw(4) [OF nz(2) this] obtain l where "sline = Some l" "isAuthorized l"
        "t_balance (tf_line l) + w3 * price_n ?p div price_d ?p \<le> t_limit (tf_line l)" by blast
      moreover have "sh' \<le> w3 * price_n ?p div price_d ?p" using nz w' by (auto simp: sh_def)
      ultimately show "\<exists>l. sline = Some l \<and> isAuthorized l \<and> t_balance (tf_line l) + sh' \<le> t_limit (tf_line l)" by auto
    qed
    fix s1 taken
    assume "crossed m fdiv s s1 f (bogus \<or> am \<le> w') (am - w') w' sh'"
    then show "Q (if bogus \<or> am \<le> w' then eOfferTaken else eOfferPartial, w', sh', [claim_of x w' sh']) s1"
      using w' fair w cs(4) h(1) ca(2,3) amount lim by (intro Q [where amount = am]) (auto simp: fair_def)
  qed simp
  show ?thesis
    using settle [of 0 0 True] settle [of w sh False] w(1) cant
    by (simp add: nw(1) cs(1) ca(1) wp_simps)
qed

lemma seller_ok_loaded: "loaded m s s1 \<Longrightarrow> seller_ok s1 x = seller_ok s x"
  by (simp add: seller_ok_def loaded_def)

lemma wp_crossOffer:
  assumes s: "ledger_ok m s" and f: "entries s (offer_key f) = Some (offer_entry f)" and ok: "seller_ok s (of_offer f)"
    and lim: "0 \<le> maxW" "maxW \<le> INT64_MAX" "0 \<le> maxS" "maxS \<le> INT64_MAX"
    and native: "o_buying (of_offer f) = AssetNative \<Longrightarrow> holding (entries s) (o_sellerID (of_offer f)) AssetNative + maxS \<le> INT64_MAX"
    and cant: "\<And>w sh s1. loaded m s s1 \<Longrightarrow> Q (eOfferCantConvert, w, sh, []) s1"
    and Q: "\<And>s0 s1 taken amount w sh. loaded m s s0 \<Longrightarrow> crossed m fdiv s0 s1 f taken (amount - w) w sh \<Longrightarrow> fair (of_offer f) w sh \<Longrightarrow>
      w \<le> holding (entries s) (o_sellerID (of_offer f)) (o_selling (of_offer f)) \<Longrightarrow> w \<le> maxW \<Longrightarrow> sh \<le> maxS \<Longrightarrow> Q (if taken then eOfferTaken else eOfferPartial, w, sh, [claim_of (of_offer f) w sh]) s1"
  shows "wpL (crossOffer fdiv lm f maxW maxS) Q s"
proof -
  let ?x = "of_offer f" let ?a = "o_sellerID ?x"
  have ofr: "asset_ok (o_selling ?x)" "asset_ok (o_buying ?x)"
    using offer_held(3) [OF s f [unfolded offer_key_def]] by (simp_all add: offer_ok_def)
  obtain acc0 where acc0: "entries s (AccountKey ?a) = Some (account_entry acc0)"
    "length (a_signers (af_account acc0)) + offers_of ?a (tb_offers (st_db s)) \<le> unat (a_numSubEntries (af_account acc0))"
    "unat (a_numSubEntries (af_account acc0)) < 2 ^ 31"
    using ok by (auto simp: seller_ok_def)
  have final: "wpL (bindL (liftE (if o_buying ?x = AssetNative then Inr INT64_MAX else sellerMaxWheat (o_price ?x) sline)) (\<lambda>numWheat.
      bindL (liftE (wheatCanSell lm (o_selling ?x) acc wline)) (\<lambda>canSell.
      bindL (liftE (cross_amounts (o_price ?x) (o_amount ?x) numWheat canSell maxW maxS)) (\<lambda>(w, sh, amount, reducedOffer).
      if w = 0 \<or> sh = 0
      then if reducedOffer then returnL (eOfferCantConvert, w, sh, []) else settleOffer fdiv lm f True 0 0 amount acc wline sline
      else settleOffer fdiv lm f False w sh amount acc wline sline)))) Q s1"
    if s1: "loaded m s s1" and acc: "account_entry acc = account_entry acc0" and lines: "line_loaded s ?a (o_selling ?x) wline" "line_loaded s ?a (o_buying ?x) sline"
    for acc wline sline s1
  proof (rule wp_exchange [OF loaded_ok [OF s1]])
    have "af_account acc = af_account acc0" using acc by (simp add: account_entry_inj)
    with acc0 acc offers_of_held [OF s f] show "entries s1 (AccountKey ?a) = Some (account_entry acc)"
      "length (a_signers (af_account acc)) < unat (a_numSubEntries (af_account acc))" "unat (a_numSubEntries (af_account acc)) < 2 ^ 31"
      by (simp_all add: loaded_entry [OF s1])
    show "line_loaded s1 ?a (o_selling ?x) wline" "line_loaded s1 ?a (o_buying ?x) sline"
      using lines s1 by (simp_all add: line_loaded_def loaded_def)
    have same: "entries s1 = entries s" using s1 by (simp add: loaded_def)
    fix s2 taken amount w sh
    assume "crossed m fdiv s1 s2 f taken (amount - w) w sh" "fair ?x w sh" "w \<le> holding (entries s1) ?a (o_selling ?x)" "w \<le> maxW" "sh \<le> maxS"
    then show "Q (if taken then eOfferTaken else eOfferPartial, w, sh, [claim_of ?x w sh]) s2"
      unfolding same by (rule Q [OF s1])
  qed (use s1 f ok lim native cant in \<open>simp_all add: loaded_entry [OF s1] seller_ok_loaded [OF s1], simp_all add: loaded_def\<close>)
  have load2: "wpL (if o_buying ?x \<noteq> AssetNative then loadTrustLine ?a (o_buying ?x) else returnL None) (\<lambda>sline. wpL
      (bindL (liftE (if o_buying ?x = AssetNative then Inr INT64_MAX else sellerMaxWheat (o_price ?x) sline)) (\<lambda>numWheat.
      bindL (liftE (wheatCanSell lm (o_selling ?x) acc wline)) (\<lambda>canSell.
      bindL (liftE (cross_amounts (o_price ?x) (o_amount ?x) numWheat canSell maxW maxS)) (\<lambda>(w, sh, amount, reducedOffer).
      if w = 0 \<or> sh = 0
      then if reducedOffer then returnL (eOfferCantConvert, w, sh, []) else settleOffer fdiv lm f True 0 0 amount acc wline sline
      else settleOffer fdiv lm f False w sh amount acc wline sline)))) Q) s1"
    if s1: "loaded m s s1" and acc: "account_entry acc = account_entry acc0" and line: "line_loaded s ?a (o_selling ?x) wline" for acc wline s1
    by (rule wp_load_optional [OF loaded_ok [OF s1] ofr(2)]; rule final)
       (use s1 acc line loaded_trans in \<open>auto simp: line_loaded_def loaded_def intro: same_run_trans\<close>)
  show ?thesis
    unfolding crossOffer_def Let_def wpL_bindL [where m = "onDelta _"] wpL_bindL [where m = "loadAccount _"]
  proof (rule wp_recordEntry [OF s], rule wp_loadAccount [OF loaded_ok], assumption, goal_cases)
    case (1 s1 accf s2)
    then obtain acc where acc: "accf = Some acc" "account_entry acc = account_entry acc0"
      using acc0(1) by (auto simp: loaded_entry)
    have s2: "loaded m s s2" using 1 loaded_trans by blast
    show ?case unfolding acc(1) option.case wpL_bindL [where m = "if _ then _ else _"]
      by (rule wp_load_optional [OF loaded_ok [OF s2] ofr(1)]; rule load2)
         (use s2 acc loaded_trans in \<open>auto simp: line_loaded_def loaded_def intro: same_run_trans\<close>)
  qed
qed

end
