(* ===== verification/Payment_Effect.thy ===== *)
theory Payment_Effect
  imports Transactions Exchange_Effect
begin

text \<open>What a direct payment does to the balances, when the source, the destination and the commission account differ.\<close>

lemma wpL_bindL_fun [wp_simps]: "wpL (bindL m f) Q = wpL m (\<lambda>x. wpL (f x) Q)"
  by (simp add: fun_eq_iff wpL_bindL)

section \<open>Lines and accounts that take a change\<close>

definition line_takes :: "TrustFrame \<Rightarrow> int64 \<Rightarrow> bool" where
  "line_takes l n \<longleftrightarrow>
     isAuthorized l \<and> INT64_MIN \<le> t_balance (tf_line l) + n \<and> t_balance (tf_line l) + n \<le> t_limit (tf_line l) \<and>
     (0 \<le> t_balance (tf_line l) + n \<or> t_accountID (tf_line l) = issuer (t_asset (tf_line l)))"

definition add_to_line :: "int64 \<Rightarrow> TrustFrame \<Rightarrow> TrustFrame" where
  "add_to_line n l = l\<lparr>tf_line := (tf_line l)\<lparr>t_balance := t_balance (tf_line l) + n\<rparr>\<rparr>"

lemma addBalance_takes:
  assumes "line_takes l n" "t_limit (tf_line l) \<le> INT64_MAX" "t_asset (tf_line l) \<noteq> AssetNative"
  shows "addBalance n l = Inr (True, add_to_line n l)"
proof -
  have "is_int64 (n + t_balance (tf_line l))" using assms by (simp add: is_int64_def line_takes_def add.commute)
  moreover have "getIssuer (t_asset (tf_line l)) = Inr (issuer (t_asset (tf_line l)))"
    using assms(3) by (cases "t_asset (tf_line l)") (simp_all add: getIssuer_def)
  ultimately show ?thesis
    using assms by (auto simp: addBalance_def Let_def add_to_line_def line_takes_def add.commute)
qed

lemma wp_line_stored:
  assumes s: "ledger_ok m s" and l: "entries s (TrustLineKey a x) = Some (trust_entry l)" "\<not> mIsIssuer l" "line_takes l n"
    and Q: "\<And>l1 s1. moved m s s1 a x n \<Longrightarrow> Q l1 s1"
  shows "wpL (trust_storeChange (add_to_line n l)) Q s"
proof -
  note th = trust_held [OF s l(1)]
  let ?l = "add_to_line n l"
  have key: "trust_key ?l = TrustLineKey a x" using th by (simp add: trust_key_def add_to_line_def)
  have valid: "trust_isValid (tf_line ?l)" "is_int64 (t_balance (tf_line ?l))" "t_limit (tf_line ?l) \<le> INT64_MAX" "\<not> mIsIssuer ?l"
    using th l by (auto simp: trust_isValid_def is_int64_def line_takes_def add_to_line_def)
  show ?thesis
  proof (rule wp_trust_change [OF s, where g = l])
    fix s1
    assume w: "wrote m s s1 (trust_key ?l) (Some (trust_entry (trust_stamped s ?l)))" and t: "tb_offers (st_db s1) = tb_offers (st_db s)"
    have "moved m s s1 a x n"
      using moved_wrote [OF w t, of a x n] key holding_trust [of "entries s", OF l(1) th(1)] th(1)
      by (simp add: balance_key_def holding_trust add_to_line_def)
    then show "Q (trust_stamped s ?l) s1" by (rule Q)
  qed (use key valid l in auto)
qed

definition add_to_account :: "int64 \<Rightarrow> AccountFrame \<Rightarrow> AccountFrame" where
  "add_to_account n f = f\<lparr>af_account := (af_account f)\<lparr>a_balance := a_balance (af_account f) + n\<rparr>\<rparr>"

lemma wp_balance_stored:
  assumes s: "ledger_ok m s" and f: "entries s (AccountKey a) = Some (account_entry f)"
    and n: "0 \<le> a_balance (af_account f) + n" "a_balance (af_account f) + n \<le> INT64_MAX"
    and Q: "\<And>f1 s1. moved m s s1 a AssetNative n \<Longrightarrow> entries s1 (AccountKey a) = Some (account_entry f1) \<Longrightarrow> Q f1 s1"
  shows "wpL (account_storeChange (add_to_account n f)) Q s"
proof -
  note held = account_held [OF s f]
  let ?f = "add_to_account n f"
  have id: "account_getID ?f = a" using held(1) by (simp add: account_getID_def add_to_account_def)
  show ?thesis
  proof (rule wp_account_change [OF s, where g = f])
    fix s1
    assume w: "wrote m s s1 (AccountKey (account_getID ?f)) (Some (account_entry (stamped s ?f)))" and t: "tb_offers (st_db s1) = tb_offers (st_db s)"
    have "moved m s s1 a AssetNative n"
      using moved_wrote [OF w t, of a AssetNative n] id holding_account [of "entries s", OF f]
      by (simp add: balance_key_def holding_account add_to_account_def)
    then show "Q (stamped s ?f) s1" using w id by (intro Q) (simp_all add: wrote_def)
  qed (use f id n held in \<open>auto simp: add_to_account_def\<close>)
qed

section \<open>Loading\<close>

lemma wp_loadAccount_held:
  assumes "ledger_ok m s" "entries s (AccountKey i) = Some (account_entry f)"
    "\<And>g s1. loaded m s s1 \<Longrightarrow> account_entry g = account_entry f \<Longrightarrow> Q (Some g) s1"
  shows "wpL (loadAccount i) Q s"
  using assms(2,3) by (intro wp_loadAccount [OF assms(1)]) (auto simp: map_option_case split: option.splits)

lemma wp_loadTrustLine_held:
  assumes "ledger_ok m s" "entries s (TrustLineKey a x) = Some (trust_entry l)"
    "\<And>k s1. loaded m s s1 \<Longrightarrow> trust_entry k = trust_entry l \<Longrightarrow> \<not> mIsIssuer k \<Longrightarrow> Q (Some k) s1"
  shows "wpL (loadTrustLine a x) Q s"
  using trust_held(1,2) [OF assms(1,2)] assms(2,3)
  by (intro wp_loadTrustLine [OF assms(1)]) (auto simp: map_option_case split: option.splits)

lemma wp_loadTrustLineIssuer_held:
  assumes "ledger_ok m s" "entries s (TrustLineKey a x) = Some (trust_entry l)" "entries s (AccountKey (issuer x)) = Some (account_entry f)"
    "\<And>k g s1. loaded m s s1 \<Longrightarrow> trust_entry k = trust_entry l \<Longrightarrow> \<not> mIsIssuer k \<Longrightarrow> Q (Some k, Some g) s1"
  shows "wpL (loadTrustLineIssuer a x) Q s"
proof -
  have i: "getIssuer x = Inr (issuer x)" using trust_held(1) [OF assms(1,2)] by (cases x) (simp_all add: getIssuer_def)
  show ?thesis
    unfolding loadTrustLineIssuer_def wpL_bindL i
  proof (rule wp_loadTrustLine_held [OF assms(1,2)])
    fix k s1
    assume k: "loaded m s s1" "trust_entry k = trust_entry l" "\<not> mIsIssuer k"
    have "wpL (loadAccount (issuer x)) (\<lambda>acc. Q (Some k, acc)) s1"
    proof (rule wp_loadAccount_held)
      show "ledger_ok m s1" "entries s1 (AccountKey (issuer x)) = Some (account_entry f)" using k(1) assms(3) by (simp_all add: loaded_def)
      fix g s2
      assume "loaded m s1 s2"
      with assms(4) k show "Q (Some k, Some g) s2" by (blast intro: loaded_trans)
    qed
    then show "wpL (liftE (Inr (issuer x))) (\<lambda>i. wpL (loadAccount i) (\<lambda>acc. wpL (returnL (Some k, acc)) Q)) s1" by (simp add: wp_simps)
  qed
qed

lemma trust_entry_eq: "trust_entry k = trust_entry l \<longleftrightarrow> tf_line k = tf_line l \<and> tf_lastModified k = tf_lastModified l"
  by (auto simp: trust_entry_def)

lemma line_takes_entry: "trust_entry k = trust_entry l \<Longrightarrow> line_takes k n = line_takes l n"
  by (simp add: trust_entry_eq line_takes_def isAuthorized_def)

section \<open>Transfers\<close>

text \<open>From \<open>s\<close> to \<open>s1\<close> the balances change by \<open>change\<close>, and no entry changes but those of \<open>ks\<close>.\<close>

definition transferred :: "ledger_map \<Rightarrow> Ledger \<Rightarrow> Ledger \<Rightarrow> (AccountID \<Rightarrow> Asset \<Rightarrow> int64) \<Rightarrow> LedgerKey set \<Rightarrow> bool" where
  "transferred m s s1 change ks \<longleftrightarrow>
     ledger_ok m s1 \<and> (\<forall>a x. holding (entries s1) a x = holding (entries s) a x + change a x) \<and> (\<forall>k. k \<notin> ks \<longrightarrow> entries s1 k = entries s k)"

lemma transferred_loaded: "loaded m s s1 \<Longrightarrow> transferred m s s1 (\<lambda>_ _. 0) {}"
  by (simp add: transferred_def loaded_def)

lemma transferred_ok: "transferred m s s1 change ks \<Longrightarrow> ledger_ok m s1"
  by (simp add: transferred_def)

lemma transferred_entry: "transferred m s s1 change ks \<Longrightarrow> k \<notin> ks \<Longrightarrow> entries s1 k = entries s k"
  by (simp add: transferred_def)

lemma transferred_load: "transferred m s s1 change ks \<Longrightarrow> loaded m s1 s2 \<Longrightarrow> transferred m s s2 change ks"
  by (simp add: transferred_def loaded_def)

lemma transferred_move:
  "transferred m s s1 change ks \<Longrightarrow> moved m s1 s2 a x n \<Longrightarrow>
   transferred m s s2 (\<lambda>b y. change b y + (if b = a \<and> y = x then n else 0)) (insert (balance_key a x) ks)"
  using holding_moved [of m s1 s2 a x n] by (auto simp: transferred_def moved_def)

text \<open>A direct payment of \<open>amount\<close>, of which \<open>c\<close> is the commission.\<close>

definition payment_change :: "AccountID \<Rightarrow> AccountID \<Rightarrow> AccountID \<Rightarrow> Asset \<Rightarrow> int64 \<Rightarrow> int64 \<Rightarrow> AccountID \<Rightarrow> Asset \<Rightarrow> int64" where
  "payment_change sourceID dest com x amount c a y =
     (if y \<noteq> x then 0 else if a = dest then amount - c else if a = com then c else if a = sourceID then - amount else 0)"

definition payment_keys :: "AccountID \<Rightarrow> AccountID \<Rightarrow> AccountID \<Rightarrow> Asset \<Rightarrow> LedgerKey set" where
  "payment_keys sourceID dest com x = {balance_key sourceID x, balance_key dest x, balance_key com x}"

lemma transferred_payment:
  assumes "loaded m s s1" "moved m s1 s2 a1 x n1" "moved m s2 s3 a2 x n2" "loaded m s3 s4" "moved m s4 s5 sourceID x (- amount)"
    "dest \<noteq> com" "sourceID \<noteq> com" "sourceID \<noteq> dest"
    "a1 = com \<and> n1 = c \<and> a2 = dest \<and> n2 = amount - c \<or> a1 = dest \<and> n1 = amount - c \<and> a2 = com \<and> n2 = c"
  shows "transferred m s s5 (payment_change sourceID dest com x amount c) (payment_keys sourceID dest com x)"
proof -
  have change: "(\<lambda>b y. (((0::int64) + (if b = a1 \<and> y = x then n1 else 0)) + (if b = a2 \<and> y = x then n2 else 0)) + (if b = sourceID \<and> y = x then - amount else 0)) =
      payment_change sourceID dest com x amount c" using assms(6-9) by (auto simp: fun_eq_iff payment_change_def)
  have keys: "{balance_key sourceID x, balance_key a2 x, balance_key a1 x} = payment_keys sourceID dest com x"
    using assms(9) by (auto simp: payment_keys_def)
  from transferred_move [OF transferred_load [OF transferred_move [OF transferred_move [OF transferred_loaded [OF assms(1)] assms(2)] assms(3)] assms(4)] assms(5)]
  show ?thesis by (simp only: change keys)
qed

section \<open>A payment in a credit asset\<close>

lemma wp_getCommissionDest_held:
  assumes "ledger_ok m s" "entries s (TrustLineKey (account_getID f) x) = Some (trust_entry l)"
    "\<And>k s1. loaded m s s1 \<Longrightarrow> trust_entry k = trust_entry l \<Longrightarrow> \<not> mIsIssuer k \<Longrightarrow> Q (Some k) s1"
  shows "wpL (getCommissionDest app f x) Q s"
  unfolding getCommissionDest_def wpL_bindL
  by (rule wp_loadTrustLine_held [OF assms(1,2)]) (simp add: assms(3))

lemma wp_credit_line:
  assumes s: "ledger_ok m s" and x: "pp_destAsset p = x"
    and iss: "entries s (AccountKey (issuer x)) = Some (account_entry isf)"
    and d: "entries s (TrustLineKey (pp_destination p) x) = Some (trust_entry ld)" "line_takes ld n" "a_accountType (af_account df) \<noteq> ACCOUNT_SCRATCH_CARD"
    and c: "entries s (TrustLineKey (account_getID cf) x) = Some (trust_entry lc)" "line_takes lc c" "account_getID cf \<noteq> pp_destination p"
    and Q: "\<And>s1 s2 s3. loaded m s s1 \<Longrightarrow> moved m s1 s2 (account_getID cf) x c \<Longrightarrow> moved m s2 s3 (pp_destination p) x n \<Longrightarrow> Q None s3"
  shows "wpL (PathPayment_credit_line app isCreate p n c df cf) Q s"
proof -
  note td = trust_held [OF s d(1)] and tc = trust_held [OF s c(1)]
  show ?thesis
    unfolding PathPayment_credit_line_def Let_def x wpL_bindL
  proof (rule wp_loadTrustLineIssuer_held [OF s d(1) iss], goal_cases)
    case (1 k g s1)
    note k = 1
    have s1: "ledger_ok m s1" "entries s1 = entries s" using k(1) by (simp_all add: loaded_def)
    have kt: "line_takes k n" using d(2) line_takes_entry [OF k(2)] by simp
    have add: "addBalance n k = Inr (True, add_to_line n k)"
      using addBalance_takes [OF kt] td k(2) by (simp add: trust_entry_eq)
    have auth: "isAuthorized k" using kt by (simp add: line_takes_def)
    have "wpL (getCommissionDest app cf x) (\<lambda>cline. wpL (case cline of None \<Rightarrow> returnL (Some PATH_PAYMENT_NO_DESTINATION)
        | Some l \<Rightarrow> bindL (liftE (addBalance c l)) (\<lambda>(ok2, l1). if \<not> ok2 then returnL (Some PATH_PAYMENT_LINE_FULL)
            else bindL (trust_storeChange l1) (\<lambda>_. bindL (trust_storeChange (add_to_line n k)) (\<lambda>_. returnL None)))) Q) s1"
    proof (rule wp_getCommissionDest_held [OF s1(1)])
      show "entries s1 (TrustLineKey (account_getID cf) x) = Some (trust_entry lc)" using c(1) s1(2) by simp
      fix j s2
      assume j: "loaded m s1 s2" "trust_entry j = trust_entry lc" "\<not> mIsIssuer j"
      have s2: "ledger_ok m s2" "entries s2 = entries s" using j(1) s1(2) by (simp_all add: loaded_def)
      have jt: "line_takes j c" using c(2) line_takes_entry [OF j(2)] by simp
      have addc: "addBalance c j = Inr (True, add_to_line c j)"
        using addBalance_takes [OF jt] tc j(2) by (simp add: trust_entry_eq)
      have "wpL (trust_storeChange (add_to_line c j)) (\<lambda>_. wpL (trust_storeChange (add_to_line n k)) (\<lambda>_. Q None)) s2"
      proof (rule wp_line_stored [OF s2(1) _ j(3) jt])
        show "entries s2 (TrustLineKey (account_getID cf) x) = Some (trust_entry j)" using c(1) s2(2) j(2) by simp
        fix l1 s3
        assume mv: "moved m s2 s3 (account_getID cf) x c"
        have "entries s3 (TrustLineKey (pp_destination p) x) = Some (trust_entry k)"
          using mv d(1) s2(2) k(2) c(3) td(1) by (simp add: moved_def balance_key_def)
        then show "wpL (trust_storeChange (add_to_line n k)) (\<lambda>_. Q None) s3"
          using mv Q [OF loaded_trans [OF k(1) j(1)] mv] by (intro wp_line_stored [OF _ _ k(3) kt]) (auto simp: moved_def)
      qed
      then show "wpL (case Some j of None \<Rightarrow> returnL (Some PATH_PAYMENT_NO_DESTINATION)
        | Some l \<Rightarrow> bindL (liftE (addBalance c l)) (\<lambda>(ok2, l1). if \<not> ok2 then returnL (Some PATH_PAYMENT_LINE_FULL)
            else bindL (trust_storeChange l1) (\<lambda>_. bindL (trust_storeChange (add_to_line n k)) (\<lambda>_. returnL None)))) Q s2"
        by (simp add: addc wp_simps)
    qed
    then show ?case
      using add auth d(3) by (simp add: deref_def wp_simps)
  qed
qed

lemma wp_debit_line:
  assumes s: "ledger_ok m s" and iss: "entries s (AccountKey (issuer x)) = Some (account_entry isf)"
    and l: "entries s (TrustLineKey sourceID x) = Some (trust_entry l)" "line_takes l (- n)"
    and Q: "\<And>s1 s2. loaded m s s1 \<Longrightarrow> moved m s1 s2 sourceID x (- n) \<Longrightarrow> Q (None, src) s2"
  shows "wpL (PathPayment_debit app sourceID x n src) Q s"
proof -
  note th = trust_held [OF s l(1)]
  have "wpL (loadTrustLineIssuer sourceID x) (\<lambda>(tl, iss). wpL (if iss = None then returnL (Some (PATH_PAYMENT_NO_ISSUER x), src)
           else bindL (case tl of
                         Some l \<Rightarrow> returnL (Some l, src)
                       | None \<Rightarrow> bindL (liftE (getIssuer x)) (\<lambda>i.
                                   if sourceID = i then createTrustLine app src x else returnL (None, src))) (\<lambda>(line, src1).
           case line of
             None \<Rightarrow> returnL (Some PATH_PAYMENT_SRC_NO_TRUST, src1)
           | Some sourceLine \<Rightarrow>
               if \<not> isAuthorized sourceLine then returnL (Some PATH_PAYMENT_SRC_NOT_AUTHORIZED, src1)
               else bindL (liftE (addBalance (- n) sourceLine)) (\<lambda>(ok, sourceLine1).
                    if \<not> ok then returnL (Some PATH_PAYMENT_UNDERFUNDED, src1)
                    else bindL (trust_storeChange sourceLine1) (\<lambda>_. returnL (None, src1))))) Q) s"
  proof (rule wp_loadTrustLineIssuer_held [OF s l(1) iss], goal_cases)
    case (1 k g s1)
    have s1: "ledger_ok m s1" "entries s1 (TrustLineKey sourceID x) = Some (trust_entry k)" using 1 l(1) by (simp_all add: loaded_def)
    have kt: "line_takes k (- n)" using l(2) line_takes_entry [OF 1(2)] by simp
    have add: "addBalance (- n) k = Inr (True, add_to_line (- n) k)"
      using addBalance_takes [OF kt] th 1(2) by (simp add: trust_entry_eq)
    have "isAuthorized k" using kt by (simp add: line_takes_def)
    moreover have "wpL (trust_storeChange (add_to_line (- n) k)) (\<lambda>_. Q (None, src)) s1"
      using Q [OF 1(1)] by (intro wp_line_stored [OF s1 1(3) kt])
    ultimately show ?case by (simp add: add wp_simps)
  qed
  then show ?thesis using th(1) by (simp add: PathPayment_debit_def wp_simps split_def)
qed

section \<open>A payment in the native asset\<close>

lemma wp_credit_native:
  assumes s: "ledger_ok m s" and d: "entries s (AccountKey d) = Some (account_entry df)" and c: "entries s (AccountKey e) = Some (account_entry cf)"
    and ne: "d \<noteq> e" and ty: "a_accountType (af_account df) \<noteq> ACCOUNT_SCRATCH_CARD"
    and n: "0 \<le> n" "a_balance (af_account df) + n \<le> INT64_MAX" "0 \<le> c" "a_balance (af_account cf) + c \<le> INT64_MAX"
    and Q: "\<And>s1 s2. moved m s s1 d AssetNative n \<Longrightarrow> moved m s1 s2 e AssetNative c \<Longrightarrow> Q None s2"
  shows "wpL (PathPayment_credit_native n c df cf) Q s"
proof -
  have b: "0 \<le> a_balance (af_account df)" "0 \<le> a_balance (af_account cf)" using account_held(3) [OF s d] account_held(3) [OF s c] by simp_all
  have i: "i64 (a_balance (af_account df) + n) = Inr (a_balance (af_account df) + n)" "i64 (a_balance (af_account cf) + c) = Inr (a_balance (af_account cf) + c)"
    using b n by (simp_all add: is_int64_def)
  have "wpL (account_storeChange (add_to_account n df)) (\<lambda>_. wpL (account_storeChange (add_to_account c cf)) (\<lambda>_. Q None)) s"
  proof (rule wp_balance_stored [OF s d])
    fix f1 s1
    assume mv: "moved m s s1 d AssetNative n"
    then have "entries s1 (AccountKey e) = Some (account_entry cf)" using c ne by (simp add: moved_def balance_key_def)
    then show "wpL (account_storeChange (add_to_account c cf)) (\<lambda>_. Q None) s1"
      using mv b n Q [OF mv] by (intro wp_balance_stored) (auto simp: moved_def)
  qed (use b n in simp_all)
  then show ?thesis using ty by (simp add: PathPayment_credit_native_def i wp_simps add_to_account_def)
qed

lemma wp_debit_native:
  assumes s: "ledger_ok m s" and f: "entries s (AccountKey sourceID) = Some (account_entry src)"
    and n: "0 \<le> n" "getMinimumBalance (ledgerHeader app) src \<le> a_balance (af_account src) - n"
    and Q: "\<And>src1 s1. moved m s s1 sourceID AssetNative (- n) \<Longrightarrow> entries s1 (AccountKey sourceID) = Some (account_entry src1) \<Longrightarrow> Q (None, src1) s1"
  shows "wpL (PathPayment_debit app sourceID AssetNative n src) Q s"
proof -
  have b: "0 \<le> a_balance (af_account src) - n" "a_balance (af_account src) - n \<le> INT64_MAX"
    using n account_held(4) [OF s f] by (simp_all add: getMinimumBalance_def getMinBalance_def) (smt (verit) uint_ge_0)
  then have i: "i64 (a_balance (af_account src) - n) = Inr (a_balance (af_account src) - n)" by (simp add: is_int64_def)
  have "wpL (account_storeChange (add_to_account (- n) src)) (\<lambda>src1. Q (None, src1)) s"
    using b Q by (intro wp_balance_stored [OF s f]) auto
  then show ?thesis using n(2) by (simp add: PathPayment_debit_def i wp_simps add_to_account_def)
qed

section \<open>The whole payment\<close>

text \<open>The three accounts exist and differ, the destination is no scratch card, and the balances have room for the payment.\<close>

definition native_ready :: "App \<Rightarrow> Ledger \<Rightarrow> AccountID \<Rightarrow> AccountFrame \<Rightarrow> AccountFrame \<Rightarrow> AccountFrame \<Rightarrow> int64 \<Rightarrow> int64 \<Rightarrow> bool" where
  "native_ready app s sourceID src df cf n c \<longleftrightarrow>
     a_balance (af_account df) + (n - c) \<le> INT64_MAX \<and> a_balance (af_account cf) + c \<le> INT64_MAX \<and>
     entries s (AccountKey sourceID) = Some (account_entry src) \<and>
     getMinimumBalance (ledgerHeader app) src \<le> a_balance (af_account src) - n"

definition lines_ready :: "Ledger \<Rightarrow> AccountID \<Rightarrow> AccountID \<Rightarrow> AccountID \<Rightarrow> Asset \<Rightarrow> int64 \<Rightarrow> int64 \<Rightarrow> bool" where
  "lines_ready s sourceID d e x n c \<longleftrightarrow>
     (\<exists>isf ld lc ls. entries s (AccountKey (issuer x)) = Some (account_entry isf) \<and>
        entries s (TrustLineKey d x) = Some (trust_entry ld) \<and> line_takes ld (n - c) \<and>
        entries s (TrustLineKey e x) = Some (trust_entry lc) \<and> line_takes lc c \<and>
        entries s (TrustLineKey sourceID x) = Some (trust_entry ls) \<and> line_takes ls (- n))"

definition payment_ready :: "App \<Rightarrow> Ledger \<Rightarrow> AccountID \<Rightarrow> AccountFrame \<Rightarrow> OperationFee \<Rightarrow> PaymentOp \<Rightarrow> bool" where
  "payment_ready app s sourceID src fee p \<longleftrightarrow>
     (let d = pay_destination p; e = BANK_COMMISSION_KEY app; x = pay_asset p; n = pay_amount p; c = commission fee in
      distinct [sourceID, d, e] \<and> \<not> fee_malformed fee x \<and> c < n \<and> n \<le> INT64_MAX \<and> isAssetValid_issuer (app_getIssuer app) x \<and>
      (\<exists>df cf. entries s (AccountKey d) = Some (account_entry df) \<and> entries s (AccountKey e) = Some (account_entry cf) \<and>
         a_accountType (af_account df) \<noteq> ACCOUNT_SCRATCH_CARD \<and>
         (if x = AssetNative then native_ready app s sourceID src df cf n c else lines_ready s sourceID d e x n c)))"

lemma native_ready_entry:
  "account_entry df1 = account_entry df \<Longrightarrow> account_entry cf1 = account_entry cf \<Longrightarrow> entries s1 = entries s \<Longrightarrow>
   native_ready app s1 sourceID src df1 cf1 n c = native_ready app s sourceID src df cf n c"
  by (simp add: native_ready_def account_entry_inj)

lemma lines_ready_entry: "entries s1 = entries s \<Longrightarrow> lines_ready s1 sourceID d e x n c = lines_ready s sourceID d e x n c"
  by (simp only: lines_ready_def)

lemma directPayment_sel [simp]:
  "pp_sendAsset (directPayment d x n) = x" "pp_sendMax (directPayment d x n) = n" "pp_destination (directPayment d x n) = d"
  "pp_destAsset (directPayment d x n) = x" "pp_destAmount (directPayment d x n) = n" "pp_path (directPayment d x n) = []"
  by (simp_all add: directPayment_def)

text \<open>Crediting the two, then debiting the source.\<close>

lemma wp_credit_debit:
  assumes s: "ledger_ok m s" and d: "entries s (AccountKey (pp_destination p)) = Some (account_entry df)"
    and e: "entries s (AccountKey e) = Some (account_entry cf)"
    and ne: "distinct [sourceID, pp_destination p, e]" and ty: "a_accountType (af_account df) \<noteq> ACCOUNT_SCRATCH_CARD"
    and n: "0 \<le> c" "c < n" and x: "pp_destAsset p = x"
    and ready: "if x = AssetNative then native_ready app s sourceID src df cf n c else lines_ready s sourceID (pp_destination p) e x n c"
    and Q: "\<And>src1 s1. transferred m s s1 (payment_change sourceID (pp_destination p) e x n c) (payment_keys sourceID (pp_destination p) e x) \<Longrightarrow> Q (None, src1) s1"
  shows "wpL (if x = AssetNative then PathPayment_credit_native (n - c) c df cf else PathPayment_credit_line app False p (n - c) c df cf)
     (\<lambda>r s1. r = None \<and> wpL (PathPayment_debit app sourceID x n src) Q s1) s"
proof (cases "x = AssetNative")
  case True
  with ready have r: "native_ready app s sourceID src df cf n c" by simp
  have "wpL (PathPayment_credit_native (n - c) c df cf) (\<lambda>r s1. r = None \<and> wpL (PathPayment_debit app sourceID AssetNative n src) Q s1) s"
  proof (rule wp_credit_native [OF s d e _ ty])
    fix s1 s2
    assume mv: "moved m s s1 (pp_destination p) AssetNative (n - c)" "moved m s1 s2 e AssetNative c"
    have s2: "ledger_ok m s2" "entries s2 (AccountKey sourceID) = Some (account_entry src)"
      using mv r ne by (auto simp: moved_def balance_key_def native_ready_def)
    have "wpL (PathPayment_debit app sourceID AssetNative n src) Q s2"
    proof (rule wp_debit_native [OF s2])
      fix src1 s3
      assume "moved m s2 s3 sourceID AssetNative (- n)"
      from transferred_payment [OF loaded_refl [OF s] mv loaded_refl [OF s2(1)] this] ne True
      show "Q (None, src1) s3" by (intro Q) auto
    qed (use n r in \<open>auto simp: native_ready_def\<close>)
    then show "None = None \<and> wpL (PathPayment_debit app sourceID AssetNative n src) Q s2" by simp
  qed (use n r ne in \<open>auto simp: native_ready_def\<close>)
  with True show ?thesis by simp
next
  case False
  with ready obtain isf ld lc ls where l: "entries s (AccountKey (issuer x)) = Some (account_entry isf)"
    "entries s (TrustLineKey (pp_destination p) x) = Some (trust_entry ld)" "line_takes ld (n - c)"
    "entries s (TrustLineKey e x) = Some (trust_entry lc)" "line_takes lc c"
    "entries s (TrustLineKey sourceID x) = Some (trust_entry ls)" "line_takes ls (- n)" by (auto simp: lines_ready_def)
  have id: "account_getID cf = e" using account_held(1) [OF s e] .
  have "wpL (PathPayment_credit_line app False p (n - c) c df cf) (\<lambda>r s1. r = None \<and> wpL (PathPayment_debit app sourceID x n src) Q s1) s"
  proof (rule wp_credit_line [OF s x l(1,2,3) ty])
    fix s1 s2 s3
    assume mv: "loaded m s s1" "moved m s1 s2 (account_getID cf) x c" "moved m s2 s3 (pp_destination p) x (n - c)"
    have s3: "ledger_ok m s3" "entries s3 (AccountKey (issuer x)) = Some (account_entry isf)" "entries s3 (TrustLineKey sourceID x) = Some (trust_entry ls)"
      using mv l ne False id by (auto simp: moved_def loaded_def balance_key_def)
    have "wpL (PathPayment_debit app sourceID x n src) Q s3"
    proof (rule wp_debit_line [OF s3 l(7)])
      fix s4 s5
      assume "loaded m s3 s4" "moved m s4 s5 sourceID x (- n)"
      from transferred_payment [OF mv this, where dest = "pp_destination p" and com = e and c = c] ne id
      show "Q (None, src) s5" by (intro Q) auto
    qed
    then show "None = None \<and> wpL (PathPayment_debit app sourceID x n src) Q s3" by simp
  qed (use l id ne in auto)
  with False show ?thesis by simp
qed

text \<open>From the loaded accounts on, a direct payment is a credit followed by a debit.\<close>

lemma wp_direct:
  fixes fee :: OperationFee and x :: Asset and n :: int64 and dest :: AccountID
  defines "p \<equiv> directPayment dest x n" and "c \<equiv> commission fee"
  assumes s: "ledger_ok m s" and i: "is_int64 (n - c)"
    and com: "entries s (AccountKey (BANK_COMMISSION_KEY app)) = Some (account_entry cf)"
    and d: "entries s (AccountKey dest) = Some (account_entry df)"
    and step: "\<And>s2 df1 cf1. loaded m s s2 \<Longrightarrow> account_entry df1 = account_entry df \<Longrightarrow> account_entry cf1 = account_entry cf \<Longrightarrow>
      wpL (if x = AssetNative then PathPayment_credit_native (n - c) c df1 cf1 else PathPayment_credit_line app False p (n - c) c df1 cf1)
        (\<lambda>r s1. r = None \<and> wpL (PathPayment_debit app sourceID x n src) (\<lambda>(e3, src1). Q (case e3 of Some e \<Rightarrow> e
           | None \<Rightarrow> PATH_PAYMENT_SUCCESS [] (dest, x, n - c), src1)) s1) s2"
  shows "wpL (PathPayment_doApply app sourceID fee False p src) Q s"
proof -
  have walk: "walkPath app sourceID (rev [x]) x n [] = returnL (None, x, n, [])" by simp
  show ?thesis
    unfolding PathPayment_doApply_def p_def directPayment_sel c_def [symmetric] i64_ok [OF i] walk bindL_simps prod.case option.case
      less_irrefl if_False wpL_bindL_fun
    unfolding p_def [symmetric]
  proof (rule wp_loadAccount_held [OF s com], goal_cases)
    case (1 cf1 s1)
    then have s1: "ledger_ok m s1" "entries s1 (AccountKey dest) = Some (account_entry df)" using d by (simp_all add: loaded_def)
    have "wpL (PathPayment_destination app sourceID p src) (\<lambda>dacc s2. \<exists>df1. dacc = Some df1 \<and> loaded m s s2 \<and> account_entry df1 = account_entry df) s1"
      unfolding PathPayment_destination_def wpL_bindL p_def directPayment_sel
      by (rule wp_loadAccount_held [OF s1]) (auto intro: loaded_trans [OF 1(1)])
    then have "wpL (PathPayment_destination app sourceID p src) (\<lambda>dacc. wpL (case dacc of None \<Rightarrow> returnL (PATH_PAYMENT_NO_DESTINATION, src)
        | Some destination \<Rightarrow> bindL (if x = AssetNative then PathPayment_credit_native (n - c) c destination cf1
             else PathPayment_credit_line app False p (n - c) c destination cf1) (\<lambda>e1. case e1 of Some e \<Rightarrow> returnL (e, src)
           | None \<Rightarrow> bindL (PathPayment_debit app sourceID x n src) (\<lambda>(e3, src1). returnL (case e3 of Some e \<Rightarrow> e
               | None \<Rightarrow> PATH_PAYMENT_SUCCESS [] (dest, x, n - c), src1)))) Q) s1"
    proof (rule wpL_mono, elim exE conjE, goal_cases)
      case (1 dacc s2 df1)
      from step [OF 1(3,4) \<open>account_entry cf1 = account_entry cf\<close>] show ?case
        unfolding 1(2) option.case wpL_bindL_fun by (rule wpL_mono) (auto simp: wp_simps split_def)
    qed
    then show ?case by (simp add: deref_def assertE_def)
  qed
qed

lemma wp_directPayment:
  assumes s: "ledger_ok m s" and ready: "payment_ready app s sourceID src fee p"
    and Q: "\<And>src1 s1. transferred m s s1
        (payment_change sourceID (pay_destination p) (BANK_COMMISSION_KEY app) (pay_asset p) (pay_amount p) (commission fee))
        (payment_keys sourceID (pay_destination p) (BANK_COMMISSION_KEY app) (pay_asset p)) \<Longrightarrow>
      Q (PATH_PAYMENT_SUCCESS [] (pay_destination p, pay_asset p, pay_amount p - commission fee), src1) s1"
  shows "wpL (PathPayment_doApply app sourceID fee False (directPayment (pay_destination p) (pay_asset p) (pay_amount p)) src) Q s"
proof -
  let ?d = "pay_destination p" and ?e = "BANK_COMMISSION_KEY app" and ?x = "pay_asset p" and ?n = "pay_amount p" and ?c = "commission fee"
  let ?p = "directPayment ?d ?x ?n"
  obtain df cf where r: "distinct [sourceID, ?d, ?e]" "\<not> fee_malformed fee ?x" "?c < ?n" "?n \<le> INT64_MAX"
    "entries s (AccountKey ?d) = Some (account_entry df)" "entries s (AccountKey ?e) = Some (account_entry cf)"
    "a_accountType (af_account df) \<noteq> ACCOUNT_SCRATCH_CARD"
    "if ?x = AssetNative then native_ready app s sourceID src df cf ?n ?c else lines_ready s sourceID ?d ?e ?x ?n ?c"
    using ready by (auto simp: payment_ready_def Let_def)
  have c: "0 \<le> ?c" using r(2) by (cases fee) (auto simp: commission_def fee_malformed_def)
  have i: "i64 (?n - ?c) = Inr (?n - ?c)" using c r(3,4) by (simp add: is_int64_def)
  have step: "wpL (if ?x = AssetNative then PathPayment_credit_native (?n - ?c) ?c df1 cf1 else PathPayment_credit_line app False ?p (?n - ?c) ?c df1 cf1)
      (\<lambda>r s1. r = None \<and> wpL (PathPayment_debit app sourceID ?x ?n src) (\<lambda>(e3, src1). Q (case e3 of Some e \<Rightarrow> e
         | None \<Rightarrow> PATH_PAYMENT_SUCCESS [] (?d, ?x, ?n - ?c), src1)) s1) s2"
    if "loaded m s s2" "account_entry df1 = account_entry df" "account_entry cf1 = account_entry cf" for s2 df1 cf1
  proof (rule wp_credit_debit)
    have en: "entries s2 = entries s" using that by (simp add: loaded_def)
    show "ledger_ok m s2" "entries s2 (AccountKey (pp_destination ?p)) = Some (account_entry df1)" "entries s2 (AccountKey ?e) = Some (account_entry cf1)"
      "a_accountType (af_account df1) \<noteq> ACCOUNT_SCRATCH_CARD" "distinct [sourceID, pp_destination ?p, ?e]" "pp_destAsset ?p = ?x"
      using that r by (simp_all add: loaded_def account_entry_inj)
    show "if ?x = AssetNative then native_ready app s2 sourceID src df1 cf1 ?n ?c else lines_ready s2 sourceID (pp_destination ?p) ?e ?x ?n ?c"
      using r(8) native_ready_entry [OF that(2,3) en] lines_ready_entry [OF en] by simp
    fix src1 s3
    assume "transferred m s2 s3 (payment_change sourceID (pp_destination ?p) ?e ?x ?n ?c) (payment_keys sourceID (pp_destination ?p) ?e ?x)"
    then have "transferred m s s3 (payment_change sourceID ?d ?e ?x ?n ?c) (payment_keys sourceID ?d ?e ?x)"
      using en by (simp add: transferred_def)
    from Q [OF this] show "(case (None, src1) of (e3, src1) \<Rightarrow> Q (case e3 of Some e \<Rightarrow> e | None \<Rightarrow> PATH_PAYMENT_SUCCESS [] (?d, ?x, ?n - ?c), src1)) s3" by simp
  qed (use c r in auto)
  show ?thesis by (rule wp_direct [OF s _ r(6,5) step]) (use i in \<open>simp_all\<close>)
qed

text \<open>
  When the destination is the commission account itself, the two frames of the account are separate copies: the
  second store overwrites the first, and what the destination received is gone.
\<close>

lemma wp_credit_overwritten:
  assumes s: "ledger_ok m s" and e: "entries s (AccountKey e) = Some (account_entry df)" "account_entry cf = account_entry df"
    and ty: "a_accountType (af_account df) \<noteq> ACCOUNT_SCRATCH_CARD"
    and n: "0 \<le> n" "a_balance (af_account df) + n \<le> INT64_MAX" "0 \<le> c" "a_balance (af_account df) + c \<le> INT64_MAX"
    and Q: "\<And>s1. moved m s s1 e AssetNative c \<Longrightarrow> Q None s1"
  shows "wpL (PathPayment_credit_native n c df cf) Q s"
proof -
  note held = account_held [OF s e(1)]
  have cf: "af_account cf = af_account df" using e(2) by (simp add: account_entry_inj)
  have i: "i64 (a_balance (af_account df) + n) = Inr (a_balance (af_account df) + n)" "i64 (a_balance (af_account df) + c) = Inr (a_balance (af_account df) + c)"
    using held n by (simp_all add: is_int64_def)
  have id: "account_getID (add_to_account n df) = e" "account_getID (add_to_account c cf) = e"
    using held(1) cf by (simp_all add: account_getID_def add_to_account_def)
  have "wpL (account_storeChange (add_to_account n df)) (\<lambda>_. wpL (account_storeChange (add_to_account c cf)) (\<lambda>_. Q None)) s"
  proof (rule wp_account_change [OF s, where g = df])
    fix s1
    assume w: "wrote m s s1 (AccountKey (account_getID (add_to_account n df))) (Some (account_entry (stamped s (add_to_account n df))))"
      and t: "tb_offers (st_db s1) = tb_offers (st_db s)"
    have s1: "ledger_ok m s1" "entries s1 = (entries s)(AccountKey e \<mapsto> account_entry (stamped s (add_to_account n df)))"
      using w id by (simp_all add: wrote_def)
    show "wpL (account_storeChange (add_to_account c cf)) (\<lambda>_. Q None) s1"
    proof (rule wp_account_change [OF s1(1), where g = "stamped s (add_to_account n df)"])
      fix s2
      assume w2: "wrote m s1 s2 (AccountKey (account_getID (add_to_account c cf))) (Some (account_entry (stamped s1 (add_to_account c cf))))"
        and t2: "tb_offers (st_db s2) = tb_offers (st_db s1)"
      have "holding (entries s2) e AssetNative = holding (entries s) e AssetNative + c"
        using w2 id cf holding_account [of "entries s", OF e(1)] by (simp add: wrote_def holding_account add_to_account_def)
      then have "moved m s s2 e AssetNative c"
        using w w2 t t2 id s1 by (auto simp: moved_def wrote_def balance_key_def intro: same_run_trans)
      then show "Q None s2" by (rule Q)
    qed (use s1 id cf n held in \<open>auto simp: add_to_account_def\<close>)
  qed (use e id n held in \<open>auto simp: add_to_account_def\<close>)
  then show ?thesis using ty cf by (simp add: PathPayment_credit_native_def i wp_simps add_to_account_def)
qed

definition lost_change :: "AccountID \<Rightarrow> AccountID \<Rightarrow> int64 \<Rightarrow> int64 \<Rightarrow> AccountID \<Rightarrow> Asset \<Rightarrow> int64" where
  "lost_change sourceID e n c a y = (if y \<noteq> AssetNative then 0 else if a = e then c else if a = sourceID then - n else 0)"

lemma wp_payment_to_commission:
  assumes s: "ledger_ok m s" and ne: "sourceID \<noteq> BANK_COMMISSION_KEY app"
    and fee: "\<not> fee_malformed fee AssetNative" "commission fee < n" "n \<le> INT64_MAX"
    and e: "entries s (AccountKey (BANK_COMMISSION_KEY app)) = Some (account_entry df)" "a_accountType (af_account df) \<noteq> ACCOUNT_SCRATCH_CARD"
      "a_balance (af_account df) + n \<le> INT64_MAX"
    and src: "entries s (AccountKey sourceID) = Some (account_entry src)" "getMinimumBalance (ledgerHeader app) src \<le> a_balance (af_account src) - n"
    and Q: "\<And>r src1 s1. transferred m s s1 (lost_change sourceID (BANK_COMMISSION_KEY app) n (commission fee))
        {AccountKey sourceID, AccountKey (BANK_COMMISSION_KEY app)} \<Longrightarrow> Q (PATH_PAYMENT_SUCCESS [] r, src1) s1"
  shows "wpL (PathPayment_doApply app sourceID fee False (directPayment (BANK_COMMISSION_KEY app) AssetNative n) src) Q s"
proof -
  let ?e = "BANK_COMMISSION_KEY app" and ?c = "commission fee"
  let ?p = "directPayment ?e AssetNative n"
  have c: "0 \<le> ?c" using fee(1) by (cases fee) (auto simp: commission_def fee_malformed_def)
  have i: "i64 (n - ?c) = Inr (n - ?c)" using c fee(2,3) by (simp add: is_int64_def)
  have step: "wpL (PathPayment_credit_native (n - ?c) ?c df1 cf1)
      (\<lambda>r s1. r = None \<and> wpL (PathPayment_debit app sourceID AssetNative n src) (\<lambda>(e3, src1). Q (case e3 of Some e \<Rightarrow> e
         | None \<Rightarrow> PATH_PAYMENT_SUCCESS [] (?e, AssetNative, n - ?c), src1)) s1) s2"
    if "loaded m s s2" "account_entry df1 = account_entry df" "account_entry cf1 = account_entry df" for s2 df1 cf1
  proof (rule wp_credit_overwritten)
    show "ledger_ok m s2" "entries s2 (AccountKey ?e) = Some (account_entry df1)" "account_entry cf1 = account_entry df1"
      "a_accountType (af_account df1) \<noteq> ACCOUNT_SCRATCH_CARD"
      using that e by (simp_all add: loaded_def account_entry_inj)
    fix s3
    assume mv: "moved m s2 s3 ?e AssetNative ?c"
    have s3: "ledger_ok m s3" "entries s3 (AccountKey sourceID) = Some (account_entry src)"
      using mv that(1) src(1) ne by (auto simp: moved_def loaded_def balance_key_def)
    have "wpL (PathPayment_debit app sourceID AssetNative n src) (\<lambda>(e3, src1). Q (case e3 of Some e \<Rightarrow> e
         | None \<Rightarrow> PATH_PAYMENT_SUCCESS [] (?e, AssetNative, n - ?c), src1)) s3"
    proof (rule wp_debit_native [OF s3 _ src(2)])
      fix src1 s4
      assume "moved m s3 s4 sourceID AssetNative (- n)"
      from transferred_move [OF transferred_move [OF transferred_loaded [OF that(1)] mv] this]
      have "transferred m s s4 (\<lambda>b y. 0 + (if b = ?e \<and> y = AssetNative then ?c else 0) + (if b = sourceID \<and> y = AssetNative then - n else 0))
          {balance_key sourceID AssetNative, balance_key ?e AssetNative}" .
      also have "(\<lambda>b y. 0 + (if b = ?e \<and> y = AssetNative then ?c else 0) + (if b = sourceID \<and> y = AssetNative then - n else 0)) =
          lost_change sourceID ?e n ?c" using ne by (auto simp: fun_eq_iff lost_change_def)
      finally show "(case (None, src1) of (e3, src1) \<Rightarrow> Q (case e3 of Some e \<Rightarrow> e | None \<Rightarrow> PATH_PAYMENT_SUCCESS [] (?e, AssetNative, n - ?c), src1)) s4"
        by (simp add: Q balance_key_def)
    qed (use c fee in simp)
    then show "None = None \<and> wpL (PathPayment_debit app sourceID AssetNative n src) (\<lambda>(e3, src1). Q (case e3 of Some e \<Rightarrow> e
         | None \<Rightarrow> PATH_PAYMENT_SUCCESS [] (?e, AssetNative, n - ?c), src1)) s3" by simp
  qed (use c fee e that in \<open>auto simp: account_entry_inj\<close>)
  show ?thesis by (rule wp_direct [OF s _ e(1,1)]) (use i step in \<open>simp_all\<close>)
qed

end
