(* ===== verification/Signature_Check.thy ===== *)
theory Signature_Check
  imports Transactions "HOL-Library.Multiset" "HOL-Library.Sublist"
begin

text \<open>
  What \<^verbatim>\<open>TransactionFrame::checkSignature\<close> decides. The loop stops as soon as the weight is reached; it is compared with
  the run that goes on to the last signature, and that run with the set of all signers who signed.
\<close>

section \<open>One signature\<close>

lemma take_signer_None: "take_signer p keys = None \<longleftrightarrow> (\<forall>s\<in>set keys. \<not> p s)"
  by (induction keys) auto

lemma take_signer_Some: "take_signer p keys = Some (s, rest) \<Longrightarrow> p s \<and> mset keys = add_mset s (mset rest)"
  by (induction keys arbitrary: rest) (auto split: if_splits)

section \<open>All signatures\<close>

text \<open>The signers found when every signature is looked at.\<close>

fun all_signers :: "App \<Rightarrow> Hash \<Rightarrow> DecoratedSignature list \<Rightarrow> Signer list \<Rightarrow> Signer list" where
  "all_signers app h [] keys = []"
| "all_signers app h (sig # sigs) keys =
     (case take_signer (signed_by app h sig) keys of
        None \<Rightarrow> all_signers app h sigs keys
      | Some (s, keys1) \<Rightarrow> s # all_signers app h sigs keys1)"

definition total_weight :: "Signer list \<Rightarrow> int" where
  "total_weight ss = sum_list (map (\<lambda>s. uint (sg_weight s)) ss)"

lemma total_weight_simps [simp]:
  "total_weight [] = 0" "total_weight (s # ss) = uint (sg_weight s) + total_weight ss" "total_weight (xs @ ys) = total_weight xs + total_weight ys"
  by (simp_all add: total_weight_def)

lemma total_weight_nonneg [simp]: "0 \<le> total_weight ss"
  by (induction ss) simp_all

lemma all_signers_subset: "mset (all_signers app h sigs keys) \<subseteq># mset keys"
proof (induction sigs arbitrary: keys)
  case (Cons sig sigs)
  then show ?case by (auto split: option.split dest: take_signer_Some)
qed simp

lemma all_signers_distinct: "distinct keys \<Longrightarrow> distinct (all_signers app h sigs keys)"
proof -
  assume d: "distinct keys"
  obtain rest where "mset keys = mset (all_signers app h sigs keys) + rest"
    using all_signers_subset [of app h sigs keys] by (auto simp: mset_subset_eq_exists_conv)
  moreover obtain ys where "mset ys = rest" using ex_mset by blast
  ultimately have "mset keys = mset (all_signers app h sigs keys @ ys)" by simp
  from mset_eq_imp_distinct_iff [OF this] d show ?thesis by simp
qed

lemma all_signers_signed: "s \<in> set (all_signers app h sigs keys) \<Longrightarrow> \<exists>sig\<in>set sigs. signed_by app h sig s"
  by (induction sigs arbitrary: keys) (auto split: option.splits dest: take_signer_Some)

lemma all_signers_all:
  assumes "distinct keys" "\<forall>sig\<in>set sigs. \<forall>s\<in>set keys. \<forall>t\<in>set keys. signed_by app h sig s \<longrightarrow> signed_by app h sig t \<longrightarrow> s = t"
  shows "set (all_signers app h sigs keys) = {s \<in> set keys. \<exists>sig\<in>set sigs. signed_by app h sig s}"
  using assms
proof (induction sigs arbitrary: keys)
  case (Cons sig sigs)
  show ?case
  proof (cases "take_signer (signed_by app h sig) keys")
    case None
    then have "\<forall>s\<in>set keys. \<not> signed_by app h sig s" by (simp add: take_signer_None)
    with Cons.IH [of keys] Cons.prems None show ?thesis by auto
  next
    case (Some p)
    then obtain s rest where p: "take_signer (signed_by app h sig) keys = Some (s, rest)" by (cases p) auto
    from take_signer_Some [OF p] have s: "signed_by app h sig s" and ms: "mset keys = mset (s # rest)" by simp_all
    have keys: "set keys = insert s (set rest)" using mset_eq_setD [OF ms] by simp
    have d: "distinct rest" "s \<notin> set rest" using mset_eq_imp_distinct_iff [OF ms] Cons.prems(1) by simp_all
    have "set (all_signers app h sigs rest) = {t \<in> set rest. \<exists>sig\<in>set sigs. signed_by app h sig t}"
      using Cons.prems(2) keys by (intro Cons.IH [OF d(1)]) auto
    with p s keys d Cons.prems(2) show ?thesis by auto
  qed
qed simp

section \<open>The loop\<close>

text \<open>The weight as the program computes it is never more than the true sum.\<close>

lemma uint_add_le: "uint (a + b :: 'a::len word) \<le> uint a + uint b"
  by (simp add: uint_word_ariths zmod_le_nonneg_dividend)

lemma sint_le_uint: "sint (w :: uint32) \<le> uint w"
proof (cases "sint w < 0")
  case False
  then have "uint w = sint w" using sint_lt [of w] by (simp add: uint_sint take_bit_int_eq_self)
  then show ?thesis by simp
qed (use uint_ge_0 [of w] in linarith)

lemma signature_loop_used:
  "signature_loop app h needed i sigs keys weight used marks = (ok, used1, marks1) \<Longrightarrow> uint weight \<le> total_weight used \<Longrightarrow>
   \<exists>more. used1 = used @ more \<and> prefix more (all_signers app h sigs keys) \<and>
     (ok \<longrightarrow> more \<noteq> [] \<and> sint needed \<le> total_weight used1)"
proof (induction app h needed i sigs keys weight used marks rule: signature_loop.induct)
  case (2 app h needed i sig sigs keys weight used marks)
  show ?case
  proof (cases "take_signer (signed_by app h sig) keys")
    case None
    with 2 show ?thesis by simp
  next
    case (Some p)
    obtain s keys1 where p: "p = (s, keys1)" by (cases p)
    have w: "uint (weight + sg_weight s) \<le> total_weight (used @ [s])"
      using uint_add_le [of weight "sg_weight s"] "2.prems"(2) by simp
    show ?thesis
    proof (cases "sint (weight + sg_weight s) \<ge> sint needed")
      case True
      with "2.prems" Some p have "ok" "used1 = used @ [s]" by simp_all
      moreover have "sint needed \<le> total_weight (used @ [s])" using True w sint_le_uint [of "weight + sg_weight s"] by linarith
      ultimately show ?thesis using Some p by (intro exI [of _ "[s]"]) simp
    next
      case False
      with "2.prems" Some p have "signature_loop app h needed (i + 1) sigs keys1 (weight + sg_weight s) (used @ [s]) (marks[i := True]) = (ok, used1, marks1)"
        by simp
      from "2.IH"(2) [OF Some p [symmetric] False this w] show ?thesis using Some p by auto
    qed
  qed
qed simp

text \<open>With weights that do not overflow, the loop answers as the full run would.\<close>

lemma uint_add_small: "uint a + uint b < 2 ^ 31 \<Longrightarrow> uint (a + b :: uint32) = uint a + uint b"
  by (simp add: uint_word_ariths)

lemma sint_small: "uint w < 2 ^ 31 \<Longrightarrow> sint (w :: uint32) = uint w"
  unfolding sint_uint by (rule signed_take_bit_int_eq_self, rule order_trans [OF _ uint_ge_0]) simp_all

lemma signature_loop_ok:
  "uint weight + total_weight keys < 2 ^ 31 \<Longrightarrow> uint needed < 2 ^ 31 \<Longrightarrow> (weight = 0 \<or> weight < needed) \<Longrightarrow>
   fst (signature_loop app h needed i sigs keys weight used marks) \<longleftrightarrow>
     all_signers app h sigs keys \<noteq> [] \<and> uint needed \<le> uint weight + total_weight (all_signers app h sigs keys)"
proof (induction app h needed i sigs keys weight used marks rule: signature_loop.induct)
  case (2 app h needed i sig sigs keys weight used marks)
  show ?case
  proof (cases "take_signer (signed_by app h sig) keys")
    case None
    with 2 show ?thesis by simp
  next
    case (Some p)
    obtain s keys1 where p: "p = (s, keys1)" by (cases p)
    from take_signer_Some [OF Some [unfolded p]] have "mset keys = mset (s # keys1)" by simp
    then have tw: "total_weight keys = uint (sg_weight s) + total_weight keys1"
      unfolding total_weight_def by (metis (no_types, lifting) list.simps(9) mset_map sum_list.Cons sum_mset_sum_list)
    have w: "uint (weight + sg_weight s) = uint weight + uint (sg_weight s)"
      using "2.prems"(1) total_weight_nonneg [of keys1] tw by (intro uint_add_small) linarith
    have sm: "sint (weight + sg_weight s) = uint weight + uint (sg_weight s)" "sint needed = uint needed"
      using sint_small [of "weight + sg_weight s"] sint_small [OF "2.prems"(2)] "2.prems"(1) total_weight_nonneg [of keys1] tw w
      by linarith+
    show ?thesis
    proof (cases "uint needed \<le> uint weight + uint (sg_weight s)")
      case True
      then show ?thesis using Some p sm total_weight_nonneg [of "all_signers app h sigs keys1"] by (simp add: add.assoc [symmetric] add_increasing2)
    next
      case False
      have "fst (signature_loop app h needed (i + 1) sigs keys1 (weight + sg_weight s) (used @ [s]) (marks[i := True])) \<longleftrightarrow>
          all_signers app h sigs keys1 \<noteq> [] \<and> uint needed \<le> uint (weight + sg_weight s) + total_weight (all_signers app h sigs keys1)"
        using False sm by (intro "2.IH"(2) [OF Some p [symmetric]]) (use "2.prems" tw w in \<open>auto simp: word_less_def\<close>)
      with False Some p sm w show ?thesis by auto
    qed
  qed
qed simp

section \<open>The verdict\<close>

definition has_signed :: "App \<Rightarrow> TxFrame \<Rightarrow> Signer \<Rightarrow> bool" where
  "has_signed app tx s \<longleftrightarrow> (\<exists>sig\<in>set (env_signatures (mEnvelope tx)). signed_by app (contentsHash app (env_tx (mEnvelope tx))) sig s)"

definition unambiguous :: "App \<Rightarrow> TxFrame \<Rightarrow> Signer list \<Rightarrow> bool" where
  "unambiguous app tx keys \<longleftrightarrow>
     (\<forall>sig\<in>set (env_signatures (mEnvelope tx)). \<forall>s\<in>set keys. \<forall>t\<in>set keys.
        signed_by app (contentsHash app (env_tx (mEnvelope tx))) sig s \<longrightarrow> signed_by app (contentsHash app (env_tx (mEnvelope tx))) sig t \<longrightarrow> s = t)"

lemma checkSignature_used:
  assumes "checkSignature app tx account needed = (ok, used, tx1)"
  shows "mset used \<subseteq># mset (keyWeights tx account)" "\<forall>s\<in>set used. has_signed app tx s"
    "ok \<Longrightarrow> used \<noteq> [] \<and> sint needed \<le> total_weight used"
    "mEnvelope tx1 = mEnvelope tx" "mOperations tx1 = mOperations tx" "mSigningAccount tx1 = mSigningAccount tx"
proof -
  let ?h = "contentsHash app (env_tx (mEnvelope tx))" and ?sigs = "env_signatures (mEnvelope tx)"
  obtain marks where l: "signature_loop app ?h needed 0 ?sigs (keyWeights tx account) 0 [] (mUsedSignatures tx) = (ok, used, marks)"
    and tx1: "tx1 = tx\<lparr>mUsedSignatures := marks\<rparr>"
    using assms by (auto simp: checkSignature_def split: prod.splits)
  from signature_loop_used [OF l] have p: "prefix used (all_signers app ?h ?sigs (keyWeights tx account))"
    and ok: "ok \<longrightarrow> used \<noteq> [] \<and> sint needed \<le> total_weight used" by auto
  then obtain more where more: "all_signers app ?h ?sigs (keyWeights tx account) = used @ more" by (auto simp: prefix_def)
  have "mset used \<subseteq># mset (used @ more)" by simp
  then show "mset used \<subseteq># mset (keyWeights tx account)"
    using all_signers_subset [of app ?h ?sigs "keyWeights tx account"] unfolding more by (rule subset_mset.order_trans)
  show "\<forall>s\<in>set used. has_signed app tx s"
    using all_signers_signed [of _ app ?h ?sigs "keyWeights tx account"] unfolding more has_signed_def by auto
  show "ok \<Longrightarrow> used \<noteq> [] \<and> sint needed \<le> total_weight used" using ok by simp
  show "mEnvelope tx1 = mEnvelope tx" "mOperations tx1 = mOperations tx" "mSigningAccount tx1 = mSigningAccount tx" by (simp_all add: tx1)
qed

lemma threshold_small: "sint (ucast (b :: uint8) :: uint32) = uint b"
proof -
  have "uint (ucast b :: uint32) = uint b" by (simp add: uint_up_ucast is_up)
  moreover have "uint b < 2 ^ 31" using uint_lt2p [of b] by simp
  ultimately show ?thesis using sint_small [of "ucast b"] by simp
qed

end
