(* ===== verification/Exchange_Book.thy ===== *)
theory Exchange_Book
  imports Exchange_Effect
begin

text \<open>
  Crossing the offers of the order book, best price first: the loop over the book, the balances of all accounts
  and the trail of claimed offers after it, and that it ends.
\<close>

section \<open>The offers of a seller\<close>

lemma offers_of_card:
  assumes "map_ok t"
  shows "offers_of a t = card {i. \<exists>r. map_of t i = Some r \<and> or_sellerid r = a}"
proof -
  have d: "distinct (map fst t)" by (rule strict_sorted_distinct [OF assms])
  let ?xs = "filter (\<lambda>(_, r). or_sellerid r = a) t"
  have "distinct (map fst ?xs)" using d by (simp add: distinct_map_filter)
  then have "card (set (map fst ?xs)) = length ?xs" using distinct_card by fastforce
  moreover have "set (map fst ?xs) = {i. \<exists>r. map_of t i = Some r \<and> or_sellerid r = a}"
    using d by (auto simp: image_iff)
  ultimately show ?thesis by (simp add: offers_of_def)
qed

lemma finite_offers: "finite {i. \<exists>r. map_of t i = Some r \<and> P r}"
  by (rule finite_subset [OF _ finite_dom_map_of [of t]]) auto

lemma offers_of_erase:
  assumes "map_ok t" "map_of t i = Some r"
  shows "offers_of a (map_erase i t) = offers_of a t - (if or_sellerid r = a then 1 else 0)"
proof -
  let ?S = "{i. \<exists>r. map_of t i = Some r \<and> or_sellerid r = a}"
  have "{j. \<exists>r. map_of (map_erase i t) j = Some r \<and> or_sellerid r = a} = ?S - {i}" by auto
  then show ?thesis using assms finite_offers [of t "\<lambda>r. or_sellerid r = a"]
    by (simp add: offers_of_card map_ok_erase card_Diff_singleton_if)
qed

lemma offers_of_put:
  assumes "map_ok t" "map_of t i = Some r" "or_sellerid r' = or_sellerid r"
  shows "offers_of a (map_put i r' t) = offers_of a t"
proof -
  have "{j. \<exists>r. map_of (map_put i r' t) j = Some r \<and> or_sellerid r = a} = {i. \<exists>r. map_of t i = Some r \<and> or_sellerid r = a}"
    using assms by (auto simp: map_of_put)
  then show ?thesis using assms(1) by (simp add: offers_of_card map_ok_put)
qed

section \<open>The market\<close>

definition market_ok :: "Ledger \<Rightarrow> bool" where
  "market_ok s \<longleftrightarrow> (\<forall>f. entries s (offer_key f) = Some (offer_entry f) \<longrightarrow> seller_ok s (of_offer f))"

lemma offer_entry_inj [simp]: "offer_entry f = offer_entry g \<longleftrightarrow> f = g"
  by (cases f; cases g) (auto simp: offer_entry_def)

lemma crossed_offers:
  assumes s: "ledger_ok m s" and f: "entries s (offer_key f) = Some (offer_entry f)" and c: "crossed m fdiv s s1 f taken rest w sh"
  shows "offers_of a (tb_offers (st_db s1)) = offers_of a (tb_offers (st_db s)) - (if taken \<and> a = o_sellerID (of_offer f) then 1 else 0)"
proof -
  have t: "map_ok (tb_offers (st_db s))" using s by (simp add: ledger_ok_def database_ok_def tables_ok_def)
  obtain r where r: "map_of (tb_offers (st_db s)) (o_offerID (of_offer f)) = Some r" "or_sellerid r = o_sellerID (of_offer f)"
    using offer_held(4) [OF s f [unfolded offer_key_def]] by blast
  have "or_sellerid (row_of_offer fdiv (reduced s f rest)) = or_sellerid r"
    by (simp add: row_of_offer_def reduced_def Let_def r(2))
  then show ?thesis using c offers_of_erase [OF t r(1)] offers_of_put [OF t r(1)] r(2) by (auto simp: crossed_def)
qed

lemma crossed_seller_ok:
  assumes s: "ledger_ok m s" and f: "entries s (offer_key f) = Some (offer_entry f)" and c: "crossed m fdiv s s1 f taken rest w sh"
    and w: "w \<le> holding (entries s) (o_sellerID (of_offer f)) (o_selling (of_offer f))" "0 \<le> sh"
    and ok: "seller_ok s x"
  shows "seller_ok s1 x"
proof -
  let ?a = "o_sellerID x" and ?b = "o_sellerID (of_offer f)"
  have h: "0 \<le> holding (entries s) ?a y \<Longrightarrow> 0 \<le> holding (entries s1) ?a y" for y
    using c w by (auto simp: crossed_def gain_def)
  obtain acc where acc: "entries s (AccountKey ?a) = Some (account_entry acc)"
    "length (a_signers (af_account acc)) + offers_of ?a (tb_offers (st_db s)) \<le> unat (a_numSubEntries (af_account acc))"
    "unat (a_numSubEntries (af_account acc)) < 2 ^ 31"
    using ok by (auto simp: seller_ok_def)
  have "\<exists>acc1. entries s1 (AccountKey ?a) = Some (account_entry acc1) \<and>
      length (a_signers (af_account acc1)) + offers_of ?a (tb_offers (st_db s1)) \<le> unat (a_numSubEntries (af_account acc1)) \<and>
      unat (a_numSubEntries (af_account acc1)) < 2 ^ 31"
  proof (cases "?a = ?b")
    case True
    obtain acc' acc1 where e: "entries s (AccountKey ?b) = Some (account_entry acc')" "entries s1 (AccountKey ?b) = Some (account_entry acc1)"
      "a_signers (af_account acc1) = a_signers (af_account acc')"
      "a_numSubEntries (af_account acc1) = a_numSubEntries (af_account acc') - (if taken then 1 else 0)"
      using c unfolding crossed_def by blast
    have same: "af_account acc' = af_account acc" using e(1) acc(1) True by (simp add: account_entry_inj)
    have pos: "0 < offers_of ?b (tb_offers (st_db s))" by (rule offers_of_held [OF s f])
    then have "1 \<le> a_numSubEntries (af_account acc)" using acc(2) True by (simp add: word_le_nat_alt)
    then have "unat (a_numSubEntries (af_account acc) - 1) = unat (a_numSubEntries (af_account acc)) - 1" by (simp add: unat_sub)
    with e acc same pos True crossed_offers [OF s f c, of ?b] show ?thesis by (intro exI [of _ acc1]) auto
  next
    case False
    then have "entries s1 (AccountKey ?a) = entries s (AccountKey ?a)"
      using c by (auto simp: crossed_def offer_key_def balance_key_def)
    with acc False crossed_offers [OF s f c, of ?a] show ?thesis by (intro exI [of _ acc]) simp
  qed
  with ok h show ?thesis by (auto simp: seller_ok_def)
qed

lemma offer_key_eq: "offer_key f = offer_key g \<longleftrightarrow> o_sellerID (of_offer f) = o_sellerID (of_offer g) \<and> o_offerID (of_offer f) = o_offerID (of_offer g)"
  by (simp add: offer_key_def)

lemma crossed_market_ok:
  assumes s: "ledger_ok m s" and mk: "market_ok s" and f: "entries s (offer_key f) = Some (offer_entry f)"
    and c: "crossed m fdiv s s1 f taken rest w sh"
    and w: "w \<le> holding (entries s) (o_sellerID (of_offer f)) (o_selling (of_offer f))" "0 \<le> sh"
  shows "market_ok s1"
  unfolding market_ok_def
proof (intro allI impI)
  fix g
  assume g: "entries s1 (offer_key g) = Some (offer_entry g)"
  note keep = crossed_seller_ok [OF s f c w]
  show "seller_ok s1 (of_offer g)"
  proof (cases "offer_key g = offer_key f")
    case True
    with g c have "g = reduced s f rest" by (auto simp: crossed_def split: if_splits)
    moreover have "seller_ok s1 (of_offer f)" by (rule keep) (use mk f in \<open>simp add: market_ok_def\<close>)
    ultimately show ?thesis by (simp add: seller_ok_def reduced_def)
  next
    case False
    with c have "entries s1 (offer_key g) = entries s (offer_key g)"
      by (auto simp: crossed_def offer_key_def balance_key_def)
    with g mk show ?thesis by (intro keep) (simp add: market_ok_def)
  qed
qed

section \<open>The trail of claimed offers\<close>

definition claim_gain :: "ClaimOfferAtom \<Rightarrow> AccountID \<Rightarrow> Asset \<Rightarrow> int64" where
  "claim_gain c a y =
     (if a = ca_sellerID c then (if y = ca_assetBought c then ca_amountBought c else 0) - (if y = ca_assetSold c then ca_amountSold c else 0)
      else 0)"

definition trail_gain :: "ClaimOfferAtom list \<Rightarrow> AccountID \<Rightarrow> Asset \<Rightarrow> int64" where
  "trail_gain cs a y = sum_list (map (\<lambda>c. claim_gain c a y) cs)"

lemma trail_gain_simps [simp]: "trail_gain [] a y = 0" "trail_gain (cs @ ds) a y = trail_gain cs a y + trail_gain ds a y"
  "trail_gain [c] a y = claim_gain c a y"
  by (simp_all add: trail_gain_def)

definition claim_keys :: "ClaimOfferAtom \<Rightarrow> LedgerKey set" where
  "claim_keys c = {OfferKey (ca_sellerID c) (ca_offerID c), AccountKey (ca_sellerID c), balance_key (ca_sellerID c) (ca_assetSold c),
     balance_key (ca_sellerID c) (ca_assetBought c)}"

text \<open>A claim on an offer of the ledger, on its assets and at no less than its price.\<close>

definition claims_offer :: "Ledger \<Rightarrow> Asset \<Rightarrow> Asset \<Rightarrow> ClaimOfferAtom \<Rightarrow> bool" where
  "claims_offer s wheat sheep c \<longleftrightarrow>
     (\<exists>f. entries s (offer_key f) = Some (offer_entry f) \<and> o_selling (of_offer f) = wheat \<and> o_buying (of_offer f) = sheep \<and>
        fair (of_offer f) (ca_amountSold c) (ca_amountBought c) \<and> c = claim_of (of_offer f) (ca_amountSold c) (ca_amountBought c))"

definition ex_ok :: "Exchange \<Rightarrow> bool" where
  "ex_ok ex \<longleftrightarrow>
     0 \<le> ex_maxSheepSend ex \<and> 0 \<le> ex_sheepSend ex \<and> ex_sheepSend ex + ex_maxSheepSend ex \<le> INT64_MAX \<and>
     0 \<le> ex_maxWheatReceive ex \<and> 0 \<le> ex_wheatReceived ex \<and> ex_wheatReceived ex + ex_maxWheatReceive ex \<le> INT64_MAX"

text \<open>No seller can be paid more native currency than fits.\<close>

definition payable :: "Asset \<Rightarrow> Exchange \<Rightarrow> Ledger \<Rightarrow> bool" where
  "payable sheep ex s \<longleftrightarrow> (sheep = AssetNative \<longrightarrow> (\<forall>a. holding (entries s) a AssetNative + ex_maxSheepSend ex \<le> INT64_MAX))"

text \<open>
  The exchange from \<open>s\<close> to \<open>s1\<close> with the claims \<open>cs\<close>. While it goes on, every claimed offer is gone and the others
  are untouched; at its end the last one may be left with the rest.
\<close>

definition claimed :: "bool \<Rightarrow> Asset \<Rightarrow> Asset \<Rightarrow> Ledger \<Rightarrow> Ledger \<Rightarrow> ClaimOfferAtom list \<Rightarrow> bool" where
  "claimed going wheat sheep s s1 cs \<longleftrightarrow>
     (\<forall>a y. holding (entries s1) a y = holding (entries s) a y + trail_gain cs a y) \<and>
     (\<forall>c\<in>set cs. claims_offer s wheat sheep c) \<and>
     distinct (map (\<lambda>c. (ca_sellerID c, ca_offerID c)) cs) \<and>
     (\<forall>k. (\<forall>c\<in>set cs. k \<notin> claim_keys c) \<longrightarrow> entries s1 k = entries s k) \<and>
     (going \<longrightarrow> (\<forall>c\<in>set cs. entries s1 (OfferKey (ca_sellerID c) (ca_offerID c)) = None) \<and>
        (\<forall>f. entries s1 (offer_key f) = Some (offer_entry f) \<longrightarrow> entries s (offer_key f) = Some (offer_entry f)))"

definition totals :: "Exchange \<Rightarrow> Exchange \<Rightarrow> ClaimOfferAtom list \<Rightarrow> bool" where
  "totals ex ex1 cs \<longleftrightarrow>
     mOfferTrail ex1 = mOfferTrail ex @ cs \<and>
     ex_sheepSend ex1 = ex_sheepSend ex + sum_list (map ca_amountBought cs) \<and>
     ex_maxSheepSend ex1 = ex_maxSheepSend ex - sum_list (map ca_amountBought cs) \<and>
     ex_wheatReceived ex1 = ex_wheatReceived ex + sum_list (map ca_amountSold cs) \<and>
     ex_maxWheatReceive ex1 = ex_maxWheatReceive ex - sum_list (map ca_amountSold cs)"

definition traded :: "bool \<Rightarrow> ledger_map \<Rightarrow> Asset \<Rightarrow> Asset \<Rightarrow> Ledger \<Rightarrow> Ledger \<Rightarrow> Exchange \<Rightarrow> Exchange \<Rightarrow> bool" where
  "traded going m wheat sheep s s1 ex ex1 \<longleftrightarrow>
     ledger_ok m s1 \<and> market_ok s1 \<and> same_run s s1 \<and> ex_ok ex1 \<and> payable sheep ex1 s1 \<and>
     (\<exists>cs. totals ex ex1 cs \<and> claimed going wheat sheep s s1 cs)"

lemma traded_stoppedAt [simp]: "traded going m wheat sheep s s1 ex (ex1\<lparr>ex_stoppedAt := f\<rparr>) \<longleftrightarrow> traded going m wheat sheep s s1 ex ex1"
  by (simp add: traded_def totals_def ex_ok_def payable_def)

lemma claimed_trans:
  assumes c: "claimed True wheat sheep s s1 cs" and d: "claimed going wheat sheep s1 s2 ds"
  shows "claimed going wheat sheep s s2 (cs @ ds)"
proof -
  have earlier: "claims_offer s wheat sheep e" if "claims_offer s1 wheat sheep e" for e
    using that c by (auto simp: claims_offer_def claimed_def)
  have new: "entries s1 (OfferKey (ca_sellerID e) (ca_offerID e)) \<noteq> None" if "e \<in> set ds" for e
  proof -
    from d that have "claims_offer s1 wheat sheep e" by (simp add: claimed_def)
    then show ?thesis by (auto simp: claims_offer_def claim_of_def offer_key_def) (metis ClaimOfferAtom.select_convs(1,2) option.discI)
  qed
  have disj: "(ca_sellerID e, ca_offerID e) \<noteq> (ca_sellerID e', ca_offerID e')" if "e \<in> set cs" "e' \<in> set ds" for e e'
    using c new [OF that(2)] that(1) by (auto simp: claimed_def)
  have gone: "entries s2 (OfferKey (ca_sellerID e) (ca_offerID e)) = None" if "e \<in> set cs" for e
  proof -
    have "OfferKey (ca_sellerID e) (ca_offerID e) \<notin> claim_keys e'" if "e' \<in> set ds" for e'
      using disj [OF \<open>e \<in> set cs\<close> that] by (simp add: claim_keys_def balance_key_def)
    then have "entries s2 (OfferKey (ca_sellerID e) (ca_offerID e)) = entries s1 (OfferKey (ca_sellerID e) (ca_offerID e))"
      using d by (simp add: claimed_def)
    with c that show ?thesis by (simp add: claimed_def)
  qed
  show ?thesis
    unfolding claimed_def
  proof (intro conjI)
    show "distinct (map (\<lambda>c. (ca_sellerID c, ca_offerID c)) (cs @ ds))" using c d disj by (auto simp: claimed_def)
    show "\<forall>c\<in>set (cs @ ds). claims_offer s wheat sheep c" using c d earlier by (auto simp: claimed_def)
    show "going \<longrightarrow> (\<forall>c\<in>set (cs @ ds). entries s2 (OfferKey (ca_sellerID c) (ca_offerID c)) = None) \<and>
        (\<forall>f. entries s2 (offer_key f) = Some (offer_entry f) \<longrightarrow> entries s (offer_key f) = Some (offer_entry f))"
      using c d gone by (auto simp: claimed_def)
  qed (use c d in \<open>simp_all add: claimed_def\<close>)
qed

lemma traded_trans:
  assumes "traded True m wheat sheep s s1 ex ex1" "traded going m wheat sheep s1 s2 ex1 ex2"
  shows "traded going m wheat sheep s s2 ex ex2"
proof -
  obtain cs ds where "totals ex ex1 cs" "totals ex1 ex2 ds" "claimed True wheat sheep s s1 cs" "claimed going wheat sheep s1 s2 ds"
    using assms by (auto simp: traded_def)
  then have "totals ex ex2 (cs @ ds)" "claimed going wheat sheep s s2 (cs @ ds)" using claimed_trans by (auto simp: totals_def)
  with assms show ?thesis by (auto simp: traded_def intro: same_run_trans)
qed

lemma traded_end: "traded going m wheat sheep s s1 ex ex1 \<Longrightarrow> traded False m wheat sheep s s1 ex ex1"
  by (auto simp: traded_def claimed_def)

lemma traded_offset: "traded going m wheat sheep s s1 (ex\<lparr>ex_offerOffset := n\<rparr>) ex1 = traded going m wheat sheep s s1 ex ex1"
  by (simp add: traded_def totals_def)

lemma market_ok_loaded: "loaded m s s1 \<Longrightarrow> market_ok s1 = market_ok s"
  using seller_ok_loaded by (simp add: market_ok_def loaded_entry)

lemma traded_loaded:
  assumes "loaded m s s1" "market_ok s" "ex_ok ex" "payable sheep ex s"
  shows "traded going m wheat sheep s s1 ex ex"
proof -
  have "totals ex ex []" by (simp add: totals_def)
  moreover have "claimed going wheat sheep s s1 []" using assms(1) by (simp add: claimed_def loaded_def)
  ultimately show ?thesis using assms market_ok_loaded [OF assms(1)] by (auto simp: traded_def loaded_def payable_def)
qed

section \<open>One offer of the book\<close>

definition frame_of :: "uint64 \<times> OfferRow \<Rightarrow> OfferFrame" where
  "frame_of row = projr (offer_of_row row)"

lemma row_frame:
  assumes s: "ledger_ok m s" and row: "(i, r) \<in> set (tb_offers (st_db s))"
  shows "offer_of_row (i, r) = Inr (frame_of (i, r))" "o_offerID (of_offer (frame_of (i, r))) = i"
    "entries s (offer_key (frame_of (i, r))) = Some (offer_entry (frame_of (i, r)))"
    "or_selling r = columns_of_asset (o_selling (of_offer (frame_of (i, r))))" "asset_ok (o_selling (of_offer (frame_of (i, r))))"
    "or_buying r = columns_of_asset (o_buying (of_offer (frame_of (i, r))))" "asset_ok (o_buying (of_offer (frame_of (i, r))))"
proof -
  have t: "tables_ok (st_db s)" and ok: "map_ok (tb_offers (st_db s))" using s by (simp_all add: ledger_ok_def database_ok_def tables_ok_def)
  have r: "map_of (tb_offers (st_db s)) i = Some r" using om.items_find [OF ok] row by blast
  obtain f where f: "offer_of_row (i, r) = Inr f" "o_sellerID (of_offer f) = or_sellerid r" "o_offerID (of_offer f) = i"
      "or_selling r = columns_of_asset (o_selling (of_offer f))" "asset_ok (o_selling (of_offer f))"
      "or_buying r = columns_of_asset (o_buying (of_offer f))" "asset_ok (o_buying (of_offer f))"
    by (rule offer_of_row_ok [OF tables_okD(2) [OF t r], of i]) blast
  then have g: "frame_of (i, r) = f" by (simp add: frame_of_def)
  show "offer_of_row (i, r) = Inr (frame_of (i, r))" "o_offerID (of_offer (frame_of (i, r))) = i"
    "or_selling r = columns_of_asset (o_selling (of_offer (frame_of (i, r))))" "asset_ok (o_selling (of_offer (frame_of (i, r))))"
    "or_buying r = columns_of_asset (o_buying (of_offer (frame_of (i, r))))" "asset_ok (o_buying (of_offer (frame_of (i, r))))"
    using f by (simp_all add: g)
  show "entries s (offer_key (frame_of (i, r))) = Some (offer_entry (frame_of (i, r)))"
    using f r by (simp add: g offer_key_def db_view.simps)
qed

lemma set_book: "set (book wheat sheep db) \<subseteq> set (tb_offers db)"
  by (auto simp: book_def)

lemma book_frame:
  assumes "ledger_ok m s" "row \<in> set (book wheat sheep (st_db s))" "asset_ok wheat" "asset_ok sheep"
  shows "entries s (offer_key (frame_of row)) = Some (offer_entry (frame_of row))" "o_offerID (of_offer (frame_of row)) = fst row"
    "o_selling (of_offer (frame_of row)) = wheat" "o_buying (of_offer (frame_of row)) = sheep" "offer_of_row row = Inr (frame_of row)"
proof -
  obtain i r where row: "row = (i, r)" "(i, r) \<in> set (tb_offers (st_db s))" "asset_matches wheat (or_selling r)" "asset_matches sheep (or_buying r)"
    using assms(2) by (auto simp: book_def)
  note f = row_frame [OF assms(1) row(2)]
  show "entries s (offer_key (frame_of row)) = Some (offer_entry (frame_of row))" "o_offerID (of_offer (frame_of row)) = fst row"
    "offer_of_row row = Inr (frame_of row)" using f by (simp_all add: row(1))
  show "o_selling (of_offer (frame_of row)) = wheat" "o_buying (of_offer (frame_of row)) = sheep"
    using row(3,4) asset_matches_columns [OF assms(3) f(5)] asset_matches_columns [OF assms(4) f(7)] by (simp_all add: f(4) [symmetric] f(6) [symmetric] row(1))
qed

lemma book_erase:
  "tb_offers db1 = map_erase i (tb_offers db) \<Longrightarrow> book wheat sheep db1 = filter (\<lambda>(k, _). k \<noteq> i) (book wheat sheep db)"
  by (simp add: book_def map_erase_def filter_sort filter_filter case_prod_unfold conj_commute)

lemma distinct_book:
  assumes "ledger_ok m s"
  shows "distinct (map fst (book wheat sheep (st_db s)))"
proof -
  have "distinct (map fst (tb_offers (st_db s)))"
    using assms strict_sorted_distinct by (auto simp: ledger_ok_def database_ok_def tables_ok_def)
  then show ?thesis by (simp add: book_def distinct_map distinct_map_filter inj_on_def)
qed

lemma exchanged_ok:
  assumes "ex_ok ex" "0 \<le> w" "w \<le> ex_maxWheatReceive ex" "0 \<le> sh" "sh \<le> ex_maxSheepSend ex" "cor = eOfferTaken \<Longrightarrow> 0 < ex_offerOffset ex"
  obtains ex1 where "exchanged cor w sh [c] ex = Inr ex1" "ex_ok ex1"
    "ca_amountSold c = w \<Longrightarrow> ca_amountBought c = sh \<Longrightarrow> totals ex ex1 [c]"
    "ex_offerOffset ex1 = ex_offerOffset ex - (if cor = eOfferTaken then 1 else 0)" "ex_maxSheepSend ex1 = ex_maxSheepSend ex - sh"
proof -
  have "is_int64 (ex_sheepSend ex + sh)" "is_int64 (ex_wheatReceived ex + w)" using assms by (auto simp: ex_ok_def is_int64_def)
  then show thesis using assms
    by (intro that [of "\<lparr>ex_offerOffset = ex_offerOffset ex - (if cor = eOfferTaken then 1 else 0), ex_maxSheepSend = ex_maxSheepSend ex - sh,
         ex_sheepSend = ex_sheepSend ex + sh, ex_maxWheatReceive = ex_maxWheatReceive ex - w, ex_wheatReceived = ex_wheatReceived ex + w,
         mOfferTrail = mOfferTrail ex @ [c], ex_stoppedAt = ex_stoppedAt ex\<rparr>"]) (auto simp: exchanged_def ex_ok_def totals_def assertE_def)
qed

lemma gain_claim: "gain x w sh a y = claim_gain (claim_of x w sh) a y"
  by (simp add: gain_def claim_gain_def claim_of_def)

lemma crossed_traded:
  assumes s: "ledger_ok m s" and mk: "market_ok s" and ld: "loaded m s s0" and c: "crossed m fdiv s0 s1 f taken rest w sh"
    and f: "entries s (offer_key f) = Some (offer_entry f)" "o_selling (of_offer f) = wheat" "o_buying (of_offer f) = sheep"
    and w: "fair (of_offer f) w sh" "w \<le> holding (entries s) (o_sellerID (of_offer f)) wheat"
    and ex: "ex_ok ex1" "totals ex ex1 [claim_of (of_offer f) w sh]" "payable sheep ex s"
  shows "traded taken m wheat sheep s s1 ex ex1"
proof -
  have s0: "ledger_ok m s0" "entries s0 = entries s" "market_ok s0" "same_run s s0"
    using ld mk market_ok_loaded [OF ld] by (simp_all add: loaded_def)
  have ne: "wheat \<noteq> sheep" using mk f by (auto simp: market_ok_def seller_ok_def)
  have "market_ok s1" by (rule crossed_market_ok [OF s0(1,3) _ c]) (use f w s0 in \<open>auto simp: fair_def\<close>)
  moreover have "claimed taken wheat sheep s s1 [claim_of (of_offer f) w sh]"
    unfolding claimed_def
  proof (intro conjI)
    show "\<forall>a y. holding (entries s1) a y = holding (entries s) a y + trail_gain [claim_of (of_offer f) w sh] a y"
      using c s0(2) by (simp add: crossed_def gain_claim)
    show "\<forall>c\<in>set [claim_of (of_offer f) w sh]. claims_offer s wheat sheep c"
      using f w by (auto simp: claims_offer_def claim_of_def)
    show "\<forall>k. (\<forall>c\<in>set [claim_of (of_offer f) w sh]. k \<notin> claim_keys c) \<longrightarrow> entries s1 k = entries s k"
      using c s0(2) by (auto simp: crossed_def claim_keys_def claim_of_def offer_key_def)
    show "taken \<longrightarrow> (\<forall>c\<in>set [claim_of (of_offer f) w sh]. entries s1 (OfferKey (ca_sellerID c) (ca_offerID c)) = None) \<and>
        (\<forall>g. entries s1 (offer_key g) = Some (offer_entry g) \<longrightarrow> entries s (offer_key g) = Some (offer_entry g))"
    proof (intro impI conjI allI)
      assume t: taken
      have gone: "entries s1 (offer_key f) = None" using c t by (simp add: crossed_def)
      then show "\<forall>c\<in>set [claim_of (of_offer f) w sh]. entries s1 (OfferKey (ca_sellerID c) (ca_offerID c)) = None"
        by (simp add: claim_of_def offer_key_def)
      fix g
      assume g: "entries s1 (offer_key g) = Some (offer_entry g)"
      with gone have "offer_key g \<noteq> offer_key f" by auto
      then have "entries s1 (offer_key g) = entries s0 (offer_key g)"
        using c by (auto simp: crossed_def offer_key_def balance_key_def)
      with g s0(2) show "entries s (offer_key g) = Some (offer_entry g)" by simp
    qed
  qed simp
  moreover have "payable sheep ex1 s1"
    unfolding payable_def
  proof (intro impI allI)
    fix a
    assume n: "sheep = AssetNative"
    have "0 \<le> sh" using w(1) by (simp add: fair_def)
    then have "gain (of_offer f) w sh a AssetNative \<le> sh" using n ne f by (auto simp: gain_def)
    moreover have "holding (entries s1) a AssetNative = holding (entries s) a AssetNative + gain (of_offer f) w sh a AssetNative"
      using c s0(2) by (simp add: crossed_def)
    moreover have "holding (entries s) a AssetNative + ex_maxSheepSend ex \<le> INT64_MAX" using ex(3) n by (simp add: payable_def)
    moreover have "ex_maxSheepSend ex1 = ex_maxSheepSend ex - sh" using ex(2) by (simp add: totals_def claim_of_def)
    ultimately show "holding (entries s1) a AssetNative + ex_maxSheepSend ex1 \<le> INT64_MAX" by linarith
  qed
  moreover have "same_run s s1" using c s0(4) same_run_trans by (auto simp: crossed_def)
  ultimately show ?thesis using c ex by (auto simp: traded_def crossed_def)
qed

section \<open>The loops\<close>

definition skipped :: "(OfferFrame \<Rightarrow> OfferFilterResult) \<Rightarrow> (uint64 \<times> OfferRow) list \<Rightarrow> bool" where
  "skipped keep rows \<longleftrightarrow> (\<forall>row\<in>set rows. keep (frame_of row) = eSkip)"

lemma filter_neq_key: "distinct (map fst (xs @ (i, r) # ys)) \<Longrightarrow> filter (\<lambda>(k, _). k \<noteq> i) (xs @ (i, r) # ys) = xs @ ys"
proof -
  assume "distinct (map fst (xs @ (i, r) # ys))"
  then have "filter (\<lambda>(k, _). k \<noteq> i) xs = xs" "filter (\<lambda>(k, _). k \<noteq> i) ys = ys"
    by (auto simp: filter_id_conv image_iff split: prod.splits)
  then show ?thesis by simp
qed

lemma crossed_book:
  assumes "ledger_ok m s" "loaded m s s0" "crossed m fdiv s0 s1 (frame_of row) True rest w sh" "asset_ok wheat" "asset_ok sheep"
    and b: "book wheat sheep (st_db s) = pre @ row # later"
  shows "book wheat sheep (st_db s1) = pre @ later"
proof -
  have "row \<in> set (book wheat sheep (st_db s))" using b by simp
  from book_frame(2) [OF assms(1) this assms(4,5)] assms(2,3) have "tb_offers (st_db s1) = map_erase (fst row) (tb_offers (st_db s))"
    by (simp add: crossed_def loaded_def)
  from book_erase [OF this, of wheat sheep] filter_neq_key [of pre "fst row" "snd row" later] distinct_book [OF assms(1), of wheat sheep]
  show ?thesis unfolding b by simp
qed

lemma wp_crossOffers:
  assumes "ledger_ok m s" "market_ok s" "ex_ok ex" "payable sheep ex s" "needMore ex" and w: "asset_ok wheat" "asset_ok sheep"
    and "book wheat sheep (st_db s) = pre @ todo @ later" "skipped keep pre" "ex_offerOffset ex = length pre + length todo"
    and "\<And>res ex1 s1. traded (res = None) m wheat sheep s s1 ex ex1 \<Longrightarrow>
      (res = None \<Longrightarrow> needMore ex1 \<and> (\<exists>pre1. book wheat sheep (st_db s1) = pre1 @ later \<and> skipped keep pre1 \<and> ex_offerOffset ex1 = length pre1)) \<Longrightarrow>
      (res = Some eOK \<Longrightarrow> \<not> needMore ex1) \<Longrightarrow> Q (res, ex1) s1"
  shows "wpL (crossOffers fdiv lm keep (map frame_of todo) ex) Q s"
  using assms(1-5,8-)
proof (induction todo arbitrary: s ex pre)
  case Nil
  have "traded True m wheat sheep s s ex ex" using Nil.prems by (intro traded_loaded loaded_refl)
  with Nil.prems have "Q (None, ex) s" by (intro Nil.prems(9)) auto
  then show ?case by (simp add: wpL_def)
next
  case (Cons row todo)
  note s = Cons.prems(1) and mk = Cons.prems(2) and ex = Cons.prems(3,4) and need = Cons.prems(5) and bk = Cons.prems(6)
  note Q = Cons.prems(9)
  let ?f = "frame_of row"
  have "row \<in> set (book wheat sheep (st_db s))" using bk by simp
  note f = book_frame [OF s this w]
  have stay: "traded b m wheat sheep s s1 ex ex" if "loaded m s s1" for b s1 by (rule traded_loaded [OF that mk ex])
  show ?case
  proof (cases "keep ?f")
    case eStop
    with Q [of "Some eFilterStop" s "ex\<lparr>ex_stoppedAt := Some ?f\<rparr>"] stay [OF loaded_refl [OF s]] show ?thesis by (simp add: wpL_def)
  next
    case eSkip
    have "wpL (crossOffers fdiv lm keep (map frame_of todo) ex) Q s"
      by (rule Cons.IH [of s ex "pre @ [row]"]) (use Cons.prems eSkip in \<open>auto simp: skipped_def\<close>)
    with eSkip show ?thesis by simp
  next
    case eKeep
    define R where "R = (\<lambda>(cor, n, sh, trail).
        wpL (if cor = eOfferCantConvert then returnL (Some ePartial, ex)
            else bindL (liftE (exchanged cor n sh trail ex)) (\<lambda>ex1.
                   if \<not> needMore ex1 then returnL (Some eOK, ex1)
                   else if cor = eOfferPartial then returnL (Some ePartial, ex1)
                   else crossOffers fdiv lm keep (map frame_of todo) ex1)) Q)"
    have "wpL (crossOffer fdiv lm ?f (ex_maxWheatReceive ex) (ex_maxSheepSend ex)) R s"
    proof (rule wp_crossOffer [OF s f(1)])
      show "seller_ok s (of_offer ?f)" using mk f(1) by (simp add: market_ok_def)
      show "0 \<le> ex_maxWheatReceive ex" "ex_maxWheatReceive ex \<le> INT64_MAX" "0 \<le> ex_maxSheepSend ex" "ex_maxSheepSend ex \<le> INT64_MAX"
        using ex(1) by (auto simp: ex_ok_def)
      show "holding (entries s) (o_sellerID (of_offer ?f)) AssetNative + ex_maxSheepSend ex \<le> INT64_MAX" if "o_buying (of_offer ?f) = AssetNative"
        using ex(2) that f(4) by (simp add: payable_def)
    next
      fix n sh s1
      assume "loaded m s s1"
      with Q [of "Some ePartial"] stay show "R (eOfferCantConvert, n, sh, []) s1" by (simp add: R_def wp_simps)
    next
      fix s0 s1 taken amount n sh
      assume ld: "loaded m s s0" and c: "crossed m fdiv s0 s1 ?f taken (amount - n) n sh" and fr: "fair (of_offer ?f) n sh"
        and n: "n \<le> holding (entries s) (o_sellerID (of_offer ?f)) (o_selling (of_offer ?f))" "n \<le> ex_maxWheatReceive ex" "sh \<le> ex_maxSheepSend ex"
      let ?cor = "if taken then eOfferTaken else eOfferPartial" and ?c = "claim_of (of_offer ?f) n sh"
      obtain ex1 where ex1: "exchanged ?cor n sh [?c] ex = Inr ex1" "ex_ok ex1" "totals ex ex1 [?c]"
        "ex_offerOffset ex1 = ex_offerOffset ex - (if ?cor = eOfferTaken then 1 else 0)"
        using exchanged_ok [OF ex(1), of n sh ?cor ?c] fr n Cons.prems(8) by (auto simp: fair_def claim_of_def)
      have tr: "traded taken m wheat sheep s s1 ex ex1"
        by (rule crossed_traded [OF s mk ld c f(1,3,4) fr]) (use n ex1 ex f in simp_all)
      then have tr': "traded False m wheat sheep s s1 ex ex1" by (rule traded_end)
      have "wpL (if \<not> needMore ex1 then returnL (Some eOK, ex1)
                   else if ?cor = eOfferPartial then returnL (Some ePartial, ex1)
                   else crossOffers fdiv lm keep (map frame_of todo) ex1) Q s1"
      proof (cases "needMore ex1 \<and> taken")
        case False
        then show ?thesis using Q [of "Some eOK" s1 ex1] Q [of "Some ePartial" s1 ex1] tr' by (auto simp: wp_simps)
      next
        case True
        have "wpL (crossOffers fdiv lm keep (map frame_of todo) ex1) Q s1"
        proof (rule Cons.IH [of s1 ex1 pre])
          show "ledger_ok m s1" "market_ok s1" "payable sheep ex1 s1" using tr by (simp_all add: traded_def)
          show "book wheat sheep (st_db s1) = pre @ todo @ later"
            using crossed_book [OF s ld _ w, of fdiv s1 row "amount - n" n sh pre "todo @ later"] c True bk by simp
          fix res :: "ConvertResult option" and ex2 s2
          assume "traded (res = None) m wheat sheep s1 s2 ex1 ex2"
          then have "traded (res = None) m wheat sheep s s2 ex ex2" using tr True traded_trans by simp
          moreover assume "res = None \<Longrightarrow> needMore ex2 \<and> (\<exists>pre1. book wheat sheep (st_db s2) = pre1 @ later \<and> skipped keep pre1 \<and> ex_offerOffset ex2 = length pre1)"
            "res = Some eOK \<Longrightarrow> \<not> needMore ex2"
          ultimately show "Q (res, ex2) s2" by (rule Q)
        qed (use ex1 True Cons.prems in simp_all)
        with True show ?thesis by simp
      qed
      then show "R (?cor, n, sh, [?c]) s1" using ex1(1) by (auto simp: R_def wp_simps split: if_splits)
    qed
    then show ?thesis
      unfolding R_def list.map crossOffers.simps eKeep OfferFilterResult.case wpL_bindL by (simp add: case_prod_unfold)
  qed
qed

lemma loadOffers_frames: "\<forall>row\<in>set rows. offer_of_row row = Inr (frame_of row) \<Longrightarrow> loadOffers rows = Inr (map frame_of rows)"
  unfolding loadOffers_def by (induction rows) simp_all

lemma loadBestOffers_book:
  assumes "ledger_ok m s" "asset_ok wheat" "asset_ok sheep" "book wheat sheep (st_db s) = pre @ later" "k = length pre"
  shows "withDB (\<lambda>db. bindE (loadBestOffers n k wheat sheep db) (\<lambda>fs. Inr (fs, db))) s = Inr (map frame_of (take n later), s)"
proof -
  have "\<forall>row\<in>set (take n later). offer_of_row row = Inr (frame_of row)"
    using book_frame(5) [OF assms(1) _ assms(2,3)] assms(4) by (auto dest: in_set_takeD)
  from loadOffers_frames [OF this] show ?thesis
    using assms(4,5) by (simp add: withDB_def loadBestOffers_def)
qed

text \<open>
  Each round of the loop but the last reads five offers that are then claimed or skipped, so the number of rounds
  is bounded by the length of the book.
\<close>

lemma wp_convert_loop:
  assumes "ledger_ok m s" "market_ok s" "ex_ok ex" "payable sheep ex s" and w: "asset_ok wheat" "asset_ok sheep"
    and "book wheat sheep (st_db s) = pre @ later" "skipped keep pre" "ex_offerOffset ex = length pre" "length later < 5 * n"
    and "\<And>r ex1 s1. traded False m wheat sheep s s1 ex ex1 \<Longrightarrow>
      (r = eOK \<Longrightarrow> needMore ex1 \<Longrightarrow> skipped keep (book wheat sheep (st_db s1))) \<Longrightarrow> Q (r, ex1) s1"
  shows "wpL (convert_loop n fdiv lm sheep wheat keep ex) Q s"
  using assms(1-4,7-)
proof (induction n arbitrary: s ex pre later)
  case 0
  then show ?case by simp
next
  case (Suc n)
  note s = Suc.prems(1) and mk = Suc.prems(2) and ex = Suc.prems(3,4) and bk = Suc.prems(5) and Q = Suc.prems(9)
  show ?case
  proof (cases "needMore ex")
    case False
    have "traded False m wheat sheep s s ex ex" by (rule traded_loaded [OF loaded_refl [OF s] mk ex])
    with Q [of s ex eOK] False show ?thesis by (simp add: wpL_def)
  next
    case True
    let ?rows = "take 5 later" let ?fs = "map frame_of ?rows"
    let ?ex = "ex\<lparr>ex_offerOffset := ex_offerOffset ex + length ?fs\<rparr>"
    have "wpL (crossOffers fdiv lm keep ?fs ?ex) (\<lambda>(res, ex1). wpL (case res of Some r \<Rightarrow> returnL (r, ex1)
        | None \<Rightarrow> if needMore ex1 \<and> length ?fs < 5 then returnL (eOK, ex1) else convert_loop n fdiv lm sheep wheat keep ex1) Q) s"
    proof (rule wp_crossOffers [OF s mk])
      show "book wheat sheep (st_db s) = pre @ ?rows @ drop 5 later" using bk by simp
      fix res :: "ConvertResult option" and ex1 s1
      assume "traded (res = None) m wheat sheep s s1 ?ex ex1"
      then have tr: "traded (res = None) m wheat sheep s s1 ex ex1" by (simp only: traded_offset)
      assume none: "res = None \<Longrightarrow> needMore ex1 \<and>
          (\<exists>pre1. book wheat sheep (st_db s1) = pre1 @ drop 5 later \<and> skipped keep pre1 \<and> ex_offerOffset ex1 = length pre1)"
        and ok: "res = Some eOK \<Longrightarrow> \<not> needMore ex1"
      have "wpL (case res of Some r \<Rightarrow> returnL (r, ex1)
        | None \<Rightarrow> if needMore ex1 \<and> length ?fs < 5 then returnL (eOK, ex1) else convert_loop n fdiv lm sheep wheat keep ex1) Q s1"
      proof (cases res)
        case (Some r)
        with Q [OF traded_end [OF tr], of r] ok show ?thesis by (simp add: wp_simps)
      next
        case None
        then obtain pre1 where b: "book wheat sheep (st_db s1) = pre1 @ drop 5 later" "skipped keep pre1" "ex_offerOffset ex1 = length pre1"
          and need: "needMore ex1" using none by blast
        have t: "traded True m wheat sheep s s1 ex ex1" using tr None by simp
        show ?thesis
        proof (cases "length later < 5")
          case True
          with b Q [OF traded_end [OF tr], of eOK] None need show ?thesis by (simp add: wp_simps)
        next
          case False
          have "wpL (convert_loop n fdiv lm sheep wheat keep ex1) Q s1"
          proof (rule Suc.IH [of s1 ex1 pre1 "drop 5 later"])
            show "ledger_ok m s1" "market_ok s1" "ex_ok ex1" "payable sheep ex1 s1" using t by (simp_all add: traded_def)
            show "length (drop 5 later) < 5 * n" using Suc.prems(8) False by simp
            fix r ex2 s2
            assume "traded False m wheat sheep s1 s2 ex1 ex2"
            from traded_trans [OF t this] have "traded False m wheat sheep s s2 ex ex2" .
            moreover assume "r = eOK \<Longrightarrow> needMore ex2 \<Longrightarrow> skipped keep (book wheat sheep (st_db s2))"
            ultimately show "Q (r, ex2) s2" by (rule Q)
          qed (use b in simp_all)
          with None False show ?thesis by simp
        qed
      qed
      then show "(case (res, ex1) of (res, ex1) \<Rightarrow> wpL (case res of Some r \<Rightarrow> returnL (r, ex1)
        | None \<Rightarrow> if needMore ex1 \<and> length ?fs < 5 then returnL (eOK, ex1) else convert_loop n fdiv lm sheep wheat keep ex1) Q) s1" by simp
    qed (use Suc.prems True w in \<open>simp_all add: ex_ok_def payable_def needMore_def\<close>)
    moreover have "wpL (withDB (\<lambda>db. bindE (loadBestOffers 5 (ex_offerOffset ex) wheat sheep db) (\<lambda>fs. Inr (fs, db)))) P s = P ?fs s" for P
      using loadBestOffers_book [OF s w bk Suc.prems(7), of 5] by (simp add: wpL_def)
    ultimately show ?thesis using True by (simp only: convert_loop.simps if_False not_True_eq_False wpL_bindL case_prod_unfold)
  qed
qed

theorem wp_convertWithOffers:
  assumes s: "ledger_ok m s" "market_ok s" and w: "asset_ok wheat" "asset_ok sheep"
    and lim: "0 \<le> maxS" "maxS \<le> INT64_MAX" "0 \<le> maxW" "maxW \<le> INT64_MAX"
    and native: "sheep = AssetNative \<longrightarrow> (\<forall>a. holding (entries s) a AssetNative + maxS \<le> INT64_MAX)"
    and fuel: "length (book wheat sheep (st_db s)) < 5 * fuel"
    and Q: "\<And>r ex s1 cs. ledger_ok m s1 \<Longrightarrow> market_ok s1 \<Longrightarrow> same_run s s1 \<Longrightarrow> claimed False wheat sheep s s1 cs \<Longrightarrow> mOfferTrail ex = cs \<Longrightarrow>
      ex_sheepSend ex = sum_list (map ca_amountBought cs) \<Longrightarrow> ex_wheatReceived ex = sum_list (map ca_amountSold cs) \<Longrightarrow>
      ex_sheepSend ex \<le> maxS \<Longrightarrow> ex_wheatReceived ex \<le> maxW \<Longrightarrow>
      (r = eOK \<Longrightarrow> ex_sheepSend ex < maxS \<Longrightarrow> ex_wheatReceived ex < maxW \<Longrightarrow> skipped keep (book wheat sheep (st_db s1))) \<Longrightarrow> Q (r, ex) s1"
  shows "wpL (convertWithOffers fuel fdiv lm sheep maxS wheat maxW keep) Q s"
  unfolding convertWithOffers_def
proof (rule wp_convert_loop [OF s _ _ w, where pre = "[]"])
  let ?ex = "\<lparr>ex_offerOffset = 0, ex_maxSheepSend = maxS, ex_sheepSend = 0, ex_maxWheatReceive = maxW, ex_wheatReceived = 0, mOfferTrail = [], ex_stoppedAt = None\<rparr>"
  fix r ex1 s1
  assume t: "traded False m wheat sheep s s1 ?ex ex1" and ok: "r = eOK \<Longrightarrow> needMore ex1 \<Longrightarrow> skipped keep (book wheat sheep (st_db s1))"
  then obtain cs where "totals ?ex ex1 cs" "claimed False wheat sheep s s1 cs" by (auto simp: traded_def)
  with t ok show "Q (r, ex1) s1"
    by (intro Q [of s1 cs]) (auto simp: traded_def totals_def ex_ok_def needMore_def)
qed (use lim native fuel in \<open>auto simp: ex_ok_def payable_def skipped_def\<close>)

end
