(* ===== verification/Exchange_Properties.thy ===== *)
theory Exchange_Properties
  imports Exchange_Book Frame_Properties
begin

text \<open>What an exchange with the order book guarantees.\<close>

declare db_view.simps [simp del]

section \<open>A ledger with an offer\<close>

text \<open>The account \<open>[1]\<close> has 100 of the native currency, 50 dollars of the issuer \<open>[2]\<close>, and offers 40 dollars at a price of 2.\<close>

definition usd :: Asset where
  "usd = AlphaNum4 [85, 83, 68, 0] [2]"

definition shop :: Database where
  "shop = empty_tables\<lparr>
     tb_accounts := [([1], \<lparr>ar_balance = 100, ar_seqnum = 1, ar_numsubentries = 2, ar_inflationdest = None, ar_homedomain = [],
        ar_accounttype = 0, ar_thresholds = [1, 0, 0, 0], ar_flags = 0, ar_lastmodified = 1\<rparr>)],
     tb_trustlines := [(getKeyFields [1] usd, \<lparr>tr_assettype = 1, tr_tlimit = 1000, tr_balance = 50, tr_flags = 1, tr_lastmodified = 1\<rparr>)],
     tb_offers := [(7, \<lparr>or_sellerid = [1], or_selling = columns_of_asset usd, or_buying = columns_of_asset AssetNative, or_amount = 40,
        or_pricen = 2, or_priced = 1, or_price = 2, or_flags = 0, or_lastmodified = 1\<rparr>)]\<rparr>"

lemma usd_ok: "asset_ok usd" "usd \<noteq> AssetNative" "assetType usd = 1"
  by (code_simp, simp add: usd_def, code_simp)

lemma native_ok: "asset_ok AssetNative"
  by code_simp

definition shop_offer :: OfferFrame where
  "shop_offer = \<lparr>of_offer = \<lparr>o_sellerID = [1], o_offerID = 7, o_selling = usd, o_buying = AssetNative, o_amount = 40,
     o_price = \<lparr>price_n = 2, price_d = 1\<rparr>, o_flags = 0\<rparr>, of_lastModified = 1\<rparr>"

lemma shop_ok: "database_ok shop"
proof -
  have line: "trust_row_ok (getKeyFields [1] usd) \<lparr>tr_assettype = 1, tr_tlimit = 1000, tr_balance = 50, tr_flags = 1, tr_lastmodified = 1\<rparr>"
    unfolding trust_row_ok_def
  proof (intro conjI)
    show "\<exists>x. x \<noteq> AssetNative \<and> asset_ok x \<and> getKeyFields [1] usd = getKeyFields (fst (getKeyFields [1] usd)) x \<and>
        tr_assettype \<lparr>tr_assettype = 1, tr_tlimit = 1000, tr_balance = 50, tr_flags = 1, tr_lastmodified = 1\<rparr> = assetType x"
      using usd_ok by (intro exI [of _ usd]) (simp add: getKeyFields_credit)
  qed code_simp+
  have offer: "offer_row_ok \<lparr>or_sellerid = [1], or_selling = columns_of_asset usd, or_buying = columns_of_asset AssetNative, or_amount = 40,
        or_pricen = 2, or_priced = 1, or_price = 2, or_flags = 0, or_lastmodified = 1\<rparr>"
    unfolding offer_row_ok_def using usd_ok(1) native_ok by auto
  show ?thesis
    using line offer by (auto simp: database_ok_def tables_ok_def account_row_ok_def cache_ok_def cache_of_def shop_def empty_tables_def
        signer_rows_def isString32Valid_def split: if_splits)
qed

lemma shop_entries:
  "db_view shop (AccountKey a) = (if a = [1] then Some \<lparr>lastModifiedLedgerSeq = 1, edata = AccountData
     \<lparr>a_accountID = [1], a_balance = 100, a_seqNum = 1, a_numSubEntries = 2, a_inflationDest = None, a_flags = 0, a_homeDomain = [],
      a_accountType = 0, a_thresholds = [1, 0, 0, 0], a_signers = []\<rparr>\<rparr> else None)"
  "db_view shop (TrustLineKey [1] usd) = Some \<lparr>lastModifiedLedgerSeq = 1, edata = TrustLineData
     \<lparr>t_accountID = [1], t_asset = usd, t_balance = 50, t_limit = 1000, t_flags = 1\<rparr>\<rparr>"
  "db_view shop (OfferKey a i) = (if a = [1] \<and> i = 7 then Some (offer_entry shop_offer) else None)"
proof -
  have "asset_of_row 1 [2] (assetCodeToStr [85, 83, 68, 0]) = usd" "offer_of_row (7, \<lparr>or_sellerid = [1], or_selling = columns_of_asset usd,
      or_buying = columns_of_asset AssetNative, or_amount = 40, or_pricen = 2, or_priced = 1, or_price = 2, or_flags = 0, or_lastmodified = 1\<rparr>) = Inr shop_offer"
    by code_simp+
  then show "db_view shop (TrustLineKey [1] usd) = Some \<lparr>lastModifiedLedgerSeq = 1, edata = TrustLineData
     \<lparr>t_accountID = [1], t_asset = usd, t_balance = 50, t_limit = 1000, t_flags = 1\<rparr>\<rparr>"
    "db_view shop (OfferKey a i) = (if a = [1] \<and> i = 7 then Some (offer_entry shop_offer) else None)"
    using usd_ok by (auto simp: db_view.simps shop_def trust_of_row_def getKeyFields_def usd_def split: if_splits)
  show "db_view shop (AccountKey a) = (if a = [1] then Some \<lparr>lastModifiedLedgerSeq = 1, edata = AccountData
     \<lparr>a_accountID = [1], a_balance = 100, a_seqNum = 1, a_numSubEntries = 2, a_inflationDest = None, a_flags = 0, a_homeDomain = [],
      a_accountType = 0, a_thresholds = [1, 0, 0, 0], a_signers = []\<rparr>\<rparr> else None)"
    by (simp add: db_view.simps shop_def empty_tables_def account_of_row_def signer_rows_def)
qed

lemma shop_holding: "holding (db_view shop) a AssetNative = (if a = [1] then 100 else 0)" "holding (db_view shop) [1] usd = 50"
  using usd_ok(2) by (auto simp: holding_def shop_entries)

abbreviation shop_ledger :: Ledger where
  "shop_ledger \<equiv> ledger_on genesis False shop"

lemma shop_market: "ledger_ok (db_view shop) shop_ledger" "market_ok shop_ledger"
proof -
  show "ledger_ok (db_view shop) shop_ledger" by (rule ledger_on_ok [OF shop_ok]) simp
  let ?acc = "\<lparr>af_account = \<lparr>a_accountID = [1], a_balance = 100, a_seqNum = 1, a_numSubEntries = 2, a_inflationDest = None, a_flags = 0, a_homeDomain = [],
      a_accountType = 0, a_thresholds = [1, 0, 0, 0], a_signers = []\<rparr>, af_lastModified = 1, mUpdateSigners = True\<rparr>"
  show "market_ok shop_ledger"
    unfolding market_ok_def
  proof (intro allI impI)
    fix f
    assume "entries shop_ledger (offer_key f) = Some (offer_entry f)"
    then have f: "f = shop_offer" by (auto simp: offer_key_def shop_entries split: if_splits)
    have "offers_of [1] (tb_offers shop) = 1" by (simp add: offers_of_def shop_def)
    then show "seller_ok shop_ledger (of_offer f)"
      unfolding seller_ok_def f shop_offer_def using usd_ok(2)
      by (auto simp: shop_holding shop_entries price_ok_def account_entry_def intro!: exI [of _ ?acc])
  qed
qed

lemma shop_book: "length (book usd AssetNative shop) \<le> 1"
proof -
  have "length (book usd AssetNative shop) \<le> length (tb_offers shop)" by (simp add: book_def)
  then show ?thesis by (simp add: shop_def)
qed

section \<open>Exchanging with the book\<close>

text \<open>
  C14. Buying with the offers of the book, on a sound ledger whose offers have positive prices and sellers that exist
  and owe nothing, ends and never fails, given fuel for one query per five offers of the book. The trail accounts for
  every change of a balance: each account gains what its claimed offers bought and loses what they sold, no other
  balance moves, and no other entry changes. Every claim is on an offer that was in the book, on each at most once,
  for no more than its amount and at no less than its price. The totals reported are those of the trail and within the
  limits of the buyer, and when the function reports success below both limits, every offer left in the book is one the
  filter skipped. Tables, cache and delta stay in step.
\<close>

theorem exchange_accounted:
  assumes "ledger_ok m s" "market_ok s" "asset_ok wheat" "asset_ok sheep" "0 \<le> maxS" "maxS \<le> INT64_MAX" "0 \<le> maxW" "maxW \<le> INT64_MAX"
    "sheep = AssetNative \<longrightarrow> (\<forall>a. holding (entries s) a AssetNative + maxS \<le> INT64_MAX)"
    "length (book wheat sheep (st_db s)) < 5 * fuel"
  shows "\<exists>r ex s1. convertWithOffers fuel fdiv lm sheep maxS wheat maxW keep s = Inr ((r, ex), s1) \<and>
    ledger_ok m s1 \<and> market_ok s1 \<and>
    (\<forall>a y. holding (entries s1) a y = holding (entries s) a y + trail_gain (mOfferTrail ex) a y) \<and>
    (\<forall>k. (\<forall>c\<in>set (mOfferTrail ex). k \<notin> claim_keys c) \<longrightarrow> entries s1 k = entries s k) \<and>
    (\<forall>c\<in>set (mOfferTrail ex). claims_offer s wheat sheep c) \<and>
    distinct (map (\<lambda>c. (ca_sellerID c, ca_offerID c)) (mOfferTrail ex)) \<and>
    ex_sheepSend ex = sum_list (map ca_amountBought (mOfferTrail ex)) \<and> ex_sheepSend ex \<le> maxS \<and>
    ex_wheatReceived ex = sum_list (map ca_amountSold (mOfferTrail ex)) \<and> ex_wheatReceived ex \<le> maxW \<and>
    (r = eOK \<and> ex_sheepSend ex < maxS \<and> ex_wheatReceived ex < maxW \<longrightarrow> skipped keep (book wheat sheep (st_db s1)))"
proof -
  have "wpL (convertWithOffers fuel fdiv lm sheep maxS wheat maxW keep) (\<lambda>(r, ex) s1.
    ledger_ok m s1 \<and> market_ok s1 \<and> claimed False wheat sheep s s1 (mOfferTrail ex) \<and>
    ex_sheepSend ex = sum_list (map ca_amountBought (mOfferTrail ex)) \<and> ex_sheepSend ex \<le> maxS \<and>
    ex_wheatReceived ex = sum_list (map ca_amountSold (mOfferTrail ex)) \<and> ex_wheatReceived ex \<le> maxW \<and>
    (r = eOK \<and> ex_sheepSend ex < maxS \<and> ex_wheatReceived ex < maxW \<longrightarrow> skipped keep (book wheat sheep (st_db s1)))) s"
    by (rule wp_convertWithOffers [OF assms]) simp
  then show ?thesis by (auto simp: wpL_def claimed_def)
qed

theorem exchange_accounted_witness:
  "\<exists>r ex s1. convertWithOffers 1 (\<lambda>n d. of_int n / of_int d) genesis AssetNative 10 usd 30 (\<lambda>_. eKeep) shop_ledger = Inr ((r, ex), s1) \<and>
    (\<forall>a y. holding (entries s1) a y = holding (db_view shop) a y + trail_gain (mOfferTrail ex) a y) \<and>
    (\<forall>c\<in>set (mOfferTrail ex). claims_offer shop_ledger usd AssetNative c) \<and> ex_sheepSend ex \<le> 10"
proof -
  have "\<forall>a. holding (entries shop_ledger) a AssetNative + 10 \<le> INT64_MAX" by (simp add: shop_holding)
  then show ?thesis
    using exchange_accounted [OF shop_market usd_ok(1), of AssetNative 10 30 1 "\<lambda>n d. of_int n / of_int d" genesis "\<lambda>_. eKeep"] shop_book native_ok
    by fastforce
qed

lemma shop_purchase:
  "map_sum id (\<lambda>((r, ex), s1). (r, ex_sheepSend ex, ex_wheatReceived ex, map ca_offerID (mOfferTrail ex)))
     (convertWithOffers 1 (\<lambda>n d. of_int n / of_int d) genesis AssetNative 10 usd 30 (\<lambda>_. eKeep) shop_ledger) = Inr (eOK, 10, 5, [7])"
  by code_simp

end
