(* ===== verification/Transaction_Properties.thy ===== *)
theory Transaction_Properties
  imports Payment_Effect Signature_Check Exchange_Properties
begin

text \<open>What holds of transactions and their operations.\<close>

declare db_view.simps [simp del]

section \<open>A ledger with a bank\<close>

text \<open>
  The accounts \<open>[1]\<close>, \<open>[4]\<close> and the commission account \<open>[3]\<close> hold dollars of the bank \<open>[2]\<close>; the first has 100 of
  them and 70 of the native currency. A signature verifies when it is the key itself.
\<close>

definition town_account :: "int64 \<Rightarrow> uint32 \<Rightarrow> uint32 \<Rightarrow> AccountRow" where
  "town_account b n ty = \<lparr>ar_balance = b, ar_seqnum = 5, ar_numsubentries = n, ar_inflationdest = None, ar_homedomain = [],
     ar_accounttype = ty, ar_thresholds = [1, 0, 0, 0], ar_flags = 0, ar_lastmodified = 1\<rparr>"

definition town_line :: "int64 \<Rightarrow> TrustRow" where
  "town_line b = \<lparr>tr_assettype = 1, tr_tlimit = 1000, tr_balance = b, tr_flags = 1, tr_lastmodified = 1\<rparr>"

definition town :: Database where
  "town = empty_tables\<lparr>
     tb_accounts := [([1], town_account 70 1 0), ([2], town_account 0 0 6), ([3], town_account 10 1 0), ([4], town_account 30 1 0), ([5], town_account 9 0 0)],
     tb_trustlines := [(getKeyFields [1] usd, town_line 100), (getKeyFields [3] usd, town_line 5), (getKeyFields [4] usd, town_line 7)]\<rparr>"

definition town_header :: LedgerHeader where
  "town_header = genesis\<lparr>lh_baseFee := 0, lh_baseReserve := 0\<rparr>"

definition town_app :: App where
  "town_app = \<lparr>BANK_MASTER_KEY = [2], BANK_COMMISSION_KEY = [3], ledgerHeader = town_header, app_fdiv = (\<lambda>_ _. 0), app_fuel = 1,
     verifySig = (\<lambda>key sig _. key = sig), contentsHash = (\<lambda>_. []), toStrKey = (\<lambda>key. key)\<rparr>"

abbreviation town_ledger :: Ledger where
  "town_ledger \<equiv> ledger_on town_header True town"

lemma town_ok: "database_ok town"
proof -
  have line: "trust_row_ok (getKeyFields a usd) (town_line b)" if "0 \<le> b" "b \<le> 1000" for a b
    unfolding trust_row_ok_def
  proof (intro conjI)
    show "\<exists>x. x \<noteq> AssetNative \<and> asset_ok x \<and> getKeyFields a usd = getKeyFields (fst (getKeyFields a usd)) x \<and> tr_assettype (town_line b) = assetType x"
      using usd_ok by (intro exI [of _ usd]) (simp add: getKeyFields_credit town_line_def)
    have "asset_of_row 1 [2] (assetCodeToStr [85, 83, 68, 0]) = usd" "isAssetValid usd" by code_simp+
    then show "trust_isValid (trust_of_row (getKeyFields a usd) (town_line b))"
      using that usd_ok by (simp add: trust_isValid_def trust_of_row_def getKeyFields_def usd_def town_line_def)
  qed (use that in \<open>simp_all add: town_line_def is_int64_def\<close>)
  show ?thesis
    using line [of 100 "[1]"] line [of 5 "[3]"] line [of 7 "[4]"]
    by (auto simp: database_ok_def tables_ok_def account_row_ok_def cache_ok_def cache_of_def town_def empty_tables_def town_account_def
        signer_rows_def isString32Valid_def getKeyFields_def usd_def split: if_splits)
qed

lemma town_ledger_ok: "ledger_ok (db_view town) town_ledger"
  by (rule ledger_on_ok [OF town_ok]) (simp add: town_header_def genesis_def)

lemma town_entries:
  "db_view town (AccountKey a) = map_option (\<lambda>r. \<lparr>lastModifiedLedgerSeq = 1, edata = AccountData (account_of_row a r [])\<rparr>)
     (map_of [([1], town_account 70 1 0), ([2], town_account 0 0 6), ([3], town_account 10 1 0), ([4], town_account 30 1 0), ([5], town_account 9 0 0)] a)"
  "db_view town (TrustLineKey a usd) = map_option (\<lambda>b. \<lparr>lastModifiedLedgerSeq = 1, edata = TrustLineData
     \<lparr>t_accountID = a, t_asset = usd, t_balance = b, t_limit = 1000, t_flags = 1\<rparr>\<rparr>) (map_of [([1], 100), ([3], 5), ([4], 7)] a)"
proof -
  show "db_view town (AccountKey a) = map_option (\<lambda>r. \<lparr>lastModifiedLedgerSeq = 1, edata = AccountData (account_of_row a r [])\<rparr>)
     (map_of [([1], town_account 70 1 0), ([2], town_account 0 0 6), ([3], town_account 10 1 0), ([4], town_account 30 1 0), ([5], town_account 9 0 0)] a)"
    by (simp add: db_view.simps town_def empty_tables_def signer_rows_def town_account_def)
  have "asset_of_row 1 [2] (assetCodeToStr [85, 83, 68, 0]) = usd" by code_simp
  then show "db_view town (TrustLineKey a usd) = map_option (\<lambda>b. \<lparr>lastModifiedLedgerSeq = 1, edata = TrustLineData
     \<lparr>t_accountID = a, t_asset = usd, t_balance = b, t_limit = 1000, t_flags = 1\<rparr>\<rparr>) (map_of [([1], 100), ([3], 5), ([4], 7)] a)"
    using usd_ok by (simp add: db_view.simps town_def trust_of_row_def getKeyFields_def usd_def town_line_def)
qed

definition town_frame :: "AccountID \<Rightarrow> AccountRow \<Rightarrow> AccountFrame" where
  "town_frame a r = \<lparr>af_account = account_of_row a r [], af_lastModified = 1, mUpdateSigners = False\<rparr>"

definition town_trust :: "AccountID \<Rightarrow> int64 \<Rightarrow> TrustFrame" where
  "town_trust a b = \<lparr>tf_line = \<lparr>t_accountID = a, t_asset = usd, t_balance = b, t_limit = 1000, t_flags = 1\<rparr>, tf_lastModified = 1, mIsIssuer = False\<rparr>"

lemma town_held:
  "entries town_ledger (AccountKey [1]) = Some (account_entry (town_frame [1] (town_account 70 1 0)))"
  "entries town_ledger (AccountKey [2]) = Some (account_entry (town_frame [2] (town_account 0 0 6)))"
  "entries town_ledger (AccountKey [3]) = Some (account_entry (town_frame [3] (town_account 10 1 0)))"
  "entries town_ledger (AccountKey [4]) = Some (account_entry (town_frame [4] (town_account 30 1 0)))"
  "entries town_ledger (AccountKey [5]) = Some (account_entry (town_frame [5] (town_account 9 0 0)))"
  "entries town_ledger (TrustLineKey [1] usd) = Some (trust_entry (town_trust [1] 100))"
  "entries town_ledger (TrustLineKey [3] usd) = Some (trust_entry (town_trust [3] 5))"
  "entries town_ledger (TrustLineKey [4] usd) = Some (trust_entry (town_trust [4] 7))"
  by (simp_all add: town_entries account_entry_def trust_entry_def town_frame_def town_trust_def)

text \<open>A transaction of the account \<open>a\<close> with one operation, signed by the given keys.\<close>

definition town_sig :: "AccountID \<Rightarrow> DecoratedSignature" where
  "town_sig k = \<lparr>ds_hint = k, ds_signature = k\<rparr>"

definition town_tx :: "AccountID \<Rightarrow> Operation \<Rightarrow> OperationFee \<Rightarrow> AccountID list \<Rightarrow> TxFrame" where
  "town_tx a op fee signers = TxFrame_new \<lparr>env_tx = \<lparr>tx_sourceAccount = a, tx_fee = 0, tx_seqNum = 6, tx_timeBounds = None, tx_operations = [op]\<rparr>,
     env_signatures = map town_sig signers, env_operationFees = [fee]\<rparr>"

definition town_payment :: PaymentOp where
  "town_payment = \<lparr>pay_destination = [4], pay_asset = usd, pay_amount = 20\<rparr>"

section \<open>Signatures\<close>

text \<open>
  C7. The check of the signatures of a transaction against an account: provided that the signers of the account differ,
  that no signature is one of two of them, and that neither their weights together nor the weight asked for reach
  \<open>2 ^ 31\<close>, it succeeds exactly when someone signed and the weights of all those who signed add up to the weight asked
  for. The order of the signatures does not matter, and signing twice counts once.
\<close>

theorem checkSignature_correct:
  assumes "distinct (keyWeights tx account)" "total_weight (keyWeights tx account) < 2 ^ 31" "uint neededWeight < 2 ^ 31"
    and "unambiguous app tx (keyWeights tx account)"
  shows "fst (checkSignature app tx account neededWeight) \<longleftrightarrow>
    {s \<in> set (keyWeights tx account). has_signed app tx s} \<noteq> {} \<and>
    uint neededWeight \<le> (\<Sum>s | s \<in> set (keyWeights tx account) \<and> has_signed app tx s. uint (sg_weight s))"
proof -
  let ?h = "contentsHash app (env_tx (mEnvelope tx))" and ?sigs = "env_signatures (mEnvelope tx)"
  let ?all = "all_signers app ?h ?sigs (keyWeights tx account)"
  have eq: "fst (checkSignature app tx account neededWeight) \<longleftrightarrow> ?all \<noteq> [] \<and> uint neededWeight \<le> total_weight ?all"
    using signature_loop_ok [of 0 "keyWeights tx account" neededWeight app ?h 0 ?sigs "[]" "mUsedSignatures tx"] assms
    by (simp add: checkSignature_def split_def)
  have set: "set ?all = {s \<in> set (keyWeights tx account). has_signed app tx s}"
    unfolding has_signed_def by (rule all_signers_all [OF assms(1) assms(4) [unfolded unambiguous_def]])
  have "total_weight ?all = (\<Sum>s\<in>set ?all. uint (sg_weight s))"
    using all_signers_distinct [OF assms(1), of app ?h ?sigs] by (simp add: total_weight_def sum_list_distinct_conv_sum_set)
  moreover have "?all \<noteq> [] \<longleftrightarrow> {s \<in> set (keyWeights tx account). has_signed app tx s} \<noteq> {}" unfolding set [symmetric] by simp
  ultimately show ?thesis using eq set by simp
qed

definition signed_twice :: TxFrame where
  "signed_twice = town_tx [1] \<lparr>op_sourceAccount = None, op_body = PAYMENT town_payment\<rparr> opFEE_NONE [[1], [1]]"

theorem checkSignature_correct_witness:
  "\<not> fst (checkSignature town_app signed_twice (town_frame [1] (town_account 70 1 0)) 2) \<and>
   fst (checkSignature town_app signed_twice (town_frame [1] (town_account 70 1 0)) 1)"
proof -
  let ?f = "town_frame [1] (town_account 70 1 0)" and ?s = "\<lparr>sg_pubKey = [1], sg_weight = 1, sg_signerType = SIGNER_GENERAL\<rparr>"
  have keys: "keyWeights signed_twice ?f = [?s]" by code_simp
  have signed: "has_signed town_app signed_twice ?s" by code_simp
  have "unambiguous town_app signed_twice [?s]" by (simp add: unambiguous_def)
  with checkSignature_correct [of signed_twice ?f 2 town_app] checkSignature_correct [of signed_twice ?f 1 town_app] signed
  show ?thesis unfolding keys by (simp add: Collect_conv_if)
qed

text \<open>
  C8. No operation but a merge reaches its own checks or changes anything unless its source agreed: the account exists,
  and among its signers there are some, each used at most once, whose signatures of this very transaction are attached
  to it and whose weights reach the threshold the operation asks for. This holds whatever the weights are, since the
  sum can only be computed too small.
\<close>

theorem operation_authorized:
  assumes "op_apply app op fee tx s = Inr ((opINNER r, tx1), s1)" "\<forall>d. op_body op \<noteq> ACCOUNT_MERGE d"
  shows "\<exists>src s0 used. tx_loadAccount True tx (op_getSourceID tx op) s = Inr (Some src, s0) \<and> used \<noteq> [] \<and>
    mset used \<subseteq># mset (keyWeights tx src) \<and> (\<forall>x\<in>set used. has_signed app tx x) \<and>
    uint (getNeededThreshold (op_body op) src) \<le> total_weight used"
proof -
  obtain acc s0 where l: "tx_loadAccount True tx (op_getSourceID tx op) s = Inr (acc, s0)"
    using assms(1) by (auto simp: op_apply_def op_checkValid_def bindL_Inr_iff)
  have acc: "acc \<noteq> None"
    using assms(1) l by (auto simp: op_apply_def op_checkValid_def bindL_Inr_iff split: option.splits)
  then obtain src where src: "acc = Some src" by auto
  have auth: "op_authorized app tx op src = checkSignature app tx src (getNeededThreshold (op_body op) src)"
    using assms(2) by (auto simp: op_authorized_def split: OperationBody.split)
  obtain ok used tx2 where c: "checkSignature app tx src (getNeededThreshold (op_body op) src) = (ok, used, tx2)"
    using prod_cases3 by blast
  have "ok"
  proof (rule ccontr)
    assume "\<not> ok"
    with assms(1) l src auth c show False by (auto simp: op_apply_def op_checkValid_def bindL_def)
  qed
  moreover have "sint (getNeededThreshold (op_body op) src) = uint (getNeededThreshold (op_body op) src)"
    by (cases "op_body op") (simp_all add: getLowThreshold_def getMediumThreshold_def getHighThreshold_def threshold_small uint_up_ucast is_up)
  ultimately show ?thesis
    using checkSignature_used [OF c] l src by (intro exI [of _ src] exI [of _ s0] exI [of _ used]) simp
qed

theorem operation_authorized_witness:
  "\<exists>src s0 used. tx_loadAccount True signed_twice [1] town_ledger = Inr (Some src, s0) \<and> used \<noteq> [] \<and> mset used \<subseteq># mset (keyWeights signed_twice src) \<and>
     (\<forall>x\<in>set used. has_signed town_app signed_twice x)"
proof -
  let ?op = "\<lparr>op_sourceAccount = None, op_body = PAYMENT town_payment\<rparr>"
  have "(case op_apply town_app ?op (Some opFEE_NONE) signed_twice town_ledger of Inr ((opINNER _, _), _) \<Rightarrow> True | _ \<Rightarrow> False)" by code_simp
  then obtain r tx1 s1 where "op_apply town_app ?op (Some opFEE_NONE) signed_twice town_ledger = Inr ((opINNER r, tx1), s1)"
    by (auto split: sum.splits prod.splits OperationResult.splits)
  from operation_authorized [OF this] show ?thesis by (auto simp: op_getSourceID_def tx_getSourceID_def signed_twice_def town_tx_def TxFrame_new_def)
qed

section \<open>Payments\<close>

text \<open>
  C15. A direct payment between three different accounts (source, destination, commission account), with room for it in
  all three balances and a well-formed fee, succeeds and conserves the asset: the source loses the amount, the
  commission account gets the commission and the destination the rest. No other balance and no other entry changes, and
  tables, cache and delta stay in step. In a credit asset only the issuer can go below zero.
\<close>

theorem payment_conserves:
  assumes "ledger_ok m s" "payment_ready app s sourceID src fee p"
  shows "\<exists>src1 s1. Payment_doApply app sourceID fee p src s = Inr ((PAYMENT_SUCCESS, src1), s1) \<and> ledger_ok m s1 \<and>
    (\<forall>a x. holding (entries s1) a x = holding (entries s) a x +
       payment_change sourceID (pay_destination p) (BANK_COMMISSION_KEY app) (pay_asset p) (pay_amount p) (commission fee) a x) \<and>
    (\<forall>k. k \<notin> payment_keys sourceID (pay_destination p) (BANK_COMMISSION_KEY app) (pay_asset p) \<longrightarrow> entries s1 k = entries s k)"
proof -
  let ?p = "directPayment (pay_destination p) (pay_asset p) (pay_amount p)"
  let ?T = "\<lambda>s1. transferred m s s1 (payment_change sourceID (pay_destination p) (BANK_COMMISSION_KEY app) (pay_asset p) (pay_amount p) (commission fee))
      (payment_keys sourceID (pay_destination p) (BANK_COMMISSION_KEY app) (pay_asset p))"
  have "wpL (PathPayment_doApply app sourceID fee False ?p src) (\<lambda>(r, src1) s1. payment_code r = Inr PAYMENT_SUCCESS \<and> ?T s1) s"
    by (rule wp_directPayment [OF assms]) simp
  moreover have "PathPayment_doCheckValid app fee ?p = Inr None" "pay_destination p \<noteq> sourceID"
    using assms(2) by (auto simp: PathPayment_doCheckValid_def payment_ready_def Let_def is_int64_def commission_def fee_malformed_def split: OperationFee.splits)
  ultimately have "wpL (Payment_doApply app sourceID fee p src) (\<lambda>(r, src1) s1. r = PAYMENT_SUCCESS \<and> ?T s1) s"
    by (auto simp: Payment_doApply_def PathPayment_run_def wp_simps wpL_def split_def bindL_Inr_iff)
  then show ?thesis by (auto simp: wpL_def transferred_def)
qed

theorem payment_conserves_witness:
  "\<exists>src1 s1. Payment_doApply town_app [1] (opFEE_CHARGED usd 3) town_payment (town_frame [1] (town_account 70 1 0)) town_ledger =
      Inr ((PAYMENT_SUCCESS, src1), s1) \<and>
    holding (entries s1) [1] usd = 80 \<and> holding (entries s1) [3] usd = 8 \<and> holding (entries s1) [4] usd = 24"
proof -
  have lines: "line_takes (town_trust [4] 7) 17" "line_takes (town_trust [3] 5) 3" "line_takes (town_trust [1] 100) (-20)"
    by (simp_all add: line_takes_def town_trust_def isAuthorized_def)
  have "isAssetValid_issuer [2] usd" "issuer usd = [2]" by code_simp+
  moreover have "a_accountType (af_account (town_frame [4] (town_account 30 1 0))) \<noteq> ACCOUNT_SCRATCH_CARD"
    by (simp add: town_frame_def account_of_row_def town_account_def)
  moreover have "lines_ready town_ledger [1] [4] [3] usd 20 3"
    unfolding lines_ready_def using town_held lines \<open>issuer usd = [2]\<close>
    by (intro exI [of _ "town_frame [2] (town_account 0 0 6)"] exI [of _ "town_trust [4] 7"] exI [of _ "town_trust [3] 5"] exI [of _ "town_trust [1] 100"]) simp
  ultimately have "payment_ready town_app town_ledger [1] (town_frame [1] (town_account 70 1 0)) (opFEE_CHARGED usd 3) town_payment"
    using town_held(3,4) usd_ok(2)
    by (auto simp: payment_ready_def Let_def town_payment_def town_app_def app_getIssuer_def fee_malformed_def commission_def)
  from payment_conserves [OF town_ledger_ok this] town_held(6-8) usd_ok(2) show ?thesis
    by (auto simp: payment_change_def town_payment_def town_app_def commission_def holding_trust town_trust_def)
qed

text \<open>
  C28. A payment in the native asset to the commission account itself destroys money: it succeeds, the source loses the
  whole amount, and the account gains no more than the commission. The rest is gone, because the payment writes the
  account twice, from two frames that were loaded before.
\<close>

theorem payment_to_commission_lost:
  assumes "ledger_ok m s" "sourceID \<noteq> BANK_COMMISSION_KEY app" "\<not> fee_malformed fee AssetNative" "commission fee < n" "n \<le> INT64_MAX"
    and "entries s (AccountKey (BANK_COMMISSION_KEY app)) = Some (account_entry df)" "a_accountType (af_account df) \<noteq> ACCOUNT_SCRATCH_CARD"
      "a_balance (af_account df) + n \<le> INT64_MAX"
    and "entries s (AccountKey sourceID) = Some (account_entry src)" "getMinimumBalance (ledgerHeader app) src \<le> a_balance (af_account src) - n"
  shows "\<exists>src1 s1. Payment_doApply app sourceID fee \<lparr>pay_destination = BANK_COMMISSION_KEY app, pay_asset = AssetNative, pay_amount = n\<rparr> src s =
      Inr ((PAYMENT_SUCCESS, src1), s1) \<and>
    (\<forall>a x. holding (entries s1) a x = holding (entries s) a x + lost_change sourceID (BANK_COMMISSION_KEY app) n (commission fee) a x)"
proof -
  let ?p = "directPayment (BANK_COMMISSION_KEY app) AssetNative n"
  let ?x = "\<lparr>pay_destination = BANK_COMMISSION_KEY app, pay_asset = AssetNative, pay_amount = n\<rparr>"
  let ?T = "\<lambda>s1. transferred m s s1 (lost_change sourceID (BANK_COMMISSION_KEY app) n (commission fee)) {AccountKey sourceID, AccountKey (BANK_COMMISSION_KEY app)}"
  have "wpL (PathPayment_doApply app sourceID fee False ?p src) (\<lambda>(r, src1) s1. payment_code r = Inr PAYMENT_SUCCESS \<and> ?T s1) s"
    by (rule wp_payment_to_commission [OF assms]) simp
  moreover have "PathPayment_doCheckValid app fee ?p = Inr None"
    using assms(3-5) by (auto simp: PathPayment_doCheckValid_def is_int64_def commission_def fee_malformed_def isAssetValid_issuer_def split: OperationFee.splits)
  ultimately have "wpL (Payment_doApply app sourceID fee ?x src) (\<lambda>(r, src1) s1. r = PAYMENT_SUCCESS \<and> ?T s1) s"
    using assms(2) by (auto simp: Payment_doApply_def PathPayment_run_def wp_simps wpL_def split_def bindL_Inr_iff)
  then show ?thesis by (auto simp: wpL_def transferred_def)
qed

theorem payment_to_commission_lost_witness:
  "\<exists>src1 s1. Payment_doApply town_app [1] (opFEE_CHARGED AssetNative 3) \<lparr>pay_destination = [3], pay_asset = AssetNative, pay_amount = 20\<rparr>
      (town_frame [1] (town_account 70 1 0)) town_ledger = Inr ((PAYMENT_SUCCESS, src1), s1) \<and>
    holding (entries s1) [1] AssetNative = 50 \<and> holding (entries s1) [3] AssetNative = 13"
proof -
  let ?src = "town_frame [1] (town_account 70 1 0)" and ?com = "town_frame [3] (town_account 10 1 0)"
  have f: "a_balance (af_account ?src) = 70" "a_balance (af_account ?com) = 10" "a_accountType (af_account ?com) \<noteq> ACCOUNT_SCRATCH_CARD"
    "getMinimumBalance (ledgerHeader town_app) ?src = 0"
    by (simp_all add: town_frame_def account_of_row_def town_account_def getMinimumBalance_def getMinBalance_def town_app_def town_header_def)
  have fee: "\<not> fee_malformed (opFEE_CHARGED AssetNative 3) AssetNative" "commission (opFEE_CHARGED AssetNative 3) = 3" "BANK_COMMISSION_KEY town_app = [3]"
    by (simp_all add: fee_malformed_def commission_def town_app_def)
  have "holding (entries town_ledger) [1] AssetNative = 70" "holding (entries town_ledger) [3] AssetNative = 10"
    using holding_account [of "entries town_ledger", OF town_held(1)] holding_account [of "entries town_ledger", OF town_held(3)] f by simp_all
  with payment_to_commission_lost [OF town_ledger_ok, of "[1]" town_app "opFEE_CHARGED AssetNative 3" 20 ?com ?src] f fee town_held(1,3)
  show ?thesis by (auto simp: lost_change_def)
qed

section \<open>Merging accounts\<close>

lemma wp_Merge:
  assumes s: "ledger_ok m s" and a: "entries s (AccountKey a) = Some (account_entry src)" "\<not> isImmutableAuth src"
      "unat (a_numSubEntries (af_account src)) = length (a_signers (af_account src))"
    and d: "entries s (AccountKey d) = Some (account_entry other)" "a_balance (af_account other) + a_balance (af_account src) \<le> INT64_MAX" "a \<noteq> d"
    and Q: "\<And>s1. ledger_ok m s1 \<Longrightarrow> entries s1 (AccountKey a) = None \<Longrightarrow> holding (entries s1) d AssetNative = a_balance (af_account other) + a_balance (af_account src) \<Longrightarrow>
      (\<forall>k. k \<noteq> AccountKey a \<longrightarrow> k \<noteq> AccountKey d \<longrightarrow> entries s1 k = entries s k) \<Longrightarrow> Q (ACCOUNT_MERGE_SUCCESS (a_balance (af_account src))) s1"
  shows "wpL (Merge_doApply d src) Q s"
  unfolding Merge_doApply_def wpL_bindL
proof (rule wp_loadAccount_held [OF s d(1)], goal_cases)
  case (1 g s1)
  have s1: "ledger_ok m s1" "entries s1 = entries s" using 1(1) by (simp_all add: loaded_def)
  have g: "af_account g = af_account other" using 1(2) by (simp add: account_entry_inj)
  have b: "0 \<le> a_balance (af_account src)" "0 \<le> a_balance (af_account other)" using account_held(3) [OF s a(1)] account_held(3) [OF s d(1)] by simp_all
  have id: "account_getID src = a" using account_held(1) [OF s a(1)] .
  have i: "i64 (a_balance (af_account g) + a_balance (af_account src)) = Inr (a_balance (af_account g) + a_balance (af_account src))"
    using b d(2) g by (simp add: is_int64_def)
  have "wpL (account_storeChange (add_to_account (a_balance (af_account src)) g)) (\<lambda>_. wpL (account_storeDelete a) (\<lambda>_. Q (ACCOUNT_MERGE_SUCCESS (a_balance (af_account src))))) s1"
  proof (rule wp_balance_stored [OF s1(1)])
    show "entries s1 (AccountKey d) = Some (account_entry g)" using d(1) s1(2) 1(2) by simp
    fix f1 s2
    assume mv: "moved m s1 s2 d AssetNative (a_balance (af_account src))"
    then have s2: "ledger_ok m s2" "entries s2 (AccountKey a) \<noteq> None"
      using s1(2) a(1) d(3) by (auto simp: moved_def balance_key_def)
    from account_deleted [OF s2] obtain s3 where s3: "account_storeDelete a s2 = Inr ((), s3)" "wrote m s2 s3 (AccountKey a) None"
      by auto
    have "holding (entries s3) d AssetNative = holding (entries s2) d AssetNative"
      using s3(2) d(3) by (intro holding_cong) (simp add: wrote_def balance_key_def)
    then have "holding (entries s3) d AssetNative = a_balance (af_account other) + a_balance (af_account src)"
      using mv s1(2) holding_account [of "entries s", OF d(1)] by (simp add: moved_def)
    then have "Q (ACCOUNT_MERGE_SUCCESS (a_balance (af_account src))) s3"
      using s3(2) mv s1(2) by (intro Q) (auto simp: wrote_def moved_def balance_key_def)
    with s3(1) show "wpL (account_storeDelete a) (\<lambda>_. Q (ACCOUNT_MERGE_SUCCESS (a_balance (af_account src)))) s2" by (auto intro: wpLI)
  qed (use b d(2) g in simp_all)
  then show ?case using a(2,3) by (simp add: i id wp_simps add_to_account_def Let_def)
qed

text \<open>
  C27. A merge needs no signature of the account it takes: in any transaction of another account, whatever signatures are
  attached to it, an operation that merges an account without further entries into an existing account succeeds. The
  merged account is gone, and its balance is with the destination.
\<close>

theorem merge_needs_no_signature:
  assumes "ledger_ok m s" "mSigningAccount tx = Some f" "account_getID f \<noteq> a" "a \<noteq> d" "a \<noteq> BANK_MASTER_KEY app"
    and "entries s (AccountKey a) = Some (account_entry victim)" "\<not> isImmutableAuth victim"
      "unat (a_numSubEntries (af_account victim)) = length (a_signers (af_account victim))"
    and "entries s (AccountKey d) = Some (account_entry other)" "a_balance (af_account other) + a_balance (af_account victim) \<le> INT64_MAX"
  shows "\<exists>tx1 s1. op_apply app \<lparr>op_sourceAccount = Some a, op_body = ACCOUNT_MERGE d\<rparr> fee tx s =
      Inr ((opINNER (AccountMergeRes (ACCOUNT_MERGE_SUCCESS (a_balance (af_account victim)))), tx1), s1) \<and>
    entries s1 (AccountKey a) = None \<and>
    holding (entries s1) d AssetNative = a_balance (af_account other) + a_balance (af_account victim)"
proof -
  let ?op = "\<lparr>op_sourceAccount = Some a, op_body = ACCOUNT_MERGE d\<rparr>"
  let ?Q = "\<lambda>(r, tx1) s1. r = opINNER (AccountMergeRes (ACCOUNT_MERGE_SUCCESS (a_balance (af_account victim)))) \<and> entries s1 (AccountKey a) = None \<and>
    holding (entries s1) d AssetNative = a_balance (af_account other) + a_balance (af_account victim)"
  have load: "tx_loadAccount True tx (op_getSourceID tx ?op) = loadAccount a" using assms(2,3) by (simp add: tx_loadAccount_def op_getSourceID_def)
  have "wpL (op_apply app ?op fee tx) ?Q s"
    unfolding op_apply_def op_checkValid_def load bindL_assoc wpL_bindL
  proof (rule wp_loadAccount_held [OF assms(1,6)], goal_cases)
    case (1 src s1)
    have s1: "ledger_ok m s1" "entries s1 = entries s" using 1(1) by (simp_all add: loaded_def)
    have src: "af_account src = af_account victim" using 1(2) by (simp add: account_entry_inj)
    have "wpL (Merge_doApply d src) (\<lambda>r s1. r = ACCOUNT_MERGE_SUCCESS (a_balance (af_account victim)) \<and> entries s1 (AccountKey a) = None \<and>
        holding (entries s1) d AssetNative = a_balance (af_account other) + a_balance (af_account victim)) s1"
      using assms s1 src 1(2) by (intro wp_Merge [OF s1(1), of a src d other]) (simp_all add: isImmutableAuth_def)
    then have "wpL (Merge_doApply d src) (\<lambda>r. ?Q (opINNER (AccountMergeRes r), share_source src tx)) s1" by (rule wpL_mono) simp
    then show ?case
      using assms(4,5)
      by (auto simp: op_authorized_def Merge_authorized_def Merge_doCheckValid_def op_getSourceID_def resultL_def deref_def wpL_def bindL_def liftE_def)
  qed
  then show ?thesis by (auto simp: wpL_def)
qed

definition theft :: TxFrame where
  "theft = town_tx [1] \<lparr>op_sourceAccount = Some [5], op_body = ACCOUNT_MERGE [1]\<rparr> opFEE_NONE [[1]]"

theorem merge_needs_no_signature_witness:
  "\<exists>tx1 s1. op_apply town_app \<lparr>op_sourceAccount = Some [5], op_body = ACCOUNT_MERGE [1]\<rparr> (Some opFEE_NONE)
      (theft\<lparr>mSigningAccount := Some (town_frame [1] (town_account 70 1 0))\<rparr>) town_ledger =
    Inr ((opINNER (AccountMergeRes (ACCOUNT_MERGE_SUCCESS 9)), tx1), s1) \<and> entries s1 (AccountKey [5]) = None \<and> holding (entries s1) [1] AssetNative = 79"
  using merge_needs_no_signature [OF town_ledger_ok, of "theft\<lparr>mSigningAccount := Some (town_frame [1] (town_account 70 1 0))\<rparr>"
      "town_frame [1] (town_account 70 1 0)" "[5]" "[1]" town_app "town_frame [5] (town_account 9 0 0)" "town_frame [1] (town_account 70 1 0)" "Some opFEE_NONE"]
    town_held(1,5)
  by (simp add: town_frame_def account_of_row_def town_account_def account_getID_def isImmutableAuth_def town_app_def)

text \<open>The whole transaction of the account \<open>[1]\<close>, signed by it alone, is valid and succeeds.\<close>

lemma theft_succeeds:
  "(case tx_checkValid town_app 0 theft town_ledger of Inr ((code, _), _) \<Rightarrow> code = txSUCCESS | _ \<Rightarrow> False) \<and>
   (case bindL (processFeeSeqNum theft) (tx_apply town_app) town_ledger of Inr ((code, _), s1) \<Rightarrow> code = txSUCCESS \<and> map_of (tb_accounts (st_db s1)) [5] = None | _ \<Rightarrow> False)"
  by code_simp

section \<open>Sequence numbers\<close>

lemma out_of_time_code: "out_of_time app tx \<noteq> Some txSUCCESS"
  by (simp add: out_of_time_def Let_def split: option.split)

lemma check_sequence:
  assumes s: "ledger_ok m s" and v: "tx_checkValid app current tx s = Inr ((txSUCCESS, e, tx1), s1)"
  shows "\<exists>f. entries s (AccountKey (tx_getSourceID tx)) = Some (account_entry f) \<and>
    (if current = 0 then a_seqNum (af_account f) else current) + 1 = tx_seqNum (env_tx (mEnvelope tx))"
proof -
  let ?tx = "resetResults (resetSignatureTracker tx)"
  have same: "tx_getSourceID ?tx = tx_getSourceID tx" "mEnvelope ?tx = mEnvelope tx" "mSigningAccount ?tx = None"
    by (simp_all add: resetResults_def resetSignatureTracker_def tx_getSourceID_def Let_def)
  obtain tx2 s2 where c: "commonValid app False current ?tx s = Inr ((txSUCCESS, tx2), s2)"
    using v by (auto simp: tx_checkValid_def bindL_Inr_iff split: if_splits)
  have "database_ok (st_db s)" using s by (simp add: ledger_ok_def)
  from loadAccount_db_view [OF this, of "tx_getSourceID tx"] obtain f d where
    l: "loadAccount_db (tx_getSourceID tx) (st_db s) = Inr (f, d)" "map_option account_entry f = entries s (AccountKey (tx_getSourceID tx))" by blast
  have "tx_loadAccount False ?tx (tx_getSourceID ?tx) s = Inr (f, s\<lparr>st_db := d\<rparr>)"
    using l(1) same by (simp add: tx_loadAccount_def withDB_def)
  then obtain g where "f = Some g" "(if current = 0 then a_seqNum (af_account g) else current) + 1 = tx_seqNum (env_tx (mEnvelope tx))"
    using c same out_of_time_code by (auto simp: commonValid_def bindL_def Let_def split: if_splits option.splits)
  with l(2) show ?thesis by (intro exI [of _ g]) simp
qed

lemma process_sequence:
  "processFeeSeqNum tx s = bindL (loadAccount (tx_getSourceID tx)) (\<lambda>acc. case acc of
       None \<Rightarrow> throwL (Runtime_Error ''Unexpected database state'')
     | Some f \<Rightarrow> if a_seqNum (af_account f) + 1 \<noteq> tx_seqNum (env_tx (mEnvelope tx)) then throwL (Runtime_Error ''Unexpected account state'')
         else bindL (account_storeChange (f\<lparr>af_account := (af_account f)\<lparr>a_seqNum := tx_seqNum (env_tx (mEnvelope tx))\<rparr>\<rparr>)) (\<lambda>f1.
                returnL ((resetResults (resetSignatureTracker tx))\<lparr>mSigningAccount := Some f1\<rparr>))) s"
proof -
  let ?tx = "resetResults (resetSignatureTracker tx)"
  have same: "tx_getSourceID ?tx = tx_getSourceID tx" "mEnvelope ?tx = mEnvelope tx" "mSigningAccount ?tx = None"
    by (simp_all add: resetResults_def resetSignatureTracker_def tx_getSourceID_def Let_def)
  show ?thesis unfolding processFeeSeqNum_def tx_loadAccount_def Let_def same option.case if_True by (rule refl)
qed

text \<open>A transaction is refused where its account is gone or has a number that is not the one before its own.\<close>

lemma sequence_refused:
  assumes s: "ledger_ok m s"
    and f: "\<And>f. entries s (AccountKey (tx_getSourceID tx)) = Some (account_entry f) \<Longrightarrow> a_seqNum (af_account f) + 1 \<noteq> tx_seqNum (env_tx (mEnvelope tx))"
  shows "processFeeSeqNum tx s = Inl (Runtime_Error
      (if entries s (AccountKey (tx_getSourceID tx)) = None then ''Unexpected database state'' else ''Unexpected account state''))"
    and "current = 0 \<or> current + 1 \<noteq> tx_seqNum (env_tx (mEnvelope tx)) \<Longrightarrow> tx_checkValid app current tx s \<noteq> Inr ((txSUCCESS, e, tx1), s1)"
proof -
  obtain acc s0 where l: "loadAccount (tx_getSourceID tx) s = Inr (acc, s0)" "map_option account_entry acc = entries s (AccountKey (tx_getSourceID tx))"
    using loadAccount_loaded [OF s, of "tx_getSourceID tx"] by blast
  show "processFeeSeqNum tx s = Inl (Runtime_Error
      (if entries s (AccountKey (tx_getSourceID tx)) = None then ''Unexpected database state'' else ''Unexpected account state''))"
    using l(1) l(2) [symmetric] f by (cases acc) (auto simp: process_sequence bindL_def)
  show "tx_checkValid app current tx s \<noteq> Inr ((txSUCCESS, e, tx1), s1)" if "current = 0 \<or> current + 1 \<noteq> tx_seqNum (env_tx (mEnvelope tx))"
  proof
    assume "tx_checkValid app current tx s = Inr ((txSUCCESS, e, tx1), s1)"
    from check_sequence [OF s this] f that show False by (auto split: if_splits)
  qed
qed

lemma no_wrap_below: "(n :: uint64) \<noteq> 0 \<Longrightarrow> n \<le> k \<Longrightarrow> k + 1 \<noteq> n"
  using unatSuc [of k] by (auto simp: word_le_nat_alt add.commute)

lemma restamped: "account_entry (stamped s f) = account_entry g \<Longrightarrow> af_account g = af_account f"
  by (auto simp: account_entry_inj stamped_def)

lemma sequence_repeated:
  assumes s: "ledger_ok m s" and env: "mEnvelope tx = mEnvelope tx0" and n: "tx_seqNum (env_tx (mEnvelope tx0)) \<noteq> 0"
    and f: "\<And>f. entries s (AccountKey (tx_getSourceID tx0)) = Some (account_entry f) \<Longrightarrow> tx_seqNum (env_tx (mEnvelope tx0)) \<le> a_seqNum (af_account f)"
  shows "processFeeSeqNum tx s = Inl (Runtime_Error
      (if entries s (AccountKey (tx_getSourceID tx0)) = None then ''Unexpected database state'' else ''Unexpected account state''))"
    and "current = 0 \<or> tx_seqNum (env_tx (mEnvelope tx0)) \<le> current \<Longrightarrow> tx_checkValid app current tx s \<noteq> Inr ((txSUCCESS, e, tx1), s1)"
proof -
  have i: "tx_getSourceID tx = tx_getSourceID tx0" using env by (simp add: tx_getSourceID_def)
  have "a_seqNum (af_account f) + 1 \<noteq> tx_seqNum (env_tx (mEnvelope tx))" if "entries s (AccountKey (tx_getSourceID tx)) = Some (account_entry f)" for f
    using f that i env no_wrap_below [OF n] by simp
  note refused = sequence_refused [OF s this]
  show "processFeeSeqNum tx s = Inl (Runtime_Error
      (if entries s (AccountKey (tx_getSourceID tx0)) = None then ''Unexpected database state'' else ''Unexpected account state''))"
    using refused(1) i by simp
  show "tx_checkValid app current tx s \<noteq> Inr ((txSUCCESS, e, tx1), s1)" if "current = 0 \<or> tx_seqNum (env_tx (mEnvelope tx0)) \<le> current"
    using refused(2) [of current] that no_wrap_below [OF n, of current] env by auto
qed

text \<open>
  C16. The sequence number of a transaction is consumed before it is applied. When \<^verbatim>\<open>processFeeSeqNum\<close>
  returns, the account of the transaction had the number before that of the transaction and has that of the transaction
  now, nothing else of it has changed but its stamp, and no other entry. The state it leaves refuses the transaction. So
  does every other state of the ledger in which the account has at least the number of the transaction, or is gone: for
  every frame \<open>tx2\<close> with the same envelope \<^verbatim>\<open>processFeeSeqNum\<close> throws, and \<^verbatim>\<open>checkValid\<close> does not succeed, neither
  against the number of the account (\<open>current = 0\<close>) nor against a current number that has reached that of the
  transaction. The number 0 is excepted there, as the account may then have the largest number, which the addition
  wraps to 0. Nothing is said of a state in which the account has a smaller number: that arises when the account
  is merged away and created anew, and the transaction can then be repeated.
\<close>

theorem sequence_consumed:
  assumes "ledger_ok m s" "processFeeSeqNum tx s = Inr (tx1, s1)"
  shows "(\<exists>f. entries s (AccountKey (tx_getSourceID tx)) = Some (account_entry f) \<and>
      a_seqNum (af_account f) + 1 = tx_seqNum (env_tx (mEnvelope tx)) \<and>
      entries s1 = (entries s)(AccountKey (tx_getSourceID tx) \<mapsto> account_entry (stamped s
        (f\<lparr>af_account := (af_account f)\<lparr>a_seqNum := tx_seqNum (env_tx (mEnvelope tx))\<rparr>\<rparr>))) \<and> ledger_ok m s1 \<and>
      processFeeSeqNum tx s1 = Inl (Runtime_Error ''Unexpected account state'') \<and>
      (\<nexists>e tx2 s2. tx_checkValid app 0 tx s1 = Inr ((txSUCCESS, e, tx2), s2))) \<and>
    (\<forall>m2 s2 tx2 current. ledger_ok m2 s2 \<and> mEnvelope tx2 = mEnvelope tx \<and> tx_seqNum (env_tx (mEnvelope tx)) \<noteq> 0 \<and>
      (\<forall>g. entries s2 (AccountKey (tx_getSourceID tx)) = Some (account_entry g) \<longrightarrow> tx_seqNum (env_tx (mEnvelope tx)) \<le> a_seqNum (af_account g)) \<longrightarrow>
      processFeeSeqNum tx2 s2 = Inl (Runtime_Error
        (if entries s2 (AccountKey (tx_getSourceID tx)) = None then ''Unexpected database state'' else ''Unexpected account state'')) \<and>
      (current = 0 \<or> tx_seqNum (env_tx (mEnvelope tx)) \<le> current \<longrightarrow> (\<nexists>e tx3 s3. tx_checkValid app current tx2 s2 = Inr ((txSUCCESS, e, tx3), s3))))"
proof (intro conjI allI impI, goal_cases)
  case 1
  let ?i = "tx_getSourceID tx" and ?n = "tx_seqNum (env_tx (mEnvelope tx))"
  obtain acc s0 where l: "loadAccount ?i s = Inr (acc, s0)" "loaded m s s0" "map_option account_entry acc = entries s (AccountKey ?i)"
    using loadAccount_loaded [OF assms(1), of ?i] by blast
  obtain f where f: "acc = Some f" "a_seqNum (af_account f) + 1 = ?n"
    using assms(2) l(1) by (auto simp: process_sequence bindL_def split: option.splits if_splits)
  let ?f = "f\<lparr>af_account := (af_account f)\<lparr>a_seqNum := ?n\<rparr>\<rparr>"
  have s0: "ledger_ok m s0" "entries s0 (AccountKey ?i) = Some (account_entry f)" "entries s0 = entries s" using l f by (auto simp: loaded_def)
  note held = account_held [OF s0(1,2)]
  have id: "account_getID ?f = ?i" using held(1) by (simp add: account_getID_def)
  have "wpL (account_storeChange ?f) (\<lambda>f1 s1. wrote m s0 s1 (AccountKey ?i) (Some (account_entry (stamped s0 ?f)))) s0"
    by (rule wp_account_change [OF s0(1), where g = f]) (use id s0 held in auto)
  then have w: "wrote m s0 s1 (AccountKey ?i) (Some (account_entry (stamped s0 ?f)))"
    using assms(2) l(1) f by (auto simp: process_sequence bindL_def wpL_def)
  have st: "stamped s0 ?f = stamped s ?f" using l(2) by (simp add: stamped_def loaded_def same_run_stamp)
  have s1: "ledger_ok m s1" "entries s1 = (entries s)(AccountKey ?i \<mapsto> account_entry (stamped s ?f))"
    using w s0(3) st by (simp_all add: wrote_def)
  then have "a_seqNum (af_account g) + 1 \<noteq> ?n" if "entries s1 (AccountKey ?i) = Some (account_entry g)" for g
    using that restamped [of s ?f g] by simp
  from sequence_refused [OF s1(1) this] s0 s1 f
  show ?case
    by (intro exI [of _ f]) auto
next
  case (2 m2 s2 tx2 current)
  then show ?case using sequence_repeated [of m2 s2 tx2 tx] by simp
next
  case (3 m2 s2 tx2 current)
  then show ?case using sequence_repeated [of m2 s2 tx2 tx] by blast
qed

text \<open>The witness: the transaction is refused by the state it leaves, also against a current number of 9.\<close>

theorem sequence_consumed_witness:
  "\<exists>tx1 s1. processFeeSeqNum signed_twice town_ledger = Inr (tx1, s1) \<and>
     processFeeSeqNum signed_twice s1 = Inl (Runtime_Error ''Unexpected account state'') \<and>
     (\<nexists>e tx2 s2. tx_checkValid town_app 0 signed_twice s1 = Inr ((txSUCCESS, e, tx2), s2)) \<and>
     (\<nexists>e tx2 s2. tx_checkValid town_app 9 tx1 s1 = Inr ((txSUCCESS, e, tx2), s2))"
proof -
  have "(case processFeeSeqNum signed_twice town_ledger of Inr (tx1, s1) \<Rightarrow> mEnvelope tx1 = mEnvelope signed_twice | _ \<Rightarrow> False)" by code_simp
  then obtain tx1 s1 where r: "processFeeSeqNum signed_twice town_ledger = Inr (tx1, s1)" "mEnvelope tx1 = mEnvelope signed_twice" by (auto split: sum.splits)
  have n: "tx_seqNum (env_tx (mEnvelope signed_twice)) \<noteq> 0" "tx_seqNum (env_tx (mEnvelope signed_twice)) \<le> 9" by code_simp+
  note consumed = sequence_consumed [OF town_ledger_ok r(1), of town_app]
  then obtain f where f: "entries s1 = (entries town_ledger)(AccountKey (tx_getSourceID signed_twice) \<mapsto> account_entry (stamped town_ledger
      (f\<lparr>af_account := (af_account f)\<lparr>a_seqNum := tx_seqNum (env_tx (mEnvelope signed_twice))\<rparr>\<rparr>)))" "\<exists>m. ledger_ok m s1" by blast
  have "tx_seqNum (env_tx (mEnvelope signed_twice)) \<le> a_seqNum (af_account g)"
    if "entries s1 (AccountKey (tx_getSourceID signed_twice)) = Some (account_entry g)" for g
    using f(1) that restamped [of town_ledger _ g] by simp
  with consumed f(2) r n show ?thesis by metis
qed

section \<open>All or nothing\<close>

text \<open>What a delta changes, apart from the previous values it has recorded.\<close>

definition delta_changes :: "LedgerDelta \<Rightarrow> KeyEntryMap \<times> KeyEntryMap \<times> LedgerKey list \<times> LedgerHeader" where
  "delta_changes d = (mNew d, mMod d, mDelete d, mCurrentHeader d)"

lemma loadAccount_delta: "loadAccount i s = Inr (f, s1) \<Longrightarrow> delta_changes (st_delta s1) = delta_changes (st_delta s)"
  by (auto simp: loadAccount_def bindL_Inr_iff withDB_def onDelta_def recordEntry_def delta_changes_def bindE_Inr_iff split: option.splits)

lemma loadAccount_entries:
  assumes "loadAccount i s = Inr (f, s1)"
  shows "entries s1 = entries s"
proof -
  obtain g db where db: "loadAccount_db i (st_db s) = Inr (g, db)" "st_db s1 = db"
    using assms by (auto simp: loadAccount_def bindL_Inr_iff withDB_def onDelta_def bindE_Inr_iff split: option.splits)
  from db(1) have "\<exists>c. db = (st_db s)\<lparr>mEntryCache := c\<rparr>"
    by (auto simp: loadAccount_db_def getCachedEntry_def putCachedEntry_def bindE_Inr_iff Let_def split: if_splits option.splits)
  with db(2) show ?thesis by (auto intro: db_view_tables)
qed

lemma tx_loadAccount_kept:
  assumes "tx_loadAccount True tx i s = Inr (acc, s1)"
  shows "entries s1 = entries s \<and> delta_changes (st_delta s1) = delta_changes (st_delta s)"
proof -
  have "acc = mSigningAccount tx \<and> s1 = s \<or> loadAccount i s = Inr (acc, s1)"
    using assms by (auto simp: tx_loadAccount_def split: option.splits if_splits)
  then show ?thesis using loadAccount_entries loadAccount_delta by auto
qed

lemma checkSignature_frame: "snd (snd (checkSignature app tx f n)) = tx\<lparr>mUsedSignatures := mUsedSignatures (snd (snd (checkSignature app tx f n)))\<rparr>"
  by (simp add: checkSignature_def split_def)

lemma commonValid_kept:
  assumes c: "commonValid app True n tx s = Inr ((code, tx1), s1)"
  shows "entries s1 = entries s" "delta_changes (st_delta s1) = delta_changes (st_delta s)" "mOperations tx1 = mOperations tx"
proof -
  have "s1 = s \<and> tx1 = tx \<or> (\<exists>acc. tx_loadAccount True tx (tx_getSourceID tx) s = Inr (acc, s1) \<and> mOperations tx1 = mOperations tx)"
    using c by (auto simp: commonValid_def Let_def bindL_Inr_iff checkSignature_def liftE_def bindE_Inr_iff split_def split: option.splits if_splits)
  then show "entries s1 = entries s" "delta_changes (st_delta s1) = delta_changes (st_delta s)" "mOperations tx1 = mOperations tx"
    using tx_loadAccount_kept by auto
qed

lemma applyOps_length: "applyOps app ops tx s = Inr ((rs, meta, tx1), s1) \<Longrightarrow> length rs = length ops"
  by (induction app ops tx arbitrary: s rs meta tx1 s1 rule: applyOps.induct) (auto simp: bindL_Inr_iff)

lemma rolled_back_view: "db_view (rolled_back db s) = db_view db"
  unfolding rolled_back_def by (rule db_view_tables) (simp_all add: flush_all_tables)

lemma tx_apply_cases:
  assumes "tx_apply app tx s = Inr ((code, rs, meta, tx1), s1)"
  shows "code = txSUCCESS \<and> length rs = length (mOperations tx) \<and> list_all succeeded rs \<and> checkAllSignaturesUsed tx1 \<or>
    code \<noteq> txSUCCESS \<and> entries s1 = entries s \<and> delta_changes (st_delta s1) = delta_changes (st_delta s)"
proof -
  obtain c0 tx0 s0 where c: "commonValid app True 0 (resetSignatureTracker tx) s = Inr ((c0, tx0), s0)"
    using assms by (auto simp: tx_apply_def bindL_Inr_iff)
  note kept = commonValid_kept [OF c]
  show ?thesis
  proof (cases "c0 = txSUCCESS")
    case False
    with assms c kept show ?thesis by (auto simp: tx_apply_def bindL_def)
  next
    case True
    let ?s = "s0\<lparr>st_delta := LedgerDelta_nested (st_delta s0)\<rparr>"
    from assms c True obtain rs2 meta2 tx2 s2 where a: "applyOps app (mOperations tx0) tx0 ?s = Inr ((rs2, meta2, tx2), s2)"
      by (auto simp: tx_apply_def bindL_def tempDelta_def bindE_Inr_iff)
    have code: "code = apply_code rs2 tx2" "tx1 = tx2" "code = txSUCCESS \<Longrightarrow> rs = rs2"
      "code \<noteq> txSUCCESS \<Longrightarrow> s1 = \<lparr>st_db = rolled_back (st_db s0) s2, st_delta = st_delta s0\<rparr>"
      using assms c True a by (auto simp: tx_apply_def bindL_def tempDelta_def bindE_Inr_iff split: if_splits)
    have "mOperations tx0 = mOperations tx" using kept(3) by (simp add: resetSignatureTracker_def)
    with code kept applyOps_length [OF a] show ?thesis
      by (cases "code = txSUCCESS") (auto simp: rolled_back_view apply_code_def split: if_splits)
  qed
qed

text \<open>
  C6. A transaction is applied as a whole or not at all. When it succeeds, every one of its operations has a result, all of
  them succeeded, and every signature was used. When it does not, the ledger entries are those from before, and the
  delta it was applied to has gained no change and has the same header: the two assertions of \<^verbatim>\<open>applyTransactions\<close> hold.
\<close>

theorem transaction_all_or_nothing:
  assumes "tx_apply app tx s = Inr ((code, rs, meta, tx1), s1)"
  shows "code = txSUCCESS \<and> length rs = length (mOperations tx) \<and> list_all succeeded rs \<and> checkAllSignaturesUsed tx1 \<or>
    code \<noteq> txSUCCESS \<and> entries s1 = entries s \<and> delta_changes (st_delta s1) = delta_changes (st_delta s)"
  by (rule tx_apply_cases [OF assms])

definition overdraft :: TxFrame where
  "overdraft = town_tx [1] \<lparr>op_sourceAccount = None, op_body = PAYMENT \<lparr>pay_destination = [4], pay_asset = usd, pay_amount = 101\<rparr>\<rparr> opFEE_NONE [[1]]"

theorem transaction_all_or_nothing_witness:
  "\<exists>rs meta tx1 s1 rs' meta' tx1' s1'.
     tx_apply town_app (resetResults theft) town_ledger = Inr ((txSUCCESS, rs, meta, tx1), s1) \<and> length rs = 1 \<and> list_all succeeded rs \<and>
     tx_apply town_app (resetResults overdraft) town_ledger = Inr ((txFAILED, rs', meta', tx1'), s1') \<and> entries s1' = entries town_ledger"
proof -
  have "(case tx_apply town_app (resetResults theft) town_ledger of Inr ((txSUCCESS, _), _) \<Rightarrow> True | _ \<Rightarrow> False)" by code_simp
  then obtain rs meta tx1 s1 where t: "tx_apply town_app (resetResults theft) town_ledger = Inr ((txSUCCESS, rs, meta, tx1), s1)"
    by (auto split: sum.splits prod.splits TransactionResultCode.splits)
  have "(case tx_apply town_app (resetResults overdraft) town_ledger of Inr ((txFAILED, _), _) \<Rightarrow> True | _ \<Rightarrow> False)" by code_simp
  then obtain rs' meta' tx1' s1' where o: "tx_apply town_app (resetResults overdraft) town_ledger = Inr ((txFAILED, rs', meta', tx1'), s1')"
    by (auto split: sum.splits prod.splits TransactionResultCode.splits)
  have "length (mOperations (resetResults theft)) = 1" by code_simp
  with t o transaction_all_or_nothing [OF t] transaction_all_or_nothing [OF o] show ?thesis
    by (intro exI [of _ rs] exI [of _ meta] exI [of _ tx1] exI [of _ s1] exI [of _ rs'] exI [of _ meta'] exI [of _ tx1'] exI [of _ s1']) simp
qed

end
