(* ===== verification/Ledger_Chain.thy ===== *)
theory Ledger_Chain
  imports Ledger_Steady Transaction_Properties
begin

text \<open>
  What closing a ledger does to the ledger manager, the states the manager can reach, and the invariant of these:
  the current header continues the last closed one, and the buffer of ledgers to close is without gaps and empty
  unless the node is catching up.
\<close>

section \<open>Headers\<close>

lemma getHash_Inr: "header_getHash C h = Inr x \<longleftrightarrow> x = hashHeader C h \<and> \<not> list_all (\<lambda>b. b = 0) (hashHeader C h)"
  by (auto simp: header_getHash_def bindE_Inr_iff assertE_def)

definition next_header :: "LedgerHeaderHistoryEntry \<Rightarrow> LedgerHeader" where
  "next_header he = (he_header he)\<lparr>lh_ledgerSeq := lh_ledgerSeq (he_header he) + 1, lh_previousLedgerHash := he_hash he\<rparr>"

lemma LedgerHeaderFrame_next_Inr:
  "LedgerHeaderFrame_next C he = Inr c \<longleftrightarrow>
     he_hash he = hashHeader C (he_header he) \<and> \<not> list_all (\<lambda>b. b = 0) (he_hash he) \<and> c = next_header he"
  by (auto simp: LedgerHeaderFrame_next_def bindE_Inr_iff getHash_Inr next_header_def)

lemma snapshot_hash: "lh_bucketListHash (snapshotLedger C b h) = BucketList_getHash (hashHashes C) (hashBucket C) b"
  by (simp add: snapshotLedger_def calculateSkipValues_def Let_def)

lemma applyUpgrades_fields:
  "applyUpgrades C us h = Inr h1 \<Longrightarrow> \<exists>v n. h1 = h\<lparr>lh_ledgerVersion := v, lh_maxTxSetSize := n\<rparr>"
proof (induction C us h rule: applyUpgrades.induct)
  case (1 C h)
  then show ?case by (intro exI [of _ "lh_ledgerVersion h"] exI [of _ "lh_maxTxSetSize h"]) simp
next
  case (2 C u us h)
  show ?case
  proof (cases "decodeUpgrade C u")
    case (Some up)
    with 2 show ?thesis by (cases up) (auto simp: bindE_Inr_iff intro: exI [of _ "lh_ledgerVersion h1"])
  qed (use 2 in simp)
qed

text \<open>What transactions and upgrades leave of a header.\<close>

definition chain_fields :: "LedgerHeader \<Rightarrow> uint32 \<times> Hash \<times> StellarValue \<times> uint32 \<times> uint32" where
  "chain_fields h = (lh_ledgerSeq h, lh_previousLedgerHash h, lh_scpValue h, lh_baseFee h, lh_baseReserve h)"

lemma fixed_chain: "fixed_fields h1 = fixed_fields h \<Longrightarrow> chain_fields h1 = chain_fields h"
  by (cases h; cases h1) (simp add: fixed_fields_def chain_fields_def)

lemma snapshot_chain: "chain_fields (snapshotLedger C b h) = chain_fields h"
  by (simp add: snapshotLedger_def calculateSkipValues_def chain_fields_def Let_def)

lemma applyLedger_header:
  assumes "applyLedger C app txs sv fees table s = Inr (x, s1)"
  shows "chain_fields (mCurrentHeader (st_delta s1)) = chain_fields (mCurrentHeader (st_delta s))"
    "mPreviousHeaderValue (st_delta s1) = mPreviousHeaderValue (st_delta s)" "mOpen (st_delta s1) = mOpen (st_delta s)"
proof -
  obtain y1 s2 y2 s3 h5 s6 where p: "processFeesSeqNums app txs 0 fees s = Inr (y1, s2)"
    and a: "applyTransactions C app (fst y1) 0 table s2 = Inr (y2, s3)"
    and h: "applyUpgrades C (sv_upgrades sv) ((mCurrentHeader (st_delta s3))\<lparr>lh_txSetResultHash := hashResults C (fst y2)\<rparr>) = Inr h5"
    and c: "checkDelta C (s3\<lparr>st_delta := (st_delta s3)\<lparr>mCurrentHeader := h5\<rparr>\<rparr>) = Inr ((), s6)" and s1: "s1 = s6"
    using assms by (auto simp: applyLedger_def bindL_Inr_iff inHeader_def onDelta_def bindE_Inr_iff)
  have "delta_frame (st_delta s3) = delta_frame (st_delta s)"
    using steadyD [OF steady_processFeesSeqNums p] steadyD [OF steady_applyTransactions a] by simp
  moreover have "delta_frame (st_delta s1) = delta_frame ((st_delta s3)\<lparr>mCurrentHeader := h5\<rparr>)"
    using steadyD [OF steady_checkDelta c] s1 by simp
  ultimately have f: "fixed_fields (mCurrentHeader (st_delta s3)) = fixed_fields (mCurrentHeader (st_delta s))"
    "fixed_fields (mCurrentHeader (st_delta s1)) = fixed_fields h5"
    and "mPreviousHeaderValue (st_delta s1) = mPreviousHeaderValue (st_delta s)" "mOpen (st_delta s1) = mOpen (st_delta s)"
    by (simp_all add: delta_frame_def)
  then show "mPreviousHeaderValue (st_delta s1) = mPreviousHeaderValue (st_delta s)" "mOpen (st_delta s1) = mOpen (st_delta s)" by simp_all
  from applyUpgrades_fields [OF h] have "chain_fields h5 = chain_fields (mCurrentHeader (st_delta s3))"
    by (auto simp: chain_fields_def)
  with fixed_chain [OF f(1)] fixed_chain [OF f(2)] show "chain_fields (mCurrentHeader (st_delta s1)) = chain_fields (mCurrentHeader (st_delta s))"
    by simp
qed

section \<open>Closing\<close>

definition linked :: "LedgerEnv \<Rightarrow> LedgerManager \<Rightarrow> bool" where
  "linked C M \<longleftrightarrow> he_hash (lm_lastClosed M) = hashHeader C (he_header (lm_lastClosed M)) \<and> lm_current M = next_header (lm_lastClosed M)"

text \<open>What stays as it is when a ledger is closed.\<close>

definition follow_state :: "LedgerManager \<Rightarrow> LMState \<times> LedgerCloseData list \<times> (uint32 \<times> CatchupMode) list" where
  "follow_state M = (lm_state M, lm_syncing M, lm_catchups M)"

lemma advance_Inr:
  assumes "advanceLedgerPointers C M = Inr M1"
  shows "lm_lastClosed M1 = \<lparr>he_hash = hashHeader C (lm_current M), he_header = lm_current M\<rparr>" "linked C M1"
    "lm_buckets M1 = lm_buckets M" "lm_headers M1 = lm_headers M" "lm_lastHash M1 = lm_lastHash M" "lm_archive M1 = lm_archive M"
    "follow_state M1 = follow_state M" "lm_db M1 = lm_db M"
  using assms by (auto simp: follow_state_def advanceLedgerPointers_def bindE_Inr_iff getHash_Inr LedgerHeaderFrame_next_Inr linked_def Let_def)

lemma closeLedgerHelper_Inr:
  assumes "closeLedgerHelper C d M = Inr M1"
  shows "linked C M1" "follow_state M1 = follow_state M" "lm_db M1 = lm_db M"
    "chain_fields (he_header (lm_lastClosed M1)) = chain_fields (lm_current M)"
    "lh_bucketListHash (he_header (lm_lastClosed M1)) = BucketList_getHash (hashHashes C) (hashBucket C) (lm_buckets M1)"
    "addBatch (hashBucket C) (lh_ledgerSeq (lm_current M)) (getLiveEntries d) (getDeadEntries d) (lm_buckets M) = Inr (lm_buckets M1)"
    "lm_headers M1 = map_put (he_hash (lm_lastClosed M1)) (he_header (lm_lastClosed M1)) (lm_headers M)"
    "lm_lastHash M1 = Some (he_hash (lm_lastClosed M1))"
    "\<exists>copy. (if PESSIMIZE_MERGES C then Inr (lm_buckets M1) else resolveAnyReadyFutures (hashBucket C) (lm_buckets M1)) = Inr copy \<and>
       saveState (hashBucket C) copy = Inr (lm_archive M1)"
proof -
  let ?H = "hashBucket C"
  obtain b t copy has where b: "addBatch ?H (lh_ledgerSeq (lm_current M)) (getLiveEntries d) (getDeadEntries d) (lm_buckets M) = Inr b"
    and t: "header_storeInsert C (snapshotLedger C b (lm_current M)) (lm_headers M) = Inr t"
    and copy: "(if PESSIMIZE_MERGES C then Inr b else resolveAnyReadyFutures ?H b) = Inr copy" "saveState ?H copy = Inr has"
    and a: "advanceLedgerPointers C (M\<lparr>lm_current := snapshotLedger C b (lm_current M), lm_buckets := b, lm_headers := t,
        lm_lastHash := Some (hashHeader C (snapshotLedger C b (lm_current M))), lm_archive := has\<rparr>) = Inr M1"
    using assms by (auto simp: closeLedgerHelper_def bindE_Inr_iff getHash_Inr Let_def)
  note adv = advance_Inr [OF a]
  have m: "lm_buckets M1 = b" "lm_headers M1 = t" "lm_lastHash M1 = Some (hashHeader C (snapshotLedger C b (lm_current M)))" "lm_archive M1 = has"
    "follow_state M1 = follow_state M" "lm_db M1 = lm_db M"
    using adv(3-) by (simp_all add: follow_state_def)
  have t': "t = map_put (hashHeader C (snapshotLedger C b (lm_current M))) (snapshotLedger C b (lm_current M)) (lm_headers M)"
    using t by (auto simp: header_storeInsert_def bindE_Inr_iff getHash_Inr split: if_splits)
  show "linked C M1" by (rule adv(2))
  show "follow_state M1 = follow_state M" "lm_db M1 = lm_db M" by (rule m)+
  show "chain_fields (he_header (lm_lastClosed M1)) = chain_fields (lm_current M)"
    using adv(1) by (simp add: snapshot_chain)
  show "lh_bucketListHash (he_header (lm_lastClosed M1)) = BucketList_getHash (hashHashes C) ?H (lm_buckets M1)"
    using adv(1) m(1) by (simp add: snapshot_hash)
  show "addBatch ?H (lh_ledgerSeq (lm_current M)) (getLiveEntries d) (getDeadEntries d) (lm_buckets M) = Inr (lm_buckets M1)"
    using b m(1) by simp
  show "lm_headers M1 = map_put (he_hash (lm_lastClosed M1)) (he_header (lm_lastClosed M1)) (lm_headers M)"
    "lm_lastHash M1 = Some (he_hash (lm_lastClosed M1))"
    using adv(1) m(2,3) t' by simp_all
  show "\<exists>copy. (if PESSIMIZE_MERGES C then Inr (lm_buckets M1) else resolveAnyReadyFutures ?H (lm_buckets M1)) = Inr copy \<and>
       saveState ?H copy = Inr (lm_archive M1)"
    using copy m(1,4) by auto
qed

lemma closeLedger_Inr:
  assumes "closeLedger C lcd M = Inr M1"
  shows "linked C M1" "follow_state M1 = follow_state M" "mPreviousLedgerHash (lcd_txSet lcd) = he_hash (lm_lastClosed M)"
    "chain_fields (he_header (lm_lastClosed M1)) = chain_fields ((lm_current M)\<lparr>lh_scpValue := lcd_value lcd\<rparr>)"
    "lh_bucketListHash (he_header (lm_lastClosed M1)) = BucketList_getHash (hashHashes C) (hashBucket C) (lm_buckets M1)"
    "lm_headers M1 = map_put (he_hash (lm_lastClosed M1)) (he_header (lm_lastClosed M1)) (lm_headers M)"
    "lm_lastHash M1 = Some (he_hash (lm_lastClosed M1))"
proof -
  let ?h = "(lm_current M)\<lparr>lh_scpValue := lcd_value lcd\<rparr>"
  obtain txs app x s header1 d M2 where p: "mPreviousLedgerHash (lcd_txSet lcd) = he_hash (lm_lastClosed M)"
    and a: "applyLedger C app txs (lcd_value lcd) (lm_fees M) (lm_txs M) \<lparr>st_db = lm_db M, st_delta = LedgerDelta_on ?h True\<rparr> = Inr (x, s)"
    and c: "commit_header ?h (st_delta s) = Inr (header1, d)"
    and h: "closeLedgerHelper C d M2 = Inr M1" "lm_current M2 = header1" "follow_state M2 = follow_state M"
      "lm_lastClosed M2 = lm_lastClosed M" "lm_headers M2 = lm_headers M"
    using assms by (auto simp: closeLedger_def previousLedgerHash_def Let_def bindE_Inr_iff follow_state_def split: prod.splits if_splits)
  have "header1 = mCurrentHeader (st_delta s)" using c by (auto simp: commit_header_def bindE_Inr_iff split: if_splits)
  then have "chain_fields header1 = chain_fields ?h" using applyLedger_header(1) [OF a] by (simp add: LedgerDelta_on_def)
  with closeLedgerHelper_Inr [OF h(1)] h(2-) p
  show "linked C M1" "follow_state M1 = follow_state M" "mPreviousLedgerHash (lcd_txSet lcd) = he_hash (lm_lastClosed M)"
    "chain_fields (he_header (lm_lastClosed M1)) = chain_fields ((lm_current M)\<lparr>lh_scpValue := lcd_value lcd\<rparr>)"
    "lh_bucketListHash (he_header (lm_lastClosed M1)) = BucketList_getHash (hashHashes C) (hashBucket C) (lm_buckets M1)"
    "lm_headers M1 = map_put (he_hash (lm_lastClosed M1)) (he_header (lm_lastClosed M1)) (lm_headers M)"
    "lm_lastHash M1 = Some (he_hash (lm_lastClosed M1))"
    by simp_all
qed

lemma chain_fields_iff: "chain_fields h = chain_fields h' \<longleftrightarrow> lh_ledgerSeq h = lh_ledgerSeq h' \<and> lh_previousLedgerHash h = lh_previousLedgerHash h' \<and>
    lh_scpValue h = lh_scpValue h' \<and> lh_baseFee h = lh_baseFee h' \<and> lh_baseReserve h = lh_baseReserve h'"
  by (simp add: chain_fields_def)

text \<open>A closed ledger is the next one.\<close>

definition extends :: "LedgerCloseData \<Rightarrow> LedgerHeaderHistoryEntry \<Rightarrow> LedgerHeaderHistoryEntry \<Rightarrow> bool" where
  "extends lcd he he1 \<longleftrightarrow>
     lh_ledgerSeq (he_header he1) = lh_ledgerSeq (he_header he) + 1 \<and> lh_previousLedgerHash (he_header he1) = he_hash he \<and>
     lh_scpValue (he_header he1) = lcd_value lcd"

lemma closeLedger_extends:
  assumes "linked C M" "closeLedger C lcd M = Inr M1"
  shows "extends lcd (lm_lastClosed M) (lm_lastClosed M1)" "lcl_seq M1 = lcl_seq M + 1"
  using closeLedger_Inr(4) [OF assms(2)] assms(1) by (simp_all add: linked_def chain_fields_iff extends_def next_header_def lcl_seq_def)

section \<open>Reachable states\<close>

definition contiguous :: "LedgerCloseData list \<Rightarrow> bool" where
  "contiguous = successively (\<lambda>a b. lcd_ledgerSeq a + 1 = lcd_ledgerSeq b)"

text \<open>
  The events of a running node: consensus decides a ledger; while catching up, the history replays a ledger or fills the
  database and the bucket list from an archive, and in the end reports; old rows are deleted.
\<close>

inductive lm_step :: "LedgerEnv \<Rightarrow> LedgerManager \<Rightarrow> LedgerManager \<Rightarrow> bool" for C where
  step_externalize: "externalizeValue C lcd M = Inr M1 \<Longrightarrow> lm_step C M M1"
| step_replay: "lm_state M = LM_CATCHING_UP_STATE \<Longrightarrow> closeLedger C lcd M = Inr M1 \<Longrightarrow> lm_step C M M1"
| step_restore: "lm_state M = LM_CATCHING_UP_STATE \<Longrightarrow> lm_step C M (M\<lparr>lm_db := db, lm_buckets := b\<rparr>)"
| step_caught_up: "lm_state M = LM_CATCHING_UP_STATE \<Longrightarrow> historyCaughtup C failed mode he M = Inr M1 \<Longrightarrow> lm_step C M M1"
| step_delete: "lm_step C M (deleteOldEntries n M)"

inductive lm_reachable :: "LedgerEnv \<Rightarrow> LedgerManager \<Rightarrow> bool" for C where
  reach_new: "lm_state M = LM_BOOTING_STATE \<Longrightarrow> lm_syncing M = [] \<Longrightarrow> startNewLedger C M = Inr M1 \<Longrightarrow> lm_reachable C M1"
| reach_load: "lm_state M = LM_BOOTING_STATE \<Longrightarrow> lm_syncing M = [] \<Longrightarrow> loadLastKnownLedger C store unset M = Inr M1 \<Longrightarrow> lm_reachable C M1"
| reach_step: "lm_reachable C M \<Longrightarrow> lm_step C M M1 \<Longrightarrow> lm_reachable C M1"

inductive_cases lm_stepE: "lm_step C M M1"

definition manager_ok :: "LedgerEnv \<Rightarrow> LedgerManager \<Rightarrow> bool" where
  "manager_ok C M \<longleftrightarrow> linked C M \<and> contiguous (lm_syncing M) \<and> (lm_state M \<noteq> LM_CATCHING_UP_STATE \<longrightarrow> lm_syncing M = [])"

lemma follow_stateD: "follow_state M1 = follow_state M \<Longrightarrow> lm_state M1 = lm_state M \<and> lm_syncing M1 = lm_syncing M"
  by (simp add: follow_state_def)

lemma replayBuffered_keeps:
  assumes "linked C M" "replayBuffered C lcds M = Inr M1"
  shows "linked C M1 \<and> follow_state M1 = follow_state M"
  using assms
proof (induction lcds arbitrary: M)
  case (Cons lcd lcds)
  consider "lcd_ledgerSeq lcd < lcl_seq M + 1" | "lcd_ledgerSeq lcd = lcl_seq M + 1" | "lcd_ledgerSeq lcd > lcl_seq M + 1"
    using less_linear by blast
  then show ?case
  proof cases
    case 1
    then have "replayBuffered C lcds M = Inr M1" using Cons.prems(2) by (auto simp: bindE_Inr_iff)
    with Cons.IH Cons.prems(1) show ?thesis by blast
  next
    case 2
    then obtain M2 where c: "closeLedger C lcd M = Inr M2" "replayBuffered C lcds M2 = Inr M1"
      using Cons.prems(2) by (auto simp: bindE_Inr_iff)
    from Cons.IH [OF closeLedger_Inr(1) [OF c(1)] c(2)] closeLedger_Inr(2) [OF c(1)] show ?thesis by simp
  next
    case 3
    then have "\<not> lcd_ledgerSeq lcd < lcl_seq M + 1" "lcd_ledgerSeq lcd \<noteq> lcl_seq M + 1" by auto
    with Cons.prems show ?thesis by (auto simp: bindE_Inr_iff)
  qed
qed simp

lemma knitUp_ok:
  assumes "linked C M" "knitUp C M = Inr M1"
  shows "manager_ok C M1"
proof -
  obtain M2 where r: "replayBuffered C (lm_syncing M) M = Inr M2" "M1 = M2\<lparr>lm_state := LM_SYNCED_STATE, lm_syncing := []\<rparr>"
    using assms(2) by (auto simp: knitUp_def bindE_Inr_iff)
  from replayBuffered_keeps [OF assms(1) r(1)] r(2) show ?thesis by (auto simp: manager_ok_def contiguous_def linked_def)
qed

lemma historyCaughtup_ok:
  assumes "manager_ok C M" "lm_state M = LM_CATCHING_UP_STATE" "historyCaughtup C failed mode he M = Inr M1"
  shows "manager_ok C M1"
proof (cases failed)
  case True
  with assms show ?thesis by (auto simp: historyCaughtup_def manager_ok_def contiguous_def linked_def)
next
  case False
  have l: "linked C M" "contiguous (lm_syncing M)" using assms(1) by (simp_all add: manager_ok_def)
  have link: "linked C (M\<lparr>lm_lastClosed := he, lm_current := c\<rparr>)" if "LedgerHeaderFrame_next C he = Inr c" for c
    using that by (simp add: linked_def LedgerHeaderFrame_next_Inr)
  then have recent: "manager_ok C M1" if "mode = CATCHUP_RECENT"
    using that assms(2,3) False l by (auto simp: historyCaughtup_def bindE_Inr_iff manager_ok_def)
  have complete: "manager_ok C M1" if "knitUp C M = Inr M1" by (rule knitUp_ok [OF l(1) that])
  have minimal: "manager_ok C M1" if "LedgerHeaderFrame_next C he = Inr c" "knitUp C (M\<lparr>lm_lastClosed := he, lm_current := c\<rparr>) = Inr M1" for c
    by (rule knitUp_ok [OF link [OF that(1)] that(2)])
  show ?thesis
    using assms(3) False recent complete minimal by (cases mode) (auto simp: historyCaughtup_def bindE_Inr_iff)
qed

lemma externalizeValue_ok:
  assumes "manager_ok C M" "externalizeValue C lcd M = Inr M1"
  shows "manager_ok C M1"
proof -
  have l: "linked C M" "contiguous (lm_syncing M)" "lm_state M \<noteq> LM_CATCHING_UP_STATE \<Longrightarrow> lm_syncing M = []"
    using assms(1) by (simp_all add: manager_ok_def)
  show ?thesis
  proof (cases "lm_state M \<noteq> LM_CATCHING_UP_STATE \<and> lcl_seq M + 1 = lcd_ledgerSeq lcd")
    case True
    with assms(2) have "closeLedger C lcd (M\<lparr>lm_state := LM_SYNCED_STATE\<rparr>) = Inr M1" by (auto simp: externalizeValue_def split: if_splits)
    from closeLedger_Inr(1,2) [OF this] True l(3) show ?thesis by (simp add: manager_ok_def follow_state_def contiguous_def)
  next
    case False
    have app: "contiguous (lm_syncing M @ [lcd])"
      if "lm_syncing M = [] \<or> lcd_ledgerSeq (last (lm_syncing M)) + 1 = lcd_ledgerSeq lcd"
      using that l(2) by (auto simp: contiguous_def successively_append_iff)
    from False assms(2) l app show ?thesis
      by (auto simp: externalizeValue_def manager_ok_def startCatchUp_def bindE_Inr_iff assertE_def linked_def contiguous_def split: if_splits)
  qed
qed

lemma started_ok:
  assumes "lm_state M = LM_BOOTING_STATE" "lm_syncing M = []" "linked C M1" "follow_state M1 = follow_state M"
  shows "manager_ok C M1"
  using assms by (simp add: manager_ok_def follow_state_def contiguous_def)

lemma startNewLedger_Inr:
  assumes "startNewLedger C M = Inr M1"
  shows "\<exists>s d M2. genesisAccounts (le_app C) \<lparr>st_db = lm_db M, st_delta = LedgerDelta_on genesisHeader True\<rparr> = Inr ((), s) \<and>
    commit_header genesisHeader (st_delta s) = Inr (mCurrentHeader (st_delta s), d) \<and> d = (st_delta s)\<lparr>mOpen := False\<rparr> \<and>
    M2 = M\<lparr>lm_current := mCurrentHeader (st_delta s), lm_db := st_db s\<rparr> \<and> closeLedgerHelper C d M2 = Inr M1"
  using assms by (auto simp: startNewLedger_def bindE_Inr_iff commit_header_def split: if_splits)

lemma loadLastKnownLedger_Inr:
  assumes "loadLastKnownLedger C store unset M = Inr M1"
  shows "linked C M1" "follow_state M1 = follow_state M"
proof -
  obtain h b where a: "advanceLedgerPointers C (M\<lparr>lm_current := h, lm_buckets := b\<rparr>) = Inr M1"
    using assms by (auto simp: loadLastKnownLedger_def bindE_Inr_iff split: option.splits)
  show "linked C M1" by (rule advance_Inr(2) [OF a])
  show "follow_state M1 = follow_state M" using advance_Inr(7) [OF a] by (simp add: follow_state_def)
qed

lemma manager_reachable: "lm_reachable C M \<Longrightarrow> manager_ok C M"
proof (induction rule: lm_reachable.induct)
  case (reach_new M M1)
  then obtain d M2 where "closeLedgerHelper C d M2 = Inr M1" "follow_state M2 = follow_state M"
    using startNewLedger_Inr by (fastforce simp: follow_state_def)
  with reach_new closeLedgerHelper_Inr(1,2) show ?case by (auto intro: started_ok)
next
  case (reach_load M store unset M1)
  then show ?case using loadLastKnownLedger_Inr started_ok by blast
next
  case (reach_step M M1)
  from reach_step(2,3) show ?case
  proof (cases rule: lm_step.cases)
    case (step_replay lcd)
    with reach_step(3) closeLedger_Inr(1,2) [OF step_replay(2)] show ?thesis by (simp add: manager_ok_def follow_state_def)
  next
    case (step_caught_up failed mode he)
    with reach_step(3) historyCaughtup_ok show ?thesis by blast
  next
    case (step_externalize lcd)
    with reach_step(3) externalizeValue_ok show ?thesis by blast
  qed (use reach_step(3) in \<open>simp_all add: manager_ok_def linked_def deleteOldEntries_def\<close>)
qed

section \<open>Knitting the buffer to the history\<close>

lemma Suc_seq: "unat (a :: uint32) < 2 ^ 32 - 1 \<Longrightarrow> unat (a + 1) = unat a + 1"
  by (simp add: unat_word_ariths)

lemma contiguous_last:
  "contiguous lcds \<Longrightarrow> lcds \<noteq> [] \<Longrightarrow> \<forall>lcd\<in>set lcds. unat (lcd_ledgerSeq lcd) < 2 ^ 32 - 1 \<Longrightarrow>
    unat (lcd_ledgerSeq (hd lcds)) \<le> unat (lcd_ledgerSeq (last lcds))"
proof (induction lcds)
  case (Cons lcd lcds)
  show ?case
  proof (cases lcds)
    case (Cons x xs)
    with Cons.prems Cons.IH have "lcd_ledgerSeq x = lcd_ledgerSeq lcd + 1" "unat (lcd_ledgerSeq x) \<le> unat (lcd_ledgerSeq (last lcds))"
      by (simp_all add: contiguous_def)
    with Suc_seq [of "lcd_ledgerSeq lcd"] Cons.prems(3) Cons show ?thesis by simp
  qed simp
qed simp

text \<open>A buffer that continues the last closed ledger is closed to its end.\<close>

lemma replay_contiguous:
  assumes "linked C M" "contiguous lcds" "\<forall>lcd\<in>set lcds. unat (lcd_ledgerSeq lcd) < 2 ^ 32 - 1" "unat (lcl_seq M) < 2 ^ 32 - 1"
    and "lcds \<noteq> []" "unat (lcd_ledgerSeq (hd lcds)) \<le> unat (lcl_seq M) + 1" "replayBuffered C lcds M = Inr M1"
  shows "if lcd_ledgerSeq (last lcds) \<le> lcl_seq M then M1 = M
    else lcl_seq M1 = lcd_ledgerSeq (last lcds) \<and> lh_scpValue (he_header (lm_lastClosed M1)) = lcd_value (last lcds)"
  using assms
proof (induction lcds arbitrary: M)
  case (Cons lcd lcds)
  note less = word_less_nat_alt word_le_nat_alt
  have seq: "unat (lcl_seq M + 1) = unat (lcl_seq M) + 1" using Suc_seq Cons.prems(4) by blast
  have small: "unat (lcd_ledgerSeq lcd) < 2 ^ 32 - 1" "\<forall>lcd\<in>set lcds. unat (lcd_ledgerSeq lcd) < 2 ^ 32 - 1" using Cons.prems(3) by simp_all
  have tl: "contiguous lcds" using Cons.prems(2) by (cases lcds) (simp_all add: contiguous_def)
  have hd: "unat (lcd_ledgerSeq (hd lcds)) = unat (lcd_ledgerSeq lcd) + 1" if "lcds \<noteq> []"
    using Cons.prems(2) that Suc_seq [OF small(1)] by (cases lcds) (auto simp: contiguous_def simp flip: Suc_seq [OF small(1)])
  show ?case
  proof (cases "lcd_ledgerSeq lcd = lcl_seq M + 1")
    case True
    then obtain M2 where c: "closeLedger C lcd M = Inr M2" "replayBuffered C lcds M2 = Inr M1"
      using Cons.prems(7) by (auto simp: bindE_Inr_iff)
    note m2 = closeLedger_Inr(1) [OF c(1)] closeLedger_extends [OF Cons.prems(1) c(1)]
    show ?thesis
    proof (cases "lcds = []")
      case nil: True
      with c m2 True seq show ?thesis by (auto simp: extends_def less)
    next
      case False
      have "unat (lcd_ledgerSeq lcd) < unat (lcd_ledgerSeq (last lcds))" using contiguous_last [OF tl False small(2)] hd [OF False] by simp
      then have "\<not> lcd_ledgerSeq (last lcds) \<le> lcl_seq M" "\<not> lcd_ledgerSeq (last lcds) \<le> lcl_seq M2" using True seq m2(3) by (simp_all add: less)
      with Cons.IH [OF m2(1) tl small(2) _ False _ c(2)] m2(3) hd [OF False] True seq small(1) False show ?thesis by auto
    qed
  next
    case False
    then have le: "unat (lcd_ledgerSeq lcd) \<le> unat (lcl_seq M)" using Cons.prems(6) seq by (auto simp: le_Suc_eq word_unat_eq_iff)
    then have r: "replayBuffered C lcds M = Inr M1" using Cons.prems(7) seq by (auto simp: bindE_Inr_iff less)
    show ?thesis
    proof (cases "lcds = []")
      case True
      with r le show ?thesis by (simp add: less)
    next
      case ne: False
      with Cons.IH [OF Cons.prems(1) tl small(2) Cons.prems(4) ne _ r] hd [OF ne] le show ?thesis by simp
    qed
  qed
qed simp

end
