(* ===== verification/LedgerManager_Properties.thy ===== *)
theory LedgerManager_Properties
  imports Ledger_Chain TxSet_Properties
begin

text \<open>
  The properties of the ledger manager, each with an instance on a node that has just been started, and on the first
  ledgers it closes.
\<close>

section \<open>A node\<close>

definition node_env :: LedgerEnv where
  "node_env = \<lparr>le_app = town_app, PARANOID_MODE = True, PESSIMIZE_MERGES = False, CATCHUP_COMPLETE_SET = False, CATCHUP_RECENT_COUNT = 0,
     hashHeader = (\<lambda>h. [ucast (lh_ledgerSeq h), 1]), hashResults = (\<lambda>_. [3]), hashTxSet = (\<lambda>_. [4]), hashBucket = (\<lambda>_. [5]), hashHashes = (\<lambda>_. [6]),
     envelopeOf = (\<lambda>_. mEnvelope signed_twice), decodeUpgrade = (\<lambda>_. None), atThrow = (\<lambda>_ s. ([], s))\<rparr>"

definition fresh_node :: LedgerManager where
  "fresh_node = \<lparr>lm_state = LM_BOOTING_STATE, lm_lastClosed = \<lparr>he_hash = [], he_header = genesisHeader\<rparr>, lm_current = genesisHeader, lm_syncing = [],
     lm_db = empty_tables, lm_buckets = BucketList_init, lm_headers = [], lm_txs = [], lm_fees = [], lm_lastHash = None, lm_archive = [], lm_catchups = []\<rparr>"

definition decided :: "uint32 \<Rightarrow> LedgerCloseData" where
  "decided n = \<lparr>lcd_ledgerSeq = n, lcd_txSet = TxSetFrame_init [ucast (n - 1), 1],
     lcd_value = \<lparr>sv_txSetHash = [4], sv_closeTime = 1000, sv_upgrades = []\<rparr>\<rparr>"

definition archived :: "uint32 \<Rightarrow> LedgerHeaderHistoryEntry" where
  "archived n = \<lparr>he_hash = [ucast n, 1], he_header = genesisHeader\<lparr>lh_ledgerSeq := n\<rparr>\<rparr>"

lemma node_starts:
  obtains M where "startNewLedger node_env fresh_node = Inr M" "lm_reachable node_env M" "lcl_seq M = 1" "lm_state M = LM_BOOTING_STATE"
proof -
  have "(case startNewLedger node_env fresh_node of Inr M \<Rightarrow> lcl_seq M = 1 \<and> lm_state M = LM_BOOTING_STATE | Inl _ \<Rightarrow> False)" by code_simp
  then obtain M where M: "startNewLedger node_env fresh_node = Inr M" "lcl_seq M = 1" "lm_state M = LM_BOOTING_STATE" by (auto split: sum.splits)
  moreover have "lm_reachable node_env M" by (rule reach_new [OF _ _ M(1)]) (simp_all add: fresh_node_def)
  ultimately show thesis using that by blast
qed

section \<open>Following consensus\<close>

text \<open>
  C18. In every state the manager reaches, through any sequence of decided ledgers, replays, restores and reports of the
  history, the last closed ledger carries the hash of its header, the current header is its successor and points back
  to it, the buffer has no gaps and is empty unless the node is catching up. So the assertion on the empty buffer
  holds: a decided ledger other than the next one never stops the node.
\<close>

theorem ledger_manager_invariant:
  assumes "lm_reachable C M"
  shows "he_hash (lm_lastClosed M) = hashHeader C (he_header (lm_lastClosed M)) \<and>
    lh_ledgerSeq (lm_current M) = lcl_seq M + 1 \<and> lh_previousLedgerHash (lm_current M) = he_hash (lm_lastClosed M) \<and>
    contiguous (lm_syncing M) \<and> (lm_state M \<noteq> LM_CATCHING_UP_STATE \<longrightarrow> lm_syncing M = []) \<and>
    (\<forall>lcd. lcd_ledgerSeq lcd \<noteq> lcl_seq M + 1 \<or> lm_state M = LM_CATCHING_UP_STATE \<longrightarrow> (\<exists>M1. externalizeValue C lcd M = Inr M1))"
proof -
  have ok: "linked C M" "contiguous (lm_syncing M)" "lm_state M \<noteq> LM_CATCHING_UP_STATE \<longrightarrow> lm_syncing M = []"
    using manager_reachable [OF assms] by (simp_all add: manager_ok_def)
  have "\<exists>M1. externalizeValue C lcd M = Inr M1" if "lcd_ledgerSeq lcd \<noteq> lcl_seq M + 1 \<or> lm_state M = LM_CATCHING_UP_STATE" for lcd
    using that ok(3) by (auto simp: externalizeValue_def assertE_def)
  with ok show ?thesis by (simp add: linked_def next_header_def lcl_seq_def)
qed

theorem ledger_manager_invariant_witness:
  "\<exists>M M1. lm_reachable node_env M \<and> lh_ledgerSeq (lm_current M) = 2 \<and> externalizeValue node_env (decided 7) M = Inr M1"
proof -
  obtain M where M: "lm_reachable node_env M" "lcl_seq M = 1" using node_starts by metis
  have "lcd_ledgerSeq (decided 7) \<noteq> lcl_seq M + 1" using M(2) by (simp add: decided_def)
  with ledger_manager_invariant [OF M(1)] M show ?thesis by auto
qed

text \<open>
  C17. What consensus decides is closed in order. While the node is not catching up, the next ledger is closed: its
  transaction set names the last closed ledger, the new one continues it with the value that was decided, its header
  carries the hash of the bucket list and goes into the table of headers. An older ledger changes nothing, and a later one
  is buffered and starts catching up. While the node is catching up, a ledger is buffered when it continues the buffer.
\<close>

theorem externalize_follows_consensus:
  assumes "lm_reachable C M" "externalizeValue C lcd M = Inr M1"
  shows "if lm_state M = LM_CATCHING_UP_STATE
    then M1 = M\<lparr>lm_syncing := lm_syncing M1\<rparr> \<and>
      lm_syncing M1 = lm_syncing M @ (if lm_syncing M = [] \<or> lcd_ledgerSeq (last (lm_syncing M)) + 1 = lcd_ledgerSeq lcd then [lcd] else [])
    else if lcd_ledgerSeq lcd = lcl_seq M + 1
    then mPreviousLedgerHash (lcd_txSet lcd) = he_hash (lm_lastClosed M) \<and> extends lcd (lm_lastClosed M) (lm_lastClosed M1) \<and>
      lm_state M1 = LM_SYNCED_STATE \<and> lm_headers M1 = map_put (he_hash (lm_lastClosed M1)) (he_header (lm_lastClosed M1)) (lm_headers M) \<and>
      lh_bucketListHash (he_header (lm_lastClosed M1)) = BucketList_getHash (hashHashes C) (hashBucket C) (lm_buckets M1)
    else if lcd_ledgerSeq lcd \<le> lcl_seq M then M1 = M
    else M1 = M\<lparr>lm_state := LM_CATCHING_UP_STATE, lm_syncing := [lcd], lm_catchups := lm_catchups M @ [(lcd_ledgerSeq lcd, getCatchupMode C)]\<rparr>"
proof -
  have ok: "linked C M" "lm_state M \<noteq> LM_CATCHING_UP_STATE \<Longrightarrow> lm_syncing M = []" using manager_reachable [OF assms(1)] by (simp_all add: manager_ok_def)
  show ?thesis
  proof (cases "lm_state M \<noteq> LM_CATCHING_UP_STATE \<and> lcd_ledgerSeq lcd = lcl_seq M + 1")
    case True
    with assms(2) have c: "closeLedger C lcd (M\<lparr>lm_state := LM_SYNCED_STATE\<rparr>) = Inr M1" by (auto simp: externalizeValue_def split: if_splits)
    have "linked C (M\<lparr>lm_state := LM_SYNCED_STATE\<rparr>)" using ok(1) by (simp add: linked_def)
    from closeLedger_extends(1) [OF this c] closeLedger_Inr(2,3,5,6) [OF c] True show ?thesis
      by (simp add: follow_state_def)
  next
    case False
    with assms(2) ok(2) show ?thesis by (auto simp: externalizeValue_def startCatchUp_def bindE_Inr_iff)
  qed
qed

theorem externalize_follows_consensus_witness:
  "\<exists>M M1. lm_reachable node_env M \<and> externalizeValue node_env (decided 2) M = Inr M1 \<and> extends (decided 2) (lm_lastClosed M) (lm_lastClosed M1)"
proof -
  obtain M where M: "startNewLedger node_env fresh_node = Inr M" "lm_reachable node_env M" "lcl_seq M = 1" "lm_state M = LM_BOOTING_STATE" using node_starts by metis
  have "(case bindE (startNewLedger node_env fresh_node) (externalizeValue node_env (decided 2)) of Inr M \<Rightarrow> True | Inl _ \<Rightarrow> False)" by code_simp
  with M(1) obtain M1 where M1: "externalizeValue node_env (decided 2) M = Inr M1" by (auto split: sum.splits)
  from externalize_follows_consensus [OF M(2) M1] M M1 show ?thesis by (auto simp: decided_def)
qed

text \<open>
  C20. When the history has caught up, the buffer is knitted to it. Let the ledger that is reported be one the manager
  accepts (its hash is right, or it is the last closed one). If the first buffered ledger is not past the successor of the
  one caught up with, then once \<^verbatim>\<open>historyCaughtup\<close> returns no decided ledger is lost: the node is synchronised with the last
  buffered ledger closed (or with the one caught up with, when that is newer), and the buffer is empty. If the buffer leaves
  a gap, no ledger is closed: the code runs into the read of a destroyed element.
\<close>

theorem buffer_knit_up:
  assumes "lm_reachable C M" "lm_state M = LM_CATCHING_UP_STATE"
    and "mode = CATCHUP_MINIMAL \<and> LedgerHeaderFrame_next C he = Inr c \<or> mode = CATCHUP_COMPLETE \<and> he = lm_lastClosed M"
    and "unat (lh_ledgerSeq (he_header he)) < 2 ^ 32 - 1" "\<forall>lcd\<in>set (lm_syncing M). unat (lcd_ledgerSeq lcd) < 2 ^ 32 - 1"
  shows "if lm_syncing M \<noteq> [] \<and> unat (lh_ledgerSeq (he_header he)) + 1 < unat (lcd_ledgerSeq (hd (lm_syncing M)))
    then historyCaughtup C False mode he M = Inl Null_Deref
    else \<forall>M1. historyCaughtup C False mode he M = Inr M1 \<longrightarrow> lm_state M1 = LM_SYNCED_STATE \<and> lm_syncing M1 = [] \<and>
      (if lm_syncing M = [] \<or> lcd_ledgerSeq (last (lm_syncing M)) \<le> lh_ledgerSeq (he_header he) then lm_lastClosed M1 = he
       else lcl_seq M1 = lcd_ledgerSeq (last (lm_syncing M)) \<and> lh_scpValue (he_header (lm_lastClosed M1)) = lcd_value (last (lm_syncing M)))"
proof -
  have ok: "linked C M" "contiguous (lm_syncing M)" using manager_reachable [OF assms(1)] by (simp_all add: manager_ok_def)
  obtain M' where M': "linked C M'" "lm_lastClosed M' = he" "lm_syncing M' = lm_syncing M" "historyCaughtup C False mode he M = knitUp C M'"
  proof (cases "mode = CATCHUP_MINIMAL")
    case True
    with assms(3) have c: "LedgerHeaderFrame_next C he = Inr c" by simp
    with True show thesis
      by (intro that [of "M\<lparr>lm_lastClosed := he, lm_current := c\<rparr>"]) (use LedgerHeaderFrame_next_Inr [THEN iffD1, OF c] in \<open>auto simp: historyCaughtup_def c linked_def\<close>)
  next
    case False
    with assms(3) ok(1) show thesis by (intro that [of M]) (auto simp: historyCaughtup_def assertE_def)
  qed
  have f: "lcl_seq M' = lh_ledgerSeq (he_header he)" using M'(2) by (simp add: lcl_seq_def)
  have seq: "unat (lcl_seq M' + 1) = unat (lcl_seq M') + 1" using Suc_seq assms(4) f by simp
  show ?thesis
  proof (cases "lm_syncing M \<noteq> [] \<and> unat (lh_ledgerSeq (he_header he)) + 1 < unat (lcd_ledgerSeq (hd (lm_syncing M)))")
    case True
    then obtain lcd lcds where l: "lm_syncing M = lcd # lcds" "unat (lcl_seq M' + 1) < unat (lcd_ledgerSeq lcd)"
      using seq f by (cases "lm_syncing M") auto
    then have "\<not> lcd_ledgerSeq lcd < lcl_seq M' + 1" "lcd_ledgerSeq lcd \<noteq> lcl_seq M' + 1" "lcd_ledgerSeq lcd > lcl_seq M' + 1"
      by (auto simp: word_less_nat_alt)
    then have "knitUp C M' = Inl Null_Deref" using M'(3) l(1) by (simp add: knitUp_def assertE_def)
    with True M'(4) show ?thesis by simp
  next
    case False
    have "lm_state M1 = LM_SYNCED_STATE \<and> lm_syncing M1 = [] \<and>
      (if lm_syncing M = [] \<or> lcd_ledgerSeq (last (lm_syncing M)) \<le> lh_ledgerSeq (he_header he) then lm_lastClosed M1 = he
       else lcl_seq M1 = lcd_ledgerSeq (last (lm_syncing M)) \<and> lh_scpValue (he_header (lm_lastClosed M1)) = lcd_value (last (lm_syncing M)))"
      if k: "knitUp C M' = Inr M1" for M1
    proof -
      obtain M2 where r: "replayBuffered C (lm_syncing M) M' = Inr M2" "M1 = M2\<lparr>lm_state := LM_SYNCED_STATE, lm_syncing := []\<rparr>"
        using k M'(3) by (auto simp: knitUp_def bindE_Inr_iff)
      show ?thesis
      proof (cases "lm_syncing M")
        case Nil
        with r M'(2) show ?thesis by simp
      next
        case (Cons lcd lcds)
        have "if lcd_ledgerSeq (last (lm_syncing M)) \<le> lcl_seq M' then M2 = M'
            else lcl_seq M2 = lcd_ledgerSeq (last (lm_syncing M)) \<and> lh_scpValue (he_header (lm_lastClosed M2)) = lcd_value (last (lm_syncing M))"
          by (rule replay_contiguous [OF M'(1) ok(2) assms(5) _ _ _ r(1)]) (use assms(4) False Cons f in simp_all)
        with Cons r(2) f M'(2) show ?thesis by (auto simp: lcl_seq_def split: if_splits)
      qed
    qed
    with False M'(4) show ?thesis by auto
  qed
qed

theorem buffer_knit_up_witness:
  "\<exists>M M1. lm_reachable node_env M \<and> map lcd_ledgerSeq (lm_syncing M) = [3, 4] \<and> historyCaughtup node_env False CATCHUP_MINIMAL (archived 2) M = Inr M1 \<and>
     lm_state M1 = LM_SYNCED_STATE \<and> lcl_seq M1 = 4"
proof -
  have "(case bindE (startNewLedger node_env fresh_node) (\<lambda>M. bindE (externalizeValue node_env (decided 3) M) (\<lambda>M2.
      bindE (externalizeValue node_env (decided 4) M2) (\<lambda>M3. bindE (historyCaughtup node_env False CATCHUP_MINIMAL (archived 2) M3) (\<lambda>M4.
        Inr (lm_state M3, lm_syncing M3))))) of Inr x \<Rightarrow> x = (LM_CATCHING_UP_STATE, [decided 3, decided 4]) | Inl _ \<Rightarrow> False)" by code_simp
  then obtain M M2 M3 M4 where run: "startNewLedger node_env fresh_node = Inr M" "externalizeValue node_env (decided 3) M = Inr M2"
    "externalizeValue node_env (decided 4) M2 = Inr M3" "historyCaughtup node_env False CATCHUP_MINIMAL (archived 2) M3 = Inr M4"
    "lm_state M3 = LM_CATCHING_UP_STATE" "lm_syncing M3 = [decided 3, decided 4]"
    by (auto simp: bindE_Inr_iff split: sum.splits)
  have "lm_reachable node_env M3"
    using reach_new [OF _ _ run(1)] run(2,3) by (auto simp: fresh_node_def intro: reach_step step_externalize)
  moreover have "LedgerHeaderFrame_next node_env (archived 2) = Inr ((he_header (archived 2))\<lparr>lh_ledgerSeq := 3, lh_previousLedgerHash := he_hash (archived 2)\<rparr>)"
    by (simp add: LedgerHeaderFrame_next_def header_getHash_def archived_def node_env_def assertE_def)
  ultimately show ?thesis
    using buffer_knit_up [of node_env M3 CATCHUP_MINIMAL "archived 2"] run(4-) by (auto simp: decided_def archived_def)
qed

section \<open>The history of a ledger\<close>












section \<open>Transactions that fail\<close>

text \<open>The commit of an open delta into an open one it was nested in does not throw.\<close>

lemma foldE_no_throw:
  assumes "\<And>x d e. mOpen d \<Longrightarrow> f x d \<noteq> Inl (Runtime_Error e)" "\<And>x d d1. f x d = Inr d1 \<Longrightarrow> mOpen d1 = mOpen d"
  shows "mOpen d \<Longrightarrow> foldE f xs d \<noteq> Inl (Runtime_Error e)"
proof (induction xs arbitrary: d)
  case (Cons x xs)
  with assms show ?case by (cases "f x d") (auto simp: bindE_def)
qed simp

lemma entries_no_throw:
  assumes "mOpen d"
  shows "addEntry x d \<noteq> Inl (Runtime_Error e)" "modEntry x d \<noteq> Inl (Runtime_Error e)" "deleteEntry k d \<noteq> Inl (Runtime_Error e)"
    "recordFrom other k d \<noteq> Inl (Runtime_Error e)"
  using assms by (auto simp: addEntry_def modEntry_def deleteEntry_def recordFrom_def recordEntry_def delta_checkState_def Let_def assertE_def bindE_def
      split: option.splits)

lemma frame_open: "delta_frame d1 = delta_frame d \<Longrightarrow> mOpen d1 = mOpen d"
  by (simp add: delta_frame_def)

lemma bind_no_throw: "m \<noteq> Inl x \<Longrightarrow> (\<And>y. m = Inr y \<Longrightarrow> f y \<noteq> Inl x) \<Longrightarrow> bindE m f \<noteq> Inl x"
  by (cases m) simp_all

lemma mergeEntries_no_throw:
  assumes "mOpen d"
  shows "mergeEntries other d \<noteq> Inl (Runtime_Error e)"
proof -
  let ?f = "\<lambda>k d. bindE (deleteEntry k d) (recordFrom other k)" and ?g = "\<lambda>(_ :: LedgerKey, e). addEntry e"
    and ?h = "\<lambda>(k, e) d. bindE (modEntry e d) (recordFrom other k)"
  note frames = addEntry_frame modEntry_frame deleteEntry_frame recordFrom_frame
  have f: "mOpen d \<Longrightarrow> ?f k d \<noteq> Inl (Runtime_Error e)" "?f k d = Inr d1 \<Longrightarrow> delta_frame d1 = delta_frame d" for k d d1 e
    by (rule bind_no_throw, auto simp: entries_no_throw dest: frame_open [OF frames(3)]) (auto simp: bindE_Inr_iff dest!: frames)
  have g: "mOpen d \<Longrightarrow> ?g p d \<noteq> Inl (Runtime_Error e)" "?g p d = Inr d1 \<Longrightarrow> delta_frame d1 = delta_frame d" for p d d1 e
    using entries_no_throw(1) frames(1) by (auto split: prod.splits)
  have h: "mOpen d \<Longrightarrow> ?h p d \<noteq> Inl (Runtime_Error e)" "?h p d = Inr d1 \<Longrightarrow> delta_frame d1 = delta_frame d" for p d d1 e
    unfolding split_beta by (rule bind_no_throw, auto simp: entries_no_throw dest: frame_open [OF frames(2)]) (auto simp: bindE_Inr_iff dest!: frames)
  have "foldE ?f xs d \<noteq> Inl (Runtime_Error e)" if "mOpen d" for d xs
    using that by (rule foldE_no_throw [where f = ?f, rotated 2]) (fact f(1), fact frame_open [OF f(2)])
  moreover have "foldE ?g ys d \<noteq> Inl (Runtime_Error e)" if "mOpen d" for d ys
    using that by (rule foldE_no_throw [where f = ?g, rotated 2]) (fact g(1), fact frame_open [OF g(2)])
  moreover have "foldE ?h ys d \<noteq> Inl (Runtime_Error e)" if "mOpen d" for d ys
    using that by (rule foldE_no_throw [where f = ?h, rotated 2]) (fact h(1), fact frame_open [OF h(2)])
  moreover have "mOpen d1 = mOpen d" if "foldE ?f xs d = Inr d1" for d d1 xs
    using foldE_frame [OF f(2) that] by (rule frame_open)
  moreover have "mOpen d1 = mOpen d" if "foldE ?g ys d = Inr d1" for d d1 ys
    using foldE_frame [OF g(2) that] by (rule frame_open)
  ultimately show ?thesis
    unfolding mergeEntries_def using assms by (intro bind_no_throw) (simp_all add: delta_checkState_def)
qed

lemma commitTransaction_success:
  assumes "mOpen outer" "mOpen (st_delta s)" "mPreviousHeaderValue (st_delta s) = mCurrentHeader outer" "commitTransaction outer s r tm = Inr (x, s1)"
  shows "x = (r, tm)"
  using assms mergeEntries_no_throw [OF assms(1), of "st_delta s"]
  by (auto simp: commitTransaction_def commit_outer_def delta_checkState_def bindE_def split: sum.splits scp_error.splits prod.splits if_splits)

text \<open>
  A transaction that fails while a ledger is closed leaves nothing behind: whatever the reason (an error code of the
  transaction or of one of its operations, or an exception that was caught), the delta of the ledger is the same as
  before and so are the ledger entries. When it returns a code other than success, the loop goes on with that code.
\<close>

lemma failed_transaction_contained:
  assumes "mOpen (st_delta s)"
  shows "(\<forall>code rs tm s1. applyTransaction C app tx s = Inr (((code, rs), tm), s1) \<and> code \<noteq> txSUCCESS \<longrightarrow>
      st_delta s1 = st_delta s \<and> entries s1 = entries s) \<and>
    (\<forall>code rs tm tx1 s2. tx_apply app tx (s\<lparr>st_delta := LedgerDelta_nested (st_delta s)\<rparr>) = Inr ((code, rs, tm, tx1), s2) \<and> code \<noteq> txSUCCESS \<longrightarrow>
      (\<exists>s1. applyTransaction C app tx s = Inr (((code, rs), tm), s1)))"
proof -
  let ?s = "s\<lparr>st_delta := LedgerDelta_nested (st_delta s)\<rparr>"
  have view: "db_view (flush_all ks db) = db_view db" for ks db by (rule db_view_tables) (simp_all add: flush_all_tables)
  have cache: "db_view (rolled_back db t) = db_view db" for db t
    unfolding rolled_back_def view by (rule db_view_tables) simp_all
  have fail: "applyTransaction C app tx s = Inr (((code, rs), tm), \<lparr>st_db = flush_all (LedgerDelta_destroy (st_delta s2)) (st_db s2), st_delta = st_delta s\<rparr>) \<and>
      entries s2 = entries s" if t: "tx_apply app tx ?s = Inr ((code, rs, tm, tx1), s2)" "code \<noteq> txSUCCESS" for code rs tm tx1 s2
  proof -
    have "entries s2 = entries s" "delta_changes (st_delta s2) = delta_changes (LedgerDelta_nested (st_delta s))"
      using tx_apply_cases [OF t(1)] t(2) by auto
    moreover from this(2) have "getChanges (st_delta s2) = []" "mCurrentHeader (st_delta s2) = mCurrentHeader (st_delta s)"
      by (simp_all add: delta_changes_def getChanges_def LedgerDelta_nested_def LedgerDelta_on_def)
    ultimately show ?thesis using t by (simp add: applyTransaction_def assertE_def)
  qed
  have "st_delta s1 = st_delta s \<and> entries s1 = entries s" if a: "applyTransaction C app tx s = Inr (((code, rs), tm), s1)" "code \<noteq> txSUCCESS" for code rs tm s1
  proof (cases "tx_apply app tx ?s")
    case (Inl e)
    with a show ?thesis by (auto simp: applyTransaction_def cache split: scp_error.splits prod.splits)
  next
    case (Inr r)
    obtain c rs2 tm2 tx1 s2 where r: "r = ((c, rs2, tm2, tx1), s2)" using prod_cases5 by (metis (no_types) surj_pair)
    show ?thesis
    proof (cases "c = txSUCCESS")
      case False
      with fail [OF Inr [unfolded r]] a show ?thesis by (auto simp: view)
    next
      case True
      have f: "delta_frame (st_delta s2) = delta_frame (LedgerDelta_nested (st_delta s))" using steadyD [OF steady_tx_apply Inr [unfolded r]] by simp
      have "commitTransaction (st_delta s) s2 (c, rs2) tm2 = Inr (((code, rs), tm), s1)" using a Inr r True by (simp add: applyTransaction_def)
      from commitTransaction_success [OF assms _ _ this] f True a(2) show ?thesis
        by (simp add: delta_frame_def LedgerDelta_nested_def LedgerDelta_on_def)
    qed
  qed
  with fail show ?thesis by blast
qed

end
