(* ===== verification/Spec2Isabelle.thy ===== *)
theory Spec2Isabelle
  imports Slot_Properties Ledger_Properties TxSet_Properties Frame_Properties Catchup_Properties LedgerManager_Properties
begin

text \<open>
  \<^bold>\<open>Consensus, transactions and state storage of smart-core (a stellar-core fork).\<close>

  \<^emph>\<open>The program.\<close> stellar-core keeps a replicated ledger. Its nodes agree on the transaction set of each
  ledger through the consensus library in \<^verbatim>\<open>src/scp\<close>: each ledger is a \<^emph>\<open>slot\<close>; a slot first runs the
  nomination protocol, which produces candidate values, and then the ballot protocol, which commits one
  of them. The application (the herder) sits behind the interface \<^verbatim>\<open>SCPDriver\<close>. The transactions of the agreed
  set (\<^verbatim>\<open>src/herder/TxSetFrame.cpp\<close>) are applied one by one (\<^verbatim>\<open>src/transactions\<close>): their operations load, change
  and store ledger entries in an SQL database, behind a cache and a nested change log (\<^verbatim>\<open>src/ledger\<close>,
  \<^verbatim>\<open>src/database\<close>). Once a ledger is closed, the entries it changed are added as a batch to the \<^emph>\<open>bucket list\<close> of \<^verbatim>\<open>src/bucket\<close>, a log-structured store
  whose hash stands in the ledger header and against which the SQL database can be checked.

  \<^emph>\<open>What is modelled, and where.\<close>
  \<^item> \<open>Prelude\<close>: fixed-width types, the error type of the code (exceptions, failed assertions, null
    dereferences), the error monad and its postconditions, \<^verbatim>\<open>std::set\<close> and \<^verbatim>\<open>std::map\<close> as sorted lists
    behind the locales \<open>ordered_set\<close> and \<open>ordered_map\<close>.
  \<^item> \<open>SCP_Types\<close>: the XDR types of \<^verbatim>\<open>xdr/Stellar-SCP.x\<close>. \<open>Util_Types\<close>: \<^verbatim>\<open>bigDivide\<close> of \<^verbatim>\<open>util/types.cpp\<close>.
  \<^item> \<open>LocalNode\<close>, \<open>Quorum_Search\<close>: \<^verbatim>\<open>scp/LocalNode.cpp\<close> (quorum sets, slices, blocking sets, quorums,
    weights, the transitive search). \<open>Quorum_Logic\<close> and \<open>Closest_Blocking\<close> hold the abstract
    definitions (\<open>has_slice\<close>, \<open>blocked_by\<close>, the locale \<open>slice_system\<close>) and the proofs that the counting
    code computes them.
  \<^item> \<open>Slot_State\<close>: the states of the two protocols and of a slot as records; the driver as a record of
    functions, with every notification it receives appended to a log (\<open>mDriverCalls\<close>); the federated
    voting of \<^verbatim>\<open>scp/Slot.cpp\<close>.
  \<^item> \<open>Ballot_Statements\<close>, \<open>BallotProtocol\<close>, \<open>Ballot_Steps\<close>: \<^verbatim>\<open>scp/BallotProtocol.cpp\<close>.
  \<^item> \<open>NominationProtocol\<close>: \<^verbatim>\<open>scp/NominationProtocol.cpp\<close>.
  \<^item> \<open>Slot\<close>: the operations of \<^verbatim>\<open>scp/Slot.cpp\<close> and the transition system of a slot (\<open>slot_step\<close>,
    \<open>slot_reachable\<close>). \<open>SCP\<close>: \<^verbatim>\<open>scp/SCP.cpp\<close> and the transition system of an instance (\<open>scp_step\<close>).
  \<^item> \<open>Ledger_Types\<close>: ledger entries, keys and their order (\<^verbatim>\<open>xdr/Stellar-ledger-entries.x\<close>,
    \<^verbatim>\<open>bucket/LedgerCmp.h\<close>). \<open>Bucket\<close>: \<^verbatim>\<open>bucket/Bucket.cpp\<close> (fresh, merge, shadowing). \<open>FutureBucket\<close>: the
    merges in progress of \<^verbatim>\<open>bucket/FutureBucket.cpp\<close>. \<open>BucketList\<close>: \<^verbatim>\<open>bucket/BucketList.cpp\<close>, the check of
    the database (\<^verbatim>\<open>checkDBAgainstBuckets\<close>) and the saved state (\<^verbatim>\<open>HistoryArchiveState\<close>,
    \<^verbatim>\<open>BucketManagerImpl::assumeState\<close>).
  \<^item> \<open>LedgerDelta\<close>: \<^verbatim>\<open>ledger/LedgerDelta.cpp\<close>, the nested changes of ledger, transactions and operations.
  \<^item> \<open>TxSetFrame\<close>: \<^verbatim>\<open>herder/TxSetFrame.cpp\<close>, the transaction set of a ledger.
  \<^item> \<open>Assets\<close>: asset codes, prices and the 64-bit arithmetic of \<^verbatim>\<open>util/types.cpp\<close>, with signed overflow as an error.
  \<^item> \<open>Database\<close>: the tables of ledger entries as association lists sorted by their primary keys, with the columns
    of the schema, and the least-recently-used cache of entries (\<^verbatim>\<open>lib/util/lrucache.hpp\<close>). \<open>Database_Admin\<close>: creation,
    schema upgrades, \<^verbatim>\<open>checkDB\<close>.
  \<^item> \<open>AccountFrame\<close>, \<open>TrustFrame\<close>, \<open>OfferFrame\<close>, \<open>DataFrame\<close>, \<open>EntryFrame\<close>: loading, storing and deleting entries of each
    kind (\<^verbatim>\<open>ledger/*Frame.cpp\<close>), as programs on the database and the current delta (\<open>Ledger_Store\<close>).
  \<^item> \<open>Bucket_Apply\<close>, \<open>ApplyBucketsWork\<close>: \<^verbatim>\<open>bucket/BucketApplicator.cpp\<close> and the work of \<^verbatim>\<open>history/HistoryWork.cpp\<close> that
    fills the database from an archived bucket list, with the scheduling of \<^verbatim>\<open>work/Work.cpp\<close>.
  \<^item> \<open>OfferExchange\<close>: \<^verbatim>\<open>transactions/OfferExchange.cpp\<close>, crossing offers and the order book.
  \<^item> \<open>Transaction_Types\<close>: \<^verbatim>\<open>xdr/Stellar-transaction.x\<close>. \<open>Operations\<close>, \<open>Payments\<close>, \<open>ManageOffer\<close>: validity and application of
    the operations (\<^verbatim>\<open>transactions/*OpFrame.cpp\<close>). \<open>Transactions\<close>: \<^verbatim>\<open>OperationFrame.cpp\<close> and \<^verbatim>\<open>TransactionFrame.cpp\<close>.
  \<^item> \<open>LedgerManager\<close>: \<^verbatim>\<open>ledger/LedgerManagerImpl.cpp\<close>, which closes ledgers (sequence numbers, transactions, upgrades, the batch
    for the bucket list, the header), starts and restarts a node, and follows consensus or catches up; with it
    \<^verbatim>\<open>LedgerHeaderFrame.cpp\<close>, \<^verbatim>\<open>BucketManagerImpl::snapshotLedger\<close> and the history tables of transactions.

  \<^emph>\<open>What is proved.\<close>
  \<^item> \<open>Ballot_Safety\<close>, \<open>Nomination_Safety\<close>: invariants and progress of every operation, proved once in the
    locales \<open>ballot_recursion\<close> and \<open>nomination_recursion\<close> from what the recursive call into the slot
    keeps, then for the whole recursion by induction.
  \<^item> \<open>Ballot_Termination\<close>, \<open>Nomination_Termination\<close>: how much fuel is enough, and that more changes
    nothing.
  \<^item> \<open>Ballot_Votes\<close>: each step of the white paper is taken only with the votes that justify it; restoring
    from a statement in every phase; the bump. \<open>Nomination_Leaders\<close>: the round leaders.
  \<^item> \<open>Quorum_Properties\<close>, \<open>Ballot_Properties\<close>, \<open>Slot_Properties\<close>: the properties of the development, each
    with an instance on the networks of \<open>Sample\<close>.
  \<^item> \<open>BucketList_Refinement\<close>: the levels with their pending merges store a map from keys to entries
    (\<open>stored\<close>), and adding a batch updates it; \<open>BucketList_Restart\<close>: saving and restarting;
    \<open>BucketList_Check\<close>: the check of the database, and the runs of a bucket list (\<open>bucket_run\<close>) with
    worker threads, checks and restarts in any order, as long as a restart does not find the flag of a merge that must
    keep deletions false; \<open>Bucket_Properties\<close>: the properties, and what the other restarts do
    (\<open>restart_revives_entry\<close>).
  \<^item> \<open>LedgerDelta_Refinement\<close>: a delta stands for a change of the map of entries (\<open>effect\<close>); the locale
    \<open>change_log\<close> states the contract of its operations. \<open>Ledger_Properties\<close>: nesting, and that a closed
    ledger reaches the bucket list. \<open>TxSet_Properties\<close>: the order of application, surge pricing, trimming.
  \<^item> \<open>Ledger_Rows\<close>, \<open>Ledger_View\<close>: the map of ledger entries the tables stand for (\<open>db_view\<close>) and what makes tables and
    cache sound. \<open>Frame_Store\<close>: the contract of a frame (load, store, delete) as a locale, interpreted for every kind of
    entry. \<open>Ledger_Programs\<close>: weakest preconditions of programs over the frames. \<open>Frame_Properties\<close>: frames, cache, tables and
    delta stay in step; the check against the buckets. \<open>Catchup\<close>, \<open>Catchup_Properties\<close>: applying buckets and catching up.
  \<^item> \<open>Exchange_Effect\<close>, \<open>Exchange_Book\<close>, \<open>Exchange_Properties\<close>: what an exchange moves, that it ends and at which prices.
  \<^item> \<open>Signature_Check\<close>, \<open>Payment_Effect\<close>, \<open>Transaction_Properties\<close>: who must sign, what a payment moves, that sequence
    numbers are consumed and that transactions are applied as a whole or not at all.
  \<^item> \<open>Ledger_Steady\<close>: programs on the ledger change the header in four counters only. \<open>Ledger_Chain\<close>: the node as a transition
    system (\<open>lm_step\<close>, \<open>lm_reachable\<close>) and its invariant. \<open>LedgerManager_Properties\<close>: closed ledgers follow consensus in order,
    the buffer is knitted to the history that was caught up with, a closed ledger is recorded in full, and a transaction
    that fails leaves nothing behind.

  \<^emph>\<open>Fuel.\<close> The slot processes the messages it emits itself, through \<^verbatim>\<open>Slot::processEnvelope\<close>, and
  \<^verbatim>\<open>advanceSlot\<close> loops while \<^verbatim>\<open>attemptBump\<close> succeeds. The depth of the first is bounded by
  \<^verbatim>\<open>MAX_ADVANCE_SLOT_RECURSION\<close> (50), the second by the 32-bit counters (fewer than \<open>2 ^ 33\<close> rounds), the
  recursion of nomination by four times the number of values around (\<open>nomination_fuel\<close>). These are the
  bounds of \<open>slot_fuel_ok\<close>; running out of fuel is an error value of its own, and is proved not to happen.
  The loop of \<^verbatim>\<open>convertWithOffers\<close> over the queries of the order book, five offers each, carries fuel too
  (\<open>app_fuel\<close>); more than a fifth of the length of the book is enough. The work that applies buckets runs as many rounds
  as there are entries and levels.

  \<^emph>\<open>Reading the model.\<close> Assertions (\<^verbatim>\<open>dbgAssert\<close>) abort unless the build sets \<^verbatim>\<open>NDEBUG\<close>, which is a field of
  the driver record. After an exception the C++ object keeps what was done before it; the model does not
  describe a slot after an error. Driver callbacks are logged and do not call back into the library
  except through timers, which are steps of the transition system. A slot that was purged may be created
  again, so "at most once" is per slot object. \<^verbatim>\<open>mRoundNumber\<close> is an \<^verbatim>\<open>int32\<close>, kept as a 32-bit word.
  In the bucket list every \<^verbatim>\<open>assert\<close> is checked and proved to hold. A bucket is the list of its entries,
  its hash a function \<open>H\<close> of them and a hexadecimal hash the hash itself; a merge on a worker thread is
  its result with a flag saying whether the worker is done, which a step of its own sets. The field
  \<^verbatim>\<open>mKeepDeadEntries\<close> of a default-constructed \<^verbatim>\<open>FutureBucket\<close> is indeterminate: it is an argument.
  Programs on the ledger (\<open>led\<close>) take the database and the delta and return a result with the new ones, or the
  exception. A shared frame that an operation changes is passed on explicitly, so that aliasing (an operation on the
  account that signed the transaction) shows. Parameters stand for the verification of signatures, the hash of a
  transaction, the text form of keys, and the division of \<^verbatim>\<open>double\<close>s for the column \<^verbatim>\<open>price\<close> of an offer.
  In the ledger manager the hashes, the decoding of upgrades, the envelope of a transaction in a set and the
  state in which an exception stops a transaction (\<open>atThrow\<close>) are parameters (\<open>LedgerEnv\<close>); what catching it undoes is
  modelled (\<open>rolled_back\<close>). The history manager answers a request to catch up with a step of the transition system. An
  exception while a ledger is closed ends the node, and so does reading through a reference to an element of the buffer that
  was cleared, which is undefined in the code and an error of its own here (\<open>Null_Deref\<close>). The driver of a slot answers the
  same question alike throughout a run.

  \<^emph>\<open>Not modelled.\<close> Logging, JSON dumps and string rendering; the default hash functions of the driver
  (SHA256, a parameter); the serialisation of XDR (generated code); bucket files, their cache and
  retention; the queue of history checkpoints, publishing and downloading of history; \<^verbatim>\<open>checkDbState\<close>; the streams of
  transactions and headers; herder, overlay and the application around these libraries; metrics.
\<close>

end
